(* ===== verification/Inspectra_Prelude.thy ===== *)
theory Inspectra_Prelude
  imports
    Main
    "HOL-Library.Char_ord"
    "HOL-Library.List_Lexorder"
    "HOL-Library.Product_Lexorder"
    "HOL-Library.Sublist"
begin

section \<open>Prelude: results, Python text and shared list facts\<close>

text \<open>
  What every component of the development uses:
  \<^item> fallible Python code as a sum, \<open>Inl\<close> for a raised exception and \<open>Inr\<close> for a returned
    value, sequenced by \<open>bind_res\<close>;
  \<^item> the \<^verbatim>\<open>str\<close> operations the sources call. A \<^verbatim>\<open>str\<close> is an Isabelle \<^typ>\<open>string\<close>, that is a
    list of code points below 256; on those the definitions below agree with CPython
    (in particular the regular expression class \<^verbatim>\<open>\d\<close> is exactly the ten ASCII digits there);
    text with larger code points is outside the model;
  \<^item> identifiers: the lowercase hexadecimal identifiers and organization identifiers that the
    stores validate with regular expressions;
  \<^item> a \<^verbatim>\<open>dict\<close> whose insertion order matters, as an association list with distinct keys.
  Python tuples and strings are compared lexicographically; the orders come from the library
  theories Product_Lexorder, List_Lexorder and Char_ord. Instants are integers: the number of
  microseconds since the epoch, the resolution of \<^verbatim>\<open>datetime\<close>.
\<close>

named_theorems res_simps \<open>evaluation of sequenced results\<close>
named_theorems str_simps \<open>rewriting of the Python string operations\<close>

type_synonym instant = int
type_synonym 'k ident_set = "'k set"

subsection \<open>Results\<close>

fun bind_res :: "'e + 'a \<Rightarrow> ('a \<Rightarrow> 'e + 'b) \<Rightarrow> 'e + 'b" where
  "bind_res (Inl e) f = Inl e"
| "bind_res (Inr x) f = f x"

declare bind_res.simps [res_simps]

lemma bind_res_cong [fundef_cong]:
  "m = n \<Longrightarrow> (\<And>x. n = Inr x \<Longrightarrow> f x = g x) \<Longrightarrow> bind_res m f = bind_res n g"
  by (cases n) auto

lemma bind_res_Inr_iff [res_simps]:
  "bind_res m f = Inr y \<longleftrightarrow> (\<exists>x. m = Inr x \<and> f x = Inr y)"
  by (cases m) auto

lemma bind_res_Inl_iff [res_simps]:
  "bind_res m f = Inl e \<longleftrightarrow> m = Inl e \<or> (\<exists>x. m = Inr x \<and> f x = Inl e)"
  by (cases m) auto

lemma bind_res_split:
  "P (bind_res m f) \<longleftrightarrow> (\<forall>e. m = Inl e \<longrightarrow> P (Inl e)) \<and> (\<forall>x. m = Inr x \<longrightarrow> P (f x))"
  by (cases m) auto

text \<open>A Python loop that builds a list from calls that may raise.\<close>

fun map_res :: "('a \<Rightarrow> 'e + 'b) \<Rightarrow> 'a list \<Rightarrow> 'e + 'b list" where
  "map_res f [] = Inr []"
| "map_res f (x # xs) = bind_res (f x) (\<lambda>y. bind_res (map_res f xs) (\<lambda>ys. Inr (y # ys)))"

lemma map_res_Inr_iff:
  "map_res f xs = Inr ys \<longleftrightarrow> list_all2 (\<lambda>x y. f x = Inr y) xs ys"
proof (induction xs arbitrary: ys)
  case Nil
  then show ?case by auto
next
  case (Cons x xs)
  then show ?case by (cases ys) (auto simp: res_simps)
qed

lemma map_res_total:
  "(\<And>x. x \<in> set xs \<Longrightarrow> \<exists>y. f x = Inr y) \<Longrightarrow> \<exists>ys. map_res f xs = Inr ys"
proof (induction xs)
  case Nil
  then show ?case by simp
next
  case (Cons x xs)
  then obtain y ys where "f x = Inr y" "map_res f xs = Inr ys" by fastforce
  then show ?case by simp
qed

subsection \<open>Characters\<close>

definition code :: "char \<Rightarrow> nat" where
  "code c = of_char c"

definition is_digit :: "char \<Rightarrow> bool" where
  "is_digit c \<longleftrightarrow> 48 \<le> code c \<and> code c \<le> 57"

definition is_lower :: "char \<Rightarrow> bool" where
  "is_lower c \<longleftrightarrow> 97 \<le> code c \<and> code c \<le> 122"

definition is_upper :: "char \<Rightarrow> bool" where
  "is_upper c \<longleftrightarrow> 65 \<le> code c \<and> code c \<le> 90"

definition is_letter :: "char \<Rightarrow> bool" where
  "is_letter c \<longleftrightarrow> is_lower c \<or> is_upper c"

definition is_ascii_alnum :: "char \<Rightarrow> bool" where
  "is_ascii_alnum c \<longleftrightarrow> is_digit c \<or> is_letter c"

definition is_hex :: "char \<Rightarrow> bool" where
  "is_hex c \<longleftrightarrow> is_digit c \<or> (97 \<le> code c \<and> code c \<le> 102)"

text \<open>\<^verbatim>\<open>str.isspace\<close> on code points below 256.\<close>

definition is_space :: "char \<Rightarrow> bool" where
  "is_space c \<longleftrightarrow>
     (9 \<le> code c \<and> code c \<le> 13) \<or> (28 \<le> code c \<and> code c \<le> 32) \<or> code c = 133 \<or> code c = 160"

text \<open>\<^verbatim>\<open>str.lower\<close> on code points below 256: the ASCII and the Latin-1 capital letters.\<close>

definition lower_char :: "char \<Rightarrow> char" where
  "lower_char c =
     (if is_upper c \<or> (192 \<le> code c \<and> code c \<le> 222 \<and> code c \<noteq> 215)
      then char_of (code c + 32) else c)"

definition py_lower :: "string \<Rightarrow> string" where
  "py_lower s = map lower_char s"

lemmas char_class_defs =
  code_def is_digit_def is_lower_def is_upper_def is_letter_def is_ascii_alnum_def is_hex_def is_space_def

text \<open>The classes that fill the long identifiers of the stores, read off the bits of a character.\<close>

lemma is_digit_bits [code]:
  "is_digit (Char b0 b1 b2 b3 b4 b5 b6 b7) \<longleftrightarrow> b5 \<and> b4 \<and> \<not> b6 \<and> \<not> b7 \<and> \<not> (b3 \<and> (b1 \<or> b2))"
  by (cases b0; cases b1; cases b2; cases b3; cases b4; cases b5; cases b6; cases b7)
    (simp_all add: is_digit_def code_def)

lemma is_hex_bits [code]:
  "is_hex (Char b0 b1 b2 b3 b4 b5 b6 b7) \<longleftrightarrow>
     b5 \<and> \<not> b7 \<and> (if b4 then \<not> b6 \<and> \<not> (b3 \<and> (b1 \<or> b2)) else b6 \<and> \<not> b3 \<and> (b0 \<or> b1 \<or> b2) \<and> \<not> (b0 \<and> b1 \<and> b2))"
  by (cases b0; cases b1; cases b2; cases b3; cases b4; cases b5; cases b6; cases b7)
    (simp_all add: is_hex_def is_digit_def code_def)

lemma code_less_256 [simp]: "code c < 256"
  by (simp add: code_def)

lemma is_digit_not_space [simp]: "is_digit c \<Longrightarrow> \<not> is_space c"
  by (auto simp: char_class_defs)

lemma is_hex_not_space [simp]: "is_hex c \<Longrightarrow> \<not> is_space c"
  by (auto simp: char_class_defs)

lemma is_letter_not_space [simp]: "is_letter c \<Longrightarrow> \<not> is_space c"
  by (auto simp: char_class_defs)

lemma is_ascii_alnum_not_space [simp]: "is_ascii_alnum c \<Longrightarrow> \<not> is_space c"
  by (auto simp: is_ascii_alnum_def)

subsection \<open>Stripping, splitting and joining\<close>

definition py_strip :: "string \<Rightarrow> string" where
  "py_strip s = rev (dropWhile is_space (rev (dropWhile is_space s)))"

lemma dropWhile_id: "(\<And>x. x \<in> set xs \<Longrightarrow> \<not> P x) \<Longrightarrow> dropWhile P xs = xs"
  by (cases xs) auto

lemma py_strip_no_space [simp]: "(\<And>c. c \<in> set s \<Longrightarrow> \<not> is_space c) \<Longrightarrow> py_strip s = s"
  using dropWhile_id [of "rev s" is_space] by (simp add: py_strip_def dropWhile_id)

text \<open>\<^verbatim>\<open>str.split(d)\<close> for a one-character separator: empty pieces are kept.\<close>

fun py_split :: "char \<Rightarrow> string \<Rightarrow> string list" where
  "py_split d [] = [[]]"
| "py_split d (c # cs) =
     (if c = d then [] # py_split d cs
      else (case py_split d cs of [] \<Rightarrow> [[c]] | w # ws \<Rightarrow> (c # w) # ws))"

lemma py_split_nonempty [simp]: "py_split d s \<noteq> []"
  by (induction d s rule: py_split.induct) (auto split: list.splits)

lemma py_split_no_sep: "d \<notin> set s \<Longrightarrow> py_split d s = [s]"
  by (induction s) auto

lemma py_split_append:
  "d \<notin> set w \<Longrightarrow> py_split d (w @ d # s) = w # py_split d s"
  by (induction w) auto

text \<open>\<^verbatim>\<open>str.split()\<close>: maximal runs of non-space characters.\<close>

fun words_from :: "string \<Rightarrow> string \<Rightarrow> string list" where
  "words_from acc [] = (if acc = [] then [] else [rev acc])"
| "words_from acc (c # cs) =
     (if is_space c then (if acc = [] then words_from [] cs else rev acc # words_from [] cs)
      else words_from (c # acc) cs)"

definition py_words :: "string \<Rightarrow> string list" where
  "py_words s = words_from [] s"

lemma words_from_word:
  "(\<And>c. c \<in> set w \<Longrightarrow> \<not> is_space c) \<Longrightarrow> words_from acc (w @ s) = words_from (rev w @ acc) s"
  by (induction w arbitrary: acc) auto

lemma words_from_no_space:
  assumes "w \<in> set (words_from acc s)" "\<And>c. c \<in> set acc \<Longrightarrow> \<not> is_space c"
  shows "w \<noteq> [] \<and> (\<forall>c \<in> set w. \<not> is_space c)"
  using assms
proof (induction s arbitrary: acc)
  case Nil
  then show ?case by (auto split: if_splits)
next
  case (Cons c s)
  show ?case
  proof (cases "is_space c")
    case True
    with Cons.prems have "w = rev acc \<and> acc \<noteq> [] \<or> w \<in> set (words_from [] s)"
      by (auto split: if_splits)
    with Cons.IH [of "[]"] Cons.prems(2) show ?thesis by auto
  next
    case False
    with Cons.prems Cons.IH [of "c # acc"] show ?thesis by auto
  qed
qed

lemma py_words_no_space: "w \<in> set (py_words s) \<Longrightarrow> c \<in> set w \<Longrightarrow> \<not> is_space c"
  using words_from_no_space [of w "[]" s] by (simp add: py_words_def)

lemma py_words_nonempty: "w \<in> set (py_words s) \<Longrightarrow> w \<noteq> []"
  using words_from_no_space [of w "[]" s] by (simp add: py_words_def)

text \<open>\<^verbatim>\<open>sep.join(parts)\<close>.\<close>

fun py_join :: "string \<Rightarrow> string list \<Rightarrow> string" where
  "py_join sep [] = []"
| "py_join sep [w] = w"
| "py_join sep (w # v # ws) = w @ sep @ py_join sep (v # ws)"

lemma py_split_join:
  "ws \<noteq> [] \<Longrightarrow> (\<And>w. w \<in> set ws \<Longrightarrow> d \<notin> set w) \<Longrightarrow> py_split d (py_join [d] ws) = ws"
  by (induction "[d]" ws rule: py_join.induct) (auto simp: py_split_no_sep py_split_append)

lemma py_join_nonempty:
  "ws \<noteq> [] \<Longrightarrow> (\<And>w. w \<in> set ws \<Longrightarrow> w \<noteq> []) \<Longrightarrow> py_join sep ws \<noteq> []"
  by (induction sep ws rule: py_join.induct) auto

text \<open>\<^verbatim>\<open>text.replace(a, b)\<close> for single characters, and substring tests.\<close>

definition replace_char :: "char \<Rightarrow> char \<Rightarrow> string \<Rightarrow> string" where
  "replace_char a b s = map (\<lambda>c. if c = a then b else c) s"

definition contains :: "string \<Rightarrow> string \<Rightarrow> bool" where
  "contains needle s \<longleftrightarrow> (\<exists>suf \<in> set (suffixes s). prefix needle suf)"

definition starts_with :: "string \<Rightarrow> string \<Rightarrow> bool" where
  "starts_with p s \<longleftrightarrow> take (length p) s = p"

definition ends_with :: "string \<Rightarrow> string \<Rightarrow> bool" where
  "ends_with p s \<longleftrightarrow> starts_with (rev p) (rev s)"

lemma contains_iff_sublist: "contains needle s \<longleftrightarrow> sublist needle s"
proof
  assume "contains needle s"
  then obtain suf where "suffix suf s" "prefix needle suf" by (auto simp: contains_def)
  then show "sublist needle s"
    by (metis prefix_imp_sublist suffix_imp_sublist sublist_order.order_trans)
next
  assume "sublist needle s"
  then obtain ps ss where "s = ps @ needle @ ss" by (auto simp: sublist_def)
  then have "suffix (needle @ ss) s" "prefix needle (needle @ ss)"
    by (auto simp: suffix_def)
  then show "contains needle s" unfolding contains_def by (metis in_set_suffixes)
qed

lemma starts_with_iff: "starts_with p s \<longleftrightarrow> prefix p s"
  by (metis append_eq_conv_conj prefix_def starts_with_def take_is_prefix)

subsection \<open>Decimal numerals\<close>

text \<open>
  \<^verbatim>\<open>int(text)\<close> on a string of ASCII digits. CPython refuses strings of more than 4300 digits
  (\<^verbatim>\<open>sys.int_info.default_max_str_digits\<close>) with a \<^verbatim>\<open>ValueError\<close>.
\<close>

datatype py_exc = ValueError

definition digit_val :: "char \<Rightarrow> int" where
  "digit_val c = int (code c) - 48"

definition digits_val :: "string \<Rightarrow> int" where
  "digits_val s = foldl (\<lambda>n c. 10 * n + digit_val c) 0 s"

definition max_str_digits :: nat where
  "max_str_digits = 4300"

definition py_int :: "string \<Rightarrow> py_exc + int" where
  "py_int s = (if length s > max_str_digits then Inl ValueError else Inr (digits_val s))"

lemma py_int_bounded: "length s \<le> max_str_digits \<Longrightarrow> py_int s = Inr (digits_val s)"
  by (simp add: py_int_def)

lemma digits_val_snoc [simp]: "digits_val (s @ [c]) = 10 * digits_val s + digit_val c"
  by (simp add: digits_val_def)

lemma digits_val_Nil [simp]: "digits_val [] = 0"
  by (simp add: digits_val_def)

lemma digits_val_nonneg: "(\<And>c. c \<in> set s \<Longrightarrow> is_digit c) \<Longrightarrow> 0 \<le> digits_val s"
  by (induction s rule: rev_induct) (auto simp: digit_val_def char_class_defs)

text \<open>\<^verbatim>\<open>str(n)\<close> for a natural number.\<close>

fun show_nat :: "nat \<Rightarrow> string" where
  "show_nat n =
     (if n < 10 then [char_of (48 + n)] else show_nat (n div 10) @ [char_of (48 + n mod 10)])"

declare show_nat.simps [simp del]

lemma digit_char [simp]:
  assumes "d < 10"
  shows "is_digit (char_of (48 + d))" "digit_val (char_of (48 + d)) = int d"
proof -
  have "of_char (char_of (48 + d) :: char) = 48 + d"
    using assms by simp
  then show "is_digit (char_of (48 + d))" "digit_val (char_of (48 + d)) = int d"
    using assms by (simp_all add: is_digit_def digit_val_def code_def)
qed

lemma show_nat_digits: "\<forall>c \<in> set (show_nat n). is_digit c"
proof (induction n rule: show_nat.induct)
  case (1 n)
  then show ?case by (subst show_nat.simps) auto
qed

lemma digits_val_show_nat: "digits_val (show_nat n) = int n"
proof (induction n rule: show_nat.induct)
  case (1 n)
  show ?case
  proof (cases "n < 10")
    case True
    then show ?thesis by (subst show_nat.simps) (simp add: digits_val_def)
  next
    case False
    with "1.IH" have "digits_val (show_nat (n div 10)) = int (n div 10)" by simp
    moreover have "10 * int (n div 10) + int (n mod 10) = int n" by presburger
    ultimately show ?thesis using False by (subst show_nat.simps) simp
  qed
qed

lemma show_nat_nonempty [simp]: "show_nat n \<noteq> []"
  by (subst show_nat.simps) simp

lemma show_nat_leading: "n \<noteq> 0 \<Longrightarrow> hd (show_nat n) \<noteq> CHR ''0''"
proof (induction n rule: show_nat.induct)
  case (1 n)
  show ?case
  proof (cases "n < 10")
    case True
    then have "of_char (char_of (48 + n) :: char) = 48 + n" by simp
    moreover have "of_char (CHR ''0'') = (48::nat)" by simp
    ultimately have "char_of (48 + n) \<noteq> CHR ''0''" using "1.prems" by (metis add_cancel_right_right)
    with True show ?thesis by (subst show_nat.simps) simp
  next
    case False
    then have "n div 10 \<noteq> 0" by auto
    with "1.IH" False show ?thesis by (subst show_nat.simps) simp
  qed
qed

subsection \<open>Identifiers\<close>

text \<open>The regular expressions \<^verbatim>\<open>[a-f0-9]{n}\<close> and \<^verbatim>\<open>(?:local-admin|[a-f0-9]{32})\<close>.\<close>

definition is_hex_id :: "nat \<Rightarrow> string \<Rightarrow> bool" where
  "is_hex_id n s \<longleftrightarrow> length s = n \<and> list_all is_hex s"

definition is_organization_id :: "string \<Rightarrow> bool" where
  "is_organization_id s \<longleftrightarrow> s = ''local-admin'' \<or> is_hex_id 32 s"

definition is_actor_id :: "string \<Rightarrow> bool" where
  "is_actor_id s \<longleftrightarrow> s = ''local-admin'' \<or> s = ''team-admin'' \<or> is_hex_id 32 s"

lemma is_hex_id_length: "is_hex_id n s \<Longrightarrow> length s = n"
  by (simp add: is_hex_id_def)

lemma is_hex_id_chars: "is_hex_id n s \<Longrightarrow> c \<in> set s \<Longrightarrow> is_hex c"
  by (simp add: is_hex_id_def list_all_iff)

subsection \<open>Ordered dictionaries\<close>

text \<open>
  A \<^verbatim>\<open>dict\<close> iterated in insertion order: an association list with distinct keys. Assigning an
  existing key keeps its position, a new key goes to the end.
\<close>

fun dict_set :: "'k \<Rightarrow> 'v \<Rightarrow> ('k \<times> 'v) list \<Rightarrow> ('k \<times> 'v) list" where
  "dict_set k v [] = [(k, v)]"
| "dict_set k v ((k', v') # d) = (if k' = k then (k, v) # d else (k', v') # dict_set k v d)"

definition dict_pop :: "'k \<Rightarrow> ('k \<times> 'v) list \<Rightarrow> ('k \<times> 'v) list" where
  "dict_pop k d = filter (\<lambda>kv. fst kv \<noteq> k) d"

definition dict_ok :: "('k \<times> 'v) list \<Rightarrow> bool" where
  "dict_ok d \<longleftrightarrow> distinct (map fst d)"

lemma dict_set_lookup [simp]: "map_of (dict_set k v d) = (map_of d)(k \<mapsto> v)"
  by (induction k v d rule: dict_set.induct) (auto simp: fun_eq_iff)

lemma dict_set_keys: "fst ` set (dict_set k v d) = insert k (fst ` set d)"
  by (induction k v d rule: dict_set.induct) auto

lemma dict_set_map_fst: "map fst (dict_set k v d) = (if k \<in> fst ` set d then map fst d else map fst d @ [k])"
  by (induction k v d rule: dict_set.induct) (auto split: if_splits)

lemma dict_set_ok [simp, intro]: "dict_ok d \<Longrightarrow> dict_ok (dict_set k v d)"
  by (simp add: dict_ok_def dict_set_map_fst)

lemma dict_set_new: "k \<notin> fst ` set d \<Longrightarrow> dict_set k v d = d @ [(k, v)]"
  by (induction k v d rule: dict_set.induct) auto

lemma dict_set_set: "dict_ok d \<Longrightarrow> set (dict_set k v d) = insert (k, v) {e \<in> set d. fst e \<noteq> k}"
  by (induction k v d rule: dict_set.induct) (auto simp: dict_ok_def rev_image_eqI)

lemma dict_pop_lookup [simp]: "map_of (dict_pop k d) = (map_of d)(k := None)"
  by (induction d) (auto simp: dict_pop_def fun_eq_iff)

lemma dict_pop_keys: "fst ` set (dict_pop k d) = fst ` set d - {k}"
  by (auto simp: dict_pop_def)

lemma dict_pop_ok [simp, intro]: "dict_ok d \<Longrightarrow> dict_ok (dict_pop k d)"
  by (simp add: dict_ok_def dict_pop_def distinct_map_filter)

lemma dict_set_length: "length (dict_set k v d) = (if k \<in> fst ` set d then length d else Suc (length d))"
  by (induction k v d rule: dict_set.induct) auto

lemma dict_ok_map_of: "dict_ok d \<Longrightarrow> (k, v) \<in> set d \<Longrightarrow> map_of d k = Some v"
  by (simp add: dict_ok_def)

lemma dict_pop_length:
  "dict_ok d \<Longrightarrow> k \<in> fst ` set d \<Longrightarrow> Suc (length (dict_pop k d)) = length d"
proof (induction d)
  case Nil
  then show ?case by simp
next
  case (Cons a d)
  show ?case
  proof (cases "fst a = k")
    case True
    then have "k \<notin> fst ` set d" using Cons.prems(1) by (auto simp: dict_ok_def)
    then have "dict_pop k d = d" by (auto simp: dict_pop_def filter_id_conv)
    with True show ?thesis by (simp add: dict_pop_def)
  next
    case False
    with Cons show ?thesis by (auto simp: dict_pop_def dict_ok_def)
  qed
qed

subsection \<open>Lists\<close>

lemma list_ex_mapI: "x \<in> set xs \<Longrightarrow> P (f x) \<Longrightarrow> list_ex P (map f xs)"
  by (auto simp: list_ex_iff)

lemma find_Some_iff_first:
  "find P xs = Some x \<Longrightarrow> P x \<and> x \<in> set xs"
  by (induction xs) (auto split: if_splits)

lemma find_None_iff_all: "find P xs = None \<longleftrightarrow> (\<forall>x \<in> set xs. \<not> P x)"
  by (induction xs) auto

lemma length_filter_mono:
  "(\<And>x. x \<in> set xs \<Longrightarrow> P x \<Longrightarrow> Q x) \<Longrightarrow> length (filter P xs) \<le> length (filter Q xs)"
  by (induction xs) (auto simp: le_SucI)

subsection \<open>Three-way comparison\<close>

text \<open>The value \<^verbatim>\<open>-1\<close>, \<^verbatim>\<open>0\<close> or \<^verbatim>\<open>1\<close> that the comparison routines of the sources return.\<close>

definition cmp3 :: "'a::linorder \<Rightarrow> 'a \<Rightarrow> int" where
  "cmp3 a b = (if a < b then -1 else if a = b then 0 else 1)"

lemma cmp3_simps [simp]:
  "cmp3 a b = 0 \<longleftrightarrow> a = b" "cmp3 a b < 0 \<longleftrightarrow> a < b" "cmp3 a b > 0 \<longleftrightarrow> a > b"
  "cmp3 a b \<le> 0 \<longleftrightarrow> a \<le> b" "cmp3 a b \<ge> 0 \<longleftrightarrow> a \<ge> b"
  by (auto simp: cmp3_def)

lemma cmp3_antisym: "cmp3 b a = - cmp3 a b"
  by (auto simp: cmp3_def)

lemma same_length_append_less:
  fixes xs ys zs :: "'a::linorder list"
  shows "length xs = length ys \<Longrightarrow> xs @ zs < ys @ zs \<longleftrightarrow> xs < ys"
  by (induction xs ys rule: list_induct2) auto

subsection \<open>Lengths\<close>

lemma length_py_strip [simp]: "length (py_strip s) \<le> length s"
  unfolding py_strip_def by (metis length_dropWhile_le length_rev order_trans)

lemma words_from_length: "w \<in> set (words_from acc s) \<Longrightarrow> length w \<le> length acc + length s"
proof (induction s arbitrary: acc)
  case Nil
  then show ?case by (auto split: if_splits)
next
  case (Cons c s)
  from Cons.prems consider "w = rev acc" | "w \<in> set (words_from [] s)" | "w \<in> set (words_from (c # acc) s)"
    by (auto split: if_splits)
  then show ?case
    using Cons.IH [of "[]"] Cons.IH [of "c # acc"] by cases auto
qed

lemma py_words_length: "w \<in> set (py_words s) \<Longrightarrow> length w \<le> length s"
  using words_from_length [of w "[]" s] by (simp add: py_words_def)

lemma length_takeWhile_drop_le [simp]: "length (takeWhile P (drop n s)) \<le> length s"
  by (metis length_drop diff_le_self length_takeWhile_le order_trans)

lemma py_split_length: "w \<in> set (py_split d s) \<Longrightarrow> length w \<le> length s"
proof (induction s arbitrary: w)
  case Nil
  then show ?case by simp
next
  case (Cons c s)
  obtain v vs where v: "py_split d s = v # vs" by (cases "py_split d s") auto
  show ?case
    using Cons v by (fastforce split: if_splits)
qed

subsection \<open>Decoded JSON\<close>

text \<open>
  A decoded JSON document, with the fields of an object under distinct keys. Numbers with a
  fraction are left out: no modelled function reads one from a document.
\<close>

datatype json = JNull | JBool bool | JInt int | JStr string | JList "json list" | JObj "(string \<times> json) list"

fun json_get :: "json \<Rightarrow> string \<Rightarrow> json option" where
  "json_get (JObj fields) key = map_of fields key"
| "json_get _ key = None"

fun json_str :: "json \<Rightarrow> string option" where
  "json_str (JStr s) = Some s"
| "json_str _ = None"

subsection \<open>Pairs of lists\<close>

lemma list_all2_setD1: "list_all2 P xs ys \<Longrightarrow> x \<in> set xs \<Longrightarrow> \<exists>y \<in> set ys. P x y"
  by (induction xs ys rule: list_all2_induct) auto

lemma list_all2_setD2: "list_all2 P xs ys \<Longrightarrow> y \<in> set ys \<Longrightarrow> \<exists>x \<in> set xs. P x y"
  by (induction xs ys rule: list_all2_induct) auto

lemma starts_with_one: "starts_with [c] s \<Longrightarrow> \<exists>t. s = c # t"
  by (cases s) (auto simp: starts_with_def)

subsection \<open>Runs of a store\<close>

text \<open>
  A store changes in steps that keep its invariant. A fact that every step from a state with the invariant keeps holds from
  then on.
\<close>

locale invariant_steps =
  fixes step :: "'s \<Rightarrow> 's \<Rightarrow> bool"
    and inv :: "'s \<Rightarrow> bool"
  assumes step_inv: "step s s' \<Longrightarrow> inv s \<Longrightarrow> inv s'"
begin

lemma run_inv: "step\<^sup>*\<^sup>* s s' \<Longrightarrow> inv s \<Longrightarrow> inv s'"
  by (induction rule: rtranclp_induct) (auto intro: step_inv)

lemma run_stable:
  assumes "\<And>s s'. inv s \<Longrightarrow> step s s' \<Longrightarrow> P s \<Longrightarrow> P s'" "step\<^sup>*\<^sup>* s s'" "inv s" "P s"
  shows "P s'"
  using assms(2-4)
proof (induction rule: rtranclp_induct)
  case (step y z)
  then show ?case using assms(1) run_inv by blast
qed

end

end
