(* ===== verification/Version_Matching.thy ===== *)
theory Version_Matching
  imports Inspectra_Prelude
begin

section \<open>Conservative version-range matching\<close>

text \<open>
  Model of \<^verbatim>\<open>backend/app/version_matching.py\<close>. Every regular expression of the module is a
  deterministic scanner over the characters: in each of them the greedy choice at a position is
  the only one from which the rest of the pattern can match, so scanning without backtracking
  accepts the same strings with the same groups (the one expression that does backtrack,
  \<^verbatim>\<open>(<=|>=|<|>|=)?(.+)\<close>, is written out in \<open>comparator_any\<close>).
  \<^verbatim>\<open>int()\<close> raises on more than 4300 digits, so the parsers return a result.
  The package \<^verbatim>\<open>packaging\<close>, which decides PyPI versions and specifiers, is not part of the
  repository: it is the parameter \<open>packaging\<close> of the functions that use it.
\<close>

subsection \<open>Results, operators and identifiers\<close>

datatype version_match_status = Matched | NotMatched | Unknown

record version_range_match =
  vr_status :: version_match_status
  vr_reason :: string

definition VersionRangeMatch :: "version_match_status \<Rightarrow> string \<Rightarrow> version_range_match" where
  "VersionRangeMatch st r = \<lparr>vr_status = st, vr_reason = r\<rparr>"

lemma VersionRangeMatch_sel [simp]:
  "vr_status (VersionRangeMatch st r) = st" "vr_reason (VersionRangeMatch st r) = r"
  by (simp_all add: VersionRangeMatch_def)

datatype operator = OpLe | OpGe | OpLt | OpGt | OpEq

text \<open>A pre-release identifier: the tuples \<^verbatim>\<open>(0, int)\<close> and \<^verbatim>\<open>(1, str)\<close>.\<close>

datatype pre_ident = Num int | Txt string

fun ident_key :: "pre_ident \<Rightarrow> nat \<times> int \<times> string" where
  "ident_key (Num n) = (0, n, [])"
| "ident_key (Txt s) = (1, 0, s)"

lemma ident_key_inject: "ident_key a = ident_key b \<longleftrightarrow> a = b"
  by (cases a; cases b) auto

instantiation pre_ident :: linorder
begin

definition less_eq_pre_ident :: "pre_ident \<Rightarrow> pre_ident \<Rightarrow> bool" where
  "less_eq_pre_ident a b \<longleftrightarrow> ident_key a \<le> ident_key b"

definition less_pre_ident :: "pre_ident \<Rightarrow> pre_ident \<Rightarrow> bool" where
  "less_pre_ident a b \<longleftrightarrow> ident_key a < ident_key b"

instance
  by intro_classes
    (auto simp: less_eq_pre_ident_def less_pre_ident_def less_le_not_le
       simp flip: ident_key_inject intro: order.trans)

end

type_synonym semver = "(int \<times> int \<times> int) \<times> pre_ident list option"
type_synonym nuget_version = "(int \<times> int \<times> int \<times> int) \<times> pre_ident list option"
type_synonym maven_version = "int list \<times> int \<times> int"

subsection \<open>Scanners\<close>

text \<open>\<^verbatim>\<open>(0|[1-9]\d*)\<close> at the front of the text: the group and the rest.\<close>

fun scan_numeric :: "string \<Rightarrow> (string \<times> string) option" where
  "scan_numeric [] = None"
| "scan_numeric (c # cs) =
     (if c = CHR ''0'' then Some ([c], cs)
      else if is_digit c then Some (takeWhile is_digit (c # cs), dropWhile is_digit (c # cs))
      else None)"

fun scan_char :: "char \<Rightarrow> string \<Rightarrow> string option" where
  "scan_char d [] = None"
| "scan_char d (c # cs) = (if c = d then Some cs else None)"

text \<open>Three numeric groups separated by dots.\<close>

definition scan_triple :: "string \<Rightarrow> ((string \<times> string \<times> string) \<times> string) option" where
  "scan_triple s =
     Option.bind (scan_numeric s) (\<lambda>(a, s1).
     Option.bind (scan_char CHR ''.'' s1) (\<lambda>s2.
     Option.bind (scan_numeric s2) (\<lambda>(b, s3).
     Option.bind (scan_char CHR ''.'' s3) (\<lambda>s4.
     Option.bind (scan_numeric s4) (\<lambda>(c, s5). Some ((a, b, c), s5))))))"

definition label_char :: "char \<Rightarrow> bool" where
  "label_char c \<longleftrightarrow> is_ascii_alnum c \<or> c = CHR ''-''"

text \<open>\<^verbatim>\<open>(?:\+[0-9A-Za-z-]+(?:\.[0-9A-Za-z-]+)*)?$\<close>\<close>

fun build_metadata_end :: "string \<Rightarrow> bool" where
  "build_metadata_end [] = True"
| "build_metadata_end (c # cs) =
     (c = CHR ''+'' \<and> list_all (\<lambda>p. p \<noteq> [] \<and> list_all label_char p) (py_split CHR ''.'' cs))"

definition npm_release_version :: "string \<Rightarrow> (string \<times> string \<times> string) option" where
  "npm_release_version s =
     Option.bind (scan_triple s) (\<lambda>(groups, rest). if build_metadata_end rest then Some groups else None)"

text \<open>The optional operator of a comparator, longest alternatives first.\<close>

definition scan_operator :: "string \<Rightarrow> operator option \<times> string" where
  "scan_operator s =
     (if starts_with ''<='' s then (Some OpLe, drop 2 s)
      else if starts_with ''>='' s then (Some OpGe, drop 2 s)
      else if starts_with ''<'' s then (Some OpLt, drop 1 s)
      else if starts_with ''>'' s then (Some OpGt, drop 1 s)
      else if starts_with ''='' s then (Some OpEq, drop 1 s)
      else (None, s))"

definition npm_comparator :: "string \<Rightarrow> (operator option \<times> string) option" where
  "npm_comparator s =
     (let (op, v) = scan_operator s in if npm_release_version v \<noteq> None then Some (op, v) else None)"

text \<open>
  \<^verbatim>\<open>(<=|>=|<|>|=)?(.+)\<close> of the NuGet and Maven matchers: the second group is never empty, so
  an operator that would leave nothing is given back. A comparator has no line break, since
  it comes from \<^verbatim>\<open>split()\<close>.
\<close>

definition comparator_any :: "string \<Rightarrow> (operator option \<times> string) option" where
  "comparator_any s =
     (if starts_with ''<='' s \<and> drop 2 s \<noteq> [] then Some (Some OpLe, drop 2 s)
      else if starts_with ''>='' s \<and> drop 2 s \<noteq> [] then Some (Some OpGe, drop 2 s)
      else if starts_with ''<'' s \<and> drop 1 s \<noteq> [] then Some (Some OpLt, drop 1 s)
      else if starts_with ''>'' s \<and> drop 1 s \<noteq> [] then Some (Some OpGt, drop 1 s)
      else if starts_with ''='' s \<and> drop 1 s \<noteq> [] then Some (Some OpEq, drop 1 s)
      else if s \<noteq> [] then Some (None, s) else None)"

definition go_label_char :: "char \<Rightarrow> bool" where
  "go_label_char c \<longleftrightarrow> is_ascii_alnum c \<or> c = CHR ''.'' \<or> c = CHR ''-''"

fun go_build_end :: "string \<Rightarrow> bool" where
  "go_build_end [] = True"
| "go_build_end (c # cs) = (c = CHR ''+'' \<and> cs \<noteq> [] \<and> list_all go_label_char cs)"

definition go_version :: "string \<Rightarrow> ((string \<times> string \<times> string) \<times> string option) option" where
  "go_version s0 =
     (let s = (if starts_with ''v'' s0 then drop 1 s0 else s0) in
      Option.bind (scan_triple s) (\<lambda>(groups, rest).
        if starts_with ''-'' rest
        then (let pre = takeWhile go_label_char (drop 1 rest); tail = dropWhile go_label_char (drop 1 rest) in
              if pre \<noteq> [] \<and> go_build_end tail then Some (groups, Some pre) else None)
        else if go_build_end rest then Some (groups, None) else None))"

definition go_comparator :: "string \<Rightarrow> (operator option \<times> string) option" where
  "go_comparator s =
     (let (op, v) = scan_operator s in if go_version v \<noteq> None then Some (op, v) else None)"

subsection \<open>Shared comparator logic\<close>

text \<open>The dictionary \<^verbatim>\<open>{"=": comparison == 0, ...}[operator]\<close>.\<close>

fun operator_satisfied :: "operator \<Rightarrow> int \<Rightarrow> bool" where
  "operator_satisfied OpEq comparison = (comparison = 0)"
| "operator_satisfied OpGt comparison = (comparison > 0)"
| "operator_satisfied OpGe comparison = (comparison \<ge> 0)"
| "operator_satisfied OpLt comparison = (comparison < 0)"
| "operator_satisfied OpLe comparison = (comparison \<le> 0)"

definition default_operator :: "operator option \<Rightarrow> operator" where
  "default_operator op = (case op of None \<Rightarrow> OpEq | Some p \<Rightarrow> p)"

text \<open>
  The loop the semantic-version, NuGet and Maven matchers share: \<open>bound_of\<close> is the parser of
  one comparator, \<open>cmp\<close> the comparison, \<open>prefix\<close> the prefix of the reason codes.
\<close>

fun match_comparators ::
  "(string \<Rightarrow> py_exc + (operator \<times> 'v) option) \<Rightarrow> ('v \<Rightarrow> 'v \<Rightarrow> int) \<Rightarrow> string \<Rightarrow> 'v \<Rightarrow> string list
     \<Rightarrow> py_exc + version_range_match" where
  "match_comparators bound_of cmp pfx version [] =
     Inr (VersionRangeMatch Matched (pfx @ ''_all_comparators_satisfied''))"
| "match_comparators bound_of cmp pfx version (comparator # rest) =
     bind_res (bound_of comparator) (\<lambda>parsed.
       case parsed of
         None \<Rightarrow> Inr (VersionRangeMatch Unknown (pfx @ ''_range_syntax_not_supported''))
       | Some (op, bound) \<Rightarrow>
           if \<not> operator_satisfied op (cmp version bound)
           then Inr (VersionRangeMatch NotMatched (pfx @ ''_comparator_not_satisfied''))
           else match_comparators bound_of cmp pfx version rest)"

definition range_words :: "string \<Rightarrow> string list" where
  "range_words affected_range = py_words (replace_char CHR '','' CHR '' '' (py_strip affected_range))"

subsection \<open>npm\<close>

definition parse_npm_release_version :: "string \<Rightarrow> py_exc + (int \<times> int \<times> int) option \<times> string" where
  "parse_npm_release_version value =
     (let normalized = py_strip value in
      if CHR ''-'' \<in> set (takeWhile (\<lambda>c. c \<noteq> CHR ''+'') normalized)
      then Inr (None, ''npm_prerelease_not_supported'')
      else (case npm_release_version normalized of
              None \<Rightarrow> Inr (None, ''npm_version_not_supported'')
            | Some (a, b, c) \<Rightarrow>
                bind_res (py_int a) (\<lambda>x. bind_res (py_int b) (\<lambda>y. bind_res (py_int c) (\<lambda>z.
                  Inr (Some (x, y, z), ''npm_release_version''))))))"

fun compare_npm_versions :: "int \<times> int \<times> int \<Rightarrow> int \<times> int \<times> int \<Rightarrow> operator \<Rightarrow> bool" where
  "compare_npm_versions left right OpEq = (left = right)"
| "compare_npm_versions left right OpGt = (left > right)"
| "compare_npm_versions left right OpGe = (left \<ge> right)"
| "compare_npm_versions left right OpLt = (left < right)"
| "compare_npm_versions left right OpLe = (left \<le> right)"

fun npm_comparator_loop :: "int \<times> int \<times> int \<Rightarrow> string list \<Rightarrow> py_exc + version_range_match" where
  "npm_comparator_loop version [] =
     Inr (VersionRangeMatch Matched ''npm_all_comparators_satisfied'')"
| "npm_comparator_loop version (comparator # rest) =
     (case npm_comparator comparator of
        None \<Rightarrow> Inr (VersionRangeMatch Unknown ''npm_range_syntax_not_supported'')
      | Some (op, text) \<Rightarrow>
          bind_res (parse_npm_release_version text) (\<lambda>(candidate, candidate_reason).
            case candidate of
              None \<Rightarrow> Inr (VersionRangeMatch Unknown candidate_reason)
            | Some cand \<Rightarrow>
                if \<not> compare_npm_versions version cand (default_operator op)
                then Inr (VersionRangeMatch NotMatched ''npm_comparator_not_satisfied'')
                else npm_comparator_loop version rest))"

definition npm_unsupported_markers :: "string list" where
  "npm_unsupported_markers = [''||'', ''^'', ''~'', ''*'', ''x'', ''X'', '' - '']"

definition match_npm_version :: "string \<Rightarrow> string \<Rightarrow> py_exc + version_range_match" where
  "match_npm_version exact_version affected_range =
     bind_res (parse_npm_release_version exact_version) (\<lambda>(version, version_reason).
       case version of
         None \<Rightarrow> Inr (VersionRangeMatch Unknown version_reason)
       | Some v \<Rightarrow>
           (let normalized_range = py_strip affected_range in
            if normalized_range = [] then Inr (VersionRangeMatch Unknown ''npm_empty_range'')
            else if list_ex (\<lambda>marker. contains marker normalized_range) npm_unsupported_markers
            then Inr (VersionRangeMatch Unknown ''npm_range_syntax_not_supported'')
            else (let comparators = range_words affected_range in
                  if comparators = [] then Inr (VersionRangeMatch Unknown ''npm_empty_range'')
                  else npm_comparator_loop v comparators)))"

subsection \<open>Go, Cargo and Composer: semantic versions\<close>

definition parse_identifier :: "string \<Rightarrow> py_exc + pre_ident" where
  "parse_identifier part =
     (if list_all is_digit part then bind_res (py_int part) (\<lambda>n. Inr (Num n)) else Inr (Txt part))"

definition parse_go_version :: "string \<Rightarrow> py_exc + semver option" where
  "parse_go_version value =
     (case go_version (py_strip value) of
        None \<Rightarrow> Inr None
      | Some ((a, b, c), prerelease) \<Rightarrow>
          (let finish = (\<lambda>identifiers.
             bind_res (py_int a) (\<lambda>x. bind_res (py_int b) (\<lambda>y. bind_res (py_int c) (\<lambda>z.
               Inr (Some ((x, y, z), identifiers)))))) in
           case prerelease of
             None \<Rightarrow> finish None
           | Some pre \<Rightarrow>
               (let parts = py_split CHR ''.'' pre in
                if list_ex (\<lambda>part. part = []) parts then Inr None
                else bind_res (map_res parse_identifier parts) (\<lambda>ids. finish (Some ids)))))"

definition compare_identifier :: "pre_ident \<Rightarrow> pre_ident \<Rightarrow> int" where
  "compare_identifier l r =
     (case (l, r) of
        (Num a, Num b) \<Rightarrow> (if a < b then -1 else 1)
      | (Num _, Txt _) \<Rightarrow> -1
      | (Txt _, Num _) \<Rightarrow> 1
      | (Txt a, Txt b) \<Rightarrow> (if a < b then -1 else 1))"

text \<open>The loop over \<^verbatim>\<open>zip(left_pre, right_pre)\<close>: the verdict at the first unequal pair.\<close>

fun first_difference :: "(pre_ident \<times> pre_ident) list \<Rightarrow> int option" where
  "first_difference [] = None"
| "first_difference ((l, r) # rest) = (if l = r then first_difference rest else Some (compare_identifier l r))"

definition compare_prerelease :: "pre_ident list option \<Rightarrow> pre_ident list option \<Rightarrow> int" where
  "compare_prerelease left_pre right_pre =
     (case (left_pre, right_pre) of
        (None, None) \<Rightarrow> 0
      | (None, Some _) \<Rightarrow> 1
      | (Some _, None) \<Rightarrow> -1
      | (Some l, Some r) \<Rightarrow>
          (case first_difference (zip l r) of
             Some c \<Rightarrow> c
           | None \<Rightarrow> if length l = length r then 0 else if length l < length r then -1 else 1))"

definition compare_go_versions :: "semver \<Rightarrow> semver \<Rightarrow> int" where
  "compare_go_versions left right =
     (if fst left \<noteq> fst right then (if fst left < fst right then -1 else 1)
      else compare_prerelease (snd left) (snd right))"

definition semver_bound :: "bool \<Rightarrow> string \<Rightarrow> py_exc + (operator \<times> semver) option" where
  "semver_bound allow_v_prefix comparator =
     (case go_comparator comparator of
        None \<Rightarrow> Inr None
      | Some (op, text) \<Rightarrow>
          bind_res (parse_go_version text) (\<lambda>bound.
            case bound of
              None \<Rightarrow> Inr None
            | Some b \<Rightarrow>
                if \<not> allow_v_prefix \<and> starts_with ''v'' text then Inr None
                else Inr (Some (default_operator op, b))))"

definition match_semver_version :: "string \<Rightarrow> bool \<Rightarrow> string \<Rightarrow> string \<Rightarrow> py_exc + version_range_match" where
  "match_semver_version reason_prefix allow_v_prefix exact_version affected_range =
     bind_res (parse_go_version exact_version) (\<lambda>parsed.
       case (if \<not> allow_v_prefix \<and> starts_with ''v'' (py_strip exact_version) then None else parsed) of
         None \<Rightarrow> Inr (VersionRangeMatch Unknown (reason_prefix @ ''_version_not_supported''))
       | Some version \<Rightarrow>
           (let comparators = range_words affected_range in
            if comparators = [] then Inr (VersionRangeMatch Unknown (reason_prefix @ ''_empty_range''))
            else match_comparators (semver_bound allow_v_prefix) compare_go_versions reason_prefix
                   version comparators))"

definition match_go_version :: "string \<Rightarrow> string \<Rightarrow> py_exc + version_range_match" where
  "match_go_version exact_version affected_range =
     match_semver_version ''go'' True exact_version affected_range"

subsection \<open>NuGet\<close>

definition nuget_core_char :: "char \<Rightarrow> bool" where
  "nuget_core_char c \<longleftrightarrow> is_digit c \<or> c = CHR ''.''"

definition nuget_label_run :: "char \<Rightarrow> bool" where
  "nuget_label_run c \<longleftrightarrow> label_char c \<or> c = CHR ''.''"

text \<open>\<^verbatim>\<open>_NUGET_VERSION\<close>: the numeric core as its dot-separated parts and the pre-release group.\<close>

definition nuget_version_groups :: "string \<Rightarrow> (string list \<times> string option) option" where
  "nuget_version_groups s =
     (let core = py_split CHR ''.'' (takeWhile nuget_core_char s); rest = dropWhile nuget_core_char s in
      if \<not> (list_all (\<lambda>p. p \<noteq> []) core \<and> length core \<le> 4) then None
      else if starts_with ''-'' rest
      then (let pre = takeWhile nuget_label_run (drop 1 rest); tail = dropWhile nuget_label_run (drop 1 rest) in
            if list_all (\<lambda>p. p \<noteq> []) (py_split CHR ''.'' pre) \<and> build_metadata_end tail
            then Some (core, Some pre) else None)
      else if build_metadata_end rest then Some (core, None) else None)"

definition nuget_max_version_length :: nat where
  "nuget_max_version_length = 64"

definition nuget_max_integer :: int where
  "nuget_max_integer = 2147483647"

definition pad4 :: "int list \<Rightarrow> int \<times> int \<times> int \<times> int" where
  "pad4 ns = (let xs = ns @ [0, 0, 0, 0] in (xs ! 0, xs ! 1, xs ! 2, xs ! 3))"

definition nuget_identifier :: "string \<Rightarrow> pre_ident" where
  "nuget_identifier part = (if list_all is_digit part then Num (digits_val part) else Txt (py_lower part))"

text \<open>At most 64 characters reach \<^verbatim>\<open>int()\<close>, so it does not raise here.\<close>

definition parse_nuget_version :: "string \<Rightarrow> nuget_version option" where
  "parse_nuget_version value =
     (let normalized = py_strip value in
      if normalized = [] \<or> length normalized > nuget_max_version_length then None
      else (case nuget_version_groups normalized of
              None \<Rightarrow> None
            | Some (core, prerelease) \<Rightarrow>
                (let numbers = map digits_val core in
                 if list_ex (\<lambda>part. part > nuget_max_integer) numbers then None
                 else (case prerelease of
                         None \<Rightarrow> Some (pad4 numbers, None)
                       | Some pre \<Rightarrow>
                           (let parts = py_split CHR ''.'' pre in
                            if list_ex (\<lambda>part. part = [] \<or> (list_all is_digit part \<and> digits_val part > nuget_max_integer)) parts
                            then None
                            else Some (pad4 numbers, Some (map nuget_identifier parts)))))))"

definition compare_nuget_versions :: "nuget_version \<Rightarrow> nuget_version \<Rightarrow> int" where
  "compare_nuget_versions left right =
     (if fst left \<noteq> fst right then (if fst left < fst right then -1 else 1)
      else compare_prerelease (snd left) (snd right))"

definition nuget_bound :: "string \<Rightarrow> py_exc + (operator \<times> nuget_version) option" where
  "nuget_bound comparator =
     Inr (case comparator_any comparator of
            None \<Rightarrow> None
          | Some (op, text) \<Rightarrow> map_option (Pair (default_operator op)) (parse_nuget_version text))"

definition match_nuget_version :: "string \<Rightarrow> string \<Rightarrow> py_exc + version_range_match" where
  "match_nuget_version exact_version affected_range =
     (case parse_nuget_version exact_version of
        None \<Rightarrow> Inr (VersionRangeMatch Unknown ''nuget_version_not_supported'')
      | Some version \<Rightarrow>
          (let comparators = range_words affected_range in
           if comparators = [] then Inr (VersionRangeMatch Unknown ''nuget_empty_range'')
           else match_comparators nuget_bound compare_nuget_versions ''nuget'' version comparators))"

text \<open>\<^verbatim>\<open>str(item[1])\<close> of a pre-release item, and the canonical NuGet identity string.\<close>

fun show_identifier :: "pre_ident \<Rightarrow> string" where
  "show_identifier (Num n) = show_nat (nat n)"
| "show_identifier (Txt s) = s"

fun nuget_identity_text :: "nuget_version \<Rightarrow> string" where
  "nuget_identity_text ((a, b, c, d), prerelease) =
     (let core3 = py_join ''.'' (map (show_nat \<circ> nat) [a, b, c]);
          core = (if d \<noteq> 0 then core3 @ ''.'' @ show_nat (nat d) else core3) in
      case prerelease of
        None \<Rightarrow> core
      | Some items \<Rightarrow> core @ ''-'' @ py_join ''.'' (map show_identifier items))"

definition canonicalize_nuget_version :: "string \<Rightarrow> string option" where
  "canonicalize_nuget_version value =
     (case parse_nuget_version value of
        None \<Rightarrow> None
      | Some parsed \<Rightarrow> Some (nuget_identity_text parsed))"

subsection \<open>Maven\<close>

lemma scan_numeric_shorter [simp]: "scan_numeric s = Some (n, r) \<Longrightarrow> length r < length s"
  by (cases s) (auto split: if_splits simp: le_imp_less_Suc length_dropWhile_le)

text \<open>\<^verbatim>\<open>(?:0|[1-9]\d*)(?:\.(?:0|[1-9]\d*))*\<close>: the numeric groups and the rest.\<close>

function scan_core :: "string \<Rightarrow> (string list \<times> string) option" where
  "scan_core s =
     (case scan_numeric s of
        None \<Rightarrow> None
      | Some (n, rest) \<Rightarrow>
          (case scan_char CHR ''.'' rest of
             None \<Rightarrow> Some ([n], rest)
           | Some rest' \<Rightarrow>
               (case scan_core rest' of
                  None \<Rightarrow> Some ([n], rest)
                | Some (ns, r) \<Rightarrow> Some (n # ns, r))))"
  by pat_completeness auto
termination
proof (relation "measure length", goal_cases)
  case 1
  then show ?case by simp
next
  case (2 s nr n rest rest')
  then have "length rest < length s" by auto
  moreover have "length rest' < length rest" using 2 by (cases rest) (auto split: if_splits)
  ultimately show ?case by simp
qed

declare scan_core.simps [simp del]

definition maven_qualifiers :: "string list" where
  "maven_qualifiers =
     [''alpha'', ''a'', ''beta'', ''b'', ''milestone'', ''m'', ''rc'', ''cr'', ''snapshot'', ''ga'', ''final'',
      ''release'', ''sp'']"

text \<open>\<^verbatim>\<open>(?:[.-]?(?P<qualifier_number>0|[1-9]\d*))?$\<close>; the outer option is whether it matches.\<close>

definition maven_qualifier_number :: "string \<Rightarrow> string option option" where
  "maven_qualifier_number rest =
     (if rest = [] then Some None
      else (let r = (if hd rest = CHR ''.'' \<or> hd rest = CHR ''-'' then tl rest else rest) in
            case scan_numeric r of
              Some (n, tail) \<Rightarrow> if tail = [] then Some (Some n) else None
            | None \<Rightarrow> None))"

record maven_groups =
  mg_core :: "string list"
  mg_separator :: "char option"
  mg_qualifier :: "string option"
  mg_qualifier_number :: "string option"

text \<open>\<^verbatim>\<open>_MAVEN_SAFE_VERSION\<close>, which ignores case.\<close>

definition maven_safe_version :: "string \<Rightarrow> maven_groups option" where
  "maven_safe_version s =
     (case scan_core s of
        None \<Rightarrow> None
      | Some (core, rest) \<Rightarrow>
          if rest = []
          then Some \<lparr>mg_core = core, mg_separator = None, mg_qualifier = None, mg_qualifier_number = None\<rparr>
          else if hd rest = CHR ''.'' \<or> hd rest = CHR ''-''
          then (let q = takeWhile is_letter (tl rest); tail = dropWhile is_letter (tl rest) in
                if py_lower q \<in> set maven_qualifiers
                then map_option (\<lambda>num. \<lparr>mg_core = core, mg_separator = Some (hd rest),
                       mg_qualifier = Some q, mg_qualifier_number = num\<rparr>) (maven_qualifier_number tail)
                else None)
          else None)"

fun pop_trailing_zeros :: "int list \<Rightarrow> int list" where
  "pop_trailing_zeros ns =
     (if length ns > 1 \<and> last ns = 0 then pop_trailing_zeros (butlast ns) else ns)"

declare pop_trailing_zeros.simps [simp del]

definition maven_qualifier_aliases :: "(string \<times> string) list" where
  "maven_qualifier_aliases =
     [(''a'', ''alpha''), (''b'', ''beta''), (''m'', ''milestone''), (''cr'', ''rc''),
      (''ga'', []), (''final'', []), (''release'', [])]"

definition maven_qualifier_order :: "(string \<times> int) list" where
  "maven_qualifier_order =
     [(''alpha'', 0), (''beta'', 1), (''milestone'', 2), (''rc'', 3), (''snapshot'', 4), ([], 5), (''sp'', 6)]"

text \<open>
  At most 160 characters reach \<^verbatim>\<open>int()\<close>. Every qualifier the pattern admits has an order after
  the aliases are resolved (\<open>maven_order_total\<close>), so the final lookup never fails.
\<close>

definition parse_maven_version :: "string \<Rightarrow> maven_version option" where
  "parse_maven_version value =
     (let normalized = py_strip value in
      if normalized = [] \<or> length normalized > 160 then None
      else (case maven_safe_version normalized of
              None \<Rightarrow> None
            | Some g \<Rightarrow>
                (let numbers = pop_trailing_zeros (map digits_val (mg_core g));
                     qualifier = py_lower (case mg_qualifier g of None \<Rightarrow> [] | Some q \<Rightarrow> q);
                     number_text = mg_qualifier_number g in
                 if mg_separator g = Some CHR ''.'' \<and> qualifier \<notin> {''ga'', ''final'', ''release''} then None
                 else if qualifier \<in> {''a'', ''b'', ''m''} \<and> number_text = None then None
                 else (let resolved = (case map_of maven_qualifier_aliases qualifier of
                                         None \<Rightarrow> qualifier | Some q \<Rightarrow> q) in
                       if resolved \<in> {[], ''snapshot''} \<and> number_text \<noteq> None then None
                       else map_option (\<lambda>rank. (numbers, rank,
                              (case number_text of None \<Rightarrow> 0 | Some t \<Rightarrow> digits_val t)))
                              (map_of maven_qualifier_order resolved)))))"

definition is_supported_maven_version :: "string \<Rightarrow> bool" where
  "is_supported_maven_version value \<longleftrightarrow> parse_maven_version value \<noteq> None"

definition pad_zeros :: "nat \<Rightarrow> int list \<Rightarrow> int list" where
  "pad_zeros width ns = ns @ replicate (width - length ns) 0"

definition compare_maven_versions :: "maven_version \<Rightarrow> maven_version \<Rightarrow> int" where
  "compare_maven_versions left right =
     (let width = max (length (fst left)) (length (fst right));
          left_numbers = pad_zeros width (fst left);
          right_numbers = pad_zeros width (fst right) in
      if left_numbers \<noteq> right_numbers then (if left_numbers < right_numbers then -1 else 1)
      else if snd left = snd right then 0
      else if snd left < snd right then -1 else 1)"

definition maven_bound :: "string \<Rightarrow> py_exc + (operator \<times> maven_version) option" where
  "maven_bound comparator =
     Inr (case comparator_any comparator of
            None \<Rightarrow> None
          | Some (op, text) \<Rightarrow> map_option (Pair (default_operator op)) (parse_maven_version text))"

definition match_maven_version :: "string \<Rightarrow> string \<Rightarrow> py_exc + version_range_match" where
  "match_maven_version exact_version affected_range =
     (case parse_maven_version exact_version of
        None \<Rightarrow> Inr (VersionRangeMatch Unknown ''maven_version_not_supported'')
      | Some version \<Rightarrow>
          (let comparators = range_words affected_range in
           if comparators = [] then Inr (VersionRangeMatch Unknown ''maven_empty_range'')
           else match_comparators maven_bound compare_maven_versions ''maven'' version comparators))"

subsection \<open>PyPI and the dispatch\<close>

text \<open>
  The operations of \<^verbatim>\<open>packaging\<close> that the code calls: \<^verbatim>\<open>Version(text)\<close> (\<open>None\<close> for
  \<^verbatim>\<open>InvalidVersion\<close>), \<^verbatim>\<open>Version.is_prerelease\<close>, \<^verbatim>\<open>SpecifierSet(text)\<close> as the operator and version
  texts of its specifiers (\<open>None\<close> for \<^verbatim>\<open>InvalidSpecifier\<close>) and the membership test.
\<close>

record 'v packaging =
  pk_version :: "string \<Rightarrow> 'v option"
  pk_is_prerelease :: "'v \<Rightarrow> bool"
  pk_specifier_set :: "string \<Rightarrow> (string \<times> string) list option"
  pk_contains :: "string \<Rightarrow> 'v \<Rightarrow> bool"

definition pypi_supported_operators :: "string list" where
  "pypi_supported_operators = [''=='', ''!='', ''<'', ''<='', ''>'', ''>='', ''~='']"

text \<open>The loop over the specifiers: the reason to give up, if any.\<close>

fun pypi_unsupported_specifier :: "'v packaging \<Rightarrow> (string \<times> string) list \<Rightarrow> string option" where
  "pypi_unsupported_specifier pk [] = None"
| "pypi_unsupported_specifier pk ((op, text) # rest) =
     (if op \<notin> set pypi_supported_operators \<or> CHR ''*'' \<in> set text
      then Some ''pypi_range_syntax_not_supported''
      else (case pk_version pk text of
              None \<Rightarrow> Some ''pypi_range_syntax_not_supported''
            | Some bound \<Rightarrow>
                if pk_is_prerelease pk bound then Some ''pypi_prerelease_not_supported''
                else pypi_unsupported_specifier pk rest))"

definition match_pypi_version :: "'v packaging \<Rightarrow> string \<Rightarrow> string \<Rightarrow> version_range_match" where
  "match_pypi_version pk exact_version affected_range =
     (case pk_version pk (py_strip exact_version) of
        None \<Rightarrow> VersionRangeMatch Unknown ''pypi_version_not_supported''
      | Some version \<Rightarrow>
          if pk_is_prerelease pk version then VersionRangeMatch Unknown ''pypi_prerelease_not_supported''
          else (let normalized_range = py_strip affected_range in
                if normalized_range = [] then VersionRangeMatch Unknown ''pypi_empty_range''
                else (case pk_specifier_set pk normalized_range of
                        None \<Rightarrow> VersionRangeMatch Unknown ''pypi_range_syntax_not_supported''
                      | Some specifiers \<Rightarrow>
                          if specifiers = [] then VersionRangeMatch Unknown ''pypi_empty_range''
                          else (case pypi_unsupported_specifier pk specifiers of
                                  Some r \<Rightarrow> VersionRangeMatch Unknown r
                                | None \<Rightarrow>
                                    if pk_contains pk normalized_range version
                                    then VersionRangeMatch Matched ''pypi_specifier_satisfied''
                                    else VersionRangeMatch NotMatched ''pypi_specifier_not_satisfied''))))"

definition match_exact_version_against_range ::
  "'v packaging \<Rightarrow> string \<Rightarrow> string \<Rightarrow> string \<Rightarrow> py_exc + version_range_match" where
  "match_exact_version_against_range pk ecosystem exact_version affected_range =
     (if ecosystem = ''npm'' then match_npm_version exact_version affected_range
      else if ecosystem = ''pypi'' then Inr (match_pypi_version pk exact_version affected_range)
      else if ecosystem = ''go'' then match_go_version exact_version affected_range
      else if ecosystem = ''cargo'' then match_semver_version ''cargo'' False exact_version affected_range
      else if ecosystem = ''composer'' then match_semver_version ''composer'' False exact_version affected_range
      else if ecosystem = ''maven'' then match_maven_version exact_version affected_range
      else if ecosystem = ''nuget'' then match_nuget_version exact_version affected_range
      else Inr (VersionRangeMatch Unknown ''unsupported_ecosystem''))"

subsection \<open>The comparisons are total orders\<close>

text \<open>
  The interface the matching loop needs of a comparison, and what it gives: the set of versions
  that satisfy a range is convex, and versions that compare equal get the same verdict.
\<close>

definition has_status :: "'e + version_range_match \<Rightarrow> version_match_status \<Rightarrow> bool" where
  "has_status r st \<longleftrightarrow> (\<exists>m. r = Inr m \<and> vr_status m = st)"

lemma has_status_simps [simp]:
  "\<not> has_status (Inl e) st" "has_status (Inr m) st \<longleftrightarrow> vr_status m = st"
  by (auto simp: has_status_def)

lemma match_comparators_matched_iff:
  "has_status (match_comparators bound_of cmp pfx v cs) Matched \<longleftrightarrow>
     (\<forall>c \<in> set cs. \<exists>op b. bound_of c = Inr (Some (op, b)) \<and> operator_satisfied op (cmp v b))"
proof (induction cs)
  case Nil
  then show ?case by simp
next
  case (Cons c cs)
  show ?case
  proof (cases "bound_of c")
    case (Inl e)
    then show ?thesis by simp
  next
    case (Inr p)
    then show ?thesis using Cons by (cases p) (auto split: if_splits)
  qed
qed

lemma match_comparators_not_matched:
  "has_status (match_comparators bound_of cmp pfx v cs) NotMatched \<Longrightarrow>
     \<exists>c \<in> set cs. \<exists>op b. bound_of c = Inr (Some (op, b)) \<and> \<not> operator_satisfied op (cmp v b)"
proof (induction cs)
  case Nil
  then show ?case by simp
next
  case (Cons c cs)
  show ?case
  proof (cases "bound_of c")
    case (Inl e)
    with Cons.prems show ?thesis by simp
  next
    case (Inr p)
    then show ?thesis using Cons by (cases p) (auto split: if_splits)
  qed
qed

lemma match_comparators_returns:
  "(\<And>c. c \<in> set cs \<Longrightarrow> \<exists>p. bound_of c = Inr p) \<Longrightarrow> \<exists>m. match_comparators bound_of cmp pfx v cs = Inr m"
proof (induction cs)
  case Nil
  then show ?case by simp
next
  case (Cons c cs)
  then obtain p where "bound_of c = Inr p" by fastforce
  with Cons show ?case by (auto split: option.splits)
qed

locale version_order =
  fixes cmp :: "'v \<Rightarrow> 'v \<Rightarrow> int"
  assumes cmp_antisym: "cmp b a = - cmp a b"
    and cmp_trans: "cmp a b \<le> 0 \<Longrightarrow> cmp b c \<le> 0 \<Longrightarrow> cmp a c \<le> 0"
begin

lemma cmp_flip: "cmp a b \<ge> 0 \<longleftrightarrow> cmp b a \<le> 0" "cmp a b = 0 \<longleftrightarrow> cmp b a = 0"
  using cmp_antisym [of b a] by auto

lemma cmp_less_trans: "cmp a b \<le> 0 \<Longrightarrow> cmp b c < 0 \<Longrightarrow> cmp a c < 0"
  using cmp_trans [of c a b] cmp_flip by (metis linorder_not_le)

lemma less_cmp_trans: "cmp a b < 0 \<Longrightarrow> cmp b c \<le> 0 \<Longrightarrow> cmp a c < 0"
  using cmp_trans [of b c a] cmp_flip by (metis linorder_not_le)

lemma operator_convex:
  assumes "cmp a b \<le> 0" "cmp b c \<le> 0"
    and "operator_satisfied op (cmp a d)" "operator_satisfied op (cmp c d)"
  shows "operator_satisfied op (cmp b d)"
proof (cases op)
  case OpLe
  then show ?thesis using assms cmp_trans [of b c d] by simp
next
  case OpGe
  then show ?thesis using assms cmp_trans [of d a b] cmp_flip by simp
next
  case OpLt
  then show ?thesis using assms cmp_less_trans [of b c d] by simp
next
  case OpGt
  then have "cmp d a < 0" using assms(3) cmp_antisym [of d a] by simp
  then have "cmp d b < 0" using less_cmp_trans assms(1) by blast
  then show ?thesis using OpGt cmp_antisym [of b d] by simp
next
  case OpEq
  then have "cmp b d \<le> 0" "cmp d b \<le> 0"
    using assms cmp_trans [of b c d] cmp_trans [of d a b] cmp_flip(1) [of a d] by auto
  then show ?thesis using OpEq cmp_antisym [of b d] by simp
qed

lemma match_convex:
  assumes "cmp a b \<le> 0" "cmp b c \<le> 0"
    and "has_status (match_comparators bound_of cmp pfx a cs) Matched"
    and "has_status (match_comparators bound_of cmp pfx c cs) Matched"
  shows "has_status (match_comparators bound_of cmp pfx b cs) Matched"
  unfolding match_comparators_matched_iff
proof
  fix x assume x: "x \<in> set cs"
  with assms(3,4) obtain op d where
    "bound_of x = Inr (Some (op, d))" "operator_satisfied op (cmp a d)" "operator_satisfied op (cmp c d)"
    unfolding match_comparators_matched_iff by fastforce
  then show "\<exists>op d. bound_of x = Inr (Some (op, d)) \<and> operator_satisfied op (cmp b d)"
    using operator_convex assms(1,2) by blast
qed

lemma equal_versions_agree:
  assumes "cmp a b = 0"
  shows "match_comparators bound_of cmp pfx a cs = match_comparators bound_of cmp pfx b cs"
proof -
  have ab: "cmp a b \<le> 0" "cmp b a \<le> 0" using assms cmp_flip(2) [of a b] by auto
  have "operator_satisfied op (cmp a d) \<longleftrightarrow> operator_satisfied op (cmp b d)" for op d
    using operator_convex [OF ab] operator_convex [OF ab(2,1)] by blast
  then show ?thesis
    by (induction cs) (auto split: option.splits simp: bind_res_split)
qed

end

lemma version_order_key:
  fixes key :: "'v \<Rightarrow> 'k::linorder"
  assumes "\<And>a b. cmp a b = cmp3 (key a) (key b)"
  shows "version_order cmp"
proof unfold_locales
  show "cmp b a = - cmp a b" for a b unfolding assms by (rule cmp3_antisym)
  show "cmp a b \<le> 0 \<Longrightarrow> cmp b c \<le> 0 \<Longrightarrow> cmp a c \<le> 0" for a b c
    unfolding assms by simp
qed

text \<open>
  The reference order of pre-releases: a release follows each of its pre-releases, numeric
  identifiers precede alphanumeric ones, and a proper prefix precedes.
\<close>

definition prerelease_key :: "pre_ident list option \<Rightarrow> nat \<times> pre_ident list" where
  "prerelease_key p = (case p of None \<Rightarrow> (1, []) | Some ids \<Rightarrow> (0, ids))"

lemma compare_identifier_cmp3: "l \<noteq> r \<Longrightarrow> compare_identifier l r = cmp3 l r"
  by (cases l; cases r)
    (auto simp: compare_identifier_def cmp3_def less_pre_ident_def split: if_splits)

lemma zip_compare_cmp3:
  "(case first_difference (zip l r) of
      Some c \<Rightarrow> c
    | None \<Rightarrow> if length l = length r then 0 else if length l < length r then -1 else 1) = cmp3 l r"
proof (induction l r rule: list_induct2')
  case (4 x xs y ys)
  have "cmp3 (x # xs) (y # ys) = (if x = y then cmp3 xs ys else cmp3 x y)"
    by (auto simp: cmp3_def)
  with 4 show ?case by (cases "x = y"; cases "first_difference (zip xs ys)") (auto simp: compare_identifier_cmp3 split: if_splits)
qed (auto simp: cmp3_def)

lemma compare_prerelease_cmp3:
  "compare_prerelease p q = cmp3 (prerelease_key p) (prerelease_key q)"
proof (cases p; cases q)
  fix l r assume "p = Some l" "q = Some r"
  then show ?thesis
    using zip_compare_cmp3 [of l r]
    by (auto simp: compare_prerelease_def prerelease_key_def cmp3_def)
qed (auto simp: compare_prerelease_def prerelease_key_def cmp3_def)

lemma compare_with_core_cmp3:
  fixes a b :: "'a::linorder" and p q :: "'b::linorder"
  shows "(if a \<noteq> b then (if a < b then -1 else 1) else cmp3 p q) = cmp3 (a, p) (b, q)"
  by (auto simp: cmp3_def)

definition core_key :: "'a \<times> pre_ident list option \<Rightarrow> 'a \<times> nat \<times> pre_ident list" where
  "core_key v = (fst v, prerelease_key (snd v))"

lemma compare_go_versions_cmp3: "compare_go_versions l r = cmp3 (core_key l) (core_key r)"
  unfolding compare_go_versions_def compare_prerelease_cmp3 compare_with_core_cmp3 core_key_def ..

lemma compare_nuget_versions_cmp3: "compare_nuget_versions l r = cmp3 (core_key l) (core_key r)"
  unfolding compare_nuget_versions_def compare_prerelease_cmp3 compare_with_core_cmp3 core_key_def ..

lemma pad_zeros_wider:
  assumes "length xs \<le> w" "length ys \<le> w" "w \<le> w'"
  shows "pad_zeros w' xs < pad_zeros w' ys \<longleftrightarrow> pad_zeros w xs < pad_zeros w ys"
    and "pad_zeros w' xs = pad_zeros w' ys \<longleftrightarrow> pad_zeros w xs = pad_zeros w ys"
proof -
  have *: "pad_zeros w' zs = pad_zeros w zs @ replicate (w' - w) 0" if "length zs \<le> w" for zs
    using that assms(3) by (simp add: pad_zeros_def flip: replicate_add)
  have len: "length (pad_zeros w xs) = length (pad_zeros w ys)"
    using assms by (simp add: pad_zeros_def)
  show "pad_zeros w' xs < pad_zeros w' ys \<longleftrightarrow> pad_zeros w xs < pad_zeros w ys"
    using * assms same_length_append_less [OF len] by simp
  show "pad_zeros w' xs = pad_zeros w' ys \<longleftrightarrow> pad_zeros w xs = pad_zeros w ys"
    using * assms by simp
qed

definition maven_key :: "nat \<Rightarrow> maven_version \<Rightarrow> int list \<times> int \<times> int" where
  "maven_key w v = (pad_zeros w (fst v), snd v)"

lemma compare_maven_versions_cmp3:
  assumes "length (fst l) \<le> w" "length (fst r) \<le> w"
  shows "compare_maven_versions l r = cmp3 (maven_key w l) (maven_key w r)"
  using pad_zeros_wider [of "fst l" "max (length (fst l)) (length (fst r))" "fst r" w] assms
  by (auto simp: compare_maven_versions_def maven_key_def cmp3_def Let_def)

interpretation semver_ord: version_order compare_go_versions
  by (rule version_order_key) (rule compare_go_versions_cmp3)

interpretation nuget_ord: version_order compare_nuget_versions
  by (rule version_order_key) (rule compare_nuget_versions_cmp3)

interpretation maven_ord: version_order compare_maven_versions
proof unfold_locales
  fix a b c :: maven_version
  define w where "w = max (length (fst a)) (max (length (fst b)) (length (fst c)))"
  then have w: "length (fst a) \<le> w" "length (fst b) \<le> w" "length (fst c) \<le> w" by auto
  show "compare_maven_versions b a = - compare_maven_versions a b"
    using w cmp3_antisym [of "maven_key w b" "maven_key w a"]
    by (simp add: compare_maven_versions_cmp3 [of _ w])
  show "compare_maven_versions a b \<le> 0 \<Longrightarrow> compare_maven_versions b c \<le> 0 \<Longrightarrow> compare_maven_versions a c \<le> 0"
    using w by (auto simp: compare_maven_versions_cmp3 [of _ w])
qed

subsection \<open>The matchers return\<close>

lemma scan_numeric_length: "scan_numeric s = Some (n, r) \<Longrightarrow> length n \<le> length s \<and> length r \<le> length s"
  by (cases s) (auto split: if_splits simp: le_SucI length_takeWhile_le length_dropWhile_le)

lemma scan_char_length: "scan_char d s = Some r \<Longrightarrow> length r \<le> length s"
  by (cases s) (auto split: if_splits)

lemma scan_triple_length:
  assumes "scan_triple s = Some ((a, b, c), r)"
  shows "length a \<le> length s" "length b \<le> length s" "length c \<le> length s" "length r \<le> length s"
proof -
  from assms obtain s1 s2 s3 s4 where
    1: "scan_numeric s = Some (a, s1)" and 2: "scan_char CHR ''.'' s1 = Some s2" and
    3: "scan_numeric s2 = Some (b, s3)" and 4: "scan_char CHR ''.'' s3 = Some s4" and
    5: "scan_numeric s4 = Some (c, r)"
    by (auto simp: scan_triple_def bind_eq_Some_conv)
  show "length a \<le> length s" "length b \<le> length s" "length c \<le> length s" "length r \<le> length s"
    using scan_numeric_length [OF 1] scan_char_length [OF 2] scan_numeric_length [OF 3]
      scan_char_length [OF 4] scan_numeric_length [OF 5] by linarith+
qed

lemma npm_release_version_length:
  assumes "npm_release_version s = Some (a, b, c)"
  shows "length a \<le> length s" "length b \<le> length s" "length c \<le> length s"
  using assms scan_triple_length
  by (auto simp: npm_release_version_def bind_eq_Some_conv split: prod.splits if_splits)

lemma go_version_length:
  assumes "go_version s = Some ((a, b, c), p)"
  shows "length a \<le> length s" "length b \<le> length s" "length c \<le> length s" "\<And>pre. p = Some pre \<Longrightarrow> length pre \<le> length s"
proof -
  define t where "t = (if starts_with ''v'' s then drop 1 s else s)"
  then have t: "length t \<le> length s" by simp
  from assms obtain r where r: "scan_triple t = Some ((a, b, c), r)"
    and p: "\<And>pre. p = Some pre \<Longrightarrow> length pre \<le> length r"
    by (auto simp: go_version_def t_def [symmetric] Let_def bind_eq_Some_conv split: prod.splits if_splits)
  show "length a \<le> length s" "length b \<le> length s" "length c \<le> length s"
    using scan_triple_length [OF r] t by auto
  show "length pre \<le> length s" if "p = Some pre" for pre
    using scan_triple_length(4) [OF r] t p [OF that] by simp
qed

lemma parse_npm_returns:
  assumes "length value \<le> max_str_digits"
  shows "\<exists>p. parse_npm_release_version value = Inr p"
proof (cases "npm_release_version (py_strip value)")
  case None
  then show ?thesis by (simp add: parse_npm_release_version_def Let_def)
next
  case (Some g)
  obtain a b c where g: "g = (a, b, c)" by (cases g)
  have "length (py_strip value) \<le> max_str_digits"
    using assms length_py_strip order_trans by blast
  then show ?thesis
    using npm_release_version_length [of "py_strip value" a b c] Some g
    by (simp add: parse_npm_release_version_def Let_def py_int_bounded)
qed

lemma parse_go_returns:
  assumes "length value \<le> max_str_digits"
  shows "\<exists>p. parse_go_version value = Inr p"
proof (cases "go_version (py_strip value)")
  case None
  then show ?thesis by (simp add: parse_go_version_def)
next
  case (Some g)
  obtain a b c p where g: "g = ((a, b, c), p)" by (cases g) auto
  have len: "length (py_strip value) \<le> max_str_digits"
    using assms length_py_strip order_trans by blast
  note L = go_version_length [OF Some [unfolded g]]
  have ints: "py_int a = Inr (digits_val a)" "py_int b = Inr (digits_val b)" "py_int c = Inr (digits_val c)"
    using L len by (simp_all add: py_int_bounded)
  show ?thesis
  proof (cases p)
    case None
    then show ?thesis using Some g ints by (simp add: parse_go_version_def)
  next
    case (Some pre)
    have "\<exists>y. parse_identifier x = Inr y" if "x \<in> set (py_split CHR ''.'' pre)" for x
      using py_split_length [OF that] L(4) [OF Some] len by (simp add: parse_identifier_def py_int_bounded)
    then obtain ids where "map_res parse_identifier (py_split CHR ''.'' pre) = Inr ids"
      using map_res_total by blast
    then show ?thesis
      using \<open>go_version (py_strip value) = Some g\<close> g Some ints by (simp add: parse_go_version_def Let_def)
  qed
qed

lemma scan_operator_length: "scan_operator s = (op, v) \<Longrightarrow> length v \<le> length s"
  by (auto simp: scan_operator_def split: if_splits)

lemma range_words_length: "w \<in> set (range_words s) \<Longrightarrow> length w \<le> length s"
  using py_words_length [of w] length_py_strip [of s] order_trans
  by (fastforce simp: range_words_def replace_char_def)

lemma npm_comparator_loop_returns:
  "(\<And>c. c \<in> set cs \<Longrightarrow> length c \<le> max_str_digits) \<Longrightarrow> \<exists>m. npm_comparator_loop v cs = Inr m"
proof (induction cs)
  case Nil
  then show ?case by simp
next
  case (Cons c cs)
  show ?case
  proof (cases "npm_comparator c")
    case None
    then show ?thesis by simp
  next
    case (Some p)
    obtain op body where p: "p = (op, body)" by (cases p)
    have "length body \<le> max_str_digits"
      using Cons.prems [of c] Some p scan_operator_length [of c]
      by (auto simp: npm_comparator_def split: prod.splits if_splits dest: order_trans)
    then obtain cand reason where "parse_npm_release_version body = Inr (cand, reason)"
      using parse_npm_returns by fastforce
    then show ?thesis using Cons Some p by (auto split: option.splits)
  qed
qed

lemma semver_bound_returns: "length c \<le> max_str_digits \<Longrightarrow> \<exists>p. semver_bound av c = Inr p"
proof (cases "go_comparator c")
  case None
  then show ?thesis by (simp add: semver_bound_def)
next
  case (Some p)
  assume len: "length c \<le> max_str_digits"
  obtain op body where p: "p = (op, body)" by (cases p)
  have "length body \<le> max_str_digits"
    using len Some p scan_operator_length [of c]
    by (auto simp: go_comparator_def split: prod.splits if_splits dest: order_trans)
  then obtain b where "parse_go_version body = Inr b" using parse_go_returns by blast
  then show ?thesis using Some p by (auto simp: semver_bound_def split: option.splits)
qed

lemma match_semver_returns:
  assumes "length v \<le> max_str_digits" "length r \<le> max_str_digits"
  shows "\<exists>m. match_semver_version pfx av v r = Inr m"
proof -
  obtain p where p: "parse_go_version v = Inr p" using parse_go_returns assms by blast
  have "\<exists>q. semver_bound av c = Inr q" if "c \<in> set (range_words r)" for c
    using semver_bound_returns range_words_length [OF that] assms(2) order_trans by blast
  then have "\<exists>m. match_comparators (semver_bound av) compare_go_versions pfx x (range_words r) = Inr m" for x
    by (rule match_comparators_returns)
  then show ?thesis using p by (auto simp: match_semver_version_def Let_def split: option.splits)
qed

lemma match_npm_returns:
  assumes "length v \<le> max_str_digits" "length r \<le> max_str_digits"
  shows "\<exists>m. match_npm_version v r = Inr m"
proof -
  obtain x reason where p: "parse_npm_release_version v = Inr (x, reason)"
    using parse_npm_returns [OF assms(1)] by auto
  have "\<exists>m. npm_comparator_loop y (range_words r) = Inr m" for y
    using npm_comparator_loop_returns range_words_length assms(2) order_trans by blast
  then show ?thesis using p by (auto simp: match_npm_version_def Let_def split: option.splits)
qed

lemma match_nuget_returns: "\<exists>m. match_nuget_version v r = Inr m"
proof -
  have "\<exists>m. match_comparators nuget_bound compare_nuget_versions ''nuget'' x (range_words r) = Inr m" for x
    by (rule match_comparators_returns) (simp add: nuget_bound_def)
  then show ?thesis by (auto simp: match_nuget_version_def Let_def split: option.splits)
qed

lemma match_maven_returns: "\<exists>m. match_maven_version v r = Inr m"
proof -
  have "\<exists>m. match_comparators maven_bound compare_maven_versions ''maven'' x (range_words r) = Inr m" for x
    by (rule match_comparators_returns) (simp add: maven_bound_def)
  then show ?thesis by (auto simp: match_maven_version_def Let_def split: option.splits)
qed

subsection \<open>NuGet identities\<close>

fun nuget_item_ok :: "pre_ident \<Rightarrow> bool" where
  "nuget_item_ok (Num n) = (0 \<le> n \<and> n \<le> nuget_max_integer)"
| "nuget_item_ok (Txt s) = (s \<noteq> [] \<and> list_all label_char s \<and> \<not> list_all is_digit s \<and> py_lower s = s)"

text \<open>What every parsed NuGet version satisfies.\<close>

fun nuget_ok :: "nuget_version \<Rightarrow> bool" where
  "nuget_ok ((a, b, c, d), pre) =
     ((\<forall>n \<in> {a, b, c, d}. 0 \<le> n \<and> n \<le> nuget_max_integer) \<and>
      (\<forall>items. pre = Some items \<longrightarrow> items \<noteq> [] \<and> list_all nuget_item_ok items))"

lemma lower_char_idem [simp]: "lower_char (lower_char c) = lower_char c"
proof -
  have "code (char_of (code c + 32)) = code c + 32" if "code c \<le> 222"
    using that by (simp add: code_def)
  then show ?thesis by (auto simp: lower_char_def is_upper_def)
qed

lemma lower_char_label: "label_char c \<Longrightarrow> label_char (lower_char c)"
proof -
  assume l: "label_char c"
  have "code (char_of (code c + 32)) = code c + 32" if "code c \<le> 90"
    using that by (simp add: code_def)
  moreover have "code CHR ''-'' = 45" by (simp add: code_def)
  ultimately show ?thesis
    using l by (auto simp: lower_char_def label_char_def is_ascii_alnum_def is_letter_def is_lower_def is_upper_def is_digit_def)
qed

lemma lower_char_digit: "is_digit (lower_char c) \<longleftrightarrow> is_digit c"
proof -
  have "code (char_of (code c + 32)) = code c + 32" if "code c \<le> 222"
    using that by (simp add: code_def)
  then show ?thesis by (auto simp: lower_char_def is_upper_def is_digit_def)
qed

lemma py_lower_simps [simp]:
  "py_lower (py_lower s) = py_lower s" "py_lower s = [] \<longleftrightarrow> s = []"
  "list_all is_digit (py_lower s) = list_all is_digit s"
  by (simp_all add: py_lower_def list_all_iff lower_char_digit comp_def)

lemma py_lower_label: "list_all label_char s \<Longrightarrow> list_all label_char (py_lower s)"
  by (auto simp: py_lower_def list_all_iff lower_char_label)

lemma py_split_chars:
  "w \<in> set (py_split d s) \<Longrightarrow> c \<in> set w \<Longrightarrow> c \<in> set s \<and> c \<noteq> d"
proof (induction s arbitrary: w)
  case Nil
  then show ?case by simp
next
  case (Cons x s)
  obtain v vs where v: "py_split d s = v # vs" by (cases "py_split d s") auto
  show ?case using Cons v by (fastforce split: if_splits)
qed

lemma nuget_groups_ok:
  assumes "nuget_version_groups s = Some (core, pre)"
  shows "core \<noteq> [] \<and> length core \<le> 4 \<and> (\<forall>p \<in> set core. p \<noteq> [] \<and> list_all is_digit p)"
    and "pre = Some q \<Longrightarrow> (\<forall>p \<in> set (py_split CHR ''.'' q). list_all label_char p)"
proof -
  define run where "run = takeWhile nuget_core_char s"
  have "\<forall>p \<in> set (py_split CHR ''.'' run). list_all is_digit p"
    unfolding run_def
    by (fastforce simp: list_all_iff nuget_core_char_def dest: py_split_chars set_takeWhileD)
  moreover have "core = py_split CHR ''.'' run" "list_all (\<lambda>p. p \<noteq> []) core" "length core \<le> 4"
    using assms by (auto simp: nuget_version_groups_def Let_def run_def split: if_splits)
  ultimately show "core \<noteq> [] \<and> length core \<le> 4 \<and> (\<forall>p \<in> set core. p \<noteq> [] \<and> list_all is_digit p)"
    by (auto simp: list_all_iff)
  assume "pre = Some q"
  then have "q = takeWhile nuget_label_run (drop 1 (dropWhile nuget_core_char s))"
    using assms by (auto simp: nuget_version_groups_def Let_def split: if_splits)
  then show "\<forall>p \<in> set (py_split CHR ''.'' q). list_all label_char p"
    by (fastforce simp: list_all_iff nuget_label_run_def dest: py_split_chars set_takeWhileD)
qed

lemma nuget_identifier_ok:
  assumes "p \<noteq> []" "list_all label_char p" "list_all is_digit p \<longrightarrow> digits_val p \<le> nuget_max_integer"
  shows "nuget_item_ok (nuget_identifier p)"
proof (cases "list_all is_digit p")
  case True
  then show ?thesis using assms by (simp add: nuget_identifier_def list_all_iff digits_val_nonneg)
next
  case False
  then show ?thesis using assms py_lower_label [of p] by (simp add: nuget_identifier_def)
qed

lemma length_le_4_cases:
  "length xs \<le> 4 \<Longrightarrow> xs \<noteq> [] \<Longrightarrow>
     (\<exists>a. xs = [a]) \<or> (\<exists>a b. xs = [a, b]) \<or> (\<exists>a b c. xs = [a, b, c]) \<or> (\<exists>a b c d. xs = [a, b, c, d])"
  by (cases xs; cases "tl xs"; cases "tl (tl xs)"; cases "tl (tl (tl xs))") auto

lemma pad4_ok:
  assumes "length ns \<le> 4" "ns \<noteq> []" "\<forall>n \<in> set ns. 0 \<le> n \<and> n \<le> nuget_max_integer"
  shows "nuget_ok (pad4 ns, None)"
  using length_le_4_cases [OF assms(1,2)] assms(3)
  by (auto simp: pad4_def nuget_max_integer_def)

lemma parse_nuget_ok:
  assumes "parse_nuget_version value = Some v"
  shows "nuget_ok v"
proof -
  from assms obtain core pre where g: "nuget_version_groups (py_strip value) = Some (core, pre)"
    and small: "\<forall>p \<in> set core. digits_val p \<le> nuget_max_integer"
    and v: "v = (pad4 (map digits_val core), map_option (map nuget_identifier \<circ> py_split CHR ''.'') pre)"
    and items: "\<And>q. pre = Some q \<Longrightarrow> \<forall>p \<in> set (py_split CHR ''.'' q).
        p \<noteq> [] \<and> (list_all is_digit p \<longrightarrow> digits_val p \<le> nuget_max_integer)"
    by (auto simp: parse_nuget_version_def Let_def list_ex_iff not_less split: if_splits option.splits)
  note core = nuget_groups_ok(1) [OF g]
  have "nuget_ok (pad4 (map digits_val core), None)"
    using core small by (intro pad4_ok) (auto simp: list_all_iff intro: digits_val_nonneg)
  moreover have "list_all nuget_item_ok (map nuget_identifier (py_split CHR ''.'' q))" if "pre = Some q" for q
    using items [OF that] nuget_groups_ok(2) [OF g that] by (auto simp: list_all_iff intro!: nuget_identifier_ok)
  ultimately show ?thesis
    using v by (cases "pad4 (map digits_val core)") (auto simp: comp_def)
qed

lemma py_join_chars: "c \<in> set (py_join sep ws) \<Longrightarrow> c \<in> set sep \<or> (\<exists>w \<in> set ws. c \<in> set w)"
  by (induction sep ws rule: py_join.induct) auto

lemma py_join_snoc: "ws \<noteq> [] \<Longrightarrow> py_join sep (ws @ [w]) = py_join sep ws @ sep @ w"
  by (induction sep ws rule: py_join.induct) auto

lemma show_identifier_parse: "nuget_item_ok i \<Longrightarrow> nuget_identifier (show_identifier i) = i"
  using show_nat_digits
  by (cases i) (auto simp: nuget_identifier_def digits_val_show_nat list_all_iff)

lemma digit_label: "is_digit c \<Longrightarrow> label_char c"
  by (simp add: label_char_def is_ascii_alnum_def)

lemma show_identifier_label:
  "nuget_item_ok i \<Longrightarrow> show_identifier i \<noteq> [] \<and> list_all label_char (show_identifier i)"
  using show_nat_digits digit_label by (cases i) (auto simp: list_all_iff)

lemma show_identifier_small:
  "nuget_item_ok i \<Longrightarrow> list_all is_digit (show_identifier i) \<Longrightarrow> digits_val (show_identifier i) \<le> nuget_max_integer"
  by (cases i) (auto simp: digits_val_show_nat)

lemma label_not_dot: "label_char c \<Longrightarrow> c \<noteq> CHR ''.''"
  by (auto simp: label_char_def char_class_defs)

lemma label_not_space: "label_char c \<Longrightarrow> \<not> is_space c"
  by (auto simp: label_char_def char_class_defs)

lemma nuget_core_not_space: "nuget_core_char c \<Longrightarrow> \<not> is_space c"
  by (auto simp: nuget_core_char_def char_class_defs)

lemma show_identifier_char:
  "nuget_item_ok i \<Longrightarrow> c \<in> set (show_identifier i) \<Longrightarrow> label_char c \<and> c \<noteq> CHR ''.''"
  using show_identifier_label [of i] label_not_dot by (auto simp: list_all_iff)

definition nuget_core_texts :: "int \<times> int \<times> int \<times> int \<Rightarrow> string list" where
  "nuget_core_texts q = (case q of (a, b, c, d) \<Rightarrow>
     map (show_nat \<circ> nat) [a, b, c] @ (if d \<noteq> 0 then [show_nat (nat d)] else []))"

lemma nuget_identity_text_parts:
  "nuget_identity_text (q, pre) = py_join ''.'' (nuget_core_texts q) @
     (case pre of None \<Rightarrow> [] | Some items \<Rightarrow> CHR ''-'' # py_join ''.'' (map show_identifier items))"
  by (cases q) (auto simp: nuget_core_texts_def Let_def split: option.splits)

lemma nuget_core_texts_props:
  "nuget_core_texts q \<noteq> []" "length (nuget_core_texts q) \<le> 4"
  "\<And>w. w \<in> set (nuget_core_texts q) \<Longrightarrow> w \<noteq> [] \<and> (\<forall>c \<in> set w. is_digit c)"
  using show_nat_digits by (auto simp: nuget_core_texts_def split: prod.splits)

lemma nuget_core_texts_values:
  assumes "nuget_ok (q, pre)"
  shows "pad4 (map digits_val (nuget_core_texts q)) = q"
    and "\<forall>w \<in> set (nuget_core_texts q). digits_val w \<le> nuget_max_integer"
  using assms by (auto simp: nuget_core_texts_def pad4_def digits_val_show_nat split: prod.splits)

lemma core_text_chars: "c \<in> set (py_join ''.'' (nuget_core_texts q)) \<Longrightarrow> nuget_core_char c"
  using nuget_core_texts_props(3) [of _ q] by (auto simp: nuget_core_char_def dest!: py_join_chars)

lemma split_core_text: "py_split CHR ''.'' (py_join ''.'' (nuget_core_texts q)) = nuget_core_texts q"
proof (rule py_split_join)
  show "CHR ''.'' \<notin> set w" if "w \<in> set (nuget_core_texts q)" for w
    using nuget_core_texts_props(3) [OF that] by (auto simp: char_class_defs)
qed (rule nuget_core_texts_props)

lemma takeWhile_all_then:
  assumes "\<And>c. c \<in> set xs \<Longrightarrow> P c" "ys = [] \<or> \<not> P (hd ys)"
  shows "takeWhile P (xs @ ys) = xs" "dropWhile P (xs @ ys) = ys"
  using assms by (induction xs; cases ys; auto)+

lemma core_run:
  assumes "r = [] \<or> \<not> nuget_core_char (hd r)"
  shows "takeWhile nuget_core_char (py_join ''.'' (nuget_core_texts q) @ r) = py_join ''.'' (nuget_core_texts q)"
    and "dropWhile nuget_core_char (py_join ''.'' (nuget_core_texts q) @ r) = r"
  using takeWhile_all_then [of "py_join ''.'' (nuget_core_texts q)" nuget_core_char r] core_text_chars assms
  by blast+

lemma not_core_dash: "\<not> nuget_core_char CHR ''-''"
  by (simp add: nuget_core_char_def char_class_defs)

lemma nuget_groups_of_text:
  assumes "nuget_ok (q, pre)"
  shows "nuget_version_groups (nuget_identity_text (q, pre)) =
    Some (nuget_core_texts q, map_option (\<lambda>items. py_join ''.'' (map show_identifier items)) pre)"
proof (cases pre)
  case None
  have t: "nuget_identity_text (q, pre) = py_join ''.'' (nuget_core_texts q) @ []"
    unfolding nuget_identity_text_parts using None by simp
  show ?thesis
    unfolding t nuget_version_groups_def Let_def core_run [OF disjI1 [OF refl]] split_core_text
    using None nuget_core_texts_props(3) [of _ q] nuget_core_texts_props(1,2) [of q]
    by (auto simp: starts_with_def list_all_iff)
next
  case (Some items)
  let ?pre = "py_join ''.'' (map show_identifier items)"
  have ok: "items \<noteq> []" "list_all nuget_item_ok items" using assms Some by (cases q, auto)+
  have labels: "list_all label_char w" "w \<noteq> []" if "w \<in> set (map show_identifier items)" for w
    using that ok show_identifier_label by (auto simp: list_all_iff)
  have "nuget_label_run c" if "c \<in> set ?pre" for c
    using py_join_chars [OF that] labels by (auto simp: nuget_label_run_def list_all_iff)
  then have run: "takeWhile nuget_label_run ?pre = ?pre" "dropWhile nuget_label_run ?pre = []"
    by (simp_all add: takeWhile_eq_all_conv)
  have split: "py_split CHR ''.'' ?pre = map show_identifier items"
    using labels ok(1) label_not_dot by (intro py_split_join) (auto simp: list_all_iff)
  have t: "nuget_identity_text (q, pre) = py_join ''.'' (nuget_core_texts q) @ CHR ''-'' # ?pre"
    unfolding nuget_identity_text_parts using Some by simp
  have c: "takeWhile nuget_core_char (py_join ''.'' (nuget_core_texts q) @ CHR ''-'' # ?pre) = py_join ''.'' (nuget_core_texts q)"
    "dropWhile nuget_core_char (py_join ''.'' (nuget_core_texts q) @ CHR ''-'' # ?pre) = CHR ''-'' # ?pre"
    using not_core_dash by (auto intro!: core_run)
  have d: "drop 1 (CHR ''-'' # ?pre) = ?pre" "starts_with ''-'' (CHR ''-'' # ?pre)"
    by (simp_all add: starts_with_def)
  show ?thesis
    unfolding t nuget_version_groups_def Let_def c split_core_text d run split
    using Some nuget_core_texts_props(3) [of _ q] nuget_core_texts_props(1,2) [of q] labels
    by (auto simp: list_all_iff starts_with_def)
qed

lemma nuget_text_no_space:
  assumes "nuget_ok (q, pre)" "c \<in> set (nuget_identity_text (q, pre))"
  shows "\<not> is_space c"
proof -
  from assms(2) consider "c \<in> set (py_join ''.'' (nuget_core_texts q))" | "c = CHR ''-''"
    | items where "pre = Some items" "c \<in> set (py_join ''.'' (map show_identifier items))"
    unfolding nuget_identity_text_parts by (auto split: option.splits)
  then show ?thesis
  proof cases
    case 1
    then show ?thesis using core_text_chars nuget_core_not_space by blast
  next
    case 2
    then show ?thesis by (simp add: char_class_defs)
  next
    case 3
    then have "c = CHR ''.'' \<or> (\<exists>i \<in> set items. c \<in> set (show_identifier i))"
      using py_join_chars [of c "''.''" "map show_identifier items"] by auto
    moreover have "list_all nuget_item_ok items" using assms(1) 3 by (cases q) auto
    ultimately show ?thesis
      using show_identifier_char label_not_space by (auto simp: list_all_iff char_class_defs)
  qed
qed

lemma parse_nuget_identity_text:
  assumes ok: "nuget_ok v" and len: "length (nuget_identity_text v) \<le> nuget_max_version_length"
  shows "parse_nuget_version (nuget_identity_text v) = Some v"
proof -
  obtain q pre where v: "v = (q, pre)" by (cases v)
  note okv = ok [unfolded v]
  have strip: "py_strip (nuget_identity_text v) = nuget_identity_text v"
    using nuget_text_no_space [OF okv] v by simp
  have ne: "nuget_identity_text v \<noteq> []"
    using v nuget_core_texts_props py_join_nonempty by (auto simp: nuget_identity_text_parts)
  have vals: "pad4 (map digits_val (nuget_core_texts q)) = q"
    "\<not> list_ex (\<lambda>part. part > nuget_max_integer) (map digits_val (nuget_core_texts q))"
    using nuget_core_texts_values [OF okv] by (auto simp: list_ex_iff)
  have pre: "py_split CHR ''.'' (py_join ''.'' (map show_identifier items)) = map show_identifier items \<and>
      list_all nuget_item_ok items" if "pre = Some items" for items
  proof -
    have "items \<noteq> []" "list_all nuget_item_ok items" using okv that by (cases q, auto)+
    then show ?thesis
      using show_identifier_char by (fastforce simp: list_all_iff intro!: py_split_join)
  qed
  have parts: "\<not> list_ex (\<lambda>p. p = [] \<or> (list_all is_digit p \<and> digits_val p > nuget_max_integer)) (map show_identifier items)"
    "map nuget_identifier (map show_identifier items) = items" if "list_all nuget_item_ok items" for items
    using that show_identifier_label show_identifier_small show_identifier_parse
    by (force simp: list_ex_iff list_all_iff map_idI)+
  show ?thesis
    unfolding parse_nuget_version_def Let_def strip
    using nuget_groups_of_text [OF okv] v ne len vals pre parts
    by (cases pre) auto
qed
subsection \<open>Properties\<close>

text \<open>
  The semantic-version comparison is the SemVer precedence: it is the sign of a linear order in
  which the numeric core is compared first, a release follows all of its pre-releases, numeric
  identifiers precede alphanumeric ones and a proper prefix precedes.
\<close>

theorem compare_go_versions_precedence:
  "compare_go_versions l r = cmp3 (core_key l) (core_key r)"
  by (rule compare_go_versions_cmp3)

text \<open>
  Affected ranges are convex: when two versions satisfy a range of a semantic-version
  ecosystem, so does every supported version between them, whatever the comparators are.
\<close>

theorem semver_range_convex:
  assumes "parse_go_version a = Inr (Some va)" "parse_go_version b = Inr (Some vb)"
    "parse_go_version c = Inr (Some vc)"
    and "compare_go_versions va vb \<le> 0" "compare_go_versions vb vc \<le> 0"
    and "has_status (match_go_version a r) Matched" "has_status (match_go_version c r) Matched"
  shows "has_status (match_go_version b r) Matched"
proof -
  have "has_status (match_comparators (semver_bound True) compare_go_versions ''go'' va (range_words r)) Matched"
    "has_status (match_comparators (semver_bound True) compare_go_versions ''go'' vc (range_words r)) Matched"
    "range_words r \<noteq> []"
    using assms by (auto simp: match_go_version_def match_semver_version_def Let_def split: if_splits)
  then show ?thesis
    using semver_ord.match_convex [OF assms(4,5)] assms(2)
    by (simp add: match_go_version_def match_semver_version_def)
qed

theorem semver_range_convex_witness:
  "has_status (match_go_version ''v1.2.0-rc.1'' ''>=1.0.0, <v1.2.0'') Matched"
proof -
  have a: "parse_go_version ''1.0.0'' = Inr (Some ((1, 0, 0), None))"
    by code_simp
  have b: "parse_go_version ''v1.2.0-rc.1'' = Inr (Some ((1, 2, 0), Some [Txt ''rc'', Num 1]))"
    by code_simp
  have c: "parse_go_version ''1.2.0-rc.2'' = Inr (Some ((1, 2, 0), Some [Txt ''rc'', Num 2]))"
    by code_simp
  have ab: "compare_go_versions ((1, 0, 0), None) ((1, 2, 0), Some [Txt ''rc'', Num 1]) \<le> 0"
    by code_simp
  have bc: "compare_go_versions ((1, 2, 0), Some [Txt ''rc'', Num 1]) ((1, 2, 0), Some [Txt ''rc'', Num 2]) \<le> 0"
    by code_simp
  have ma: "match_go_version ''1.0.0'' ''>=1.0.0, <v1.2.0'' = Inr (VersionRangeMatch Matched ''go_all_comparators_satisfied'')"
    by code_simp
  have mc: "match_go_version ''1.2.0-rc.2'' ''>=1.0.0, <v1.2.0'' = Inr (VersionRangeMatch Matched ''go_all_comparators_satisfied'')"
    by code_simp
  show ?thesis by (rule semver_range_convex [OF a b c ab bc]) (simp_all only: ma mc has_status_simps VersionRangeMatch_sel)
qed

text \<open>
  C32. A negative verdict is never a guess: for the semantic-version ecosystems it names a
  comparator of the range that was understood and that the version violates, and a positive one
  means that every comparator was understood and satisfied.
\<close>

theorem semver_verdicts_justified:
  assumes "match_semver_version pfx av v r = Inr m"
  shows "(vr_status m = Matched \<longrightarrow> (\<exists>x. parse_go_version v = Inr (Some x) \<and>
      (\<forall>c \<in> set (range_words r). \<exists>op b. semver_bound av c = Inr (Some (op, b)) \<and>
         operator_satisfied op (compare_go_versions x b)))) \<and>
    (vr_status m = NotMatched \<longrightarrow> (\<exists>x. parse_go_version v = Inr (Some x) \<and>
      (\<exists>c \<in> set (range_words r). \<exists>op b. semver_bound av c = Inr (Some (op, b)) \<and>
         \<not> operator_satisfied op (compare_go_versions x b))))"
proof -
  obtain p where p: "parse_go_version v = Inr p"
    using assms by (cases "parse_go_version v") (auto simp: match_semver_version_def)
  have loop: "\<exists>x. p = Some x \<and> match_comparators (semver_bound av) compare_go_versions pfx x (range_words r) = Inr m"
    if "vr_status m \<noteq> Unknown"
    using assms p that
    by (auto simp: match_semver_version_def Let_def split: option.splits if_splits)
  show ?thesis
  proof (intro conjI impI)
    assume st: "vr_status m = Matched"
    with loop obtain x where x: "p = Some x"
      and "has_status (match_comparators (semver_bound av) compare_go_versions pfx x (range_words r)) Matched"
      by auto
    then show "\<exists>x. parse_go_version v = Inr (Some x) \<and>
      (\<forall>c \<in> set (range_words r). \<exists>op b. semver_bound av c = Inr (Some (op, b)) \<and>
         operator_satisfied op (compare_go_versions x b))"
      unfolding match_comparators_matched_iff using p by simp
  next
    assume st: "vr_status m = NotMatched"
    with loop obtain x where x: "p = Some x"
      and "has_status (match_comparators (semver_bound av) compare_go_versions pfx x (range_words r)) NotMatched"
      by auto
    from match_comparators_not_matched [OF this(2)]
    show "\<exists>x. parse_go_version v = Inr (Some x) \<and>
      (\<exists>c \<in> set (range_words r). \<exists>op b. semver_bound av c = Inr (Some (op, b)) \<and>
         \<not> operator_satisfied op (compare_go_versions x b))"
      using p x by simp
  qed
qed

theorem semver_verdicts_justified_witness:
  "match_semver_version ''cargo'' False ''2.0.0'' ''>=1.0.0 <1.5.0'' =
     Inr (VersionRangeMatch NotMatched ''cargo_comparator_not_satisfied'') \<and>
   (\<exists>x. parse_go_version ''2.0.0'' = Inr (Some x) \<and>
      (\<exists>c \<in> set (range_words ''>=1.0.0 <1.5.0''). \<exists>op b. semver_bound False c = Inr (Some (op, b)) \<and>
         \<not> operator_satisfied op (compare_go_versions x b)))"
proof -
  have m: "match_semver_version ''cargo'' False ''2.0.0'' ''>=1.0.0 <1.5.0'' =
     Inr (VersionRangeMatch NotMatched ''cargo_comparator_not_satisfied'')"
    by code_simp
  show ?thesis
    using m semver_verdicts_justified [OF m] by (simp only: VersionRangeMatch_sel simp_thms)
qed

text \<open>
  Within CPython's limit on the digits that \<^verbatim>\<open>int()\<close> accepts, the matcher returns a verdict for
  every ecosystem, version and range: it never raises.
\<close>

theorem match_exact_version_returns:
  assumes "length exact_version \<le> max_str_digits" "length affected_range \<le> max_str_digits"
  shows "\<exists>m. match_exact_version_against_range pk ecosystem exact_version affected_range = Inr m"
  using match_npm_returns [OF assms] match_semver_returns [OF assms] match_nuget_returns match_maven_returns
  by (simp add: match_exact_version_against_range_def match_go_version_def)

theorem match_exact_version_returns_witness:
  "\<exists>m. match_exact_version_against_range
     \<lparr>pk_version = \<lambda>s. Some s, pk_is_prerelease = \<lambda>_. False, pk_specifier_set = \<lambda>s. None, pk_contains = \<lambda>_ _. False\<rparr>
     ''npm'' ''1.2.3'' ''>=1.0.0'' = Inr m"
  by (rule match_exact_version_returns) (simp_all add: max_str_digits_def)

text \<open>
  Past that limit the npm matcher raises \<^verbatim>\<open>ValueError\<close> instead of reporting the version as
  unknown: any release version whose major number has more than 4300 digits does so.
\<close>

theorem npm_overlong_number_raises:
  assumes "k > max_str_digits"
  shows "match_npm_version (replicate k CHR ''1'' @ ''.0.0'') r = Inl ValueError"
proof -
  let ?v = "replicate k CHR ''1'' @ ''.0.0''"
  have one: "is_digit CHR ''1''" by (simp add: char_class_defs)
  have dot: "\<not> is_digit CHR ''.''" by (simp add: char_class_defs)
  have k: "k = Suc (k - 1)" using assms by (simp add: max_str_digits_def)
  have strip: "py_strip ?v = ?v"
    by (rule py_strip_no_space) (auto simp: char_class_defs)
  have "takeWhile is_digit ?v = replicate k CHR ''1''" "dropWhile is_digit ?v = ''.0.0''"
    using takeWhile_all_then [of "replicate k CHR ''1''" is_digit "''.0.0''"] one dot by auto
  then have "scan_numeric ?v = Some (replicate k CHR ''1'', ''.0.0'')"
    using one by (subst (asm) (1 2) k, subst (1) k, simp)
  then have "scan_triple ?v = Some ((replicate k CHR ''1'', ''0'', ''0''), [])"
    by (simp add: scan_triple_def)
  then have "npm_release_version ?v = Some (replicate k CHR ''1'', ''0'', ''0'')"
    by (simp add: npm_release_version_def)
  moreover have "CHR ''-'' \<notin> set (takeWhile (\<lambda>c. c \<noteq> CHR ''+'') ?v)"
    by (auto dest: set_takeWhileD)
  ultimately show ?thesis
    using assms strip by (simp add: match_npm_version_def parse_npm_release_version_def py_int_def Let_def)
qed

theorem npm_overlong_number_raises_witness:
  "match_npm_version (replicate 5000 CHR ''1'' @ ''.0.0'') ''>=1.0.0'' = Inl ValueError"
  by (rule npm_overlong_number_raises) (simp add: max_str_digits_def)

text \<open>
  The canonical NuGet identity is canonical: parsing it gives back the parsed version (whenever
  it is within the length the parser accepts), so it is a fixed point and two versions with the same
  identity text are the same version.
\<close>

theorem canonicalize_nuget_roundtrip:
  assumes "canonicalize_nuget_version value = Some identity"
    and "length identity \<le> nuget_max_version_length"
  shows "parse_nuget_version identity = parse_nuget_version value \<and>
    canonicalize_nuget_version identity = Some identity"
proof -
  from assms(1) obtain v where v: "parse_nuget_version value = Some v" "identity = nuget_identity_text v"
    by (auto simp: canonicalize_nuget_version_def split: option.splits)
  then have "parse_nuget_version identity = parse_nuget_version value"
    using parse_nuget_identity_text parse_nuget_ok assms(2) by simp
  then show ?thesis
    using v by (simp add: canonicalize_nuget_version_def)
qed

theorem canonicalize_nuget_roundtrip_witness:
  "canonicalize_nuget_version ''01.2-Beta.007+build'' = Some ''1.2.0-beta.7'' \<and>
   parse_nuget_version ''1.2.0-beta.7'' = parse_nuget_version ''01.2-Beta.007+build''"
proof -
  have c: "canonicalize_nuget_version ''01.2-Beta.007+build'' = Some ''1.2.0-beta.7''"
    by code_simp
  have l: "length ''1.2.0-beta.7'' \<le> nuget_max_version_length"
    by code_simp
  show ?thesis
    using c canonicalize_nuget_roundtrip [OF c l] by blast
qed

end
