(* ===== verification/Vulnerability_Correlation.thy ===== *)
theory Vulnerability_Correlation
  imports Version_Matching
begin

section \<open>Correlating components with public advisories\<close>

text \<open>
  Model of \<^verbatim>\<open>backend/app/vulnerability_correlation.py\<close> and of the range normalization of
  \<^verbatim>\<open>backend/app/public_advisories.py\<close>. The decision functions return a result because the version
  matcher they call may raise. Of \<^verbatim>\<open>PublicAdvisory\<close> the record keeps the identifier and the fields the
  decisions read; the descriptive fields (references, severity, timestamps) are never read here.
\<close>

subsection \<open>Data\<close>

record component_identity =
  ci_ecosystem :: string
  ci_name :: string
  ci_version :: string
  ci_attested_sbom :: bool

datatype range_type = SEMVER | ECOSYSTEM | GIT | UNKNOWN_RANGE

record advisory_range =
  ar_range_type :: range_type
  ar_introduced :: "string option"
  ar_fixed :: "string option"
  ar_last_affected :: "string option"

record advisory =
  pa_id :: string
  pa_component :: component_identity
  pa_affected_ranges :: "advisory_range list"
  pa_withdrawn_at :: "string option"
  pa_ranges_complete :: bool

datatype correlation_status = Affected | NotAffected | UnknownStatus

record advisory_decision =
  ad_advisory :: advisory
  ad_status :: correlation_status
  ad_reason :: string

record component_decision =
  cd_component :: component_identity
  cd_status :: correlation_status
  cd_reason :: string
  cd_affected :: "advisory list"
  cd_unknown :: "advisory list"

record range_decision =
  rd_status :: correlation_status
  rd_reason :: string

subsection \<open>Normalizing OSV ranges\<close>

definition max_osv_ranges_per_advisory :: nat where
  "max_osv_ranges_per_advisory = 25"

definition max_osv_events_per_range :: nat where
  "max_osv_events_per_range = max_osv_ranges_per_advisory * 2"

text \<open>\<^verbatim>\<open>[^\s/\\?#@]{1,200}\<close>\<close>

definition range_event_version :: "string \<Rightarrow> bool" where
  "range_event_version s \<longleftrightarrow>
     1 \<le> length s \<and> length s \<le> 200 \<and>
     list_all (\<lambda>c. \<not> is_space c \<and> c \<notin> {CHR ''/'', CHR 0x5C, CHR ''?'', CHR ''#'', CHR ''@''}) s"

definition safe_range_version :: "json \<Rightarrow> string option" where
  "safe_range_version value =
     (case json_str value of
        None \<Rightarrow> None
      | Some s \<Rightarrow> (let normalized = py_strip s in if range_event_version normalized then Some normalized else None))"

datatype event_kind = Introduced | Fixed | LastAffected

fun event_key :: "event_kind \<Rightarrow> string" where
  "event_key Introduced = ''introduced''"
| "event_key Fixed = ''fixed''"
| "event_key LastAffected = ''last_affected''"

text \<open>The inner loop over the three kinds; \<open>None\<close> is the early \<^verbatim>\<open>return None\<close>.\<close>

fun event_values :: "string \<Rightarrow> json \<Rightarrow> event_kind list \<Rightarrow> (event_kind \<times> string) list option" where
  "event_values eco event [] = Some []"
| "event_values eco event (kind # kinds) =
     (case json_get event (event_key kind) of
        None \<Rightarrow> event_values eco event kinds
      | Some raw \<Rightarrow>
          Option.bind (safe_range_version raw) (\<lambda>normalized.
          Option.bind
            (if eco = ''nuget'' \<and> \<not> (kind = Introduced \<and> normalized = ''0'')
             then canonicalize_nuget_version normalized else Some normalized) (\<lambda>value.
          map_option (Cons (kind, value)) (event_values eco event kinds))))"

definition is_json_object :: "json \<Rightarrow> bool" where
  "is_json_object j \<longleftrightarrow> (\<exists>fs. j = JObj fs)"

lemma is_json_object_simps [simp, code]:
  "is_json_object (JObj fs) = True" "is_json_object JNull = False" "is_json_object (JBool b) = False"
  "is_json_object (JInt n) = False" "is_json_object (JStr s) = False" "is_json_object (JList xs) = False"
  by (auto simp: is_json_object_def)

text \<open>
  The loop over the events: the pending \<^verbatim>\<open>active_introduced\<close> and the intervals built so far (in
  order).
\<close>

fun osv_events :: "string \<Rightarrow> range_type \<Rightarrow> json list \<Rightarrow> string option \<Rightarrow> advisory_range list \<Rightarrow>
    (string option \<times> advisory_range list) option" where
  "osv_events eco rt [] active intervals = Some (active, intervals)"
| "osv_events eco rt (event # events) active intervals =
     (if \<not> is_json_object event then None
      else (case event_values eco event [Introduced, Fixed, LastAffected] of
              Some [(kind, value)] \<Rightarrow>
                if kind = Introduced
                then (if active \<noteq> None then None else osv_events eco rt events (Some value) intervals)
                else if active = None then None
                else osv_events eco rt events None
                  (intervals @ [\<lparr>ar_range_type = rt, ar_introduced = active,
                     ar_fixed = (if kind = Fixed then Some value else None),
                     ar_last_affected = (if kind = LastAffected then Some value else None)\<rparr>])
            | _ \<Rightarrow> None))"

definition osv_range_type :: "json \<Rightarrow> range_type" where
  "osv_range_type raw =
     (case json_get raw ''type'' of
        Some (JStr t) \<Rightarrow>
          if t = ''SEMVER'' then SEMVER else if t = ''ECOSYSTEM'' then ECOSYSTEM
          else if t = ''GIT'' then GIT else UNKNOWN_RANGE
      | _ \<Rightarrow> UNKNOWN_RANGE)"

definition normalize_osv_range :: "string \<Rightarrow> json \<Rightarrow> advisory_range list option" where
  "normalize_osv_range component_ecosystem raw =
     (case json_get raw ''events'' of
        Some (JList events) \<Rightarrow>
          if length events > max_osv_events_per_range then None
          else (case osv_events component_ecosystem (osv_range_type raw) events None [] of
                  None \<Rightarrow> None
                | Some (active, intervals) \<Rightarrow>
                    (let all = (case active of
                                  None \<Rightarrow> intervals
                                | Some v \<Rightarrow> intervals @ [\<lparr>ar_range_type = osv_range_type raw,
                                    ar_introduced = Some v, ar_fixed = None, ar_last_affected = None\<rparr>]) in
                     if all = [] then None else Some all))
      | _ \<Rightarrow> None)"

text \<open>The loop over \<^verbatim>\<open>raw_ranges\<close>: the ranges kept so far and whether nothing was dropped.\<close>

fun collect_osv_ranges :: "string \<Rightarrow> json list \<Rightarrow> advisory_range list \<times> bool \<Rightarrow> advisory_range list \<times> bool" where
  "collect_osv_ranges eco [] acc = acc"
| "collect_osv_ranges eco (raw # raws) (ranges, complete) =
     (case normalize_osv_range eco raw of
        None \<Rightarrow> collect_osv_ranges eco raws (ranges, False)
      | Some normalized \<Rightarrow>
          if length ranges + length normalized > max_osv_ranges_per_advisory
          then collect_osv_ranges eco raws (ranges, False)
          else collect_osv_ranges eco raws (ranges @ normalized, complete))"

definition osv_entry_matches :: "string \<Rightarrow> string \<Rightarrow> json \<Rightarrow> bool" where
  "osv_entry_matches package_ecosystem package_name entry =
     (case json_get entry ''package'' of
        Some (JObj fs) \<Rightarrow>
          map_of fs ''ecosystem'' = Some (JStr package_ecosystem) \<and>
          map_of fs ''name'' = Some (JStr package_name)
      | _ \<Rightarrow> False)"

text \<open>The loop over \<^verbatim>\<open>raw_affected\<close>; the state is (ranges, matched_package, complete).\<close>

fun collect_affected :: "string \<Rightarrow> string \<Rightarrow> string \<Rightarrow> json list \<Rightarrow>
    advisory_range list \<times> bool \<times> bool \<Rightarrow> advisory_range list \<times> bool \<times> bool" where
  "collect_affected eco pe pn [] acc = acc"
| "collect_affected eco pe pn (entry # entries) (ranges, matched, complete) =
     (if \<not> osv_entry_matches pe pn entry then collect_affected eco pe pn entries (ranges, matched, complete)
      else (case json_get entry ''ranges'' of
              Some (JList raws) \<Rightarrow>
                (case collect_osv_ranges eco raws (ranges, complete) of
                   (ranges', complete') \<Rightarrow> collect_affected eco pe pn entries (ranges', True, complete'))
            | _ \<Rightarrow> collect_affected eco pe pn entries (ranges, True, False)))"

definition matching_osv_ranges :: "json \<Rightarrow> string \<Rightarrow> string \<Rightarrow> string \<Rightarrow> (advisory_range list \<times> bool) option" where
  "matching_osv_ranges raw_affected package_ecosystem package_name component_ecosystem =
     (case raw_affected of
        JList entries \<Rightarrow>
          (case collect_affected component_ecosystem package_ecosystem package_name entries ([], False, True) of
             (ranges, matched, complete) \<Rightarrow> if matched then Some (ranges, complete) else None)
      | _ \<Rightarrow> None)"

subsection \<open>Decisions\<close>

definition same_component :: "component_identity \<Rightarrow> component_identity \<Rightarrow> bool" where
  "same_component left right \<longleftrightarrow>
     ci_ecosystem left = ci_ecosystem right \<and> ci_name left = ci_name right \<and> ci_version left = ci_version right"

definition truthy :: "string option \<Rightarrow> bool" where
  "truthy v \<longleftrightarrow> v \<noteq> None \<and> v \<noteq> Some []"

definition osv_range_expression :: "advisory_range \<Rightarrow> string option" where
  "osv_range_expression r =
     (let lower_bound = (if ar_introduced r = None \<or> ar_introduced r = Some ''0'' then None else ar_introduced r);
          upper_operator = (if truthy (ar_fixed r) then Some ''<''
                            else if truthy (ar_last_affected r) then Some ''<='' else None);
          upper_bound = (if truthy (ar_fixed r) then ar_fixed r else ar_last_affected r);
          comparators =
            (if truthy lower_bound then [''>='' @ the lower_bound] else []) @
            (if upper_operator \<noteq> None \<and> truthy upper_bound then [the upper_operator @ the upper_bound] else []) in
      if comparators \<noteq> [] then Some (py_join '' '' comparators)
      else if ar_introduced r = Some ''0'' then Some [] else None)"

definition range_outcome :: "correlation_status \<Rightarrow> string \<Rightarrow> range_decision" where
  "range_outcome st reason = \<lparr>rd_status = st, rd_reason = reason\<rparr>"

lemma range_outcome_sel [simp]:
  "rd_status (range_outcome st reason) = st" "rd_reason (range_outcome st reason) = reason"
  by (simp_all add: range_outcome_def)

definition correlate_range ::
  "'v packaging \<Rightarrow> component_identity \<Rightarrow> advisory_range \<Rightarrow> py_exc + range_decision" where
  "correlate_range pk component r =
     (if ar_range_type r = GIT then Inr (range_outcome UnknownStatus ''git_range_not_supported'')
      else if ar_range_type r \<notin> {SEMVER, ECOSYSTEM}
      then Inr (range_outcome UnknownStatus ''range_type_not_supported'')
      else (case osv_range_expression r of
              None \<Rightarrow> Inr (range_outcome UnknownStatus ''affected_range_missing'')
            | Some expression \<Rightarrow>
                if expression = [] then Inr (range_outcome Affected ''all_versions_affected'')
                else bind_res
                  (match_exact_version_against_range pk (ci_ecosystem component) (ci_version component) expression)
                  (\<lambda>m. Inr (case vr_status m of
                     Matched \<Rightarrow> range_outcome Affected ''affected_exact_version''
                   | NotMatched \<Rightarrow> range_outcome NotAffected ''version_outside_affected_range''
                   | Unknown \<Rightarrow> range_outcome UnknownStatus (''range_'' @ vr_reason m)))))"

text \<open>The loop over the ranges with its two flags \<^verbatim>\<open>saw_not_affected\<close> and \<^verbatim>\<open>unknown_reason\<close>.\<close>

fun correlate_ranges :: "'v packaging \<Rightarrow> component_identity \<Rightarrow> advisory_range list \<Rightarrow> bool \<Rightarrow> string option \<Rightarrow>
    py_exc + correlation_status \<times> string" where
  "correlate_ranges pk component [] saw_not_affected unknown_reason =
     Inr (case unknown_reason of
            Some r \<Rightarrow> (UnknownStatus, r)
          | None \<Rightarrow> if saw_not_affected then (NotAffected, ''version_outside_affected_range'')
                    else (UnknownStatus, ''affected_range_missing''))"
| "correlate_ranges pk component (r # rs) saw_not_affected unknown_reason =
     bind_res (correlate_range pk component r) (\<lambda>decision.
       case rd_status decision of
         Affected \<Rightarrow> Inr (Affected, rd_reason decision)
       | NotAffected \<Rightarrow> correlate_ranges pk component rs True unknown_reason
       | UnknownStatus \<Rightarrow> correlate_ranges pk component rs saw_not_affected
           (if unknown_reason = None then Some (rd_reason decision) else unknown_reason))"

definition advisory_outcome :: "advisory \<Rightarrow> correlation_status \<Rightarrow> string \<Rightarrow> advisory_decision" where
  "advisory_outcome a st reason = \<lparr>ad_advisory = a, ad_status = st, ad_reason = reason\<rparr>"

definition correlate_advisory ::
  "'v packaging \<Rightarrow> component_identity \<Rightarrow> advisory \<Rightarrow> py_exc + advisory_decision" where
  "correlate_advisory pk component a =
     (if \<not> same_component component (pa_component a)
      then Inr (advisory_outcome a UnknownStatus ''component_identity_mismatch'')
      else if pa_withdrawn_at a \<noteq> None then Inr (advisory_outcome a UnknownStatus ''advisory_withdrawn'')
      else if \<not> pa_ranges_complete a then Inr (advisory_outcome a UnknownStatus ''affected_ranges_incomplete'')
      else if pa_affected_ranges a = [] then Inr (advisory_outcome a UnknownStatus ''affected_range_missing'')
      else bind_res (correlate_ranges pk component (pa_affected_ranges a) False None)
             (\<lambda>(st, reason). Inr (advisory_outcome a st reason)))"

definition correlate_component_advisories ::
  "'v packaging \<Rightarrow> component_identity \<Rightarrow> advisory list \<Rightarrow> py_exc + component_decision" where
  "correlate_component_advisories pk component advisories =
     bind_res (map_res (correlate_advisory pk component) advisories) (\<lambda>decisions.
       let affected = map ad_advisory (filter (\<lambda>d. ad_status d = Affected) decisions);
           unknown_decisions = filter (\<lambda>d. ad_status d = UnknownStatus) decisions in
       Inr (if affected \<noteq> []
            then \<lparr>cd_component = component, cd_status = Affected, cd_reason = ''affected_exact_version'',
                  cd_affected = affected, cd_unknown = []\<rparr>
            else (case unknown_decisions of
                    first_unknown # _ \<Rightarrow>
                      \<lparr>cd_component = component, cd_status = UnknownStatus, cd_reason = ad_reason first_unknown,
                       cd_affected = [], cd_unknown = map ad_advisory unknown_decisions\<rparr>
                  | [] \<Rightarrow>
                      \<lparr>cd_component = component, cd_status = NotAffected, cd_reason = ''no_matching_advisory'',
                       cd_affected = [], cd_unknown = []\<rparr>)))"

subsection \<open>Decisions per advisory and per component\<close>

lemma correlate_ranges_affected_iff:
  "correlate_ranges pk c rs saw ur = Inr (Affected, reason) \<Longrightarrow>
     \<exists>r \<in> set rs. correlate_range pk c r = Inr (range_outcome Affected reason)"
proof (induction rs arbitrary: saw ur)
  case Nil
  then show ?case by (auto split: option.splits if_splits)
next
  case (Cons r rs)
  then show ?case
    by (cases "correlate_range pk c r") (auto split: correlation_status.splits simp: range_outcome_def)
qed

lemma correlate_ranges_not_affected:
  "correlate_ranges pk c rs saw ur = Inr (NotAffected, reason) \<Longrightarrow>
     ur = None \<and> (rs \<noteq> [] \<or> saw) \<and>
     (\<forall>r \<in> set rs. \<exists>d. correlate_range pk c r = Inr d \<and> rd_status d = NotAffected)"
proof (induction rs arbitrary: saw ur)
  case Nil
  then show ?case by (auto split: option.splits if_splits)
next
  case (Cons r rs)
  then obtain d where d: "correlate_range pk c r = Inr d" by (auto simp: res_simps)
  show ?case
  proof (cases "rd_status d")
    case Affected
    with Cons.prems d show ?thesis by simp
  next
    case NotAffected
    with Cons.prems d have "correlate_ranges pk c rs True ur = Inr (NotAffected, reason)" by simp
    from Cons.IH [OF this] NotAffected d show ?thesis by auto
  next
    case UnknownStatus
    with Cons.prems d
    have "correlate_ranges pk c rs saw (if ur = None then Some (rd_reason d) else ur) = Inr (NotAffected, reason)"
      by simp
    from Cons.IH [OF this] show ?thesis by (auto split: if_splits)
  qed
qed

lemma correlate_ranges_all_not_affected:
  "(\<And>r. r \<in> set rs \<Longrightarrow> \<exists>d. correlate_range pk c r = Inr d \<and> rd_status d = NotAffected) \<Longrightarrow>
     rs \<noteq> [] \<or> saw \<Longrightarrow>
     correlate_ranges pk c rs saw None = Inr (NotAffected, ''version_outside_affected_range'')"
proof (induction rs arbitrary: saw)
  case Nil
  then show ?case by simp
next
  case (Cons r rs)
  obtain d where d: "correlate_range pk c r = Inr d" "rd_status d = NotAffected"
    using Cons.prems(1) [of r] by auto
  have "correlate_ranges pk c rs True None = Inr (NotAffected, ''version_outside_affected_range'')"
    by (rule Cons.IH) (simp_all add: Cons.prems(1))
  with d show ?case by simp
qed

lemma correlate_advisory_ad_advisory: "correlate_advisory pk c a = Inr d \<Longrightarrow> ad_advisory d = a"
  by (auto simp: correlate_advisory_def advisory_outcome_def res_simps split: if_splits)

lemma correlate_component_status:
  assumes "correlate_component_advisories pk c as = Inr d"
  shows "cd_status d = Affected \<longleftrightarrow> (\<exists>a \<in> set as. \<exists>x. correlate_advisory pk c a = Inr x \<and> ad_status x = Affected)"
    and "cd_status d = NotAffected \<longleftrightarrow> (\<forall>a \<in> set as. \<exists>x. correlate_advisory pk c a = Inr x \<and> ad_status x = NotAffected)"
    and "set (cd_affected d) \<subseteq> set as"
proof -
  from assms obtain ds where ds: "list_all2 (\<lambda>a x. correlate_advisory pk c a = Inr x) as ds"
    by (auto simp: correlate_component_advisories_def res_simps map_res_Inr_iff)
  have to: "\<exists>x \<in> set ds. correlate_advisory pk c a = Inr x" if "a \<in> set as" for a
    using list_all2_setD1 [OF ds that] by blast
  have from_ds: "\<exists>a \<in> set as. correlate_advisory pk c a = Inr x" if "x \<in> set ds" for x
    using list_all2_setD2 [OF ds that] by blast
  have d: "correlate_component_advisories pk c as = Inr d" "map_res (correlate_advisory pk c) as = Inr ds"
    using assms ds by (auto simp: map_res_Inr_iff)
  have aff: "cd_status d = Affected \<longleftrightarrow> (\<exists>x \<in> set ds. ad_status x = Affected)"
    using d by (auto simp: correlate_component_advisories_def filter_empty_conv Let_def split: list.splits if_splits)
  have notaff: "cd_status d = NotAffected \<longleftrightarrow> (\<forall>x \<in> set ds. ad_status x = NotAffected)"
  proof -
    have "cd_status d = NotAffected \<longleftrightarrow>
        filter (\<lambda>x. ad_status x = Affected) ds = [] \<and> filter (\<lambda>x. ad_status x = UnknownStatus) ds = []"
      using d by (auto simp: correlate_component_advisories_def Let_def split: list.splits if_splits)
    then show ?thesis
      by (auto simp: filter_empty_conv) (metis correlation_status.exhaust)
  qed
  have sub: "set (cd_affected d) \<subseteq> ad_advisory ` set ds"
    using d by (auto simp: correlate_component_advisories_def Let_def split: list.splits if_splits)
  show "cd_status d = Affected \<longleftrightarrow> (\<exists>a \<in> set as. \<exists>x. correlate_advisory pk c a = Inr x \<and> ad_status x = Affected)"
    unfolding aff using to from_ds by fastforce
  show "cd_status d = NotAffected \<longleftrightarrow> (\<forall>a \<in> set as. \<exists>x. correlate_advisory pk c a = Inr x \<and> ad_status x = NotAffected)"
    unfolding notaff using to from_ds by fastforce
  show "set (cd_affected d) \<subseteq> set as"
    using sub from_ds correlate_advisory_ad_advisory by fastforce
qed

subsection \<open>Event ranges as intervals of the version order\<close>

definition plain_char :: "char \<Rightarrow> bool" where
  "plain_char c \<longleftrightarrow> \<not> is_space c \<and> c \<noteq> CHR '',''"

lemma plain_charI: "is_digit c \<or> go_label_char c \<or> c = CHR ''.'' \<or> c = CHR ''+'' \<or> c = CHR ''v'' \<Longrightarrow> plain_char c"
  by (auto simp: plain_char_def go_label_char_def char_class_defs)

lemma is_digit_zero: "is_digit CHR ''0''"
  by (simp add: char_class_defs)

lemma scan_numeric_split: "scan_numeric s = Some (n, r) \<Longrightarrow> s = n @ r \<and> (\<forall>c \<in> set n. is_digit c)"
  by (cases s) (auto split: if_splits simp: is_digit_zero dest: set_takeWhileD)

lemma scan_char_split: "scan_char d s = Some r \<Longrightarrow> s = d # r"
  by (cases s) (auto split: if_splits)

lemma scan_triple_plain:
  assumes "scan_triple s = Some (g, r)" "\<forall>c \<in> set r. plain_char c"
  shows "\<forall>c \<in> set s. plain_char c"
proof -
  obtain a b c where g: "g = (a, b, c)" by (cases g)
  from assms g obtain s1 s2 s3 s4 where
    1: "scan_numeric s = Some (a, s1)" and 2: "scan_char CHR ''.'' s1 = Some s2" and
    3: "scan_numeric s2 = Some (b, s3)" and 4: "scan_char CHR ''.'' s3 = Some s4" and
    5: "scan_numeric s4 = Some (c, r)"
    by (auto simp: scan_triple_def bind_eq_Some_conv)
  have "s = a @ CHR ''.'' # b @ CHR ''.'' # c @ r" "\<forall>x \<in> set (a @ b @ c). is_digit x"
    using scan_numeric_split [OF 1] scan_char_split [OF 2] scan_numeric_split [OF 3]
      scan_char_split [OF 4] scan_numeric_split [OF 5] by auto
  then show ?thesis using assms(2) by (auto intro: plain_charI)
qed

lemma go_build_end_plain: "go_build_end s \<Longrightarrow> \<forall>c \<in> set s. plain_char c"
  by (cases s) (auto simp: list_all_iff intro: plain_charI)

lemma go_version_plain:
  assumes "go_version s = Some g"
  shows "\<forall>c \<in> set s. plain_char c"
proof -
  define t where "t = (if starts_with ''v'' s then drop 1 s else s)"
  from assms obtain gr r where tr: "scan_triple t = Some (gr, r)"
    and r: "starts_with ''-'' r \<and> go_build_end (dropWhile go_label_char (drop 1 r)) \<or> go_build_end r"
    by (auto simp: go_version_def t_def [symmetric] Let_def bind_eq_Some_conv split: if_splits)
  have "\<forall>c \<in> set r. plain_char c"
  proof (cases "go_build_end r")
    case True
    then show ?thesis by (rule go_build_end_plain)
  next
    case False
    then obtain tl where "r = CHR ''-'' # tl" "go_build_end (dropWhile go_label_char tl)"
      using r starts_with_one [of "CHR ''-''" r] by auto
    moreover have "go_label_char x \<or> x \<in> set (dropWhile go_label_char tl)" if "x \<in> set tl" for x
      using that set_takeWhileD [of x go_label_char tl]
      by (metis Un_iff set_append takeWhile_dropWhile_id)
    moreover have "plain_char CHR ''-''" by (simp add: plain_char_def char_class_defs)
    ultimately show ?thesis
      using go_build_end_plain plain_charI by auto
  qed
  then have "\<forall>c \<in> set t. plain_char c" using scan_triple_plain [OF tr] by blast
  moreover have "set s \<subseteq> insert CHR ''v'' (set t)"
    by (cases s) (auto simp: t_def starts_with_def)
  ultimately show ?thesis by (auto intro: plain_charI)
qed

lemma go_version_head: "go_version s = Some g \<Longrightarrow> \<exists>c cs. s = c # cs \<and> c \<notin> {CHR ''<'', CHR ''>'', CHR ''=''}"
proof (cases s)
  case Nil
  assume "go_version s = Some g"
  with Nil show ?thesis by (simp add: go_version_def starts_with_def scan_triple_def)
next
  case (Cons c cs)
  assume g: "go_version s = Some g"
  have "c \<notin> {CHR ''<'', CHR ''>'', CHR ''=''}"
  proof
    assume "c \<in> {CHR ''<'', CHR ''>'', CHR ''=''}"
    then have "\<not> starts_with ''v'' s" "scan_numeric s = None"
      using Cons by (auto simp: starts_with_def char_class_defs)
    then show False using g by (simp add: go_version_def scan_triple_def)
  qed
  with Cons show ?thesis by blast
qed

lemma semver_bound_of_text:
  assumes "go_version t = Some g" "parse_go_version t = Inr (Some v)" "av \<or> \<not> starts_with ''v'' t"
  shows "semver_bound av (''>='' @ t) = Inr (Some (OpGe, v))"
    and "semver_bound av (''<'' @ t) = Inr (Some (OpLt, v))"
    and "semver_bound av (''<='' @ t) = Inr (Some (OpLe, v))"
proof -
  obtain c cs where t: "t = c # cs" "c \<noteq> CHR ''=''" using go_version_head [OF assms(1)] by auto
  have "scan_operator (''>='' @ t) = (Some OpGe, t)" "scan_operator (''<'' @ t) = (Some OpLt, t)"
    "scan_operator (''<='' @ t) = (Some OpLe, t)"
    using t by (simp_all add: scan_operator_def starts_with_def)
  then show "semver_bound av (''>='' @ t) = Inr (Some (OpGe, v))"
    "semver_bound av (''<'' @ t) = Inr (Some (OpLt, v))"
    "semver_bound av (''<='' @ t) = Inr (Some (OpLe, v))"
    using assms by (cases g, auto simp: semver_bound_def go_comparator_def default_operator_def)+
qed

lemma words_two:
  assumes "a \<noteq> []" "b \<noteq> []" "\<forall>c \<in> set (a @ b). plain_char c"
  shows "range_words (a @ '' '' @ b) = [a, b]"
proof -
  have sp: "is_space CHR '' ''" by (simp add: char_class_defs)
  have ns: "\<not> is_space c" if "c \<in> set a \<or> c \<in> set b" for c using assms(3) that by (auto simp: plain_char_def)
  have "dropWhile is_space (a @ '' '' @ b) = a @ '' '' @ b"
    using assms(1) ns by (cases a) auto
  moreover have "dropWhile is_space (rev (a @ '' '' @ b)) = rev (a @ '' '' @ b)"
    using assms(2) ns by (cases b rule: rev_cases) auto
  ultimately have strip: "py_strip (a @ '' '' @ b) = a @ '' '' @ b" by (simp add: py_strip_def)
  have "map (\<lambda>c. if c = CHR '','' then CHR '' '' else c) x = x" if "\<forall>c \<in> set x. plain_char c" for x
    using that by (intro map_idI) (auto simp: plain_char_def)
  then have rep: "replace_char CHR '','' CHR '' '' (a @ '' '' @ b) = a @ '' '' @ b"
    using assms(3) by (simp add: replace_char_def)
  have "words_from [] (a @ '' '' @ b) = [a, b]"
    using words_from_word [of a "[]" "'' '' @ b"] words_from_word [of b "[]" "[]"] ns sp assms(1,2) by simp
  then show ?thesis unfolding range_words_def py_words_def strip rep .
qed

lemma match_go_interval:
  assumes "go_version lo = Some glo" "parse_go_version lo = Inr (Some vlo)"
    and "go_version hi = Some ghi" "parse_go_version hi = Inr (Some vhi)"
    and "parse_go_version version = Inr (Some v)"
  shows "\<exists>m. match_go_version version ((''>='' @ lo) @ '' '' @ (''<'' @ hi)) = Inr m \<and>
    vr_status m = (if compare_go_versions v vlo \<ge> 0 \<and> compare_go_versions v vhi < 0 then Matched else NotMatched)"
proof -
  have "\<forall>c \<in> set ((''>='' @ lo) @ (''<'' @ hi)). plain_char c"
    using go_version_plain [OF assms(1)] go_version_plain [OF assms(3)]
    by (auto simp: plain_char_def char_class_defs)
  then have w: "range_words ((''>='' @ lo) @ '' '' @ (''<'' @ hi)) = [''>='' @ lo, ''<'' @ hi]"
    by (intro words_two) auto
  show ?thesis
    unfolding match_go_version_def match_semver_version_def w
    using assms(5) semver_bound_of_text(1) [OF assms(1,2), of True] semver_bound_of_text(2) [OF assms(3,4), of True]
    by simp
qed

lemma osv_interval_expression:
  assumes "lo \<noteq> []" "lo \<noteq> ''0''" "hi \<noteq> []"
  shows "osv_range_expression \<lparr>ar_range_type = t, ar_introduced = Some lo, ar_fixed = Some hi, ar_last_affected = la\<rparr> =
    Some ((''>='' @ lo) @ '' '' @ (''<'' @ hi))"
  using assms by (simp add: osv_range_expression_def truthy_def)

subsection \<open>Normalized event ranges\<close>

definition interval_ok :: "advisory_range \<Rightarrow> bool" where
  "interval_ok r \<longleftrightarrow> ar_introduced r \<noteq> None \<and> (ar_fixed r = None \<or> ar_last_affected r = None)"

definition bounded_interval :: "advisory_range \<Rightarrow> bool" where
  "bounded_interval r \<longleftrightarrow> ar_fixed r \<noteq> None \<or> ar_last_affected r \<noteq> None"

lemma osv_events_ok:
  "osv_events eco rt events active intervals = Some (active', intervals') \<Longrightarrow>
     list_all (\<lambda>r. interval_ok r \<and> bounded_interval r) intervals \<Longrightarrow>
     list_all (\<lambda>r. interval_ok r \<and> bounded_interval r) intervals'"
proof (induction events arbitrary: active intervals)
  case Nil
  then show ?case by simp
next
  case (Cons e es)
  from Cons.prems(1) obtain kind v where
    vals: "event_values eco e [Introduced, Fixed, LastAffected] = Some [(kind, v)]" and obj: "is_json_object e"
    by (auto simp del: event_values.simps split: if_splits option.splits list.splits prod.splits)
  show ?case
  proof (cases "kind = Introduced")
    case True
    with Cons vals obj show ?thesis by (auto simp del: event_values.simps split: if_splits)
  next
    case False
    with Cons.prems vals obj have "active \<noteq> None" and
      rec: "osv_events eco rt es None (intervals @ [\<lparr>ar_range_type = rt, ar_introduced = active,
        ar_fixed = (if kind = Fixed then Some v else None),
        ar_last_affected = (if kind = LastAffected then Some v else None)\<rparr>]) = Some (active', intervals')"
      by (simp_all del: event_values.simps split: if_splits)
    then show ?thesis
      using False Cons.prems(2)
      by (intro Cons.IH [OF rec]) (cases kind; auto simp: interval_ok_def bounded_interval_def)
  qed
qed

lemma normalize_osv_range_ok:
  assumes "normalize_osv_range eco raw = Some rs"
  shows "rs \<noteq> []" "list_all interval_ok rs" "list_all bounded_interval (butlast rs)"
proof -
  from assms obtain events active intervals where
    ev: "osv_events eco (osv_range_type raw) events None [] = Some (active, intervals)"
    and rs: "rs = (case active of None \<Rightarrow> intervals | Some v \<Rightarrow> intervals @
        [\<lparr>ar_range_type = osv_range_type raw, ar_introduced = Some v, ar_fixed = None, ar_last_affected = None\<rparr>])"
    and ne: "rs \<noteq> []"
    by (auto simp: normalize_osv_range_def Let_def split: option.splits json.splits if_splits)
  have "list_all (\<lambda>r. interval_ok r \<and> bounded_interval r) intervals"
    using osv_events_ok [OF ev] by simp
  then show "rs \<noteq> []" "list_all interval_ok rs" "list_all bounded_interval (butlast rs)"
    using rs ne by (auto simp: list_all_iff interval_ok_def split: option.splits dest: in_set_butlastD)
qed

lemma collect_osv_ranges_complete:
  "collect_osv_ranges eco raws (rs, cp) = (rs', True) \<Longrightarrow>
     cp \<and> (\<forall>raw \<in> set raws. normalize_osv_range eco raw \<noteq> None) \<and>
     rs' = rs @ concat (map (the \<circ> normalize_osv_range eco) raws)"
proof (induction raws arbitrary: rs cp)
  case Nil
  then show ?case by simp
next
  case (Cons raw raws)
  have no: "collect_osv_ranges eco raws (rs, False) \<noteq> (rs', True)" for rs
    using Cons.IH [of rs False] by auto
  with Cons.prems obtain n where n: "normalize_osv_range eco raw = Some n"
    "collect_osv_ranges eco raws (rs @ n, cp) = (rs', True)"
    by (auto split: option.splits if_splits)
  from Cons.IH [OF n(2)] n(1) show ?case by simp
qed

text \<open>The raw ranges that the matching entries of an advisory carry.\<close>

definition entry_ranges :: "json \<Rightarrow> json list option" where
  "entry_ranges entry = (case json_get entry ''ranges'' of Some (JList raws) \<Rightarrow> Some raws | _ \<Rightarrow> None)"

lemma collect_affected_complete:
  "collect_affected eco pe pn entries (rs, mt, cp) = (rs', mt', True) \<Longrightarrow>
     cp \<and> (\<forall>e \<in> set (filter (osv_entry_matches pe pn) entries). entry_ranges e \<noteq> None \<and>
       (\<forall>raw \<in> set (the (entry_ranges e)). normalize_osv_range eco raw \<noteq> None)) \<and>
     rs' = rs @ concat (map (\<lambda>e. concat (map (the \<circ> normalize_osv_range eco) (the (entry_ranges e))))
       (filter (osv_entry_matches pe pn) entries))"
proof (induction entries arbitrary: rs mt cp)
  case Nil
  then show ?case by simp
next
  case (Cons e es)
  show ?case
  proof (cases "osv_entry_matches pe pn e")
    case False
    with Cons.IH [of rs mt cp] Cons.prems show ?thesis by simp
  next
    case True
    have no: "collect_affected eco pe pn es (rs, True, False) \<noteq> (rs', mt', True)" for rs
      using Cons.IH [of rs True False] by auto
    with Cons.prems True obtain raws where raws: "json_get e ''ranges'' = Some (JList raws)"
      by (auto split: option.splits json.splits)
    obtain rs1 cp1 where c: "collect_osv_ranges eco raws (rs, cp) = (rs1, cp1)" by fastforce
    with Cons.prems True raws have rec: "collect_affected eco pe pn es (rs1, True, cp1) = (rs', mt', True)"
      by simp
    from Cons.IH [OF this] have cp1 by blast
    with collect_osv_ranges_complete [of eco raws rs cp rs1] c
    have "cp \<and> (\<forall>raw \<in> set raws. normalize_osv_range eco raw \<noteq> None) \<and>
        rs1 = rs @ concat (map (the \<circ> normalize_osv_range eco) raws)" by simp
    with Cons.IH [OF rec] True raws show ?thesis by (simp add: entry_ranges_def comp_def)
  qed
qed
subsection \<open>Properties\<close>

text \<open>
  C2. A clean verdict is complete: an advisory is decided not to affect a component exactly when it
  is for that component, not withdrawn, has a complete non-empty list of ranges, and every range
  was evaluated and excludes the version. No missing, withdrawn or unsupported range can become a
  negative result.
\<close>

theorem not_affected_iff_all_ranges_exclude:
  "(\<exists>d. correlate_advisory pk c a = Inr d \<and> ad_status d = NotAffected) \<longleftrightarrow>
     same_component c (pa_component a) \<and> pa_withdrawn_at a = None \<and> pa_ranges_complete a \<and>
     pa_affected_ranges a \<noteq> [] \<and>
     (\<forall>r \<in> set (pa_affected_ranges a). \<exists>x. correlate_range pk c r = Inr x \<and> rd_status x = NotAffected)"
  (is "?l \<longleftrightarrow> ?r")
proof
  assume ?l
  then show ?r
    by (auto simp: correlate_advisory_def advisory_outcome_def res_simps
        dest!: correlate_ranges_not_affected split: if_splits)
next
  assume ?r
  then have "correlate_ranges pk c (pa_affected_ranges a) False None =
      Inr (NotAffected, ''version_outside_affected_range'')"
    by (intro correlate_ranges_all_not_affected) auto
  with \<open>?r\<close> show ?l by (simp add: correlate_advisory_def advisory_outcome_def)
qed

text \<open>A stand-in for the version library, for the examples: every text is a release version.\<close>

definition example_packaging :: "string packaging" where
  "example_packaging = \<lparr>pk_version = Some, pk_is_prerelease = (\<lambda>_. False),
     pk_specifier_set = (\<lambda>s. if CHR '' '' \<in> set s then None else Some [(''<'', drop 1 s)]),
     pk_contains = (\<lambda>_ _. True)\<rparr>"

definition example_component :: component_identity where
  "example_component = \<lparr>ci_ecosystem = ''go'', ci_name = ''m'', ci_version = ''2.0.0'', ci_attested_sbom = False\<rparr>"

definition example_range :: advisory_range where
  "example_range = \<lparr>ar_range_type = SEMVER, ar_introduced = Some ''1.0.0'', ar_fixed = Some ''1.5.0'',
     ar_last_affected = None\<rparr>"

theorem not_affected_iff_all_ranges_exclude_witness:
  "\<exists>d. correlate_advisory example_packaging example_component
     \<lparr>pa_id = ''GO-1'', pa_component = example_component, pa_affected_ranges = [example_range],
       pa_withdrawn_at = None, pa_ranges_complete = True\<rparr> = Inr d \<and> ad_status d = NotAffected"
proof -
  have "correlate_range example_packaging example_component example_range =
      Inr (range_outcome NotAffected ''version_outside_affected_range'')"
    by code_simp
  then show ?thesis
    unfolding not_affected_iff_all_ranges_exclude by (simp add: same_component_def)
qed

text \<open>
  The component verdict aggregates the advisories: it is affected exactly when some advisory
  affects it, clean exactly when every advisory excludes it, and otherwise unknown; the affected
  advisories it reports are among those given.
\<close>

theorem component_verdict_aggregates:
  assumes "correlate_component_advisories pk c as = Inr d"
  shows "(cd_status d = Affected \<longleftrightarrow> (\<exists>a \<in> set as. \<exists>x. correlate_advisory pk c a = Inr x \<and> ad_status x = Affected)) \<and>
    (cd_status d = NotAffected \<longleftrightarrow> (\<forall>a \<in> set as. \<exists>x. correlate_advisory pk c a = Inr x \<and> ad_status x = NotAffected)) \<and>
    set (cd_affected d) \<subseteq> set as"
  using correlate_component_status [OF assms] by blast

theorem component_verdict_aggregates_witness:
  "\<exists>d. correlate_component_advisories example_packaging example_component [] = Inr d \<and> cd_status d = NotAffected"
proof -
  have "\<exists>d. correlate_component_advisories example_packaging example_component [] = Inr d"
    by (simp add: correlate_component_advisories_def)
  then obtain d where d: "correlate_component_advisories example_packaging example_component [] = Inr d" ..
  from component_verdict_aggregates [OF d] d show ?thesis by auto
qed

text \<open>
  An OSV event range means what OSV says: for Go, with supported bounds, a component is decided
  affected by an introduced/fixed range exactly when its version lies in the half-open interval from
  the introduced to the fixed version, and not affected otherwise.
\<close>

theorem go_event_range_is_interval:
  assumes "go_version lo = Some glo" "parse_go_version lo = Inr (Some vlo)"
    and "go_version hi = Some ghi" "parse_go_version hi = Inr (Some vhi)"
    and "ci_ecosystem c = ''go''" "parse_go_version (ci_version c) = Inr (Some v)"
    and "t = SEMVER \<or> t = ECOSYSTEM"
  shows "\<exists>d. correlate_range pk c \<lparr>ar_range_type = t, ar_introduced = Some lo, ar_fixed = Some hi, ar_last_affected = None\<rparr> = Inr d \<and>
    rd_status d = (if compare_go_versions v vlo \<ge> 0 \<and> compare_go_versions v vhi < 0 then Affected else NotAffected)"
proof -
  have "lo \<noteq> []" "hi \<noteq> []" using go_version_head [OF assms(1)] go_version_head [OF assms(3)] by auto
  moreover have "lo \<noteq> ''0''"
  proof
    assume "lo = ''0''"
    moreover have "go_version ''0'' = None" by code_simp
    ultimately show False using assms(1) by simp
  qed
  ultimately have e: "osv_range_expression \<lparr>ar_range_type = t, ar_introduced = Some lo, ar_fixed = Some hi, ar_last_affected = None\<rparr> =
      Some ((''>='' @ lo) @ '' '' @ (''<'' @ hi))"
    by (intro osv_interval_expression)
  obtain m where m: "match_go_version (ci_version c) ((''>='' @ lo) @ '' '' @ (''<'' @ hi)) = Inr m"
    "vr_status m = (if compare_go_versions v vlo \<ge> 0 \<and> compare_go_versions v vhi < 0 then Matched else NotMatched)"
    using match_go_interval [OF assms(1-4,6)] by blast
  show ?thesis
    unfolding correlate_range_def e
    using assms(5,7) m by (auto simp: match_exact_version_against_range_def)
qed

theorem go_event_range_is_interval_witness:
  "\<exists>d. correlate_range example_packaging (example_component\<lparr>ci_version := ''v1.2.0''\<rparr>)
     \<lparr>ar_range_type = SEMVER, ar_introduced = Some ''1.0.0'', ar_fixed = Some ''1.5.0'', ar_last_affected = None\<rparr> = Inr d \<and>
     rd_status d = Affected"
proof -
  have 1: "go_version ''1.0.0'' = Some ((''1'', ''0'', ''0''), None)" by code_simp
  have 2: "parse_go_version ''1.0.0'' = Inr (Some ((1, 0, 0), None))" by code_simp
  have 3: "go_version ''1.5.0'' = Some ((''1'', ''5'', ''0''), None)" by code_simp
  have 4: "parse_go_version ''1.5.0'' = Inr (Some ((1, 5, 0), None))" by code_simp
  have 5: "ci_ecosystem (example_component\<lparr>ci_version := ''v1.2.0''\<rparr>) = ''go''" by code_simp
  have 6: "parse_go_version (ci_version (example_component\<lparr>ci_version := ''v1.2.0''\<rparr>)) = Inr (Some ((1, 2, 0), None))"
    by code_simp
  have 7: "compare_go_versions ((1, 2, 0), None) ((1, 0, 0), None) \<ge> 0" by code_simp
  have 8: "compare_go_versions ((1, 2, 0), None) ((1, 5, 0), None) < 0" by code_simp
  show ?thesis
    using go_event_range_is_interval [OF 1 2 3 4 5 6, of SEMVER example_packaging] 7 8 by simp
qed

text \<open>
  C40. For PyPI the bounded ranges of an advisory are never evaluated. The correlation joins the two
  comparators with a blank, while a specifier set separates them with commas and refuses a blank
  between clauses (hypothesis \<open>blank_refused\<close>: without a comma in the lower bound the text is one
  clause, and no clause holds a second operator), so every introduced/fixed range of a PyPI release
  whose lower bound has no comma stays unknown, whatever the version.
\<close>

theorem pypi_bounded_range_unknown:
  assumes blank_refused: "\<And>x y. CHR '','' \<notin> set x \<Longrightarrow> pk_specifier_set pk ((''>='' @ x) @ '' '' @ (''<'' @ y)) = None"
    and "ci_ecosystem c = ''pypi''" "pk_version pk (py_strip (ci_version c)) = Some v" "\<not> pk_is_prerelease pk v"
    and "lo \<noteq> []" "lo \<noteq> ''0''" "hi \<noteq> []" "\<forall>ch \<in> set hi. \<not> is_space ch"
    and "t = SEMVER \<or> t = ECOSYSTEM" "CHR '','' \<notin> set lo"
  shows "correlate_range pk c \<lparr>ar_range_type = t, ar_introduced = Some lo, ar_fixed = Some hi, ar_last_affected = None\<rparr> =
    Inr (range_outcome UnknownStatus ''range_pypi_range_syntax_not_supported'')"
proof -
  let ?e = "(''>='' @ lo) @ '' '' @ (''<'' @ hi)"
  have e: "osv_range_expression \<lparr>ar_range_type = t, ar_introduced = Some lo, ar_fixed = Some hi, ar_last_affected = None\<rparr> = Some ?e"
    using assms by (intro osv_interval_expression)
  have "dropWhile is_space ?e = ?e" by (simp add: char_class_defs)
  moreover have "dropWhile is_space (rev ?e) = rev ?e"
    using assms(7,8) by (cases hi rule: rev_cases) auto
  ultimately have strip: "py_strip ?e = ?e" by (simp only: py_strip_def rev_rev_ident)
  have "match_pypi_version pk (ci_version c) ?e = VersionRangeMatch Unknown ''pypi_range_syntax_not_supported''"
    unfolding match_pypi_version_def strip using assms(3,4) blank_refused [OF assms(10), of hi] by simp
  then show ?thesis
    unfolding correlate_range_def e using assms(2,9) by (auto simp: match_exact_version_against_range_def)
qed

theorem pypi_bounded_range_unknown_witness:
  "correlate_range example_packaging
     \<lparr>ci_ecosystem = ''pypi'', ci_name = ''p'', ci_version = ''1.2'', ci_attested_sbom = False\<rparr>
     \<lparr>ar_range_type = ECOSYSTEM, ar_introduced = Some ''1.0'', ar_fixed = Some ''2.0'', ar_last_affected = None\<rparr> =
   Inr (range_outcome UnknownStatus ''range_pypi_range_syntax_not_supported'')"
  by (rule pypi_bounded_range_unknown)
    (simp_all add: example_packaging_def char_class_defs)

text \<open>
  Normalized ranges are honest: each interval of a normalized OSV range has an explicit lower
  bound and at most one upper bound, and only the last may be open.
\<close>

theorem normalized_intervals_explicit:
  assumes "normalize_osv_range eco raw = Some rs"
  shows "rs \<noteq> [] \<and> list_all interval_ok rs \<and> list_all bounded_interval (butlast rs)"
  using normalize_osv_range_ok [OF assms] by blast

theorem normalized_intervals_explicit_witness:
  "\<exists>rs. normalize_osv_range ''go'' (JObj [(''type'', JStr ''SEMVER''),
      (''events'', JList [JObj [(''introduced'', JStr ''1.0.0'')], JObj [(''fixed'', JStr ''1.5.0'')],
         JObj [(''introduced'', JStr ''2.0.0'')]])]) = Some rs \<and>
     length rs = 2 \<and> list_all interval_ok rs"
proof -
  have n: "normalize_osv_range ''go'' (JObj [(''type'', JStr ''SEMVER''),
      (''events'', JList [JObj [(''introduced'', JStr ''1.0.0'')], JObj [(''fixed'', JStr ''1.5.0'')],
         JObj [(''introduced'', JStr ''2.0.0'')]])]) =
     Some [\<lparr>ar_range_type = SEMVER, ar_introduced = Some ''1.0.0'', ar_fixed = Some ''1.5.0'', ar_last_affected = None\<rparr>,
       \<lparr>ar_range_type = SEMVER, ar_introduced = Some ''2.0.0'', ar_fixed = None, ar_last_affected = None\<rparr>]"
    by code_simp
  from normalized_intervals_explicit [OF n] n show ?thesis by simp
qed

text \<open>
  The completeness flag is trustworthy: when the ranges of an advisory are reported complete,
  every range of every matching entry was normalized, and the list is their concatenation in order,
  so no interval was dropped.
\<close>

theorem complete_ranges_drop_nothing:
  assumes "matching_osv_ranges (JList entries) pe pn eco = Some (rs, True)"
  shows "(\<forall>e \<in> set (filter (osv_entry_matches pe pn) entries). entry_ranges e \<noteq> None \<and>
       (\<forall>raw \<in> set (the (entry_ranges e)). normalize_osv_range eco raw \<noteq> None)) \<and>
     rs = concat (map (\<lambda>e. concat (map (the \<circ> normalize_osv_range eco) (the (entry_ranges e))))
       (filter (osv_entry_matches pe pn) entries))"
proof -
  from assms obtain mt where "collect_affected eco pe pn entries ([], False, True) = (rs, mt, True)"
    by (auto simp: matching_osv_ranges_def split: prod.splits if_splits)
  from collect_affected_complete [OF this] show ?thesis by simp
qed

definition example_affected :: "json list" where
  "example_affected = [JObj [(''package'', JObj [(''ecosystem'', JStr ''Go''), (''name'', JStr ''m'')]),
      (''ranges'', JList [JObj [(''type'', JStr ''SEMVER''), (''events'', JList [JObj [(''introduced'', JStr ''0'')]])]])]]"

theorem complete_ranges_drop_nothing_witness:
  "matching_osv_ranges (JList example_affected) ''Go'' ''m'' ''go'' =
     Some ([\<lparr>ar_range_type = SEMVER, ar_introduced = Some ''0'', ar_fixed = None, ar_last_affected = None\<rparr>], True) \<and>
   [\<lparr>ar_range_type = SEMVER, ar_introduced = Some ''0'', ar_fixed = None, ar_last_affected = None\<rparr>] =
     concat (map (\<lambda>e. concat (map (the \<circ> normalize_osv_range ''go'') (the (entry_ranges e))))
       (filter (osv_entry_matches ''Go'' ''m'') example_affected))"
proof -
  have m: "matching_osv_ranges (JList example_affected) ''Go'' ''m'' ''go'' =
     Some ([\<lparr>ar_range_type = SEMVER, ar_introduced = Some ''0'', ar_fixed = None, ar_last_affected = None\<rparr>], True)"
    by code_simp
  from complete_ranges_drop_nothing [OF m] m show ?thesis by blast
qed

end
