(* ===== verification/Credential_Store.thy ===== *)
theory Credential_Store
  imports Inspectra_Prelude
begin

section \<open>Bearer credentials and expiring rows\<close>

text \<open>
  What the two bearer-credential stores (\<^verbatim>\<open>automation_tokens.py\<close> and
  \<^verbatim>\<open>repository_import_grants.py\<close>) share: the text format
  \<^verbatim>\<open><prefix><32 hex>_<43 url-safe characters>\<close>, and the counting of rows that are active at an instant.
  The contract the counting relies on is the locale \<open>expiring_rows\<close>: a row that is active now was
  active at every earlier instant, so limits checked at creation keep holding as time passes.
  SHA-256 is the parameter \<open>sha256\<close> of the stores (the hexadecimal digest of a byte string).
\<close>

subsection \<open>The bearer format\<close>

definition token_char :: "char \<Rightarrow> bool" where
  "token_char c \<longleftrightarrow> is_ascii_alnum c \<or> c = CHR ''_'' \<or> c = CHR ''-''"

text \<open>\<^verbatim>\<open>[A-Za-z0-9_-]{43}\<close>\<close>

definition is_secret :: "string \<Rightarrow> bool" where
  "is_secret s \<longleftrightarrow> length s = 43 \<and> list_all token_char s"

definition bearer_text :: "string \<Rightarrow> string \<Rightarrow> string \<Rightarrow> string" where
  "bearer_text pfx ident secret = pfx @ ident @ ''_'' @ secret"

text \<open>\<^verbatim>\<open>^<prefix>([a-f0-9]{32})_([A-Za-z0-9_-]{43})$\<close>: the first group.\<close>

definition bearer_match :: "string \<Rightarrow> string \<Rightarrow> string option" where
  "bearer_match pfx s =
     (let rest = drop (length pfx) s; ident = take 32 rest; tail = drop 32 rest in
      if starts_with pfx s \<and> is_hex_id 32 ident \<and> starts_with ''_'' tail \<and> is_secret (drop 1 tail)
      then Some ident else None)"

lemma bearer_match_text:
  assumes "is_hex_id 32 ident" "is_secret secret"
  shows "bearer_match pfx (bearer_text pfx ident secret) = Some ident"
  using assms is_hex_id_length [OF assms(1)]
  by (simp add: bearer_match_def bearer_text_def starts_with_def)

subsection \<open>Counting active rows\<close>

definition active_count :: "('r \<Rightarrow> bool) \<Rightarrow> 'r list \<Rightarrow> nat" where
  "active_count P rows = length (filter P rows)"

lemma active_count_append [simp]:
  "active_count P (xs @ ys) = active_count P xs + active_count P ys"
  by (simp add: active_count_def)

lemma active_count_simps [simp]:
  "active_count P [] = 0" "active_count P (r # rows) = (if P r then 1 else 0) + active_count P rows"
  by (simp_all add: active_count_def)

lemma active_count_mono:
  "(\<And>r. r \<in> set rows \<Longrightarrow> P r \<Longrightarrow> Q r) \<Longrightarrow> active_count P rows \<le> active_count Q rows"
  unfolding active_count_def by (rule length_filter_mono)

lemma active_count_filter: "active_count P (filter Q rows) \<le> active_count P rows"
  by (induction rows) auto

lemma active_count_map:
  "(\<And>r. r \<in> set rows \<Longrightarrow> P (f r) \<Longrightarrow> P r) \<Longrightarrow> active_count P (map f rows) \<le> active_count P rows"
proof (induction rows)
  case Nil
  then show ?case by simp
next
  case (Cons r rows)
  then have "active_count P (map f rows) \<le> active_count P rows" by simp
  moreover have "P (f r) \<Longrightarrow> P r" using Cons.prems by simp
  ultimately show ?case by (cases "P (f r)") simp_all
qed

locale expiring_rows =
  fixes active :: "instant \<Rightarrow> 'r \<Rightarrow> bool"
    and group :: "'r \<Rightarrow> 'g"
    and limit :: nat
  assumes active_earlier: "t \<le> t' \<Longrightarrow> active t' r \<Longrightarrow> active t r"
begin

definition within_limit :: "instant \<Rightarrow> 'r list \<Rightarrow> bool" where
  "within_limit t rows \<longleftrightarrow> (\<forall>g. active_count (\<lambda>r. group r = g \<and> active t r) rows \<le> limit)"

lemma within_limit_later:
  assumes "within_limit t rows" "t \<le> t'"
  shows "within_limit t' rows"
  unfolding within_limit_def
proof
  fix g
  have "active_count (\<lambda>r. group r = g \<and> active t' r) rows \<le> active_count (\<lambda>r. group r = g \<and> active t r) rows"
    using active_earlier [OF assms(2)] by (intro active_count_mono) auto
  with assms(1) show "active_count (\<lambda>r. group r = g \<and> active t' r) rows \<le> limit"
    unfolding within_limit_def using order_trans by blast
qed

lemma within_limit_filter: "within_limit t rows \<Longrightarrow> within_limit t (filter P rows)"
  unfolding within_limit_def using active_count_filter order_trans by blast

lemma within_limit_map:
  assumes "within_limit t rows"
    and "\<And>r. r \<in> set rows \<Longrightarrow> group (f r) = group r"
    and "\<And>r. r \<in> set rows \<Longrightarrow> active t (f r) \<Longrightarrow> active t r"
  shows "within_limit t (map f rows)"
  unfolding within_limit_def
proof
  fix g
  have "active_count (\<lambda>r. group r = g \<and> active t r) (map f rows) \<le> active_count (\<lambda>r. group r = g \<and> active t r) rows"
    using assms(2,3) by (intro active_count_map) auto
  with assms(1) show "active_count (\<lambda>r. group r = g \<and> active t r) (map f rows) \<le> limit"
    unfolding within_limit_def using order_trans by blast
qed

lemma within_limit_insert:
  assumes "within_limit t rows" "active_count (\<lambda>x. group x = group r \<and> active t x) rows < limit"
  shows "within_limit t (rows @ [r])"
  unfolding within_limit_def
proof
  fix g
  show "active_count (\<lambda>r. group r = g \<and> active t r) (rows @ [r]) \<le> limit"
    using assms unfolding within_limit_def by (cases "group r = g") (auto intro: Suc_leI)
qed

lemma within_limit_empty [simp]: "within_limit t []"
  by (simp add: within_limit_def)

end

end
