(* ===== verification/Automation_Tokens.thy ===== *)
theory Automation_Tokens
  imports Credential_Store
begin

section \<open>Automation tokens\<close>

text \<open>
  Model of \<^verbatim>\<open>backend/app/automation_tokens.py\<close>. The SQLite table is the list of its rows; every
  operation runs in one immediate transaction, so it takes the table and returns the table. The
  arguments \<open>now\<close>, \<open>token_id\<close>, \<open>secret\<close> are what the clock, \<^verbatim>\<open>secrets.token_hex\<close> and the token
  factory return, \<open>db_ok\<close> says whether SQLite works in the transaction and \<open>get_ok\<close> whether it works
  in the read that follows it. Instants are microseconds, so the code's
  second-based constants are scaled.
\<close>

subsection \<open>Data\<close>

datatype token_error =
  InvalidName | InvalidProject | InvalidScopes | InvalidLifetime | ActiveLimit
  | TokenGenerationFailed | StoreUnavailable | RateLimited | NotFound

record token_row =
  tk_id :: string
  tk_hash :: string
  tk_name :: string
  tk_organization_id :: string
  tk_project_id :: string
  tk_scopes :: string
  tk_created_by :: string
  tk_created_at :: instant
  tk_expires_at :: instant
  tk_revoked_at :: "instant option"
  tk_last_used_at :: "instant option"
  tk_window_started_at :: instant
  tk_window_requests :: int

record token_principal =
  tp_token_id :: string
  tp_organization_id :: string
  tp_project_id :: string
  tp_scopes :: "string list"
  tp_expires_at :: instant

record token_record =
  tr_token_id :: string
  tr_name :: string
  tr_organization_id :: string
  tr_project_id :: string
  tr_scopes :: "string list"
  tr_created_by :: string
  tr_created_at :: instant
  tr_expires_at :: instant
  tr_revoked_at :: "instant option"
  tr_last_used_at :: "instant option"

type_synonym token_table = "token_row list"

definition automation_scopes :: "string list" where
  "automation_scopes = [''project:read'', ''project:scan'', ''report:read'']"

definition automation_token_prefix :: string where
  "automation_token_prefix = ''inspectra_at_''"

definition seconds :: "int \<Rightarrow> int" where
  "seconds n = n * 1000000"

text \<open>\<^verbatim>\<open>int(now.timestamp())\<close>: truncation towards zero.\<close>

definition whole_seconds :: "instant \<Rightarrow> int" where
  "whole_seconds t = (if t < 0 then - ((- t) div 1000000) else t div 1000000)"

definition token_max_lifetime_seconds :: int where
  "token_max_lifetime_seconds = 90 * 24 * 60 * 60"

definition rate_window_seconds :: int where
  "rate_window_seconds = 60 * 60"

definition max_requests_per_window :: int where
  "max_requests_per_window = 600"

definition max_active_per_project :: nat where
  "max_active_per_project = 2"

definition last_used_bucket_seconds :: int where
  "last_used_bucket_seconds = 60 * 60"

definition token_hash :: "(string \<Rightarrow> string) \<Rightarrow> string \<Rightarrow> string" where
  "token_hash sha256 plaintext = sha256 (''inspectra-automation-token-v1'' @ [CHR 0x00] @ plaintext)"

subsection \<open>Operations\<close>

definition scope_items :: "string \<Rightarrow> string list" where
  "scope_items text = filter (\<lambda>s. s \<noteq> []) (py_split CHR '','' text)"

definition token_record_of :: "token_row \<Rightarrow> token_record" where
  "token_record_of row =
     \<lparr>tr_token_id = tk_id row, tr_name = tk_name row, tr_organization_id = tk_organization_id row,
      tr_project_id = tk_project_id row, tr_scopes = scope_items (tk_scopes row),
      tr_created_by = tk_created_by row, tr_created_at = tk_created_at row, tr_expires_at = tk_expires_at row,
      tr_revoked_at = tk_revoked_at row, tr_last_used_at = tk_last_used_at row\<rparr>"

definition token_get :: "bool \<Rightarrow> string \<Rightarrow> string \<Rightarrow> token_table \<Rightarrow> token_error + token_record" where
  "token_get db_ok organization_id token_id table =
     (if \<not> db_ok then Inl StoreUnavailable
      else (case find (\<lambda>row. tk_organization_id row = organization_id \<and> tk_id row = token_id) table of
              None \<Rightarrow> Inl NotFound
            | Some row \<Rightarrow> Inr (token_record_of row)))"

text \<open>\<^verbatim>\<open>revoked_at IS NULL AND expires_at > ?\<close>\<close>

definition token_active :: "instant \<Rightarrow> token_row \<Rightarrow> bool" where
  "token_active now row \<longleftrightarrow> tk_revoked_at row = None \<and> tk_expires_at row > now"

definition token_group :: "token_row \<Rightarrow> string \<times> string" where
  "token_group row = (tk_organization_id row, tk_project_id row)"

definition new_token_row ::
  "(string \<Rightarrow> string) \<Rightarrow> instant \<Rightarrow> string \<Rightarrow> string \<Rightarrow> string \<Rightarrow> string \<Rightarrow> string \<Rightarrow> string list \<Rightarrow> string \<Rightarrow> int \<Rightarrow> token_row" where
  "new_token_row sha256 now token_id secret name organization_id project_id scopes created_by lifetime_seconds =
     \<lparr>tk_id = token_id, tk_hash = token_hash sha256 (bearer_text automation_token_prefix token_id secret),
      tk_name = name, tk_organization_id = organization_id, tk_project_id = project_id,
      tk_scopes = py_join '','' scopes, tk_created_by = created_by, tk_created_at = now,
      tk_expires_at = now + seconds lifetime_seconds, tk_revoked_at = None, tk_last_used_at = None,
      tk_window_started_at = now, tk_window_requests = 0\<rparr>"

definition token_create ::
  "(string \<Rightarrow> string) \<Rightarrow> bool \<Rightarrow> bool \<Rightarrow> instant \<Rightarrow> string \<Rightarrow> string \<Rightarrow> string \<Rightarrow> string \<Rightarrow> string \<Rightarrow> string list \<Rightarrow> string \<Rightarrow> int
     \<Rightarrow> token_table \<Rightarrow> (token_error + token_record \<times> string) \<times> token_table" where
  "token_create sha256 db_ok get_ok now token_id secret name organization_id project_id scopes created_by lifetime_seconds table =
     (let normalized_name = py_strip name; normalized_scopes = sort (remdups scopes) in
      if \<not> (3 \<le> length normalized_name \<and> length normalized_name \<le> 80) then (Inl InvalidName, table)
      else if \<not> is_organization_id project_id then (Inl InvalidProject, table)
      else if normalized_scopes = [] \<or> list_ex (\<lambda>s. s \<notin> set automation_scopes) normalized_scopes
      then (Inl InvalidScopes, table)
      else if \<not> (300 \<le> lifetime_seconds \<and> lifetime_seconds \<le> token_max_lifetime_seconds)
      then (Inl InvalidLifetime, table)
      else if \<not> db_ok then (Inl StoreUnavailable, table)
      else if active_count (\<lambda>row. token_group row = (organization_id, project_id) \<and> token_active now row) table
                \<ge> max_active_per_project
      then (Inl ActiveLimit, table)
      else if \<not> is_secret secret then (Inl TokenGenerationFailed, table)
      else if token_id \<in> tk_id ` set table then (Inl StoreUnavailable, table)
      else (let plaintext = bearer_text automation_token_prefix token_id secret;
                table' = table @ [new_token_row sha256 now token_id secret normalized_name organization_id
                  project_id normalized_scopes created_by lifetime_seconds] in
            (bind_res (token_get get_ok organization_id token_id table') (\<lambda>r. Inr (r, plaintext)), table')))"

text \<open>The row after one admitted request: window, counter and the hourly last-use bucket.\<close>

definition admit_request :: "instant \<Rightarrow> instant \<Rightarrow> int \<Rightarrow> token_row \<Rightarrow> token_row" where
  "admit_request now window_started count row =
     (let bucket = seconds ((whole_seconds now div last_used_bucket_seconds) * last_used_bucket_seconds) in
      row\<lparr>tk_last_used_at := (case tk_last_used_at row of
                               None \<Rightarrow> Some bucket
                             | Some u \<Rightarrow> if u < bucket then Some bucket else Some u),
          tk_window_started_at := window_started,
          tk_window_requests := count + 1\<rparr>)"

text \<open>\<^verbatim>\<open>UPDATE automation_tokens SET ... WHERE id = ?\<close>\<close>

definition touch_token :: "instant \<Rightarrow> string \<Rightarrow> instant \<Rightarrow> int \<Rightarrow> token_table \<Rightarrow> token_table" where
  "touch_token now token_id window_started count table =
     map (\<lambda>row. if tk_id row = token_id then admit_request now window_started count row else row) table"

definition principal_of :: "token_row \<Rightarrow> token_principal" where
  "principal_of row =
     \<lparr>tp_token_id = tk_id row, tp_organization_id = tk_organization_id row, tp_project_id = tk_project_id row,
      tp_scopes = scope_items (tk_scopes row), tp_expires_at = tk_expires_at row\<rparr>"

text \<open>The counting window of a request: a new one once the old is an hour old.\<close>

definition rate_window :: "instant \<Rightarrow> token_row \<Rightarrow> instant \<times> int" where
  "rate_window now row =
     (if now - tk_window_started_at row \<ge> seconds rate_window_seconds then (now, 0)
      else (tk_window_started_at row, tk_window_requests row))"

definition token_authenticate ::
  "(string \<Rightarrow> string) \<Rightarrow> bool \<Rightarrow> instant \<Rightarrow> string \<Rightarrow> token_table \<Rightarrow> (token_error + token_principal option) \<times> token_table" where
  "token_authenticate sha256 db_ok now plaintext table =
     (case bearer_match automation_token_prefix plaintext of
        None \<Rightarrow> (Inr None, table)
      | Some token_id \<Rightarrow>
          if \<not> db_ok then (Inl StoreUnavailable, table)
          else (case find (\<lambda>row. tk_id row = token_id) table of
                  None \<Rightarrow> (Inr None, table)
                | Some row \<Rightarrow>
                    if tk_hash row \<noteq> token_hash sha256 plaintext then (Inr None, table)
                    else if tk_revoked_at row \<noteq> None \<or> tk_expires_at row \<le> now then (Inr None, table)
                    else (case rate_window now row of
                            (window_started, count) \<Rightarrow>
                              if count \<ge> max_requests_per_window then (Inl RateLimited, table)
                              else (Inr (Some (principal_of row)),
                                    touch_token now token_id window_started count table))))"

definition token_list :: "bool \<Rightarrow> string \<Rightarrow> token_table \<Rightarrow> token_error + token_record list" where
  "token_list db_ok organization_id table =
     (if \<not> db_ok then Inl StoreUnavailable
      else Inr (map token_record_of
             (rev (sort_key (\<lambda>row. (tk_created_at row, tk_id row))
               (filter (\<lambda>row. tk_organization_id row = organization_id) table)))))"

definition token_revoke ::
  "bool \<Rightarrow> bool \<Rightarrow> instant \<Rightarrow> string \<Rightarrow> string \<Rightarrow> token_table \<Rightarrow> (token_error + token_record) \<times> token_table" where
  "token_revoke db_ok get_ok now organization_id token_id table =
     (let hit = (\<lambda>row. tk_organization_id row = organization_id \<and> tk_id row = token_id) in
      if \<not> db_ok then (Inl StoreUnavailable, table)
      else if length (filter hit table) \<noteq> 1 then (Inl NotFound, table)
      else (let table' = map (\<lambda>row. if hit row
                   then row\<lparr>tk_revoked_at := (case tk_revoked_at row of None \<Rightarrow> Some now | Some t \<Rightarrow> Some t)\<rparr>
                   else row) table in
            (token_get get_ok organization_id token_id table', table')))"

definition token_purgeable :: "string \<Rightarrow> instant \<Rightarrow> token_row \<Rightarrow> bool" where
  "token_purgeable organization_id cutoff row \<longleftrightarrow>
     tk_organization_id row = organization_id \<and>
     ((case tk_revoked_at row of None \<Rightarrow> False | Some t \<Rightarrow> t < cutoff) \<or> tk_expires_at row < cutoff)"

definition token_purge_inactive ::
  "bool \<Rightarrow> string \<Rightarrow> instant \<Rightarrow> token_table \<Rightarrow> (token_error + nat) \<times> token_table" where
  "token_purge_inactive db_ok organization_id cutoff table =
     (if \<not> db_ok then (Inl StoreUnavailable, table)
      else (Inr (length (filter (token_purgeable organization_id cutoff) table)),
            filter (\<lambda>row. \<not> token_purgeable organization_id cutoff row) table))"

subsection \<open>Runs\<close>

text \<open>The state-changing calls with their arguments, and the tables a clock that does not go back reaches.\<close>

datatype token_op =
  OpCreate (op_db: bool) (op_get: bool) (op_token_id: string) (op_secret: string) (op_name: string)
    (op_org: string) (op_project: string) (op_scopes: "string list") (op_by: string) (op_lifetime: int)
  | OpAuthenticate bool string
  | OpRevoke bool bool string string
  | OpPurge bool string instant

fun token_exec :: "(string \<Rightarrow> string) \<Rightarrow> instant \<Rightarrow> token_op \<Rightarrow> token_table \<Rightarrow> token_table" where
  "token_exec sha256 now (OpCreate db_ok get_ok token_id secret name org project scopes created_by lifetime) table =
     snd (token_create sha256 db_ok get_ok now token_id secret name org project scopes created_by lifetime table)"
| "token_exec sha256 now (OpAuthenticate db_ok plaintext) table =
     snd (token_authenticate sha256 db_ok now plaintext table)"
| "token_exec sha256 now (OpRevoke db_ok get_ok org token_id) table =
     snd (token_revoke db_ok get_ok now org token_id table)"
| "token_exec sha256 now (OpPurge db_ok org cutoff) table = snd (token_purge_inactive db_ok org cutoff table)"

fun token_run :: "(string \<Rightarrow> string) \<Rightarrow> (instant \<times> token_op) list \<Rightarrow> token_table \<Rightarrow> token_table" where
  "token_run sha256 [] table = table"
| "token_run sha256 ((now, op) # ops) table = token_run sha256 ops (token_exec sha256 now op table)"

inductive token_reachable :: "(string \<Rightarrow> string) \<Rightarrow> instant \<Rightarrow> token_table \<Rightarrow> bool" for sha256 where
  start: "token_reachable sha256 t []"
| step: "token_reachable sha256 t table \<Longrightarrow> t \<le> t' \<Longrightarrow> token_reachable sha256 t' (token_exec sha256 t' op table)"

subsection \<open>What each call does to the table\<close>

text \<open>The row of an identifier: \<^verbatim>\<open>id\<close> is the primary key.\<close>

definition token_ids_ok :: "token_table \<Rightarrow> bool" where
  "token_ids_ok table \<longleftrightarrow> distinct (map tk_id table)"

definition token_lookup :: "string \<Rightarrow> token_table \<Rightarrow> token_row option" where
  "token_lookup token_id table = find (\<lambda>row. tk_id row = token_id) table"

lemma token_lookup_map:
  assumes "\<And>row. tk_id (f row) = tk_id row"
  shows "token_lookup token_id (map f table) = map_option f (token_lookup token_id table)"
  unfolding token_lookup_def by (induction table) (auto simp: assms)

lemma admit_request_keeps [simp]:
  "tk_id (admit_request now w n row) = tk_id row" "tk_hash (admit_request now w n row) = tk_hash row"
  "tk_revoked_at (admit_request now w n row) = tk_revoked_at row"
  "tk_expires_at (admit_request now w n row) = tk_expires_at row"
  "token_group (admit_request now w n row) = token_group row"
  "token_active t (admit_request now w n row) = token_active t row"
  "tk_window_started_at (admit_request now w n row) = w"
  "tk_window_requests (admit_request now w n row) = n + 1"
  by (simp_all add: admit_request_def Let_def token_group_def token_active_def)

text \<open>The table after a call: unchanged, one row more, one row rewritten, or rows removed.\<close>

definition revoke_row :: "instant \<Rightarrow> token_row \<Rightarrow> token_row" where
  "revoke_row now row = row\<lparr>tk_revoked_at := (case tk_revoked_at row of None \<Rightarrow> Some now | Some t \<Rightarrow> Some t)\<rparr>"

lemma revoke_row_keeps [simp]:
  "tk_id (revoke_row now row) = tk_id row" "token_group (revoke_row now row) = token_group row"
  "tk_revoked_at (revoke_row now row) \<noteq> None" "\<not> token_active t (revoke_row now row)"
  by (auto simp: revoke_row_def token_group_def token_active_def split: option.splits)

lemma token_create_table:
  "snd (token_create sha256 db_ok get_ok now token_id secret name org project scopes created_by lifetime table) = table
   \<or> (token_id \<notin> tk_id ` set table \<and>
      active_count (\<lambda>row. token_group row = (org, project) \<and> token_active now row) table < max_active_per_project \<and>
      snd (token_create sha256 db_ok get_ok now token_id secret name org project scopes created_by lifetime table)
        = table @ [new_token_row sha256 now token_id secret (py_strip name) org project (sort (remdups scopes))
                     created_by lifetime])"
  unfolding token_create_def Let_def by auto

lemma touch_token_lookup:
  "token_lookup token_id (touch_token now token_id' w n table) =
     map_option (\<lambda>row. if token_id = token_id' then admit_request now w n row else row) (token_lookup token_id table)"
  unfolding token_lookup_def touch_token_def by (induction table) auto

text \<open>The two outcomes of an authentication: refused with the table unchanged, or one admitted request.\<close>

lemma token_authenticate_cases:
  obtains (refused) r where "token_authenticate sha256 db_ok now plaintext table = (r, table)"
      "\<And>p. r \<noteq> Inr (Some p)"
  | (admitted) token_id row w n where "bearer_match automation_token_prefix plaintext = Some token_id"
      "token_lookup token_id table = Some row" "tk_hash row = token_hash sha256 plaintext"
      "tk_revoked_at row = None" "now < tk_expires_at row" "rate_window now row = (w, n)"
      "n < max_requests_per_window"
      "token_authenticate sha256 db_ok now plaintext table
         = (Inr (Some (principal_of row)), touch_token now token_id w n table)"
proof (cases "\<exists>p. fst (token_authenticate sha256 db_ok now plaintext table) = Inr (Some p)")
  case True
  then have "\<exists>token_id row w n. bearer_match automation_token_prefix plaintext = Some token_id \<and>
      token_lookup token_id table = Some row \<and> tk_hash row = token_hash sha256 plaintext \<and>
      tk_revoked_at row = None \<and> now < tk_expires_at row \<and> rate_window now row = (w, n) \<and>
      n < max_requests_per_window \<and> token_authenticate sha256 db_ok now plaintext table
         = (Inr (Some (principal_of row)), touch_token now token_id w n table)"
    by (auto simp: token_authenticate_def token_lookup_def split: option.splits if_splits prod.splits)
  then show thesis using that(2) by blast
next
  case False
  then have "snd (token_authenticate sha256 db_ok now plaintext table) = table"
    by (auto simp: token_authenticate_def split: option.splits if_splits prod.splits)
  with False show thesis by (intro that(1)) (auto simp: prod_eq_iff)
qed

lemma token_authenticate_table:
  "snd (token_authenticate sha256 db_ok now plaintext table) = table
   \<or> (\<exists>token_id w n. snd (token_authenticate sha256 db_ok now plaintext table) = touch_token now token_id w n table)"
  by (rule token_authenticate_cases [of sha256 db_ok now plaintext table]) auto

lemma token_revoke_table:
  "snd (token_revoke db_ok get_ok now org token_id table) = table
   \<or> snd (token_revoke db_ok get_ok now org token_id table)
        = map (\<lambda>r. if tk_organization_id r = org \<and> tk_id r = token_id then revoke_row now r else r) table"
  unfolding token_revoke_def revoke_row_def Let_def by auto

lemma token_purge_table:
  "\<exists>P. snd (token_purge_inactive db_ok org cutoff table) = filter P table"
  unfolding token_purge_inactive_def by (auto intro: exI [of _ "\<lambda>_. True"])

lemma map_id_keeps: "(\<And>row. tk_id (f row) = tk_id row) \<Longrightarrow> token_ids_ok (map f table) = token_ids_ok table"
  by (simp add: token_ids_ok_def comp_def)

lemma token_exec_ids_ok: "token_ids_ok table \<Longrightarrow> token_ids_ok (token_exec sha256 now op table)"
proof (cases op)
  case (OpCreate db_ok get_ok token_id secret name org project scopes created_by lifetime)
  assume "token_ids_ok table"
  with token_create_table [of sha256 db_ok get_ok now token_id secret name org project scopes created_by lifetime table]
  show ?thesis using OpCreate by (auto simp: token_ids_ok_def new_token_row_def)
next
  case (OpAuthenticate db_ok plaintext)
  assume "token_ids_ok table"
  with token_authenticate_table [of sha256 db_ok now plaintext table] show ?thesis
    using OpAuthenticate by (auto simp: touch_token_def map_id_keeps)
next
  case (OpRevoke db_ok get_ok org token_id)
  assume "token_ids_ok table"
  with token_revoke_table [of db_ok get_ok now org token_id table] show ?thesis
    using OpRevoke by (auto simp: map_id_keeps)
next
  case (OpPurge db_ok org cutoff)
  assume "token_ids_ok table"
  with token_purge_table [of db_ok org cutoff table] show ?thesis
    using OpPurge by (auto simp: token_ids_ok_def distinct_map_filter)
qed

lemma token_reachable_ids_ok: "token_reachable sha256 t table \<Longrightarrow> token_ids_ok table"
  by (induction rule: token_reachable.induct) (simp_all add: token_exec_ids_ok, simp add: token_ids_ok_def)

subsection \<open>The limit on active tokens\<close>

interpretation token_rows: expiring_rows token_active token_group max_active_per_project
  by unfold_locales (auto simp: token_active_def)

lemma token_exec_within_limit:
  assumes "token_rows.within_limit now table"
  shows "token_rows.within_limit now (token_exec sha256 now op table)"
proof (cases op)
  case (OpCreate db_ok get_ok token_id secret name org project scopes created_by lifetime)
  show ?thesis
    using assms OpCreate token_rows.within_limit_insert [OF assms, of "new_token_row sha256 now token_id secret (py_strip name) org
        project (sort (remdups scopes)) created_by lifetime"]
      token_create_table [of sha256 db_ok get_ok now token_id secret name org project scopes created_by lifetime table]
    by (auto simp: token_group_def new_token_row_def)
next
  case (OpAuthenticate db_ok plaintext)
  then show ?thesis
    using assms token_authenticate_table [of sha256 db_ok now plaintext table]
    by (auto simp: touch_token_def intro!: token_rows.within_limit_map split: if_splits)
next
  case (OpRevoke db_ok get_ok org token_id)
  then show ?thesis
    using assms token_revoke_table [of db_ok get_ok now org token_id table]
    by (auto intro!: token_rows.within_limit_map split: if_splits)
next
  case (OpPurge db_ok org cutoff)
  then show ?thesis
    using assms token_purge_table [of db_ok org cutoff table] token_rows.within_limit_filter by auto
qed

lemma token_reachable_within_limit:
  "token_reachable sha256 t table \<Longrightarrow> token_rows.within_limit t table"
  by (induction rule: token_reachable.induct)
    (simp_all add: token_exec_within_limit token_rows.within_limit_later)

text \<open>One token created at the instant 5, used by the concrete instances below.\<close>

definition example_token_table :: token_table where
  "example_token_table =
     token_exec (\<lambda>s. s) 5 (OpCreate True True (replicate 32 CHR ''a'') (replicate 43 CHR ''b'') ''deploy''
       ''local-admin'' ''local-admin'' [''project:read''] ''local-admin'' 300) []"

lemma example_token_table_reachable: "token_reachable (\<lambda>s. s) 5 example_token_table"
  unfolding example_token_table_def
  by (rule token_reachable.step [OF token_reachable.start [where t = 0]]) simp

lemma example_token_table_rows: "example_token_table \<noteq> []"
  by code_simp

text \<open>
  C27. At most two automation tokens of one project are active at any instant, in every table that
  creations, authentications, revocations and purges reach under a clock that does not go back.
\<close>

theorem at_most_two_active_tokens:
  assumes "token_reachable sha256 t table" "t \<le> t'"
  shows "active_count (\<lambda>row. tk_organization_id row = org \<and> tk_project_id row = project \<and>
           token_active t' row) table \<le> 2"
proof -
  have "token_rows.within_limit t' table"
    using assms token_reachable_within_limit token_rows.within_limit_later by blast
  then have "active_count (\<lambda>row. token_group row = (org, project) \<and> token_active t' row) table
      \<le> max_active_per_project"
    unfolding token_rows.within_limit_def by blast
  then show ?thesis by (simp add: token_group_def max_active_per_project_def)
qed

lemma at_most_two_active_tokens_witness:
  "active_count (\<lambda>row. tk_organization_id row = ''local-admin'' \<and> tk_project_id row = ''local-admin'' \<and>
      token_active 7 row) example_token_table \<le> 2 \<and> example_token_table \<noteq> []"
  using at_most_two_active_tokens [OF example_token_table_reachable, of 7 "''local-admin''" "''local-admin''"]
    example_token_table_rows by simp

subsection \<open>Rate limiting\<close>

definition rate_ok :: "token_row \<Rightarrow> bool" where
  "rate_ok row \<longleftrightarrow> 0 \<le> tk_window_requests row \<and> tk_window_requests row \<le> max_requests_per_window"

lemma rate_window_nonneg: "rate_ok row \<Longrightarrow> rate_window now row = (w, n) \<Longrightarrow> 0 \<le> n"
  by (auto simp: rate_ok_def rate_window_def split: if_splits)

lemma token_lookup_mem: "token_lookup token_id table = Some row \<Longrightarrow> row \<in> set table \<and> tk_id row = token_id"
  unfolding token_lookup_def using find_Some_iff_first by fast

lemma touch_token_rate_ok:
  assumes "list_all rate_ok table" "0 \<le> n" "n < max_requests_per_window"
  shows "list_all rate_ok (touch_token now token_id w n table)"
  using assms by (auto simp: touch_token_def list_all_iff rate_ok_def)

lemma token_authenticate_rate_ok:
  assumes "list_all rate_ok table"
  shows "list_all rate_ok (snd (token_authenticate sha256 db_ok now plaintext table))"
proof (cases rule: token_authenticate_cases [of sha256 db_ok now plaintext table])
  case (refused r)
  with assms show ?thesis by simp
next
  case (admitted token_id row w n)
  moreover have "rate_ok row" using assms token_lookup_mem [OF admitted(2)] by (auto simp: list_all_iff)
  ultimately show ?thesis using assms rate_window_nonneg touch_token_rate_ok by fastforce
qed

lemma token_exec_rate_ok:
  assumes "list_all rate_ok table"
  shows "list_all rate_ok (token_exec sha256 now op table)"
proof (cases op)
  case (OpCreate db_ok get_ok token_id secret name org project scopes created_by lifetime)
  with assms token_create_table [of sha256 db_ok get_ok now token_id secret name org project scopes created_by lifetime table]
  show ?thesis by (auto simp: rate_ok_def new_token_row_def max_requests_per_window_def)
next
  case (OpAuthenticate db_ok plaintext)
  then show ?thesis using assms token_authenticate_rate_ok by simp
next
  case (OpRevoke db_ok get_ok org token_id)
  with assms token_revoke_table [of db_ok get_ok now org token_id table] show ?thesis
    by (auto simp: list_all_iff rate_ok_def revoke_row_def)
next
  case (OpPurge db_ok org cutoff)
  with assms token_purge_table [of db_ok org cutoff table] show ?thesis by (auto simp: list_all_iff)
qed

lemma token_reachable_rate_ok: "token_reachable sha256 t table \<Longrightarrow> list_all rate_ok table"
  by (induction rule: token_reachable.induct) (simp_all add: token_exec_rate_ok)

text \<open>A sequence of authentications, each with the database state, the instant and the bearer text.\<close>

fun authenticate_run ::
  "(string \<Rightarrow> string) \<Rightarrow> (bool \<times> instant \<times> string) list \<Rightarrow> token_table \<Rightarrow> (token_error + token_principal option) list" where
  "authenticate_run sha256 [] table = []"
| "authenticate_run sha256 ((db_ok, now, plaintext) # calls) table =
     (case token_authenticate sha256 db_ok now plaintext table of
        (r, table') \<Rightarrow> r # authenticate_run sha256 calls table')"

fun admits :: "string \<Rightarrow> token_error + token_principal option \<Rightarrow> bool" where
  "admits token_id (Inr (Some p)) = (tp_token_id p = token_id)"
| "admits token_id _ = False"

text \<open>How many requests a row can still admit in the hour that starts at \<open>a\<close>.\<close>

definition budget :: "instant \<Rightarrow> token_row \<Rightarrow> int" where
  "budget a row = (if tk_window_started_at row \<ge> a then max_requests_per_window else 2 * max_requests_per_window)
     - tk_window_requests row"

lemma admit_request_budget:
  assumes "rate_ok row" "rate_window now row = (w, n)" "n < max_requests_per_window"
    and "a \<le> now" "now < a + seconds rate_window_seconds"
  shows "budget a (admit_request now w n row) + 1 \<le> budget a row"
  using assms by (auto simp: budget_def rate_window_def rate_ok_def split: if_splits)

lemma authenticate_run_budget:
  assumes "\<forall>(db_ok, now, plaintext) \<in> set calls. a \<le> now \<and> now < a + seconds rate_window_seconds"
    and "list_all rate_ok table"
  shows "int (length (filter (admits token_id) (authenticate_run sha256 calls table)))
           \<le> (case token_lookup token_id table of None \<Rightarrow> 0 | Some row \<Rightarrow> budget a row)"
  using assms
proof (induction calls arbitrary: table)
  case Nil
  then show ?case
    using token_lookup_mem by (fastforce simp: budget_def rate_ok_def list_all_iff split: option.splits)
next
  case (Cons call calls)
  obtain db_ok now plaintext where c: "call = (db_ok, now, plaintext)" by (cases call)
  have now: "a \<le> now" "now < a + seconds rate_window_seconds"
    and rest: "\<forall>(db_ok, now, plaintext) \<in> set calls. a \<le> now \<and> now < a + seconds rate_window_seconds"
    using Cons.prems(1) c by auto
  show ?case
  proof (cases rule: token_authenticate_cases [of sha256 db_ok now plaintext table])
    case (refused r)
    then have "\<not> admits token_id r" by (cases "(token_id, r)" rule: admits.cases) auto
    then show ?thesis using refused Cons.IH [OF rest Cons.prems(2)] c by simp
  next
    case (admitted token_id' row w n)
    let ?t = "touch_token now token_id' w n table"
    have ok: "rate_ok row" and id: "tk_id row = token_id'"
      using Cons.prems(2) token_lookup_mem [OF admitted(2)] by (auto simp: list_all_iff)
    have "list_all rate_ok ?t"
      using Cons.prems(2) rate_window_nonneg [OF ok admitted(6)] admitted(7) touch_token_rate_ok by blast
    then have IH: "int (length (filter (admits token_id) (authenticate_run sha256 calls ?t)))
        \<le> (case token_lookup token_id ?t of None \<Rightarrow> 0 | Some row \<Rightarrow> budget a row)"
      using Cons.IH rest by blast
    show ?thesis
    proof (cases "token_id = token_id'")
      case True
      then show ?thesis
        using IH admit_request_budget [OF ok admitted(6,7) now] admitted(2,8) c id
        by (simp add: touch_token_lookup principal_of_def)
    next
      case False
      then show ?thesis
        using IH admitted(8) c id by (simp add: touch_token_lookup principal_of_def option.map_ident)
    qed
  qed
qed

text \<open>A row that a bearer text authenticates at an instant.\<close>

definition usable :: "(string \<Rightarrow> string) \<Rightarrow> string \<Rightarrow> instant \<Rightarrow> token_row \<Rightarrow> bool" where
  "usable sha256 plaintext now row \<longleftrightarrow>
     bearer_match automation_token_prefix plaintext = Some (tk_id row) \<and> tk_hash row = token_hash sha256 plaintext \<and>
     tk_revoked_at row = None \<and> now < tk_expires_at row"

lemma admit_request_usable [simp]:
  "usable sha256 plaintext t (admit_request now w n row) = usable sha256 plaintext t row"
  "principal_of (admit_request now w n row) = principal_of row"
  by (simp_all add: usable_def principal_of_def admit_request_def Let_def)

lemma authenticate_usable:
  assumes "token_lookup (tk_id row) table = Some row" "usable sha256 plaintext now row" "rate_window now row = (w, n)" "n < max_requests_per_window"
  shows "token_authenticate sha256 True now plaintext table = (Inr (Some (principal_of row)), touch_token now (tk_id row) w n table)"
  using assms by (simp add: token_authenticate_def usable_def token_lookup_def)

text \<open>Calls at one instant are admitted until the window is used up.\<close>

lemma window_admits:
  assumes "token_lookup (tk_id row) table = Some row" "usable sha256 plaintext now row" "rate_window now row = (w, c)"
    "now < w + seconds rate_window_seconds" "c + int n \<le> max_requests_per_window"
  shows "\<exists>table' row'. authenticate_run sha256 (replicate n (True, now, plaintext) @ calls) table =
      replicate n (Inr (Some (principal_of row))) @ authenticate_run sha256 calls table' \<and>
    token_lookup (tk_id row) table' = Some row' \<and> tk_id row' = tk_id row \<and> principal_of row' = principal_of row \<and>
    (\<forall>t. usable sha256 plaintext t row' = usable sha256 plaintext t row) \<and>
    (0 < n \<longrightarrow> tk_window_started_at row' = w)"
  using assms
proof (induction n arbitrary: table row c)
  case 0
  then show ?case by auto
next
  case (Suc n)
  let ?row = "admit_request now w c row" and ?t = "touch_token now (tk_id row) w c table"
  have run: "token_authenticate sha256 True now plaintext table = (Inr (Some (principal_of row)), ?t)"
    using Suc.prems by (intro authenticate_usable) simp_all
  have "token_lookup (tk_id ?row) ?t = Some ?row" using Suc.prems(1) by (simp add: touch_token_lookup)
  moreover have "rate_window now ?row = (w, c + 1)" using Suc.prems(4) by (simp add: rate_window_def)
  ultimately obtain table' row' where r: "authenticate_run sha256 (replicate n (True, now, plaintext) @ calls) ?t =
      replicate n (Inr (Some (principal_of row))) @ authenticate_run sha256 calls table'"
    "token_lookup (tk_id row) table' = Some row'" "tk_id row' = tk_id row" "principal_of row' = principal_of row"
    "\<forall>t. usable sha256 plaintext t row' = usable sha256 plaintext t row" "0 < n \<longrightarrow> tk_window_started_at row' = w"
    using Suc.IH [of ?row ?t "c + 1"] Suc.prems(2,4,5) by auto
  show ?case
  proof (cases n)
    case 0
    then show ?thesis using run \<open>token_lookup (tk_id ?row) ?t = Some ?row\<close> by (intro exI [of _ ?t] exI [of _ ?row]) simp
  qed (use run r in auto)
qed

text \<open>So two windows that meet inside an hour are both used up in it.\<close>

lemma two_windows_admit:
  assumes "token_lookup (tk_id row) table = Some row" "usable sha256 plaintext b row" "tk_window_requests row = 0"
    "tk_window_started_at row \<le> a" "a < tk_window_started_at row + seconds rate_window_seconds"
    "tk_window_started_at row + seconds rate_window_seconds \<le> b"
  shows "length (filter (admits (tk_id row))
    (authenticate_run sha256 (replicate 600 (True, a, plaintext) @ replicate 600 (True, b, plaintext)) table)) = 1200"
proof -
  have "usable sha256 plaintext a row" using assms(2,5,6) by (auto simp: usable_def)
  moreover have "rate_window a row = (tk_window_started_at row, 0)" using assms(3,5) by (simp add: rate_window_def)
  ultimately obtain table' row' where first: "authenticate_run sha256 (replicate 600 (True, a, plaintext) @ replicate 600 (True, b, plaintext)) table =
      replicate 600 (Inr (Some (principal_of row))) @ authenticate_run sha256 (replicate 600 (True, b, plaintext)) table'"
    "token_lookup (tk_id row) table' = Some row'" "tk_id row' = tk_id row" "principal_of row' = principal_of row"
    "usable sha256 plaintext b row'" "tk_window_started_at row' = tk_window_started_at row"
    using window_admits [OF assms(1) _ _ assms(5), of sha256 plaintext 0 600 "replicate 600 (True, b, plaintext)"] assms(2)
    by (auto simp: max_requests_per_window_def)
  have "rate_window b row' = (b, 0)" using first(6) assms(6) by (simp add: rate_window_def)
  then have "authenticate_run sha256 (replicate 600 (True, b, plaintext)) table' = replicate 600 (Inr (Some (principal_of row)))"
    using window_admits [of row' table' sha256 plaintext b b 0 600 "[]"] first(2-5)
    by (auto simp: max_requests_per_window_def seconds_def rate_window_seconds_def)
  then show ?thesis using first(1) by (simp add: filter_replicate principal_of_def)
qed

text \<open>
  C30. Rate limit: in any interval of one hour, whatever sequence of authentications is attempted (with this or any other bearer, in any
  order of instants inside the interval), one token is admitted at most 1200 times, and at most 600 times when its window started
  inside the interval. The 1200 are reached, although the documentation promises at most 600 requests per hour: windows do not slide, so for a
  token without requests in its window, 600 requests at the start of the interval and 600 later in it, after the window ended, are all
  admitted.
\<close>

theorem hourly_admissions_bounded:
  assumes "token_reachable sha256 t table"
    and "\<forall>(db_ok, now, plaintext) \<in> set calls. a \<le> now \<and> now < a + seconds rate_window_seconds"
  shows "length (filter (admits token_id) (authenticate_run sha256 calls table)) \<le> 1200 \<and>
    (case token_lookup token_id table of
       None \<Rightarrow> filter (admits token_id) (authenticate_run sha256 calls table) = []
     | Some row \<Rightarrow>
         (a \<le> tk_window_started_at row \<longrightarrow> length (filter (admits token_id) (authenticate_run sha256 calls table)) \<le> 600) \<and>
         (\<forall>plaintext b. usable sha256 plaintext b row \<and> tk_window_requests row = 0 \<and> tk_window_started_at row \<le> a \<and>
            a < tk_window_started_at row + seconds 3600 \<and> tk_window_started_at row + seconds 3600 \<le> b \<and> b < a + seconds 3600 \<longrightarrow>
            length (filter (admits token_id)
              (authenticate_run sha256 (replicate 600 (True, a, plaintext) @ replicate 600 (True, b, plaintext)) table)) = 1200))"
proof -
  have "list_all rate_ok table" using assms(1) by (rule token_reachable_rate_ok)
  then have b: "int (length (filter (admits token_id) (authenticate_run sha256 calls table)))
      \<le> (case token_lookup token_id table of None \<Rightarrow> 0 | Some row \<Rightarrow> budget a row)"
    and r: "\<And>row. token_lookup token_id table = Some row \<Longrightarrow> rate_ok row"
    using authenticate_run_budget assms(2) token_lookup_mem by (blast, auto simp: list_all_iff)
  show ?thesis
  proof (cases "token_lookup token_id table")
    case (Some row)
    then have id: "tk_id row = token_id" using token_lookup_mem by blast
    have "length (filter (admits token_id)
        (authenticate_run sha256 (replicate 600 (True, a, plaintext) @ replicate 600 (True, b, plaintext)) table)) = 1200"
      if "usable sha256 plaintext b row" "tk_window_requests row = 0" "tk_window_started_at row \<le> a"
        "a < tk_window_started_at row + seconds 3600" "tk_window_started_at row + seconds 3600 \<le> b" for plaintext b
      using two_windows_admit [of row table sha256 plaintext b a] Some that by (simp add: id rate_window_seconds_def)
    then show ?thesis using b r Some by (auto simp: budget_def rate_ok_def max_requests_per_window_def split: if_splits)
  qed (use b in simp)
qed

text \<open>A token that lasts two hours.\<close>

definition lasting_token :: token_row where
  "lasting_token = new_token_row (\<lambda>s. s) 5 (replicate 32 CHR ''a'') (replicate 43 CHR ''b'') ''deploy'' ''local-admin'' ''local-admin''
     [''project:read''] ''local-admin'' 7200"

definition lasting_token_table :: token_table where
  "lasting_token_table =
     token_exec (\<lambda>s. s) 5 (OpCreate True True (replicate 32 CHR ''a'') (replicate 43 CHR ''b'') ''deploy''
       ''local-admin'' ''local-admin'' [''project:read''] ''local-admin'' 7200) []"

lemma lasting_token_table_reachable: "token_reachable (\<lambda>s. s) 5 lasting_token_table"
  unfolding lasting_token_table_def
  by (rule token_reachable.step [OF token_reachable.start [where t = 0]]) simp

lemma lasting_token_lookup: "token_lookup (replicate 32 CHR ''a'') lasting_token_table = Some lasting_token"
  by code_simp

text \<open>A token created at second 5: 600 requests half an hour later and 600 an hour after the creation, all within an hour.\<close>

lemma hourly_admissions_bounded_witness:
  "length (filter (admits (replicate 32 CHR ''a'')) (authenticate_run (\<lambda>s. s)
     (replicate 600 (True, 5 + seconds 1800, bearer_text automation_token_prefix (replicate 32 CHR ''a'') (replicate 43 CHR ''b'')) @
      replicate 600 (True, 5 + seconds 3600, bearer_text automation_token_prefix (replicate 32 CHR ''a'') (replicate 43 CHR ''b'')))
     lasting_token_table)) = 1200"
proof -
  note lasting_token_lookup
  moreover have "usable (\<lambda>s. s) (bearer_text automation_token_prefix (replicate 32 CHR ''a'') (replicate 43 CHR ''b'')) (5 + seconds 3600) lasting_token"
    by code_simp
  moreover have "tk_window_requests lasting_token = 0" "tk_window_started_at lasting_token = 5" by code_simp+
  ultimately show ?thesis
    using hourly_admissions_bounded [OF lasting_token_table_reachable, of "[]" "5 + seconds 1800" "replicate 32 CHR ''a''"]
    by (simp add: seconds_def)
qed

subsection \<open>Issuing and revoking\<close>

lemma scope_items_join:
  assumes "scopes \<noteq> []" "set scopes \<subseteq> set automation_scopes"
  shows "scope_items (py_join '','' scopes) = scopes"
proof -
  have "CHR '','' \<notin> set w \<and> w \<noteq> []" if "w \<in> set scopes" for w
    using assms(2) that by (auto simp: automation_scopes_def)
  then show ?thesis
    using assms(1) py_split_join [of scopes "CHR '',''"] by (simp add: scope_items_def filter_id_conv)
qed

text \<open>
  Round trip: the bearer text that a creation returns authenticates, from the creation to just
  before the expiry it announces, as the organization, project and (sorted, deduplicated) scopes it
  was created for. \<^verbatim>\<open>secrets.token_hex(16)\<close> returns 32 hexadecimal digits.
\<close>

theorem created_token_authenticates:
  assumes "token_create sha256 db_ok get_ok now token_id secret name org project scopes created_by lifetime table
             = (Inr (r, plaintext), table')"
    and "is_hex_id 32 token_id" "now \<le> t" "t < now + seconds lifetime"
  shows "tr_expires_at r = now + seconds lifetime \<and> fst (token_authenticate sha256 True t plaintext table') =
    Inr (Some \<lparr>tp_token_id = token_id, tp_organization_id = org, tp_project_id = project,
               tp_scopes = sort (remdups scopes), tp_expires_at = now + seconds lifetime\<rparr>)"
proof -
  let ?row = "new_token_row sha256 now token_id secret (py_strip name) org project (sort (remdups scopes)) created_by lifetime"
  have p: "plaintext = bearer_text automation_token_prefix token_id secret" "is_secret secret"
    and fresh: "token_id \<notin> tk_id ` set table" and table': "table' = table @ [?row]"
    and sc: "scopes \<noteq> []" "set scopes \<subseteq> set automation_scopes"
    and r: "token_get get_ok org token_id table' = Inr r"
    using assms(1) unfolding token_create_def Let_def
    by (auto split: if_splits simp: list_ex_iff bind_res_Inr_iff)
  have lookup: "find (\<lambda>row. tk_id row = token_id) table' = Some ?row"
    "find (\<lambda>row. tk_organization_id row = org \<and> tk_id row = token_id) table' = Some ?row"
    using fresh unfolding table' by (induction table) (auto simp: new_token_row_def)
  have "sort (remdups scopes) \<noteq> []" using sc(1) by (metis set_empty set_remdups set_sort)
  then have sorted_scopes: "scope_items (py_join '','' (sort (remdups scopes))) = sort (remdups scopes)"
    using sc(2) by (intro scope_items_join) simp_all
  have "rate_window t ?row \<in> {(t, 0), (now, 0)}"
    by (simp add: rate_window_def new_token_row_def)
  then have "snd (rate_window t ?row) < max_requests_per_window"
    by (auto simp: max_requests_per_window_def)
  moreover have "tr_expires_at r = now + seconds lifetime"
    using r lookup(2) by (auto simp: token_get_def token_record_of_def new_token_row_def split: if_splits)
  ultimately show ?thesis
    using lookup(1) assms(3,4) bearer_match_text [OF assms(2) p(2), of automation_token_prefix]
    unfolding token_authenticate_def p(1)
    by (auto simp: new_token_row_def principal_of_def sorted_scopes split: prod.splits)
qed

lemma created_token_authenticates_witness:
  "\<exists>r plaintext. fst (token_create (\<lambda>s. s) True True 5 (replicate 32 CHR ''a'') (replicate 43 CHR ''b'') ''deploy''
       ''local-admin'' ''local-admin'' [''report:read'', ''project:read''] ''local-admin'' 300 []) = Inr (r, plaintext) \<and>
     fst (token_authenticate (\<lambda>s. s) True 7 plaintext
       (snd (token_create (\<lambda>s. s) True True 5 (replicate 32 CHR ''a'') (replicate 43 CHR ''b'') ''deploy''
         ''local-admin'' ''local-admin'' [''report:read'', ''project:read''] ''local-admin'' 300 [])))
     = Inr (Some \<lparr>tp_token_id = replicate 32 CHR ''a'', tp_organization_id = ''local-admin'',
               tp_project_id = ''local-admin'', tp_scopes = sort (remdups [''report:read'', ''project:read'']),
               tp_expires_at = 5 + seconds 300\<rparr>)"
proof -
  let ?c = "token_create (\<lambda>s. s) True True 5 (replicate 32 CHR ''a'') (replicate 43 CHR ''b'') ''deploy''
       ''local-admin'' ''local-admin'' [''report:read'', ''project:read''] ''local-admin'' 300 []"
  have "isl (fst ?c) = False" by code_simp
  then obtain r plaintext where c: "fst ?c = Inr (r, plaintext)" by (cases "fst ?c") auto
  then have c': "?c = (Inr (r, plaintext), snd ?c)" by (metis prod.collapse)
  have hex: "is_hex_id 32 (replicate 32 CHR ''a'')" by code_simp
  have t: "5 \<le> (7::int)" "7 < 5 + seconds 300" by (simp_all add: seconds_def)
  from created_token_authenticates [OF c' hex t] have "fst (token_authenticate (\<lambda>s. s) True 7 plaintext (snd ?c)) =
    Inr (Some \<lparr>tp_token_id = replicate 32 CHR ''a'', tp_organization_id = ''local-admin'',
               tp_project_id = ''local-admin'', tp_scopes = sort (remdups [''report:read'', ''project:read'']),
               tp_expires_at = 5 + seconds 300\<rparr>)" by (rule conjunct2)
  with c show ?thesis by blast
qed

definition revoked_in :: "string \<Rightarrow> token_table \<Rightarrow> bool" where
  "revoked_in token_id table \<longleftrightarrow> list_all (\<lambda>row. tk_id row = token_id \<longrightarrow> tk_revoked_at row \<noteq> None) table"

fun creates :: "string \<Rightarrow> token_op \<Rightarrow> bool" where
  "creates token_id (OpCreate _ _ token_id' _ _ _ _ _ _ _) = (token_id' = token_id)"
| "creates token_id _ = False"

lemma token_exec_revoked_in:
  assumes "revoked_in token_id table" "\<not> creates token_id op"
  shows "revoked_in token_id (token_exec sha256 now op table)"
proof (cases op)
  case (OpCreate db_ok get_ok id' secret name org project scopes created_by lifetime)
  with assms token_create_table [of sha256 db_ok get_ok now id' secret name org project scopes created_by lifetime table]
  show ?thesis by (auto simp: revoked_in_def new_token_row_def)
next
  case (OpAuthenticate db_ok plaintext)
  with assms token_authenticate_table [of sha256 db_ok now plaintext table] show ?thesis
    by (auto simp: revoked_in_def touch_token_def list_all_iff)
next
  case (OpRevoke db_ok get_ok org id')
  with assms token_revoke_table [of db_ok get_ok now org id' table] show ?thesis
    by (auto simp: revoked_in_def list_all_iff revoke_row_def split: option.splits)
next
  case (OpPurge db_ok org cutoff)
  with assms token_purge_table [of db_ok org cutoff table] show ?thesis
    by (auto simp: revoked_in_def list_all_iff)
qed

lemma token_run_revoked_in:
  "revoked_in token_id table \<Longrightarrow> list_all (\<lambda>(now, op). \<not> creates token_id op) ops \<Longrightarrow>
   revoked_in token_id (token_run sha256 ops table)"
  by (induction sha256 ops table rule: token_run.induct) (auto simp: token_exec_revoked_in)

lemma revoked_in_refused:
  assumes "revoked_in token_id table" "bearer_match automation_token_prefix plaintext = Some token_id"
  shows "token_authenticate sha256 db_ok t plaintext table = (if db_ok then Inr None else Inl StoreUnavailable, table)"
proof (cases rule: token_authenticate_cases [of sha256 db_ok t plaintext table])
  case (refused r)
  moreover have "r \<noteq> Inl RateLimited \<and> (r = Inr None \<or> r = Inl StoreUnavailable) \<and> (r = Inl StoreUnavailable \<longleftrightarrow> \<not> db_ok)"
    using refused assms unfolding token_authenticate_def revoked_in_def list_all_iff
    by (auto split: option.splits if_splits prod.splits dest!: find_Some_iff_first)
  ultimately show ?thesis by auto
next
  case (admitted token_id' row w n)
  then show ?thesis
    using assms token_lookup_mem [OF admitted(2)] by (auto simp: revoked_in_def list_all_iff)
qed

text \<open>
  Revocation is permanent: once \<^verbatim>\<open>revoke\<close> has returned the record of a token, every later
  authentication of a bearer text with that identifier is refused, after any sequence of calls at
  any instants, as long as no later creation draws the same random identifier.
\<close>

theorem revocation_is_permanent:
  assumes "token_revoke db_ok get_ok now org token_id table = (Inr r, table')" "token_ids_ok table"
    and "list_all (\<lambda>(t, op). \<not> creates token_id op) ops"
    and "bearer_match automation_token_prefix plaintext = Some token_id"
  shows "tr_revoked_at r \<noteq> None \<and>
    fst (token_authenticate sha256 True t plaintext (token_run sha256 ops table')) = Inr None"
proof -
  have t': "table' = map (\<lambda>r. if tk_organization_id r = org \<and> tk_id r = token_id then revoke_row now r else r) table"
    and one: "length (filter (\<lambda>row. tk_organization_id row = org \<and> tk_id row = token_id) table) = 1"
    and r: "token_get get_ok org token_id table' = Inr r"
    using assms(1) unfolding token_revoke_def revoke_row_def Let_def by (auto split: if_splits)
  have same: "tk_organization_id row = org" if "row \<in> set table" "tk_id row = token_id" for row
  proof -
    obtain row' where "row' \<in> set (filter (\<lambda>row. tk_organization_id row = org \<and> tk_id row = token_id) table)"
      using one by (metis One_nat_def length_Suc_conv list.set_intros(1))
    then have "row' \<in> set table" "tk_organization_id row' = org" "tk_id row' = token_id" by auto
    moreover have "inj_on tk_id (set table)" using assms(2) by (simp add: token_ids_ok_def distinct_map)
    ultimately show ?thesis using that by (auto dest: inj_onD)
  qed
  have "tk_revoked_at row \<noteq> None" if row: "row \<in> set table'" "tk_id row = token_id" for row
  proof -
    obtain x where x: "x \<in> set table" "row = (if tk_organization_id x = org \<and> tk_id x = token_id then revoke_row now x else x)"
      using row(1) unfolding t' by auto
    then have "tk_id x = token_id" using row(2) by (auto split: if_splits)
    with x same show ?thesis by simp
  qed
  then have "revoked_in token_id table'" by (simp add: revoked_in_def list_all_iff)
  then have "revoked_in token_id (token_run sha256 ops table')" using assms(3) by (rule token_run_revoked_in)
  moreover have "tr_revoked_at r \<noteq> None"
  proof -
    obtain row where "row \<in> set table'" "tk_id row = token_id" "r = token_record_of row"
      using r by (auto simp: token_get_def split: if_splits option.splits dest!: find_Some_iff_first)
    then show ?thesis using \<open>revoked_in token_id table'\<close> by (simp add: revoked_in_def list_all_iff token_record_of_def)
  qed
  ultimately show ?thesis using revoked_in_refused [OF _ assms(4)] by simp
qed

lemma revocation_is_permanent_witness:
  "fst (token_authenticate (\<lambda>s. s) True 9 (bearer_text automation_token_prefix (replicate 32 CHR ''a'') (replicate 43 CHR ''b''))
     (token_run (\<lambda>s. s) [(8, OpPurge True ''other'' 3)]
       (snd (token_revoke True True 6 ''local-admin'' (replicate 32 CHR ''a'') example_token_table)))) = Inr None"
proof -
  let ?r = "token_revoke True True 6 ''local-admin'' (replicate 32 CHR ''a'') example_token_table"
  have "isl (fst ?r) = False" by code_simp
  then obtain r where "fst ?r = Inr r" by (cases "fst ?r") auto
  then have r: "?r = (Inr r, snd ?r)" by (metis prod.collapse)
  have "list_all (\<lambda>(t, op). \<not> creates (replicate 32 CHR ''a'') op) [(8::int, OpPurge True ''other'' 3)]" by simp
  moreover have "bearer_match automation_token_prefix
      (bearer_text automation_token_prefix (replicate 32 CHR ''a'') (replicate 43 CHR ''b'')) = Some (replicate 32 CHR ''a'')"
    by code_simp
  ultimately show ?thesis
    using revocation_is_permanent [OF r token_reachable_ids_ok [OF example_token_table_reachable]] by blast
qed

end
