(* ===== verification/Repository_Import_Grants.thy ===== *)
theory Repository_Import_Grants
  imports Automation_Tokens
begin

section \<open>Repository import grants\<close>

text \<open>
  Model of \<^verbatim>\<open>backend/app/repository_import_grants.py\<close>: short-lived, single-use bearer grants. The
  conventions are those of \<open>Automation_Tokens\<close>: the table is the list of its rows, \<open>db_ok\<close> and
  \<open>get_ok\<close> say whether SQLite works in the transaction and in the read after it, \<open>now\<close>, \<open>grant_id\<close>
  and \<open>secret\<close> are what the clock and the random source return.
\<close>

subsection \<open>Data\<close>

datatype grant_error =
  InvalidIdentity | GrantInvalidLifetime | GrantActiveLimit | GrantGenerationFailed
  | GrantStoreUnavailable | InvalidOrConsumed | GrantNotFound

record grant_row =
  gr_id :: string
  gr_hash :: string
  gr_organization_id :: string
  gr_created_by :: string
  gr_created_at :: instant
  gr_expires_at :: instant
  gr_consumed_at :: "instant option"

record grant_principal =
  gp_grant_id :: string
  gp_organization_id :: string
  gp_created_by :: string
  gp_expires_at :: instant

record grant_record =
  gc_grant_id :: string
  gc_organization_id :: string
  gc_created_by :: string
  gc_created_at :: instant
  gc_expires_at :: instant
  gc_consumed_at :: "instant option"

type_synonym grant_table = "grant_row list"

definition grant_prefix :: string where
  "grant_prefix = ''inspectra_ri_''"

definition grant_min_lifetime_seconds :: int where
  "grant_min_lifetime_seconds = 300"

definition grant_max_lifetime_seconds :: int where
  "grant_max_lifetime_seconds = 1800"

definition max_active_per_organization :: nat where
  "max_active_per_organization = 3"

definition grant_hash :: "(string \<Rightarrow> string) \<Rightarrow> string \<Rightarrow> string" where
  "grant_hash sha256 plaintext = sha256 (''inspectra-repository-import-grant-v1'' @ [CHR 0x00] @ plaintext)"

definition grant_record_of :: "grant_row \<Rightarrow> grant_record" where
  "grant_record_of row =
     \<lparr>gc_grant_id = gr_id row, gc_organization_id = gr_organization_id row, gc_created_by = gr_created_by row,
      gc_created_at = gr_created_at row, gc_expires_at = gr_expires_at row, gc_consumed_at = gr_consumed_at row\<rparr>"

subsection \<open>Operations\<close>

definition grant_get :: "bool \<Rightarrow> string \<Rightarrow> string \<Rightarrow> grant_table \<Rightarrow> grant_error + grant_record" where
  "grant_get db_ok organization_id grant_id table =
     (if \<not> db_ok then Inl GrantStoreUnavailable
      else (case find (\<lambda>row. gr_organization_id row = organization_id \<and> gr_id row = grant_id) table of
              None \<Rightarrow> Inl GrantNotFound
            | Some row \<Rightarrow> Inr (grant_record_of row)))"

text \<open>\<^verbatim>\<open>consumed_at IS NULL AND expires_at > ?\<close>\<close>

definition grant_active :: "instant \<Rightarrow> grant_row \<Rightarrow> bool" where
  "grant_active now row \<longleftrightarrow> gr_consumed_at row = None \<and> gr_expires_at row > now"

text \<open>\<^verbatim>\<open>DELETE ... WHERE organization_id = ? AND (expires_at <= ? OR consumed_at IS NOT NULL)\<close>\<close>

definition delete_inactive :: "string \<Rightarrow> instant \<Rightarrow> grant_table \<Rightarrow> grant_table" where
  "delete_inactive organization_id now table =
     filter (\<lambda>row. \<not> (gr_organization_id row = organization_id \<and>
                       (gr_expires_at row \<le> now \<or> gr_consumed_at row \<noteq> None))) table"

definition new_grant_row ::
  "(string \<Rightarrow> string) \<Rightarrow> instant \<Rightarrow> string \<Rightarrow> string \<Rightarrow> string \<Rightarrow> string \<Rightarrow> int \<Rightarrow> grant_row" where
  "new_grant_row sha256 now grant_id secret organization_id created_by lifetime_seconds =
     \<lparr>gr_id = grant_id, gr_hash = grant_hash sha256 (bearer_text grant_prefix grant_id secret),
      gr_organization_id = organization_id, gr_created_by = created_by, gr_created_at = now,
      gr_expires_at = now + seconds lifetime_seconds, gr_consumed_at = None\<rparr>"

definition grant_create ::
  "(string \<Rightarrow> string) \<Rightarrow> bool \<Rightarrow> bool \<Rightarrow> instant \<Rightarrow> string \<Rightarrow> string \<Rightarrow> string \<Rightarrow> string \<Rightarrow> int
     \<Rightarrow> grant_table \<Rightarrow> (grant_error + grant_record \<times> string) \<times> grant_table" where
  "grant_create sha256 db_ok get_ok now grant_id secret organization_id created_by lifetime_seconds table =
     (if organization_id = [] \<or> length organization_id > 128 \<or> created_by = [] \<or> length created_by > 128
      then (Inl InvalidIdentity, table)
      else if \<not> (grant_min_lifetime_seconds \<le> lifetime_seconds \<and> lifetime_seconds \<le> grant_max_lifetime_seconds)
      then (Inl GrantInvalidLifetime, table)
      else if \<not> db_ok then (Inl GrantStoreUnavailable, table)
      else (let kept = delete_inactive organization_id now table in
        if active_count (\<lambda>row. gr_organization_id row = organization_id \<and> grant_active now row) kept
             \<ge> max_active_per_organization
        then (Inl GrantActiveLimit, table)
        else if \<not> is_secret secret then (Inl GrantGenerationFailed, table)
        else if grant_id \<in> gr_id ` set kept then (Inl GrantStoreUnavailable, table)
        else (let table' = kept @ [new_grant_row sha256 now grant_id secret organization_id created_by lifetime_seconds] in
              (bind_res (grant_get get_ok organization_id grant_id table')
                 (\<lambda>r. Inr (r, bearer_text grant_prefix grant_id secret)), table'))))"

definition grant_authenticate ::
  "(string \<Rightarrow> string) \<Rightarrow> bool \<Rightarrow> instant \<Rightarrow> string \<Rightarrow> grant_table \<Rightarrow> grant_error + grant_principal option" where
  "grant_authenticate sha256 db_ok now plaintext table =
     (case bearer_match grant_prefix plaintext of
        None \<Rightarrow> Inr None
      | Some grant_id \<Rightarrow>
          if \<not> db_ok then Inl GrantStoreUnavailable
          else (case find (\<lambda>row. gr_id row = grant_id) table of
                  None \<Rightarrow> Inr None
                | Some row \<Rightarrow>
                    if gr_consumed_at row \<noteq> None \<or> gr_expires_at row \<le> now \<or> gr_hash row \<noteq> grant_hash sha256 plaintext
                    then Inr None
                    else Inr (Some \<lparr>gp_grant_id = grant_id, gp_organization_id = gr_organization_id row,
                                    gp_created_by = gr_created_by row, gp_expires_at = gr_expires_at row\<rparr>)))"

text \<open>The rows that the \<^verbatim>\<open>UPDATE\<close> of \<^verbatim>\<open>consume\<close> selects.\<close>

definition consumable :: "instant \<Rightarrow> grant_principal \<Rightarrow> grant_row \<Rightarrow> bool" where
  "consumable now authority row \<longleftrightarrow>
     gr_id row = gp_grant_id authority \<and> gr_organization_id row = gp_organization_id authority \<and>
     gr_created_by row = gp_created_by authority \<and> gr_consumed_at row = None \<and> gr_expires_at row > now"

definition grant_consume ::
  "bool \<Rightarrow> bool \<Rightarrow> instant \<Rightarrow> grant_principal \<Rightarrow> grant_table \<Rightarrow> (grant_error + grant_record) \<times> grant_table" where
  "grant_consume db_ok get_ok now authority table =
     (if \<not> db_ok then (Inl GrantStoreUnavailable, table)
      else if length (filter (consumable now authority) table) \<noteq> 1 then (Inl InvalidOrConsumed, table)
      else (let table' = map (\<lambda>row. if consumable now authority row then row\<lparr>gr_consumed_at := Some now\<rparr> else row) table in
            (grant_get get_ok (gp_organization_id authority) (gp_grant_id authority) table', table')))"

subsection \<open>Runs\<close>

datatype grant_op =
  GrantCreate bool bool string string string string int
  | GrantConsume bool bool grant_principal

fun grant_exec :: "(string \<Rightarrow> string) \<Rightarrow> instant \<Rightarrow> grant_op \<Rightarrow> grant_table \<Rightarrow> grant_table" where
  "grant_exec sha256 now (GrantCreate db_ok get_ok grant_id secret org created_by lifetime) table =
     snd (grant_create sha256 db_ok get_ok now grant_id secret org created_by lifetime table)"
| "grant_exec sha256 now (GrantConsume db_ok get_ok authority) table =
     snd (grant_consume db_ok get_ok now authority table)"

inductive grant_reachable :: "(string \<Rightarrow> string) \<Rightarrow> instant \<Rightarrow> grant_table \<Rightarrow> bool" for sha256 where
  start: "grant_reachable sha256 t []"
| step: "grant_reachable sha256 t table \<Longrightarrow> t \<le> t' \<Longrightarrow> grant_reachable sha256 t' (grant_exec sha256 t' op table)"

text \<open>
  How often a sequence of calls spends the grant of an identifier: a call of \<^verbatim>\<open>consume\<close> for it spends it when the call returns a record or
  leaves the table changed.
\<close>

definition spends :: "instant \<Rightarrow> grant_op \<Rightarrow> string \<Rightarrow> grant_table \<Rightarrow> bool" where
  "spends now op grant_id table =
     (case op of
        GrantConsume db_ok get_ok authority \<Rightarrow>
          gp_grant_id authority = grant_id \<and>
          (\<not> isl (fst (grant_consume db_ok get_ok now authority table)) \<or> snd (grant_consume db_ok get_ok now authority table) \<noteq> table)
      | _ \<Rightarrow> False)"

fun spend_count :: "(string \<Rightarrow> string) \<Rightarrow> string \<Rightarrow> (instant \<times> grant_op) list \<Rightarrow> grant_table \<Rightarrow> nat" where
  "spend_count sha256 grant_id [] table = 0"
| "spend_count sha256 grant_id ((now, op) # ops) table =
     (if spends now op grant_id table then 1 else 0) + spend_count sha256 grant_id ops (grant_exec sha256 now op table)"

fun grant_creates :: "string \<Rightarrow> grant_op \<Rightarrow> bool" where
  "grant_creates grant_id (GrantCreate _ _ grant_id' _ _ _ _) = (grant_id' = grant_id)"
| "grant_creates grant_id _ = False"

subsection \<open>The limit on active grants\<close>

interpretation grant_rows: expiring_rows grant_active gr_organization_id max_active_per_organization
  by unfold_locales (auto simp: grant_active_def)

lemma grant_create_table:
  "snd (grant_create sha256 db_ok get_ok now grant_id secret org created_by lifetime table) = table \<or>
   (grant_id \<notin> gr_id ` set (delete_inactive org now table) \<and>
    active_count (\<lambda>row. gr_organization_id row = org \<and> grant_active now row) (delete_inactive org now table)
      < max_active_per_organization \<and>
    snd (grant_create sha256 db_ok get_ok now grant_id secret org created_by lifetime table)
      = delete_inactive org now table @ [new_grant_row sha256 now grant_id secret org created_by lifetime])"
  unfolding grant_create_def Let_def by auto

definition mark_consumed :: "instant \<Rightarrow> grant_principal \<Rightarrow> grant_row \<Rightarrow> grant_row" where
  "mark_consumed now authority row =
     (if consumable now authority row then row\<lparr>gr_consumed_at := Some now\<rparr> else row)"

lemma mark_consumed_keeps [simp]:
  "gr_id (mark_consumed now p row) = gr_id row"
  "gr_organization_id (mark_consumed now p row) = gr_organization_id row"
  "grant_active t (mark_consumed now p row) \<longleftrightarrow> \<not> consumable now p row \<and> grant_active t row"
  by (auto simp: mark_consumed_def grant_active_def)

lemma grant_consume_table:
  "snd (grant_consume db_ok get_ok now authority table) =
     (if db_ok \<and> length (filter (consumable now authority) table) = 1
      then map (mark_consumed now authority) table else table)"
  unfolding grant_consume_def mark_consumed_def by (simp add: Let_def)

lemma grant_exec_within_limit:
  assumes "grant_rows.within_limit now table"
  shows "grant_rows.within_limit now (grant_exec sha256 now op table)"
proof (cases op)
  case (GrantCreate db_ok get_ok grant_id secret org created_by lifetime)
  have "grant_rows.within_limit now (delete_inactive org now table)"
    using assms unfolding delete_inactive_def by (rule grant_rows.within_limit_filter)
  from grant_rows.within_limit_insert [OF this, of "new_grant_row sha256 now grant_id secret org created_by lifetime"]
  show ?thesis
    using assms GrantCreate grant_create_table [of sha256 db_ok get_ok now grant_id secret org created_by lifetime table]
    by (auto simp: new_grant_row_def)
next
  case (GrantConsume db_ok get_ok authority)
  then show ?thesis
    using assms by (auto simp: grant_consume_table intro!: grant_rows.within_limit_map)
qed

lemma grant_reachable_within_limit:
  "grant_reachable sha256 t table \<Longrightarrow> grant_rows.within_limit t table"
  by (induction rule: grant_reachable.induct)
    (simp_all add: grant_exec_within_limit grant_rows.within_limit_later)

definition example_grant_table :: grant_table where
  "example_grant_table =
     grant_exec (\<lambda>s. s) 5 (GrantCreate True True (replicate 32 CHR ''a'') (replicate 43 CHR ''b'')
       ''local-admin'' ''local-admin'' 300) []"

lemma example_grant_table_reachable: "grant_reachable (\<lambda>s. s) 5 example_grant_table"
  unfolding example_grant_table_def
  by (rule grant_reachable.step [OF grant_reachable.start [where t = 0]]) simp

text \<open>
  At most three import grants of one organization are usable at any instant, in every table
  that creations and consumptions reach under a clock that does not go back.
\<close>

theorem at_most_three_active_grants:
  assumes "grant_reachable sha256 t table" "t \<le> t'"
  shows "active_count (\<lambda>row. gr_organization_id row = org \<and> grant_active t' row) table \<le> 3"
proof -
  have "grant_rows.within_limit t' table"
    using assms grant_reachable_within_limit grant_rows.within_limit_later by blast
  then have "active_count (\<lambda>row. gr_organization_id row = org \<and> grant_active t' row) table
      \<le> max_active_per_organization"
    unfolding grant_rows.within_limit_def by blast
  then show ?thesis by (simp add: max_active_per_organization_def)
qed

lemma at_most_three_active_grants_witness:
  "active_count (\<lambda>row. gr_organization_id row = ''local-admin'' \<and> grant_active 7 row) example_grant_table \<le> 3"
  using at_most_three_active_grants [OF example_grant_table_reachable, of 7 "''local-admin''"] by simp

subsection \<open>Single use\<close>

definition grant_ids_ok :: "grant_table \<Rightarrow> bool" where
  "grant_ids_ok table \<longleftrightarrow> distinct (map gr_id table)"

lemma grant_exec_ids_ok: "grant_ids_ok table \<Longrightarrow> grant_ids_ok (grant_exec sha256 now op table)"
proof (cases op)
  case (GrantCreate db_ok get_ok grant_id secret org created_by lifetime)
  assume "grant_ids_ok table"
  moreover from this have "grant_ids_ok (delete_inactive org now table)"
    by (simp add: grant_ids_ok_def delete_inactive_def distinct_map_filter)
  ultimately show ?thesis
    using GrantCreate grant_create_table [of sha256 db_ok get_ok now grant_id secret org created_by lifetime table]
    by (auto simp: grant_ids_ok_def new_grant_row_def)
next
  case (GrantConsume db_ok get_ok authority)
  assume "grant_ids_ok table"
  with GrantConsume show ?thesis by (simp add: grant_ids_ok_def grant_consume_table comp_def)
qed

lemma grant_reachable_ids_ok: "grant_reachable sha256 t table \<Longrightarrow> grant_ids_ok table"
  by (induction rule: grant_reachable.induct) (simp_all add: grant_exec_ids_ok, simp add: grant_ids_ok_def)

text \<open>Nothing spendable is left under the identifier.\<close>

definition spent :: "string \<Rightarrow> grant_table \<Rightarrow> bool" where
  "spent grant_id table \<longleftrightarrow> list_all (\<lambda>row. gr_id row = grant_id \<longrightarrow> gr_consumed_at row \<noteq> None) table"

text \<open>A call that has an effect, seen from outside, found exactly the row it looks for.\<close>

lemma spends_found:
  assumes "spends now op grant_id table"
  obtains db_ok get_ok authority where "op = GrantConsume db_ok get_ok authority" "db_ok" "gp_grant_id authority = grant_id"
    "length (filter (consumable now authority) table) = 1"
proof (cases op)
  case (GrantConsume db_ok get_ok authority)
  have "isl (fst (grant_consume db_ok get_ok now authority table)) \<and> snd (grant_consume db_ok get_ok now authority table) = table"
    if "\<not> (db_ok \<and> length (filter (consumable now authority) table) = 1)"
    using that unfolding grant_consume_def by simp
  then have "db_ok \<and> length (filter (consumable now authority) table) = 1" using assms GrantConsume by (auto simp: spends_def)
  then show ?thesis using that GrantConsume assms by (simp add: spends_def)
qed (use assms in \<open>simp add: spends_def\<close>)

lemma spent_not_spends: "spent grant_id table \<Longrightarrow> \<not> spends now op grant_id table"
  by (auto simp: spent_def consumable_def list_all_iff length_Suc_conv filter_eq_Cons_iff elim!: spends_found)

lemma spent_exec:
  assumes "spent grant_id table" "\<not> grant_creates grant_id op"
  shows "spent grant_id (grant_exec sha256 now op table)"
proof (cases op)
  case (GrantCreate db_ok get_ok grant_id' secret org created_by lifetime)
  then show ?thesis
    using assms grant_create_table [of sha256 db_ok get_ok now grant_id' secret org created_by lifetime table]
    by (auto simp: spent_def new_grant_row_def delete_inactive_def list_all_iff)
next
  case (GrantConsume db_ok get_ok authority)
  then show ?thesis using assms by (auto simp: spent_def grant_consume_table list_all_iff mark_consumed_def)
qed

lemma spent_count_zero:
  "spent grant_id table \<Longrightarrow> list_all (\<lambda>(now, op). \<not> grant_creates grant_id op) ops \<Longrightarrow>
   spend_count sha256 grant_id ops table = 0"
  by (induction sha256 grant_id ops table rule: spend_count.induct) (auto simp: spent_not_spends spent_exec)

lemma spends_leaves_spent:
  assumes "grant_ids_ok table" "spends now op grant_id table"
  shows "spent grant_id (grant_exec sha256 now op table)"
proof -
  obtain db_ok get_ok authority where op: "op = GrantConsume db_ok get_ok authority" "db_ok"
      "gp_grant_id authority = grant_id" and one: "length (filter (consumable now authority) table) = 1"
    using assms(2) by (rule spends_found)
  obtain hit where "hit \<in> set (filter (consumable now authority) table)"
    using one by (metis One_nat_def length_Suc_conv list.set_intros(1))
  then have hit: "hit \<in> set table" "consumable now authority hit" by auto
  then have "gr_id hit = grant_id" using op(3) by (simp add: consumable_def)
  moreover have "inj_on gr_id (set table)" using assms(1) by (simp add: grant_ids_ok_def distinct_map)
  ultimately have only: "row = hit" if "row \<in> set table" "gr_id row = grant_id" for row
    using that hit(1) by (auto dest: inj_onD)
  have "gr_consumed_at (mark_consumed now authority hit) \<noteq> None" using hit(2) by (simp add: mark_consumed_def)
  then have "spent grant_id (map (mark_consumed now authority) table)"
    using only by (auto simp: spent_def list_all_iff simp del: not_None_eq)
  then show ?thesis using op(1,2) one by (simp add: grant_consume_table)
qed

text \<open>
  C31. Single use: whatever sequence of creations and consumptions follows, at whatever instants
  and with whatever principals, at most one call of consume for a grant returns a record or changes the table, as long as no
  later creation draws the same random identifier.
\<close>

theorem grant_spent_at_most_once:
  assumes "grant_reachable sha256 t table" "list_all (\<lambda>(now, op). \<not> grant_creates grant_id op) ops"
  shows "spend_count sha256 grant_id ops table \<le> 1"
proof -
  have "grant_ids_ok table" using assms(1) by (rule grant_reachable_ids_ok)
  then show ?thesis using assms(2)
  proof (induction sha256 grant_id ops table rule: spend_count.induct)
    case (2 sha256 grant_id now op ops table)
    then show ?case
      using spent_count_zero [OF spends_leaves_spent] grant_exec_ids_ok by auto
  qed simp
qed

text \<open>Two calls for one grant: the first one spends it.\<close>

lemma grant_spent_at_most_once_witness:
  "let consume = GrantConsume True True \<lparr>gp_grant_id = replicate 32 CHR ''a'', gp_organization_id = ''local-admin'',
      gp_created_by = ''local-admin'', gp_expires_at = 9\<rparr>
   in spend_count (\<lambda>s. s) (replicate 32 CHR ''a'') [(6, consume), (7, consume)] example_grant_table = 1"
proof -
  let ?c = "GrantConsume True True \<lparr>gp_grant_id = replicate 32 CHR ''a'', gp_organization_id = ''local-admin'',
      gp_created_by = ''local-admin'', gp_expires_at = 9\<rparr>"
  have "spends 6 ?c (replicate 32 CHR ''a'') example_grant_table" by code_simp
  then have "1 \<le> spend_count (\<lambda>s. s) (replicate 32 CHR ''a'') [(6, ?c), (7, ?c)] example_grant_table" by simp
  moreover have "spend_count (\<lambda>s. s) (replicate 32 CHR ''a'') [(6, ?c), (7, ?c)] example_grant_table \<le> 1"
    by (rule grant_spent_at_most_once [OF example_grant_table_reachable]) simp
  ultimately show ?thesis by (simp add: Let_def)
qed

text \<open>
  Round trip: the bearer text of a created grant authenticates as its issuer until it expires,
  and the authority it gives can spend the grant at any instant before the expiry; after that the
  bearer text is refused.
\<close>

theorem created_grant_spends_once:
  assumes "grant_create sha256 db_ok get_ok now grant_id secret org created_by lifetime table
             = (Inr (r, plaintext), table')"
    and "is_hex_id 32 grant_id" "t < now + seconds lifetime" "t' < now + seconds lifetime"
  shows "\<exists>p spent_record. grant_authenticate sha256 True t plaintext table' = Inr (Some p) \<and>
    gp_grant_id p = grant_id \<and> gp_organization_id p = org \<and> gp_created_by p = created_by \<and>
    fst (grant_consume True True t' p table') = Inr spent_record \<and> gc_consumed_at spent_record = Some t' \<and>
    grant_authenticate sha256 True t'' plaintext (snd (grant_consume True True t' p table')) = Inr None"
proof -
  let ?row = "new_grant_row sha256 now grant_id secret org created_by lifetime"
  let ?p = "\<lparr>gp_grant_id = grant_id, gp_organization_id = org, gp_created_by = created_by,
             gp_expires_at = now + seconds lifetime\<rparr>"
  let ?kept = "delete_inactive org now table"
  have p: "plaintext = bearer_text grant_prefix grant_id secret" "is_secret secret"
    and fresh: "grant_id \<notin> gr_id ` set ?kept" and table': "table' = ?kept @ [?row]"
    using assms(1) unfolding grant_create_def Let_def by (auto split: if_splits simp: bind_res_Inr_iff)
  have find_id: "find (\<lambda>row. gr_id row = grant_id) (rows @ [x]) = Some x"
    "find (\<lambda>row. gr_organization_id row = org \<and> gr_id row = grant_id) (rows @ [x]) = Some x"
    if "grant_id \<notin> gr_id ` set rows" "gr_id x = grant_id" "gr_organization_id x = org" for rows x
    using that by (induction rows) auto
  have match: "bearer_match grant_prefix plaintext = Some grant_id"
    unfolding p(1) using bearer_match_text assms(2) p(2) by blast
  have row: "gr_id ?row = grant_id" "gr_organization_id ?row = org" "consumable t' ?p ?row"
    using assms(4) by (simp_all add: new_grant_row_def consumable_def)
  have none: "\<not> consumable t' ?p x" if "x \<in> set ?kept" for x
    using that fresh by (auto simp: consumable_def)
  then have one: "filter (consumable t' ?p) table' = [?row]"
    unfolding table' using row(3) by simp
  have same: "map (mark_consumed t' ?p) ?kept = ?kept"
    by (rule map_idI) (simp add: mark_consumed_def none)
  have table'': "snd (grant_consume True True t' ?p table') = ?kept @ [?row\<lparr>gr_consumed_at := Some t'\<rparr>]"
    unfolding grant_consume_table one using row(3) by (simp add: table' same mark_consumed_def)
  have "grant_authenticate sha256 True t plaintext table' = Inr (Some ?p)"
    using match find_id(1) [OF fresh row(1,2)] assms(3) unfolding grant_authenticate_def table' p(1)
    by (simp add: new_grant_row_def)
  moreover have "fst (grant_consume True True t' ?p table') = Inr (grant_record_of (?row\<lparr>gr_consumed_at := Some t'\<rparr>))"
    using table'' find_id(2) [OF fresh, of "?row\<lparr>gr_consumed_at := Some t'\<rparr>"] one row
    unfolding grant_consume_def Let_def by (simp add: grant_get_def)
  moreover have "grant_authenticate sha256 True t'' plaintext (snd (grant_consume True True t' ?p table')) = Inr None"
    using match find_id(1) [OF fresh, of "?row\<lparr>gr_consumed_at := Some t'\<rparr>"] row
    unfolding grant_authenticate_def table'' by simp
  ultimately show ?thesis
    by (intro exI [of _ ?p] exI [of _ "grant_record_of (?row\<lparr>gr_consumed_at := Some t'\<rparr>)"])
      (simp add: grant_record_of_def)
qed

lemma created_grant_spends_once_witness:
  "\<exists>r plaintext table' p. grant_create (\<lambda>s. s) True True 5 (replicate 32 CHR ''a'') (replicate 43 CHR ''b'')
       ''local-admin'' ''local-admin'' 300 [] = (Inr (r, plaintext), table') \<and>
     grant_authenticate (\<lambda>s. s) True 7 plaintext table' = Inr (Some p) \<and>
     grant_authenticate (\<lambda>s. s) True 9 plaintext (snd (grant_consume True True 8 p table')) = Inr None"
proof -
  let ?c = "grant_create (\<lambda>s. s) True True 5 (replicate 32 CHR ''a'') (replicate 43 CHR ''b'')
       ''local-admin'' ''local-admin'' 300 []"
  have "isl (fst ?c) = False" by code_simp
  then obtain r plaintext where "fst ?c = Inr (r, plaintext)" by (cases "fst ?c") auto
  then have c: "?c = (Inr (r, plaintext), snd ?c)" by (metis prod.collapse)
  have hex: "is_hex_id 32 (replicate 32 CHR ''a'')" by code_simp
  have t: "7 < 5 + seconds 300" "8 < 5 + seconds 300" by (simp_all add: seconds_def)
  from created_grant_spends_once [OF c hex t, where t'' = 9] c show ?thesis by blast
qed

end
