(* ===== verification/Json_Text.thy ===== *)
theory Json_Text
  imports Inspectra_Prelude "HOL-Library.Multiset"
begin

section \<open>JSON text\<close>

text \<open>
  The text that \<^verbatim>\<open>json.dumps\<close> produces from a decoded document, with \<^verbatim>\<open>sort_keys=True\<close> and
  \<^verbatim>\<open>ensure_ascii\<close> left at its default: the stores hash it, bound its length and write it to their
  files. \<open>dumps_with\<close> takes the two separators of the compact forms, \<open>dumps_indent\<close> is the form with
  \<^verbatim>\<open>indent=2\<close>.
\<close>

definition hex_digit :: "nat \<Rightarrow> char" where
  "hex_digit n = (if n < 10 then char_of (48 + n) else char_of (87 + n))"

definition escape_char :: "char \<Rightarrow> string" where
  "escape_char c =
     (if c = CHR 0x22 then [CHR 0x5C, CHR 0x22]
      else if c = CHR 0x5C then [CHR 0x5C, CHR 0x5C]
      else if c = CHR 0x0A then [CHR 0x5C, CHR ''n'']
      else if c = CHR 0x0D then [CHR 0x5C, CHR ''r'']
      else if c = CHR 0x09 then [CHR 0x5C, CHR ''t'']
      else if c = CHR 0x0C then [CHR 0x5C, CHR ''f'']
      else if c = CHR 0x08 then [CHR 0x5C, CHR ''b'']
      else if 32 \<le> code c \<and> code c \<le> 126 then [c]
      else [CHR 0x5C, CHR ''u'', CHR ''0'', CHR ''0'', hex_digit (code c div 16), hex_digit (code c mod 16)])"

lemma escape_char_bits [code]:
  "escape_char (Char b0 b1 b2 b3 b4 b5 b6 b7) =
     (if \<not> b7 \<and> (b5 \<or> b6) \<and> \<not> (b6 \<and> b5 \<and> b4 \<and> b3 \<and> b2 \<and> b1 \<and> b0)
         \<and> \<not> (b5 \<and> b1 \<and> \<not> b0 \<and> \<not> b2 \<and> \<not> b3 \<and> \<not> b4 \<and> \<not> b6) \<and> \<not> (b6 \<and> b4 \<and> b3 \<and> b2 \<and> \<not> b0 \<and> \<not> b1 \<and> \<not> b5)
      then [Char b0 b1 b2 b3 b4 b5 b6 b7]
      else (let c = Char b0 b1 b2 b3 b4 b5 b6 b7 in
        if c = CHR 0x22 then [CHR 0x5C, CHR 0x22]
        else if c = CHR 0x5C then [CHR 0x5C, CHR 0x5C]
        else if c = CHR 0x0A then [CHR 0x5C, CHR ''n'']
        else if c = CHR 0x0D then [CHR 0x5C, CHR ''r'']
        else if c = CHR 0x09 then [CHR 0x5C, CHR ''t'']
        else if c = CHR 0x0C then [CHR 0x5C, CHR ''f'']
        else if c = CHR 0x08 then [CHR 0x5C, CHR ''b'']
        else [CHR 0x5C, CHR ''u'', CHR ''0'', CHR ''0'', hex_digit (code c div 16), hex_digit (code c mod 16)]))"
  by (cases b0; cases b1; cases b2; cases b3; cases b4; cases b5; cases b6; cases b7)
    (simp_all add: escape_char_def code_def Let_def)

definition quoted :: "string \<Rightarrow> string" where
  "quoted s = [CHR 0x22] @ concat (map escape_char s) @ [CHR 0x22]"

definition show_int :: "int \<Rightarrow> string" where
  "show_int n = (if n < 0 then ''-'' @ show_nat (nat (- n)) else show_nat (nat n))"

text \<open>Fields sorted by key and written with the key separator.\<close>

definition field_texts :: "string \<Rightarrow> (string \<times> string) list \<Rightarrow> string list" where
  "field_texts key_sep members = map (\<lambda>(k, v). quoted k @ key_sep @ v) (sort_key fst members)"

primrec dumps_with :: "string \<Rightarrow> string \<Rightarrow> json \<Rightarrow> string" where
  "dumps_with item_sep key_sep JNull = ''null''"
| "dumps_with item_sep key_sep (JBool b) = (if b then ''true'' else ''false'')"
| "dumps_with item_sep key_sep (JInt n) = show_int n"
| "dumps_with item_sep key_sep (JStr s) = quoted s"
| "dumps_with item_sep key_sep (JList xs) =
     ''['' @ py_join item_sep (map (dumps_with item_sep key_sep) xs) @ '']''"
| "dumps_with item_sep key_sep (JObj members) =
     ''{'' @ py_join item_sep (field_texts key_sep (map (map_prod id (dumps_with item_sep key_sep)) members)) @ ''}''"

definition dumps :: "json \<Rightarrow> string" where
  "dumps = dumps_with '', '' '': ''"

definition dumps_compact :: "json \<Rightarrow> string" where
  "dumps_compact = dumps_with '','' '':''"

definition newline_at :: "nat \<Rightarrow> string" where
  "newline_at level = CHR 0x0A # replicate (2 * level) (CHR '' '')"

definition bracketed :: "string \<Rightarrow> string \<Rightarrow> nat \<Rightarrow> string list \<Rightarrow> string" where
  "bracketed open_text close_text level items =
     (if items = [] then open_text @ close_text
      else open_text @ newline_at (Suc level) @ py_join ('','' @ newline_at (Suc level)) items
             @ newline_at level @ close_text)"

primrec dumps_indent_at :: "json \<Rightarrow> nat \<Rightarrow> string" where
  "dumps_indent_at JNull = (\<lambda>level. ''null'')"
| "dumps_indent_at (JBool b) = (\<lambda>level. if b then ''true'' else ''false'')"
| "dumps_indent_at (JInt n) = (\<lambda>level. show_int n)"
| "dumps_indent_at (JStr s) = (\<lambda>level. quoted s)"
| "dumps_indent_at (JList xs) =
     (\<lambda>level. bracketed ''['' '']'' level (map (\<lambda>f. f (Suc level)) (map dumps_indent_at xs)))"
| "dumps_indent_at (JObj members) =
     (\<lambda>level. bracketed ''{'' ''}'' level
        (field_texts '': '' (map (map_prod id (\<lambda>f. f (Suc level))) (map (map_prod id dumps_indent_at) members))))"

definition dumps_indent :: "json \<Rightarrow> string" where
  "dumps_indent j = dumps_indent_at j 0"

subsection \<open>Lengths\<close>

lemma quoted_plain:
  "list_all (\<lambda>c. escape_char c = [c]) s \<Longrightarrow> length (quoted s) = length s + 2"
  unfolding quoted_def by (induction s) auto

lemma length_py_join:
  "length (py_join sep ws) = sum_list (map length ws) + length sep * (length ws - 1)"
  by (induction sep ws rule: py_join.induct) (auto simp: algebra_simps)

text \<open>The indented text is never shorter than the text with the default separators.\<close>

lemma sum_list_perm: "mset xs = mset ys \<Longrightarrow> sum_list (map f xs) = (sum_list (map f ys) :: nat)"
  by (metis mset_map sum_mset_sum_list)

lemma length_field_texts:
  "sum_list (map length (field_texts key_sep members)) =
     sum_list (map (\<lambda>kv. length (quoted (fst kv)) + length key_sep + length (snd kv)) members)"
proof -
  have "map length (field_texts key_sep members) =
      map (\<lambda>kv. length (quoted (fst kv)) + length key_sep + length (snd kv)) (sort_key fst members)"
    by (auto simp: field_texts_def)
  then show ?thesis using sum_list_perm [of "sort_key fst members" members] by simp
qed

lemma field_texts_length [simp]: "length (field_texts key_sep members) = length members"
  by (simp add: field_texts_def)

lemma field_texts_Nil [simp]: "field_texts key_sep members = [] \<longleftrightarrow> members = []"
  by (metis field_texts_length length_0_conv)

lemma newline_at_length [simp]: "length (newline_at level) = Suc (2 * level)"
  by (simp add: newline_at_def)

lemma bracketed_length:
  assumes "sum_list (map length items') \<le> sum_list (map length items)" "length items' = length items"
    "length open_text = 1" "length close_text = 1"
  shows "Suc (length (py_join '', '' items')) \<le> length (bracketed open_text close_text level items) - 1"
  using assms by (cases "items = []") (simp_all add: bracketed_def length_py_join)

lemma sum_list_mono_map:
  "(\<And>x. x \<in> set xs \<Longrightarrow> f x \<le> g x) \<Longrightarrow> sum_list (map f xs) \<le> (sum_list (map g xs) :: nat)"
  by (induction xs) (auto simp: add_mono)

lemma dumps_le_indent: "length (dumps_with '', '' '': '' j) \<le> length (dumps_indent_at j level)"
proof (induction j arbitrary: level)
  case (JList xs)
  have "sum_list (map length (map (dumps_with '', '' '': '') xs))
      \<le> sum_list (map length (map (\<lambda>f. f (Suc level)) (map dumps_indent_at xs)))"
    using JList by (auto simp: comp_def intro: sum_list_mono_map)
  from bracketed_length [OF this, of "''[''" "'']''" level] show ?case by simp
next
  case (JObj members)
  have "length (dumps_with '', '' '': '' (snd kv)) \<le> length (dumps_indent_at (snd kv) (Suc level))" if "kv \<in> set members" for kv
    using JObj [of kv "snd kv" "Suc level"] that by (cases kv) (auto simp: snds.simps)
  then have "sum_list (map length (field_texts '': '' (map (map_prod id (dumps_with '', '' '': '')) members)))
      \<le> sum_list (map length (field_texts '': '' (map (map_prod id (\<lambda>f. f (Suc level))) (map (map_prod id dumps_indent_at) members))))"
    by (auto simp: length_field_texts comp_def intro!: sum_list_mono_map)
  from bracketed_length [OF this, of "''{''" "''}''" level] show ?case by simp
qed auto

corollary dumps_le_dumps_indent: "length (dumps j) \<le> length (dumps_indent j)"
  by (simp add: dumps_def dumps_indent_def dumps_le_indent)

text \<open>
  An upper bound of the length of the indented text that needs no text, so that evaluation on a concrete
  document of moderate size decides a length check without building the text.
\<close>

primrec bulk :: "json \<Rightarrow> nat \<Rightarrow> nat" where
  "bulk JNull = (\<lambda>level. 4)"
| "bulk (JBool b) = (\<lambda>level. 5)"
| "bulk (JInt n) = (\<lambda>level. length (show_int n))"
| "bulk (JStr s) = (\<lambda>level. 6 * length s + 2)"
| "bulk (JList xs) = (\<lambda>level. (4 + 2 * Suc level) * Suc (length xs) + sum_list (map (\<lambda>f. f (Suc level)) (map bulk xs)))"
| "bulk (JObj members) = (\<lambda>level. (4 + 2 * Suc level) * Suc (length members) +
     sum_list (map (\<lambda>(k, f). 6 * length k + 4 + f (Suc level)) (map (map_prod id bulk) members)))"

lemma escape_char_length: "length (escape_char c) \<le> 6"
  by (simp add: escape_char_def)

lemma quoted_length: "length (quoted s) \<le> 6 * length s + 2"
proof -
  have "length (concat (map escape_char s)) \<le> 6 * length s"
  proof (induction s)
    case (Cons c s)
    then show ?case using escape_char_length [of c] by simp
  qed simp
  then show ?thesis by (simp add: quoted_def)
qed

lemma bracketed_bulk:
  assumes "sum_list (map length items) \<le> n" "length open_text = 1" "length close_text = 1"
  shows "length (bracketed open_text close_text level items) \<le> (4 + 2 * Suc level) * Suc (length items) + n"
proof (cases items)
  case (Cons x xs)
  have "(3 + 2 * level + 1) * length xs \<le> (4 + 2 * Suc level) * length xs" by (rule mult_le_mono) auto
  then show ?thesis using assms Cons by (simp add: bracketed_def length_py_join algebra_simps)
qed (use assms in \<open>simp add: bracketed_def\<close>)

lemma dumps_indent_bulk: "length (dumps_indent_at j level) \<le> bulk j level"
proof (induction j arbitrary: level)
  case (JStr s)
  then show ?case using quoted_length [of s] by simp
next
  case (JList xs)
  have "sum_list (map length (map (\<lambda>f. f (Suc level)) (map dumps_indent_at xs)))
      \<le> sum_list (map (\<lambda>f. f (Suc level)) (map bulk xs))"
    using JList by (auto simp: comp_def intro: sum_list_mono_map)
  from bracketed_bulk [OF this, of "''[''" "'']''" level] show ?case by simp
next
  case (JObj members)
  have "length (quoted (fst kv)) + 2 + length (dumps_indent_at (snd kv) (Suc level))
      \<le> 6 * length (fst kv) + 4 + bulk (snd kv) (Suc level)" if "kv \<in> set members" for kv
    using JObj [of kv "snd kv" "Suc level"] quoted_length [of "fst kv"] that by (cases kv) (auto simp: snds.simps)
  then have "sum_list (map length (field_texts '': ''
        (map (map_prod id (\<lambda>f. f (Suc level))) (map (map_prod id dumps_indent_at) members))))
      \<le> sum_list (map (\<lambda>(k, f). 6 * length k + 4 + f (Suc level)) (map (map_prod id bulk) members))"
    by (auto simp: length_field_texts comp_def case_prod_unfold intro!: sum_list_mono_map)
  from bracketed_bulk [OF this, of "''{''" "''}''" level] show ?case by simp
qed auto

text \<open>The two length checks of the stores.\<close>

definition dumps_longer :: "int \<Rightarrow> json \<Rightarrow> bool" where
  "dumps_longer n j \<longleftrightarrow> int (length (dumps j)) > n"

definition indent_longer :: "int \<Rightarrow> json \<Rightarrow> bool" where
  "indent_longer n j \<longleftrightarrow> int (length (dumps_indent j)) > n"

lemma indent_longer_code [code]:
  "indent_longer n j = (if int (bulk j 0) \<le> n then False else int (length (dumps_indent j)) > n)"
  using dumps_indent_bulk [of j 0] by (auto simp: indent_longer_def dumps_indent_def)

lemma dumps_longer_code [code]:
  "dumps_longer n j = (if int (bulk j 0) \<le> n then False else int (length (dumps j)) > n)"
  using dumps_indent_bulk [of j 0] dumps_le_dumps_indent [of j] by (auto simp: dumps_longer_def dumps_indent_def)

lemma length_dumps_obj:
  "members \<noteq> [] \<Longrightarrow> length (dumps_with '', '' '': '' (JObj members)) =
     sum_list (map (\<lambda>(k, v). length (quoted k) + length (dumps_with '', '' '': '' v) + 4) members)"
proof -
  assume "members \<noteq> []"
  moreover have "(\<Sum>x\<leftarrow>members. length (quoted (fst x)) + 2 + length (dumps_with '', '' '': '' (snd x))) + 2 * length members
      = (\<Sum>x\<leftarrow>members. length (quoted (fst x)) + length (dumps_with '', '' '': '' (snd x)) + 4)"
    by (induction members) simp_all
  ultimately show ?thesis
    by (cases members) (simp_all add: length_py_join length_field_texts comp_def case_prod_unfold)
qed

lemma length_dumps_list:
  "length (dumps_with '', '' '': '' (JList xs)) =
     2 + sum_list (map (\<lambda>x. length (dumps_with '', '' '': '' x)) xs) + 2 * (length xs - 1)"
  by (simp add: length_py_join comp_def)

lemma dumps_obj_less_indent:
  assumes "members \<noteq> []"
  shows "length (dumps (JObj members)) < length (dumps_indent (JObj members))"
proof -
  let ?items = "field_texts '': '' (map (map_prod id (\<lambda>f. f (Suc 0))) (map (map_prod id dumps_indent_at) members))"
  let ?items' = "field_texts '': '' (map (map_prod id (dumps_with '', '' '': '')) members)"
  have "sum_list (map length ?items') \<le> sum_list (map length ?items)"
    by (auto simp: length_field_texts comp_def dumps_le_indent intro!: sum_list_mono_map)
  then show ?thesis
    using assms by (simp add: dumps_def dumps_indent_def bracketed_def length_py_join)
qed

end
