(* ===== verification/Active_Change_Approvals.thy ===== *)
theory Active_Change_Approvals
  imports Json_Text
begin

section \<open>Four-eyes approval of active changes\<close>

text \<open>
  Model of \<^verbatim>\<open>backend/app/active_change_approvals.py\<close>: the closed records, the per-organization
  collection, and every operation of the store. The directory is a function from organization
  identifiers to files; a file is missing, unreadable (not a regular file, or not the JSON of the
  pydantic models' shape), or holds the fields of a collection, which \<open>load\<close> validates the way the
  models do. Each operation runs under the storage lock and writes by an atomic rename, so it is a
  function from the directory to a result and a directory. Parameters: \<open>sha256\<close>, the hexadecimal
  digest; \<open>iso_text\<close>, pydantic's text of an instant; \<open>clock\<close>, the value of the clock function (\<open>None\<close> for
  a naive \<^verbatim>\<open>datetime\<close>); \<open>io_ok\<close>, whether the write succeeds.
\<close>

subsection \<open>Data\<close>

datatype change_kind = Registration | Renewal | Revocation

datatype change_status = Pending | Approved | Executing | Consumed | Rejected | Expired | Interrupted

datatype asset_type = DomainAsset | HostAsset | IpAsset | HttpOriginAsset

datatype scope_change = NewRegistration | SameScope | ExpandedScope | ReducedScope | RevocationScope

datatype reason_code = AuthorizationWithdrawn | AssetRetired | ScopeChanged | SecurityHold

datatype approval_error =
  InvalidScope | MaintainerRequired | AdministratorRequired | InvalidRequest | InvalidClock
  | CapacityReached | ApprovalNotFound | ApprovalStateChanged | SameActor | ApprovalNotReady
  | RequesterRequired | ApprovalMismatch | ApprovalNotExecuting | InvalidStore | ApprovalStoreUnavailable
  | ModelValidationError

record change_summary =
  cs_asset_type :: asset_type
  cs_review_target :: "string option"
  cs_scope_change :: scope_change
  cs_capabilities :: "string list"
  cs_allowed_ports :: "int list"
  cs_allowed_protocols :: "string list"
  cs_authorization_expires_at :: "instant option"
  cs_reason_code :: "reason_code option"

record approval =
  ap_id :: string
  ap_organization_id :: string
  ap_asset_id :: "string option"
  ap_kind :: change_kind
  ap_status :: change_status
  ap_operation_digest :: string
  ap_requester_digest :: string
  ap_requester_role :: string
  ap_approver_digest :: "string option"
  ap_requested_at :: instant
  ap_expires_at :: instant
  ap_decided_at :: "instant option"
  ap_consumed_at :: "instant option"
  ap_summary :: change_summary

record approval_collection =
  ac_organization_id :: string
  ac_revision :: nat
  ac_records :: "approval list"

datatype approval_file = MissingFile | UnreadableFile | StoredFile approval_collection

type_synonym approval_store = "string \<Rightarrow> approval_file"
type_synonym 'a approval_result = "(approval_error + 'a) \<times> approval_store"

definition max_records :: nat where "max_records = 500"
definition max_bytes :: int where "max_bytes = 2 * 1024 * 1024"
definition approval_ttl :: int where "approval_ttl = 24 * 3600 * 1000000"
definition terminal_retention :: int where "terminal_retention = 90 * 24 * 3600 * 1000000"

subsection \<open>Validation by the models\<close>

definition summary_valid :: "change_summary \<Rightarrow> bool" where
  "summary_valid s \<longleftrightarrow>
     (case cs_review_target s of None \<Rightarrow> True | Some t \<Rightarrow> length t \<le> 253) \<and>
     length (cs_capabilities s) \<le> 10 \<and> length (cs_allowed_ports s) \<le> 64 \<and> length (cs_allowed_protocols s) \<le> 5"

definition is_digest :: "string \<Rightarrow> bool" where
  "is_digest s \<longleftrightarrow> is_hex_id 64 s"

definition optional :: "('a \<Rightarrow> bool) \<Rightarrow> 'a option \<Rightarrow> bool" where
  "optional P x \<longleftrightarrow> (case x of None \<Rightarrow> True | Some v \<Rightarrow> P v)"

definition actionable :: "change_status \<Rightarrow> bool" where
  "actionable s \<longleftrightarrow> s \<in> {Pending, Approved, Executing}"

definition terminal :: "change_status \<Rightarrow> bool" where
  "terminal s \<longleftrightarrow> s \<in> {Consumed, Rejected, Expired, Interrupted}"

definition lifecycle_valid :: "approval \<Rightarrow> bool" where
  "lifecycle_valid r \<longleftrightarrow>
     ap_expires_at r > ap_requested_at r \<and>
     \<not> (ap_kind r = Registration \<and> ap_asset_id r \<noteq> None) \<and>
     \<not> (ap_kind r \<noteq> Registration \<and> ap_asset_id r = None) \<and>
     \<not> (actionable (ap_status r) \<and> ap_kind r = Registration \<and> cs_review_target (ap_summary r) \<in> {None, Some []}) \<and>
     \<not> (terminal (ap_status r) \<and> cs_review_target (ap_summary r) \<noteq> None)"

definition record_valid :: "approval \<Rightarrow> bool" where
  "record_valid r \<longleftrightarrow>
     is_hex_id 32 (ap_id r) \<and> is_organization_id (ap_organization_id r) \<and>
     optional (is_hex_id 32) (ap_asset_id r) \<and> is_digest (ap_operation_digest r) \<and>
     is_digest (ap_requester_digest r) \<and> ap_requester_role r \<in> {''administrator'', ''maintainer''} \<and>
     optional is_digest (ap_approver_digest r) \<and> lifecycle_valid r"

definition collection_valid :: "approval_collection \<Rightarrow> bool" where
  "collection_valid c \<longleftrightarrow>
     is_organization_id (ac_organization_id c) \<and> length (ac_records c) \<le> max_records \<and>
     list_all (\<lambda>r. record_valid r \<and> summary_valid (ap_summary r)) (ac_records c) \<and>
     distinct (map ap_id (ac_records c)) \<and>
     list_all (\<lambda>r. ap_organization_id r = ac_organization_id c) (ac_records c)"

subsection \<open>The stored JSON\<close>

fun kind_text :: "change_kind \<Rightarrow> string" where
  "kind_text Registration = ''registration''"
| "kind_text Renewal = ''renewal''"
| "kind_text Revocation = ''revocation''"

fun status_text :: "change_status \<Rightarrow> string" where
  "status_text Pending = ''pending''"
| "status_text Approved = ''approved''"
| "status_text Executing = ''executing''"
| "status_text Consumed = ''consumed''"
| "status_text Rejected = ''rejected''"
| "status_text Expired = ''expired''"
| "status_text Interrupted = ''interrupted''"

fun asset_type_text :: "asset_type \<Rightarrow> string" where
  "asset_type_text DomainAsset = ''domain''"
| "asset_type_text HostAsset = ''host''"
| "asset_type_text IpAsset = ''ip''"
| "asset_type_text HttpOriginAsset = ''http_origin''"

fun scope_change_text :: "scope_change \<Rightarrow> string" where
  "scope_change_text NewRegistration = ''new_registration''"
| "scope_change_text SameScope = ''same_scope''"
| "scope_change_text ExpandedScope = ''expanded_scope''"
| "scope_change_text ReducedScope = ''reduced_scope''"
| "scope_change_text RevocationScope = ''revocation''"

fun reason_code_text :: "reason_code \<Rightarrow> string" where
  "reason_code_text AuthorizationWithdrawn = ''authorization_withdrawn''"
| "reason_code_text AssetRetired = ''asset_retired''"
| "reason_code_text ScopeChanged = ''scope_changed''"
| "reason_code_text SecurityHold = ''security_hold''"

definition opt_json :: "('a \<Rightarrow> json) \<Rightarrow> 'a option \<Rightarrow> json" where
  "opt_json f x = (case x of None \<Rightarrow> JNull | Some v \<Rightarrow> f v)"

definition contract_version :: string where
  "contract_version = ''2026-09-10.1''"

definition summary_json :: "(instant \<Rightarrow> string) \<Rightarrow> change_summary \<Rightarrow> json" where
  "summary_json iso_text s = JObj
     [(''asset_type'', JStr (asset_type_text (cs_asset_type s))),
      (''review_target'', opt_json JStr (cs_review_target s)),
      (''scope_change'', JStr (scope_change_text (cs_scope_change s))),
      (''capabilities'', JList (map JStr (cs_capabilities s))),
      (''allowed_ports'', JList (map JInt (cs_allowed_ports s))),
      (''allowed_protocols'', JList (map JStr (cs_allowed_protocols s))),
      (''authorization_expires_at'', opt_json (\<lambda>t. JStr (iso_text t)) (cs_authorization_expires_at s)),
      (''reason_code'', opt_json (\<lambda>c. JStr (reason_code_text c)) (cs_reason_code s))]"

definition approval_json :: "(instant \<Rightarrow> string) \<Rightarrow> approval \<Rightarrow> json" where
  "approval_json iso_text r = JObj
     [(''contract_version'', JStr contract_version), (''id'', JStr (ap_id r)),
      (''organization_id'', JStr (ap_organization_id r)), (''asset_id'', opt_json JStr (ap_asset_id r)),
      (''kind'', JStr (kind_text (ap_kind r))), (''status'', JStr (status_text (ap_status r))),
      (''operation_digest_sha256'', JStr (ap_operation_digest r)),
      (''requester_digest_sha256'', JStr (ap_requester_digest r)),
      (''requester_role'', JStr (ap_requester_role r)),
      (''approver_digest_sha256'', opt_json JStr (ap_approver_digest r)),
      (''requested_at'', JStr (iso_text (ap_requested_at r))), (''expires_at'', JStr (iso_text (ap_expires_at r))),
      (''decided_at'', opt_json (\<lambda>t. JStr (iso_text t)) (ap_decided_at r)),
      (''consumed_at'', opt_json (\<lambda>t. JStr (iso_text t)) (ap_consumed_at r)),
      (''summary'', summary_json iso_text (ap_summary r))]"

definition collection_json :: "(instant \<Rightarrow> string) \<Rightarrow> approval_collection \<Rightarrow> json" where
  "collection_json iso_text c = JObj
     [(''schema_version'', JInt 1), (''organization_id'', JStr (ac_organization_id c)),
      (''revision'', JInt (int (ac_revision c))), (''records'', JList (map (approval_json iso_text) (ac_records c)))]"

subsection \<open>Loading and saving\<close>

definition load :: "(instant \<Rightarrow> string) \<Rightarrow> string \<Rightarrow> approval_store \<Rightarrow> approval_error + approval_collection" where
  "load iso_text organization_id store =
     (case store organization_id of
        MissingFile \<Rightarrow>
          if is_organization_id organization_id
          then Inr \<lparr>ac_organization_id = organization_id, ac_revision = 0, ac_records = []\<rparr>
          else Inl ModelValidationError
      | UnreadableFile \<Rightarrow> Inl InvalidStore
      | StoredFile c \<Rightarrow>
          if indent_longer max_bytes (collection_json iso_text c) \<or> \<not> collection_valid c then Inl InvalidStore
          else if ac_organization_id c \<noteq> organization_id then Inl InvalidStore
          else Inr c)"

definition save ::
  "(instant \<Rightarrow> string) \<Rightarrow> bool \<Rightarrow> approval_collection \<Rightarrow> approval_store \<Rightarrow> (approval_error + unit) \<times> approval_store" where
  "save iso_text io_ok c store =
     (if dumps_longer max_bytes (collection_json iso_text c) then (Inl CapacityReached, store)
      else if \<not> io_ok then (Inl ApprovalStoreUnavailable, store)
      else (Inr (), store(ac_organization_id c := StoredFile c)))"

text \<open>Writing a collection and then returning a value.\<close>

definition save_then ::
  "(instant \<Rightarrow> string) \<Rightarrow> bool \<Rightarrow> approval_collection \<Rightarrow> 'a \<Rightarrow> approval_store \<Rightarrow> 'a approval_result" where
  "save_then iso_text io_ok c x store =
     (case save iso_text io_ok c store of (r, store') \<Rightarrow> (bind_res r (\<lambda>_. Inr x), store'))"

subsection \<open>Normalization\<close>

definition scrub_summary :: "change_summary \<Rightarrow> change_summary" where
  "scrub_summary s = s\<lparr>cs_review_target := None\<rparr>"

definition actor_digest :: "(string \<Rightarrow> string) \<Rightarrow> string \<Rightarrow> string \<Rightarrow> string" where
  "actor_digest sha256 organization_id actor_id =
     sha256 (''inspectra-active-approver-v1'' @ [CHR 0x00] @ organization_id @ [CHR 0x00] @ actor_id)"

definition expire_record :: "instant \<Rightarrow> approval \<Rightarrow> approval" where
  "expire_record now r =
     (if ap_status r \<in> {Pending, Approved} \<and> ap_expires_at r \<le> now
      then r\<lparr>ap_status := Expired, ap_decided_at := Some now, ap_summary := scrub_summary (ap_summary r)\<rparr>
      else r)"

definition normalize_expired :: "approval_collection \<Rightarrow> instant \<Rightarrow> approval_collection" where
  "normalize_expired c now =
     (let records = map (expire_record now) (ac_records c) in
      if records = ac_records c then c else c\<lparr>ac_revision := ac_revision c + 1, ac_records := records\<rparr>)"

definition last_change :: "approval \<Rightarrow> instant" where
  "last_change r =
     (case ap_consumed_at r of Some t \<Rightarrow> t
      | None \<Rightarrow> (case ap_decided_at r of Some t \<Rightarrow> t | None \<Rightarrow> ap_requested_at r))"

definition stale :: "instant \<Rightarrow> approval \<Rightarrow> bool" where
  "stale cutoff r \<longleftrightarrow> terminal (ap_status r) \<and> last_change r < cutoff"

definition normalize :: "approval_collection \<Rightarrow> instant \<Rightarrow> approval_collection" where
  "normalize c now =
     (let normalized = normalize_expired c now;
          records = filter (\<lambda>r. \<not> stale (now - terminal_retention) r) (ac_records normalized) in
      if records = ac_records normalized then normalized
      else normalized\<lparr>ac_revision := ac_revision normalized + 1, ac_records := records\<rparr>)"

definition find_record :: "approval_collection \<Rightarrow> string \<Rightarrow> approval_error + approval" where
  "find_record c approval_id =
     (case find (\<lambda>r. ap_id r = approval_id) (ac_records c) of None \<Rightarrow> Inl ApprovalNotFound | Some r \<Rightarrow> Inr r)"

definition replace_record :: "approval_collection \<Rightarrow> approval \<Rightarrow> approval_collection" where
  "replace_record c updated =
     c\<lparr>ac_revision := ac_revision c + 1,
       ac_records := map (\<lambda>r. if ap_id r = ap_id updated then updated else r) (ac_records c)\<rparr>"

definition replace_and_save ::
  "(instant \<Rightarrow> string) \<Rightarrow> bool \<Rightarrow> approval_collection \<Rightarrow> approval \<Rightarrow> approval_store \<Rightarrow> approval approval_result" where
  "replace_and_save iso_text io_ok c updated store = save_then iso_text io_ok (replace_record c updated) updated store"

subsection \<open>Operations\<close>

text \<open>Going on with the value of a call that may have raised.\<close>

definition proceed :: "approval_error + 'a \<Rightarrow> approval_store \<Rightarrow> ('a \<Rightarrow> 'b approval_result) \<Rightarrow> 'b approval_result" where
  "proceed r store f = (case r of Inl e \<Rightarrow> (Inl e, store) | Inr x \<Rightarrow> f x)"

definition read_clock :: "instant option \<Rightarrow> approval_error + instant" where
  "read_clock clock = (case clock of None \<Rightarrow> Inl InvalidClock | Some now \<Rightarrow> Inr now)"

definition validate_organization :: "string \<Rightarrow> approval_error + unit" where
  "validate_organization organization_id = (if is_organization_id organization_id then Inr () else Inl InvalidScope)"

definition validate_approval_id :: "string \<Rightarrow> approval_error + unit" where
  "validate_approval_id approval_id = (if is_hex_id 32 approval_id then Inr () else Inl ApprovalNotFound)"

definition validate_scope :: "string \<Rightarrow> string \<Rightarrow> string \<Rightarrow> approval_error + unit" where
  "validate_scope organization_id actor_id actor_role =
     bind_res (validate_organization organization_id) (\<lambda>_.
       if \<not> is_actor_id actor_id then Inl InvalidScope
       else if actor_role \<notin> {''administrator'', ''maintainer''} then Inl MaintainerRequired
       else Inr ())"

text \<open>The collection that most operations start from: loaded and normalized.\<close>

definition current_collection ::
  "(instant \<Rightarrow> string) \<Rightarrow> string \<Rightarrow> instant \<Rightarrow> approval_store \<Rightarrow> approval_error + approval_collection" where
  "current_collection iso_text organization_id now store =
     bind_res (load iso_text organization_id store) (\<lambda>c. Inr (normalize c now))"

definition new_approval ::
  "string \<Rightarrow> string \<Rightarrow> string option \<Rightarrow> change_kind \<Rightarrow> string \<Rightarrow> string \<Rightarrow> string \<Rightarrow> instant \<Rightarrow> change_summary \<Rightarrow> approval" where
  "new_approval new_id organization_id asset_id kind operation_digest requester actor_role now summary =
     \<lparr>ap_id = new_id, ap_organization_id = organization_id, ap_asset_id = asset_id, ap_kind = kind,
      ap_status = Pending, ap_operation_digest = operation_digest, ap_requester_digest = requester,
      ap_requester_role = actor_role, ap_approver_digest = None, ap_requested_at = now,
      ap_expires_at = now + approval_ttl, ap_decided_at = None, ap_consumed_at = None, ap_summary = summary\<rparr>"

definition approval_request ::
  "(string \<Rightarrow> string) \<Rightarrow> (instant \<Rightarrow> string) \<Rightarrow> bool \<Rightarrow> instant option \<Rightarrow> string \<Rightarrow> string \<Rightarrow> string \<Rightarrow> string
     \<Rightarrow> change_kind \<Rightarrow> string option \<Rightarrow> string \<Rightarrow> change_summary \<Rightarrow> approval_store \<Rightarrow> approval approval_result" where
  "approval_request sha256 iso_text io_ok clock new_id organization_id actor_id actor_role kind asset_id
       operation_digest summary store =
     proceed (validate_scope organization_id actor_id actor_role) store (\<lambda>_.
       if \<not> is_digest operation_digest then (Inl InvalidRequest, store)
       else proceed (read_clock clock) store (\<lambda>now.
         let requester = actor_digest sha256 organization_id actor_id in
         proceed (current_collection iso_text organization_id now store) store (\<lambda>c.
           case find (\<lambda>r. ap_operation_digest r = operation_digest \<and> ap_requester_digest r = requester
                          \<and> actionable (ap_status r)) (ac_records c) of
             Some existing \<Rightarrow> (Inr existing, store)
           | None \<Rightarrow>
               if length (ac_records c) \<ge> max_records then (Inl CapacityReached, store)
               else (let r = new_approval new_id organization_id asset_id kind operation_digest requester
                               actor_role now summary in
                     if \<not> record_valid r then (Inl ModelValidationError, store)
                     else save_then iso_text io_ok
                            (c\<lparr>ac_revision := ac_revision c + 1, ac_records := ac_records c @ [r]\<rparr>) r store))))"

definition approval_list ::
  "(instant \<Rightarrow> string) \<Rightarrow> bool \<Rightarrow> instant option \<Rightarrow> string \<Rightarrow> approval_store \<Rightarrow> approval list approval_result" where
  "approval_list iso_text io_ok clock organization_id store =
     proceed (validate_organization organization_id) store (\<lambda>_.
       proceed (read_clock clock) store (\<lambda>now.
         proceed (load iso_text organization_id store) store (\<lambda>c.
           let normalized = normalize c now;
               listing = rev (sort_key (\<lambda>r. (ap_requested_at r, ap_id r)) (rev (ac_records normalized))) in
           if normalized \<noteq> c then save_then iso_text io_ok normalized listing store else (Inr listing, store))))"

definition decide ::
  "(string \<Rightarrow> string) \<Rightarrow> (instant \<Rightarrow> string) \<Rightarrow> bool \<Rightarrow> instant option \<Rightarrow> string \<Rightarrow> string \<Rightarrow> string \<Rightarrow> bool
     \<Rightarrow> approval_store \<Rightarrow> approval approval_result" where
  "decide sha256 iso_text io_ok clock organization_id approval_id actor_id approved store =
     proceed (validate_organization organization_id) store (\<lambda>_.
       proceed (validate_approval_id approval_id) store (\<lambda>_.
         proceed (read_clock clock) store (\<lambda>now.
           let actor = actor_digest sha256 organization_id actor_id in
           proceed (current_collection iso_text organization_id now store) store (\<lambda>c.
             proceed (find_record c approval_id) store (\<lambda>r.
               if ap_status r \<noteq> Pending then (Inl ApprovalStateChanged, store)
               else if ap_requester_digest r = actor then (Inl SameActor, store)
               else replace_and_save iso_text io_ok c
                 (r\<lparr>ap_status := if approved then Approved else Rejected,
                    ap_approver_digest := Some actor, ap_decided_at := Some now,
                    ap_summary := if approved then ap_summary r else scrub_summary (ap_summary r)\<rparr>) store)))))"

definition approve ::
  "(string \<Rightarrow> string) \<Rightarrow> (instant \<Rightarrow> string) \<Rightarrow> bool \<Rightarrow> instant option \<Rightarrow> string \<Rightarrow> string \<Rightarrow> string \<Rightarrow> string
     \<Rightarrow> approval_store \<Rightarrow> approval approval_result" where
  "approve sha256 iso_text io_ok clock organization_id approval_id actor_id actor_role store =
     (if actor_role \<noteq> ''administrator'' then (Inl AdministratorRequired, store)
      else decide sha256 iso_text io_ok clock organization_id approval_id actor_id True store)"

definition reject ::
  "(string \<Rightarrow> string) \<Rightarrow> (instant \<Rightarrow> string) \<Rightarrow> bool \<Rightarrow> instant option \<Rightarrow> string \<Rightarrow> string \<Rightarrow> string \<Rightarrow> string
     \<Rightarrow> approval_store \<Rightarrow> approval approval_result" where
  "reject sha256 iso_text io_ok clock organization_id approval_id actor_id actor_role store =
     (if actor_role \<noteq> ''administrator'' then (Inl AdministratorRequired, store)
      else decide sha256 iso_text io_ok clock organization_id approval_id actor_id False store)"

definition claim ::
  "(string \<Rightarrow> string) \<Rightarrow> (instant \<Rightarrow> string) \<Rightarrow> bool \<Rightarrow> instant option \<Rightarrow> string \<Rightarrow> string \<Rightarrow> string \<Rightarrow> change_kind
     \<Rightarrow> string option \<Rightarrow> string \<Rightarrow> approval_store \<Rightarrow> approval approval_result" where
  "claim sha256 iso_text io_ok clock organization_id approval_id actor_id kind asset_id operation_digest store =
     proceed (validate_organization organization_id) store (\<lambda>_.
       proceed (validate_approval_id approval_id) store (\<lambda>_.
         proceed (read_clock clock) store (\<lambda>now.
           let actor = actor_digest sha256 organization_id actor_id in
           proceed (current_collection iso_text organization_id now store) store (\<lambda>c.
             proceed (find_record c approval_id) store (\<lambda>r.
               if ap_status r \<noteq> Approved then (Inl ApprovalNotReady, store)
               else if ap_requester_digest r \<noteq> actor then (Inl RequesterRequired, store)
               else if ap_kind r \<noteq> kind \<or> ap_asset_id r \<noteq> asset_id \<or> \<not> is_digest operation_digest
                       \<or> ap_operation_digest r \<noteq> operation_digest
               then (Inl ApprovalMismatch, store)
               else replace_and_save iso_text io_ok c (r\<lparr>ap_status := Executing\<rparr>) store)))))"

definition claim_matching ::
  "(string \<Rightarrow> string) \<Rightarrow> (instant \<Rightarrow> string) \<Rightarrow> bool \<Rightarrow> instant option \<Rightarrow> string \<Rightarrow> string \<Rightarrow> change_kind
     \<Rightarrow> string option \<Rightarrow> string \<Rightarrow> approval_store \<Rightarrow> approval approval_result" where
  "claim_matching sha256 iso_text io_ok clock organization_id actor_id kind asset_id operation_digest store =
     proceed (validate_organization organization_id) store (\<lambda>_.
       proceed (read_clock clock) store (\<lambda>now.
         let actor = actor_digest sha256 organization_id actor_id in
         proceed (current_collection iso_text organization_id now store) store (\<lambda>c.
           case filter (\<lambda>r. ap_status r = Approved \<and> ap_requester_digest r = actor \<and> ap_kind r = kind
                            \<and> ap_asset_id r = asset_id \<and> ap_operation_digest r = operation_digest) (ac_records c) of
             [r] \<Rightarrow> replace_and_save iso_text io_ok c (r\<lparr>ap_status := Executing\<rparr>) store
           | _ \<Rightarrow> (Inl ApprovalNotReady, store))))"

definition finish ::
  "(instant \<Rightarrow> string) \<Rightarrow> bool \<Rightarrow> instant option \<Rightarrow> string \<Rightarrow> string \<Rightarrow> bool \<Rightarrow> approval_store \<Rightarrow> approval approval_result" where
  "finish iso_text io_ok clock organization_id approval_id succeeded store =
     proceed (read_clock clock) store (\<lambda>now.
       proceed (load iso_text organization_id store) store (\<lambda>c.
         proceed (find_record c approval_id) store (\<lambda>r.
           if ap_status r \<noteq> Executing then (Inl ApprovalNotExecuting, store)
           else replace_and_save iso_text io_ok c
             (r\<lparr>ap_status := if succeeded then Consumed else Approved,
                ap_consumed_at := if succeeded then Some now else None,
                ap_summary := if succeeded then scrub_summary (ap_summary r) else ap_summary r\<rparr>) store)))"

definition interrupt_record :: "instant \<Rightarrow> approval \<Rightarrow> approval" where
  "interrupt_record now r =
     (if ap_status r = Executing
      then r\<lparr>ap_status := Interrupted, ap_decided_at := Some now, ap_summary := scrub_summary (ap_summary r)\<rparr>
      else r)"

definition recovered_collection :: "instant \<Rightarrow> approval_collection \<Rightarrow> approval_collection" where
  "recovered_collection now c =
     (let count = length (filter (\<lambda>r. ap_status r = Executing) (ac_records c)) in
      normalize (c\<lparr>ac_revision := ac_revision c + (if count \<noteq> 0 then 1 else 0),
                   ac_records := map (interrupt_record now) (ac_records c)\<rparr>) now)"

text \<open>
  The loop of \<^verbatim>\<open>recover_interrupted\<close> over the stems of the directory's JSON files, in the order the
  directory lists them; an exception leaves the files before it rewritten.
\<close>

fun recover_files ::
  "(instant \<Rightarrow> string) \<Rightarrow> bool \<Rightarrow> instant \<Rightarrow> string list \<Rightarrow> nat \<Rightarrow> approval_store \<Rightarrow> nat approval_result" where
  "recover_files iso_text io_ok now [] recovered store = (Inr recovered, store)"
| "recover_files iso_text io_ok now (stem # stems) recovered store =
     (if \<not> is_organization_id stem then recover_files iso_text io_ok now stems recovered store
      else (case load iso_text stem store of
              Inl e \<Rightarrow> (Inl e, store)
            | Inr c \<Rightarrow>
                let normalized = recovered_collection now c in
                if normalized \<noteq> c
                then (case save iso_text io_ok normalized store of
                        (Inl e, store') \<Rightarrow> (Inl e, store')
                      | (Inr _, store') \<Rightarrow> recover_files iso_text io_ok now stems
                          (recovered + length (filter (\<lambda>r. ap_status r = Executing) (ac_records c))) store')
                else recover_files iso_text io_ok now stems recovered store))"

definition recover_interrupted ::
  "(instant \<Rightarrow> string) \<Rightarrow> bool \<Rightarrow> instant option \<Rightarrow> string list \<Rightarrow> approval_store \<Rightarrow> nat approval_result" where
  "recover_interrupted iso_text io_ok clock stems store =
     proceed (read_clock clock) store (\<lambda>now. recover_files iso_text io_ok now stems 0 store)"

definition count_for_asset_unlocked ::
  "(instant \<Rightarrow> string) \<Rightarrow> string \<Rightarrow> string \<Rightarrow> approval_store \<Rightarrow> approval_error + nat" where
  "count_for_asset_unlocked iso_text organization_id asset_id store =
     bind_res (validate_organization organization_id) (\<lambda>_.
       bind_res (validate_approval_id asset_id) (\<lambda>_.
         bind_res (load iso_text organization_id store) (\<lambda>c.
           Inr (length (filter (\<lambda>r. ap_asset_id r = Some asset_id) (ac_records c))))))"

definition remove_asset ::
  "(instant \<Rightarrow> string) \<Rightarrow> bool \<Rightarrow> string \<Rightarrow> string \<Rightarrow> approval_store \<Rightarrow> nat approval_result" where
  "remove_asset iso_text io_ok organization_id asset_id store =
     proceed (validate_organization organization_id) store (\<lambda>_.
       proceed (validate_approval_id asset_id) store (\<lambda>_.
         proceed (load iso_text organization_id store) store (\<lambda>c.
           let records = filter (\<lambda>r. ap_asset_id r \<noteq> Some asset_id) (ac_records c);
               removed = length (ac_records c) - length records in
           if removed \<noteq> 0
           then save_then iso_text io_ok (c\<lparr>ac_revision := ac_revision c + 1, ac_records := records\<rparr>) removed store
           else (Inr removed, store))))"

text \<open>\<open>cutoff\<close> is \<open>None\<close> when the caller passes a naive \<^verbatim>\<open>datetime\<close>.\<close>

definition purge_terminal ::
  "(instant \<Rightarrow> string) \<Rightarrow> bool \<Rightarrow> instant option \<Rightarrow> string \<Rightarrow> instant option \<Rightarrow> approval_store \<Rightarrow> nat approval_result" where
  "purge_terminal iso_text io_ok clock organization_id cutoff store =
     proceed (validate_organization organization_id) store (\<lambda>_.
       proceed (read_clock cutoff) store (\<lambda>cutoff.
         proceed (load iso_text organization_id store) store (\<lambda>c.
           proceed (read_clock clock) store (\<lambda>now.
             let normalized = normalize_expired c now;
                 records = filter (\<lambda>r. \<not> stale cutoff r) (ac_records normalized);
                 removed = length (ac_records normalized) - length records in
             if removed \<noteq> 0 \<or> normalized \<noteq> c
             then save_then iso_text io_ok
                    (normalized\<lparr>ac_revision := ac_revision normalized + (if removed \<noteq> 0 then 1 else 0),
                                ac_records := records\<rparr>) removed store
             else (Inr removed, store)))))"

record approval_view =
  av_id :: string
  av_asset_id :: "string option"
  av_kind :: change_kind
  av_status :: change_status
  av_operation_digest_prefix :: string
  av_requested_at :: instant
  av_expires_at :: instant
  av_decided_at :: "instant option"
  av_consumed_at :: "instant option"
  av_requested_by_current_user :: bool
  av_can_approve :: bool
  av_can_apply :: bool
  av_summary :: change_summary

definition view_approval ::
  "(string \<Rightarrow> string) \<Rightarrow> approval \<Rightarrow> string \<Rightarrow> string \<Rightarrow> string \<Rightarrow> approval_error + approval_view" where
  "view_approval sha256 r organization_id actor_id actor_role =
     (if ap_organization_id r \<noteq> organization_id then Inl ApprovalNotFound
      else (let own = (ap_requester_digest r = actor_digest sha256 organization_id actor_id) in
        Inr \<lparr>av_id = ap_id r, av_asset_id = ap_asset_id r, av_kind = ap_kind r, av_status = ap_status r,
             av_operation_digest_prefix = take 12 (ap_operation_digest r), av_requested_at = ap_requested_at r,
             av_expires_at = ap_expires_at r, av_decided_at = ap_decided_at r, av_consumed_at = ap_consumed_at r,
             av_requested_by_current_user = own,
             av_can_approve = (ap_status r = Pending \<and> actor_role = ''administrator'' \<and> \<not> own),
             av_can_apply = (ap_status r = Approved \<and> own), av_summary = ap_summary r\<rparr>))"

text \<open>\<open>raw\<close> is the dumped payload, an association list with distinct keys.\<close>

fun review_fields :: "change_kind \<Rightarrow> string list" where
  "review_fields Registration = [''asset_type'', ''value'', ''capabilities'', ''allowed_ports'',
     ''allowed_protocols'', ''authorization_method'', ''expires_at'']"
| "review_fields Renewal = [''expected_revision_id'', ''capabilities'', ''allowed_ports'',
     ''allowed_protocols'', ''authorization_method'', ''expires_at'', ''scope_expansion_confirmed'']"
| "review_fields Revocation = [''reason_code'']"

definition active_change_operation_digest ::
  "(string \<Rightarrow> string) \<Rightarrow> string \<Rightarrow> change_kind \<Rightarrow> string option \<Rightarrow> (string \<times> json) list \<Rightarrow> string" where
  "active_change_operation_digest sha256 organization_id kind asset_id raw =
     (let contract = List.map_filter (\<lambda>key. map_option (\<lambda>v. (key, v)) (map_of raw key)) (review_fields kind);
          asset = (case asset_id of None \<Rightarrow> ''new'' | Some a \<Rightarrow> if a = [] then ''new'' else a) in
      sha256 (contract_version @ [CHR 0x00] @ organization_id @ [CHR 0x00] @ kind_text kind @ [CHR 0x00] @ asset
              @ [CHR 0x00] @ dumps_compact (JObj contract)))"

subsection \<open>Runs\<close>

datatype approval_op =
  ApRequest bool "instant option" string string string string change_kind "string option" string change_summary
  | ApList bool "instant option" string
  | ApApprove bool "instant option" string string string string
  | ApReject bool "instant option" string string string string
  | ApClaim bool "instant option" string string string change_kind "string option" string
  | ApClaimMatching bool "instant option" string string change_kind "string option" string
  | ApFinish bool "instant option" string string bool
  | ApRecover bool "instant option" "string list"
  | ApRemoveAsset bool string string
  | ApPurge bool "instant option" string "instant option"

fun approval_exec ::
  "(string \<Rightarrow> string) \<Rightarrow> (instant \<Rightarrow> string) \<Rightarrow> approval_op \<Rightarrow> approval_store \<Rightarrow> approval_store" where
  "approval_exec sha256 iso_text (ApRequest io clock new_id org actor role kind asset digest summary) store =
     snd (approval_request sha256 iso_text io clock new_id org actor role kind asset digest summary store)"
| "approval_exec sha256 iso_text (ApList io clock org) store = snd (approval_list iso_text io clock org store)"
| "approval_exec sha256 iso_text (ApApprove io clock org approval_id actor role) store =
     snd (approve sha256 iso_text io clock org approval_id actor role store)"
| "approval_exec sha256 iso_text (ApReject io clock org approval_id actor role) store =
     snd (reject sha256 iso_text io clock org approval_id actor role store)"
| "approval_exec sha256 iso_text (ApClaim io clock org approval_id actor kind asset digest) store =
     snd (claim sha256 iso_text io clock org approval_id actor kind asset digest store)"
| "approval_exec sha256 iso_text (ApClaimMatching io clock org actor kind asset digest) store =
     snd (claim_matching sha256 iso_text io clock org actor kind asset digest store)"
| "approval_exec sha256 iso_text (ApFinish io clock org approval_id succeeded) store =
     snd (finish iso_text io clock org approval_id succeeded store)"
| "approval_exec sha256 iso_text (ApRecover io clock stems) store = snd (recover_interrupted iso_text io clock stems store)"
| "approval_exec sha256 iso_text (ApRemoveAsset io org asset) store = snd (remove_asset iso_text io org asset store)"
| "approval_exec sha256 iso_text (ApPurge io clock org cutoff) store = snd (purge_terminal iso_text io clock org cutoff store)"

fun approval_run ::
  "(string \<Rightarrow> string) \<Rightarrow> (instant \<Rightarrow> string) \<Rightarrow> approval_op list \<Rightarrow> approval_store \<Rightarrow> approval_store" where
  "approval_run sha256 iso_text [] store = store"
| "approval_run sha256 iso_text (op # ops) store = approval_run sha256 iso_text ops (approval_exec sha256 iso_text op store)"

subsection \<open>Elementary changes\<close>

text \<open>
  Every call is a sequence of elementary changes of one file. \<open>G\<close> holds the decisions that
  administrators may take (organization, approval identifier, actor digest, approved or not), \<open>N\<close> the
  requests that may be added (organization, identifier, summary), and \<open>U\<close> says whether the
  identifiers of new requests are known to be unused.
\<close>

type_synonym grant_set = "(string \<times> string \<times> string \<times> bool) set"
type_synonym add_set = "(string \<times> string \<times> change_summary) set"

inductive change :: "grant_set \<Rightarrow> approval \<Rightarrow> approval \<Rightarrow> bool" for G where
  expired: "ap_status r \<in> {Pending, Approved} \<Longrightarrow>
    change G r (r\<lparr>ap_status := Expired, ap_decided_at := Some now, ap_summary := scrub_summary (ap_summary r)\<rparr>)"
| approved: "ap_status r = Pending \<Longrightarrow> ap_requester_digest r \<noteq> a \<Longrightarrow> (ap_organization_id r, ap_id r, a, True) \<in> G \<Longrightarrow>
    change G r (r\<lparr>ap_status := Approved, ap_approver_digest := Some a, ap_decided_at := Some now\<rparr>)"
| rejected: "ap_status r = Pending \<Longrightarrow> (ap_organization_id r, ap_id r, a, False) \<in> G \<Longrightarrow>
    change G r (r\<lparr>ap_status := Rejected, ap_approver_digest := Some a, ap_decided_at := Some now,
                  ap_summary := scrub_summary (ap_summary r)\<rparr>)"
| claimed: "ap_status r = Approved \<Longrightarrow> change G r (r\<lparr>ap_status := Executing\<rparr>)"
| consumed: "ap_status r = Executing \<Longrightarrow>
    change G r (r\<lparr>ap_status := Consumed, ap_consumed_at := Some now, ap_summary := scrub_summary (ap_summary r)\<rparr>)"
| released: "ap_status r = Executing \<Longrightarrow>
    change G r (r\<lparr>ap_status := Approved, ap_consumed_at := None\<rparr>)"
| interrupted: "ap_status r = Executing \<Longrightarrow>
    change G r (r\<lparr>ap_status := Interrupted, ap_decided_at := Some now, ap_summary := scrub_summary (ap_summary r)\<rparr>)"

definition fresh_pending :: "string \<Rightarrow> approval \<Rightarrow> bool" where
  "fresh_pending organization_id r \<longleftrightarrow>
     ap_organization_id r = organization_id \<and> ap_status r = Pending \<and> ap_approver_digest r = None \<and> record_valid r"

inductive records_step ::
  "grant_set \<Rightarrow> add_set \<Rightarrow> bool \<Rightarrow> string \<Rightarrow> approval list \<Rightarrow> approval list \<Rightarrow> bool" for G N U org where
  update: "\<forall>r \<in> set rs. f r = r \<or> change G r (f r) \<Longrightarrow> records_step G N U org rs (map f rs)"
| remove: "records_step G N U org rs (filter P rs)"
| add: "fresh_pending org r \<Longrightarrow> (org, ap_id r, ap_summary r) \<in> N \<Longrightarrow> length rs < max_records \<Longrightarrow>
    (U \<Longrightarrow> ap_id r \<notin> ap_id ` set rs) \<Longrightarrow> records_step G N U org rs (rs @ [r])"

inductive store_step ::
  "(instant \<Rightarrow> string) \<Rightarrow> grant_set \<Rightarrow> add_set \<Rightarrow> bool \<Rightarrow> approval_store \<Rightarrow> approval_store \<Rightarrow> bool"
  for iso_text G N U where
  saved: "load iso_text org store = Inr c \<Longrightarrow> ac_organization_id c' = org \<Longrightarrow>
    (records_step G N U org)\<^sup>*\<^sup>* (ac_records c) (ac_records c') \<Longrightarrow>
    store_step iso_text G N U store (store(org := StoredFile c'))"

inductive_cases change_cases: "change G r r'"

lemma load_valid: "load iso_text org store = Inr c \<Longrightarrow> collection_valid c \<and> ac_organization_id c = org"
  by (auto simp: load_def collection_valid_def max_records_def split: approval_file.splits if_splits)

lemma expire_record_keeps [simp]:
  "ap_id (expire_record now r) = ap_id r" "ap_organization_id (expire_record now r) = ap_organization_id r"
  "ap_requester_digest (expire_record now r) = ap_requester_digest r"
  by (simp_all add: expire_record_def)

lemma normalize_expired_records: "ac_records (normalize_expired c now) = map (expire_record now) (ac_records c)"
  by (simp add: normalize_expired_def Let_def)

lemma normalize_records:
  "ac_records (normalize c now) =
     filter (\<lambda>r. \<not> stale (now - terminal_retention) r) (map (expire_record now) (ac_records c))"
  by (simp add: normalize_def normalize_expired_records Let_def)

lemma normalize_organization [simp]:
  "ac_organization_id (normalize_expired c now) = ac_organization_id c"
  "ac_organization_id (normalize c now) = ac_organization_id c"
  by (simp_all add: normalize_def normalize_expired_def Let_def)

lemma records_step_expire: "records_step G N U org rs (map (expire_record now) rs)"
  by (rule update) (auto simp: expire_record_def intro: change.expired)

lemma normalize_steps: "(records_step G N U org)\<^sup>*\<^sup>* (ac_records c) (ac_records (normalize c now))"
  unfolding normalize_records using records_step_expire remove by (meson rtranclp.rtrancl_into_rtrancl rtranclp.rtrancl_refl)

lemma normalize_distinct:
  "distinct (map ap_id (ac_records c)) \<Longrightarrow> distinct (map ap_id (ac_records (normalize c now)))"
  unfolding normalize_records by (simp add: distinct_map_filter comp_def)

lemma replace_record_step:
  assumes "distinct (map ap_id (ac_records c))" "r \<in> set (ac_records c)" "change G r r'" "ap_id r' = ap_id r"
  shows "records_step G N U org (ac_records c) (ac_records (replace_record c r'))"
proof -
  have "inj_on ap_id (set (ac_records c))" using assms(1) by (simp add: distinct_map)
  then have "x = r" if "x \<in> set (ac_records c)" "ap_id x = ap_id r'" for x
    using that assms(2,4) by (auto dest: inj_onD)
  then show ?thesis unfolding replace_record_def using assms(3) by (auto intro!: update)
qed

lemma find_record_mem: "find_record c approval_id = Inr r \<Longrightarrow> r \<in> set (ac_records c) \<and> ap_id r = approval_id"
  by (auto simp: find_record_def split: option.splits dest!: find_Some_iff_first)

lemma current_collectionD:
  assumes "current_collection iso_text org now store = Inr c"
  obtains c0 where "load iso_text org store = Inr c0" "c = normalize c0 now"
    "distinct (map ap_id (ac_records c))" "ac_organization_id c = org"
    "\<And>r. r \<in> set (ac_records c) \<Longrightarrow> ap_organization_id r = org"
proof -
  obtain c0 where c0: "load iso_text org store = Inr c0" "c = normalize c0 now"
    using assms by (auto simp: current_collection_def res_simps)
  have v: "collection_valid c0" "ac_organization_id c0 = org" using load_valid [OF c0(1)] by simp_all
  show thesis
  proof (rule that [OF c0])
    show "distinct (map ap_id (ac_records c))" using v(1) c0(2) by (simp add: collection_valid_def normalize_distinct)
    show "ac_organization_id c = org" using v(2) c0(2) by simp
    show "ap_organization_id r = org" if "r \<in> set (ac_records c)" for r
      using that v c0(2) by (auto simp: collection_valid_def normalize_records list_all_iff)
  qed
qed

lemma save_then_store:
  "snd (save_then iso_text io c x store) = store \<or> snd (save_then iso_text io c x store) = store(ac_organization_id c := StoredFile c)"
  by (auto simp: save_then_def save_def)

lemma save_then_Inr:
  "save_then iso_text io c x store = (Inr y, store') \<Longrightarrow> y = x \<and> store' = store(ac_organization_id c := StoredFile c)"
  by (auto simp: save_then_def save_def res_simps split: if_splits)

subsection \<open>Every call is a sequence of elementary changes\<close>

fun grants :: "(string \<Rightarrow> string) \<Rightarrow> approval_op \<Rightarrow> grant_set" where
  "grants sha256 (ApApprove io clock org approval_id actor role) =
     (if role = ''administrator'' then {(org, approval_id, actor_digest sha256 org actor, True)} else {})"
| "grants sha256 (ApReject io clock org approval_id actor role) =
     (if role = ''administrator'' then {(org, approval_id, actor_digest sha256 org actor, False)} else {})"
| "grants sha256 _ = {}"

fun adds :: "approval_op \<Rightarrow> add_set" where
  "adds (ApRequest io clock new_id org actor role kind asset digest summary) = {(org, new_id, summary)}"
| "adds _ = {}"

definition fresh_ids :: "approval_op \<Rightarrow> approval_store \<Rightarrow> bool" where
  "fresh_ids op store \<longleftrightarrow>
     (\<forall>(org, new_id, summary) \<in> adds op. \<forall>c. store org = StoredFile c \<longrightarrow> new_id \<notin> ap_id ` set (ac_records c))"

lemma proceed_steps:
  assumes "\<And>x. r = Inr x \<Longrightarrow> S\<^sup>*\<^sup>* store (snd (f x))"
  shows "S\<^sup>*\<^sup>* store (snd (proceed r store f))"
  using assms by (cases r) (auto simp: proceed_def)

lemma save_then_steps:
  assumes "load iso_text org store = Inr c0" "ac_organization_id c = org"
    and "(records_step G N U org)\<^sup>*\<^sup>* (ac_records c0) (ac_records c)"
  shows "(store_step iso_text G N U)\<^sup>*\<^sup>* store (snd (save_then iso_text io c x store))"
  using save_then_store [of iso_text io c x store] store_step.saved [OF assms] assms(2) by auto

lemma replace_and_save_steps:
  assumes "load iso_text org store = Inr c0" "(records_step G N U org)\<^sup>*\<^sup>* (ac_records c0) (ac_records c)"
    and "distinct (map ap_id (ac_records c))" "ac_organization_id c = org"
    and "r \<in> set (ac_records c)" "change G r r'" "ap_id r' = ap_id r"
  shows "(store_step iso_text G N U)\<^sup>*\<^sup>* store (snd (replace_and_save iso_text io c r' store))"
  unfolding replace_and_save_def
proof (rule save_then_steps [OF assms(1)])
  show "ac_organization_id (replace_record c r') = org" by (simp add: replace_record_def assms(4))
  show "(records_step G N U org)\<^sup>*\<^sup>* (ac_records c0) (ac_records (replace_record c r'))"
    using assms(2) replace_record_step [OF assms(3,5,6,7)] by (rule rtranclp.rtrancl_into_rtrancl)
qed

lemma current_replace_steps:
  assumes "current_collection iso_text org now store = Inr c" "r \<in> set (ac_records c)" "change G r r'" "ap_id r' = ap_id r"
  shows "(store_step iso_text G N U)\<^sup>*\<^sup>* store (snd (replace_and_save iso_text io c r' store))"
proof -
  obtain c0 where c: "load iso_text org store = Inr c0" "c = normalize c0 now"
    "distinct (map ap_id (ac_records c))" "ac_organization_id c = org"
    using assms(1) by (rule current_collectionD) blast
  have "(records_step G N U org)\<^sup>*\<^sup>* (ac_records c0) (ac_records c)"
    unfolding c(2) by (rule normalize_steps)
  from replace_and_save_steps [OF c(1) this c(3,4) assms(2-4)] show ?thesis .
qed

lemma load_stored: "load iso_text org store = Inr c \<Longrightarrow> store org = StoredFile c \<or> ac_records c = []"
  by (auto simp: load_def split: approval_file.splits if_splits)

lemma request_steps:
  assumes "U \<Longrightarrow> fresh_ids (ApRequest io clock new_id org actor role kind asset digest summary) store"
  shows "(store_step iso_text G {(org, new_id, summary)} U)\<^sup>*\<^sup>* store
     (snd (approval_request sha256 iso_text io clock new_id org actor role kind asset digest summary store))"
proof -
  let ?N = "{(org, new_id, summary)}"
  have "(store_step iso_text G ?N U)\<^sup>*\<^sup>* store
      (snd (save_then iso_text io (c\<lparr>ac_revision := n, ac_records := ac_records c @ [r]\<rparr>) r store))"
    if c: "current_collection iso_text org now store = Inr c" and len: "length (ac_records c) < max_records"
      and r: "fresh_pending org r" "ap_id r = new_id" "ap_summary r = summary" for c now r n
  proof -
    obtain c0 where c0: "load iso_text org store = Inr c0" "c = normalize c0 now" "ac_organization_id c = org"
      using c by (rule current_collectionD) blast
    have "ap_id r \<notin> ap_id ` set (ac_records c)" if U
      using assms [OF that] load_stored [OF c0(1)] r(2)
      by (auto simp: fresh_ids_def c0(2) normalize_records image_image)
    then have "records_step G ?N U org (ac_records c) (ac_records c @ [r])"
      using r len by (intro add) auto
    then have "(records_step G ?N U org)\<^sup>*\<^sup>* (ac_records c0) (ac_records c @ [r])"
      unfolding c0(2) by (rule rtranclp.rtrancl_into_rtrancl [OF normalize_steps])
    then show ?thesis using c0(1,3) by (intro save_then_steps) auto
  qed
  then show ?thesis
    unfolding approval_request_def Let_def
    by (intro proceed_steps) (auto simp: fresh_pending_def new_approval_def split: option.splits intro!: proceed_steps)
qed

lemma list_steps: "(store_step iso_text G N U)\<^sup>*\<^sup>* store (snd (approval_list iso_text io clock org store))"
proof -
  have "(store_step iso_text G N U)\<^sup>*\<^sup>* store (snd (save_then iso_text io (normalize c now) x store))"
    if "load iso_text org store = Inr c" for c now and x :: "approval list"
    using load_valid [OF that] by (intro save_then_steps [OF that]) (simp_all add: normalize_steps)
  then show ?thesis unfolding approval_list_def Let_def by (auto intro!: proceed_steps)
qed

lemma decide_steps:
  assumes "(org, approval_id, actor_digest sha256 org actor, approved) \<in> G"
  shows "(store_step iso_text G N U)\<^sup>*\<^sup>* store (snd (decide sha256 iso_text io clock org approval_id actor approved store))"
proof -
  let ?a = "actor_digest sha256 org actor"
  have "(store_step iso_text G N U)\<^sup>*\<^sup>* store (snd (replace_and_save iso_text io c
          (r\<lparr>ap_status := if approved then Approved else Rejected, ap_approver_digest := Some ?a, ap_decided_at := Some now,
             ap_summary := if approved then ap_summary r else scrub_summary (ap_summary r)\<rparr>) store))"
    if c: "current_collection iso_text org now store = Inr c" and r: "find_record c approval_id = Inr r"
      and s: "ap_status r = Pending" "ap_requester_digest r \<noteq> ?a" for c now r
  proof (rule current_replace_steps [OF c])
    show "r \<in> set (ac_records c)" using find_record_mem [OF r] by simp
    moreover have "\<And>x. x \<in> set (ac_records c) \<Longrightarrow> ap_organization_id x = org"
      using c by (rule current_collectionD) blast
    ultimately show "change G r (r\<lparr>ap_status := if approved then Approved else Rejected, ap_approver_digest := Some ?a,
         ap_decided_at := Some now, ap_summary := if approved then ap_summary r else scrub_summary (ap_summary r)\<rparr>)"
      using assms s find_record_mem [OF r] change.approved [where r = r and a = ?a and now = now] change.rejected [where r = r and a = ?a and now = now]
      by (cases approved) simp_all
  qed simp
  then show ?thesis
    unfolding decide_def Let_def by (auto intro!: proceed_steps)
qed

lemma claim_steps:
  "(store_step iso_text G N U)\<^sup>*\<^sup>* store (snd (claim sha256 iso_text io clock org approval_id actor kind asset digest store))"
  unfolding claim_def Let_def
  by (auto intro!: proceed_steps current_replace_steps change.claimed dest: find_record_mem)

lemma claim_matching_steps:
  "(store_step iso_text G N U)\<^sup>*\<^sup>* store (snd (claim_matching sha256 iso_text io clock org actor kind asset digest store))"
  unfolding claim_matching_def Let_def
  by (auto intro!: proceed_steps current_replace_steps change.claimed simp: filter_eq_Cons_iff split: list.splits)

lemma finish_steps:
  "(store_step iso_text G N U)\<^sup>*\<^sup>* store (snd (finish iso_text io clock org approval_id succeeded store))"
proof -
  have "(store_step iso_text G N U)\<^sup>*\<^sup>* store (snd (replace_and_save iso_text io c
      (r\<lparr>ap_status := if succeeded then Consumed else Approved, ap_consumed_at := if succeeded then Some now else None,
         ap_summary := if succeeded then scrub_summary (ap_summary r) else ap_summary r\<rparr>) store))"
    if c: "load iso_text org store = Inr c" and r: "find_record c approval_id = Inr r" and s: "ap_status r = Executing" for c now r
  proof (rule replace_and_save_steps [OF c rtranclp.rtrancl_refl])
    show "distinct (map ap_id (ac_records c))" "ac_organization_id c = org"
      using load_valid [OF c] by (simp_all add: collection_valid_def)
    show "r \<in> set (ac_records c)" using find_record_mem [OF r] by simp
    show "change G r (r\<lparr>ap_status := if succeeded then Consumed else Approved, ap_consumed_at := if succeeded then Some now else None,
         ap_summary := if succeeded then scrub_summary (ap_summary r) else ap_summary r\<rparr>)"
      using change.consumed [OF s] change.released [OF s] by (cases succeeded) simp_all
  qed simp
  then show ?thesis unfolding finish_def by (auto intro!: proceed_steps)
qed

lemma recovered_steps: "(records_step G N U org)\<^sup>*\<^sup>* (ac_records c) (ac_records (recovered_collection now c))"
proof -
  have "records_step G N U org (ac_records c) (map (interrupt_record now) (ac_records c))"
    by (rule update) (auto simp: interrupt_record_def intro: change.interrupted)
  moreover have "(records_step G N U org)\<^sup>*\<^sup>* (map (interrupt_record now) (ac_records c)) (ac_records (recovered_collection now c))"
    unfolding recovered_collection_def Let_def
    using normalize_steps [of G N U org "c\<lparr>ac_revision := n, ac_records := map (interrupt_record now) (ac_records c)\<rparr>" for n]
    by simp
  ultimately show ?thesis by (rule converse_rtranclp_into_rtranclp)
qed

lemma recovered_organization [simp]: "ac_organization_id (recovered_collection now c) = ac_organization_id c"
  by (simp add: recovered_collection_def Let_def)

lemma recover_files_steps:
  "(store_step iso_text G N U)\<^sup>*\<^sup>* store (snd (recover_files iso_text io now stems recovered store))"
proof (induction iso_text io now stems recovered store rule: recover_files.induct)
  case (2 iso_text io now stem stems recovered store)
  have "store_step iso_text G N U store (store(stem := StoredFile (recovered_collection now c)))"
    if "load iso_text stem store = Inr c" for c
    using load_valid [OF that] by (intro store_step.saved [OF that]) (simp_all add: recovered_steps)
  then show ?case
    using "2.IH" load_valid [of iso_text stem store]
    by (auto simp: Let_def save_def split: sum.splits intro: converse_rtranclp_into_rtranclp)
qed simp

lemma remove_asset_steps: "(store_step iso_text G N U)\<^sup>*\<^sup>* store (snd (remove_asset iso_text io org asset store))"
proof -
  have "(store_step iso_text G N U)\<^sup>*\<^sup>* store
      (snd (save_then iso_text io (c\<lparr>ac_revision := n, ac_records := filter P (ac_records c)\<rparr>) x store))"
    if "load iso_text org store = Inr c" for c n P and x :: nat
    using that load_valid [OF that] records_step.remove
    by (intro save_then_steps) (simp_all, blast intro: r_into_rtranclp)
  then show ?thesis unfolding remove_asset_def Let_def by (auto intro!: proceed_steps)
qed

lemma purge_steps: "(store_step iso_text G N U)\<^sup>*\<^sup>* store (snd (purge_terminal iso_text io clock org cutoff store))"
proof -
  have "(records_step G N U org)\<^sup>*\<^sup>* (ac_records c) (filter P (ac_records (normalize_expired c now)))" for c now P
    unfolding normalize_expired_records using records_step_expire records_step.remove
    by (meson rtranclp.rtrancl_into_rtrancl rtranclp.rtrancl_refl)
  then have "(store_step iso_text G N U)\<^sup>*\<^sup>* store (snd (save_then iso_text io
      (normalize_expired c now\<lparr>ac_revision := n, ac_records := filter P (ac_records (normalize_expired c now))\<rparr>) x store))"
    if "load iso_text org store = Inr c" for c now n P and x :: nat
    using load_valid [OF that] by (intro save_then_steps [OF that]) simp_all
  then show ?thesis unfolding purge_terminal_def Let_def by (intro proceed_steps) auto
qed

lemma approval_exec_steps:
  assumes "U \<Longrightarrow> fresh_ids op store"
  shows "(store_step iso_text (grants sha256 op) (adds op) U)\<^sup>*\<^sup>* store (approval_exec sha256 iso_text op store)"
  using assms
  by (cases op)
    (auto simp: approve_def reject_def recover_interrupted_def list_steps claim_steps claim_matching_steps
      finish_steps remove_asset_steps purge_steps
      intro!: proceed_steps decide_steps recover_files_steps request_steps)

subsection \<open>Four eyes\<close>

text \<open>Whoever approved, by digest, is not the requester and was granted the decision.\<close>

definition four_eyes :: "grant_set \<Rightarrow> approval \<Rightarrow> bool" where
  "four_eyes G r \<longleftrightarrow> (ap_status r \<in> {Approved, Executing, Consumed} \<longrightarrow>
     (\<exists>a. ap_approver_digest r = Some a \<and> a \<noteq> ap_requester_digest r \<and> (ap_organization_id r, ap_id r, a, True) \<in> G))"

definition stored_all :: "(approval \<Rightarrow> bool) \<Rightarrow> approval_store \<Rightarrow> bool" where
  "stored_all P store \<longleftrightarrow> (\<forall>org c. store org = StoredFile c \<longrightarrow> list_all P (ac_records c))"

lemma change_four_eyes: "change G r r' \<Longrightarrow> four_eyes G r \<Longrightarrow> four_eyes G r'"
  by (induction rule: change.induct) (auto simp: four_eyes_def)

lemma change_keeps: "change G r r' \<Longrightarrow> ap_id r' = ap_id r \<and> ap_organization_id r' = ap_organization_id r"
  by (induction rule: change.induct) auto

lemma records_step_all:
  assumes "records_step G N U org rs rs'" "list_all P rs"
    and "\<And>r r'. change G r r' \<Longrightarrow> P r \<Longrightarrow> P r'" "\<And>r. fresh_pending org r \<Longrightarrow> (org, ap_id r, ap_summary r) \<in> N \<Longrightarrow> P r"
  shows "list_all P rs'"
  using assms(1,2)
proof (induction rule: records_step.induct)
  case (update rs f)
  then show ?case using assms(3) by (fastforce simp: list_all_iff)
qed (auto simp: list_all_iff assms(4))

lemma records_steps_all:
  assumes "(records_step G N U org)\<^sup>*\<^sup>* rs rs'" "list_all P rs"
    and "\<And>r r'. change G r r' \<Longrightarrow> P r \<Longrightarrow> P r'" "\<And>r. fresh_pending org r \<Longrightarrow> (org, ap_id r, ap_summary r) \<in> N \<Longrightarrow> P r"
  shows "list_all P rs'"
  using assms(1,2) by (induction rule: rtranclp_induct) (auto dest: records_step_all [OF _ _ assms(3,4)])

lemma store_steps_all:
  assumes "(store_step iso_text G N U)\<^sup>*\<^sup>* store store'" "stored_all P store"
    and "\<And>r r'. change G r r' \<Longrightarrow> P r \<Longrightarrow> P r'"
    and "\<And>org r. fresh_pending org r \<Longrightarrow> (org, ap_id r, ap_summary r) \<in> N \<Longrightarrow> P r"
  shows "stored_all P store'"
  using assms(1,2)
proof (induction rule: rtranclp_induct)
  case (step store store')
  from step.hyps(2) show ?case
  proof (cases rule: store_step.cases)
    case (saved org c c')
    have "list_all P (ac_records c)"
      using load_stored [OF saved(2)] step.IH [OF step.prems] by (auto simp: stored_all_def)
    then have "list_all P (ac_records c')"
      using records_steps_all [OF saved(4)] assms(3,4) by blast
    then show ?thesis using saved(1) step.IH [OF step.prems] by (auto simp: stored_all_def)
  qed
qed

lemma four_eyes_mono: "four_eyes G r \<Longrightarrow> G \<subseteq> G' \<Longrightarrow> four_eyes G' r"
  by (auto simp: four_eyes_def)

lemma change_mono: "change G r r' \<Longrightarrow> G \<subseteq> G' \<Longrightarrow> change G' r r'"
  by (induction rule: change.induct) (auto intro: change.intros)

lemma run_four_eyes:
  assumes "stored_all (four_eyes G) store"
  shows "stored_all (four_eyes (G \<union> (\<Union>op \<in> set ops. grants sha256 op))) (approval_run sha256 iso_text ops store)"
  using assms
proof (induction ops arbitrary: store G)
  case (Cons op ops)
  let ?G = "G \<union> grants sha256 op"
  have start: "stored_all (four_eyes ?G) store"
    using Cons.prems four_eyes_mono unfolding stored_all_def list_all_iff by blast
  have "stored_all (four_eyes ?G) (approval_exec sha256 iso_text op store)"
  proof (rule store_steps_all [OF approval_exec_steps [where U = False] start])
    show "four_eyes ?G r'" if "change (grants sha256 op) r r'" "four_eyes ?G r" for r r'
      using that change_mono change_four_eyes by (meson Un_upper2)
    show "four_eyes ?G r" if "fresh_pending org r" for org r
      using that by (simp add: four_eyes_def fresh_pending_def)
  qed simp
  from Cons.IH [OF this] show ?case by (simp add: Un_assoc)
qed simp

lemma proceed_Inr: "proceed r store f = (Inr y, store') \<longleftrightarrow> (\<exists>x. r = Inr x \<and> f x = (Inr y, store'))"
  by (cases r) (auto simp: proceed_def)

lemma normalize_approved:
  assumes "r \<in> set (ac_records (normalize c now))" "ap_status r \<in> {Pending, Approved}"
  shows "r \<in> set (ac_records c) \<and> now < ap_expires_at r"
  using assms by (auto simp: normalize_records expire_record_def split: if_splits)

lemma claim_Inr:
  assumes "claim sha256 iso_text io clock org approval_id actor kind asset digest store = (Inr r, store')"
  obtains now c r0 where "clock = Some now" "load iso_text org store = Inr c" "r0 \<in> set (ac_records c)"
    "ap_id r0 = approval_id" "ap_status r0 = Approved" "now < ap_expires_at r0"
    "ap_requester_digest r0 = actor_digest sha256 org actor" "ap_kind r0 = kind" "ap_asset_id r0 = asset"
    "ap_operation_digest r0 = digest" "ap_organization_id r0 = org" "r = r0\<lparr>ap_status := Executing\<rparr>"
proof -
  obtain now c1 r0 where *: "clock = Some now" "current_collection iso_text org now store = Inr c1"
      "find_record c1 approval_id = Inr r0" "ap_status r0 = Approved" "ap_kind r0 = kind" "ap_asset_id r0 = asset"
      "ap_operation_digest r0 = digest" "ap_requester_digest r0 = actor_digest sha256 org actor"
      "r = r0\<lparr>ap_status := Executing\<rparr>"
    using assms unfolding claim_def
    by (auto simp: proceed_Inr Let_def read_clock_def replace_and_save_def split: option.splits if_splits
        dest: save_then_Inr)
  obtain c where c: "load iso_text org store = Inr c" "c1 = normalize c now"
    and org: "\<And>x. x \<in> set (ac_records c1) \<Longrightarrow> ap_organization_id x = org"
    using *(2) by (rule current_collectionD) blast
  have "r0 \<in> set (ac_records c1)" "ap_id r0 = approval_id" using find_record_mem [OF *(3)] by auto
  with * c org normalize_approved [of r0 c now] show thesis by (intro that [of now c r0]) auto
qed

text \<open>
  C3. Four eyes, end to end: whatever calls built the store, a claim that returns an approval was
  preceded by a call to \<^verbatim>\<open>approve\<close> for that approval by an administrator other than the claiming
  requester; the claimed record binds the requester, the kind, the asset and the operation digest the
  caller presents, and it has not expired.
\<close>

theorem claim_needs_other_administrator:
  assumes "claim sha256 iso_text io clock org approval_id actor kind asset digest
             (approval_run sha256 iso_text ops (\<lambda>_. MissingFile)) = (Inr r, store')"
  shows "(\<exists>io' clock' approver. ApApprove io' clock' org approval_id approver ''administrator'' \<in> set ops \<and> approver \<noteq> actor)
    \<and> ap_requester_digest r = actor_digest sha256 org actor \<and> ap_kind r = kind \<and> ap_asset_id r = asset
    \<and> ap_operation_digest r = digest \<and> (\<exists>now. clock = Some now \<and> now < ap_expires_at r)"
proof -
  let ?store = "approval_run sha256 iso_text ops (\<lambda>_. MissingFile)"
  from assms obtain now c r0 where r0: "clock = Some now" "load iso_text org ?store = Inr c" "r0 \<in> set (ac_records c)"
    "ap_id r0 = approval_id" "ap_status r0 = Approved" "now < ap_expires_at r0"
    "ap_requester_digest r0 = actor_digest sha256 org actor" "ap_kind r0 = kind" "ap_asset_id r0 = asset"
    "ap_operation_digest r0 = digest" "ap_organization_id r0 = org" "r = r0\<lparr>ap_status := Executing\<rparr>"
    by (rule claim_Inr)
  have "stored_all (four_eyes (\<Union>op \<in> set ops. grants sha256 op)) ?store"
    using run_four_eyes [of "{}" "\<lambda>_. MissingFile" sha256 ops iso_text] by (simp add: stored_all_def)
  then have "four_eyes (\<Union>op \<in> set ops. grants sha256 op) r0"
    using load_stored [OF r0(2)] r0(3) by (auto simp: stored_all_def list_all_iff)
  then obtain a op where a: "a \<noteq> ap_requester_digest r0" "op \<in> set ops" "(org, approval_id, a, True) \<in> grants sha256 op"
    using r0(4,5,11) by (auto simp: four_eyes_def)
  then obtain io' clock' approver where "op = ApApprove io' clock' org approval_id approver ''administrator''"
      "a = actor_digest sha256 org approver"
    by (cases "(sha256, op)" rule: grants.cases) (auto split: if_splits)
  with a r0 show ?thesis by auto
qed

text \<open>A request for a new registration, made at the instant 5 and approved by a second administrator.\<close>

definition example_sha256 :: "string \<Rightarrow> string" where
  "example_sha256 s = replicate 63 CHR ''0'' @ [if s \<noteq> [] \<and> last s = CHR ''b'' then CHR ''b'' else CHR ''a'']"

definition example_iso :: "instant \<Rightarrow> string" where
  "example_iso t = ''2026-01-01T00:00:00Z''"

definition example_summary :: change_summary where
  "example_summary = \<lparr>cs_asset_type = DomainAsset, cs_review_target = Some ''example.org'',
     cs_scope_change = NewRegistration, cs_capabilities = [''nmap''], cs_allowed_ports = [443],
     cs_allowed_protocols = [''tcp''], cs_authorization_expires_at = None, cs_reason_code = None\<rparr>"

definition example_ops :: "approval_op list" where
  "example_ops =
     [ApRequest True (Some 5) (replicate 32 CHR ''1'') ''local-admin'' ''local-admin'' ''maintainer'' Registration None
        (replicate 64 CHR ''d'') example_summary,
      ApApprove True (Some 6) ''local-admin'' (replicate 32 CHR ''1'') (replicate 32 CHR ''b'') ''administrator'']"

lemma example_claim_succeeds:
  "isl (fst (claim example_sha256 example_iso True (Some 7) ''local-admin'' (replicate 32 CHR ''1'') ''local-admin''
     Registration None (replicate 64 CHR ''d'') (approval_run example_sha256 example_iso example_ops (\<lambda>_. MissingFile)))) = False"
  by code_simp

lemma claim_needs_other_administrator_witness:
  "\<exists>r. fst (claim example_sha256 example_iso True (Some 7) ''local-admin'' (replicate 32 CHR ''1'') ''local-admin''
     Registration None (replicate 64 CHR ''d'') (approval_run example_sha256 example_iso example_ops (\<lambda>_. MissingFile))) = Inr r \<and>
     ap_operation_digest r = replicate 64 CHR ''d'' \<and> 7 < ap_expires_at r \<and>
     (\<exists>io' clock' approver. ApApprove io' clock' ''local-admin'' (replicate 32 CHR ''1'') approver ''administrator''
        \<in> set example_ops \<and> approver \<noteq> ''local-admin'')"
proof -
  let ?c = "claim example_sha256 example_iso True (Some 7) ''local-admin'' (replicate 32 CHR ''1'') ''local-admin''
     Registration None (replicate 64 CHR ''d'') (approval_run example_sha256 example_iso example_ops (\<lambda>_. MissingFile))"
  obtain r where r: "fst ?c = Inr r" using example_claim_succeeds by (cases "fst ?c") auto
  then have "?c = (Inr r, snd ?c)" by (metis prod.collapse)
  from claim_needs_other_administrator [OF this] r show ?thesis by blast
qed

subsection \<open>Terminal records\<close>

lemma change_not_terminal: "change G r r' \<Longrightarrow> \<not> terminal (ap_status r)"
  by (induction rule: change.induct) (auto simp: terminal_def)

text \<open>Nothing but the record \<open>r\<close> is stored under its identifier.\<close>

definition only_record :: "string \<Rightarrow> approval \<Rightarrow> approval_store \<Rightarrow> bool" where
  "only_record org r store \<longleftrightarrow>
     (case store org of StoredFile c \<Rightarrow> list_all (\<lambda>r'. ap_id r' = ap_id r \<longrightarrow> r' = r) (ac_records c) | _ \<Rightarrow> False)"

lemma records_step_frozen:
  assumes "records_step G N U org rs rs'" "terminal (ap_status r)" "\<forall>s. (org, ap_id r, s) \<notin> N"
    and "list_all (\<lambda>r'. ap_id r' = ap_id r \<longrightarrow> r' = r) rs"
  shows "list_all (\<lambda>r'. ap_id r' = ap_id r \<longrightarrow> r' = r) rs'"
  using assms(1,4)
proof (induction rule: records_step.induct)
  case (update rs f)
  have "ap_id (f x) = ap_id r \<longrightarrow> f x = r" if "x \<in> set rs" for x
  proof -
    have same: "ap_id x = ap_id r \<Longrightarrow> x = r" using update(2) that by (simp add: list_all_iff)
    from update(1) that consider "f x = x" | "change G x (f x)" by blast
    then show ?thesis
    proof cases
      case 2
      then have "x \<noteq> r" "ap_id (f x) = ap_id x" using change_not_terminal change_keeps assms(2) by blast+
      then show ?thesis using same by auto
    qed (use same in simp)
  qed
  then show ?case by (simp add: list_all_iff)
qed (use assms(3) in \<open>auto simp: list_all_iff\<close>)

lemma records_steps_frozen:
  assumes "(records_step G N U org)\<^sup>*\<^sup>* rs rs'" "terminal (ap_status r)" "\<forall>s. (org, ap_id r, s) \<notin> N"
    and "list_all (\<lambda>r'. ap_id r' = ap_id r \<longrightarrow> r' = r) rs"
  shows "list_all (\<lambda>r'. ap_id r' = ap_id r \<longrightarrow> r' = r) rs'"
  using assms(1,4)
proof (induction rule: rtranclp_induct)
  case (step y z)
  then show ?case using records_step_frozen [OF step.hyps(2) assms(2,3)] by blast
qed

lemma store_steps_frozen:
  assumes "(store_step iso_text G N U)\<^sup>*\<^sup>* store store'" "terminal (ap_status r)" "\<forall>s. (org, ap_id r, s) \<notin> N"
    and "only_record org r store"
  shows "only_record org r store'"
  using assms(1,4)
proof (induction rule: rtranclp_induct)
  case (step store store')
  from step.hyps(2) show ?case
  proof (cases rule: store_step.cases)
    case (saved org' c c')
    show ?thesis
    proof (cases "org' = org")
      case True
      have "list_all (\<lambda>r'. ap_id r' = ap_id r \<longrightarrow> r' = r) (ac_records c)"
        using load_stored [OF saved(2)] step.IH [OF step.prems] True by (auto simp: only_record_def)
      then show ?thesis
        using records_steps_frozen [OF saved(4) assms(2)] assms(3) saved(1) True by (simp add: only_record_def)
    next
      case False
      then show ?thesis using step.IH [OF step.prems] saved(1) by (simp add: only_record_def)
    qed
  qed
qed

text \<open>
  C26. Terminal approvals are final: once an approval is consumed, rejected, expired or interrupted,
  no sequence of calls changes any field of it; it stays as it is or is deleted. (No later request
  draws the same identifier.)
\<close>

theorem terminal_approvals_final:
  assumes "load iso_text org store = Inr c" "r \<in> set (ac_records c)" "terminal (ap_status r)"
    and "\<forall>op \<in> set ops. \<forall>s. (org, ap_id r, s) \<notin> adds op"
  shows "case approval_run sha256 iso_text ops store org of
           StoredFile c' \<Rightarrow> list_all (\<lambda>r'. ap_id r' = ap_id r \<longrightarrow> r' = r) (ac_records c') | _ \<Rightarrow> False"
proof -
  have "store org = StoredFile c" using load_stored [OF assms(1)] assms(2) by auto
  moreover have "inj_on ap_id (set (ac_records c))"
    using load_valid [OF assms(1)] by (simp add: collection_valid_def distinct_map)
  ultimately have "only_record org r store"
    using assms(2) by (auto simp: only_record_def list_all_iff dest: inj_onD)
  then have "only_record org r (approval_run sha256 iso_text ops store)" using assms(4)
  proof (induction ops arbitrary: store)
    case (Cons op ops)
    from Cons.prems(2) have "only_record org r (approval_exec sha256 iso_text op store)"
      by (intro store_steps_frozen [OF approval_exec_steps [where U = False] assms(3) _ Cons.prems(1)]) auto
    then show ?case using Cons by simp
  qed simp
  then show ?thesis by (simp add: only_record_def)
qed

definition example_rejected :: approval where
  "example_rejected = (new_approval (replicate 32 CHR ''1'') ''local-admin'' None Registration (replicate 64 CHR ''d'')
     (replicate 64 CHR ''a'') ''maintainer'' 5 (scrub_summary example_summary))\<lparr>ap_status := Rejected\<rparr>"

definition example_rejected_store :: approval_store where
  "example_rejected_store = (\<lambda>_. MissingFile)(''local-admin'' := StoredFile
     \<lparr>ac_organization_id = ''local-admin'', ac_revision = 2, ac_records = [example_rejected]\<rparr>)"

lemma terminal_approvals_final_witness:
  "case approval_run example_sha256 example_iso [ApList True (Some 9) ''local-admin''] example_rejected_store ''local-admin'' of
     StoredFile c' \<Rightarrow> list_all (\<lambda>r'. ap_id r' = ap_id example_rejected \<longrightarrow> r' = example_rejected) (ac_records c') | _ \<Rightarrow> False"
proof (rule terminal_approvals_final)
  show "load example_iso ''local-admin'' example_rejected_store =
      Inr \<lparr>ac_organization_id = ''local-admin'', ac_revision = 2, ac_records = [example_rejected]\<rparr>"
    by code_simp
qed (simp_all add: example_rejected_def terminal_def)

subsection \<open>Stored collections stay valid\<close>

lemma scrub_summary_simps [simp]: "cs_review_target (scrub_summary s) = None" "summary_valid s \<Longrightarrow> summary_valid (scrub_summary s)"
  by (simp_all add: scrub_summary_def summary_valid_def)

lemma change_valid:
  assumes "change G r r'" "\<forall>(o', i, a, b) \<in> G. is_digest a" "record_valid r" "summary_valid (ap_summary r)"
  shows "record_valid r' \<and> summary_valid (ap_summary r')"
  using assms
  by (induction rule: change.induct)
    (auto simp: record_valid_def lifecycle_valid_def actionable_def terminal_def optional_def)

lemma records_step_valid:
  assumes "records_step G N True org rs rs'"
    and "\<forall>(o', i, a, b) \<in> G. is_digest a" "\<forall>(o', i, s) \<in> N. summary_valid s"
    and "length rs \<le> max_records" "distinct (map ap_id rs)" "list_all (\<lambda>r. ap_organization_id r = org) rs"
    and "list_all (\<lambda>r. record_valid r \<and> summary_valid (ap_summary r)) rs"
  shows "length rs' \<le> max_records \<and> distinct (map ap_id rs') \<and> list_all (\<lambda>r. ap_organization_id r = org) rs' \<and>
    list_all (\<lambda>r. record_valid r \<and> summary_valid (ap_summary r)) rs'"
  using assms(1,4-)
proof (induction rule: records_step.induct)
  case (update rs f)
  have f: "ap_id (f r) = ap_id r" "ap_organization_id (f r) = ap_organization_id r" if "r \<in> set rs" for r
    using update(1) that change_keeps by metis+
  then have "map ap_id (map f rs) = map ap_id rs" by simp
  moreover have "record_valid (f r) \<and> summary_valid (ap_summary (f r))" if "r \<in> set rs" for r
    using update(1,5) that change_valid [OF _ assms(2)] by (metis (no_types, lifting) list_all_iff)
  ultimately show ?case using update f by (auto simp: list_all_iff simp del: map_map)
next
  case (remove rs P)
  then show ?case
    using order_trans [OF length_filter_le] by (auto simp: list_all_iff distinct_map_filter)
next
  case (add r rs)
  then show ?case using assms(3) by (auto simp: fresh_pending_def)
qed

lemma records_steps_valid:
  assumes "(records_step G N True org)\<^sup>*\<^sup>* (ac_records c) (ac_records c')" "ac_organization_id c' = ac_organization_id c"
    and "\<forall>(o', i, a, b) \<in> G. is_digest a" "\<forall>(o', i, s) \<in> N. summary_valid s"
    and "collection_valid c" "ac_organization_id c = org"
  shows "collection_valid c'"
proof -
  have "length (ac_records c') \<le> max_records \<and> distinct (map ap_id (ac_records c')) \<and>
     list_all (\<lambda>r. ap_organization_id r = org) (ac_records c') \<and>
     list_all (\<lambda>r. record_valid r \<and> summary_valid (ap_summary r)) (ac_records c')"
    using assms(1)
  proof (induction rule: rtranclp_induct)
    case base
    then show ?case using assms(5,6) by (simp add: collection_valid_def)
  next
    case (step rs rs')
    then show ?case using records_step_valid [OF step.hyps(2) assms(3,4)] by blast
  qed
  then show ?thesis using assms(2,5,6) by (simp add: collection_valid_def)
qed

definition store_valid :: "approval_store \<Rightarrow> bool" where
  "store_valid store \<longleftrightarrow> (\<forall>org. case store org of
     MissingFile \<Rightarrow> True | UnreadableFile \<Rightarrow> False | StoredFile c \<Rightarrow> collection_valid c \<and> ac_organization_id c = org)"

lemma store_steps_valid:
  assumes "(store_step iso_text G N True)\<^sup>*\<^sup>* store store'" "store_valid store"
    and "\<forall>(o', i, a, b) \<in> G. is_digest a" "\<forall>(o', i, s) \<in> N. summary_valid s"
  shows "store_valid store'"
  using assms(1,2)
proof (induction rule: rtranclp_induct)
  case (step store store')
  from step.hyps(2) show ?case
  proof (cases rule: store_step.cases)
    case (saved org c c')
    have "collection_valid c'"
      using records_steps_valid [OF saved(4) _ assms(3,4)] load_valid [OF saved(2)] saved(3) by simp
    then show ?thesis using step.IH [OF step.prems] saved(1,3) by (simp add: store_valid_def)
  qed
qed

text \<open>
  C13. No call corrupts the store: from a store whose files all pass the models' validation, every
  call leaves one, although records are rewritten by \<^verbatim>\<open>model_copy\<close>, which does not validate. In
  particular terminal records never keep their registration target, at most 500 records are kept and
  identifiers stay distinct. (New identifiers are unused, the summary passed in is a valid model and
  SHA-256 yields 64 hexadecimal digits.)
\<close>

theorem approval_store_stays_valid:
  assumes "store_valid store" "\<forall>s. is_digest (sha256 s)"
    and "\<forall>(org, new_id, summary) \<in> adds op. summary_valid summary" "fresh_ids op store"
  shows "store_valid (approval_exec sha256 iso_text op store)"
proof (rule store_steps_valid [OF approval_exec_steps assms(1)])
  show "\<forall>(o', i, a, b) \<in> grants sha256 op. is_digest a"
    using assms(2) by (cases "(sha256, op)" rule: grants.cases) (auto simp: actor_digest_def)
qed (use assms in auto)

lemma approval_store_stays_valid_witness:
  "store_valid (approval_exec example_sha256 example_iso (hd example_ops) (\<lambda>_. MissingFile))"
proof (rule approval_store_stays_valid)
  show "store_valid (\<lambda>_. MissingFile)" by (simp add: store_valid_def)
  show "\<forall>s. is_digest (example_sha256 s)"
    by (simp add: example_sha256_def is_digest_def is_hex_id_def list_all_iff char_class_defs)
  show "\<forall>(org, new_id, summary) \<in> adds (hd example_ops). summary_valid summary"
    by (simp add: example_ops_def example_summary_def summary_valid_def)
  show "fresh_ids (hd example_ops) (\<lambda>_. MissingFile)" by (simp add: fresh_ids_def)
qed

subsection \<open>The size guard\<close>

text \<open>A valid collection of one rejected request whose only capability is \<open>n\<close> letters long.\<close>

definition long_collection :: "nat \<Rightarrow> approval_collection" where
  "long_collection n = \<lparr>ac_organization_id = ''local-admin'', ac_revision = 1,
     ac_records = [example_rejected\<lparr>ap_summary := scrub_summary example_summary\<lparr>cs_capabilities := [replicate n CHR ''a'']\<rparr>\<rparr>]\<rparr>"

lemma long_collection_valid: "collection_valid (long_collection n)"
proof -
  have "record_valid example_rejected" by code_simp
  then show ?thesis
    by (simp add: collection_valid_def long_collection_def is_organization_id_def record_valid_def lifecycle_valid_def
        example_rejected_def new_approval_def example_summary_def scrub_summary_def summary_valid_def max_records_def
        terminal_def actionable_def)
qed

lemma quoted_replicate: "length (quoted (replicate n CHR ''a'')) = n + 2"
  using quoted_plain [of "replicate n CHR ''a''"] by (simp add: list_all_iff escape_char_def code_def)

lemma long_collection_length:
  "length (dumps (collection_json iso_text (long_collection n))) = length (dumps (collection_json iso_text (long_collection 0))) + n"
  by (simp add: dumps_def collection_json_def long_collection_def approval_json_def summary_json_def length_dumps_obj
      length_dumps_list quoted_replicate [of n] quoted_replicate [of 0, simplified] scrub_summary_def
      del: dumps_with.simps(5,6))

text \<open>
  The size guard measures the wrong encoding: \<^verbatim>\<open>_save\<close> bounds the text without indentation but
  writes the indented text, whose length \<^verbatim>\<open>_load\<close> bounds. There is a valid collection that \<^verbatim>\<open>_save\<close>
  stores successfully and after which every \<^verbatim>\<open>_load\<close> of the organization raises \<^verbatim>\<open>invalid_store\<close>.
\<close>

theorem saved_collection_may_not_load:
  "\<exists>c. collection_valid c \<and> fst (save example_iso True c (\<lambda>_. MissingFile)) = Inr () \<and>
     load example_iso (ac_organization_id c) (snd (save example_iso True c (\<lambda>_. MissingFile))) = Inl InvalidStore"
proof -
  let ?json = "\<lambda>n. collection_json example_iso (long_collection n)"
  have "\<not> dumps_longer max_bytes (?json 0)" by code_simp
  then obtain n where n: "int (length (dumps (?json 0)) + n) = max_bytes"
    by (metis dumps_longer_def linorder_not_less of_nat_add zle_iff_zadd)
  then have "\<not> dumps_longer max_bytes (?json n)"
    by (simp add: dumps_longer_def long_collection_length [of _ n])
  moreover have "length (dumps (?json n)) < length (dumps_indent (?json n))"
    unfolding collection_json_def by (rule dumps_obj_less_indent) simp
  then have "indent_longer max_bytes (?json n)"
    using n by (simp add: indent_longer_def long_collection_length [of _ n])
  ultimately show ?thesis
    using long_collection_valid [of n]
    by (intro exI [of _ "long_collection n"]) (simp add: save_def load_def)
qed

end
