(* ===== verification/Finding_Decisions.thy ===== *)
theory Finding_Decisions
  imports Json_Text
begin

section \<open>Finding decisions\<close>

text \<open>
  Model of the decision half of \<^verbatim>\<open>backend/app/finding_lifecycle.py\<close> and of the models it stores
  (\<^verbatim>\<open>FindingDecisionRecord\<close> of \<^verbatim>\<open>models.py\<close>): immutable triage decisions that form one chain per finding,
  the texts and dates a caller may record, the visible records and their validation, and the reads built on
  them. The remediation batches are in the theory \<open>Remediation_Batches\<close>.

  The directories are association lists from file stems to contents; a content is a validated model or
  \<open>Corrupt\<close> (a symbolic link, not a regular file, not the JSON of a valid model). \<open>fs_mutations\<close> is the
  sequence of organizations for which the invalidation clock \<^verbatim>\<open>risk_trend_source_clock\<close> was told of a
  mutation. Parameters: \<open>sha256\<close>; \<open>iso_text\<close>, pydantic's text of an instant; \<open>redact\<close>, the redaction
  of secrets in \<^verbatim>\<open>reporting.py\<close>, of which nothing is assumed; \<open>ids\<close>, what the identifier factory returns.
\<close>

subsection \<open>Data\<close>

datatype decision_status = Open | InReview | Accepted | FalsePositive | Resolved

datatype lifecycle_error =
  InvalidMentions | FindingNotSupported | InvalidAssignee | ProjectDecisionLimit | FindingDecisionLimit
  | FindingIdentityConflict | InvalidTransition | InvalidActivityCursor | InvalidBatch | BatchRecoveryFailed
  | LifecycleStoreUnavailable | InvalidProjectScope | SnapshotChanged | BatchStateInvalid | IdempotencyConflict
  | BatchReplayUnavailable | StoreLimit | StoredDecisionInvalid | IdentifierUnavailable | InvalidIdentifier
  | ReasonRequired | InvalidText | ReviewDateRequired | ReviewDateNotAllowed | ReviewDateTimezoneRequired
  | ReviewDateNotFuture | ReviewDateTooFar | DecisionValidationError

record decision =
  fd_contract_version :: string
  fd_id :: string
  fd_organization_id :: string
  fd_project_id :: string
  fd_finding_id :: string
  fd_rule_id :: string
  fd_status :: decision_status
  fd_reason :: string
  fd_comment :: "string option"
  fd_mentions :: "string list"
  fd_assignee_user_id :: "string option"
  fd_assignee_username :: "string option"
  fd_actor_id :: string
  fd_actor_username :: string
  fd_actor_role :: string
  fd_review_at :: "instant option"
  fd_created_at :: instant
  fd_previous :: "string option"
  fd_batch :: "string option"

record batch_journal =
  bj_operation_id :: string
  bj_organization_id :: string
  bj_request_digest :: string
  bj_group_id :: string
  bj_decision_ids :: "string list"
  bj_digests :: "(string \<times> string) list"
  bj_prepared_at :: instant

text \<open>The receipt is the journal with two more fields.\<close>

record batch_receipt =
  br_journal :: batch_journal
  br_completed_at :: instant
  br_replayable :: bool

datatype 'a stored = Valid 'a | Corrupt

record decision_fs =
  fs_decisions :: "(string \<times> decision stored) list"
  fs_receipts :: "(string \<times> batch_receipt stored) list"
  fs_receipt_temps :: "string list"
  fs_journals :: "(string \<times> batch_journal stored) list"
  fs_journal_temps :: "string list"
  fs_staging :: "(string \<times> (string \<times> decision stored) list) list"
  fs_mutations :: "string list"

definition decision_contract_version :: string where
  "decision_contract_version = ''2026-09-11.1''"

definition max_decisions_per_finding :: nat where
  "max_decisions_per_finding = 100"

definition max_decisions_per_project :: int where
  "max_decisions_per_project = 10000"

definition embedded_page_size :: nat where
  "embedded_page_size = 10"

definition max_page_size :: int where
  "max_page_size = 25"

definition allowed_transitions :: "decision_status \<Rightarrow> decision_status set" where
  "allowed_transitions s =
     (case s of
        Open \<Rightarrow> {InReview, Accepted, FalsePositive, Resolved}
      | InReview \<Rightarrow> {Open, Accepted, FalsePositive, Resolved}
      | Accepted \<Rightarrow> {Open, InReview, Resolved}
      | FalsePositive \<Rightarrow> {Open, InReview}
      | Resolved \<Rightarrow> {Open, InReview})"

definition exception_status :: "decision_status \<Rightarrow> bool" where
  "exception_status s \<longleftrightarrow> s \<in> {Accepted, FalsePositive}"

definition max_review_delay :: int where
  "max_review_delay = 366 * 24 * 3600 * 1000000"

definition is_batch_id :: "string \<Rightarrow> bool" where
  "is_batch_id s \<longleftrightarrow> is_hex_id 64 s"

definition is_finding_id :: "string \<Rightarrow> bool" where
  "is_finding_id s \<longleftrightarrow> is_hex_id 64 s \<or> (starts_with ''pvf_'' s \<and> is_hex_id 64 (drop 4 s))"

text \<open>\<^verbatim>\<open>[a-z0-9][a-z0-9._-]{2,63}\<close>\<close>

definition username_start :: "char \<Rightarrow> bool" where
  "username_start c \<longleftrightarrow> is_lower c \<or> is_digit c"

definition username_char :: "char \<Rightarrow> bool" where
  "username_char c \<longleftrightarrow> username_start c \<or> c \<in> {CHR ''.'', CHR ''_'', CHR ''-''}"

definition is_username :: "string \<Rightarrow> bool" where
  "is_username s \<longleftrightarrow> 3 \<le> length s \<and> length s \<le> 64 \<and> username_start (hd s) \<and> list_all username_char s"

definition text_given :: "string option \<Rightarrow> bool" where
  "text_given s \<longleftrightarrow> s \<noteq> None \<and> s \<noteq> Some []"

definition option_length :: "nat \<Rightarrow> nat \<Rightarrow> string option \<Rightarrow> bool" where
  "option_length lo hi s = (case s of None \<Rightarrow> True | Some t \<Rightarrow> lo \<le> length t \<and> length t \<le> hi)"

definition decision_valid :: "decision \<Rightarrow> bool" where
  "decision_valid d \<longleftrightarrow>
     fd_contract_version d \<in> {''2026-09-06.1'', ''2026-09-11.1''} \<and> is_hex_id 32 (fd_id d) \<and>
     is_organization_id (fd_organization_id d) \<and> is_hex_id 32 (fd_project_id d) \<and> is_finding_id (fd_finding_id d) \<and>
     1 \<le> length (fd_rule_id d) \<and> length (fd_rule_id d) \<le> 160 \<and>
     3 \<le> length (fd_reason d) \<and> length (fd_reason d) \<le> 240 \<and> option_length 0 1000 (fd_comment d) \<and>
     length (fd_mentions d) \<le> 5 \<and> option_length 1 64 (fd_assignee_user_id d) \<and>
     option_length 3 64 (fd_assignee_username d) \<and>
     1 \<le> length (fd_actor_id d) \<and> length (fd_actor_id d) \<le> 64 \<and>
     1 \<le> length (fd_actor_username d) \<and> length (fd_actor_username d) \<le> 64 \<and>
     1 \<le> length (fd_actor_role d) \<and> length (fd_actor_role d) \<le> 32 \<and>
     (case fd_previous d of None \<Rightarrow> True | Some p \<Rightarrow> is_hex_id 32 p) \<and>
     (case fd_batch d of None \<Rightarrow> True | Some b \<Rightarrow> is_batch_id b) \<and>
     text_given (fd_assignee_user_id d) = text_given (fd_assignee_username d) \<and>
     (fd_review_at d = None \<or> exception_status (fd_status d)) \<and>
     distinct (fd_mentions d) \<and> list_all is_username (fd_mentions d) \<and>
     (fd_mentions d = [] \<or> fd_comment d \<noteq> None)"

subsection \<open>Normalization of what a caller records\<close>

definition safe_decision_text ::
  "(string \<Rightarrow> string) \<Rightarrow> string option \<Rightarrow> bool \<Rightarrow> nat \<Rightarrow> lifecycle_error + string option" where
  "safe_decision_text redact value required max_length =
     (case value of
        None \<Rightarrow> if required then Inl ReasonRequired else Inr None
      | Some v \<Rightarrow>
          if length v > max_length then Inl InvalidText
          else (let normalized = py_join '' '' (py_words (py_strip v)) in
            if list_ex (\<lambda>c. code c < 32) normalized then Inl InvalidText
            else if required \<and> length normalized < 3 then Inl ReasonRequired
            else if normalized = [] then Inr None
            else Inr (Some (take max_length (py_join '' '' (py_words (redact normalized)))))))"

definition mention_boundary :: "char option \<Rightarrow> bool" where
  "mention_boundary prev =
     (case prev of None \<Rightarrow> True
      | Some c \<Rightarrow> \<not> (is_ascii_alnum c \<or> c \<in> {CHR ''.'', CHR ''_'', CHR ''-''}))"

text \<open>
  The matches of \<^verbatim>\<open>(?<![A-Za-z0-9._-])@([a-z0-9][a-z0-9._-]{2,63})(?=$|\s)\<close> from left to right: the
  characters of a username are no white space, so only the whole run after the sign can match.
\<close>

fun mentions_from :: "char option \<Rightarrow> string \<Rightarrow> string list" where
  "mentions_from prev [] = []"
| "mentions_from prev (c # cs) =
     (let run = takeWhile username_char cs; rest = dropWhile username_char cs in
      if c = CHR ''@'' \<and> mention_boundary prev \<and> is_username run \<and> (rest = [] \<or> is_space (hd rest))
      then run # mentions_from (Some c) cs
      else mentions_from (Some c) cs)"

text \<open>The list that a loop with \<^verbatim>\<open>if x not in seen: seen.append(x)\<close> builds.\<close>

definition first_occurrences :: "'a list \<Rightarrow> 'a list" where
  "first_occurrences xs = rev (remdups (rev xs))"

definition extract_decision_mentions :: "string option \<Rightarrow> lifecycle_error + string list" where
  "extract_decision_mentions value =
     (case value of None \<Rightarrow> Inr []
      | Some v \<Rightarrow> (let mentions = first_occurrences (mentions_from None v) in
                   if length mentions > 5 then Inl InvalidMentions else Inr mentions))"

definition normalize_mentioned_usernames :: "string list option \<Rightarrow> lifecycle_error + string list" where
  "normalize_mentioned_usernames values =
     (case values of None \<Rightarrow> Inr []
      | Some vs \<Rightarrow>
          if length vs > 5 then Inl InvalidMentions
          else (let normalized = map (\<lambda>v. py_lower (py_strip v)) vs in
                if \<not> distinct normalized \<or> list_ex (\<lambda>v. \<not> is_username v) normalized then Inl InvalidMentions
                else Inr normalized))"

datatype review_date = NaiveDate | AwareDate instant

definition normalize_review_at ::
  "review_date option \<Rightarrow> decision_status \<Rightarrow> instant \<Rightarrow> lifecycle_error + instant option" where
  "normalize_review_at value status now =
     (case value of
        None \<Rightarrow> if exception_status status then Inl ReviewDateRequired else Inr None
      | Some date \<Rightarrow>
          if \<not> exception_status status then Inl ReviewDateNotAllowed
          else (case date of
                  NaiveDate \<Rightarrow> Inl ReviewDateTimezoneRequired
                | AwareDate t \<Rightarrow>
                    if t \<le> now then Inl ReviewDateNotFuture
                    else if t > now + max_review_delay then Inl ReviewDateTooFar
                    else Inr (Some t)))"

definition decision_expired :: "decision \<Rightarrow> instant \<Rightarrow> bool" where
  "decision_expired d now \<longleftrightarrow>
     exception_status (fd_status d) \<and> (case fd_review_at d of None \<Rightarrow> True | Some t \<Rightarrow> t \<le> now)"

definition effective_status :: "decision \<Rightarrow> instant \<Rightarrow> decision_status" where
  "effective_status d now = (if decision_expired d now then InReview else fd_status d)"

subsection \<open>Chains\<close>

fun children_of :: "string list \<Rightarrow> decision list \<Rightarrow> (string \<times> decision) list \<Rightarrow> lifecycle_error + (string \<times> decision) list" where
  "children_of ids [] acc = Inr acc"
| "children_of ids (d # ds) acc =
     (case fd_previous d of
        None \<Rightarrow> children_of ids ds acc
      | Some parent \<Rightarrow>
          if parent \<notin> set ids \<or> parent \<in> fst ` set acc then Inl StoredDecisionInvalid
          else children_of ids ds (acc @ [(parent, d)]))"

function walk_chain :: "(string \<times> decision) list \<Rightarrow> decision \<Rightarrow> decision list \<Rightarrow> decision list" where
  "walk_chain children current chain =
     (if fd_id current \<in> fd_id ` set chain then chain
      else (case map_of children (fd_id current) of
              None \<Rightarrow> chain @ [current]
            | Some successor \<Rightarrow> walk_chain children successor (chain @ [current])))"
  by auto

termination walk_chain
proof (relation "measure (\<lambda>(children, current, chain).
    card (insert (fd_id current) (fd_id ` snd ` set children) - fd_id ` set chain))")
  fix children :: "(string \<times> decision) list" and current successor :: decision and chain :: "decision list"
  assume new: "fd_id current \<notin> fd_id ` set chain" and s: "map_of children (fd_id current) = Some successor"
  have "fd_id successor \<in> fd_id ` snd ` set children"
    using map_of_SomeD [OF s] by force
  then have "insert (fd_id successor) (fd_id ` snd ` set children) - fd_id ` set (chain @ [current])
      \<subset> insert (fd_id current) (fd_id ` snd ` set children) - fd_id ` set chain"
    using new by auto
  then show "((children, successor, chain @ [current]), children, current, chain)
      \<in> measure (\<lambda>(children, current, chain).
          card (insert (fd_id current) (fd_id ` snd ` set children) - fd_id ` set chain))"
    by (auto intro!: psubset_card_mono)
qed simp

declare walk_chain.simps [simp del]

definition finding_chain :: "decision list \<Rightarrow> lifecycle_error + decision list" where
  "finding_chain items =
     (if \<not> distinct (map fd_id items) then Inl StoredDecisionInvalid
      else (case filter (\<lambda>d. fd_previous d = None) items of
              [root] \<Rightarrow>
                bind_res (children_of (map fd_id items) items []) (\<lambda>children.
                  let chain = walk_chain children root [] in
                  if length chain \<noteq> length items then Inl StoredDecisionInvalid
                  else if list_ex (\<lambda>d. fd_rule_id d \<noteq> fd_rule_id (hd chain)) chain then Inl StoredDecisionInvalid
                  else Inr chain)
            | _ \<Rightarrow> Inl StoredDecisionInvalid))"

definition finding_ids :: "decision list \<Rightarrow> string list" where
  "finding_ids records = sort (remdups (map fd_finding_id records))"

definition validated_decision_chains :: "decision list \<Rightarrow> lifecycle_error + decision list" where
  "validated_decision_chains records =
     bind_res (map_res (\<lambda>f. finding_chain (filter (\<lambda>d. fd_finding_id d = f) records)) (finding_ids records))
       (\<lambda>chains. Inr (concat chains))"

subsection \<open>Correctness of chain validation\<close>

text \<open>A linear history: the first decision has the given predecessor, each other one its left neighbour.\<close>

fun linked_from :: "string option \<Rightarrow> decision list \<Rightarrow> bool" where
  "linked_from p [] = True"
| "linked_from p (d # ds) = (fd_previous d = p \<and> linked_from (Some (fd_id d)) ds)"

definition is_history :: "decision list \<Rightarrow> decision list \<Rightarrow> bool" where
  "is_history items chain \<longleftrightarrow>
     items \<noteq> [] \<and> mset chain = mset items \<and> distinct (map fd_id chain) \<and> linked_from None chain \<and>
     list_all (\<lambda>d. fd_rule_id d = fd_rule_id (hd chain)) chain"

lemma linked_from_append:
  "linked_from p (xs @ ys) \<longleftrightarrow> linked_from p xs \<and> linked_from (if xs = [] then p else Some (fd_id (last xs))) ys"
  by (induction p xs rule: linked_from.induct) auto

definition kids :: "decision list \<Rightarrow> (string \<times> decision) list" where
  "kids ds = map (\<lambda>d. (the (fd_previous d), d)) (filter (\<lambda>d. fd_previous d \<noteq> None) ds)"

lemma kids_simps [simp]:
  "kids [] = []"
  "kids (d # ds) = (case fd_previous d of None \<Rightarrow> kids ds | Some p \<Rightarrow> (p, d) # kids ds)"
  by (auto simp: kids_def split: option.splits)

lemma children_of_kids:
  "distinct (map fst acc) \<Longrightarrow>
   children_of ids ds acc =
     (if distinct (map fst (acc @ kids ds)) \<and> fst ` set (kids ds) \<subseteq> set ids then Inr (acc @ kids ds)
      else Inl StoredDecisionInvalid)"
proof (induction ids ds acc rule: children_of.induct)
  case (2 ids d ds acc)
  show ?case
  proof (cases "fd_previous d")
    case None
    with 2 show ?thesis by simp
  next
    case (Some parent)
    show ?thesis
    proof (cases "parent \<notin> set ids \<or> parent \<in> fst ` set acc")
      case True
      then show ?thesis using Some by auto
    next
      case False
      with "2.IH" (2) [OF Some] "2.prems" Some show ?thesis by simp
    qed
  qed
qed simp

lemma kids_lookup:
  assumes "distinct (map fst (kids items))"
  shows "map_of (kids items) p = Some d \<longleftrightarrow> d \<in> set items \<and> fd_previous d = Some p"
proof -
  have "map_of (kids items) p = Some d \<longleftrightarrow> (p, d) \<in> set (kids items)"
    using assms by (rule map_of_eq_Some_iff)
  also have "\<dots> \<longleftrightarrow> d \<in> set items \<and> fd_previous d = Some p"
    by (force simp: kids_def)
  finally show ?thesis .
qed

lemma walk_chain_sound:
  assumes "linked_from None (chain @ [current])" "distinct (map fd_id chain)" "set chain \<subseteq> S" "current \<in> S"
    and "\<And>p d. map_of children p = Some d \<Longrightarrow> d \<in> S \<and> fd_previous d = Some p"
  shows "linked_from None (walk_chain children current chain) \<and> distinct (map fd_id (walk_chain children current chain))
    \<and> set (walk_chain children current chain) \<subseteq> S"
  using assms
proof (induction children current chain rule: walk_chain.induct)
  case (1 children current chain)
  show ?case
  proof (cases "fd_id current \<in> fd_id ` set chain")
    case True
    then show ?thesis using "1.prems" by (subst (1 2 3) walk_chain.simps) (auto simp: linked_from_append)
  next
    case False
    show ?thesis
    proof (cases "map_of children (fd_id current)")
      case None
      then show ?thesis using "1.prems" False by (subst (1 2 3) walk_chain.simps) auto
    next
      case (Some successor)
      have "linked_from None ((chain @ [current]) @ [successor])" "successor \<in> S"
        using "1.prems"(1) "1.prems"(5) [OF Some] by (auto simp: linked_from_append)
      with "1.IH" [OF False Some] "1.prems" False Some show ?thesis
        by (subst (1 2 3) walk_chain.simps) auto
    qed
  qed
qed

lemma linked_last_no_child:
  "linked_from p (xs @ [x]) \<Longrightarrow> distinct (map fd_id (xs @ [x])) \<Longrightarrow> p \<noteq> Some (fd_id x) \<Longrightarrow>
   z \<in> set (xs @ [x]) \<Longrightarrow> fd_previous z \<noteq> Some (fd_id x)"
proof (induction xs arbitrary: p)
  case (Cons y ys)
  then show ?case by (cases "z = y") auto
qed simp

lemma walk_chain_complete:
  assumes "linked_from None (pre @ x # suf)" "distinct (map fd_id (pre @ x # suf))"
    and "\<And>p d. map_of children p = Some d \<longleftrightarrow> d \<in> set (pre @ x # suf) \<and> fd_previous d = Some p"
  shows "walk_chain children x pre = pre @ x # suf"
  using assms
proof (induction suf arbitrary: pre x)
  case Nil
  have "map_of children (fd_id x) = None"
  proof (rule ccontr)
    assume "map_of children (fd_id x) \<noteq> None"
    then obtain d where "d \<in> set (pre @ [x])" "fd_previous d = Some (fd_id x)" using Nil(3) by auto
    then show False using linked_last_no_child [OF Nil(1,2), of d] by simp
  qed
  then show ?case using Nil(2) by (subst walk_chain.simps) auto
next
  case (Cons y suf)
  have "fd_previous y = Some (fd_id x)" using Cons.prems(1) by (simp add: linked_from_append)
  then have "map_of children (fd_id x) = Some y" using Cons.prems(3) by simp
  moreover have "walk_chain children y (pre @ [x]) = (pre @ [x]) @ y # suf"
    by (rule Cons.IH) (use Cons.prems in simp_all)
  moreover have "fd_id x \<notin> fd_id ` set pre" using Cons.prems(2) by auto
  ultimately show ?case by (subst walk_chain.simps) simp
qed

lemma linked_kids:
  assumes "linked_from p chain" "distinct (map fd_id chain)" "\<And>q. p = Some q \<Longrightarrow> q \<notin> fd_id ` set chain"
  shows "distinct (map fst (kids chain)) \<and> set (map fst (kids chain)) \<subseteq> fd_id ` set chain \<union> set_option p"
  using assms
proof (induction p chain rule: linked_from.induct)
  case (2 p d ds)
  have IH: "distinct (map fst (kids ds)) \<and> set (map fst (kids ds)) \<subseteq> fd_id ` set ds \<union> {fd_id d}"
    using "2.IH" "2.prems" by auto
  show ?case
  proof (cases p)
    case None
    then show ?thesis using IH "2.prems" by auto
  next
    case (Some q)
    then have "q \<notin> fd_id ` set (d # ds)" using "2.prems"(3) by simp
    then have "q \<notin> set (map fst (kids ds))" using IH by auto
    then show ?thesis using IH "2.prems"(1) Some by auto
  qed
qed simp

lemma linked_roots: "linked_from p chain \<Longrightarrow> p \<noteq> None \<Longrightarrow> filter (\<lambda>d. fd_previous d = None) chain = []"
  by (induction p chain rule: linked_from.induct) auto

lemma mset_kids: "mset xs = mset ys \<Longrightarrow> mset (kids xs) = mset (kids ys)"
  by (simp add: kids_def)

lemma history_filter_root:
  assumes "is_history items chain"
  shows "filter (\<lambda>d. fd_previous d = None) items = [hd chain]"
proof -
  obtain r rest where c: "chain = r # rest" using assms by (cases chain) (auto simp: is_history_def)
  then have "filter (\<lambda>d. fd_previous d = None) chain = [r]"
    using assms linked_roots [of "Some (fd_id r)" rest] by (simp add: is_history_def)
  moreover have "mset (filter (\<lambda>d. fd_previous d = None) items) = mset (filter (\<lambda>d. fd_previous d = None) chain)"
    using assms by (simp add: is_history_def mset_filter)
  ultimately have "mset (filter (\<lambda>d. fd_previous d = None) items) = {#r#}" by (simp del: mset_filter)
  then show ?thesis unfolding c list.sel by (metis mset_single_iff_right)
qed

lemma finding_chain_complete:
  assumes "is_history items chain"
  shows "finding_chain items = Inr chain"
proof -
  have perm: "mset chain = mset items" and d: "distinct (map fd_id chain)" and l: "linked_from None chain"
    and rule: "\<not> list_ex (\<lambda>d. fd_rule_id d \<noteq> fd_rule_id (hd chain)) chain"
    using assms by (auto simp: is_history_def list_ex_iff list_all_iff)
  have sets: "set items = set chain" using perm by (metis mset_eq_setD)
  have di: "distinct (map fd_id items)" using perm d by (metis mset_eq_imp_distinct_iff mset_map)
  have k: "distinct (map fst (kids chain))" "set (map fst (kids chain)) \<subseteq> fd_id ` set chain"
    using linked_kids [OF l d] by auto
  have mk: "mset (map fst (kids items)) = mset (map fst (kids chain))"
    using mset_kids [OF perm] by simp
  have ki: "distinct (map fst (kids items))" using k(1) mk by (metis mset_eq_imp_distinct_iff)
  have "set (map fst (kids items)) \<subseteq> fd_id ` set items" using k(2) mset_eq_setD [OF mk] sets by simp
  then have children: "children_of (map fd_id items) items [] = Inr (kids items)"
    using ki children_of_kids [of "[]" "map fd_id items" items] by simp
  obtain r rest where c: "chain = r # rest" using assms by (cases chain) (auto simp: is_history_def)
  have "walk_chain (kids items) r [] = [] @ r # rest"
    by (rule walk_chain_complete) (use l d c kids_lookup [OF ki] sets in simp_all)
  moreover have "length chain = length items" using perm by (rule mset_eq_length)
  ultimately show ?thesis
    using history_filter_root [OF assms] children di rule c
    unfolding finding_chain_def Let_def by simp
qed

lemma finding_chain_sound:
  assumes "finding_chain items = Inr chain"
  shows "is_history items chain"
proof -
  obtain root where di: "distinct (map fd_id items)" and root: "filter (\<lambda>d. fd_previous d = None) items = [root]"
    and ch: "children_of (map fd_id items) items [] = Inr (kids items)"
    and c: "chain = walk_chain (kids items) root []" and len: "length chain = length items"
    and rule: "\<not> list_ex (\<lambda>d. fd_rule_id d \<noteq> fd_rule_id (hd chain)) chain"
    using assms children_of_kids [of "[]" "map fd_id items" items]
    unfolding finding_chain_def Let_def by (auto simp: res_simps split: if_splits list.splits)
  have ki: "distinct (map fst (kids items))"
    using ch children_of_kids [of "[]" "map fd_id items" items] by (auto split: if_splits)
  have r: "root \<in> set items" "fd_previous root = None" using root by (auto simp: filter_eq_Cons_iff)
  have w: "linked_from None chain" "distinct (map fd_id chain)" "set chain \<subseteq> set items"
    using walk_chain_sound [of "[]" root "set items" "kids items"] r kids_lookup [OF ki] c by auto
  have "distinct chain" "distinct items" using w(2) di by (simp_all add: distinct_map)
  then have "set chain = set items"
    using w(3) len by (simp add: card_subset_eq distinct_card)
  then have "mset chain = mset items"
    using \<open>distinct chain\<close> \<open>distinct items\<close> by (simp add: set_eq_iff_mset_eq_distinct)
  then show ?thesis
    using w rule r(1) by (auto simp: is_history_def list_all_iff list_ex_iff)
qed

lemma finding_chain_iff: "finding_chain items = Inr chain \<longleftrightarrow> is_history items chain"
  using finding_chain_sound finding_chain_complete by blast

text \<open>
  C5. Chain validation is exact: the records of a finding are accepted if and only if they can be
  arranged as one linear history (a single first decision, every other decision pointing to the one
  before it, distinct identifiers, one rule), and the result is that history. Missing, duplicated,
  branching, cyclic and detached records are all rejected, and the loop ends on every input.
\<close>

theorem finding_chain_exact:
  "finding_chain items = Inr chain \<longleftrightarrow> is_history items chain"
  using finding_chain_sound finding_chain_complete by blast

subsection \<open>Digests\<close>

fun status_name :: "decision_status \<Rightarrow> string" where
  "status_name Open = ''open''"
| "status_name InReview = ''in_review''"
| "status_name Accepted = ''accepted''"
| "status_name FalsePositive = ''false_positive''"
| "status_name Resolved = ''resolved''"

definition opt_text :: "string option \<Rightarrow> json" where
  "opt_text s = (case s of None \<Rightarrow> JNull | Some t \<Rightarrow> JStr t)"

definition decision_json :: "(instant \<Rightarrow> string) \<Rightarrow> decision \<Rightarrow> json" where
  "decision_json iso_text d = JObj
     [(''contract_version'', JStr (fd_contract_version d)), (''id'', JStr (fd_id d)),
      (''organization_id'', JStr (fd_organization_id d)), (''project_id'', JStr (fd_project_id d)),
      (''finding_id'', JStr (fd_finding_id d)), (''rule_id'', JStr (fd_rule_id d)),
      (''status'', JStr (status_name (fd_status d))), (''reason'', JStr (fd_reason d)),
      (''comment'', opt_text (fd_comment d)), (''mentioned_usernames'', JList (map JStr (fd_mentions d))),
      (''assignee_user_id'', opt_text (fd_assignee_user_id d)),
      (''assignee_username'', opt_text (fd_assignee_username d)), (''actor_id'', JStr (fd_actor_id d)),
      (''actor_username'', JStr (fd_actor_username d)), (''actor_role'', JStr (fd_actor_role d)),
      (''review_at'', opt_text (map_option iso_text (fd_review_at d))), (''created_at'', JStr (iso_text (fd_created_at d))),
      (''previous_decision_id'', opt_text (fd_previous d)), (''batch_operation_id'', opt_text (fd_batch d))]"

definition decision_digest :: "(string \<Rightarrow> string) \<Rightarrow> (instant \<Rightarrow> string) \<Rightarrow> decision \<Rightarrow> string" where
  "decision_digest sha256 iso_text d = sha256 (dumps_compact (decision_json iso_text d))"

subsection \<open>Reading the directories\<close>

definition load_decision :: "string \<times> decision stored \<Rightarrow> lifecycle_error + decision" where
  "load_decision entry =
     (case entry of (stem, content) \<Rightarrow>
        if \<not> is_hex_id 32 stem then Inl StoredDecisionInvalid
        else (case content of
                Corrupt \<Rightarrow> Inl StoredDecisionInvalid
              | Valid d \<Rightarrow> if fd_id d \<noteq> stem then Inl StoredDecisionInvalid else Inr d))"

definition load_receipt :: "string \<Rightarrow> decision_fs \<Rightarrow> lifecycle_error + batch_receipt" where
  "load_receipt operation_id fs =
     (if \<not> is_batch_id operation_id then Inl InvalidBatch
      else (case map_of (fs_receipts fs) operation_id of
              Some (Valid r) \<Rightarrow>
                if bj_operation_id (br_journal r) \<noteq> operation_id then Inl BatchStateInvalid else Inr r
            | _ \<Rightarrow> Inl BatchStateInvalid))"

text \<open>
  Every entry of the receipt directory must be a receipt: a file under another name, such as a temporary
  file of \<^verbatim>\<open>_durable_write_json\<close>, is an error.
\<close>

definition load_batch_receipts :: "decision_fs \<Rightarrow> lifecycle_error + (string \<times> batch_receipt) list" where
  "load_batch_receipts fs =
     (if fs_receipt_temps fs \<noteq> [] then Inl BatchStateInvalid
      else map_res (\<lambda>stem. if \<not> is_batch_id stem then Inl BatchStateInvalid
                            else bind_res (load_receipt stem fs) (\<lambda>r. Inr (stem, r)))
             (sort (map fst (fs_receipts fs))))"

text \<open>One pass of the loop: \<open>None\<close> for a record of a batch that has no receipt yet.\<close>

definition visible_record ::
  "(string \<Rightarrow> string) \<Rightarrow> (instant \<Rightarrow> string) \<Rightarrow> (string \<times> batch_receipt) list \<Rightarrow> string \<times> decision stored
     \<Rightarrow> lifecycle_error + decision option" where
  "visible_record sha256 iso_text receipts entry =
     bind_res (load_decision entry) (\<lambda>d.
       case fd_batch d of
         None \<Rightarrow> Inr (Some d)
       | Some operation_id \<Rightarrow>
           (case map_of receipts operation_id of
              None \<Rightarrow> Inr None
            | Some r \<Rightarrow>
                if map_of (bj_digests (br_journal r)) (fd_id d) \<noteq> Some (decision_digest sha256 iso_text d)
                   \<or> fd_organization_id d \<noteq> bj_organization_id (br_journal r)
                then Inl StoredDecisionInvalid else Inr (Some d)))"

definition seen_in_batch :: "decision list \<Rightarrow> string \<Rightarrow> string set" where
  "seen_in_batch records operation_id = fd_id ` set (filter (\<lambda>d. fd_batch d = Some operation_id) records)"

definition visible_records ::
  "(string \<Rightarrow> string) \<Rightarrow> (instant \<Rightarrow> string) \<Rightarrow> decision_fs \<Rightarrow> lifecycle_error + decision list" where
  "visible_records sha256 iso_text fs =
     (if int (length (fs_decisions fs)) > max_decisions_per_project * 10 then Inl StoreLimit
      else bind_res (load_batch_receipts fs) (\<lambda>receipts.
        bind_res (map_res (visible_record sha256 iso_text receipts) (sort_key fst (fs_decisions fs))) (\<lambda>found.
          let records = List.map_filter id found in
          if list_ex (\<lambda>(operation_id, r). seen_in_batch records operation_id \<noteq> set (bj_decision_ids (br_journal r))) receipts
          then Inl StoredDecisionInvalid else Inr records)))"

definition list_for_project ::
  "(string \<Rightarrow> string) \<Rightarrow> (instant \<Rightarrow> string) \<Rightarrow> string \<Rightarrow> string \<Rightarrow> decision_fs \<Rightarrow> lifecycle_error + decision list" where
  "list_for_project sha256 iso_text organization_id project_id fs =
     bind_res (visible_records sha256 iso_text fs) (\<lambda>records.
       validated_decision_chains
         (filter (\<lambda>d. fd_organization_id d = organization_id \<and> fd_project_id d = project_id) records))"

definition list_for_projects ::
  "(string \<Rightarrow> string) \<Rightarrow> (instant \<Rightarrow> string) \<Rightarrow> string \<Rightarrow> string list \<Rightarrow> decision_fs
     \<Rightarrow> lifecycle_error + (string \<times> decision list) list" where
  "list_for_projects sha256 iso_text organization_id project_ids fs =
     (if int (length project_ids) > 20000 \<or> list_ex (\<lambda>p. \<not> is_hex_id 32 p) project_ids then Inl InvalidProjectScope
      else if project_ids = [] then Inr []
      else bind_res (visible_records sha256 iso_text fs) (\<lambda>records.
        map_res (\<lambda>p. bind_res (validated_decision_chains
            (filter (\<lambda>d. fd_organization_id d = organization_id \<and> fd_project_id d = p) records)) (\<lambda>chain. Inr (p, chain)))
          project_ids))"

definition report_snapshot ::
  "(string \<Rightarrow> string) \<Rightarrow> (instant \<Rightarrow> string) \<Rightarrow> string \<Rightarrow> instant option \<Rightarrow> decision_fs
     \<Rightarrow> lifecycle_error + (string \<times> decision list) list" where
  "report_snapshot sha256 iso_text organization_id cutoff fs =
     (case cutoff of None \<Rightarrow> Inl InvalidProjectScope
      | Some limit \<Rightarrow> bind_res (visible_records sha256 iso_text fs) (\<lambda>records.
          let own = filter (\<lambda>d. fd_organization_id d = organization_id) records in
          if list_ex (\<lambda>d. fd_created_at d > limit) own then Inl SnapshotChanged
          else map_res (\<lambda>p. bind_res (validated_decision_chains (filter (\<lambda>d. fd_project_id d = p) own)) (\<lambda>chain. Inr (p, chain)))
                 (first_occurrences (map fd_project_id own))))"

subsection \<open>Recording one decision\<close>

text \<open>The candidate identifiers tried: three from the factory, well formed and unused.\<close>

definition new_id :: "nat \<Rightarrow> string list \<Rightarrow> string set \<Rightarrow> decision_fs \<Rightarrow> lifecycle_error + string" where
  "new_id attempts ids reserved fs =
     (case find (\<lambda>c. is_hex_id 32 c \<and> c \<notin> reserved \<and> c \<notin> fst ` set (fs_decisions fs)) (take attempts ids) of
        None \<Rightarrow> Inl IdentifierUnavailable | Some c \<Rightarrow> Inr c)"

record decision_request =
  dr_organization_id :: string
  dr_status :: decision_status
  dr_reason :: "string option"
  dr_comment :: "string option"
  dr_actor_id :: string
  dr_actor_username :: string
  dr_actor_role :: string
  dr_review_at :: "review_date option"
  dr_assignee_user_id :: "string option"
  dr_assignee_username :: "string option"
  dr_mentions :: "string list option"

text \<open>The checks that \<^verbatim>\<open>record\<close> and \<^verbatim>\<open>record_many\<close> make before they take the lock.\<close>

definition checked_texts ::
  "(string \<Rightarrow> string) \<Rightarrow> instant \<Rightarrow> decision_request
     \<Rightarrow> lifecycle_error + (string option \<times> string option \<times> instant option \<times> string list)" where
  "checked_texts redact now q =
     bind_res (safe_decision_text redact (dr_reason q) True 240) (\<lambda>reason.
     bind_res (safe_decision_text redact (dr_comment q) False 1000) (\<lambda>comment.
     bind_res (normalize_review_at (dr_review_at q) (dr_status q) now) (\<lambda>review_at.
     bind_res (normalize_mentioned_usernames (dr_mentions q)) (\<lambda>mentions.
     bind_res (extract_decision_mentions comment) (\<lambda>extracted.
       if extracted \<noteq> mentions then Inl InvalidMentions else Inr (reason, comment, review_at, mentions))))))"

definition rule_supported :: "string \<Rightarrow> bool" where
  "rule_supported rule_id \<longleftrightarrow> \<not> (length rule_id > 160 \<or> list_ex (\<lambda>c. code c < 32) rule_id)"

definition assignee_consistent :: "decision_request \<Rightarrow> bool" where
  "assignee_consistent q \<longleftrightarrow> text_given (dr_assignee_user_id q) = text_given (dr_assignee_username q)"

text \<open>The checks on a finding's history, with the last decision of the history as the result.\<close>

definition checked_previous ::
  "instant \<Rightarrow> decision_status \<Rightarrow> string \<Rightarrow> string \<Rightarrow> decision list \<Rightarrow> lifecycle_error + decision option" where
  "checked_previous now status finding_id rule_id existing =
     (let history = filter (\<lambda>d. fd_finding_id d = finding_id) existing;
          previous = (if history = [] then None else Some (last history)) in
      if length history \<ge> max_decisions_per_finding then Inl FindingDecisionLimit
      else (case previous of
              None \<Rightarrow> Inr None
            | Some p \<Rightarrow>
                if fd_rule_id p \<noteq> rule_id then Inl FindingIdentityConflict
                else if status \<notin> allowed_transitions (effective_status p now) then Inl InvalidTransition
                else Inr (Some p)))"

definition make_decision ::
  "instant \<Rightarrow> decision_request \<Rightarrow> string option \<times> string option \<times> instant option \<times> string list \<Rightarrow> string \<Rightarrow> string \<Rightarrow> string
     \<Rightarrow> string \<Rightarrow> decision option \<Rightarrow> string option \<Rightarrow> decision" where
  "make_decision now q texts decision_id project_id finding_id rule_id previous batch =
     (case texts of (reason, comment, review_at, mentions) \<Rightarrow>
       \<lparr>fd_contract_version = decision_contract_version, fd_id = decision_id,
        fd_organization_id = dr_organization_id q, fd_project_id = project_id, fd_finding_id = finding_id,
        fd_rule_id = rule_id, fd_status = dr_status q, fd_reason = (case reason of None \<Rightarrow> [] | Some r \<Rightarrow> r),
        fd_comment = comment, fd_mentions = mentions, fd_assignee_user_id = dr_assignee_user_id q,
        fd_assignee_username = dr_assignee_username q, fd_actor_id = dr_actor_id q,
        fd_actor_username = dr_actor_username q, fd_actor_role = dr_actor_role q, fd_review_at = review_at,
        fd_created_at = now, fd_previous = map_option fd_id previous, fd_batch = batch\<rparr>)"

definition record_decision ::
  "(string \<Rightarrow> string) \<Rightarrow> (instant \<Rightarrow> string) \<Rightarrow> (string \<Rightarrow> string) \<Rightarrow> instant \<Rightarrow> string list \<Rightarrow> decision_request
     \<Rightarrow> string \<Rightarrow> string \<Rightarrow> string \<Rightarrow> decision_fs \<Rightarrow> (lifecycle_error + decision) \<times> decision_fs" where
  "record_decision sha256 iso_text redact now ids q project_id finding_id rule_id fs =
     (let outcome =
        bind_res (checked_texts redact now q) (\<lambda>texts.
          if \<not> rule_supported rule_id then Inl FindingNotSupported
          else if \<not> assignee_consistent q then Inl InvalidAssignee
          else bind_res (list_for_project sha256 iso_text (dr_organization_id q) project_id fs) (\<lambda>existing.
            if int (length existing) \<ge> max_decisions_per_project then Inl ProjectDecisionLimit
            else bind_res (checked_previous now (dr_status q) finding_id rule_id existing) (\<lambda>previous.
              bind_res (new_id 3 ids {} fs) (\<lambda>decision_id.
                let d = make_decision now q texts decision_id project_id finding_id rule_id previous None in
                if \<not> decision_valid d then Inl DecisionValidationError else Inr d)))) in
      case outcome of
        Inl e \<Rightarrow> (Inl e, fs)
      | Inr d \<Rightarrow> (Inr d, fs\<lparr>fs_decisions := dict_set (fd_id d) (Valid d) (fs_decisions fs),
                              fs_mutations := fs_mutations fs @ [fd_organization_id d]\<rparr>))"

subsection \<open>Reads of one finding\<close>

text \<open>The page of a newest-first list that starts after the cursor.\<close>

definition page_slice :: "decision list \<Rightarrow> int \<Rightarrow> string option \<Rightarrow> lifecycle_error + (decision list \<times> nat \<times> string option)" where
  "page_slice newest page_size cursor =
     (let start = (case cursor of None \<Rightarrow> Some 0
                   | Some c \<Rightarrow> if c \<in> fd_id ` set newest
                               then Some (Suc (length (takeWhile (\<lambda>d. fd_id d \<noteq> c) newest))) else None) in
      case start of
        None \<Rightarrow> Inl InvalidActivityCursor
      | Some s \<Rightarrow>
          let items = take (nat page_size) (drop s newest);
              has_more = s + length items < length newest in
          Inr (items, length newest, if items \<noteq> [] \<and> has_more then Some (fd_id (last items)) else None))"

definition page_for_finding ::
  "(string \<Rightarrow> string) \<Rightarrow> (instant \<Rightarrow> string) \<Rightarrow> string \<Rightarrow> string \<Rightarrow> string \<Rightarrow> int \<Rightarrow> string option \<Rightarrow> decision_fs
     \<Rightarrow> lifecycle_error + (decision list \<times> nat \<times> string option)" where
  "page_for_finding sha256 iso_text organization_id project_id finding_id page_size cursor fs =
     (if \<not> is_organization_id organization_id \<or> \<not> is_hex_id 32 project_id \<or> \<not> is_finding_id finding_id
         \<or> \<not> (1 \<le> page_size \<and> page_size \<le> max_page_size)
         \<or> (case cursor of None \<Rightarrow> False | Some c \<Rightarrow> \<not> is_hex_id 32 c)
      then Inl InvalidActivityCursor
      else bind_res (list_for_project sha256 iso_text organization_id project_id fs) (\<lambda>records.
        page_slice (rev (filter (\<lambda>d. fd_finding_id d = finding_id) records)) page_size cursor))"

record finding_state =
  fst_finding_id :: string
  fst_rule_id :: string
  fst_current_status :: decision_status
  fst_has_decision :: bool
  fst_needs_review :: bool
  fst_review_overdue :: bool
  fst_current_decision :: "decision option"
  fst_history :: "decision list"
  fst_history_total :: nat
  fst_history_has_more :: bool

definition finding_state_of :: "instant \<Rightarrow> decision list \<Rightarrow> string \<times> string \<Rightarrow> finding_state" where
  "finding_state_of now records finding =
     (case finding of (finding_id, rule_id) \<Rightarrow>
       (let history = filter (\<lambda>d. fd_finding_id d = finding_id) records;
            current = (if history = [] then None else Some (last history));
            status = (case current of None \<Rightarrow> Open | Some d \<Rightarrow> effective_status d now) in
        \<lparr>fst_finding_id = finding_id, fst_rule_id = rule_id, fst_current_status = status,
         fst_has_decision = (current \<noteq> None), fst_needs_review = (current \<noteq> None \<and> status = InReview),
         fst_review_overdue = (case current of None \<Rightarrow> False | Some d \<Rightarrow> decision_expired d now),
         fst_current_decision = current, fst_history = take embedded_page_size (rev history),
         fst_history_total = length history, fst_history_has_more = (length history > embedded_page_size)\<rparr>))"

definition lifecycle_for_findings ::
  "(string \<Rightarrow> string) \<Rightarrow> (instant \<Rightarrow> string) \<Rightarrow> instant \<Rightarrow> string \<Rightarrow> string \<Rightarrow> (string \<times> string) list \<Rightarrow> decision_fs
     \<Rightarrow> lifecycle_error + (string \<times> finding_state) list" where
  "lifecycle_for_findings sha256 iso_text now organization_id project_id findings fs =
     bind_res (list_for_project sha256 iso_text organization_id project_id fs) (\<lambda>records.
       Inr (fold (\<lambda>f d. dict_set (fst f) (finding_state_of now records f) d) findings []))"

subsection \<open>Validation depends only on which records there are\<close>

lemma map_res_map:
  "(\<And>x. x \<in> set xs \<Longrightarrow> \<exists>y. f x = Inr y) \<Longrightarrow> map_res f xs = Inr (map (\<lambda>x. projr (f x)) xs)"
proof (induction xs)
  case (Cons x xs)
  then obtain y where "f x = Inr y" by force
  with Cons show ?case by simp
qed simp

lemma map_res_Inr_all: "map_res f xs = Inr ys \<Longrightarrow> x \<in> set xs \<Longrightarrow> \<exists>y. f x = Inr y"
  unfolding map_res_Inr_iff by (auto dest: list_all2_setD1)

lemma finding_chain_error: "finding_chain items = Inl e \<Longrightarrow> e = StoredDecisionInvalid"
  using children_of_kids [of "[]" "map fd_id items" items]
  unfolding finding_chain_def Let_def by (auto simp: res_simps split: if_splits list.splits)

lemma finding_chain_mset: "mset xs = mset ys \<Longrightarrow> finding_chain xs = finding_chain ys"
proof -
  assume m: "mset xs = mset ys"
  then have "is_history xs c \<longleftrightarrow> is_history ys c" for c by (auto simp: is_history_def)
  then have same: "finding_chain xs = Inr c \<longleftrightarrow> finding_chain ys = Inr c" for c by (simp add: finding_chain_iff)
  show ?thesis
  proof (cases "finding_chain xs")
    case (Inl e)
    then obtain e' where "finding_chain ys = Inl e'" using same by (cases "finding_chain ys") auto
    with Inl show ?thesis using finding_chain_error by metis
  next
    case (Inr c)
    then show ?thesis using same [of c] by simp
  qed
qed

lemma set_finding_ids [simp]: "set (finding_ids rs) = fd_finding_id ` set rs"
  by (simp add: finding_ids_def)

lemma distinct_finding_ids [simp]: "distinct (finding_ids rs)"
  by (simp add: finding_ids_def)

lemma finding_ids_cong: "set rs = set rs' \<Longrightarrow> finding_ids rs = finding_ids rs'"
  by (rule sorted_distinct_set_unique) (auto simp: finding_ids_def)

lemma validated_mset:
  assumes "mset rs = mset rs'"
  shows "validated_decision_chains rs = validated_decision_chains rs'"
proof -
  have "finding_ids rs = finding_ids rs'" using mset_eq_setD [OF assms] by (rule finding_ids_cong)
  moreover have "finding_chain (filter (\<lambda>d. fd_finding_id d = f) rs) = finding_chain (filter (\<lambda>d. fd_finding_id d = f) rs')" for f
    using assms by (intro finding_chain_mset) simp
  ultimately show ?thesis by (simp add: validated_decision_chains_def)
qed

text \<open>The chain of one finding, the empty list for a finding without records.\<close>

definition chain_for :: "decision list \<Rightarrow> string \<Rightarrow> lifecycle_error + decision list" where
  "chain_for rs f = (let items = filter (\<lambda>d. fd_finding_id d = f) rs in if items = [] then Inr [] else finding_chain items)"

lemma history_set: "is_history items chain \<Longrightarrow> set chain = set items"
  by (auto simp: is_history_def dest: mset_eq_setD)

lemma chain_for_finding: "chain_for rs f = Inr chain \<Longrightarrow> d \<in> set chain \<Longrightarrow> fd_finding_id d = f"
  using history_set by (auto simp: chain_for_def Let_def finding_chain_iff split: if_splits)

lemma filter_concat_chains:
  assumes "distinct ids" "\<And>g d. g \<in> set ids \<Longrightarrow> d \<in> set (c g) \<Longrightarrow> fd_finding_id d = g"
  shows "filter (\<lambda>d. fd_finding_id d = f) (concat (map c ids)) = (if f \<in> set ids then c f else [])"
  using assms
proof (induction ids)
  case (Cons g ids)
  have "filter (\<lambda>d. fd_finding_id d = f) (c g) = (if f = g then c g else [])"
    using Cons.prems(2) by (auto simp: filter_id_conv filter_empty_conv)
  moreover have "filter (\<lambda>d. fd_finding_id d = f) (concat (map c ids)) = (if f \<in> set ids then c f else [])"
    using Cons by auto
  ultimately show ?case using Cons.prems(1) by auto
qed simp

lemma validated_iff_chains:
  "validated_decision_chains rs = Inr out \<Longrightarrow> chain_for rs f = Inr (filter (\<lambda>d. fd_finding_id d = f) out)"
proof -
  assume v: "validated_decision_chains rs = Inr out"
  let ?c = "\<lambda>f. finding_chain (filter (\<lambda>d. fd_finding_id d = f) rs)"
  have ok: "\<exists>y. ?c g = Inr y" if "g \<in> set (finding_ids rs)" for g
    using v that map_res_Inr_all [of ?c "finding_ids rs"]
    unfolding validated_decision_chains_def by (auto simp: res_simps)
  then have "map_res ?c (finding_ids rs) = Inr (map (\<lambda>g. projr (?c g)) (finding_ids rs))" by (rule map_res_map)
  then have out: "out = concat (map (\<lambda>g. projr (?c g)) (finding_ids rs))"
    using v by (simp add: validated_decision_chains_def)
  have own: "fd_finding_id d = g" if g: "g \<in> set (finding_ids rs)" and d: "d \<in> set (projr (?c g))" for g d
  proof -
    obtain y where y: "?c g = Inr y" using ok [OF g] by blast
    then have "set y = set (filter (\<lambda>d. fd_finding_id d = g) rs)" using history_set finding_chain_iff by blast
    then show ?thesis using d y by simp
  qed
  have fo: "filter (\<lambda>d. fd_finding_id d = f) out = (if f \<in> set (finding_ids rs) then projr (?c f) else [])"
    unfolding out by (rule filter_concat_chains [OF distinct_finding_ids own])
  have e: "filter (\<lambda>d. fd_finding_id d = f) rs = [] \<longleftrightarrow> f \<notin> set (finding_ids rs)"
    by (auto simp: filter_empty_conv)
  show ?thesis
  proof (cases "f \<in> set (finding_ids rs)")
    case True
    then obtain y where "?c f = Inr y" using ok by blast
    then show ?thesis using fo e True unfolding chain_for_def Let_def by simp
  next
    case False
    then show ?thesis using fo e unfolding chain_for_def Let_def by simp
  qed
qed

lemma validated_subset: "validated_decision_chains rs = Inr out \<Longrightarrow> set out \<subseteq> set rs"
proof
  fix d assume v: "validated_decision_chains rs = Inr out" and d: "d \<in> set out"
  let ?own = "filter (\<lambda>x. fd_finding_id x = fd_finding_id d)"
  have "set (?own out) = set (?own rs)"
  proof (cases "?own rs = []")
    case True
    then show ?thesis using validated_iff_chains [OF v, of "fd_finding_id d"] by (simp add: chain_for_def)
  next
    case False
    then show ?thesis
      using validated_iff_chains [OF v, of "fd_finding_id d"] history_set by (fastforce simp: chain_for_def Let_def finding_chain_iff)
  qed
  moreover have "d \<in> set (?own out)" using d by simp
  ultimately show "d \<in> set rs" by simp
qed

lemma validated_exists:
  assumes "\<And>f. \<exists>c. chain_for rs f = Inr c"
  shows "\<exists>out. validated_decision_chains rs = Inr out"
proof -
  have "\<exists>y. finding_chain (filter (\<lambda>d. fd_finding_id d = g) rs) = Inr y" if "g \<in> set (finding_ids rs)" for g
  proof -
    have "filter (\<lambda>d. fd_finding_id d = g) rs \<noteq> []" using that by (auto simp: filter_empty_conv)
    then show ?thesis using assms [of g] by (auto simp: chain_for_def Let_def)
  qed
  from map_res_map [of "finding_ids rs", OF this] show ?thesis
    by (simp add: validated_decision_chains_def)
qed

text \<open>Adding to a finding's history the decision that points to its last one.\<close>

lemma history_snoc:
  assumes "chain_for rs (fd_finding_id d) = Inr chain" "fd_id d \<notin> fd_id ` set rs"
    and "fd_previous d = (if chain = [] then None else Some (fd_id (last chain)))"
    and "chain \<noteq> [] \<Longrightarrow> fd_rule_id d = fd_rule_id (last chain)"
    and "mset rs' = add_mset d (mset rs)"
  shows "chain_for rs' (fd_finding_id d) = Inr (chain @ [d])"
proof -
  let ?items = "filter (\<lambda>x. fd_finding_id x = fd_finding_id d) rs"
  have m: "mset (filter (\<lambda>x. fd_finding_id x = fd_finding_id d) rs') = add_mset d (mset ?items)"
    using assms(5) by simp
  have "d \<in> set rs'" by (metis assms(5) set_mset_mset union_single_eq_member)
  then have ne: "filter (\<lambda>x. fd_finding_id x = fd_finding_id d) rs' \<noteq> []" by (auto simp: filter_empty_conv)
  have "is_history (filter (\<lambda>x. fd_finding_id x = fd_finding_id d) rs') (chain @ [d])"
  proof (cases "?items = []")
    case True
    then have "chain = []" using assms(1) by (simp add: chain_for_def)
    then show ?thesis using m assms(3) True ne by (simp add: is_history_def)
  next
    case False
    then have h: "is_history ?items chain" using assms(1) by (simp add: chain_for_def finding_chain_iff)
    then have c: "chain \<noteq> []" "mset chain = mset ?items" using False by (auto simp: is_history_def)
    have new: "fd_id d \<notin> fd_id ` set chain" using history_set [OF h] assms(2) by auto
    have h': "distinct (map fd_id chain)" "linked_from None chain" "list_all (\<lambda>x. fd_rule_id x = fd_rule_id (hd chain)) chain"
      using h by (simp_all add: is_history_def)
    then have "fd_rule_id (last chain) = fd_rule_id (hd chain)"
      using last_in_set [OF c(1)] unfolding list_all_iff by blast
    then have rule: "fd_rule_id d = fd_rule_id (hd chain)" using assms(4) [OF c(1)] by (rule trans [rotated])
    show ?thesis
      unfolding is_history_def
    proof (intro conjI ne)
      show "mset (chain @ [d]) = mset (filter (\<lambda>x. fd_finding_id x = fd_finding_id d) rs')"
        unfolding m using c(2) by (simp del: mset_filter)
      show "distinct (map fd_id (chain @ [d]))" using h'(1) new by simp
      show "linked_from None (chain @ [d])" using h'(2) c(1) assms(3) by (simp add: linked_from_append)
      show "list_all (\<lambda>x. fd_rule_id x = fd_rule_id (hd (chain @ [d]))) (chain @ [d])"
        using h'(3) c(1) rule by (simp add: hd_append)
    qed
  qed
  then show ?thesis using ne by (simp add: chain_for_def finding_chain_iff)
qed

lemma chain_for_other:
  assumes "mset rs' = add_mset d (mset rs)" "fd_finding_id d \<noteq> f"
  shows "chain_for rs' f = chain_for rs f"
proof -
  have "mset (filter (\<lambda>x. fd_finding_id x = f) rs') = mset (filter (\<lambda>x. fd_finding_id x = f) rs)"
    using assms by simp
  then show ?thesis
    unfolding chain_for_def Let_def by (metis finding_chain_mset mset_zero_iff)
qed

subsection \<open>Recording extends exactly one history\<close>

lemma dict_set_fresh: "k \<notin> fst ` set d \<Longrightarrow> dict_set k v d = d @ [(k, v)]"
  by (induction k v d rule: dict_set.induct) auto

definition kept :: "(string \<Rightarrow> string) \<Rightarrow> (instant \<Rightarrow> string) \<Rightarrow> (string \<times> batch_receipt) list
    \<Rightarrow> (string \<times> decision stored) list \<Rightarrow> decision list" where
  "kept sha256 iso_text receipts entries =
     List.map_filter id (map (\<lambda>e. projr (visible_record sha256 iso_text receipts e)) entries)"

lemma kept_mset: "mset xs = mset ys \<Longrightarrow> mset (kept sha256 iso_text receipts xs) = mset (kept sha256 iso_text receipts ys)"
  by (simp add: kept_def map_filter_def filter_map)

lemma kept_append [simp]:
  "kept sha256 iso_text receipts (xs @ ys) = kept sha256 iso_text receipts xs @ kept sha256 iso_text receipts ys"
  by (simp add: kept_def map_filter_def)

lemma visible_InrD:
  assumes "visible_records sha256 iso_text fs = Inr records"
  obtains receipts where "load_batch_receipts fs = Inr receipts"
    "\<forall>e \<in> set (fs_decisions fs). \<exists>y. visible_record sha256 iso_text receipts e = Inr y"
    "records = kept sha256 iso_text receipts (sort_key fst (fs_decisions fs))"
    "\<forall>(operation_id, r) \<in> set receipts. seen_in_batch records operation_id = set (bj_decision_ids (br_journal r))"
proof -
  obtain receipts found where r: "load_batch_receipts fs = Inr receipts"
      "map_res (visible_record sha256 iso_text receipts) (sort_key fst (fs_decisions fs)) = Inr found"
      "records = List.map_filter id found"
      "\<not> list_ex (\<lambda>(operation_id, r). seen_in_batch records operation_id \<noteq> set (bj_decision_ids (br_journal r))) receipts"
    using assms unfolding visible_records_def Let_def by (auto simp: res_simps split: if_splits)
  have ok: "\<exists>y. visible_record sha256 iso_text receipts e = Inr y" if "e \<in> set (sort_key fst (fs_decisions fs))" for e
    using map_res_Inr_all [OF r(2) that] .
  then have "found = map (\<lambda>e. projr (visible_record sha256 iso_text receipts e)) (sort_key fst (fs_decisions fs))"
    using map_res_map [of "sort_key fst (fs_decisions fs)" "visible_record sha256 iso_text receipts"] r(2) by simp
  then have "records = kept sha256 iso_text receipts (sort_key fst (fs_decisions fs))" using r(3) by (simp add: kept_def)
  moreover have "\<forall>(operation_id, r) \<in> set receipts. seen_in_batch records operation_id = set (bj_decision_ids (br_journal r))"
    using r(4) by (auto simp: list_ex_iff)
  ultimately show thesis using that [OF r(1)] ok by simp
qed

lemma visible_InrI:
  assumes "int (length (fs_decisions fs)) \<le> max_decisions_per_project * 10" "load_batch_receipts fs = Inr receipts"
    and "\<forall>e \<in> set (fs_decisions fs). \<exists>y. visible_record sha256 iso_text receipts e = Inr y"
    and "\<forall>(operation_id, r) \<in> set receipts.
      seen_in_batch (kept sha256 iso_text receipts (fs_decisions fs)) operation_id = set (bj_decision_ids (br_journal r))"
  shows "visible_records sha256 iso_text fs = Inr (kept sha256 iso_text receipts (sort_key fst (fs_decisions fs)))"
proof -
  let ?sorted = "sort_key fst (fs_decisions fs)"
  have "map_res (visible_record sha256 iso_text receipts) ?sorted
      = Inr (map (\<lambda>e. projr (visible_record sha256 iso_text receipts e)) ?sorted)"
    using assms(3) by (intro map_res_map) simp
  moreover have "set (kept sha256 iso_text receipts ?sorted) = set (kept sha256 iso_text receipts (fs_decisions fs))"
    by (rule mset_eq_setD, rule kept_mset) simp
  then have "seen_in_batch (kept sha256 iso_text receipts ?sorted) = seen_in_batch (kept sha256 iso_text receipts (fs_decisions fs))"
    by (auto simp: seen_in_batch_def fun_eq_iff)
  ultimately show ?thesis
    using assms unfolding visible_records_def Let_def by (auto simp: kept_def list_ex_iff)
qed

lemma kept_mem:
  assumes "d \<in> set (kept sha256 iso_text receipts entries)"
    and "\<forall>e \<in> set entries. \<exists>y. visible_record sha256 iso_text receipts e = Inr y"
  shows "(fd_id d, Valid d) \<in> set entries \<and> is_hex_id 32 (fd_id d)"
proof -
  obtain e where e: "e \<in> set entries" "projr (visible_record sha256 iso_text receipts e) = Some d"
    using assms(1) by (auto simp: kept_def map_filter_def)
  then have "visible_record sha256 iso_text receipts e = Inr (Some d)" using assms(2) by force
  then have "load_decision e = Inr d"
    by (auto simp: visible_record_def res_simps split: option.splits if_splits)
  then show ?thesis using e(1) by (auto simp: load_decision_def split: prod.splits if_splits stored.splits)
qed

lemma load_batch_receipts_cong:
  "fs_receipts fs' = fs_receipts fs \<Longrightarrow> fs_receipt_temps fs' = fs_receipt_temps fs \<Longrightarrow>
   load_batch_receipts fs' = load_batch_receipts fs"
proof -
  assume "fs_receipts fs' = fs_receipts fs" "fs_receipt_temps fs' = fs_receipt_temps fs"
  moreover from this have "load_receipt stem fs' = load_receipt stem fs" for stem by (simp add: load_receipt_def)
  ultimately show ?thesis by (simp add: load_batch_receipts_def cong: if_cong)
qed

lemma visible_add:
  assumes "visible_records sha256 iso_text fs = Inr records"
    and "fs_decisions fs' = fs_decisions fs @ [(fd_id d, Valid d)]" "fs_receipts fs' = fs_receipts fs"
    and "fs_receipt_temps fs' = fs_receipt_temps fs"
    and "is_hex_id 32 (fd_id d)" "fd_batch d = None"
    and "int (length (fs_decisions fs)) < max_decisions_per_project * 10"
  obtains records' where "visible_records sha256 iso_text fs' = Inr records'" "mset records' = add_mset d (mset records)"
proof -
  obtain receipts where r: "load_batch_receipts fs = Inr receipts"
    "\<forall>e \<in> set (fs_decisions fs). \<exists>y. visible_record sha256 iso_text receipts e = Inr y"
    "records = kept sha256 iso_text receipts (sort_key fst (fs_decisions fs))"
    "\<forall>(operation_id, r) \<in> set receipts. seen_in_batch records operation_id = set (bj_decision_ids (br_journal r))"
    using assms(1) by (rule visible_InrD)
  have new: "visible_record sha256 iso_text receipts (fd_id d, Valid d) = Inr (Some d)"
    using assms(5,6) by (simp add: visible_record_def load_decision_def)
  then have k: "kept sha256 iso_text receipts (fs_decisions fs') = kept sha256 iso_text receipts (fs_decisions fs) @ [d]"
    unfolding assms(2) by (simp add: kept_def map_filter_def)
  have "mset records = mset (kept sha256 iso_text receipts (fs_decisions fs))"
    unfolding r(3) by (rule kept_mset) simp
  moreover from this have "set records = set (kept sha256 iso_text receipts (fs_decisions fs))" by (rule mset_eq_setD)
  ultimately have "visible_records sha256 iso_text fs' = Inr (kept sha256 iso_text receipts (sort_key fst (fs_decisions fs')))"
    using assms(2,6,7) r load_batch_receipts_cong [OF assms(3,4)] new k
    by (intro visible_InrI) (auto simp: seen_in_batch_def)
  moreover have "mset (kept sha256 iso_text receipts (sort_key fst (fs_decisions fs'))) = add_mset d (mset records)"
    using kept_mset [of "sort_key fst (fs_decisions fs')" "fs_decisions fs'" sha256 iso_text receipts] k
      \<open>mset records = mset (kept sha256 iso_text receipts (fs_decisions fs))\<close> by simp
  ultimately show thesis by (rule that)
qed

lemma record_decision_InrD:
  assumes "record_decision sha256 iso_text redact now ids q project_id finding_id rule_id fs = (Inr d, fs')"
  obtains texts existing previous where "checked_texts redact now q = Inr texts"
    "list_for_project sha256 iso_text (dr_organization_id q) project_id fs = Inr existing"
    "checked_previous now (dr_status q) finding_id rule_id existing = Inr previous"
    "d = make_decision now q texts (fd_id d) project_id finding_id rule_id previous None"
    "is_hex_id 32 (fd_id d)" "fd_id d \<notin> fst ` set (fs_decisions fs)" "decision_valid d"
    "fs' = fs\<lparr>fs_decisions := fs_decisions fs @ [(fd_id d, Valid d)], fs_mutations := fs_mutations fs @ [fd_organization_id d]\<rparr>"
proof -
  obtain texts existing previous i where *: "checked_texts redact now q = Inr texts"
    "list_for_project sha256 iso_text (dr_organization_id q) project_id fs = Inr existing"
    "checked_previous now (dr_status q) finding_id rule_id existing = Inr previous"
    "new_id 3 ids {} fs = Inr i"
    "d = make_decision now q texts i project_id finding_id rule_id previous None" "decision_valid d"
    and fs': "fs' = fs\<lparr>fs_decisions := dict_set (fd_id d) (Valid d) (fs_decisions fs),
        fs_mutations := fs_mutations fs @ [fd_organization_id d]\<rparr>"
    using assms unfolding record_decision_def Let_def
    by (auto simp: res_simps split: sum.splits if_splits)
  have "fd_id d = i" unfolding *(5) by (simp add: make_decision_def split: prod.splits)
  moreover have "is_hex_id 32 i" "i \<notin> fst ` set (fs_decisions fs)"
    using *(4) by (auto simp: new_id_def split: option.splits dest!: find_Some_iff_first)
  ultimately show thesis
    using that [OF *(1-3)] * fs' by (simp add: dict_set_fresh)
qed

text \<open>
  C25. Recording a decision appends it to its finding's history and changes nothing else: afterwards
  every history of the project is as before except that of the finding, which has the new decision at
  the end; all other projects and organizations read the same records; and the new status is one
  that the transition table allows from the effective status of the previous decision. (The store is
  below its limit of 100000 files.)
\<close>

theorem record_extends_history:
  assumes "record_decision sha256 iso_text redact now ids q project_id finding_id rule_id fs = (Inr d, fs')"
    and "int (length (fs_decisions fs)) < 100000"
  shows "\<exists>old new. list_for_project sha256 iso_text (dr_organization_id q) project_id fs = Inr old \<and>
    list_for_project sha256 iso_text (dr_organization_id q) project_id fs' = Inr new \<and>
    (\<forall>f. filter (\<lambda>x. fd_finding_id x = f) new =
       filter (\<lambda>x. fd_finding_id x = f) old @ (if f = finding_id then [d] else [])) \<and>
    (\<forall>org p. (org, p) \<noteq> (dr_organization_id q, project_id) \<longrightarrow>
       list_for_project sha256 iso_text org p fs' = list_for_project sha256 iso_text org p fs) \<and>
    (filter (\<lambda>x. fd_finding_id x = finding_id) old \<noteq> [] \<longrightarrow>
       fd_status d \<in> allowed_transitions (effective_status (last (filter (\<lambda>x. fd_finding_id x = finding_id) old)) now))"
proof -
  let ?org = "dr_organization_id q"
  let ?own = "\<lambda>og p. filter (\<lambda>d. fd_organization_id d = og \<and> fd_project_id d = p)"
  from assms(1) obtain texts old previous where *: "checked_texts redact now q = Inr texts"
    "list_for_project sha256 iso_text ?org project_id fs = Inr old"
    "checked_previous now (dr_status q) finding_id rule_id old = Inr previous"
    "d = make_decision now q texts (fd_id d) project_id finding_id rule_id previous None"
    "is_hex_id 32 (fd_id d)" "fd_id d \<notin> fst ` set (fs_decisions fs)"
    "fs' = fs\<lparr>fs_decisions := fs_decisions fs @ [(fd_id d, Valid d)], fs_mutations := fs_mutations fs @ [fd_organization_id d]\<rparr>"
    by (rule record_decision_InrD)
  have d: "fd_organization_id d = ?org" "fd_project_id d = project_id" "fd_finding_id d = finding_id" "fd_rule_id d = rule_id"
    "fd_status d = dr_status q" "fd_previous d = map_option fd_id previous" "fd_batch d = None"
    by (subst *(4), simp add: make_decision_def split: prod.splits)+
  from *(2) obtain records where v: "visible_records sha256 iso_text fs = Inr records"
    and old: "validated_decision_chains (?own ?org project_id records) = Inr old"
    by (auto simp: list_for_project_def res_simps)
  obtain records' where v': "visible_records sha256 iso_text fs' = Inr records'" "mset records' = add_mset d (mset records)"
    by (rule visible_add [OF v, of fs' d]) (use * d assms(2) in \<open>simp_all add: max_decisions_per_project_def\<close>)
  let ?rs = "?own ?org project_id records" and ?rs' = "?own ?org project_id records'"
  have m: "mset ?rs' = add_mset d (mset ?rs)" using v'(2) d(1,2) by simp
  have fresh: "fd_id d \<notin> fd_id ` set ?rs"
  proof
    assume "fd_id d \<in> fd_id ` set ?rs"
    then obtain x where "x \<in> set records" "fd_id x = fd_id d" by auto
    moreover obtain receipts where
        "\<forall>e \<in> set (fs_decisions fs). \<exists>y. visible_record sha256 iso_text receipts e = Inr y"
        "records = kept sha256 iso_text receipts (sort_key fst (fs_decisions fs))"
      using v by (rule visible_InrD) blast
    ultimately have "(fd_id x, Valid x) \<in> set (fs_decisions fs)"
      using kept_mem [of x sha256 iso_text receipts "sort_key fst (fs_decisions fs)"] by simp
    then show False using *(6) \<open>fd_id x = fd_id d\<close> by force
  qed
  let ?h = "filter (\<lambda>x. fd_finding_id x = finding_id) old"
  have prev: "previous = (if ?h = [] then None else Some (last ?h))"
    "?h \<noteq> [] \<Longrightarrow> fd_rule_id (last ?h) = rule_id \<and> dr_status q \<in> allowed_transitions (effective_status (last ?h) now)"
    using *(3) by (auto simp: checked_previous_def Let_def split: if_splits)
  have ext: "chain_for ?rs' finding_id = Inr (?h @ [d])"
    using history_snoc [of ?rs d ?h ?rs'] validated_iff_chains [OF old, of finding_id] fresh m d prev by simp
  have others: "chain_for ?rs' f = Inr (filter (\<lambda>x. fd_finding_id x = f) old)" if "f \<noteq> finding_id" for f
    using chain_for_other [OF m, of f] validated_iff_chains [OF old, of f] that d(3) by simp
  have "\<exists>c. chain_for ?rs' f = Inr c" for f using ext others by (cases "f = finding_id") simp_all
  then obtain new where new: "validated_decision_chains ?rs' = Inr new" using validated_exists by blast
  have "filter (\<lambda>x. fd_finding_id x = f) new = filter (\<lambda>x. fd_finding_id x = f) old @ (if f = finding_id then [d] else [])" for f
    using validated_iff_chains [OF new, of f] ext others [of f] by (cases "f = finding_id") simp_all
  moreover have "list_for_project sha256 iso_text ?org project_id fs' = Inr new"
    using v'(1) new by (simp add: list_for_project_def)
  moreover have "list_for_project sha256 iso_text org p fs' = list_for_project sha256 iso_text org p fs"
    if "(org, p) \<noteq> (?org, project_id)" for org p
    using v v'(1) v'(2) d(1,2) that validated_mset [of "?own org p records'" "?own org p records"]
    by (auto simp: list_for_project_def)
  ultimately show ?thesis using *(2) prev(2) d(5) by (intro exI [of _ old] exI [of _ new]) auto
qed

definition example_request :: decision_request where
  "example_request = \<lparr>dr_organization_id = ''local-admin'', dr_status = Accepted, dr_reason = Some ''known risk'',
     dr_comment = None, dr_actor_id = ''a'', dr_actor_username = ''admin'', dr_actor_role = ''administrator'',
     dr_review_at = Some (AwareDate 9), dr_assignee_user_id = None, dr_assignee_username = None, dr_mentions = None\<rparr>"

definition empty_fs :: decision_fs where
  "empty_fs = \<lparr>fs_decisions = [], fs_receipts = [], fs_receipt_temps = [], fs_journals = [],
     fs_journal_temps = [], fs_staging = [], fs_mutations = []\<rparr>"

definition example_record :: "(lifecycle_error + decision) \<times> decision_fs" where
  "example_record = record_decision (\<lambda>s. s) (\<lambda>t. ''t'') (\<lambda>s. s) 5 [replicate 32 CHR ''1''] example_request
     (replicate 32 CHR ''2'') (replicate 64 CHR ''3'') ''rule'' empty_fs"

lemma example_record_succeeds: "\<exists>d. fst example_record = Inr d"
proof -
  have "isl (fst example_record) = False" by code_simp
  then show ?thesis by (cases "fst example_record") auto
qed

lemma record_extends_history_witness:
  "\<exists>d new. fst example_record = Inr d \<and>
     list_for_project (\<lambda>s. s) (\<lambda>t. ''t'') ''local-admin'' (replicate 32 CHR ''2'') (snd example_record) = Inr new \<and>
     filter (\<lambda>x. fd_finding_id x = replicate 64 CHR ''3'') new = [d]"
proof -
  obtain d where d: "fst example_record = Inr d" using example_record_succeeds by blast
  then have r: "record_decision (\<lambda>s. s) (\<lambda>t. ''t'') (\<lambda>s. s) 5 [replicate 32 CHR ''1''] example_request
     (replicate 32 CHR ''2'') (replicate 64 CHR ''3'') ''rule'' empty_fs = (Inr d, snd example_record)"
    unfolding example_record_def by (metis prod.collapse)
  have "int (length (fs_decisions empty_fs)) < 100000" by (simp add: empty_fs_def)
  from record_extends_history [OF r this] obtain old new where
    o: "list_for_project (\<lambda>s. s) (\<lambda>t. ''t'') (dr_organization_id example_request) (replicate 32 CHR ''2'') empty_fs = Inr old"
      "list_for_project (\<lambda>s. s) (\<lambda>t. ''t'') (dr_organization_id example_request) (replicate 32 CHR ''2'') (snd example_record) = Inr new"
      "\<forall>f. filter (\<lambda>x. fd_finding_id x = f) new =
         filter (\<lambda>x. fd_finding_id x = f) old @ (if f = replicate 64 CHR ''3'' then [d] else [])"
    by blast
  have "old = []" using o(1) by (simp add: list_for_project_def visible_records_def load_batch_receipts_def empty_fs_def
      max_decisions_per_project_def map_filter_def validated_decision_chains_def finding_ids_def)
  then show ?thesis using d o(2,3) by (auto simp: example_request_def)
qed

subsection \<open>Exceptions expire\<close>

text \<open>
  No indefinite acceptance: a recorded acceptance or false positive carries a review date after
  the moment of recording and at most 366 days later, and its effective status is the recorded one
  exactly until that date and \<open>in_review\<close> from then on.
\<close>

theorem exceptions_fall_back_to_review:
  assumes "record_decision sha256 iso_text redact now ids q project_id finding_id rule_id fs = (Inr d, fs')"
    and "exception_status (dr_status q)"
  shows "\<exists>t. fd_review_at d = Some t \<and> now < t \<and> t \<le> now + 366 * 24 * 3600 * 1000000 \<and>
    (\<forall>t'. effective_status d t' = (if t' < t then dr_status q else InReview))"
proof -
  from assms(1) obtain texts previous where *: "checked_texts redact now q = Inr texts"
    "d = make_decision now q texts (fd_id d) project_id finding_id rule_id previous None"
    by (rule record_decision_InrD)
  obtain reason comment review mentions where t: "texts = (reason, comment, review, mentions)" by (cases texts)
  have "normalize_review_at (dr_review_at q) (dr_status q) now = Inr review"
    using *(1) t by (auto simp: checked_texts_def res_simps split: if_splits)
  then obtain u where u: "review = Some u" "now < u" "u \<le> now + max_review_delay"
    using assms(2) by (auto simp: normalize_review_at_def split: option.splits review_date.splits if_splits)
  have d: "fd_review_at d = Some u" "fd_status d = dr_status q"
    by (subst *(2), simp add: make_decision_def t u(1))+
  then have "effective_status d t' = (if t' < u then dr_status q else InReview)" for t'
    using assms(2) by (auto simp: effective_status_def decision_expired_def)
  then show ?thesis using d u by (auto simp: max_review_delay_def)
qed

lemma exceptions_fall_back_to_review_witness:
  "\<exists>d t. fst example_record = Inr d \<and> fd_review_at d = Some t \<and> effective_status d t = InReview"
proof -
  obtain d where d: "fst example_record = Inr d" using example_record_succeeds by blast
  then have r: "record_decision (\<lambda>s. s) (\<lambda>t. ''t'') (\<lambda>s. s) 5 [replicate 32 CHR ''1''] example_request
     (replicate 32 CHR ''2'') (replicate 64 CHR ''3'') ''rule'' empty_fs = (Inr d, snd example_record)"
    unfolding example_record_def by (metis prod.collapse)
  have "exception_status (dr_status example_request)" by (simp add: exception_status_def example_request_def)
  from exceptions_fall_back_to_review [OF r this] d show ?thesis by fastforce
qed

subsection \<open>Paging\<close>

text \<open>A client that follows the cursors, with a bound on the number of pages.\<close>

fun collect_pages ::
  "nat \<Rightarrow> (string \<Rightarrow> string) \<Rightarrow> (instant \<Rightarrow> string) \<Rightarrow> string \<Rightarrow> string \<Rightarrow> string \<Rightarrow> int \<Rightarrow> string option \<Rightarrow> decision_fs
     \<Rightarrow> lifecycle_error + decision list" where
  "collect_pages 0 sha256 iso_text org project finding page cursor fs = Inl InvalidActivityCursor"
| "collect_pages (Suc n) sha256 iso_text org project finding page cursor fs =
     bind_res (page_for_finding sha256 iso_text org project finding page cursor fs) (\<lambda>(items, total, next_cursor).
       case next_cursor of None \<Rightarrow> Inr items
       | Some c \<Rightarrow> bind_res (collect_pages n sha256 iso_text org project finding page (Some c) fs) (\<lambda>rest. Inr (items @ rest)))"

lemma page_from:
  assumes "list_for_project sha256 iso_text org project fs = Inr records"
    and "is_organization_id org" "is_hex_id 32 project" "is_finding_id finding" "1 \<le> page" "page \<le> 25"
    and "newest = rev (filter (\<lambda>d. fd_finding_id d = finding) records)" "distinct (map fd_id newest)"
    and "list_all (\<lambda>d. is_hex_id 32 (fd_id d)) newest"
    and "start \<le> length newest" "cursor = (if start = 0 then None else Some (fd_id (newest ! (start - 1))))"
  shows "page_for_finding sha256 iso_text org project finding page cursor fs =
    (let items = take (nat page) (drop start newest) in
     Inr (items, length newest, if start + nat page < length newest then Some (fd_id (newest ! (start + nat page - 1))) else None))"
proof -
  have hex: "\<not> (case cursor of None \<Rightarrow> False | Some c \<Rightarrow> \<not> is_hex_id 32 c)"
    using assms(9,10,11) by (auto simp: list_all_length)
  have start: "(case cursor of None \<Rightarrow> Some 0 | Some c \<Rightarrow> if c \<in> fd_id ` set newest
      then Some (Suc (length (takeWhile (\<lambda>d. fd_id d \<noteq> c) newest))) else None) = Some start"
  proof (cases start)
    case 0
    then show ?thesis using assms(11) by simp
  next
    case (Suc k)
    then have k: "k < length newest" "cursor = Some (fd_id (newest ! k))" using assms(10,11) by auto
    have "fd_id (newest ! i) \<noteq> fd_id (newest ! k)" if "i < k" for i
      using nth_eq_iff_index_eq [OF assms(8), of i k] that k(1) by simp
    then have "length (takeWhile (\<lambda>d. fd_id d \<noteq> fd_id (newest ! k)) newest) = k"
      using k(1) takeWhile_eq_take_P_nth [of k newest "\<lambda>d. fd_id d \<noteq> fd_id (newest ! k)"] by simp
    then show ?thesis using k Suc by simp
  qed
  have last: "fd_id (last (take (nat page) (drop start newest))) = fd_id (newest ! (start + nat page - 1))"
    if "start + nat page < length newest"
    using that assms(5) by (simp add: last_conv_nth)
  have more: "take (nat page) (drop start newest) \<noteq> [] \<and> start + length (take (nat page) (drop start newest)) < length newest
      \<longleftrightarrow> start + nat page < length newest"
    using assms(5) by auto
  have "page_slice newest page cursor = (let items = take (nat page) (drop start newest) in
     Inr (items, length newest, if start + nat page < length newest then Some (fd_id (newest ! (start + nat page - 1))) else None))"
    unfolding page_slice_def Let_def start using last more by simp
  then show ?thesis
    using assms(1-6) hex unfolding page_for_finding_def max_page_size_def assms(7) by simp
qed

lemma collect_pages_from:
  assumes "list_for_project sha256 iso_text org project fs = Inr records"
    and "is_organization_id org" "is_hex_id 32 project" "is_finding_id finding" "1 \<le> page" "page \<le> 25"
    and "newest = rev (filter (\<lambda>d. fd_finding_id d = finding) records)" "distinct (map fd_id newest)"
    and "list_all (\<lambda>d. is_hex_id 32 (fd_id d)) newest"
  shows "start \<le> length newest \<Longrightarrow> length newest - start < n \<Longrightarrow>
    collect_pages n sha256 iso_text org project finding page
      (if start = 0 then None else Some (fd_id (newest ! (start - 1)))) fs = Inr (drop start newest)"
proof (induction n arbitrary: start)
  case (Suc n)
  let ?next = "start + nat page"
  show ?case
  proof (cases "?next < length newest")
    case True
    have "collect_pages n sha256 iso_text org project finding page (Some (fd_id (newest ! (?next - 1)))) fs = Inr (drop ?next newest)"
      using Suc.IH [of ?next] Suc.prems True assms(5) by simp
    moreover have "take (nat page) (drop start newest) @ drop ?next newest = drop start newest"
      by (metis add.commute append_take_drop_id drop_drop)
    ultimately show ?thesis
      using True page_from [OF assms Suc.prems(1) refl] by (simp add: Let_def)
  next
    case False
    then show ?thesis using page_from [OF assms Suc.prems(1) refl] by (simp add: Let_def)
  qed
qed simp

lemma listed_history_ids:
  assumes "list_for_project sha256 iso_text org project fs = Inr records"
  shows "distinct (map fd_id (filter (\<lambda>d. fd_finding_id d = finding) records)) \<and>
    list_all (\<lambda>d. is_hex_id 32 (fd_id d)) (filter (\<lambda>d. fd_finding_id d = finding) records)"
proof -
  let ?h = "filter (\<lambda>d. fd_finding_id d = finding) records"
  obtain vis where v: "visible_records sha256 iso_text fs = Inr vis"
    and r: "validated_decision_chains (filter (\<lambda>d. fd_organization_id d = org \<and> fd_project_id d = project) vis) = Inr records"
    using assms by (auto simp: list_for_project_def res_simps)
  have chain: "chain_for (filter (\<lambda>d. fd_organization_id d = org \<and> fd_project_id d = project) vis) finding = Inr ?h"
    using r by (rule validated_iff_chains)
  obtain receipts where "\<forall>e \<in> set (fs_decisions fs). \<exists>y. visible_record sha256 iso_text receipts e = Inr y"
      "vis = kept sha256 iso_text receipts (sort_key fst (fs_decisions fs))"
    using v by (rule visible_InrD) blast
  then have hex: "is_hex_id 32 (fd_id d)" if "d \<in> set vis" for d
    using kept_mem [of d sha256 iso_text receipts "sort_key fst (fs_decisions fs)"] that by simp
  show ?thesis
  proof (cases "?h = []")
    case False
    then have h: "is_history (filter (\<lambda>d. fd_finding_id d = finding)
        (filter (\<lambda>d. fd_organization_id d = org \<and> fd_project_id d = project) vis)) ?h"
      using chain by (auto simp: chain_for_def Let_def finding_chain_iff split: if_splits)
    then have "set ?h \<subseteq> set vis" using history_set by fastforce
    then show ?thesis using h hex by (auto simp: is_history_def list_all_iff)
  qed simp
qed

text \<open>
  Paging is complete: a client that starts without a cursor and follows the returned cursors with
  any page size from 1 to 25 receives every decision of the finding exactly once, newest first, in at
  most one page more than there are decisions.
\<close>

theorem paging_returns_whole_history:
  assumes "list_for_project sha256 iso_text org project fs = Inr records"
    and "is_organization_id org" "is_hex_id 32 project" "is_finding_id finding" "1 \<le> page" "page \<le> 25"
  shows "collect_pages (Suc (length records)) sha256 iso_text org project finding page None fs =
    Inr (rev (filter (\<lambda>d. fd_finding_id d = finding) records))"
proof -
  let ?newest = "rev (filter (\<lambda>d. fd_finding_id d = finding) records)"
  have ids: "distinct (map fd_id ?newest)" "list_all (\<lambda>d. is_hex_id 32 (fd_id d)) ?newest"
    using listed_history_ids [OF assms(1), of finding] by (simp_all add: rev_map [symmetric])
  show ?thesis
    using collect_pages_from [OF assms refl ids, of 0 "Suc (length records)"]
    by (simp add: le_imp_less_Suc)
qed

lemma paging_returns_whole_history_witness:
  "\<exists>records. list_for_project (\<lambda>s. s) (\<lambda>t. ''t'') ''local-admin'' (replicate 32 CHR ''2'') (snd example_record) = Inr records \<and>
     collect_pages (Suc (length records)) (\<lambda>s. s) (\<lambda>t. ''t'') ''local-admin'' (replicate 32 CHR ''2'') (replicate 64 CHR ''3'') 1 None
       (snd example_record) = Inr (rev (filter (\<lambda>d. fd_finding_id d = replicate 64 CHR ''3'') records))"
proof -
  have "isl (list_for_project (\<lambda>s. s) (\<lambda>t. ''t'') ''local-admin'' (replicate 32 CHR ''2'') (snd example_record)) = False"
    by code_simp
  then obtain records where r: "list_for_project (\<lambda>s. s) (\<lambda>t. ''t'') ''local-admin'' (replicate 32 CHR ''2'') (snd example_record) = Inr records"
    by (cases "list_for_project (\<lambda>s. s) (\<lambda>t. ''t'') ''local-admin'' (replicate 32 CHR ''2'') (snd example_record)") auto
  have "is_organization_id ''local-admin''" "is_hex_id 32 (replicate 32 CHR ''2'')" "is_finding_id (replicate 64 CHR ''3'')"
    by code_simp+
  from paging_returns_whole_history [OF r this, of 1] r show ?thesis by simp
qed

subsection \<open>The limit on the number of files\<close>

lemma show_nat_length: "n < 10 ^ Suc k \<Longrightarrow> length (show_nat n) \<le> Suc k"
proof (induction k arbitrary: n)
  case 0
  then show ?case by (subst show_nat.simps) simp
next
  case (Suc k)
  show ?case
  proof (cases "n < 10")
    case True
    then show ?thesis by (subst show_nat.simps) simp
  next
    case False
    have "n div 10 < 10 ^ Suc k" using Suc.prems by (simp add: less_mult_imp_div_less)
    with Suc.IH [of "n div 10"] False show ?thesis by (subst show_nat.simps) simp
  qed
qed

text \<open>A store with one decision in each of 100000 files, named by their numbers.\<close>

definition numbered_id :: "nat \<Rightarrow> string" where
  "numbered_id n = replicate (32 - length (show_nat n)) CHR ''0'' @ show_nat n"

definition numbered_decision :: "nat \<Rightarrow> decision" where
  "numbered_decision n = (make_decision 5 example_request (Some ''known risk'', None, Some 9, []) (numbered_id n)
     (replicate 32 CHR ''4'') (replicate 64 CHR ''3'') ''rule'' None None)"

definition full_fs :: decision_fs where
  "full_fs = empty_fs\<lparr>fs_decisions := map (\<lambda>n. (numbered_id n, Valid (numbered_decision n))) [0..<100000]\<rparr>"

lemma numbered_id_hex: "n < 100000 \<Longrightarrow> is_hex_id 32 (numbered_id n)"
proof -
  assume "n < 100000"
  then have "length (show_nat n) \<le> 5" using show_nat_length [of n 4] by simp
  moreover have "list_all is_hex (show_nat n)"
    using show_nat_digits [of n] by (auto simp: list_all_iff char_class_defs)
  moreover have "is_hex CHR ''0''" by code_simp
  ultimately show ?thesis by (auto simp: is_hex_id_def numbered_id_def list_all_iff)
qed

lemma full_fs_visible:
  "\<exists>records. visible_records sha256 iso_text full_fs = Inr records \<and> (\<forall>d \<in> set records. fd_project_id d = replicate 32 CHR ''4'')"
proof -
  have rec: "visible_record sha256 iso_text [] (numbered_id n, Valid (numbered_decision n)) = Inr (Some (numbered_decision n))"
    if "n < 100000" for n
    using numbered_id_hex [OF that] by (simp add: visible_record_def load_decision_def numbered_decision_def make_decision_def)
  have "load_batch_receipts full_fs = Inr []" by (simp add: load_batch_receipts_def full_fs_def empty_fs_def)
  then have "visible_records sha256 iso_text full_fs = Inr (kept sha256 iso_text [] (sort_key fst (fs_decisions full_fs)))"
    using rec by (intro visible_InrI) (auto simp: full_fs_def max_decisions_per_project_def)
  moreover have "fd_project_id d = replicate 32 CHR ''4''"
    if "d \<in> set (kept sha256 iso_text [] (sort_key fst (fs_decisions full_fs)))" for d
  proof -
    have "(fd_id d, Valid d) \<in> set (fs_decisions full_fs)"
      using kept_mem [OF that] rec by (auto simp: full_fs_def)
    then show ?thesis by (auto simp: full_fs_def numbered_decision_def make_decision_def)
  qed
  ultimately show ?thesis by blast
qed

text \<open>
  The global limit is only checked when reading: with exactly 100000 decision files a further
  decision is recorded, and from then on every read of every organization and project raises
  \<^verbatim>\<open>store_limit\<close>.
\<close>

theorem recording_past_limit_blocks_all_reads:
  assumes "record_decision sha256 iso_text redact now ids q project_id finding_id rule_id fs = (Inr d, fs')"
    and "int (length (fs_decisions fs)) = 100000"
  shows "list_for_project sha256 iso_text org project fs' = Inl StoreLimit"
proof -
  from assms(1) have "fs_decisions fs' = fs_decisions fs @ [(fd_id d, Valid d)]"
    by (rule record_decision_InrD) simp
  then show ?thesis
    using assms(2) by (simp add: list_for_project_def visible_records_def max_decisions_per_project_def)
qed

lemma full_fs_record_succeeds:
  "\<exists>d. fst (record_decision (\<lambda>s. s) (\<lambda>t. ''t'') (\<lambda>s. s) 5 [replicate 32 CHR ''f''] example_request
     (replicate 32 CHR ''2'') (replicate 64 CHR ''3'') ''rule'' full_fs) = Inr d"
proof -
  let ?texts = "(Some ''known risk'', None, Some 9, []) :: string option \<times> string option \<times> instant option \<times> string list"
  obtain records where r: "visible_records (\<lambda>s. s) (\<lambda>t. ''t'') full_fs = Inr records"
      "\<forall>d \<in> set records. fd_project_id d = replicate 32 CHR ''4''"
    using full_fs_visible by blast
  have "replicate 32 CHR ''4'' \<noteq> replicate 32 CHR ''2''" by code_simp
  then have own: "filter (\<lambda>d. fd_organization_id d = ''local-admin'' \<and> fd_project_id d = replicate 32 CHR ''2'') records = []"
    using r(2) by (auto simp: filter_empty_conv)
  have texts: "checked_texts (\<lambda>s. s) 5 example_request = Inr ?texts" by code_simp
  have valid: "decision_valid (make_decision 5 example_request ?texts (replicate 32 CHR ''f'') (replicate 32 CHR ''2'')
      (replicate 64 CHR ''3'') ''rule'' None None)" by code_simp
  have hexf: "is_hex_id 32 (replicate 32 CHR ''f'')" by code_simp
  have "replicate 32 CHR ''f'' \<noteq> numbered_id n" for n
  proof
    assume "replicate 32 CHR ''f'' = numbered_id n"
    then have "set (show_nat n) \<subseteq> set (replicate 32 CHR ''f'')" by (auto simp: numbered_id_def)
    moreover obtain c where "c \<in> set (show_nat n)" using show_nat_nonempty [of n] by (cases "show_nat n") auto
    moreover have "\<not> is_digit CHR ''f''" by code_simp
    ultimately show False using show_nat_digits [of n] by auto
  qed
  then have new: "new_id 3 [replicate 32 CHR ''f''] {} full_fs = Inr (replicate 32 CHR ''f'')"
    using hexf by (auto simp: new_id_def full_fs_def image_iff)
  have misc: "rule_supported ''rule''" "assignee_consistent example_request" by code_simp+
  show ?thesis
    unfolding record_decision_def Let_def
    using texts misc new valid r(1) own
    by (simp add: list_for_project_def example_request_def [THEN arg_cong, of dr_organization_id]
        validated_decision_chains_def finding_ids_def checked_previous_def max_decisions_per_project_def
        max_decisions_per_finding_def)
qed

lemma recording_past_limit_blocks_all_reads_witness:
  "list_for_project (\<lambda>s. s) (\<lambda>t. ''t'') ''local-admin'' (replicate 32 CHR ''4'')
     (snd (record_decision (\<lambda>s. s) (\<lambda>t. ''t'') (\<lambda>s. s) 5 [replicate 32 CHR ''f''] example_request
        (replicate 32 CHR ''2'') (replicate 64 CHR ''3'') ''rule'' full_fs)) = Inl StoreLimit"
proof -
  let ?r = "record_decision (\<lambda>s. s) (\<lambda>t. ''t'') (\<lambda>s. s) 5 [replicate 32 CHR ''f''] example_request
        (replicate 32 CHR ''2'') (replicate 64 CHR ''3'') ''rule'' full_fs"
  obtain d where "fst ?r = Inr d" using full_fs_record_succeeds by blast
  then have r: "?r = (Inr d, snd ?r)" by (metis prod.collapse)
  have "int (length (fs_decisions full_fs)) = 100000" by (simp add: full_fs_def)
  from recording_past_limit_blocks_all_reads [OF r this] show ?thesis .
qed

end
