(* ===== verification/File_Steps.thy ===== *)
theory File_Steps
  imports Inspectra_Prelude
begin

section \<open>Programs over a file system that may stop\<close>

text \<open>
  The stores write several files in turn. Their operations are actions over the state of the directories that
  run one file-system step at a time. A fault is a countdown of steps after which the process either loses power
  (\<open>Crashed\<close>: nothing more runs, and the completed steps stay) or gets an \<^verbatim>\<open>OSError\<close>
  (\<open>OsFailed\<close>: the handlers of the code run). \<open>Raised\<close> is an exception of the store itself.
\<close>

datatype ('e, 'a) outcome = Done 'a | Raised 'e | OsFailed | Crashed

datatype fault_kind = PowerLoss | IoError

type_synonym fault = "(nat \<times> fault_kind) option"
type_synonym ('s, 'e, 'a) io = "fault \<Rightarrow> 's \<Rightarrow> ('e, 'a) outcome \<times> fault \<times> 's"

definition ret :: "'a \<Rightarrow> ('s, 'e, 'a) io" where
  "ret x = (\<lambda>b fs. (Done x, b, fs))"

definition raise :: "'e \<Rightarrow> ('s, 'e, 'a) io" where
  "raise e = (\<lambda>b fs. (Raised e, b, fs))"

fun keep_failure :: "('e, 'a) outcome \<Rightarrow> ('e, 'b) outcome" where
  "keep_failure (Raised e) = Raised e"
| "keep_failure OsFailed = OsFailed"
| "keep_failure _ = Crashed"

definition bind_io :: "('s, 'e, 'a) io \<Rightarrow> ('a \<Rightarrow> ('s, 'e, 'b) io) \<Rightarrow> ('s, 'e, 'b) io" where
  "bind_io m f = (\<lambda>b fs. case m b fs of (Done x, b', fs') \<Rightarrow> f x b' fs' | (r, b', fs') \<Rightarrow> (keep_failure r, b', fs'))"

definition read_fs :: "('s \<Rightarrow> 'a) \<Rightarrow> ('s, 'e, 'a) io" where
  "read_fs f = (\<lambda>b fs. (Done (f fs), b, fs))"

definition from_res :: "('s \<Rightarrow> 'e + 'a) \<Rightarrow> ('s, 'e, 'a) io" where
  "from_res f = (\<lambda>b fs. case f fs of Inl e \<Rightarrow> (Raised e, b, fs) | Inr x \<Rightarrow> (Done x, b, fs))"

text \<open>One file-system step.\<close>

definition step_fs :: "('s \<Rightarrow> 's) \<Rightarrow> ('s, 'e, unit) io" where
  "step_fs f = (\<lambda>b fs. case b of
       None \<Rightarrow> (Done (), None, f fs)
     | Some (Suc n, kind) \<Rightarrow> (Done (), Some (n, kind), f fs)
     | Some (0, PowerLoss) \<Rightarrow> (Crashed, None, fs)
     | Some (0, IoError) \<Rightarrow> (OsFailed, None, fs))"

fun for_each :: "'a list \<Rightarrow> ('a \<Rightarrow> ('s, 'e, unit) io) \<Rightarrow> ('s, 'e, unit) io" where
  "for_each [] f = ret ()"
| "for_each (x # xs) f = bind_io (f x) (\<lambda>_. for_each xs f)"

text \<open>\<^verbatim>\<open>except Exception: handler; raise\<close>. Nothing runs after a loss of power.\<close>

definition on_exception :: "('s, 'e, 'a) io \<Rightarrow> ('s, 'e, unit) io \<Rightarrow> ('s, 'e, 'a) io" where
  "on_exception m handler = (\<lambda>b fs. case m b fs of
       (Done x, b', fs') \<Rightarrow> (Done x, b', fs')
     | (Crashed, b', fs') \<Rightarrow> (Crashed, b', fs')
     | (r, b', fs') \<Rightarrow> bind_io handler (\<lambda>_ b'' fs''. (r, b'', fs'')) b' fs')"

text \<open>\<^verbatim>\<open>except OSError as exc: raise StoreError(...)\<close>\<close>

definition os_error_as :: "'e \<Rightarrow> ('s, 'e, 'a) io \<Rightarrow> ('s, 'e, 'a) io" where
  "os_error_as e m = (\<lambda>b fs. case m b fs of (OsFailed, b', fs') \<Rightarrow> (Raised e, b', fs') | r \<Rightarrow> r)"

text \<open>\<^verbatim>\<open>except StoreError: handler; raise\<close>, which does not catch an \<^verbatim>\<open>OSError\<close>.\<close>

definition on_raised :: "('s, 'e, 'a) io \<Rightarrow> ('s, 'e, unit) io \<Rightarrow> ('s, 'e, 'a) io" where
  "on_raised m handler = (\<lambda>b fs. case m b fs of
       (Raised e, b', fs') \<Rightarrow> bind_io handler (\<lambda>_ b'' fs''. (Raised e, b'', fs'')) b' fs'
     | r \<Rightarrow> r)"

text \<open>What a handler of an \<^verbatim>\<open>OSError\<close> does to the files before the exception goes on.\<close>

definition on_os_failure :: "('s, 'e, unit) io \<Rightarrow> ('s \<Rightarrow> 's) \<Rightarrow> ('s, 'e, unit) io" where
  "on_os_failure m f = (\<lambda>b fs. case m b fs of (OsFailed, b', fs') \<Rightarrow> (OsFailed, b', f fs') | r \<Rightarrow> r)"

subsection \<open>Running an action\<close>

lemma bind_Done: "m b fs = (Done x, b', fs') \<Longrightarrow> bind_io m f b fs = f x b' fs'"
  by (simp add: bind_io_def)

lemma from_res_Done: "f fs = Inr x \<Longrightarrow> from_res f b fs = (Done x, b, fs)"
  by (simp add: from_res_def)

lemma read_fs_Done: "read_fs f b fs = (Done (f fs), b, fs)"
  by (simp add: read_fs_def)

lemma for_each_idle:
  "(\<And>x. x \<in> set xs \<Longrightarrow> f x b fs = (Done (), b, fs)) \<Longrightarrow> for_each xs f b fs = (Done (), b, fs)"
  by (induction xs) (simp_all add: ret_def bind_io_def)

lemma bind_from_res: "bind_io (from_res f) g b fs = (case f fs of Inl e \<Rightarrow> (Raised e, b, fs) | Inr x \<Rightarrow> g x b fs)"
  by (simp add: bind_io_def from_res_def split: sum.splits)

lemma bind_read: "bind_io (read_fs f) g b fs = g (f fs) b fs"
  by (simp add: bind_io_def read_fs_def)

lemma step_fs_quiet: "step_fs f None fs = (Done (), None, f fs)"
  by (simp add: step_fs_def)

lemma bind_step_quiet: "bind_io (step_fs f) g None fs = g () None (f fs)"
  by (simp add: bind_io_def step_fs_def)

lemma os_error_as_Done: "m b fs = (Done x, b', fs') \<Longrightarrow> os_error_as e m b fs = (Done x, b', fs')"
  by (simp add: os_error_as_def)

lemma os_error_as_Raised: "m b fs = (Raised e', b', fs') \<Longrightarrow> os_error_as e m b fs = (Raised e', b', fs')"
  by (simp add: os_error_as_def)

lemma on_os_failure_Done: "m b fs = (Done x, b', fs') \<Longrightarrow> on_os_failure m f b fs = (Done x, b', fs')"
  by (simp add: on_os_failure_def)

lemma on_raised_Done: "m b fs = (Done x, b', fs') \<Longrightarrow> on_raised m h b fs = (Done x, b', fs')"
  by (simp add: on_raised_def)

lemma bind_Raised: "m b fs = (Raised e, b', fs') \<Longrightarrow> bind_io m f b fs = (Raised e, b', fs')"
  by (simp add: bind_io_def)

text \<open>What an action keeps, whatever happens to it.\<close>

definition keeps :: "('s \<Rightarrow> bool) \<Rightarrow> ('s, 'e, 'a) io \<Rightarrow> bool" where
  "keeps P m \<longleftrightarrow> (\<forall>b fs. P fs \<longrightarrow> P (snd (snd (m b fs))))"

lemma keeps_bind: "keeps P m \<Longrightarrow> (\<And>x. keeps P (f x)) \<Longrightarrow> keeps P (bind_io m f)"
  unfolding keeps_def bind_io_def by (auto split: prod.splits outcome.splits) (metis snd_conv)+

lemma keeps_basic:
  "keeps P (ret x)" "keeps P (raise e)" "keeps P (read_fs f)" "keeps P (from_res g)"
  "(\<And>fs. P fs \<Longrightarrow> P (h fs)) \<Longrightarrow> keeps P (step_fs h)"
  by (auto simp: keeps_def ret_def raise_def read_fs_def from_res_def step_fs_def
      split: sum.splits option.splits prod.splits nat.splits fault_kind.splits)

lemma keeps_for_each: "(\<And>x. keeps P (f x)) \<Longrightarrow> keeps P (for_each xs f)"
  by (induction xs) (auto intro: keeps_bind keeps_basic)

end
