(* ===== verification/Remediation_Batches.thy ===== *)
theory Remediation_Batches
  imports Finding_Decisions File_Steps
begin

section \<open>Remediation batches\<close>

text \<open>
  Model of the batch half of \<^verbatim>\<open>backend/app/finding_lifecycle.py\<close>: a batch of decisions is staged, journaled,
  moved into place and committed by a receipt, so that its decisions become visible together, and
  \<^verbatim>\<open>recover_pending_batches\<close> finishes or removes what an interruption left.

  Operations are actions over the directories that run one file-system step at a time. A fault is a
  countdown of steps after which the process either loses power (\<open>Crashed\<close>, nothing more runs) or gets an
  \<^verbatim>\<open>OSError\<close> (\<open>OsFailed\<close>, the handlers of the code run). The code calls \<^verbatim>\<open>fsync\<close> on each file and directory
  it changes, so every completed step survives; a step that has not completed leaves nothing but the
  temporary file of \<^verbatim>\<open>_durable_write_json\<close>, whose creation is a step of its own.
\<close>

type_synonym 'a action = "(decision_fs, lifecycle_error, 'a) io"

subsection \<open>Steps of the protocol\<close>

definition temp_name :: "string \<Rightarrow> string" where
  "temp_name stem = ''.'' @ stem @ ''.json.tmp''"

definition journal_valid :: "batch_journal \<Rightarrow> bool" where
  "journal_valid j \<longleftrightarrow>
     is_batch_id (bj_operation_id j) \<and> is_organization_id (bj_organization_id j) \<and> is_batch_id (bj_request_digest j) \<and>
     is_batch_id (bj_group_id j) \<and> 1 \<le> length (bj_decision_ids j) \<and> length (bj_decision_ids j) \<le> 25 \<and>
     distinct (bj_decision_ids j) \<and> set (map fst (bj_digests j)) = set (bj_decision_ids j) \<and>
     list_all (is_hex_id 32) (bj_decision_ids j) \<and> list_all (\<lambda>(k, v). is_batch_id v) (bj_digests j)"

definition set_staged :: "string \<Rightarrow> string \<Rightarrow> decision stored \<Rightarrow> decision_fs \<Rightarrow> decision_fs" where
  "set_staged op name content fs =
     fs\<lparr>fs_staging := map (\<lambda>(k, d). (k, if k = op then dict_set name content d else d)) (fs_staging fs)\<rparr>"

definition unset_staged :: "string \<Rightarrow> string \<Rightarrow> decision_fs \<Rightarrow> decision_fs" where
  "unset_staged op name fs =
     fs\<lparr>fs_staging := map (\<lambda>(k, d). (k, if k = op then dict_pop name d else d)) (fs_staging fs)\<rparr>"

definition make_staging :: "string \<Rightarrow> unit action" where
  "make_staging op = step_fs (\<lambda>fs. fs\<lparr>fs_staging := dict_set op [] (fs_staging fs)\<rparr>)"

text \<open>
  \<^verbatim>\<open>_durable_write_json\<close>: create the temporary file, then rename it. An \<^verbatim>\<open>OSError\<close> of the second step
  discards the temporary file in the \<^verbatim>\<open>finally\<close> clause; only a loss of power leaves it behind.
\<close>

definition durable_write ::
  "(decision_fs \<Rightarrow> decision_fs) \<Rightarrow> (decision_fs \<Rightarrow> decision_fs) \<Rightarrow> (decision_fs \<Rightarrow> decision_fs) \<Rightarrow> unit action" where
  "durable_write create rename discard = bind_io (step_fs create) (\<lambda>_. on_os_failure (step_fs rename) discard)"

definition write_staged :: "string \<Rightarrow> decision \<Rightarrow> unit action" where
  "write_staged op d =
     durable_write (set_staged op (temp_name (fd_id d)) Corrupt)
       (\<lambda>fs. set_staged op (fd_id d) (Valid d) (unset_staged op (temp_name (fd_id d)) fs))
       (unset_staged op (temp_name (fd_id d)))"

text \<open>
  In the two directories of journals and receipts the temporary names are unique; under the storage lock
  the last one is the writer's own.
\<close>

definition write_journal :: "string \<Rightarrow> batch_journal \<Rightarrow> unit action" where
  "write_journal op j =
     durable_write (\<lambda>fs. fs\<lparr>fs_journal_temps := fs_journal_temps fs @ [op]\<rparr>)
       (\<lambda>fs. fs\<lparr>fs_journal_temps := butlast (fs_journal_temps fs),
                fs_journals := dict_set op (Valid j) (fs_journals fs)\<rparr>)
       (\<lambda>fs. fs\<lparr>fs_journal_temps := butlast (fs_journal_temps fs)\<rparr>)"

definition write_receipt :: "string \<Rightarrow> batch_receipt \<Rightarrow> unit action" where
  "write_receipt op r =
     durable_write (\<lambda>fs. fs\<lparr>fs_receipt_temps := fs_receipt_temps fs @ [op]\<rparr>)
       (\<lambda>fs. fs\<lparr>fs_receipt_temps := butlast (fs_receipt_temps fs),
                fs_receipts := dict_set op (Valid r) (fs_receipts fs)\<rparr>)
       (\<lambda>fs. fs\<lparr>fs_receipt_temps := butlast (fs_receipt_temps fs)\<rparr>)"

definition remove_staging :: "string \<Rightarrow> unit action" where
  "remove_staging op =
     bind_io (read_fs (\<lambda>fs. map_of (fs_staging fs) op)) (\<lambda>dir.
       case dir of None \<Rightarrow> ret ()
       | Some children \<Rightarrow>
           bind_io (for_each (map fst children) (\<lambda>name. step_fs (unset_staged op name))) (\<lambda>_.
             step_fs (\<lambda>fs. fs\<lparr>fs_staging := dict_pop op (fs_staging fs)\<rparr>)))"

definition batch_journal_of ::
  "(string \<Rightarrow> string) \<Rightarrow> (instant \<Rightarrow> string) \<Rightarrow> string \<Rightarrow> string \<Rightarrow> string \<Rightarrow> string \<Rightarrow> decision list \<Rightarrow> instant \<Rightarrow> batch_journal" where
  "batch_journal_of sha256 iso_text op org request_digest group_id records prepared_at =
     \<lparr>bj_operation_id = op, bj_organization_id = org, bj_request_digest = request_digest, bj_group_id = group_id,
      bj_decision_ids = map fd_id records,
      bj_digests = map (\<lambda>d. (fd_id d, decision_digest sha256 iso_text d)) records, bj_prepared_at = prepared_at\<rparr>"

definition prepare_batch :: "string \<Rightarrow> decision list \<Rightarrow> batch_journal \<Rightarrow> unit action" where
  "prepare_batch op records j =
     bind_io (read_fs (\<lambda>fs. map_of (fs_staging fs) op)) (\<lambda>existing.
       if existing \<noteq> None then raise BatchStateInvalid
       else bind_io (make_staging op) (\<lambda>_.
         on_exception
           (bind_io (for_each records (write_staged op)) (\<lambda>_.
              if \<not> journal_valid j then raise LifecycleStoreUnavailable else write_journal op j))
           (bind_io (read_fs (\<lambda>fs. map_of (fs_journals fs) op)) (\<lambda>journal.
              if journal = None then remove_staging op else ret ()))))"

definition cleanup_completed :: "string \<Rightarrow> unit action" where
  "cleanup_completed op =
     bind_io (step_fs (\<lambda>fs. fs\<lparr>fs_journals := dict_pop op (fs_journals fs)\<rparr>)) (\<lambda>_. remove_staging op)"

text \<open>Moving one staged decision into place, with the checks that follow.\<close>

definition move_decision ::
  "(string \<Rightarrow> string) \<Rightarrow> (instant \<Rightarrow> string) \<Rightarrow> batch_journal \<Rightarrow> string \<Rightarrow> unit action" where
  "move_decision sha256 iso_text j decision_id =
     (let op = bj_operation_id j in
      bind_io (read_fs (\<lambda>fs. (map_of (fs_decisions fs) decision_id,
                              Option.bind (map_of (fs_staging fs) op) (\<lambda>d. map_of d decision_id)))) (\<lambda>(final, staged).
        bind_io (case final of
            Some content \<Rightarrow> from_res (\<lambda>_. load_decision (decision_id, content))
          | None \<Rightarrow>
              (case staged of None \<Rightarrow> raise BatchStateInvalid
               | Some content \<Rightarrow>
                   bind_io (from_res (\<lambda>_. load_decision (decision_id, content))) (\<lambda>d.
                     bind_io (step_fs (\<lambda>fs. (unset_staged op decision_id fs)
                         \<lparr>fs_decisions := dict_set decision_id content (fs_decisions fs)\<rparr>)) (\<lambda>_. ret d)))) (\<lambda>d.
          if fd_batch d \<noteq> Some op \<or> fd_organization_id d \<noteq> bj_organization_id j
             \<or> map_of (bj_digests j) decision_id \<noteq> Some (decision_digest sha256 iso_text d)
          then raise BatchStateInvalid else ret ())))"

definition recover_operation ::
  "(string \<Rightarrow> string) \<Rightarrow> (instant \<Rightarrow> string) \<Rightarrow> instant \<Rightarrow> batch_journal \<Rightarrow> unit action" where
  "recover_operation sha256 iso_text now j =
     (let op = bj_operation_id j in
      bind_io (read_fs (\<lambda>fs. map_of (fs_receipts fs) op)) (\<lambda>existing.
        if existing \<noteq> None
        then bind_io (from_res (load_receipt op)) (\<lambda>r.
          if bj_organization_id (br_journal r) \<noteq> bj_organization_id j \<or> bj_request_digest (br_journal r) \<noteq> bj_request_digest j
             \<or> set (bj_digests (br_journal r)) \<noteq> set (bj_digests j)
          then raise BatchStateInvalid else cleanup_completed op)
        else bind_io (read_fs (\<lambda>fs. map_of (fs_staging fs) op)) (\<lambda>dir.
          if dir = None then raise BatchStateInvalid
          else bind_io (for_each (bj_decision_ids j) (move_decision sha256 iso_text j)) (\<lambda>_.
            bind_io (write_receipt op \<lparr>br_journal = j, br_completed_at = now, br_replayable = True\<rparr>) (\<lambda>_.
              bind_io (cleanup_completed op) (\<lambda>_.
                step_fs (\<lambda>fs. fs\<lparr>fs_mutations := fs_mutations fs @ [bj_organization_id j]\<rparr>)))))))"

definition recover_batch ::
  "(string \<Rightarrow> string) \<Rightarrow> (instant \<Rightarrow> string) \<Rightarrow> instant \<Rightarrow> string \<Rightarrow> unit action" where
  "recover_batch sha256 iso_text now op =
     bind_io (read_fs (\<lambda>fs. map_of (fs_journals fs) op)) (\<lambda>content.
       case content of
         Some (Valid j) \<Rightarrow> if bj_operation_id j \<noteq> op then raise BatchStateInvalid else recover_operation sha256 iso_text now j
       | _ \<Rightarrow> raise BatchStateInvalid)"

definition orphan_record :: "string list \<Rightarrow> decision \<Rightarrow> bool" where
  "orphan_record known d = (case fd_batch d of None \<Rightarrow> False | Some op \<Rightarrow> op \<noteq> [] \<and> op \<notin> set known)"

definition cleanup_orphans :: "unit action" where
  "cleanup_orphans =
     bind_io (from_res load_batch_receipts) (\<lambda>receipts.
       bind_io (read_fs (\<lambda>fs. (filter is_batch_id (map fst (fs_journals fs)), fs_decisions fs, map fst (fs_staging fs))))
         (\<lambda>(journal_ids, entries, staging_ids).
           bind_io (for_each entries (\<lambda>entry.
              bind_io (from_res (\<lambda>_. load_decision entry)) (\<lambda>d.
                if orphan_record (map fst receipts @ journal_ids) d
                then step_fs (\<lambda>fs. fs\<lparr>fs_decisions := dict_pop (fst entry) (fs_decisions fs)\<rparr>) else ret ()))) (\<lambda>_.
             for_each staging_ids (\<lambda>op. if is_batch_id op \<and> op \<notin> set journal_ids then remove_staging op else ret ()))))"

definition recover_pending_batches ::
  "(string \<Rightarrow> string) \<Rightarrow> (instant \<Rightarrow> string) \<Rightarrow> instant \<Rightarrow> nat action" where
  "recover_pending_batches sha256 iso_text now =
     bind_io (read_fs (\<lambda>fs. sort (filter is_batch_id (map fst (fs_journals fs))))) (\<lambda>ops.
       bind_io (for_each ops (recover_batch sha256 iso_text now)) (\<lambda>_.
         bind_io cleanup_orphans (\<lambda>_. ret (length ops))))"

definition has_pending_batches :: "decision_fs \<Rightarrow> bool" where
  "has_pending_batches fs \<longleftrightarrow> fs_journals fs \<noteq> [] \<or> fs_journal_temps fs \<noteq> [] \<or> fs_staging fs \<noteq> []"

definition replay_check ::
  "(string \<Rightarrow> string) \<Rightarrow> (instant \<Rightarrow> string) \<Rightarrow> string \<Rightarrow> string \<Rightarrow> batch_receipt \<Rightarrow> decision \<Rightarrow> bool" where
  "replay_check sha256 iso_text op org r d \<longleftrightarrow>
     fd_organization_id d = org \<and> fd_batch d = Some op \<and>
     map_of (bj_digests (br_journal r)) (fd_id d) = Some (decision_digest sha256 iso_text d)"

definition replay_batch ::
  "(string \<Rightarrow> string) \<Rightarrow> (instant \<Rightarrow> string) \<Rightarrow> string \<Rightarrow> string \<Rightarrow> string \<Rightarrow> decision_fs \<Rightarrow> lifecycle_error + decision list option" where
  "replay_batch sha256 iso_text op org request_digest fs =
     (if \<not> is_batch_id op \<or> \<not> is_batch_id request_digest then Inl InvalidBatch
      else if map_of (fs_receipts fs) op = None then Inr None
      else bind_res (load_receipt op fs) (\<lambda>r.
        if bj_organization_id (br_journal r) \<noteq> org then Inl IdempotencyConflict
        else if bj_request_digest (br_journal r) \<noteq> request_digest then Inl IdempotencyConflict
        else if \<not> br_replayable r then Inl BatchReplayUnavailable
        else bind_res (map_res (\<lambda>i. case map_of (fs_decisions fs) i of
                 None \<Rightarrow> Inl StoredDecisionInvalid | Some content \<Rightarrow> load_decision (i, content))
               (bj_decision_ids (br_journal r))) (\<lambda>records.
          if list_all (replay_check sha256 iso_text op org r) records then Inr (Some records) else Inl BatchStateInvalid)))"

subsection \<open>Recording a batch\<close>

type_synonym batch_item = "string \<times> string \<times> string"

definition check_item ::
  "(string \<Rightarrow> string) \<Rightarrow> (instant \<Rightarrow> string) \<Rightarrow> instant \<Rightarrow> decision_request \<Rightarrow> batch_item list \<Rightarrow> decision_fs \<Rightarrow> batch_item
     \<Rightarrow> lifecycle_error + decision option" where
  "check_item sha256 iso_text now q items fs item =
     (case item of (project_id, finding_id, rule_id) \<Rightarrow>
        if \<not> rule_supported rule_id then Inl FindingNotSupported
        else bind_res (list_for_project sha256 iso_text (dr_organization_id q) project_id fs) (\<lambda>existing.
          if int (length existing + length (filter (\<lambda>(p, f, r). p = project_id) items)) > max_decisions_per_project
          then Inl ProjectDecisionLimit
          else checked_previous now (dr_status q) finding_id rule_id existing))"

text \<open>The loop that draws identifiers and builds the records; one list of candidates for each item.\<close>

fun build_records ::
  "instant \<Rightarrow> decision_request \<Rightarrow> string option \<times> string option \<times> instant option \<times> string list \<Rightarrow> string \<Rightarrow> decision_fs
     \<Rightarrow> string list list \<Rightarrow> string set \<Rightarrow> (batch_item \<times> decision option) list \<Rightarrow> lifecycle_error + decision list" where
  "build_records now q texts op fs ids reserved [] = Inr []"
| "build_records now q texts op fs ids reserved (((project_id, finding_id, rule_id), previous) # rest) =
     bind_res (new_id 6 (case ids of [] \<Rightarrow> [] | c # _ \<Rightarrow> c) reserved fs) (\<lambda>decision_id.
       let d = make_decision now q texts decision_id project_id finding_id rule_id previous (Some op) in
       if \<not> decision_valid d then Inl DecisionValidationError
       else bind_res (build_records now q texts op fs (drop 1 ids) (insert decision_id reserved) rest) (\<lambda>ds. Inr (d # ds)))"

definition plan_batch ::
  "(string \<Rightarrow> string) \<Rightarrow> (instant \<Rightarrow> string) \<Rightarrow> instant \<Rightarrow> string list list \<Rightarrow> string \<Rightarrow> batch_item list \<Rightarrow> decision_request
     \<Rightarrow> string option \<times> string option \<times> instant option \<times> string list \<Rightarrow> decision_fs \<Rightarrow> lifecycle_error + decision list" where
  "plan_batch sha256 iso_text now ids op items q texts fs =
     bind_res (map_res (check_item sha256 iso_text now q items fs) items) (\<lambda>previous.
       build_records now q texts op fs ids {} (zip items previous))"

definition commit_batch ::
  "(string \<Rightarrow> string) \<Rightarrow> (instant \<Rightarrow> string) \<Rightarrow> instant \<Rightarrow> decision list \<Rightarrow> batch_journal \<Rightarrow> unit action" where
  "commit_batch sha256 iso_text completed_at records j =
     bind_io (prepare_batch (bj_operation_id j) records j) (\<lambda>_. recover_operation sha256 iso_text completed_at j)"

definition record_many ::
  "(string \<Rightarrow> string) \<Rightarrow> (instant \<Rightarrow> string) \<Rightarrow> (string \<Rightarrow> string) \<Rightarrow> instant \<Rightarrow> instant \<Rightarrow> string list list \<Rightarrow> decision_request
     \<Rightarrow> string \<Rightarrow> string \<Rightarrow> string \<Rightarrow> batch_item list \<Rightarrow> (decision list \<times> bool) action" where
  "record_many sha256 iso_text redact now completed_at ids q op request_digest group_id items =
     (if \<not> (1 \<le> length items \<and> length items \<le> 25) \<or> \<not> distinct (map (\<lambda>(p, f, r). (p, f)) items) then raise InvalidBatch
      else if \<not> is_batch_id op \<or> \<not> is_batch_id request_digest \<or> \<not> is_batch_id group_id then raise InvalidBatch
      else bind_io (from_res (\<lambda>_. checked_texts redact now q)) (\<lambda>texts.
        if \<not> assignee_consistent q then raise InvalidAssignee
        else bind_io (from_res (replay_batch sha256 iso_text op (dr_organization_id q) request_digest)) (\<lambda>replay.
          case replay of Some records \<Rightarrow> ret (records, True)
          | None \<Rightarrow>
              bind_io (read_fs (\<lambda>fs. map_of (fs_journals fs) op)) (\<lambda>journal.
                if journal \<noteq> None
                then bind_io (recover_batch sha256 iso_text completed_at op) (\<lambda>_.
                  bind_io (from_res (replay_batch sha256 iso_text op (dr_organization_id q) request_digest)) (\<lambda>again.
                    case again of None \<Rightarrow> raise BatchRecoveryFailed | Some records \<Rightarrow> ret (records, True)))
                else bind_io (from_res (plan_batch sha256 iso_text now ids op items q texts)) (\<lambda>records.
                  bind_io (os_error_as LifecycleStoreUnavailable (commit_batch sha256 iso_text completed_at records
                     (batch_journal_of sha256 iso_text op (dr_organization_id q) request_digest group_id records now))) (\<lambda>_.
                    ret (records, False)))))))"

text \<open>\<^verbatim>\<open>batch_binding\<close>: the operation identifier and the request digest of an idempotency key.\<close>

definition idempotency_char :: "char \<Rightarrow> bool" where
  "idempotency_char c \<longleftrightarrow> is_ascii_alnum c \<or> c \<in> {CHR ''.'', CHR ''_'', CHR '':'', CHR ''-''}"

definition batch_binding ::
  "(string \<Rightarrow> string) \<Rightarrow> string \<Rightarrow> string \<Rightarrow> string \<Rightarrow> json \<Rightarrow> lifecycle_error + string \<times> string" where
  "batch_binding sha256 organization_id actor_id idempotency_key request_payload =
     (if \<not> is_organization_id organization_id \<or> \<not> (1 \<le> length actor_id \<and> length actor_id \<le> 64)
         \<or> \<not> (16 \<le> length idempotency_key \<and> length idempotency_key \<le> 128) \<or> \<not> list_all idempotency_char idempotency_key
      then Inl InvalidBatch
      else Inr (sha256 (''inspectra-remediation-operation-v1'' @ [CHR 0x00] @ organization_id @ [CHR 0x00] @ idempotency_key),
                sha256 (''inspectra-remediation-request-v1'' @ [CHR 0x00] @ organization_id @ [CHR 0x00] @ actor_id
                        @ [CHR 0x00] @ idempotency_key @ [CHR 0x00] @ dumps_compact request_payload)))"

subsection \<open>Deleting a project\<close>

definition retained_receipt :: "string set \<Rightarrow> batch_receipt \<Rightarrow> batch_receipt" where
  "retained_receipt removed r =
     (let ids = filter (\<lambda>i. i \<notin> removed) (bj_decision_ids (br_journal r)) in
      r\<lparr>br_journal := (br_journal r)\<lparr>bj_decision_ids := ids,
            bj_digests := filter (\<lambda>(k, v). k \<in> set ids) (bj_digests (br_journal r))\<rparr>, br_replayable := False\<rparr>)"

definition update_receipt :: "string set \<Rightarrow> string \<times> batch_receipt \<Rightarrow> unit action" where
  "update_receipt removed entry =
     (case entry of (op, r) \<Rightarrow>
        let retained = filter (\<lambda>i. i \<notin> removed) (bj_decision_ids (br_journal r)) in
        if length retained = length (bj_decision_ids (br_journal r)) then ret ()
        else if retained = [] then step_fs (\<lambda>fs. fs\<lparr>fs_receipts := dict_pop op (fs_receipts fs)\<rparr>)
        else write_receipt op (retained_receipt removed r))"

definition delete_project ::
  "(string \<Rightarrow> string) \<Rightarrow> (instant \<Rightarrow> string) \<Rightarrow> string \<Rightarrow> string \<Rightarrow> nat action" where
  "delete_project sha256 iso_text organization_id project_id =
     bind_io (from_res (list_for_project sha256 iso_text organization_id project_id)) (\<lambda>records.
       bind_io (for_each records (\<lambda>d. step_fs (\<lambda>fs. fs\<lparr>fs_decisions := dict_pop (fd_id d) (fs_decisions fs)\<rparr>))) (\<lambda>_.
         bind_io (from_res load_batch_receipts) (\<lambda>receipts.
           bind_io (for_each receipts (update_receipt (fd_id ` set records))) (\<lambda>_.
             bind_io (if records \<noteq> [] then step_fs (\<lambda>fs. fs\<lparr>fs_mutations := fs_mutations fs @ [organization_id]\<rparr>) else ret ())
               (\<lambda>_. ret (length records))))))"

subsection \<open>Reasoning about interrupted runs\<close>

text \<open>
  \<open>runs P m Q E\<close>: from a state with \<open>P\<close> the action raises no lifecycle error; it ends with a value and
  \<open>Q\<close>, or, only if a fault was scheduled, it is interrupted in a state with \<open>E\<close>.
\<close>

fun ends :: "fault \<Rightarrow> ('a \<Rightarrow> decision_fs \<Rightarrow> bool) \<Rightarrow> (decision_fs \<Rightarrow> bool) \<Rightarrow> (lifecycle_error, 'a) outcome \<times> fault \<times> decision_fs \<Rightarrow> bool" where
  "ends b Q E (Done x, b', fs') = (Q x fs' \<and> (b = None \<longrightarrow> b' = None))"
| "ends b Q E (Raised e, b', fs') = False"
| "ends b Q E (OsFailed, b', fs') = (b \<noteq> None \<and> b' = None \<and> E fs')"
| "ends b Q E (Crashed, b', fs') = (b \<noteq> None \<and> E fs')"

definition runs :: "(decision_fs \<Rightarrow> bool) \<Rightarrow> 'a action \<Rightarrow> ('a \<Rightarrow> decision_fs \<Rightarrow> bool) \<Rightarrow> (decision_fs \<Rightarrow> bool) \<Rightarrow> bool" where
  "runs P m Q E \<longleftrightarrow> (\<forall>b fs. P fs \<longrightarrow> ends b Q E (m b fs))"

lemma ends_weaken:
  assumes "ends b Q E r" "\<And>x fs. Q x fs \<Longrightarrow> Q' x fs" "\<And>fs. E fs \<Longrightarrow> E' fs"
  shows "ends b Q' E' r"
proof -
  obtain o' b' fs' where r: "r = (o', b', fs')" by (cases r)
  show ?thesis using assms unfolding r by (cases o') auto
qed

lemma runs_weaken:
  assumes "runs P m Q E" "\<And>fs. P' fs \<Longrightarrow> P fs" "\<And>x fs. Q x fs \<Longrightarrow> Q' x fs" "\<And>fs. E fs \<Longrightarrow> E' fs"
  shows "runs P' m Q' E'"
  using assms ends_weaken [of _ Q E _ Q' E'] unfolding runs_def by blast

lemma runs_ret [intro!]: "(\<And>fs. P fs \<Longrightarrow> Q x fs) \<Longrightarrow> runs P (ret x) Q E"
  by (simp add: runs_def ret_def)

lemma runs_step [intro!]: "(\<And>fs. P fs \<Longrightarrow> Q () (f fs)) \<Longrightarrow> (\<And>fs. P fs \<Longrightarrow> E fs) \<Longrightarrow> runs P (step_fs f) Q E"
  by (auto simp: runs_def step_fs_def split: option.splits prod.splits nat.splits fault_kind.splits)

lemma ends_bind:
  assumes "ends b R E (m b fs)" "\<And>x b' fs'. R x fs' \<Longrightarrow> ends b' Q E (f x b' fs')"
  shows "ends b Q E (bind_io m f b fs)"
proof -
  obtain r b' fs' where m: "m b fs = (r, b', fs')" by (cases "m b fs")
  show ?thesis
  proof (cases r)
    case (Done x)
    then have x: "R x fs'" "b = None \<longrightarrow> b' = None" using assms(1) m by simp_all
    obtain r2 b2 fs2 where f: "f x b' fs' = (r2, b2, fs2)" by (cases "f x b' fs'")
    have "ends b' Q E (r2, b2, fs2)" using assms(2) [OF x(1), of b'] f by simp
    then show ?thesis using x(2) m Done f unfolding bind_io_def by (cases r2) auto
  qed (use assms(1) m in \<open>auto simp: bind_io_def\<close>)
qed

lemma runs_bind:
  assumes "runs P m R E" "\<And>x. runs (R x) (f x) Q E"
  shows "runs P (bind_io m f) Q E"
  using assms unfolding runs_def by (auto intro!: ends_bind [where R = R])

lemma runs_read:
  assumes "\<And>fs. P fs \<Longrightarrow> runs (\<lambda>fs'. fs' = fs) (f (g fs)) Q E"
  shows "runs P (bind_io (read_fs g) f) Q E"
  using assms unfolding runs_def bind_io_def read_fs_def by simp

lemma runs_read_const:
  assumes "\<And>fs. P fs \<Longrightarrow> g fs = v" "runs P (f v) Q E"
  shows "runs P (bind_io (read_fs g) f) Q E"
  using assms unfolding runs_def bind_io_def read_fs_def by simp

lemma runs_at: "runs P m Q E \<Longrightarrow> P fs \<Longrightarrow> runs (\<lambda>fs'. fs' = fs) m Q E"
  unfolding runs_def by blast

lemma runs_from_res:
  assumes "\<And>fs. P fs \<Longrightarrow> \<exists>x. g fs = Inr x \<and> R x fs"
  shows "runs P (from_res g) R E"
  unfolding runs_def from_res_def
proof (intro allI impI)
  fix b fs assume "P fs"
  then obtain x where "g fs = Inr x" "R x fs" using assms by blast
  then show "ends b R E (case g fs of Inl e \<Rightarrow> (Raised e, b, fs) | Inr x \<Rightarrow> (Done x, b, fs))" by simp
qed

lemma runs_each_state: "(\<And>fs. P fs \<Longrightarrow> runs (\<lambda>fs'. fs' = fs) m Q E) \<Longrightarrow> runs P m Q E"
  unfolding runs_def by blast


lemma runs_ex: "(\<And>x. runs (P x) m Q E) \<Longrightarrow> runs (\<lambda>fs. \<exists>x. P x fs) m Q E"
  unfolding runs_def by blast

lemma runs_for_each:
  assumes "\<And>i. i < length xs \<Longrightarrow> runs (I i) (f (xs ! i)) (\<lambda>_. I (Suc i)) E"
  shows "runs (I 0) (for_each xs f) (\<lambda>_. I (length xs)) E"
  using assms
proof (induction xs arbitrary: I)
  case Nil
  then show ?case by auto
next
  case (Cons x xs)
  have "runs (I 0) (f x) (\<lambda>_. I (Suc 0)) E" using Cons.prems [of 0] by simp
  moreover have "runs (I (Suc 0)) (for_each xs f) (\<lambda>_. I (Suc (length xs))) E"
    using Cons.IH [of "\<lambda>i. I (Suc i)"] Cons.prems by force
  ultimately show ?case by (auto intro: runs_bind)
qed

lemma runs_for_each_inv:
  "(\<And>x. x \<in> set xs \<Longrightarrow> runs I (f x) (\<lambda>_. I) E) \<Longrightarrow> runs I (for_each xs f) (\<lambda>_. I) E"
  using runs_for_each [of xs "\<lambda>_. I" f E] by simp

lemma runs_on_exception:
  assumes "runs P m Q E" "runs E handler (\<lambda>_. E') E'" "\<And>fs. E fs \<Longrightarrow> E' fs"
  shows "runs P (on_exception m handler) Q E'"
  unfolding runs_def
proof (intro allI impI)
  fix b fs assume "P fs"
  obtain r b' fs' where m: "m b fs = (r, b', fs')" by (cases "m b fs")
  have 1: "ends b Q E (r, b', fs')" using assms(1) \<open>P fs\<close> m unfolding runs_def by metis
  show "ends b Q E' (on_exception m handler b fs)"
  proof (cases r)
    case OsFailed
    then have x: "b \<noteq> None" "b' = None" "E fs'" using 1 by simp_all
    obtain r2 b2 fs2 where h: "handler None fs' = (r2, b2, fs2)" by (cases "handler None fs'")
    have "ends None (\<lambda>_. E') E' (r2, b2, fs2)" using assms(2) x(3) h unfolding runs_def by metis
    then show ?thesis
      using x m OsFailed h unfolding on_exception_def bind_io_def by (cases r2) auto
  qed (use 1 m assms(3) in \<open>auto simp: on_exception_def\<close>)
qed

lemma runs_durable_write:
  assumes "\<And>fs. P fs \<Longrightarrow> T (create fs)" "\<And>fs. T fs \<Longrightarrow> Q () (rename fs)" "\<And>fs. T fs \<Longrightarrow> E (discard fs)"
    and "\<And>fs. P fs \<Longrightarrow> E fs" "\<And>fs. T fs \<Longrightarrow> E fs"
  shows "runs P (durable_write create rename discard) Q E"
  unfolding durable_write_def
proof (rule runs_bind)
  show "runs P (step_fs create) (\<lambda>_. T) E" using assms by auto
  show "runs T (on_os_failure (step_fs rename) discard) Q E" for x :: unit
    using assms
    by (auto simp: runs_def on_os_failure_def step_fs_def split: option.splits prod.splits nat.splits fault_kind.splits)
qed

subsection \<open>The phases of a batch\<close>

definition entries_of :: "decision list \<Rightarrow> (string \<times> decision stored) list" where
  "entries_of ds = map (\<lambda>d. (fd_id d, Valid d)) ds"

text \<open>A batch of new records over directories without pending work.\<close>

definition batch_setup ::
  "(string \<Rightarrow> string) \<Rightarrow> (instant \<Rightarrow> string) \<Rightarrow> decision_fs \<Rightarrow> batch_journal \<Rightarrow> decision list \<Rightarrow> bool" where
  "batch_setup sha256 iso_text B j R \<longleftrightarrow>
     fs_journals B = [] \<and> fs_staging B = [] \<and> fs_receipt_temps B = [] \<and>
     bj_operation_id j \<notin> fst ` set (fs_receipts B) \<and> journal_valid j \<and>
     bj_decision_ids j = map fd_id R \<and> bj_digests j = map (\<lambda>d. (fd_id d, decision_digest sha256 iso_text d)) R \<and>
     distinct (map fd_id R) \<and>
     (\<forall>d \<in> set R. is_hex_id 32 (fd_id d) \<and> fd_batch d = Some (bj_operation_id j) \<and>
        fd_organization_id d = bj_organization_id j \<and> fd_id d \<notin> fst ` set (fs_decisions B))"

definition at_base :: "decision_fs \<Rightarrow> decision_fs \<Rightarrow> bool" where
  "at_base B fs \<longleftrightarrow> fs_decisions fs = fs_decisions B \<and> fs_receipts fs = fs_receipts B \<and>
     fs_receipt_temps fs = [] \<and> fs_journals fs = []"

definition clean :: "decision_fs \<Rightarrow> decision_fs \<Rightarrow> bool" where
  "clean B fs \<longleftrightarrow> at_base B fs \<and> fs_staging fs = []"

definition staging_phase :: "decision_fs \<Rightarrow> string \<Rightarrow> decision_fs \<Rightarrow> bool" where
  "staging_phase B op fs \<longleftrightarrow> at_base B fs \<and> (\<exists>children. fs_staging fs = [(op, children)])"

definition moving :: "decision_fs \<Rightarrow> batch_journal \<Rightarrow> decision list \<Rightarrow> nat \<Rightarrow> decision_fs \<Rightarrow> bool" where
  "moving B j R k fs \<longleftrightarrow>
     fs_decisions fs = fs_decisions B @ entries_of (take k R) \<and> fs_receipts fs = fs_receipts B \<and>
     fs_receipt_temps fs = [] \<and> fs_journals fs = [(bj_operation_id j, Valid j)] \<and>
     fs_staging fs = [(bj_operation_id j, entries_of (drop k R))]"

definition receipt_pending :: "decision_fs \<Rightarrow> batch_journal \<Rightarrow> decision list \<Rightarrow> decision_fs \<Rightarrow> bool" where
  "receipt_pending B j R fs \<longleftrightarrow>
     fs_decisions fs = fs_decisions B @ entries_of R \<and> fs_receipts fs = fs_receipts B \<and>
     fs_receipt_temps fs = [bj_operation_id j] \<and> fs_journals fs = [(bj_operation_id j, Valid j)] \<and>
     fs_staging fs = [(bj_operation_id j, [])]"

definition committed :: "decision_fs \<Rightarrow> batch_journal \<Rightarrow> decision list \<Rightarrow> decision_fs \<Rightarrow> bool" where
  "committed B j R fs \<longleftrightarrow>
     fs_decisions fs = fs_decisions B @ entries_of R \<and> fs_receipt_temps fs = [] \<and>
     (\<exists>t. fs_receipts fs = fs_receipts B @
        [(bj_operation_id j, Valid \<lparr>br_journal = j, br_completed_at = t, br_replayable = True\<rparr>)]) \<and>
     (fs_journals fs = [] \<or> fs_journals fs = [(bj_operation_id j, Valid j)]) \<and>
     (fs_staging fs = [] \<or> fs_staging fs = [(bj_operation_id j, [])])"

definition finished :: "decision_fs \<Rightarrow> batch_journal \<Rightarrow> decision list \<Rightarrow> decision_fs \<Rightarrow> bool" where
  "finished B j R fs \<longleftrightarrow> committed B j R fs \<and> fs_journals fs = [] \<and> fs_staging fs = []"

text \<open>Every state an interruption can leave; the last two are before and after the commit.\<close>

definition safe_state :: "decision_fs \<Rightarrow> batch_journal \<Rightarrow> decision list \<Rightarrow> decision_fs \<Rightarrow> bool" where
  "safe_state B j R fs \<longleftrightarrow>
     clean B fs \<or> staging_phase B (bj_operation_id j) fs \<or> (\<exists>k \<le> length R. moving B j R k fs) \<or> committed B j R fs"

lemma entries_of_simps [simp]:
  "entries_of [] = []" "entries_of (d # ds) = (fd_id d, Valid d) # entries_of ds"
  "entries_of (xs @ ys) = entries_of xs @ entries_of ys" "fst ` set (entries_of ds) = fd_id ` set ds"
  by (auto simp: entries_of_def image_iff)

lemma entries_lookup:
  "distinct (map fd_id ds) \<Longrightarrow> d \<in> set ds \<Longrightarrow> map_of (entries_of ds) (fd_id d) = Some (Valid d)"
  by (induction ds) (auto simp: image_iff)

lemma entries_lookup_None: "i \<notin> fd_id ` set ds \<Longrightarrow> map_of (entries_of ds) i = None"
  by (simp add: map_of_eq_None_iff)

lemma dict_pop_absent: "k \<notin> fst ` set d \<Longrightarrow> dict_pop k d = d"
  by (auto simp: dict_pop_def filter_id_conv)

lemma dict_pop_simps [simp]: "dict_pop k [] = []" "dict_pop k ((k', v) # d) = (if k' = k then dict_pop k d else (k', v) # dict_pop k d)"
  "dict_pop k (d @ d') = dict_pop k d @ dict_pop k d'"
  by (auto simp: dict_pop_def)

lemma temp_name_not_hex: "is_hex_id n i \<Longrightarrow> temp_name stem \<noteq> i"
proof
  assume "is_hex_id n i" "temp_name stem = i"
  then have "is_hex CHR ''.''" by (auto simp: is_hex_id_def temp_name_def)
  then show False by (simp add: char_class_defs)
qed

subsection \<open>Preparing\<close>

text \<open>The staging directory after \<open>i\<close> records.\<close>

definition staged_upto :: "decision_fs \<Rightarrow> string \<Rightarrow> decision list \<Rightarrow> nat \<Rightarrow> decision_fs \<Rightarrow> bool" where
  "staged_upto B op R i fs \<longleftrightarrow> at_base B fs \<and> fs_staging fs = [(op, entries_of (take i R))]"

lemma at_base_staging [simp]:
  "at_base B (set_staged op name content fs) = at_base B fs" "at_base B (unset_staged op name fs) = at_base B fs"
  "at_base B (fs\<lparr>fs_staging := x\<rparr>) = at_base B fs"
  by (simp_all add: at_base_def set_staged_def unset_staged_def)

lemma staged_upto_phase: "staged_upto B op R i fs \<Longrightarrow> staging_phase B op fs"
  by (auto simp: staged_upto_def staging_phase_def)

lemma write_staged_runs:
  assumes "batch_setup sha256 iso_text B j R" "i < length R" "op = bj_operation_id j"
  shows "runs (staged_upto B op R i) (write_staged op (R ! i)) (\<lambda>_. staged_upto B op R (Suc i)) (staging_phase B op)"
proof -
  let ?d = "R ! i" and ?tmp = "temp_name (fd_id (R ! i))"
  have hex: "is_hex_id 32 (fd_id d)" if "d \<in> set R" for d using assms(1) that by (simp add: batch_setup_def)
  have dist: "distinct (map fd_id R)" using assms(1) by (simp add: batch_setup_def)
  have tmp: "?tmp \<notin> fd_id ` set (take i R)"
    using hex temp_name_not_hex by (metis image_iff in_set_takeD)
  have new: "fd_id ?d \<notin> fd_id ` set (take i R)"
  proof -
    have "distinct (map fd_id (take (Suc i) R))" using dist by (simp add: take_map [symmetric])
    then show ?thesis using assms(2) by (simp add: take_Suc_conv_app_nth)
  qed
  show ?thesis
    unfolding write_staged_def
  proof (rule runs_durable_write [where T = "\<lambda>fs. at_base B fs \<and> fs_staging fs = [(op, entries_of (take i R) @ [(?tmp, Corrupt)])]"])
    show "at_base B (set_staged op ?tmp Corrupt fs) \<and> fs_staging (set_staged op ?tmp Corrupt fs)
        = [(op, entries_of (take i R) @ [(?tmp, Corrupt)])]" if "staged_upto B op R i fs" for fs
      using that tmp by (simp add: staged_upto_def set_staged_def dict_set_fresh at_base_def)
    show "staged_upto B op R (Suc i) (set_staged op (fd_id ?d) (Valid ?d) (unset_staged op ?tmp fs))"
      if "at_base B fs \<and> fs_staging fs = [(op, entries_of (take i R) @ [(?tmp, Corrupt)])]" for fs
      using that tmp new assms(2)
      by (simp add: staged_upto_def set_staged_def unset_staged_def dict_set_fresh dict_pop_absent at_base_def take_Suc_conv_app_nth)
  qed (auto simp: staging_phase_def staged_upto_def unset_staged_def at_base_def)
qed

lemma remove_staging_runs:
  "runs (staging_phase B op) (remove_staging op) (\<lambda>_. clean B) (staging_phase B op)"
  unfolding remove_staging_def
proof (rule runs_read)
  fix fs assume fs: "staging_phase B op fs"
  then obtain children where eq: "fs_staging fs = [(op, children)]" by (auto simp: staging_phase_def)
  have "runs (staging_phase B op) (for_each (map fst children) (\<lambda>name. step_fs (unset_staged op name)))
      (\<lambda>_. staging_phase B op) (staging_phase B op)"
    by (rule runs_for_each_inv) (auto simp: staging_phase_def unset_staged_def at_base_def)
  moreover have "runs (staging_phase B op) (step_fs (\<lambda>fs. fs\<lparr>fs_staging := dict_pop op (fs_staging fs)\<rparr>))
      (\<lambda>_. clean B) (staging_phase B op)"
    by (auto simp: staging_phase_def clean_def)
  ultimately have "runs (staging_phase B op) (bind_io (for_each (map fst children) (\<lambda>name. step_fs (unset_staged op name)))
      (\<lambda>_. step_fs (\<lambda>fs. fs\<lparr>fs_staging := dict_pop op (fs_staging fs)\<rparr>))) (\<lambda>_. clean B) (staging_phase B op)"
    by (rule runs_bind)
  from runs_at [OF this fs] eq show "runs (\<lambda>fs'. fs' = fs) (case map_of (fs_staging fs) op of None \<Rightarrow> ret ()
      | Some children \<Rightarrow> bind_io (for_each (map fst children) (\<lambda>name. step_fs (unset_staged op name)))
          (\<lambda>_. step_fs (\<lambda>fs. fs\<lparr>fs_staging := dict_pop op (fs_staging fs)\<rparr>))) (\<lambda>_. clean B) (staging_phase B op)"
    by simp
qed

lemma prepare_batch_runs:
  assumes "batch_setup sha256 iso_text B j R" "op = bj_operation_id j"
  shows "runs (clean B) (prepare_batch op R j) (\<lambda>_. moving B j R 0) (\<lambda>fs. clean B fs \<or> staging_phase B op fs)"
proof -
  let ?E = "\<lambda>fs. clean B fs \<or> staging_phase B op fs"
  have valid: "journal_valid j" using assms(1) by (simp add: batch_setup_def)
  have mk: "runs (clean B) (make_staging op) (\<lambda>_. staged_upto B op R 0) ?E"
    unfolding make_staging_def by (auto simp: clean_def staged_upto_def at_base_def)
  have "runs (staged_upto B op R 0) (for_each R (write_staged op)) (\<lambda>_. staged_upto B op R (length R)) (staging_phase B op)"
    by (rule runs_for_each) (rule write_staged_runs [OF assms(1) _ assms(2)])
  moreover have "runs (staged_upto B op R (length R)) (write_journal op j) (\<lambda>_. moving B j R 0) (staging_phase B op)"
    unfolding write_journal_def
    by (rule runs_durable_write [where T = "staged_upto B op R (length R)"])
      (auto simp: staged_upto_def moving_def at_base_def staging_phase_def assms(2))
  ultimately have body: "runs (staged_upto B op R 0) (bind_io (for_each R (write_staged op)) (\<lambda>_.
      if \<not> journal_valid j then raise LifecycleStoreUnavailable else write_journal op j)) (\<lambda>_. moving B j R 0) (staging_phase B op)"
    using valid by (auto intro: runs_bind)
  have "runs (staging_phase B op) (bind_io (read_fs (\<lambda>fs. map_of (fs_journals fs) op)) (\<lambda>journal.
      if journal = None then remove_staging op else ret ())) (\<lambda>_. ?E) ?E"
  proof (rule runs_read)
    fix fs assume "staging_phase B op fs"
    then show "runs (\<lambda>fs'. fs' = fs) (if map_of (fs_journals fs) op = None then remove_staging op else ret ()) (\<lambda>_. ?E) ?E"
      using runs_weaken [OF remove_staging_runs, of "\<lambda>fs'. fs' = fs" B op "\<lambda>_. ?E" ?E]
      by (simp add: staging_phase_def at_base_def)
  qed
  from runs_on_exception [OF body this] have "runs (staged_upto B op R 0) (on_exception (bind_io (for_each R (write_staged op)) (\<lambda>_.
      if \<not> journal_valid j then raise LifecycleStoreUnavailable else write_journal op j))
      (bind_io (read_fs (\<lambda>fs. map_of (fs_journals fs) op)) (\<lambda>journal. if journal = None then remove_staging op else ret ())))
      (\<lambda>_. moving B j R 0) ?E" by simp
  from runs_bind [OF mk this] show ?thesis
    unfolding prepare_batch_def by (intro runs_read_const [where v = None]) (simp_all add: clean_def)
qed

subsection \<open>Moving and committing\<close>

definition interrupted :: "decision_fs \<Rightarrow> batch_journal \<Rightarrow> decision list \<Rightarrow> decision_fs \<Rightarrow> bool" where
  "interrupted B j R fs \<longleftrightarrow> safe_state B j R fs \<or> receipt_pending B j R fs"

lemma interruptedI:
  "moving B j R k fs \<Longrightarrow> k \<le> length R \<Longrightarrow> interrupted B j R fs" "committed B j R fs \<Longrightarrow> interrupted B j R fs"
  "receipt_pending B j R fs \<Longrightarrow> interrupted B j R fs" "clean B fs \<Longrightarrow> interrupted B j R fs"
  "staging_phase B (bj_operation_id j) fs \<Longrightarrow> interrupted B j R fs"
  by (auto simp: interrupted_def safe_state_def)

lemma setup_record:
  assumes "batch_setup sha256 iso_text B j R" "d \<in> set R"
  shows "is_hex_id 32 (fd_id d)" "fd_batch d = Some (bj_operation_id j)" "fd_organization_id d = bj_organization_id j"
    "fd_id d \<notin> fst ` set (fs_decisions B)" "map_of (bj_digests j) (fd_id d) = Some (decision_digest sha256 iso_text d)"
proof -
  have "distinct (map fst (bj_digests j))" "(fd_id d, decision_digest sha256 iso_text d) \<in> set (bj_digests j)"
    using assms by (auto simp: batch_setup_def comp_def)
  then show "map_of (bj_digests j) (fd_id d) = Some (decision_digest sha256 iso_text d)" by simp
qed (use assms in \<open>simp_all add: batch_setup_def\<close>)

lemma moving_final:
  assumes "batch_setup sha256 iso_text B j R" "moving B j R k fs" "i < k" "k \<le> length R"
  shows "map_of (fs_decisions fs) (fd_id (R ! i)) = Some (Valid (R ! i))"
proof -
  have mem: "R ! i \<in> set R" "R ! i \<in> set (take k R)" using assms(3,4) by (simp, auto simp: in_set_conv_nth intro!: exI [of _ i])
  have "distinct (map fd_id (take k R))" using assms(1) by (simp add: batch_setup_def take_map [symmetric])
  then have "map_of (entries_of (take k R)) (fd_id (R ! i)) = Some (Valid (R ! i))" using mem(2) by (rule entries_lookup)
  moreover have "map_of (fs_decisions B) (fd_id (R ! i)) = None"
    using setup_record(4) [OF assms(1) mem(1)] by (simp add: map_of_eq_None_iff)
  ultimately show ?thesis using assms(2) by (simp add: moving_def map_add_def)
qed

lemma moving_staged:
  assumes "batch_setup sha256 iso_text B j R" "moving B j R k fs" "k < length R"
  shows "map_of (fs_decisions fs) (fd_id (R ! k)) = None"
    "map_of (entries_of (drop k R)) (fd_id (R ! k)) = Some (Valid (R ! k))"
    "dict_pop (fd_id (R ! k)) (entries_of (drop k R)) = entries_of (drop (Suc k) R)"
    "moving B j R (Suc k) (unset_staged (bj_operation_id j) (fd_id (R ! k)) fs
       \<lparr>fs_decisions := dict_set (fd_id (R ! k)) (Valid (R ! k)) (fs_decisions fs)\<rparr>)"
proof -
  have d: "distinct (map fd_id (take k R @ R ! k # drop (Suc k) R))"
    using assms(1,3) id_take_nth_drop [of k R] by (simp add: batch_setup_def)
  have "R ! k \<in> set R" using assms(3) by simp
  moreover have "fst ` set (fs_decisions fs) = fst ` set (fs_decisions B) \<union> fd_id ` set (take k R)"
    using assms(2) by (simp add: moving_def image_Un)
  ultimately have fresh: "fd_id (R ! k) \<notin> fst ` set (fs_decisions fs)"
    using d setup_record(4) [OF assms(1)] by simp
  then show "map_of (fs_decisions fs) (fd_id (R ! k)) = None" by (simp add: map_of_eq_None_iff)
  have dr: "drop k R = R ! k # drop (Suc k) R" using assms(3) by (simp add: Cons_nth_drop_Suc)
  then show "map_of (entries_of (drop k R)) (fd_id (R ! k)) = Some (Valid (R ! k))" by simp
  show pop: "dict_pop (fd_id (R ! k)) (entries_of (drop k R)) = entries_of (drop (Suc k) R)"
    using d unfolding dr by (simp add: dict_pop_absent)
  show "moving B j R (Suc k) (unset_staged (bj_operation_id j) (fd_id (R ! k)) fs
       \<lparr>fs_decisions := dict_set (fd_id (R ! k)) (Valid (R ! k)) (fs_decisions fs)\<rparr>)"
    using assms(2,3) fresh pop
    by (simp add: moving_def unset_staged_def dict_set_fresh take_Suc_conv_app_nth)
qed

lemma move_decision_runs:
  assumes "batch_setup sha256 iso_text B j R" "k \<le> length R" "i < length R"
  shows "runs (moving B j R (max i k)) (move_decision sha256 iso_text j (fd_id (R ! i)))
    (\<lambda>_. moving B j R (max (Suc i) k)) (interrupted B j R)"
proof -
  let ?d = "R ! i" and ?op = "bj_operation_id j"
  have mem: "?d \<in> set R" using assms(3) by simp
  note rec = setup_record [OF assms(1) mem]
  have load: "load_decision (fd_id ?d, Valid ?d) = Inr ?d" using rec(1) by (simp add: load_decision_def)
  let ?Q = "\<lambda>_. moving B j R (max (Suc i) k)" and ?E = "interrupted B j R"
  have "runs (\<lambda>fs'. fs' = fs) (move_decision sha256 iso_text j (fd_id ?d)) ?Q ?E" if fs: "moving B j R (max i k) fs" for fs
  proof (cases "i < k")
    case True
    with assms(2) have "map_of (fs_decisions fs) (fd_id ?d) = Some (Valid ?d)"
      using moving_final [OF assms(1) fs] by simp
    moreover have "max i k = max (Suc i) k" using True by simp
    ultimately show ?thesis
      using fs load rec by (simp add: runs_def move_decision_def Let_def bind_io_def read_fs_def from_res_def ret_def)
  next
    case False
    then have m: "max i k = i" "max (Suc i) k = Suc i" by simp_all
    note st = moving_staged [OF assms(1) fs [unfolded m] assms(3)]
    have "fs_staging fs = [(?op, entries_of (drop i R))]" using fs m by (simp add: moving_def)
    moreover have "interrupted B j R fs" using interruptedI(1) [OF fs] assms(2,3) by simp
    ultimately show ?thesis
      using st(1,2,4) load rec m
      by (simp add: runs_def move_decision_def Let_def bind_io_def read_fs_def from_res_def ret_def step_fs_def
          split: option.splits prod.splits nat.splits fault_kind.splits)
  qed
  then show ?thesis by (rule runs_each_state)
qed

lemma write_receipt_runs:
  assumes "batch_setup sha256 iso_text B j R"
  shows "runs (moving B j R (length R))
    (write_receipt (bj_operation_id j) \<lparr>br_journal = j, br_completed_at = t, br_replayable = True\<rparr>)
    (\<lambda>_. committed B j R) (interrupted B j R)"
  unfolding write_receipt_def
proof (rule runs_durable_write [where T = "receipt_pending B j R"])
  fix fs assume fs: "receipt_pending B j R fs"
  moreover have "bj_operation_id j \<notin> fst ` set (fs_receipts B)" using assms by (simp add: batch_setup_def)
  ultimately show "committed B j R (fs\<lparr>fs_receipt_temps := butlast (fs_receipt_temps fs), fs_receipts :=
      dict_set (bj_operation_id j) (Valid \<lparr>br_journal = j, br_completed_at = t, br_replayable = True\<rparr>) (fs_receipts fs)\<rparr>)"
    by (auto simp: receipt_pending_def committed_def dict_set_fresh)
  have "moving B j R (length R) (fs\<lparr>fs_receipt_temps := butlast (fs_receipt_temps fs)\<rparr>)"
    using fs by (auto simp: receipt_pending_def moving_def)
  then show "interrupted B j R (fs\<lparr>fs_receipt_temps := butlast (fs_receipt_temps fs)\<rparr>)" by (rule interruptedI) simp
  show "interrupted B j R fs" using fs by (rule interruptedI)
next
  fix fs assume "moving B j R (length R) fs"
  then show "receipt_pending B j R (fs\<lparr>fs_receipt_temps := fs_receipt_temps fs @ [bj_operation_id j]\<rparr>)" "interrupted B j R fs"
    by (simp add: receipt_pending_def moving_def, simp add: interruptedI(1))
qed

lemma remove_empty_staging_runs:
  "runs (\<lambda>fs. committed B j R fs \<and> fs_journals fs = []) (remove_staging (bj_operation_id j))
     (\<lambda>_. finished B j R) (committed B j R)"
  unfolding remove_staging_def
proof (rule runs_read)
  let ?op = "bj_operation_id j"
  fix fs assume fs: "committed B j R fs \<and> fs_journals fs = []"
  then consider "fs_staging fs = []" | "fs_staging fs = [(?op, [])]" by (auto simp: committed_def)
  then show "runs (\<lambda>fs'. fs' = fs) (case map_of (fs_staging fs) ?op of None \<Rightarrow> ret ()
      | Some children \<Rightarrow> bind_io (for_each (map fst children) (\<lambda>name. step_fs (unset_staged ?op name)))
          (\<lambda>_. step_fs (\<lambda>fs. fs\<lparr>fs_staging := dict_pop ?op (fs_staging fs)\<rparr>))) (\<lambda>_. finished B j R) (committed B j R)"
  proof cases
    case 1
    then show ?thesis using fs by (auto simp: finished_def)
  next
    case 2
    have "runs (\<lambda>fs'. fs' = fs) (step_fs (\<lambda>fs. fs\<lparr>fs_staging := dict_pop ?op (fs_staging fs)\<rparr>)) (\<lambda>_. finished B j R) (committed B j R)"
      using fs 2 by (auto simp: finished_def committed_def)
    then show ?thesis using 2 by (simp add: runs_def bind_io_def ret_def)
  qed
qed

lemma cleanup_completed_runs:
  "runs (committed B j R) (cleanup_completed (bj_operation_id j)) (\<lambda>_. finished B j R) (committed B j R)"
  unfolding cleanup_completed_def
proof (rule runs_bind)
  show "runs (committed B j R) (step_fs (\<lambda>fs. fs\<lparr>fs_journals := dict_pop (bj_operation_id j) (fs_journals fs)\<rparr>))
      (\<lambda>_ fs. committed B j R fs \<and> fs_journals fs = []) (committed B j R)"
    by (auto simp: committed_def)
qed (rule remove_empty_staging_runs)


lemma setup_journal:
  assumes "batch_setup sha256 iso_text B j R"
  shows "is_batch_id (bj_operation_id j)" "bj_operation_id j \<noteq> []" "map_of (fs_receipts B) (bj_operation_id j) = None"
    "bj_decision_ids j = map fd_id R"
  using assms by (auto simp: batch_setup_def journal_valid_def is_batch_id_def is_hex_id_def map_of_eq_None_iff)

lemma recover_moving_runs:
  assumes "batch_setup sha256 iso_text B j R" "k \<le> length R"
  shows "runs (moving B j R k) (recover_operation sha256 iso_text t j) (\<lambda>_. finished B j R) (interrupted B j R)"
proof -
  note journal = setup_journal [OF assms(1)]
  have comm: "runs (committed B j R) (cleanup_completed (bj_operation_id j)) (\<lambda>_. finished B j R) (interrupted B j R)"
    by (rule runs_weaken [OF cleanup_completed_runs]) (auto intro: interruptedI)
  have fin: "runs (finished B j R) (step_fs (\<lambda>fs. fs\<lparr>fs_mutations := fs_mutations fs @ [bj_organization_id j]\<rparr>))
      (\<lambda>_. finished B j R) (interrupted B j R)"
  proof (rule runs_step)
    fix fs assume "finished B j R fs"
    then show "finished B j R (fs\<lparr>fs_mutations := fs_mutations fs @ [bj_organization_id j]\<rparr>)" "interrupted B j R fs"
      by (simp add: finished_def committed_def) (use \<open>finished B j R fs\<close> in \<open>simp add: finished_def interruptedI\<close>)
  qed
  have "runs (moving B j R (max i k)) (move_decision sha256 iso_text j (bj_decision_ids j ! i)) (\<lambda>_. moving B j R (max (Suc i) k))
      (interrupted B j R)" if "i < length (bj_decision_ids j)" for i
    using move_decision_runs [OF assms, of i] that journal(4) by simp
  then have "runs (moving B j R (max 0 k)) (for_each (bj_decision_ids j) (move_decision sha256 iso_text j))
      (\<lambda>_. moving B j R (max (length (bj_decision_ids j)) k)) (interrupted B j R)"
    by (rule runs_for_each)
  then have moves: "runs (moving B j R k) (for_each (bj_decision_ids j) (move_decision sha256 iso_text j))
      (\<lambda>_. moving B j R (length R)) (interrupted B j R)"
    using assms(2) journal(4) by (simp add: max_absorb1)
  note rest = runs_bind [OF moves runs_bind [OF write_receipt_runs [OF assms(1)] runs_bind [OF comm fin]]]
  show ?thesis
    unfolding recover_operation_def Let_def
    by (rule runs_read_const [where v = None], simp add: moving_def journal, simp,
        rule runs_read_const [where v = "Some (entries_of (drop k R))"], simp add: moving_def, simp add: rest)
qed


lemma commit_batch_runs:
  assumes "batch_setup sha256 iso_text B j R"
  shows "runs (clean B) (commit_batch sha256 iso_text t R j) (\<lambda>_. finished B j R) (interrupted B j R)"
proof -
  have "runs (clean B) (prepare_batch (bj_operation_id j) R j) (\<lambda>_. moving B j R 0) (interrupted B j R)"
    by (rule runs_weaken [OF prepare_batch_runs [OF assms refl]]) (auto intro: interruptedI)
  then show ?thesis
    unfolding commit_batch_def by (rule runs_bind) (rule recover_moving_runs [OF assms], simp)
qed

subsection \<open>What readers see in each phase\<close>

text \<open>A store at rest: it reads without error and every file of a decision is visible.\<close>

definition settled :: "(string \<Rightarrow> string) \<Rightarrow> (instant \<Rightarrow> string) \<Rightarrow> decision_fs \<Rightarrow> decision list \<Rightarrow> bool" where
  "settled sha256 iso_text B old \<longleftrightarrow>
     visible_records sha256 iso_text B = Inr old \<and> fst ` set (fs_decisions B) \<subseteq> fd_id ` set old \<and>
     distinct (map fst (fs_decisions B))"

definition receipts_of :: "decision_fs \<Rightarrow> (string \<times> batch_receipt) list" where
  "receipts_of fs = map (\<lambda>stem. (stem, projr (load_receipt stem fs))) (sort (map fst (fs_receipts fs)))"

lemma load_batch_receipts_iff:
  "load_batch_receipts fs = Inr rs \<longleftrightarrow>
     fs_receipt_temps fs = [] \<and> (\<forall>stem \<in> fst ` set (fs_receipts fs). is_batch_id stem \<and> (\<exists>r. load_receipt stem fs = Inr r)) \<and>
     rs = receipts_of fs" (is "_ = ?R")
proof
  let ?f = "\<lambda>stem. if \<not> is_batch_id stem then Inl BatchStateInvalid else bind_res (load_receipt stem fs) (\<lambda>r. Inr (stem, r))"
  let ?xs = "sort (map fst (fs_receipts fs))"
  have eq: "map (\<lambda>x. projr (?f x)) ?xs = receipts_of fs"
    if "\<forall>stem \<in> set ?xs. is_batch_id stem \<and> (\<exists>r. load_receipt stem fs = Inr r)"
    unfolding receipts_of_def using that by (intro map_cong refl) auto
  show "load_batch_receipts fs = Inr rs \<Longrightarrow> ?R"
  proof -
    assume "load_batch_receipts fs = Inr rs"
    then have t: "fs_receipt_temps fs = []" and m: "map_res ?f ?xs = Inr rs"
      by (auto simp: load_batch_receipts_def split: if_splits)
    have all: "\<forall>stem \<in> set ?xs. is_batch_id stem \<and> (\<exists>r. load_receipt stem fs = Inr r)"
      using map_res_Inr_all [OF m] by (fastforce simp: res_simps split: if_splits)
    then have "map_res ?f ?xs = Inr (map (\<lambda>x. projr (?f x)) ?xs)" by (intro map_res_map) auto
    then show ?R using t m all eq [OF all] by simp
  qed
  show "?R \<Longrightarrow> load_batch_receipts fs = Inr rs"
  proof -
    assume R: ?R
    then have all: "\<forall>stem \<in> set ?xs. is_batch_id stem \<and> (\<exists>r. load_receipt stem fs = Inr r)" by simp
    then have "map_res ?f ?xs = Inr (map (\<lambda>x. projr (?f x)) ?xs)" by (intro map_res_map) auto
    then show ?thesis using R eq [OF all] by (simp add: load_batch_receipts_def)
  qed
qed

lemma map_of_receipts_of:
  "map_of (receipts_of fs) stem = (if stem \<in> fst ` set (fs_receipts fs) then Some (projr (load_receipt stem fs)) else None)"
  by (simp add: receipts_of_def map_of_map_restrict restrict_map_def)

lemma receipts_of_keys: "fst ` set (receipts_of fs) = fst ` set (fs_receipts fs)"
  by (simp add: receipts_of_def image_image)

lemma settledD:
  assumes "settled sha256 iso_text B old" "op \<notin> fst ` set (fs_receipts B)"
  shows "load_batch_receipts B = Inr (receipts_of B)"
    "\<And>e. e \<in> set (fs_decisions B) \<Longrightarrow> \<exists>d. load_decision e = Inr d \<and> fd_batch d \<noteq> Some op \<and>
       \<not> orphan_record (map fst (receipts_of B)) d \<and> visible_record sha256 iso_text (receipts_of B) e = Inr (Some d)"
    "mset old = mset (kept sha256 iso_text (receipts_of B) (fs_decisions B))"
    "\<And>operation_id r. (operation_id, r) \<in> set (receipts_of B) \<Longrightarrow>
       seen_in_batch old operation_id = set (bj_decision_ids (br_journal r))"
proof -
  have vis: "visible_records sha256 iso_text B = Inr old" using assms(1) by (simp add: settled_def)
  then obtain receipts where r: "load_batch_receipts B = Inr receipts"
    "\<forall>e \<in> set (fs_decisions B). \<exists>y. visible_record sha256 iso_text receipts e = Inr y"
    "old = kept sha256 iso_text receipts (sort_key fst (fs_decisions B))"
    "\<forall>(operation_id, r) \<in> set receipts. seen_in_batch old operation_id = set (bj_decision_ids (br_journal r))"
    by (rule visible_InrD)
  have receipts: "receipts = receipts_of B" using r(1) load_batch_receipts_iff by blast
  show "\<exists>d. load_decision e = Inr d \<and> fd_batch d \<noteq> Some op \<and> \<not> orphan_record (map fst (receipts_of B)) d \<and>
      visible_record sha256 iso_text (receipts_of B) e = Inr (Some d)" if e: "e \<in> set (fs_decisions B)" for e
  proof -
    obtain y where y: "visible_record sha256 iso_text receipts e = Inr y" using r(2) e by blast
    obtain d where d: "d \<in> set old" "fd_id d = fst e" using assms(1) e unfolding settled_def by force
    then have "d \<in> set (kept sha256 iso_text receipts (sort_key fst (fs_decisions B)))" using r(3) by simp
    then obtain e' where e': "e' \<in> set (fs_decisions B)" "projr (visible_record sha256 iso_text receipts e') = Some d"
      by (auto simp: kept_def map_filter_def)
    then have vis': "visible_record sha256 iso_text receipts e' = Inr (Some d)" using r(2) by force
    then have load: "load_decision e' = Inr d" by (auto simp: visible_record_def res_simps split: option.splits if_splits)
    then have "fst e' = fst e" using d(2) by (auto simp: load_decision_def split: prod.splits if_splits stored.splits)
    moreover have "distinct (map fst (fs_decisions B))" using assms(1) by (simp add: settled_def)
    ultimately have "e' = e" using e e'(1) by (cases e, cases e') (auto dest: eq_key_imp_eq_value)
    moreover have "map_of receipts op = None" using assms(2) by (simp add: receipts map_of_receipts_of)
    ultimately show ?thesis using vis' load unfolding receipts
      by (auto simp: visible_record_def res_simps orphan_record_def map_of_receipts_of receipts_of_keys
          split: option.splits if_splits)
  qed
  show "mset old = mset (kept sha256 iso_text (receipts_of B) (fs_decisions B))"
    unfolding r(3) receipts by (rule kept_mset) simp
  show "load_batch_receipts B = Inr (receipts_of B)" using r(1) receipts by simp
  show "seen_in_batch old operation_id = set (bj_decision_ids (br_journal r))"
    if "(operation_id, r) \<in> set (receipts_of B)" for operation_id r
    using r(4) that unfolding receipts by blast
qed







subsection \<open>Recovery\<close>

lemma cleanup_orphans_idle:
  assumes "load_batch_receipts fs = Inr receipts" "fs_journals fs = []"
    and "\<And>e. e \<in> set (fs_decisions fs) \<Longrightarrow> \<exists>d. load_decision e = Inr d \<and> \<not> orphan_record (map fst receipts) d"
  shows "cleanup_orphans b fs =
    for_each (map fst (fs_staging fs)) (\<lambda>op. if is_batch_id op then remove_staging op else ret ()) b fs"
proof -
  have "for_each (fs_decisions fs) (\<lambda>entry. bind_io (from_res (\<lambda>_. load_decision entry)) (\<lambda>d.
      if orphan_record (map fst receipts) d
      then step_fs (\<lambda>fs. fs\<lparr>fs_decisions := dict_pop (fst entry) (fs_decisions fs)\<rparr>) else ret ())) b fs = (Done (), b, fs)"
  proof (rule for_each_idle)
    fix e assume "e \<in> set (fs_decisions fs)"
    then obtain d where "load_decision e = Inr d" "\<not> orphan_record (map fst receipts) d" using assms(3) by blast
    then show "bind_io (from_res (\<lambda>_. load_decision e)) (\<lambda>d. if orphan_record (map fst receipts) d
        then step_fs (\<lambda>fs. fs\<lparr>fs_decisions := dict_pop (fst e) (fs_decisions fs)\<rparr>) else ret ()) b fs = (Done (), b, fs)"
      by (simp add: bind_io_def from_res_def ret_def)
  qed
  then show ?thesis
    unfolding cleanup_orphans_def using assms(1,2) by (simp add: bind_Done from_res_Done read_fs_Done)
qed






subsection \<open>Recording a batch from a store at rest\<close>

lemma new_id_InrD: "new_id n ids reserved fs = Inr i \<Longrightarrow> is_hex_id 32 i \<and> i \<notin> reserved \<and> i \<notin> fst ` set (fs_decisions fs)"
  by (auto simp: new_id_def split: option.splits dest!: find_Some_iff_first)

lemma build_records_InrD:
  "build_records now q texts op fs ids reserved pairs = Inr ds \<Longrightarrow>
     map (\<lambda>d. (fd_project_id d, fd_finding_id d, fd_rule_id d)) ds = map fst pairs \<and> distinct (map fd_id ds) \<and>
     fd_id ` set ds \<inter> reserved = {} \<and>
     (\<forall>d \<in> set ds. is_hex_id 32 (fd_id d) \<and> fd_batch d = Some op \<and> fd_organization_id d = dr_organization_id q \<and>
        fd_id d \<notin> fst ` set (fs_decisions fs) \<and> is_organization_id (fd_organization_id d))"
proof (induction now q texts op fs ids reserved pairs arbitrary: ds rule: build_records.induct)
  case (2 now q texts op fs ids reserved project_id finding_id rule_id previous rest)
  from "2.prems" obtain i ds' where i: "new_id 6 (case ids of [] \<Rightarrow> [] | c # _ \<Rightarrow> c) reserved fs = Inr i"
    and v: "decision_valid (make_decision now q texts i project_id finding_id rule_id previous (Some op))"
    and r: "build_records now q texts op fs (drop 1 ids) (insert i reserved) rest = Inr ds'"
    and ds: "ds = make_decision now q texts i project_id finding_id rule_id previous (Some op) # ds'"
    by (auto simp: res_simps Let_def split: if_splits)
  let ?d = "make_decision now q texts i project_id finding_id rule_id previous (Some op)"
  have f: "fd_id ?d = i" "fd_project_id ?d = project_id" "fd_finding_id ?d = finding_id" "fd_rule_id ?d = rule_id"
    "fd_batch ?d = Some op" "fd_organization_id ?d = dr_organization_id q"
    by (simp_all add: make_decision_def split: prod.splits)
  have org: "is_organization_id (fd_organization_id ?d)" using v unfolding decision_valid_def by blast
  note IH = "2.IH" [OF i refl _ r]
  show ?case using IH v new_id_InrD [OF i] f org unfolding ds by auto
qed simp

lemma map_res_length: "map_res f xs = Inr ys \<Longrightarrow> length ys = length xs"
  by (induction xs arbitrary: ys) (auto simp: res_simps)

lemma plan_batch_setup:
  assumes "plan_batch sha256 iso_text now ids op items q texts fs = Inr R"
    and "fs_journals fs = []" "fs_staging fs = []" "fs_receipt_temps fs = []" "op \<notin> fst ` set (fs_receipts fs)"
    and "is_batch_id op" "is_batch_id request_digest" "is_batch_id group_id" "1 \<le> length items" "length items \<le> 25"
    and "\<And>s. is_batch_id (sha256 s)"
  shows "batch_setup sha256 iso_text fs (batch_journal_of sha256 iso_text op (dr_organization_id q) request_digest group_id R now) R"
    "map (\<lambda>d. (fd_project_id d, fd_finding_id d, fd_rule_id d)) R = items"
proof -
  obtain previous where p: "map_res (check_item sha256 iso_text now q items fs) items = Inr previous"
    "build_records now q texts op fs ids {} (zip items previous) = Inr R"
    using assms(1) by (auto simp: plan_batch_def res_simps)
  have "length previous = length items" using map_res_length [OF p(1)] .
  then have m: "map fst (zip items previous) = items" by simp
  note R = build_records_InrD [OF p(2), unfolded m]
  from R show "map (\<lambda>d. (fd_project_id d, fd_finding_id d, fd_rule_id d)) R = items" by blast
  then have len: "length R = length items" by (metis length_map)
  have ne: "R \<noteq> []" using len assms(9) by auto
  have org: "is_organization_id (dr_organization_id q)" using R hd_in_set [OF ne] by metis
  have "journal_valid (batch_journal_of sha256 iso_text op (dr_organization_id q) request_digest group_id R now)"
    unfolding journal_valid_def batch_journal_of_def using R org len assms by (auto simp: list_all_iff comp_def decision_digest_def)
  then show "batch_setup sha256 iso_text fs (batch_journal_of sha256 iso_text op (dr_organization_id q) request_digest group_id R now) R"
    unfolding batch_setup_def using R assms by (auto simp: batch_journal_of_def)
qed

lemma settled_temps: "settled sha256 iso_text fs old \<Longrightarrow> fs_receipt_temps fs = []"
  unfolding settled_def by (metis visible_InrD load_batch_receipts_iff)

text \<open>The two ways a call can go: it changes nothing, or it commits the planned records.\<close>

lemma record_many_cases:
  assumes "record_many sha256 iso_text redact now completed_at ids q op request_digest group_id items fault fs = (r, fault', fs')"
    and "fs_journals fs = []"
  obtains (idle) "fs' = fs" "\<And>recs. r \<noteq> Done (recs, False)"
  | (commit) texts R rc where "plan_batch sha256 iso_text now ids op items q texts fs = Inr R"
      "is_batch_id op" "is_batch_id request_digest" "is_batch_id group_id" "1 \<le> length items" "length items \<le> 25"
      "op \<notin> fst ` set (fs_receipts fs)"
      "commit_batch sha256 iso_text completed_at R
         (batch_journal_of sha256 iso_text op (dr_organization_id q) request_digest group_id R now) fault fs = (rc, fault', fs')"
      "\<And>recs. r = Done (recs, False) \<Longrightarrow> recs = R \<and> rc = Done ()"
proof -
  let ?replay = "replay_batch sha256 iso_text op (dr_organization_id q) request_digest fs"
  let ?commit = "\<lambda>R. commit_batch sha256 iso_text completed_at R
    (batch_journal_of sha256 iso_text op (dr_organization_id q) request_digest group_id R now)"
  consider (bad) "fs' = fs" "\<And>recs. r \<noteq> Done (recs, False)"
    | (go) texts R where "plan_batch sha256 iso_text now ids op items q texts fs = Inr R"
      "1 \<le> length items \<and> length items \<le> 25" "is_batch_id op \<and> is_batch_id request_digest \<and> is_batch_id group_id"
      "?replay = Inr None"
      "bind_io (os_error_as LifecycleStoreUnavailable (?commit R)) (\<lambda>_. ret (R, False)) fault fs = (r, fault', fs')"
    using assms unfolding record_many_def
    by (auto simp: raise_def ret_def bind_from_res bind_read split: if_splits sum.splits option.splits)
  then show thesis
  proof cases
    case bad
    then show thesis by (rule idle)
  next
    case go
    obtain rc b1 fs1 where c: "?commit R fault fs = (rc, b1, fs1)" by (cases "?commit R fault fs")
    have "b1 = fault'" "fs1 = fs'" "\<And>recs. r = Done (recs, False) \<Longrightarrow> recs = R \<and> rc = Done ()"
      using go(5) c by (cases rc; auto simp: bind_io_def os_error_as_def ret_def)+
    moreover have "op \<notin> fst ` set (fs_receipts fs)"
      using go(3,4) by (auto simp: replay_batch_def res_simps map_of_eq_None_iff image_iff split: if_splits)
    ultimately show thesis using commit [OF go(1)] go(2,3) c by blast
  qed
qed






subsection \<open>Repeated requests\<close>

lemma replay_finished:
  assumes "batch_setup sha256 iso_text B j R" "finished B j R fs" "is_batch_id (bj_request_digest j)"
  shows "replay_batch sha256 iso_text (bj_operation_id j) (bj_organization_id j) (bj_request_digest j) fs = Inr (Some R)"
    "is_batch_id other \<Longrightarrow> other \<noteq> bj_request_digest j \<Longrightarrow>
       replay_batch sha256 iso_text (bj_operation_id j) (bj_organization_id j) other fs = Inl IdempotencyConflict"
proof -
  note journal = setup_journal [OF assms(1)]
  from assms(2) obtain t where rs: "fs_receipts fs = fs_receipts B @
      [(bj_operation_id j, Valid \<lparr>br_journal = j, br_completed_at = t, br_replayable = True\<rparr>)]"
    and d: "fs_decisions fs = fs_decisions B @ entries_of R" by (auto simp: finished_def committed_def)
  have look: "map_of (fs_receipts fs) (bj_operation_id j) = Some (Valid \<lparr>br_journal = j, br_completed_at = t, br_replayable = True\<rparr>)"
    using journal(3) by (simp add: rs map_add_def)
  have "load_receipt (bj_operation_id j) fs = Inr \<lparr>br_journal = j, br_completed_at = t, br_replayable = True\<rparr>"
    using journal(1) look by (simp add: load_receipt_def)
  note load = this
  let ?f = "\<lambda>i. case map_of (fs_decisions fs) i of None \<Rightarrow> Inl StoredDecisionInvalid | Some content \<Rightarrow> load_decision (i, content)"
  have one: "?f (fd_id x) = Inr x" if "x \<in> set R" for x
  proof -
    note rec = setup_record [OF assms(1) that]
    have "map_of (entries_of R) (fd_id x) = Some (Valid x)"
      using assms(1) that by (intro entries_lookup) (simp_all add: batch_setup_def)
    moreover have "map_of (fs_decisions B) (fd_id x) = None" using rec(4) by (simp add: map_of_eq_None_iff)
    ultimately show ?thesis using rec(1) by (simp add: d map_add_def load_decision_def)
  qed
  have "map_res ?f (map fd_id xs) = Inr xs" if "set xs \<subseteq> set R" for xs
    using that one by (induction xs) (simp_all add: res_simps)
  moreover have "list_all (replay_check sha256 iso_text (bj_operation_id j) (bj_organization_id j)
      \<lparr>br_journal = j, br_completed_at = t, br_replayable = True\<rparr>) R"
    using setup_record [OF assms(1)] by (simp add: list_all_iff replay_check_def)
  ultimately show "replay_batch sha256 iso_text (bj_operation_id j) (bj_organization_id j) (bj_request_digest j) fs = Inr (Some R)"
    using assms(3) journal look load by (simp add: replay_batch_def res_simps)
  show "replay_batch sha256 iso_text (bj_operation_id j) (bj_organization_id j) other fs = Inl IdempotencyConflict"
    if "is_batch_id other" "other \<noteq> bj_request_digest j"
    using that journal look load by (simp add: replay_batch_def res_simps)
qed

text \<open>
  Batches are idempotent. When \<^verbatim>\<open>record_many\<close> has recorded a batch, a request with the same operation
  and request digest that passes the text checks returns the stored records as a replay and changes nothing, at any
  later time; the same operation with another request digest is a conflict and changes nothing either.
\<close>

theorem record_many_idempotent:
  assumes "settled sha256 iso_text fs old" "fs_journals fs = []" "fs_staging fs = []" "\<And>s. is_batch_id (sha256 s)"
    and "record_many sha256 iso_text redact now completed_at ids q op request_digest group_id items fault fs = (Done (records, False), fault', fs')"
    and "checked_texts redact now2 q = Inr texts"
  shows "record_many sha256 iso_text redact now2 completed2 ids2 q op request_digest group_id items fault2 fs' = (Done (records, True), fault2, fs') \<and>
    (\<forall>other. is_batch_id other \<and> other \<noteq> request_digest \<longrightarrow>
       record_many sha256 iso_text redact now2 completed2 ids2 q op other group_id items fault2 fs' = (Raised IdempotencyConflict, fault2, fs'))"
  using assms(5,2)
proof (cases rule: record_many_cases)
  case idle
  then show ?thesis by blast
next
  case (commit texts' R rc)
  let ?j = "batch_journal_of sha256 iso_text op (dr_organization_id q) request_digest group_id R now"
  have r: "records = R" "rc = Done ()" using commit(9) by simp_all
  note planned = plan_batch_setup [OF commit(1) assms(2,3) settled_temps [OF assms(1)] commit(7,2-6) assms(4)]
  have "clean fs fs" using assms(2,3) settled_temps [OF assms(1)] by (simp add: clean_def at_base_def)
  then have "ends fault (\<lambda>_. finished fs ?j R) (interrupted fs ?j R) (rc, fault', fs')"
    using commit_batch_runs [OF planned(1), of completed_at] commit(8) unfolding runs_def by metis
  then have fin: "finished fs ?j R fs'" using r by simp
  have j: "bj_operation_id ?j = op" "bj_organization_id ?j = dr_organization_id q" "bj_request_digest ?j = request_digest"
    by (simp_all add: batch_journal_of_def)
  note replay = replay_finished [OF planned(1) fin, unfolded j, OF commit(3)]
  have "distinct (map (\<lambda>(p, f, r). (p, f)) items)" "assignee_consistent q"
    using assms(5) unfolding record_many_def by (auto simp: raise_def bind_from_res split: if_splits sum.splits)
  then show ?thesis
    using commit(2-6) assms(6) replay r unfolding record_many_def by (simp add: bind_from_res ret_def)
qed


subsection \<open>Example runs\<close>

definition example_sha256 :: "string \<Rightarrow> string" where
  "example_sha256 s = replicate 64 CHR ''0''"

definition example_items :: "batch_item list" where
  "example_items = [(replicate 32 CHR ''2'', replicate 64 CHR ''3'', ''rule''), (replicate 32 CHR ''2'', replicate 64 CHR ''4'', ''rule'')]"

definition example_batch :: "fault \<Rightarrow> (lifecycle_error, decision list \<times> bool) outcome \<times> fault \<times> decision_fs" where
  "example_batch fault = record_many example_sha256 (\<lambda>t. ''t'') (\<lambda>s. s) 5 6 [[replicate 32 CHR ''5''], [replicate 32 CHR ''6'']]
     example_request (replicate 64 CHR ''a'') (replicate 64 CHR ''b'') (replicate 64 CHR ''c'') example_items fault empty_fs"

definition after_batch :: "fault \<Rightarrow> decision_fs" where
  "after_batch fault = snd (snd (example_batch fault))"

fun outcome_records :: "(lifecycle_error, decision list \<times> bool) outcome \<Rightarrow> decision list option" where
  "outcome_records (Done (ds, False)) = Some ds"
| "outcome_records _ = None"

lemma outcome_records_Some: "outcome_records r = Some ds \<Longrightarrow> r = Done (ds, False)"
  by (induction r rule: outcome_records.induct) auto

lemma is_batch_id_example: "is_batch_id (example_sha256 s)"
proof -
  have "is_batch_id (replicate 64 CHR ''0'')" by code_simp
  then show ?thesis by (simp add: example_sha256_def)
qed

lemma settled_empty: "settled sha256 iso_text empty_fs []"
  by (simp add: settled_def empty_fs_def visible_records_def load_batch_receipts_def max_decisions_per_project_def map_filter_def)

lemma example_batch_done: "map_option length (outcome_records (fst (example_batch None))) = Some 2"
  by code_simp


fun stopped_with_stray :: "(lifecycle_error, 'a) outcome \<times> fault \<times> decision_fs \<Rightarrow> bool" where
  "stopped_with_stray (Crashed, b, fs) = (fs_receipt_temps fs \<noteq> [])"
| "stopped_with_stray _ = False"

lemma example_stray: "stopped_with_stray (example_batch (Some (10, PowerLoss)))"
  by code_simp


lemma example_batch_split:
  "record_many example_sha256 (\<lambda>t. ''t'') (\<lambda>s. s) 5 6 [[replicate 32 CHR ''5''], [replicate 32 CHR ''6'']]
     example_request (replicate 64 CHR ''a'') (replicate 64 CHR ''b'') (replicate 64 CHR ''c'') example_items fault empty_fs
   = (fst (example_batch fault), fst (snd (example_batch fault)), after_batch fault)"
  by (simp add: example_batch_def after_batch_def)


lemma record_many_idempotent_witness:
  "\<exists>records. length records = 2 \<and> fst (example_batch None) = Done (records, False) \<and>
     record_many example_sha256 (\<lambda>t. ''t'') (\<lambda>s. s) 6 7 [] example_request (replicate 64 CHR ''a'') (replicate 64 CHR ''b'')
       (replicate 64 CHR ''c'') example_items None (after_batch None) = (Done (records, True), None, after_batch None)"
proof -
  obtain records where r: "outcome_records (fst (example_batch None)) = Some records" "length records = 2"
    using example_batch_done by auto
  have ok: "fst (example_batch None) = Done (records, False)" using outcome_records_Some [OF r(1)] .
  have "\<not> isl (checked_texts (\<lambda>s. s) 6 example_request)" by code_simp
  then obtain texts where t: "checked_texts (\<lambda>s. s) 6 example_request = Inr texts" by (cases "checked_texts (\<lambda>s. s) 6 example_request") auto
  have "fs_journals empty_fs = []" "fs_staging empty_fs = []" by (simp_all add: empty_fs_def)
  from record_many_idempotent [OF settled_empty this is_batch_id_example example_batch_split [of None, unfolded ok] t, of 7 "[]" None]
  show ?thesis using ok r(2) by blast
qed

subsection \<open>Interruptions that recovery does not repair\<close>

definition stray_receipt :: "decision_fs \<Rightarrow> bool" where
  "stray_receipt fs \<longleftrightarrow> fs_receipt_temps fs \<noteq> []"

lemma keeps_stray_receipt: "keeps stray_receipt (write_receipt op r)"
  by (auto simp: keeps_def write_receipt_def durable_write_def bind_io_def step_fs_def on_os_failure_def stray_receipt_def
      split: option.splits prod.splits nat.splits fault_kind.splits)

lemma keeps_stray_step: "(\<And>fs. fs_receipt_temps (h fs) = fs_receipt_temps fs) \<Longrightarrow> keeps stray_receipt (step_fs h)"
  by (rule keeps_basic) (simp add: stray_receipt_def)

lemma keeps_stray_staging: "keeps stray_receipt (remove_staging op)"
  unfolding remove_staging_def
  by (auto intro!: keeps_bind keeps_basic(1,3) keeps_for_each keeps_stray_step split: option.splits simp: unset_staged_def)

lemma keeps_stray_move: "keeps stray_receipt (move_decision sha256 iso_text j i)"
  unfolding move_decision_def Let_def
  by (auto intro!: keeps_bind keeps_basic(1-4) keeps_stray_step split: option.splits simp: unset_staged_def)

lemma keeps_stray_cleanup: "keeps stray_receipt (cleanup_completed op)"
  unfolding cleanup_completed_def by (auto intro!: keeps_bind keeps_stray_step keeps_stray_staging)

lemma keeps_stray_operation: "keeps stray_receipt (recover_operation sha256 iso_text now j)"
  unfolding recover_operation_def Let_def
  by (auto intro!: keeps_bind keeps_basic(1-4) keeps_for_each keeps_stray_step keeps_stray_receipt keeps_stray_move keeps_stray_cleanup)

lemma keeps_stray_batch: "keeps stray_receipt (recover_batch sha256 iso_text now op)"
  unfolding recover_batch_def
  by (auto intro!: keeps_bind keeps_basic(1-4) keeps_stray_operation split: option.splits stored.splits)

lemma stray_receipt_reads: "stray_receipt fs \<Longrightarrow> load_batch_receipts fs = Inl BatchStateInvalid"
  by (simp add: stray_receipt_def load_batch_receipts_def)

text \<open>
  C38. A machine that stops between creating and renaming the temporary file of a receipt leaves that file among the
  receipts, and then the store is lost to its readers: every read fails, and \<^verbatim>\<open>recover_pending_batches\<close>, whatever
  happens during it, does not return and leaves a stray file in place.
\<close>

theorem stray_receipt_is_permanent:
  assumes "fs_receipt_temps fs \<noteq> []"
    and "recover_pending_batches sha256 iso_text now fault fs = (r, fault', fs')"
  shows "(\<forall>records. visible_records sha256 iso_text fs \<noteq> Inr records) \<and> (\<forall>n. r \<noteq> Done n) \<and> fs_receipt_temps fs' \<noteq> []"
proof -
  have stray: "stray_receipt fs" using assms(1) by (simp add: stray_receipt_def)
  let ?ops = "sort (filter is_batch_id (map fst (fs_journals fs)))"
  obtain r1 b1 fs1 where m: "for_each ?ops (recover_batch sha256 iso_text now) fault fs = (r1, b1, fs1)"
    by (cases "for_each ?ops (recover_batch sha256 iso_text now) fault fs")
  have "keeps stray_receipt (for_each ?ops (recover_batch sha256 iso_text now))"
    by (rule keeps_for_each) (rule keeps_stray_batch)
  then have s1: "stray_receipt fs1" using stray m unfolding keeps_def by (metis snd_conv)
  then have clean: "cleanup_orphans b1 fs1 = (Raised BatchStateInvalid, b1, fs1)"
    by (simp add: cleanup_orphans_def bind_from_res stray_receipt_reads)
  have "(\<forall>n. r \<noteq> Done n) \<and> fs' = fs1"
    using assms(2) m clean unfolding recover_pending_batches_def
    by (cases r1) (auto simp: read_fs_def bind_io_def)
  moreover have "visible_records sha256 iso_text fs \<noteq> Inr records" for records
    using stray_receipt_reads [OF stray] by (simp add: visible_records_def)
  ultimately show ?thesis using s1 by (simp add: stray_receipt_def)
qed

lemma stray_receipt_is_permanent_witness:
  "\<exists>r fault' fs'. fst (example_batch (Some (10, PowerLoss))) = Crashed \<and>
     recover_pending_batches example_sha256 (\<lambda>t. ''t'') 9 None (after_batch (Some (10, PowerLoss))) = (r, fault', fs') \<and>
     (\<forall>n. r \<noteq> Done n) \<and> fs_receipt_temps fs' \<noteq> []"
proof -
  have crash: "fst (example_batch (Some (10, PowerLoss))) = Crashed"
    and "fs_receipt_temps (after_batch (Some (10, PowerLoss))) \<noteq> []"
    using example_stray by (cases "example_batch (Some (10, PowerLoss))" rule: stopped_with_stray.cases; simp add: after_batch_def)+
  obtain r fault' fs' where run:
    "recover_pending_batches example_sha256 (\<lambda>t. ''t'') 9 None (after_batch (Some (10, PowerLoss))) = (r, fault', fs')"
    by (cases "recover_pending_batches example_sha256 (\<lambda>t. ''t'') 9 None (after_batch (Some (10, PowerLoss)))")
  from stray_receipt_is_permanent [OF \<open>fs_receipt_temps (after_batch (Some (10, PowerLoss))) \<noteq> []\<close> run] show ?thesis using crash run by blast
qed

subsection \<open>Interrupted deletions\<close>

text \<open>The files without those of the given decisions.\<close>

definition unlinked :: "decision list \<Rightarrow> decision_fs \<Rightarrow> decision_fs" where
  "unlinked ds fs = fs\<lparr>fs_decisions := filter (\<lambda>e. fst e \<notin> fd_id ` set ds) (fs_decisions fs)\<rparr>"

definition failed_with :: "fault_kind \<Rightarrow> (lifecycle_error, 'a) outcome" where
  "failed_with kind = (case kind of PowerLoss \<Rightarrow> Crashed | IoError \<Rightarrow> OsFailed)"

lemma keep_failed [simp]: "keep_failure (failed_with kind) = failed_with kind"
  by (simp add: failed_with_def split: fault_kind.splits)

lemma bind_failed: "m b fs = (failed_with kind, b', fs') \<Longrightarrow> bind_io m f b fs = (failed_with kind, b', fs')"
  by (cases kind) (simp_all add: bind_io_def failed_with_def)

lemma step_fails: "step_fs f (Some (0, kind)) fs = (failed_with kind, None, fs)"
  by (cases kind) (simp_all add: step_fs_def failed_with_def)

lemma bind_step_fails: "bind_io (step_fs f) g (Some (0, kind)) fs = (failed_with kind, None, fs)"
  by (rule bind_failed, rule step_fails)

lemma unlink_run:
  "for_each ds (\<lambda>d. step_fs (\<lambda>fs. fs\<lparr>fs_decisions := dict_pop (fd_id d) (fs_decisions fs)\<rparr>)) (Some (k, kind)) fs =
     (if k < length ds then (failed_with kind, None, unlinked (take k ds) fs)
      else (Done (), Some (k - length ds, kind), unlinked ds fs))"
proof (induction ds arbitrary: k fs)
  case Nil
  show ?case by (simp add: ret_def unlinked_def)
next
  case (Cons d ds)
  let ?fs = "fs\<lparr>fs_decisions := dict_pop (fd_id d) (fs_decisions fs)\<rparr>"
  have later: "unlinked xs ?fs = unlinked (d # xs) fs" for xs
    by (auto simp: unlinked_def dict_pop_def conj_commute intro!: filter_cong)
  show ?case
  proof (cases k)
    case 0
    then show ?thesis by (simp add: bind_step_fails unlinked_def)
  next
    case (Suc n)
    have "step_fs (\<lambda>fs. fs\<lparr>fs_decisions := dict_pop (fd_id d) (fs_decisions fs)\<rparr>) (Some (k, kind)) fs
        = (Done () :: (lifecycle_error, unit) outcome, Some (n, kind), ?fs)"
      by (simp add: step_fs_def Suc)
    then show ?thesis using Cons.IH [of n ?fs] Suc by (simp add: bind_io_def later)
  qed
qed

text \<open>The first receipt that has to change is the step that fails.\<close>

lemma update_receipt_fails:
  "update_receipt removed e (Some (0, kind)) fs =
     (if set (bj_decision_ids (br_journal (snd e))) \<inter> removed = {} then (Done (), Some (0, kind), fs) else (failed_with kind, None, fs))"
proof -
  obtain op r where e: "e = (op, r)" by (cases e)
  let ?ids = "bj_decision_ids (br_journal r)"
  have "length (filter (\<lambda>i. i \<notin> removed) ?ids) = length ?ids \<longleftrightarrow> set ?ids \<inter> removed = {}"
  proof (cases "set ?ids \<inter> removed = {}")
    case True
    then have "filter (\<lambda>i. i \<notin> removed) ?ids = ?ids" by (auto simp: filter_id_conv)
    then show ?thesis using True by simp
  next
    case False
    then obtain i where "i \<in> set ?ids" "\<not> i \<notin> removed" by blast
    then have "length (filter (\<lambda>i. i \<notin> removed) ?ids) < length ?ids" by (rule length_filter_less)
    then show ?thesis using False by simp
  qed
  then show ?thesis
    by (simp add: e update_receipt_def Let_def ret_def step_fails write_receipt_def durable_write_def bind_step_fails)
qed

lemma update_receipts_fail:
  "(\<exists>e \<in> set receipts. set (bj_decision_ids (br_journal (snd e))) \<inter> removed \<noteq> {}) \<Longrightarrow>
   for_each receipts (update_receipt removed) (Some (0, kind)) fs = (failed_with kind, None, fs)"
proof (induction receipts)
  case (Cons e receipts)
  then show ?case
    by (cases "set (bj_decision_ids (br_journal (snd e))) \<inter> removed = {}")
      (simp_all add: bind_io_def update_receipt_fails failed_with_def split: fault_kind.splits)
qed simp

lemma list_for_project_subset:
  assumes "list_for_project sha256 iso_text org project fs = Inr records" "visible_records sha256 iso_text fs = Inr old"
  shows "set records \<subseteq> set old"
proof -
  let ?own = "filter (\<lambda>d. fd_organization_id d = org \<and> fd_project_id d = project) old"
  have "validated_decision_chains ?own = Inr records" using assms by (simp add: list_for_project_def)
  then have "set records \<subseteq> set ?own" by (rule validated_subset)
  then show ?thesis by auto
qed

text \<open>A visible decision of a batch is named by the receipt of the batch.\<close>

lemma batch_receipt_names:
  assumes "visible_records sha256 iso_text fs = Inr old" "d \<in> set old" "fd_batch d = Some op"
  obtains rs x where "load_batch_receipts fs = Inr rs" "(op, x) \<in> set rs" "fd_id d \<in> set (bj_decision_ids (br_journal x))"
proof -
  obtain rs where r: "load_batch_receipts fs = Inr rs" "\<forall>e \<in> set (fs_decisions fs). \<exists>y. visible_record sha256 iso_text rs e = Inr y"
    "old = kept sha256 iso_text rs (sort_key fst (fs_decisions fs))"
    "\<forall>(operation_id, r) \<in> set rs. seen_in_batch old operation_id = set (bj_decision_ids (br_journal r))"
    using assms(1) by (rule visible_InrD)
  obtain e where "visible_record sha256 iso_text rs e = Inr (Some d)"
    using assms(2) r(2,3) by (fastforce simp: kept_def map_filter_def)
  then obtain x where "map_of rs op = Some x"
    using assms(3) by (cases "load_decision e") (auto simp: visible_record_def split: option.splits if_splits)
  then have x: "(op, x) \<in> set rs" by (rule map_of_SomeD)
  have "fd_id d \<in> seen_in_batch old op" using assms(2,3) by (auto simp: seen_in_batch_def)
  then have "fd_id d \<in> set (bj_decision_ids (br_journal x))" using r(4) x by auto
  then show thesis using that r(1) x by blast
qed

text \<open>Removing files that a receipt names makes the readers fail, and recovery finds nothing to do.\<close>

lemma unlinked_unreadable:
  assumes "visible_records sha256 iso_text fs = Inr old" "d \<in> set old" "d \<in> set ds" "fd_batch d = Some op"
  shows "visible_records sha256 iso_text (unlinked ds fs) = Inl StoredDecisionInvalid"
proof -
  let ?fs = "unlinked ds fs"
  obtain rs where r: "load_batch_receipts fs = Inr rs" "\<forall>e \<in> set (fs_decisions fs). \<exists>y. visible_record sha256 iso_text rs e = Inr y"
    "old = kept sha256 iso_text rs (sort_key fst (fs_decisions fs))"
    "\<forall>(operation_id, r) \<in> set rs. seen_in_batch old operation_id = set (bj_decision_ids (br_journal r))"
    using assms(1) by (rule visible_InrD)
  have load: "load_batch_receipts ?fs = Inr rs" using r(1) load_batch_receipts_cong [of ?fs fs] by (simp add: unlinked_def)
  have len: "int (length (fs_decisions fs)) \<le> max_decisions_per_project * 10" using assms(1) by (auto simp: visible_records_def split: if_splits)
  have "length (fs_decisions ?fs) \<le> length (fs_decisions fs)" by (simp add: unlinked_def)
  then have short: "\<not> int (length (fs_decisions ?fs)) > max_decisions_per_project * 10" using len by linarith
  have sub: "set (fs_decisions ?fs) \<subseteq> set (fs_decisions fs)" by (auto simp: unlinked_def)
  let ?found = "map (\<lambda>e. projr (visible_record sha256 iso_text rs e)) (sort_key fst (fs_decisions ?fs))"
  have found: "map_res (visible_record sha256 iso_text rs) (sort_key fst (fs_decisions ?fs)) = Inr ?found"
    using r(2) sub by (intro map_res_map) auto
  obtain x where x: "(op, x) \<in> set rs" and named: "fd_id d \<in> set (bj_decision_ids (br_journal x))"
    using batch_receipt_names [OF assms(1,2,4)] r(1) by (metis sum.inject(2))
  have "fd_id d' \<noteq> fd_id d" if "d' \<in> set (kept sha256 iso_text rs (sort_key fst (fs_decisions ?fs)))" for d'
    using kept_mem [OF that] r(2) sub assms(3) by (auto simp: unlinked_def)
  then have "\<forall>d' \<in> set (List.map_filter id ?found). fd_id d' \<noteq> fd_id d" by (simp add: kept_def)
  then have "fd_id d \<notin> seen_in_batch (List.map_filter id ?found) op" by (auto simp: seen_in_batch_def)
  then have "list_ex (\<lambda>(operation_id, r). seen_in_batch (List.map_filter id ?found) operation_id \<noteq> set (bj_decision_ids (br_journal r))) rs"
    using x named by (auto simp: list_ex_iff intro!: bexI [of _ "(op, x)"])
  then show ?thesis using short load found by (simp add: visible_records_def Let_def)
qed

lemma no_batch_id: "\<not> is_batch_id []"
  by code_simp

lemma unlinked_recovery:
  assumes "settled sha256 iso_text fs old" "fs_journals fs = []" "fs_staging fs = []"
  shows "recover_pending_batches sha256 iso_text later b (unlinked ds fs) = (Done 0, b, unlinked ds fs)"
proof -
  let ?fs = "unlinked ds fs"
  have "load_batch_receipts fs = Inr (receipts_of fs)"
    using assms(1) visible_InrD load_batch_receipts_iff unfolding settled_def by metis
  then have "[] \<notin> fst ` set (fs_receipts fs)" by (auto simp: load_batch_receipts_iff no_batch_id)
  note B = settledD [OF assms(1) this]
  have load: "load_batch_receipts ?fs = Inr (receipts_of fs)" using B(1) load_batch_receipts_cong [of ?fs fs] by (simp add: unlinked_def)
  have idle: "\<exists>d. load_decision e = Inr d \<and> \<not> orphan_record (map fst (receipts_of fs)) d" if "e \<in> set (fs_decisions ?fs)" for e
    using B(2) [of e] that by (auto simp: unlinked_def)
  have "cleanup_orphans b ?fs = (Done (), b, ?fs)"
    using cleanup_orphans_idle [OF load _ idle, of b] assms(2,3) by (simp add: unlinked_def ret_def)
  then show ?thesis using assms(2) by (simp add: recover_pending_batches_def bind_read bind_Done ret_def unlinked_def)
qed

text \<open>Where a deletion that a fault hits after at most all its unlinks stops.\<close>

lemma deletion_stops:
  assumes "settled sha256 iso_text fs old" "list_for_project sha256 iso_text org project fs = Inr records"
    and "k \<le> length records" "d \<in> set (take k records)" "fd_batch d = Some op"
  shows "delete_project sha256 iso_text org project (Some (k, kind)) fs = (failed_with kind, None, unlinked (take k records) fs)"
proof (cases "k < length records")
  case True
  then show ?thesis using assms(2) by (simp add: delete_project_def bind_from_res bind_failed unlink_run)
next
  case False
  then have k: "k = length records" using assms(3) by simp
  let ?fs = "unlinked records fs"
  have vis: "visible_records sha256 iso_text fs = Inr old" using assms(1) by (simp add: settled_def)
  have d: "d \<in> set records" "d \<in> set old" using assms(4) k list_for_project_subset [OF assms(2) vis] by auto
  obtain rs x where r: "load_batch_receipts fs = Inr rs" and x: "(op, x) \<in> set rs" "fd_id d \<in> set (bj_decision_ids (br_journal x))"
    using batch_receipt_names [OF vis d(2) assms(5)] .
  have "set (bj_decision_ids (br_journal (snd (op, x)))) \<inter> fd_id ` set records \<noteq> {}" using x(2) d(1) by auto
  then have "for_each rs (update_receipt (fd_id ` set records)) (Some (0, kind)) ?fs = (failed_with kind, None, ?fs)"
    using x(1) by (intro update_receipts_fail) blast
  moreover have "load_batch_receipts ?fs = Inr rs" using r load_batch_receipts_cong [of ?fs fs] by (simp add: unlinked_def)
  moreover have "for_each records (\<lambda>d. step_fs (\<lambda>fs. fs\<lparr>fs_decisions := dict_pop (fd_id d) (fs_decisions fs)\<rparr>)) (Some (k, kind)) fs
      = (Done () :: (lifecycle_error, unit) outcome, Some (0, kind), ?fs)"
    using unlink_run [of records k kind fs] k by simp
  ultimately show ?thesis using assms(2) k by (simp add: delete_project_def bind_from_res bind_Done bind_failed)
qed

text \<open>
  C39. \<^verbatim>\<open>delete_project\<close> is not safe against interruptions, because it removes the files of the decisions before it shortens the receipts of
  their batches. From any readable store at rest: when it stops (a loss of power or an \<^verbatim>\<open>OSError\<close>) after some of its unlinks and before its
  next step, and one of the decisions removed so far came from a batch, then every read of any project fails; \<^verbatim>\<open>recover_pending_batches\<close>
  returns without doing anything, so the failure stays; and every further \<^verbatim>\<open>delete_project\<close>, of any project, raises the same error and
  changes nothing.
\<close>

theorem interrupted_deletion_blocks_store:
  assumes "settled sha256 iso_text fs old" "fs_journals fs = []" "fs_staging fs = []"
    and "list_for_project sha256 iso_text org project fs = Inr records"
    and "k \<le> length records" "d \<in> set (take k records)" "fd_batch d = Some op"
    and "delete_project sha256 iso_text org project (Some (k, kind)) fs = (r, fault, fs')"
  shows "r = (case kind of PowerLoss \<Rightarrow> Crashed | IoError \<Rightarrow> OsFailed) \<and>
    visible_records sha256 iso_text fs' = Inl StoredDecisionInvalid \<and>
    (\<forall>org' project'. list_for_project sha256 iso_text org' project' fs' = Inl StoredDecisionInvalid) \<and>
    (\<forall>later b. recover_pending_batches sha256 iso_text later b fs' = (Done 0, b, fs')) \<and>
    (\<forall>org' project' b. delete_project sha256 iso_text org' project' b fs' = (Raised StoredDecisionInvalid, b, fs'))"
proof -
  have vis: "visible_records sha256 iso_text fs = Inr old" using assms(1) by (simp add: settled_def)
  have "d \<in> set records" using assms(6) by (rule in_set_takeD)
  then have d: "d \<in> set old" using list_for_project_subset [OF assms(4) vis] by blast
  have stop: "r = failed_with kind" "fs' = unlinked (take k records) fs"
    using deletion_stops [OF assms(1,4-7), of kind] assms(8) by simp_all
  have bad: "visible_records sha256 iso_text fs' = Inl StoredDecisionInvalid"
    unfolding stop(2) by (rule unlinked_unreadable [OF vis d assms(6,7)])
  moreover have "recover_pending_batches sha256 iso_text later b fs' = (Done 0, b, fs')" for later b
    unfolding stop(2) by (rule unlinked_recovery [OF assms(1-3)])
  ultimately show ?thesis using stop(1) by (simp add: failed_with_def list_for_project_def delete_project_def bind_from_res)
qed

text \<open>The batch of two decisions of one project, deleted with a loss of power after the first unlink.\<close>

lemma settled_after_batch: "settled example_sha256 (\<lambda>t. ''t'') (after_batch None) (projr (visible_records example_sha256 (\<lambda>t. ''t'') (after_batch None)))"
proof -
  have "\<not> isl (visible_records example_sha256 (\<lambda>t. ''t'') (after_batch None))" by code_simp
  moreover have "list_all (\<lambda>e. fst e \<in> fd_id ` set (projr (visible_records example_sha256 (\<lambda>t. ''t'') (after_batch None))))
      (fs_decisions (after_batch None))" by code_simp
  moreover have "distinct (map fst (fs_decisions (after_batch None)))" by code_simp
  ultimately show ?thesis by (auto simp: settled_def list_all_iff isl_def)
qed

lemma interrupted_deletion_blocks_store_witness:
  "\<exists>fs'. delete_project example_sha256 (\<lambda>t. ''t'') ''local-admin'' (replicate 32 CHR ''2'') (Some (1, PowerLoss)) (after_batch None)
      = (Crashed, None, fs') \<and>
    list_for_project example_sha256 (\<lambda>t. ''t'') ''local-admin'' (replicate 32 CHR ''7'') fs' = Inl StoredDecisionInvalid"
proof -
  let ?list = "list_for_project example_sha256 (\<lambda>t. ''t'') ''local-admin'' (replicate 32 CHR ''2'') (after_batch None)"
  have rest: "fs_journals (after_batch None) = []" "fs_staging (after_batch None) = []" by code_simp+
  have "map_sum id (map (\<lambda>d. fd_batch d \<noteq> None)) ?list = Inr [True, True]" by code_simp
  then obtain d ds where records: "?list = Inr (d # ds)" "fd_batch d \<noteq> None" by (cases ?list) auto
  then obtain op where op: "fd_batch d = Some op" by blast
  obtain r fault fs' where run: "delete_project example_sha256 (\<lambda>t. ''t'') ''local-admin'' (replicate 32 CHR ''2'') (Some (1, PowerLoss))
      (after_batch None) = (r, fault, fs')" by (rule prod_cases3)
  have k: "1 \<le> length (d # ds)" "d \<in> set (take 1 (d # ds))" by simp_all
  have "delete_project example_sha256 (\<lambda>t. ''t'') ''local-admin'' (replicate 32 CHR ''2'') (Some (1, PowerLoss)) (after_batch None)
      = (Crashed, None, fs')"
    using deletion_stops [OF settled_after_batch records(1) k op, of PowerLoss] run by (simp add: failed_with_def)
  then show ?thesis
    using interrupted_deletion_blocks_store [OF settled_after_batch rest records(1) k op run] by blast
qed

end
