(* ===== verification/Recurrence_Windows.thy ===== *)
theory Recurrence_Windows
  imports Json_Text
begin

section \<open>Recurring windows in local time\<close>

text \<open>
  The scheduling arithmetic of \<^verbatim>\<open>backend/app/active_recurrence.py\<close>: stable jitters, local windows and the search
  for the next admissible instant. A time zone is a record of the two conversions of \<^verbatim>\<open>ZoneInfo\<close>, from an
  instant to the local clock with its fold and back; the zone database is a parameter. Local clock readings are
  microseconds since 1970-01-01 00:00 on that clock, so a date is a quotient. The bounds of \<^verbatim>\<open>datetime\<close> (years 1
  to 9999) are not modelled.
\<close>

datatype recurrence_error = AuthorizationWindowUnavailable | IdempotencyConflict | CapacityReached | ScheduleConflict
  | AssetUnavailable | StoreInvalid | InvalidLimit | InvalidReason | ScheduleNotFound | StateChanged | InvalidIdentity
  | InvalidRetry | WindowUnavailable | InvalidTimezone | RecordInvalid | IndexInvalid

datatype weekday = Monday | Tuesday | Wednesday | Thursday | Friday | Saturday | Sunday

record zone =
  zone_local :: "instant \<Rightarrow> int \<times> nat"
  zone_instant :: "int \<Rightarrow> nat \<Rightarrow> instant"

type_synonym zone_db = "string \<Rightarrow> zone option"

definition secs :: "int \<Rightarrow> int" where
  "secs n = n * 1000000"

definition hours :: "int \<Rightarrow> int" where
  "hours n = secs (n * 3600)"

definition days :: "int \<Rightarrow> int" where
  "days n = hours (n * 24)"

lemmas duration_defs = secs_def hours_def days_def

definition weekdays :: "weekday list" where
  "weekdays = [Monday, Tuesday, Wednesday, Thursday, Friday, Saturday, Sunday]"

text \<open>\<^verbatim>\<open>date.weekday()\<close>: day 0 is a Thursday.\<close>

definition weekday_of :: "int \<Rightarrow> weekday" where
  "weekday_of day = weekdays ! nat ((day + 3) mod 7)"

definition local_day :: "zone \<Rightarrow> instant \<Rightarrow> int" where
  "local_day zone t = fst (zone_local zone t) div days 1"

subsection \<open>Jitter\<close>

definition max_jitter_seconds :: int where
  "max_jitter_seconds = 900"

definition max_failures_kept :: int where
  "max_failures_kept = 8"

definition max_backoff_seconds :: int where
  "max_backoff_seconds = 21600"

definition idempotency_domain_version :: string where
  "idempotency_domain_version = ''2026-09-08.1''"

definition hex_val :: "char \<Rightarrow> int" where
  "hex_val c = (if is_digit c then int (code c) - 48 else int (code c) - 87)"

text \<open>\<^verbatim>\<open>int.from_bytes(digest[:n], "big")\<close>, read off the hexadecimal digest.\<close>

definition digest_prefix :: "nat \<Rightarrow> string \<Rightarrow> int" where
  "digest_prefix n digest = foldl (\<lambda>v c. 16 * v + hex_val c) 0 (take (2 * n) digest)"

definition recurrence_jitter_seconds :: "(string \<Rightarrow> string) \<Rightarrow> string \<Rightarrow> recurrence_error + int" where
  "recurrence_jitter_seconds sha256 schedule_id =
     (if \<not> is_hex_id 32 schedule_id then Inl ScheduleNotFound
      else Inr (1 + digest_prefix 4 (sha256 (idempotency_domain_version @ [CHR 0x00] @ ''jitter'' @ [CHR 0x00] @ schedule_id))
                  mod max_jitter_seconds))"

definition recurrence_retry_jitter_seconds :: "(string \<Rightarrow> string) \<Rightarrow> string \<Rightarrow> int \<Rightarrow> recurrence_error + int" where
  "recurrence_retry_jitter_seconds sha256 schedule_id failure_count =
     (if \<not> is_hex_id 32 schedule_id \<or> \<not> (1 \<le> failure_count \<and> failure_count \<le> max_failures_kept) then Inl InvalidRetry
      else Inr (digest_prefix 2 (sha256 (idempotency_domain_version @ [CHR 0x00] @ ''retry'' @ [CHR 0x00] @ schedule_id
                  @ [CHR 0x00] @ show_int failure_count)) mod 61))"

subsection \<open>Windows\<close>

definition load_timezone :: "zone_db \<Rightarrow> string \<Rightarrow> recurrence_error + zone" where
  "load_timezone db name = (case db name of None \<Rightarrow> Inl InvalidTimezone | Some z \<Rightarrow> Inr z)"

text \<open>The instants at which the local clock shows a reading, none in a gap and two in an overlap.\<close>

definition valid_local_instants :: "int \<Rightarrow> zone \<Rightarrow> instant list" where
  "valid_local_instants reading zone =
     sort (remdups (filter (\<lambda>c. \<exists>fold \<in> {0, 1}. c = zone_instant zone reading fold \<and> zone_local zone c = (reading, fold))
       [zone_instant zone reading 0, zone_instant zone reading 1]))"

definition window_bounds :: "int \<Rightarrow> zone \<Rightarrow> weekday list \<Rightarrow> int \<Rightarrow> int \<Rightarrow> (instant \<times> instant) option" where
  "window_bounds day zone window_weekdays start_hour duration_hours =
     (if weekday_of day \<notin> set window_weekdays then None
      else
        let start_naive = days day + hours start_hour; end_naive = start_naive + hours duration_hours;
            starts = valid_local_instants start_naive zone; ends = valid_local_instants end_naive zone in
        if starts = [] \<or> ends = [] then None else Some (hd starts, last ends))"

text \<open>The loop over the 371 days from the first one.\<close>

fun window_search :: "(string \<Rightarrow> string) \<Rightarrow> string \<Rightarrow> instant \<Rightarrow> (instant \<times> instant) option list \<Rightarrow> recurrence_error + instant" where
  "window_search sha256 schedule_id t [] = Inl WindowUnavailable"
| "window_search sha256 schedule_id t (None # rest) = window_search sha256 schedule_id t rest"
| "window_search sha256 schedule_id t (Some (start, stop) # rest) =
     (if start \<le> t \<and> t < stop then Inr t
      else if t < start then
        bind_res (recurrence_jitter_seconds sha256 schedule_id) (\<lambda>jitter.
          if start + secs jitter < stop then Inr (start + secs jitter) else window_search sha256 schedule_id t rest)
      else window_search sha256 schedule_id t rest)"

definition next_window_time ::
  "(string \<Rightarrow> string) \<Rightarrow> zone_db \<Rightarrow> instant \<Rightarrow> string \<Rightarrow> string \<Rightarrow> weekday list \<Rightarrow> int \<Rightarrow> int \<Rightarrow> recurrence_error + instant" where
  "next_window_time sha256 db candidate schedule_id timezone_name window_weekdays start_hour duration_hours =
     bind_res (load_timezone db timezone_name) (\<lambda>zone.
       window_search sha256 schedule_id candidate
         (map (\<lambda>i. window_bounds (local_day zone candidate + int i) zone window_weekdays start_hour duration_hours) [0..<371]))"

definition next_run ::
  "(string \<Rightarrow> string) \<Rightarrow> zone_db \<Rightarrow> instant \<Rightarrow> int \<Rightarrow> string \<Rightarrow> string \<Rightarrow> weekday list \<Rightarrow> int \<Rightarrow> int \<Rightarrow> recurrence_error + instant" where
  "next_run sha256 db observed interval_days schedule_id timezone_name window_weekdays start_hour duration_hours =
     bind_res (recurrence_jitter_seconds sha256 schedule_id) (\<lambda>jitter.
       next_window_time sha256 db (observed + days interval_days + secs jitter) schedule_id timezone_name
         window_weekdays start_hour duration_hours)"

subsection \<open>Facts\<close>

lemma jitter_range: "recurrence_jitter_seconds sha256 schedule_id = Inr j \<Longrightarrow> 1 \<le> j \<and> j \<le> 900"
  by (auto simp: recurrence_jitter_seconds_def max_jitter_seconds_def split: if_splits)

lemma retry_jitter_range: "recurrence_retry_jitter_seconds sha256 schedule_id n = Inr j \<Longrightarrow> 0 \<le> j \<and> j \<le> 60"
  by (auto simp: recurrence_retry_jitter_seconds_def split: if_splits)

lemma jitter_defined: "is_hex_id 32 schedule_id \<Longrightarrow> \<exists>j. recurrence_jitter_seconds sha256 schedule_id = Inr j"
  by (simp add: recurrence_jitter_seconds_def)

text \<open>A window that the search passed: it had ended, or it was too short for the jitter.\<close>

definition passed :: "instant \<Rightarrow> (instant \<times> instant) option \<Rightarrow> bool" where
  "passed t b = (case b of None \<Rightarrow> True | Some (s, e) \<Rightarrow> e \<le> t \<or> t < s \<and> e \<le> s + secs 900)"

lemma window_search_Inr:
  assumes "window_search sha256 schedule_id t bs = Inr r"
  shows "\<exists>i s e. i < length bs \<and> bs ! i = Some (s, e) \<and> s \<le> r \<and> r < e \<and> (r = t \<or> t < s \<and> s < r \<and> r \<le> s + secs 900) \<and>
    list_all (passed t) (take i bs)"
  using assms
proof (induction bs)
  case (Cons b bs)
  have step: ?case if found: "window_search sha256 schedule_id t bs = Inr r" and skip: "passed t b"
  proof -
    obtain i s e where "i < length bs" "bs ! i = Some (s, e)" "s \<le> r" "r < e" "r = t \<or> t < s \<and> s < r \<and> r \<le> s + secs 900"
      "list_all (passed t) (take i bs)" using Cons.IH [OF found] by blast
    then show ?thesis using skip by (intro exI [of _ "Suc i"] exI [of _ s] exI [of _ e]) simp
  qed
  show ?case
  proof (cases b)
    case None
    then show ?thesis using step Cons.prems by (simp add: passed_def)
  next
    case (Some w)
    obtain s e where w: "b = Some (s, e)" using Some by (cases w) simp
    consider "s \<le> t" "t < e" | "t < s" | "s \<le> t" "e \<le> t" by linarith
    then show ?thesis
    proof cases
      case 1
      then show ?thesis using Cons.prems w by (intro exI [of _ 0] exI [of _ s] exI [of _ e]) simp
    next
      case 2
      then obtain j where j: "recurrence_jitter_seconds sha256 schedule_id = Inr j"
        using Cons.prems w by (cases "recurrence_jitter_seconds sha256 schedule_id") auto
      show ?thesis
      proof (cases "s + secs j < e")
        case True
        then show ?thesis using Cons.prems w 2 j jitter_range [OF j]
          by (intro exI [of _ 0] exI [of _ s] exI [of _ e]) (auto simp: secs_def)
      next
        case False
        then show ?thesis using Cons.prems w 2 j jitter_range [OF j] by (intro step) (auto simp: passed_def secs_def)
      qed
    next
      case 3
      then show ?thesis using Cons.prems w by (intro step) (auto simp: passed_def)
    qed
  qed
qed simp

lemma window_search_total:
  assumes "recurrence_jitter_seconds sha256 schedule_id = Inr j" "Some (s, e) \<in> set bs" "t < s" "s + secs 900 < e"
  shows "\<exists>r. window_search sha256 schedule_id t bs = Inr r"
  using assms(2)
proof (induction bs)
  case (Cons b bs)
  then show ?case
    using assms(1,3,4) jitter_range [OF assms(1)] by (cases b) (auto simp: secs_def)
qed simp

lemma valid_local_instants_iff:
  "c \<in> set (valid_local_instants reading zone) \<longleftrightarrow>
     (\<exists>fold \<in> {0, 1}. c = zone_instant zone reading fold \<and> zone_local zone c = (reading, fold))"
  by (auto simp: valid_local_instants_def)

lemma window_bounds_Some:
  assumes "window_bounds day zone wd h n = Some (s, e)"
  shows "weekday_of day \<in> set wd" "fst (zone_local zone s) = days day + hours h" "fst (zone_local zone e) = days day + hours (h + n)"
proof -
  let ?starts = "valid_local_instants (days day + hours h) zone" and ?ends = "valid_local_instants (days day + hours h + hours n) zone"
  have w: "weekday_of day \<in> set wd" "?starts \<noteq> []" "?ends \<noteq> []" "s = hd ?starts" "e = last ?ends"
    using assms by (auto simp: window_bounds_def Let_def split: if_splits)
  then have "s \<in> set ?starts" "e \<in> set ?ends" by simp_all
  then have "fst (zone_local zone s) = days day + hours h" "fst (zone_local zone e) = days day + hours h + hours n"
    unfolding valid_local_instants_iff by auto
  then show "weekday_of day \<in> set wd" "fst (zone_local zone s) = days day + hours h" "fst (zone_local zone e) = days day + hours (h + n)"
    using w(1) by (simp_all add: duration_defs algebra_simps)
qed

text \<open>
  The next scheduled instant is in a window: when the search returns, the result is not before the
  candidate, and it lies between a start and an end whose local clocks show the configured hours of one
  allowed weekday, at most 370 days on. It is the candidate itself or within 15 minutes of the start of the window, and
  every allowed window of an earlier day had ended or leaves no room for the jitter.
\<close>

theorem next_window_time_in_window:
  assumes "next_window_time sha256 db candidate schedule_id tz wd h n = Inr r"
  shows "\<exists>zone day s e. db tz = Some zone \<and> local_day zone candidate \<le> day \<and> day < local_day zone candidate + 371 \<and>
    weekday_of day \<in> set wd \<and> fst (zone_local zone s) = days day + hours h \<and> fst (zone_local zone e) = days day + hours (h + n) \<and>
    candidate \<le> r \<and> s \<le> r \<and> r < e \<and> (r = candidate \<or> r \<le> s + secs 900) \<and>
    (\<forall>d. local_day zone candidate \<le> d \<and> d < day \<longrightarrow> passed candidate (window_bounds d zone wd h n))"
proof -
  obtain zone where z: "db tz = Some zone" and search: "window_search sha256 schedule_id candidate
      (map (\<lambda>i. window_bounds (local_day zone candidate + int i) zone wd h n) [0..<371]) = Inr r"
    using assms by (auto simp: next_window_time_def load_timezone_def res_simps split: option.splits)
  let ?day = "\<lambda>i. local_day zone candidate + int i"
  obtain i s e where i: "i < 371" "window_bounds (?day i) zone wd h n = Some (s, e)" "s \<le> r" "r < e"
    "r = candidate \<or> candidate < s \<and> s < r \<and> r \<le> s + secs 900"
    "list_all (passed candidate) (take i (map (\<lambda>i. window_bounds (?day i) zone wd h n) [0..<371]))"
    using window_search_Inr [OF search] by auto
  have "passed candidate (window_bounds d zone wd h n)" if "local_day zone candidate \<le> d" "d < ?day i" for d
  proof -
    have "nat (d - local_day zone candidate) < i" "d = ?day (nat (d - local_day zone candidate))" using that by auto
    moreover have "\<forall>k < i. passed candidate (window_bounds (?day k) zone wd h n)"
      using i(1,6) by (auto simp: take_map list_all_iff)
    ultimately show ?thesis by metis
  qed
  then show ?thesis
    using z i window_bounds_Some [OF i(2)] by (intro exI [of _ zone] exI [of _ "?day i"] exI [of _ s] exI [of _ e]) auto
qed

subsection \<open>Fixed offsets\<close>

definition fixed_zone :: "int \<Rightarrow> zone" where
  "fixed_zone offset = \<lparr>zone_local = \<lambda>t. (t + offset, 0), zone_instant = \<lambda>reading fold. reading - offset\<rparr>"

lemma fixed_zone_bounds:
  "weekday_of day \<in> set wd \<Longrightarrow>
   window_bounds day (fixed_zone offset) wd h n = Some (days day + hours h - offset, days day + hours h + hours n - offset)"
  by (simp add: window_bounds_def valid_local_instants_def fixed_zone_def Let_def)

lemma weekday_within_week:
  assumes "wd \<noteq> []"
  shows "\<exists>k \<in> {1..7::int}. weekday_of (day + k) \<in> set wd"
proof -
  have "hd wd \<in> set weekdays" by (cases "hd wd") (simp_all add: weekdays_def)
  moreover have "length weekdays = 7" by (simp add: weekdays_def)
  ultimately obtain i where i: "i < 7" "weekdays ! i = hd wd" by (auto simp: in_set_conv_nth)
  let ?k = "(int i - (day + 4)) mod 7 + 1"
  have "(day + ?k + 3) mod 7 = int i"
  proof -
    have "(day + ?k + 3) mod 7 = ((day + 4) + (int i - (day + 4)) mod 7) mod 7" by (simp add: algebra_simps)
    also have "\<dots> = int i mod 7" by (simp add: mod_add_right_eq)
    finally show ?thesis using i(1) by simp
  qed
  then have "weekday_of (day + ?k) = hd wd" using i by (simp add: weekday_of_def)
  moreover have "?k \<in> {1..7}" using pos_mod_sign [of 7] pos_mod_bound [of 7] by (simp add: int_one_le_iff_zero_less add1_zle_eq)
  ultimately show ?thesis using assms by (metis hd_in_set)
qed

text \<open>
  On a clock with a fixed offset (UTC among them) a schedule never starves: for every admissible window the
  search returns, and the next instant is less than eight days after the candidate.
\<close>

theorem fixed_offset_search_returns:
  assumes "db tz = Some (fixed_zone offset)" "is_hex_id 32 schedule_id" "wd \<noteq> []" "0 \<le> h" "h \<le> 23" "1 \<le> n" "h + n \<le> 24"
  shows "\<exists>r. next_window_time sha256 db candidate schedule_id tz wd h n = Inr r \<and> candidate \<le> r \<and> r < candidate + days 8"
proof -
  let ?z = "fixed_zone offset" and ?d = "local_day (fixed_zone offset) candidate"
  let ?bs = "map (\<lambda>i. window_bounds (?d + int i) ?z wd h n) [0..<371]"
  have local: "days ?d \<le> candidate + offset" "candidate + offset < days (?d + 1)"
    by (simp_all add: local_day_def fixed_zone_def duration_defs)
  obtain k where k: "k \<in> {1..7::int}" "weekday_of (?d + k) \<in> set wd" using weekday_within_week [OF assms(3)] by blast
  let ?s = "days (?d + k) + hours h - offset" and ?e = "days (?d + k) + hours h + hours n - offset"
  have nk: "nat k < 371" "int (nat k) = k" using k(1) by auto
  then have w: "?bs ! nat k = Some (?s, ?e)" using fixed_zone_bounds [OF k(2), of offset h n] by (simp add: nth_append del: upt.simps)
  have late: "candidate < ?s" "?s + secs 900 < ?e" using local k(1) assms(4,6) by (simp_all add: duration_defs)
  have "Some (?s, ?e) \<in> set ?bs" using nk(1) by (subst w [symmetric], intro nth_mem) simp
  with jitter_defined [OF assms(2)] late obtain r where r: "window_search sha256 schedule_id candidate ?bs = Inr r"
    using window_search_total by metis
  obtain i s e where i: "i < 371" "window_bounds (?d + int i) ?z wd h n = Some (s, e)" "s \<le> r"
    "r = candidate \<or> candidate < s \<and> s < r \<and> r \<le> s + secs 900" "list_all (passed candidate) (take i ?bs)"
    using window_search_Inr [OF r] by auto
  have "i \<le> nat k"
  proof (rule ccontr)
    assume "\<not> i \<le> nat k"
    then have "Some (?s, ?e) \<in> set (take i ?bs)" using i(1) w by (auto simp: in_set_conv_nth intro!: exI [of _ "nat k"])
    then have "passed candidate (Some (?s, ?e))" using i(5) unfolding list_all_iff by blast
    then show False using late assms(6) by (auto simp: passed_def duration_defs)
  qed
  moreover have "s = days (?d + int i) + hours h - offset"
    using window_bounds_Some(2) [OF i(2)] by (simp add: fixed_zone_def)
  ultimately have "r < candidate + days 8" using i(4) local k(1) assms(5) by (auto simp: duration_defs)
  then show ?thesis using r assms(1) i(3,4) by (auto simp: next_window_time_def load_timezone_def)
qed

definition example_zones :: zone_db where
  "example_zones name = (if name = ''UTC'' then Some (fixed_zone 0) else None)"

lemma next_window_time_in_window_witness:
  "\<exists>r day s. next_window_time (\<lambda>x. ''00000000'') example_zones (days 4 + hours 12) (replicate 32 CHR ''1'') ''UTC'' [Monday] 9 2 = Inr r \<and>
     weekday_of day = Monday \<and> s = days day + hours 9 \<and> s \<le> r \<and> r \<le> s + secs 900"
proof -
  have "is_hex_id 32 (replicate 32 CHR ''1'')" by code_simp
  then obtain r where r: "next_window_time (\<lambda>x. ''00000000'') example_zones (days 4 + hours 12) (replicate 32 CHR ''1'') ''UTC'' [Monday] 9 2 = Inr r"
    using fixed_offset_search_returns [of example_zones "''UTC''" 0 "replicate 32 CHR ''1''" "[Monday]" 9 2 "\<lambda>x. ''00000000''" "days 4 + hours 12"]
    by (auto simp: example_zones_def)
  from next_window_time_in_window [OF r] obtain day s e where *: "weekday_of day = Monday" "s = days day + hours 9" "e = days day + hours 11"
    "s \<le> r" "r < e" "r = days 4 + hours 12 \<or> r \<le> s + secs 900"
    by (auto simp: example_zones_def fixed_zone_def split: if_splits)
  have "r \<noteq> days 4 + hours 12" using *(2-5) by (auto simp: duration_defs) presburger
  then show ?thesis using r * by blast
qed

end
