(* ===== verification/Active_Recurrence.thy ===== *)
theory Active_Recurrence
  imports Recurrence_Windows
begin

section \<open>Recurrence policies of active assets\<close>

text \<open>
  Model of the store of \<^verbatim>\<open>backend/app/active_recurrence.py\<close> and of its rebuildable projection
  \<^verbatim>\<open>backend/app/active_recurrence_index.py\<close>. The state holds one file for each organization and schedule and the
  table of the projection. The metadata of the source directory (\<^verbatim>\<open>_source_state\<close>) is a counter that every rename and
  unlink in it advances; a process that has not opened the projection yet has \<open>ix_open\<close> false. Instants are aware
  by construction, so \<^verbatim>\<open>_utc\<close> is the identity. SQLite failures and file modes of the projection are left out.
\<close>

subsection \<open>Records\<close>

datatype capability = ActiveNmapBasic | ActiveDnsInventory | ActiveDnsOsint | ActiveHttpBasicHeaderReview | ActiveTlsBasic

datatype schedule_status = Active | Paused | Suspended

datatype schedule_reason = Scheduled | OperatorPaused | AuthorizationUnavailable | AuthorizationRevisionChanged
  | VerificationUnavailable | CapabilityDisabled

datatype schedule_outcome = NeverRun | OutcomeScheduled | RunnerUnavailable | CapacitySaturated | DispatchConflict

datatype actor_role = Administrator | Maintainer

record recurrence =
  rc_contract_version :: string
  rc_id :: string
  rc_organization_id :: string
  rc_asset_id :: string
  rc_capability :: capability
  rc_port :: "int option"
  rc_interval_days :: int
  rc_timezone_name :: string
  rc_weekdays :: "weekday list"
  rc_start_hour :: int
  rc_duration_hours :: int
  rc_auth_id :: string
  rc_auth_digest :: string
  rc_auth_sequence :: int
  rc_auth_expires :: "instant option"
  rc_verification_id :: string
  rc_status :: schedule_status
  rc_reason :: schedule_reason
  rc_next_run_at :: instant
  rc_last_scheduled_at :: "instant option"
  rc_last_job_id :: "string option"
  rc_failure_count :: int
  rc_next_retry_at :: "instant option"
  rc_last_attempt_at :: "instant option"
  rc_last_outcome :: schedule_outcome
  rc_created_at :: instant
  rc_updated_at :: instant
  rc_actor_id :: string
  rc_actor_role :: actor_role

definition recurrence_contract_version :: string where
  "recurrence_contract_version = ''2026-09-08.2''"

definition legacy_contract_version :: string where
  "legacy_contract_version = ''2026-09-08.1''"

definition max_per_organization :: nat where
  "max_per_organization = 500"

definition max_due_per_tick :: nat where
  "max_due_per_tick = 16"

definition window_fields_valid :: "zone_db \<Rightarrow> string \<Rightarrow> weekday list \<Rightarrow> int \<Rightarrow> int \<Rightarrow> bool" where
  "window_fields_valid db tz wd h n \<longleftrightarrow> distinct wd \<and> h + n \<le> 24 \<and> db tz \<noteq> None"

definition port_valid :: "int option \<Rightarrow> bool" where
  "port_valid p = (case p of None \<Rightarrow> True | Some n \<Rightarrow> 1 \<le> n \<and> n \<le> 65535)"

definition optional_id :: "string option \<Rightarrow> bool" where
  "optional_id s = (case s of None \<Rightarrow> True | Some i \<Rightarrow> is_hex_id 32 i)"

definition recurrence_valid :: "zone_db \<Rightarrow> recurrence \<Rightarrow> bool" where
  "recurrence_valid db r \<longleftrightarrow>
     rc_contract_version r \<in> {legacy_contract_version, recurrence_contract_version} \<and>
     is_hex_id 32 (rc_id r) \<and> is_organization_id (rc_organization_id r) \<and> is_hex_id 32 (rc_asset_id r) \<and>
     port_valid (rc_port r) \<and> rc_interval_days r \<in> {7, 14, 30} \<and>
     1 \<le> length (rc_weekdays r) \<and> length (rc_weekdays r) \<le> 7 \<and> 0 \<le> rc_start_hour r \<and> rc_start_hour r \<le> 23 \<and>
     1 \<le> rc_duration_hours r \<and> rc_duration_hours r \<le> 24 \<and>
     is_hex_id 32 (rc_auth_id r) \<and> is_hex_id 64 (rc_auth_digest r) \<and> 1 \<le> rc_auth_sequence r \<and> rc_auth_sequence r \<le> 64 \<and>
     is_hex_id 32 (rc_verification_id r) \<and> optional_id (rc_last_job_id r) \<and>
     0 \<le> rc_failure_count r \<and> rc_failure_count r \<le> max_failures_kept \<and> is_actor_id (rc_actor_id r) \<and>
     (rc_capability r = ActiveTlsBasic \<longleftrightarrow> rc_port r \<noteq> None) \<and>
     window_fields_valid db (rc_timezone_name r) (rc_weekdays r) (rc_start_hour r) (rc_duration_hours r)"

subsection \<open>Files\<close>

datatype recurrence_file = RecurrenceFile recurrence | UnreadableFile

record index_row =
  ir_organization_id :: string
  ir_asset_id :: string
  ir_status :: schedule_status
  ir_next_run_at :: instant
  ir_next_retry_at :: "instant option"
  ir_digest :: string

record recurrence_index =
  ix_open :: bool
  ix_present :: bool
  ix_rows :: "(string \<times> index_row) list"
  ix_token :: nat
  ix_seen :: nat

record recurrence_store =
  rs_files :: "((string \<times> string) \<times> recurrence_file) list"
  rs_revision :: nat
  rs_index :: recurrence_index

text \<open>The migration that every read applies: a legacy policy without an expiry is never executable.\<close>

definition migrate :: "recurrence \<Rightarrow> recurrence" where
  "migrate r =
     (let r' = r\<lparr>rc_contract_version := recurrence_contract_version\<rparr> in
      if rc_auth_expires r = None \<and> rc_status r = Active
      then r'\<lparr>rc_status := Suspended, rc_reason := AuthorizationUnavailable, rc_next_retry_at := None\<rparr> else r')"

definition read_record :: "zone_db \<Rightarrow> string \<Rightarrow> string \<Rightarrow> recurrence_store \<Rightarrow> recurrence_error + recurrence" where
  "read_record db org schedule_id st =
     (case map_of (rs_files st) (org, schedule_id) of
        None \<Rightarrow> Inl ScheduleNotFound
      | Some UnreadableFile \<Rightarrow> Inl StoreInvalid
      | Some (RecurrenceFile r) \<Rightarrow>
          if \<not> recurrence_valid db r then Inl StoreInvalid
          else if rc_id r \<noteq> schedule_id \<or> rc_organization_id r \<noteq> org then Inl StoreInvalid
          else Inr (migrate r))"

definition load_organization :: "zone_db \<Rightarrow> string \<Rightarrow> recurrence_store \<Rightarrow> recurrence_error + recurrence list" where
  "load_organization db org st =
     map_res (\<lambda>(owner, schedule_id). if \<not> is_hex_id 32 schedule_id then Inl StoreInvalid else read_record db org schedule_id st)
       (filter (\<lambda>(owner, schedule_id). owner = org) (map fst (rs_files st)))"

definition write_record :: "recurrence \<Rightarrow> recurrence_store \<Rightarrow> recurrence_store" where
  "write_record r st =
     st\<lparr>rs_files := dict_set (rc_organization_id r, rc_id r) (RecurrenceFile r) (rs_files st), rs_revision := Suc (rs_revision st)\<rparr>"

definition unlink_record :: "string \<Rightarrow> string \<Rightarrow> recurrence_store \<Rightarrow> recurrence_store" where
  "unlink_record org schedule_id st =
     st\<lparr>rs_files := dict_pop (org, schedule_id) (rs_files st), rs_revision := Suc (rs_revision st)\<rparr>"

subsection \<open>The projection\<close>

fun opt_int :: "int option \<Rightarrow> json" where
  "opt_int None = JNull"
| "opt_int (Some n) = JInt n"

fun opt_str :: "string option \<Rightarrow> json" where
  "opt_str None = JNull"
| "opt_str (Some s) = JStr s"

fun capability_text :: "capability \<Rightarrow> string" where
  "capability_text ActiveNmapBasic = ''active_nmap_basic''"
| "capability_text ActiveDnsInventory = ''active_dns_inventory''"
| "capability_text ActiveDnsOsint = ''active_dns_osint''"
| "capability_text ActiveHttpBasicHeaderReview = ''active_http_basic_header_review''"
| "capability_text ActiveTlsBasic = ''active_tls_basic''"

fun weekday_text :: "weekday \<Rightarrow> string" where
  "weekday_text Monday = ''monday''"
| "weekday_text Tuesday = ''tuesday''"
| "weekday_text Wednesday = ''wednesday''"
| "weekday_text Thursday = ''thursday''"
| "weekday_text Friday = ''friday''"
| "weekday_text Saturday = ''saturday''"
| "weekday_text Sunday = ''sunday''"

fun schedule_status_text :: "schedule_status \<Rightarrow> string" where
  "schedule_status_text Active = ''active''"
| "schedule_status_text Paused = ''paused''"
| "schedule_status_text Suspended = ''suspended''"

fun schedule_reason_text :: "schedule_reason \<Rightarrow> string" where
  "schedule_reason_text Scheduled = ''scheduled''"
| "schedule_reason_text OperatorPaused = ''operator_paused''"
| "schedule_reason_text AuthorizationUnavailable = ''authorization_unavailable''"
| "schedule_reason_text AuthorizationRevisionChanged = ''authorization_revision_changed''"
| "schedule_reason_text VerificationUnavailable = ''verification_unavailable''"
| "schedule_reason_text CapabilityDisabled = ''capability_disabled''"

fun schedule_outcome_text :: "schedule_outcome \<Rightarrow> string" where
  "schedule_outcome_text NeverRun = ''never''"
| "schedule_outcome_text OutcomeScheduled = ''scheduled''"
| "schedule_outcome_text RunnerUnavailable = ''runner_unavailable''"
| "schedule_outcome_text CapacitySaturated = ''capacity_saturated''"
| "schedule_outcome_text DispatchConflict = ''dispatch_conflict''"

fun role_text :: "actor_role \<Rightarrow> string" where
  "role_text Administrator = ''administrator''"
| "role_text Maintainer = ''maintainer''"

definition recurrence_json :: "(instant \<Rightarrow> string) \<Rightarrow> recurrence \<Rightarrow> json" where
  "recurrence_json iso_text r = JObj
     [(''contract_version'', JStr (rc_contract_version r)), (''idempotency_domain_version'', JStr idempotency_domain_version),
      (''id'', JStr (rc_id r)), (''organization_id'', JStr (rc_organization_id r)), (''asset_id'', JStr (rc_asset_id r)),
      (''capability'', JStr (capability_text (rc_capability r))), (''port'', opt_int (rc_port r)),
      (''interval_days'', JInt (rc_interval_days r)), (''timezone_name'', JStr (rc_timezone_name r)),
      (''window_weekdays'', JList (map (JStr \<circ> weekday_text) (rc_weekdays r))),
      (''window_start_hour'', JInt (rc_start_hour r)), (''window_duration_hours'', JInt (rc_duration_hours r)),
      (''authorization_revision_id'', JStr (rc_auth_id r)), (''authorization_revision_digest_sha256'', JStr (rc_auth_digest r)),
      (''authorization_revision_sequence'', JInt (rc_auth_sequence r)),
      (''authorization_expires_at'', opt_str (map_option iso_text (rc_auth_expires r))),
      (''verification_id'', JStr (rc_verification_id r)), (''status'', JStr (schedule_status_text (rc_status r))),
      (''reason_code'', JStr (schedule_reason_text (rc_reason r))), (''next_run_at'', JStr (iso_text (rc_next_run_at r))),
      (''last_scheduled_at'', opt_str (map_option iso_text (rc_last_scheduled_at r))),
      (''last_job_id'', opt_str (rc_last_job_id r)), (''failure_count'', JInt (rc_failure_count r)),
      (''next_retry_at'', opt_str (map_option iso_text (rc_next_retry_at r))),
      (''last_attempt_at'', opt_str (map_option iso_text (rc_last_attempt_at r))),
      (''last_outcome'', JStr (schedule_outcome_text (rc_last_outcome r))), (''created_at'', JStr (iso_text (rc_created_at r))),
      (''updated_at'', JStr (iso_text (rc_updated_at r))), (''actor_id'', JStr (rc_actor_id r)),
      (''actor_role'', JStr (role_text (rc_actor_role r)))]"

definition record_digest :: "(string \<Rightarrow> string) \<Rightarrow> (instant \<Rightarrow> string) \<Rightarrow> recurrence \<Rightarrow> string" where
  "record_digest sha256 iso_text r = sha256 (dumps_compact (recurrence_json iso_text r))"

definition row_of :: "(string \<Rightarrow> string) \<Rightarrow> (instant \<Rightarrow> string) \<Rightarrow> recurrence \<Rightarrow> index_row" where
  "row_of sha256 iso_text r =
     \<lparr>ir_organization_id = rc_organization_id r, ir_asset_id = rc_asset_id r, ir_status = rc_status r,
      ir_next_run_at = rc_next_run_at r, ir_next_retry_at = rc_next_retry_at r, ir_digest = record_digest sha256 iso_text r\<rparr>"

definition replace_row ::
  "(string \<Rightarrow> string) \<Rightarrow> (instant \<Rightarrow> string) \<Rightarrow> recurrence \<Rightarrow> (string \<times> index_row) list \<Rightarrow> recurrence_error + (string \<times> index_row) list" where
  "replace_row sha256 iso_text r rows =
     (if \<not> is_hex_id 32 (rc_id r) \<or> \<not> is_hex_id 32 (rc_asset_id r) \<or> \<not> is_organization_id (rc_organization_id r)
      then Inl IndexInvalid else Inr (dict_set (rc_id r) (row_of sha256 iso_text r) rows))"

fun replace_rows ::
  "(string \<Rightarrow> string) \<Rightarrow> (instant \<Rightarrow> string) \<Rightarrow> recurrence list \<Rightarrow> (string \<times> index_row) list \<Rightarrow> recurrence_error + (string \<times> index_row) list" where
  "replace_rows sha256 iso_text [] rows = Inr rows"
| "replace_rows sha256 iso_text (r # rs) rows = bind_res (replace_row sha256 iso_text r rows) (replace_rows sha256 iso_text rs)"

text \<open>\<^verbatim>\<open>_rebuild\<close>: load every record again, in the order of the names, and write a new table.\<close>

definition rebuild ::
  "(string \<Rightarrow> string) \<Rightarrow> (instant \<Rightarrow> string) \<Rightarrow> zone_db \<Rightarrow> recurrence_store \<Rightarrow> recurrence_error + recurrence_store" where
  "rebuild sha256 iso_text db st =
     (if list_ex (\<lambda>(org, i). \<not> is_organization_id org) (map fst (rs_files st)) then Inl IndexInvalid
      else case map_res (\<lambda>(org, i). read_record db org i st) (filter (\<lambda>(org, i). is_hex_id 32 i) (sort (map fst (rs_files st)))) of
        Inl e \<Rightarrow> Inl IndexInvalid
      | Inr records \<Rightarrow> bind_res (replace_rows sha256 iso_text records []) (\<lambda>rows.
          Inr (st\<lparr>rs_index := \<lparr>ix_open = True, ix_present = True, ix_rows = rows, ix_token = rs_revision st, ix_seen = rs_revision st\<rparr>\<rparr>)))"

definition ensure_current ::
  "(string \<Rightarrow> string) \<Rightarrow> (instant \<Rightarrow> string) \<Rightarrow> zone_db \<Rightarrow> recurrence_store \<Rightarrow> recurrence_error + recurrence_store" where
  "ensure_current sha256 iso_text db st =
     (let ix = rs_index st in
      if \<not> ix_open ix \<and> ix_present ix then
        (if ix_token ix = rs_revision st then Inr (st\<lparr>rs_index := ix\<lparr>ix_open := True, ix_seen := rs_revision st\<rparr>\<rparr>)
         else rebuild sha256 iso_text db st)
      else if \<not> ix_open ix \<or> \<not> ix_present ix then rebuild sha256 iso_text db st
      else if ix_seen ix \<noteq> rs_revision st then rebuild sha256 iso_text db st
      else Inr st)"

definition sync_after_write ::
  "(string \<Rightarrow> string) \<Rightarrow> (instant \<Rightarrow> string) \<Rightarrow> zone_db \<Rightarrow> recurrence \<Rightarrow> recurrence_store \<Rightarrow> recurrence_error + recurrence_store" where
  "sync_after_write sha256 iso_text db r st =
     (let ix = rs_index st in
      if \<not> ix_open ix then Inr st
      else case replace_row sha256 iso_text r (ix_rows ix) of
        Inl e \<Rightarrow> rebuild sha256 iso_text db st
      | Inr rows \<Rightarrow> Inr (st\<lparr>rs_index := ix\<lparr>ix_rows := rows, ix_token := rs_revision st, ix_seen := rs_revision st\<rparr>\<rparr>))"

definition sync_delete :: "(string \<times> index_row \<Rightarrow> bool) \<Rightarrow> recurrence_store \<Rightarrow> recurrence_store" where
  "sync_delete gone st =
     (let ix = rs_index st in
      if \<not> ix_open ix then st
      else st\<lparr>rs_index := ix\<lparr>ix_rows := filter (\<lambda>row. \<not> gone row) (ix_rows ix), ix_token := rs_revision st, ix_seen := rs_revision st\<rparr>\<rparr>)"

definition sync_after_delete :: "string \<Rightarrow> string \<Rightarrow> recurrence_store \<Rightarrow> recurrence_store" where
  "sync_after_delete org schedule_id = sync_delete (\<lambda>(i, row). ir_organization_id row = org \<and> i = schedule_id)"

definition sync_after_asset_delete :: "string \<Rightarrow> string \<Rightarrow> recurrence_store \<Rightarrow> recurrence_store" where
  "sync_after_asset_delete org asset_id = sync_delete (\<lambda>(i, row). ir_organization_id row = org \<and> ir_asset_id row = asset_id)"

definition load_validated ::
  "(string \<Rightarrow> string) \<Rightarrow> (instant \<Rightarrow> string) \<Rightarrow> zone_db \<Rightarrow> recurrence_store \<Rightarrow> string \<times> index_row \<Rightarrow> recurrence_error + recurrence" where
  "load_validated sha256 iso_text db st entry =
     (case entry of (schedule_id, row) \<Rightarrow>
        case read_record db (ir_organization_id row) schedule_id st of
          Inl e \<Rightarrow> Inl IndexInvalid
        | Inr r \<Rightarrow> if rc_id r \<noteq> schedule_id \<or> row_of sha256 iso_text r \<noteq> row then Inl IndexInvalid else Inr r)"

text \<open>\<^verbatim>\<open>ActiveRecurrenceIndexError\<close> becomes \<^verbatim>\<open>store_invalid\<close> in the store.\<close>

definition as_store_error :: "recurrence_error + 'a \<Rightarrow> recurrence_error + 'a" where
  "as_store_error m = (case m of Inl IndexInvalid \<Rightarrow> Inl StoreInvalid | r \<Rightarrow> r)"

definition records_for_asset ::
  "(string \<Rightarrow> string) \<Rightarrow> (instant \<Rightarrow> string) \<Rightarrow> zone_db \<Rightarrow> string \<Rightarrow> string \<Rightarrow> recurrence_store
     \<Rightarrow> recurrence_error + recurrence list \<times> recurrence_store" where
  "records_for_asset sha256 iso_text db org asset_id st =
     (if \<not> is_organization_id org \<or> \<not> is_hex_id 32 asset_id then Inl IndexInvalid
      else bind_res (ensure_current sha256 iso_text db st) (\<lambda>st'.
        bind_res (map_res (load_validated sha256 iso_text db st')
            (sort_key fst (filter (\<lambda>(i, row). ir_organization_id row = org \<and> ir_asset_id row = asset_id) (ix_rows (rs_index st')))))
          (\<lambda>records. Inr (records, st'))))"

definition count_for_asset ::
  "(string \<Rightarrow> string) \<Rightarrow> (instant \<Rightarrow> string) \<Rightarrow> zone_db \<Rightarrow> string \<Rightarrow> string \<Rightarrow> recurrence_store
     \<Rightarrow> recurrence_error + nat \<times> recurrence_store" where
  "count_for_asset sha256 iso_text db org asset_id st =
     (if \<not> is_organization_id org \<or> \<not> is_hex_id 32 asset_id then Inl IndexInvalid
      else bind_res (ensure_current sha256 iso_text db st) (\<lambda>st'.
        Inr (length (filter (\<lambda>(i, row). ir_organization_id row = org \<and> ir_asset_id row = asset_id) (ix_rows (rs_index st'))), st')))"

definition max_index_assets :: nat where
  "max_index_assets = 500"

text \<open>The set of asset identifiers is a list; duplicates count once.\<close>

definition records_for_assets ::
  "(string \<Rightarrow> string) \<Rightarrow> (instant \<Rightarrow> string) \<Rightarrow> zone_db \<Rightarrow> string \<Rightarrow> string list \<Rightarrow> recurrence_store
     \<Rightarrow> recurrence_error + recurrence list \<times> recurrence_store" where
  "records_for_assets sha256 iso_text db org asset_ids st =
     (if \<not> is_organization_id org \<or> \<not> length (remdups asset_ids) \<le> max_index_assets \<or> list_ex (\<lambda>i. \<not> is_hex_id 32 i) asset_ids
      then Inl IndexInvalid
      else if asset_ids = [] then Inr ([], st)
      else bind_res (ensure_current sha256 iso_text db st) (\<lambda>st'.
        bind_res (map_res (load_validated sha256 iso_text db st')
            (sort_key (\<lambda>(i, row). (ir_asset_id row, i))
              (filter (\<lambda>(i, row). ir_organization_id row = org \<and> ir_asset_id row \<in> set asset_ids) (ix_rows (rs_index st')))))
          (\<lambda>records. Inr (records, st'))))"

text \<open>\<^verbatim>\<open>ready\<close>: a projection that was never built is ready; the integrity check of SQLite passes.\<close>

definition index_ready ::
  "(string \<Rightarrow> string) \<Rightarrow> (instant \<Rightarrow> string) \<Rightarrow> zone_db \<Rightarrow> recurrence_store \<Rightarrow> bool \<times> recurrence_store" where
  "index_ready sha256 iso_text db st =
     (if \<not> ix_open (rs_index st) \<and> \<not> ix_present (rs_index st) then (True, st)
      else case ensure_current sha256 iso_text db st of Inl e \<Rightarrow> (False, st) | Inr st' \<Rightarrow> (True, st'))"

subsection \<open>Due schedules\<close>

definition query_batch_size :: nat where
  "query_batch_size = 100"

definition due_key :: "string \<times> index_row \<Rightarrow> instant \<times> string" where
  "due_key entry = (ir_next_run_at (snd entry), fst entry)"

definition row_due :: "instant \<Rightarrow> string \<times> index_row \<Rightarrow> bool" where
  "row_due now entry =
     (case entry of (i, row) \<Rightarrow> ir_status row = Active \<and> ir_next_run_at row \<le> now \<and>
        (case ir_next_retry_at row of None \<Rightarrow> True | Some t \<Rightarrow> t \<le> now))"

definition after_cursor :: "(instant \<times> string) option \<Rightarrow> string \<times> index_row \<Rightarrow> bool" where
  "after_cursor cursor entry = (case cursor of None \<Rightarrow> True | Some key \<Rightarrow> key < due_key entry)"

definition due_page_rows :: "instant \<Rightarrow> (instant \<times> string) option \<Rightarrow> (string \<times> index_row) list \<Rightarrow> (string \<times> index_row) list" where
  "due_page_rows now cursor rows =
     take query_batch_size (sort_key due_key (filter (\<lambda>e. row_due now e \<and> after_cursor cursor e) rows))"

text \<open>The inner loop over the rows of a page.\<close>

fun scan_rows ::
  "(string \<times> index_row \<Rightarrow> recurrence_error + recurrence) \<Rightarrow> (recurrence \<Rightarrow> recurrence_error + bool) \<Rightarrow> nat
     \<Rightarrow> (string \<times> index_row) list \<Rightarrow> recurrence list \<Rightarrow> recurrence_error + recurrence list" where
  "scan_rows load eligible limit [] acc = Inr acc"
| "scan_rows load eligible limit (e # es) acc =
     bind_res (load e) (\<lambda>r. bind_res (eligible r) (\<lambda>ok.
       if ok then (if length acc + 1 = limit then Inr (acc @ [r]) else scan_rows load eligible limit es (acc @ [r]))
       else scan_rows load eligible limit es acc))"

lemma after_cursor_last:
  assumes "page = due_page_rows now cursor rows" "page \<noteq> []"
  shows "length (filter (after_cursor (Some (due_key (last page)))) rows) < length (filter (after_cursor cursor) rows)"
proof -
  have "last page \<in> set page" using assms(2) by simp
  then have mem: "last page \<in> set rows" "after_cursor cursor (last page)"
    unfolding assms(1) due_page_rows_def by (auto dest!: in_set_takeD)
  have imp: "after_cursor cursor e" if "after_cursor (Some (due_key (last page))) e" for e
    using that mem(2) by (auto simp: after_cursor_def split: option.splits)
  have "filter (after_cursor (Some (due_key (last page)))) rows
      = filter (after_cursor (Some (due_key (last page)))) (filter (after_cursor cursor) rows)"
    using imp by (auto intro!: filter_cong simp: filter_filter)
  also have "length \<dots> < length (filter (after_cursor cursor) rows)"
    using mem by (intro length_filter_less [of "last page"]) (auto simp: after_cursor_def)
  finally show ?thesis .
qed

text \<open>The outer loop: another page as long as the last one was full.\<close>

function due_loop ::
  "(string \<times> index_row \<Rightarrow> recurrence_error + recurrence) \<Rightarrow> (recurrence \<Rightarrow> recurrence_error + bool) \<Rightarrow> instant \<Rightarrow> nat
     \<Rightarrow> (string \<times> index_row) list \<Rightarrow> (instant \<times> string) option \<Rightarrow> recurrence list \<Rightarrow> recurrence_error + recurrence list" where
  "due_loop load eligible now limit rows cursor acc =
     (if limit \<le> length acc then Inr acc
      else
        let page = due_page_rows now cursor rows in
        if page = [] then Inr acc
        else bind_res (scan_rows load eligible limit page acc) (\<lambda>acc'.
          if length page < query_batch_size then Inr acc'
          else due_loop load eligible now limit rows (Some (due_key (last page))) acc'))"
  by pat_completeness auto

termination
  by (relation "measure (\<lambda>(load, eligible, now, limit, rows, cursor, acc). length (filter (after_cursor cursor) rows))")
    (auto intro: after_cursor_last)

declare due_loop.simps [simp del]

definition recurrence_is_within_window :: "zone_db \<Rightarrow> instant \<Rightarrow> recurrence \<Rightarrow> recurrence_error + bool" where
  "recurrence_is_within_window db observed r =
     bind_res (load_timezone db (rc_timezone_name r)) (\<lambda>zone.
       Inr (case window_bounds (local_day zone observed) zone (rc_weekdays r) (rc_start_hour r) (rc_duration_hours r) of
              None \<Rightarrow> False | Some (s, e) \<Rightarrow> s \<le> observed \<and> observed < e))"

definition due_records ::
  "(string \<Rightarrow> string) \<Rightarrow> (instant \<Rightarrow> string) \<Rightarrow> zone_db \<Rightarrow> instant \<Rightarrow> nat \<Rightarrow> recurrence_store
     \<Rightarrow> recurrence_error + recurrence list \<times> recurrence_store" where
  "due_records sha256 iso_text db now limit st =
     (if \<not> (1 \<le> limit \<and> limit \<le> 16) then Inl IndexInvalid
      else bind_res (ensure_current sha256 iso_text db st) (\<lambda>st'.
        bind_res (due_loop (load_validated sha256 iso_text db st') (recurrence_is_within_window db now) now limit
            (ix_rows (rs_index st')) None []) (\<lambda>records. Inr (records, st'))))"

definition list_due ::
  "(string \<Rightarrow> string) \<Rightarrow> (instant \<Rightarrow> string) \<Rightarrow> zone_db \<Rightarrow> instant \<Rightarrow> nat \<Rightarrow> recurrence_store
     \<Rightarrow> recurrence_error + recurrence list \<times> recurrence_store" where
  "list_due sha256 iso_text db now limit st =
     (if \<not> (1 \<le> limit \<and> limit \<le> max_due_per_tick) then Inl InvalidLimit
      else as_store_error (due_records sha256 iso_text db now limit st))"


subsection \<open>Operations\<close>

record create_request =
  cq_capability :: capability
  cq_port :: "int option"
  cq_interval_days :: int
  cq_timezone_name :: string
  cq_weekdays :: "weekday list"
  cq_start_hour :: int
  cq_duration_hours :: int
  cq_idempotency_key :: string

record authorization =
  au_revision_id :: string
  au_revision_digest :: string
  au_revision_sequence :: int
  au_expires_at :: instant
  au_verification_id :: string

fun weekday_index :: "weekday \<Rightarrow> nat" where
  "weekday_index Monday = 0" | "weekday_index Tuesday = 1" | "weekday_index Wednesday = 2" | "weekday_index Thursday = 3"
| "weekday_index Friday = 4" | "weekday_index Saturday = 5" | "weekday_index Sunday = 6"

definition zone_char :: "char \<Rightarrow> bool" where
  "zone_char c \<longleftrightarrow> is_ascii_alnum c \<or> c \<in> {CHR ''_'', CHR ''+'', CHR ''.'', CHR ''-''}"

definition zone_name_valid :: "string \<Rightarrow> bool" where
  "zone_name_valid name \<longleftrightarrow> 1 \<le> length name \<and> length name \<le> 64 \<and>
     list_all (\<lambda>part. part \<noteq> [] \<and> list_all zone_char part) (py_split CHR ''/'' name)"

text \<open>The request model: the fields are checked and the weekdays brought into the order of the week.\<close>

definition validate_request :: "zone_db \<Rightarrow> create_request \<Rightarrow> recurrence_error + create_request" where
  "validate_request db q =
     (if port_valid (cq_port q) \<and> cq_interval_days q \<in> {7, 14, 30} \<and> zone_name_valid (cq_timezone_name q) \<and> 1 \<le> length (cq_weekdays q) \<and> length (cq_weekdays q) \<le> 7 \<and>
         0 \<le> cq_start_hour q \<and> cq_start_hour q \<le> 23 \<and> 1 \<le> cq_duration_hours q \<and> cq_duration_hours q \<le> 12 \<and>
         is_hex_id 32 (cq_idempotency_key q) \<and>
         window_fields_valid db (cq_timezone_name q) (cq_weekdays q) (cq_start_hour q) (cq_duration_hours q)
      then Inr (q\<lparr>cq_weekdays := sort_key weekday_index (cq_weekdays q)\<rparr>) else Inl RecordInvalid)"

definition validate_recurrence_scope :: "string \<Rightarrow> string \<Rightarrow> recurrence_error + unit" where
  "validate_recurrence_scope org asset_id =
     (if \<not> is_organization_id org then Inl InvalidIdentity
      else if \<not> is_hex_id 32 asset_id then Inl ScheduleNotFound else Inr ())"

definition recurrence_id :: "(string \<Rightarrow> string) \<Rightarrow> string \<Rightarrow> string \<Rightarrow> string \<Rightarrow> string" where
  "recurrence_id sha256 org actor_id key =
     take 32 (sha256 (idempotency_domain_version @ [CHR 0x00] @ org @ [CHR 0x00] @ actor_id @ [CHR 0x00] @ key))"

definition new_recurrence ::
  "create_request \<Rightarrow> string \<Rightarrow> string \<Rightarrow> string \<Rightarrow> actor_role \<Rightarrow> authorization \<Rightarrow> string \<Rightarrow> instant \<Rightarrow> instant \<Rightarrow> recurrence" where
  "new_recurrence q org asset_id actor_id role auth schedule_id now next_run_at =
     \<lparr>rc_contract_version = recurrence_contract_version, rc_id = schedule_id, rc_organization_id = org, rc_asset_id = asset_id,
      rc_capability = cq_capability q, rc_port = cq_port q, rc_interval_days = cq_interval_days q,
      rc_timezone_name = cq_timezone_name q, rc_weekdays = cq_weekdays q, rc_start_hour = cq_start_hour q,
      rc_duration_hours = cq_duration_hours q, rc_auth_id = au_revision_id auth, rc_auth_digest = au_revision_digest auth,
      rc_auth_sequence = au_revision_sequence auth, rc_auth_expires = Some (au_expires_at auth),
      rc_verification_id = au_verification_id auth, rc_status = Active, rc_reason = Scheduled, rc_next_run_at = next_run_at,
      rc_last_scheduled_at = None, rc_last_job_id = None, rc_failure_count = 0, rc_next_retry_at = None,
      rc_last_attempt_at = None, rc_last_outcome = NeverRun, rc_created_at = now, rc_updated_at = now,
      rc_actor_id = actor_id, rc_actor_role = role\<rparr>"

definition same_creation :: "recurrence \<Rightarrow> recurrence \<Rightarrow> bool" where
  "same_creation l r \<longleftrightarrow>
     rc_organization_id l = rc_organization_id r \<and> rc_asset_id l = rc_asset_id r \<and> rc_capability l = rc_capability r \<and>
     rc_port l = rc_port r \<and> rc_interval_days l = rc_interval_days r \<and> rc_timezone_name l = rc_timezone_name r \<and>
     rc_weekdays l = rc_weekdays r \<and> rc_start_hour l = rc_start_hour r \<and> rc_duration_hours l = rc_duration_hours r \<and>
     rc_auth_id l = rc_auth_id r \<and> rc_auth_digest l = rc_auth_digest r \<and> rc_auth_sequence l = rc_auth_sequence r \<and>
     rc_auth_expires l = rc_auth_expires r \<and> rc_verification_id l = rc_verification_id r \<and>
     rc_actor_id l = rc_actor_id r \<and> rc_actor_role l = rc_actor_role r"

text \<open>A write followed by the update of the projection, which may raise after the file is in place.\<close>

definition write_and_sync ::
  "(string \<Rightarrow> string) \<Rightarrow> (instant \<Rightarrow> string) \<Rightarrow> zone_db \<Rightarrow> recurrence \<Rightarrow> 'a \<Rightarrow> recurrence_store \<Rightarrow> (recurrence_error + 'a) \<times> recurrence_store" where
  "write_and_sync sha256 iso_text db r x st =
     (case sync_after_write sha256 iso_text db r (write_record r st) of
        Inl e \<Rightarrow> (Inl e, write_record r st) | Inr st' \<Rightarrow> (Inr x, st'))"

definition planned_creation ::
  "(string \<Rightarrow> string) \<Rightarrow> zone_db \<Rightarrow> instant \<Rightarrow> create_request \<Rightarrow> string \<Rightarrow> string \<Rightarrow> string \<Rightarrow> actor_role \<Rightarrow> authorization
     \<Rightarrow> recurrence_error + recurrence" where
  "planned_creation sha256 db now request org asset_id actor_id role auth =
     bind_res (validate_request db request) (\<lambda>q.
       bind_res (validate_recurrence_scope org asset_id) (\<lambda>_.
         if \<not> is_actor_id actor_id then Inl InvalidIdentity
         else let schedule_id = recurrence_id sha256 org actor_id (cq_idempotency_key q) in
           bind_res (next_run sha256 db now (cq_interval_days q) schedule_id (cq_timezone_name q) (cq_weekdays q)
               (cq_start_hour q) (cq_duration_hours q)) (\<lambda>next_run_at.
             if next_run_at \<ge> au_expires_at auth then Inl AuthorizationWindowUnavailable
             else let r = new_recurrence q org asset_id actor_id role auth schedule_id now next_run_at in
               if \<not> recurrence_valid db r then Inl RecordInvalid else Inr r)))"

definition recurrence_create ::
  "(string \<Rightarrow> string) \<Rightarrow> (instant \<Rightarrow> string) \<Rightarrow> zone_db \<Rightarrow> instant \<Rightarrow> bool \<Rightarrow> create_request \<Rightarrow> string \<Rightarrow> string \<Rightarrow> string
     \<Rightarrow> actor_role \<Rightarrow> authorization \<Rightarrow> recurrence_store \<Rightarrow> (recurrence_error + recurrence \<times> bool) \<times> recurrence_store" where
  "recurrence_create sha256 iso_text db now deletion_pending request org asset_id actor_id role auth st =
     (case planned_creation sha256 db now request org asset_id actor_id role auth of
        Inl e \<Rightarrow> (Inl e, st)
      | Inr r \<Rightarrow>
          if map_of (rs_files st) (org, rc_id r) \<noteq> None then
            (bind_res (read_record db org (rc_id r) st) (\<lambda>existing.
               if same_creation existing r then Inr (existing, True) else Inl IdempotencyConflict), st)
          else (case load_organization db org st of
            Inl e \<Rightarrow> (Inl e, st)
          | Inr records \<Rightarrow>
              if length records \<ge> max_per_organization then (Inl CapacityReached, st)
              else if list_ex (\<lambda>x. rc_asset_id x = asset_id \<and> rc_capability x = rc_capability r \<and> rc_port x = rc_port r) records
              then (Inl ScheduleConflict, st)
              else if deletion_pending then (Inl AssetUnavailable, st)
              else write_and_sync sha256 iso_text db r (r, False) st))"

text \<open>\<^verbatim>\<open>_mutate\<close>, with the fields to change as a function.\<close>

definition mutate ::
  "(string \<Rightarrow> string) \<Rightarrow> (instant \<Rightarrow> string) \<Rightarrow> zone_db \<Rightarrow> instant \<Rightarrow> string \<Rightarrow> string \<Rightarrow> string \<Rightarrow> instant \<Rightarrow> schedule_status
     \<Rightarrow> schedule_reason \<Rightarrow> (recurrence \<Rightarrow> recurrence) \<Rightarrow> recurrence_store \<Rightarrow> (recurrence_error + recurrence) \<times> recurrence_store" where
  "mutate sha256 iso_text db now schedule_id org asset_id expected status reason update st =
     (let outcome =
        bind_res (validate_recurrence_scope org asset_id) (\<lambda>_.
          if \<not> is_hex_id 32 schedule_id then Inl ScheduleNotFound
          else bind_res (read_record db org schedule_id st) (\<lambda>current.
            if rc_asset_id current \<noteq> asset_id then Inl ScheduleNotFound
            else if rc_updated_at current \<noteq> expected then Inl StateChanged
            else let changed = update (current\<lparr>rc_status := status, rc_reason := reason, rc_updated_at := now\<rparr>) in
              if \<not> recurrence_valid db changed then Inl RecordInvalid else Inr changed))
      in case outcome of Inl e \<Rightarrow> (Inl e, st) | Inr changed \<Rightarrow> write_and_sync sha256 iso_text db changed changed st)"

definition pause_recurrence ::
  "(string \<Rightarrow> string) \<Rightarrow> (instant \<Rightarrow> string) \<Rightarrow> zone_db \<Rightarrow> instant \<Rightarrow> string \<Rightarrow> string \<Rightarrow> string \<Rightarrow> instant
     \<Rightarrow> recurrence_store \<Rightarrow> (recurrence_error + recurrence) \<times> recurrence_store" where
  "pause_recurrence sha256 iso_text db now schedule_id org asset_id expected =
     mutate sha256 iso_text db now schedule_id org asset_id expected Paused OperatorPaused id"

definition get_recurrence :: "zone_db \<Rightarrow> string \<Rightarrow> string \<Rightarrow> string \<Rightarrow> recurrence_store \<Rightarrow> recurrence_error + recurrence" where
  "get_recurrence db schedule_id org asset_id st =
     bind_res (validate_recurrence_scope org asset_id) (\<lambda>_.
       if \<not> is_hex_id 32 schedule_id then Inl ScheduleNotFound
       else bind_res (read_record db org schedule_id st) (\<lambda>r.
         if rc_asset_id r \<noteq> asset_id then Inl ScheduleNotFound else Inr r))"

definition following_run :: "(string \<Rightarrow> string) \<Rightarrow> zone_db \<Rightarrow> instant \<Rightarrow> recurrence \<Rightarrow> recurrence_error + instant" where
  "following_run sha256 db observed r =
     next_run sha256 db observed (rc_interval_days r) (rc_id r) (rc_timezone_name r) (rc_weekdays r) (rc_start_hour r) (rc_duration_hours r)"

definition resume_recurrence ::
  "(string \<Rightarrow> string) \<Rightarrow> (instant \<Rightarrow> string) \<Rightarrow> zone_db \<Rightarrow> instant \<Rightarrow> instant \<Rightarrow> string \<Rightarrow> string \<Rightarrow> string \<Rightarrow> instant \<Rightarrow> authorization
     \<Rightarrow> recurrence_store \<Rightarrow> (recurrence_error + recurrence) \<times> recurrence_store" where
  "resume_recurrence sha256 iso_text db now now' schedule_id org asset_id expected auth st =
     (case bind_res (get_recurrence db schedule_id org asset_id st) (following_run sha256 db now) of
        Inl e \<Rightarrow> (Inl e, st)
      | Inr run_at \<Rightarrow>
          if run_at \<ge> au_expires_at auth then (Inl AuthorizationWindowUnavailable, st)
          else mutate sha256 iso_text db now' schedule_id org asset_id expected Active Scheduled (\<lambda>r.
            r\<lparr>rc_auth_id := au_revision_id auth, rc_auth_digest := au_revision_digest auth, rc_auth_sequence := au_revision_sequence auth,
              rc_auth_expires := Some (au_expires_at auth), rc_verification_id := au_verification_id auth, rc_next_run_at := run_at,
              rc_failure_count := 0, rc_next_retry_at := None, rc_last_outcome := NeverRun\<rparr>) st)"

definition suspend_recurrence ::
  "(string \<Rightarrow> string) \<Rightarrow> (instant \<Rightarrow> string) \<Rightarrow> zone_db \<Rightarrow> instant \<Rightarrow> recurrence \<Rightarrow> schedule_reason
     \<Rightarrow> recurrence_store \<Rightarrow> (recurrence_error + recurrence) \<times> recurrence_store" where
  "suspend_recurrence sha256 iso_text db now r reason st =
     (if reason \<notin> {AuthorizationUnavailable, AuthorizationRevisionChanged, VerificationUnavailable, CapabilityDisabled}
      then (Inl InvalidReason, st)
      else mutate sha256 iso_text db now (rc_id r) (rc_organization_id r) (rc_asset_id r) (rc_updated_at r) Suspended reason id st)"

definition ended_by :: "instant option \<Rightarrow> instant \<Rightarrow> bool" where
  "ended_by expires t = (case expires of None \<Rightarrow> False | Some x \<Rightarrow> t \<ge> x)"

definition record_dispatch ::
  "(string \<Rightarrow> string) \<Rightarrow> (instant \<Rightarrow> string) \<Rightarrow> zone_db \<Rightarrow> instant \<Rightarrow> instant \<Rightarrow> recurrence \<Rightarrow> string
     \<Rightarrow> recurrence_store \<Rightarrow> (recurrence_error + recurrence) \<times> recurrence_store" where
  "record_dispatch sha256 iso_text db observed now r job_id st =
     (case following_run sha256 db observed r of
        Inl e \<Rightarrow> (Inl e, st)
      | Inr run_at \<Rightarrow>
          mutate sha256 iso_text db now (rc_id r) (rc_organization_id r) (rc_asset_id r) (rc_updated_at r)
            (if ended_by (rc_auth_expires r) run_at then Suspended else Active)
            (if ended_by (rc_auth_expires r) run_at then AuthorizationUnavailable else Scheduled)
            (\<lambda>c. c\<lparr>rc_last_scheduled_at := Some (rc_next_run_at r), rc_last_job_id := Some job_id, rc_failure_count := 0,
                   rc_next_retry_at := None, rc_last_attempt_at := Some observed, rc_last_outcome := OutcomeScheduled,
                   rc_next_run_at := run_at\<rparr>) st)"

text \<open>\<^verbatim>\<open>min(300 * (2 ** (failure_count - 1)), 21600)\<close>\<close>

definition backoff_seconds :: "int \<Rightarrow> int" where
  "backoff_seconds failure_count = min (300 * 2 ^ nat (failure_count - 1)) max_backoff_seconds"

definition next_failure_count :: "recurrence \<Rightarrow> int" where
  "next_failure_count r = min (rc_failure_count r + 1) max_failures_kept"

definition retry_at :: "(string \<Rightarrow> string) \<Rightarrow> zone_db \<Rightarrow> instant \<Rightarrow> recurrence \<Rightarrow> recurrence_error + instant" where
  "retry_at sha256 db observed r =
     bind_res (recurrence_retry_jitter_seconds sha256 (rc_id r) (next_failure_count r)) (\<lambda>jitter.
       next_window_time sha256 db (observed + secs (backoff_seconds (next_failure_count r) + jitter)) (rc_id r)
         (rc_timezone_name r) (rc_weekdays r) (rc_start_hour r) (rc_duration_hours r))"

definition record_failure_outcome ::
  "(string \<Rightarrow> string) \<Rightarrow> (instant \<Rightarrow> string) \<Rightarrow> zone_db \<Rightarrow> instant \<Rightarrow> instant \<Rightarrow> recurrence \<Rightarrow> schedule_outcome
     \<Rightarrow> recurrence_store \<Rightarrow> (recurrence_error + recurrence) \<times> recurrence_store" where
  "record_failure_outcome sha256 iso_text db observed now r outcome st =
     (case retry_at sha256 db observed r of
        Inl e \<Rightarrow> (Inl e, st)
      | Inr t \<Rightarrow>
          mutate sha256 iso_text db now (rc_id r) (rc_organization_id r) (rc_asset_id r) (rc_updated_at r)
            (if ended_by (rc_auth_expires r) t then Suspended else Active)
            (if ended_by (rc_auth_expires r) t then AuthorizationUnavailable else Scheduled)
            (\<lambda>c. c\<lparr>rc_failure_count := next_failure_count r, rc_next_retry_at := (if ended_by (rc_auth_expires r) t then None else Some t),
                   rc_last_attempt_at := Some observed, rc_last_outcome := outcome\<rparr>) st)"

definition list_for_asset ::
  "(string \<Rightarrow> string) \<Rightarrow> (instant \<Rightarrow> string) \<Rightarrow> zone_db \<Rightarrow> string \<Rightarrow> string \<Rightarrow> recurrence_store
     \<Rightarrow> (recurrence_error + recurrence list) \<times> recurrence_store" where
  "list_for_asset sha256 iso_text db org asset_id st =
     (case bind_res (validate_recurrence_scope org asset_id) (\<lambda>_. as_store_error (records_for_asset sha256 iso_text db org asset_id st)) of
        Inl e \<Rightarrow> (Inl e, st)
      | Inr (records, st') \<Rightarrow> (Inr (sort_key (\<lambda>r. (rc_created_at r, rc_id r)) records), st'))"

definition count_recurrences_unlocked ::
  "(string \<Rightarrow> string) \<Rightarrow> (instant \<Rightarrow> string) \<Rightarrow> zone_db \<Rightarrow> string \<Rightarrow> string \<Rightarrow> recurrence_store
     \<Rightarrow> recurrence_error + nat \<times> recurrence_store" where
  "count_recurrences_unlocked sha256 iso_text db org asset_id st =
     bind_res (validate_recurrence_scope org asset_id) (\<lambda>_. as_store_error (count_for_asset sha256 iso_text db org asset_id st))"

definition list_for_assets ::
  "(string \<Rightarrow> string) \<Rightarrow> (instant \<Rightarrow> string) \<Rightarrow> zone_db \<Rightarrow> string \<Rightarrow> string list \<Rightarrow> recurrence_store
     \<Rightarrow> recurrence_error + recurrence list \<times> recurrence_store" where
  "list_for_assets sha256 iso_text db org asset_ids st =
     (if \<not> is_organization_id org then Inl InvalidIdentity
      else as_store_error (records_for_assets sha256 iso_text db org asset_ids st))"

definition delete_for_asset ::
  "(string \<Rightarrow> string) \<Rightarrow> (instant \<Rightarrow> string) \<Rightarrow> zone_db \<Rightarrow> string \<Rightarrow> string \<Rightarrow> recurrence_store
     \<Rightarrow> (recurrence_error + nat) \<times> recurrence_store" where
  "delete_for_asset sha256 iso_text db org asset_id st =
     (case bind_res (validate_recurrence_scope org asset_id) (\<lambda>_. as_store_error (records_for_asset sha256 iso_text db org asset_id st)) of
        Inl e \<Rightarrow> (Inl e, st)
      | Inr (records, st') \<Rightarrow>
          (Inr (length records), sync_after_asset_delete org asset_id (fold (\<lambda>r. unlink_record org (rc_id r)) records st')))"

definition delete_recurrence ::
  "zone_db \<Rightarrow> string \<Rightarrow> string \<Rightarrow> string \<Rightarrow> recurrence_store \<Rightarrow> (recurrence_error + unit) \<times> recurrence_store" where
  "delete_recurrence db schedule_id org asset_id st =
     (case get_recurrence db schedule_id org asset_id st of
        Inl e \<Rightarrow> (Inl e, st)
      | Inr r \<Rightarrow> (Inr (), sync_after_delete org schedule_id (unlink_record org schedule_id st)))"

text \<open>
  The loop of \<^verbatim>\<open>suspend_for_asset\<close>, which copies records without validation; \<open>now k\<close> is the clock at the \<open>k\<close>-th change.
\<close>

fun suspend_records ::
  "(string \<Rightarrow> string) \<Rightarrow> (instant \<Rightarrow> string) \<Rightarrow> zone_db \<Rightarrow> (nat \<Rightarrow> instant) \<Rightarrow> schedule_reason \<Rightarrow> recurrence list \<Rightarrow> nat
     \<Rightarrow> recurrence_store \<Rightarrow> (recurrence_error + nat) \<times> recurrence_store" where
  "suspend_records sha256 iso_text db now reason [] changed st = (Inr changed, st)"
| "suspend_records sha256 iso_text db now reason (r # rs) changed st =
     (if rc_status r \<noteq> Active then suspend_records sha256 iso_text db now reason rs changed st
      else case write_and_sync sha256 iso_text db (r\<lparr>rc_status := Suspended, rc_reason := reason, rc_updated_at := now changed\<rparr>) () st of
        (Inl e, st') \<Rightarrow> (Inl e, st')
      | (Inr _, st') \<Rightarrow> suspend_records sha256 iso_text db now reason rs (Suc changed) st')"

definition suspend_for_asset ::
  "(string \<Rightarrow> string) \<Rightarrow> (instant \<Rightarrow> string) \<Rightarrow> zone_db \<Rightarrow> (nat \<Rightarrow> instant) \<Rightarrow> string \<Rightarrow> string \<Rightarrow> schedule_reason \<Rightarrow> recurrence_store
     \<Rightarrow> (recurrence_error + nat) \<times> recurrence_store" where
  "suspend_for_asset sha256 iso_text db now org asset_id reason st =
     (case bind_res (validate_recurrence_scope org asset_id) (\<lambda>_.
          if reason \<notin> {AuthorizationUnavailable, AuthorizationRevisionChanged, VerificationUnavailable} then Inl InvalidReason
          else as_store_error (records_for_asset sha256 iso_text db org asset_id st)) of
        Inl e \<Rightarrow> (Inl e, st)
      | Inr (records, st') \<Rightarrow> suspend_records sha256 iso_text db now reason records 0 st')"

definition recurrence_occurrence_key :: "(string \<Rightarrow> string) \<Rightarrow> (instant \<Rightarrow> string) \<Rightarrow> recurrence \<Rightarrow> string" where
  "recurrence_occurrence_key sha256 iso_seconds r =
     sha256 (idempotency_domain_version @ [CHR 0x00] @ rc_organization_id r @ [CHR 0x00] @ rc_id r @ [CHR 0x00]
       @ iso_seconds (rc_next_run_at r))"


subsection \<open>The paged query reads the whole table\<close>

lemma scan_rows_append:
  assumes "length acc < limit"
  shows "scan_rows load eligible limit (xs @ ys) acc =
    bind_res (scan_rows load eligible limit xs acc) (\<lambda>acc'. if limit \<le> length acc' then Inr acc' else scan_rows load eligible limit ys acc')"
  using assms
proof (induction xs arbitrary: acc)
  case (Cons e es)
  show ?case
  proof (cases "load e")
    case (Inr r)
    show ?thesis
    proof (cases "eligible r")
      case (Inr ok)
      then show ?thesis using \<open>load e = Inr r\<close> Cons by auto
    qed (simp add: Inr)
  qed simp
qed simp

lemma scan_rows_length: "scan_rows load eligible limit xs acc = Inr acc' \<Longrightarrow> length acc < limit \<Longrightarrow> length acc' \<le> limit"
proof (induction xs arbitrary: acc)
  case (Cons e es)
  from Cons.prems obtain r ok where "load e = Inr r" "eligible r = Inr ok" by (auto simp: res_simps)
  then show ?case using Cons by (auto split: if_splits)
qed simp

lemma filter_after_nth:
  assumes "sorted (map f xs)" "distinct (map f xs)" "i < length xs"
  shows "filter (\<lambda>x. f (xs ! i) < f x) xs = drop (Suc i) xs"
proof -
  have strict: "f (xs ! a) < f (xs ! b)" if "a < b" "b < length xs" for a b
    using sorted_nth_mono [OF assms(1), of a b] assms(2) that by (auto simp: distinct_conv_nth order.strict_iff_order)
  have "filter (\<lambda>x. f (xs ! i) < f x) (take (Suc i) xs) = []"
  proof (rule filter_False, rule ballI)
    fix x assume "x \<in> set (take (Suc i) xs)"
    then obtain k where "k < Suc i" "x = xs ! k" using assms(3) by (auto simp: in_set_conv_nth)
    then show "\<not> f (xs ! i) < f x" using sorted_nth_mono [OF assms(1), of k i] assms(3) by (simp add: not_less)
  qed
  moreover have "filter (\<lambda>x. f (xs ! i) < f x) (drop (Suc i) xs) = drop (Suc i) xs"
  proof (rule filter_True, rule ballI)
    fix x assume "x \<in> set (drop (Suc i) xs)"
    then obtain k where "k < length xs - Suc i" "x = xs ! (Suc i + k)" by (auto simp: in_set_conv_nth)
    then show "f (xs ! i) < f x" using strict [of i "Suc i + k"] by simp
  qed
  ultimately show ?thesis by (metis append_take_drop_id filter_append append_Nil)
qed

definition due_rows :: "instant \<Rightarrow> (instant \<times> string) option \<Rightarrow> (string \<times> index_row) list \<Rightarrow> (string \<times> index_row) list" where
  "due_rows now cursor rows = sort_key due_key (filter (\<lambda>e. row_due now e \<and> after_cursor cursor e) rows)"

lemma due_rows_keys:
  assumes "distinct (map fst rows)"
  shows "sorted (map due_key (due_rows now cursor rows))" "distinct (map due_key (due_rows now cursor rows))"
proof -
  show "sorted (map due_key (due_rows now cursor rows))" by (simp add: due_rows_def)
  have "distinct (map fst (filter (\<lambda>e. row_due now e \<and> after_cursor cursor e) rows))" using assms by (rule distinct_map_filter)
  moreover have "map fst (due_rows now cursor rows) = map snd (map due_key (due_rows now cursor rows))" by (simp add: due_key_def)
  moreover have "mset (map fst (due_rows now cursor rows)) = mset (map fst (filter (\<lambda>e. row_due now e \<and> after_cursor cursor e) rows))"
    by (simp add: due_rows_def)
  ultimately show "distinct (map due_key (due_rows now cursor rows))"
    using distinct_map [of snd "map due_key (due_rows now cursor rows)"] mset_eq_imp_distinct_iff by metis
qed

lemma due_rows_next:
  assumes "distinct (map fst rows)" "n < length (due_rows now cursor rows)"
  shows "due_rows now (Some (due_key (due_rows now cursor rows ! n))) rows = drop (Suc n) (due_rows now cursor rows)"
proof -
  let ?S = "due_rows now cursor rows" let ?k = "due_key (?S ! n)"
  have "?S ! n \<in> set ?S" using assms(2) by simp
  then have "after_cursor cursor (?S ! n)" by (simp add: due_rows_def)
  then have imp: "after_cursor cursor e" if "?k < due_key e" for e
    using that by (auto simp: after_cursor_def split: option.splits)
  have "filter (\<lambda>e. row_due now e \<and> after_cursor (Some ?k) e) rows
      = filter (\<lambda>e. ?k < due_key e) (filter (\<lambda>e. row_due now e \<and> after_cursor cursor e) rows)"
    using imp by (auto simp: after_cursor_def filter_filter intro!: filter_cong)
  then have "due_rows now (Some ?k) rows = filter (\<lambda>e. ?k < due_key e) ?S" by (simp add: due_rows_def filter_sort)
  also have "\<dots> = drop (Suc n) ?S" using due_rows_keys [OF assms(1)] assms(2) by (intro filter_after_nth) auto
  finally show ?thesis .
qed

lemma due_loop_scans:
  "distinct (map fst rows) \<Longrightarrow> length acc < limit \<Longrightarrow>
   due_loop load eligible now limit rows cursor acc = scan_rows load eligible limit (due_rows now cursor rows) acc"
proof (induction load eligible now limit rows cursor acc rule: due_loop.induct)
  case (1 load eligible now limit rows cursor acc)
  let ?S = "due_rows now cursor rows" and ?page = "due_page_rows now cursor rows"
  have page: "?page = take query_batch_size ?S" by (simp add: due_page_rows_def due_rows_def)
  show ?case
  proof (cases "?page = []")
    case True
    then have "?S = []" by (simp add: page query_batch_size_def)
    then show ?thesis using 1(3) True by (subst due_loop.simps) simp
  next
    case False
    have split: "scan_rows load eligible limit ?S acc = bind_res (scan_rows load eligible limit ?page acc)
        (\<lambda>acc'. if limit \<le> length acc' then Inr acc' else scan_rows load eligible limit (drop query_batch_size ?S) acc')"
      using scan_rows_append [OF 1(3), of load eligible ?page "drop query_batch_size ?S"] by (simp add: page)
    have next_page: "(if length ?page < query_batch_size then Inr acc'
          else due_loop load eligible now limit rows (Some (due_key (last ?page))) acc')
        = (if limit \<le> length acc' then Inr acc' else scan_rows load eligible limit (drop query_batch_size ?S) acc')"
      if s: "scan_rows load eligible limit ?page acc = Inr acc'" for acc'
    proof (cases "length ?page < query_batch_size")
      case True
      then have "length ?S < query_batch_size" by (auto simp: page min_def split: if_splits)
      then show ?thesis using True by simp
    next
      case full: False
      then have len: "length ?page = query_batch_size" "query_batch_size \<le> length ?S" by (simp_all add: page)
      have "last ?page = ?S ! (query_batch_size - 1)"
        using len False by (simp add: last_conv_nth page)
      then have drop: "due_rows now (Some (due_key (last ?page))) rows = drop query_batch_size ?S"
        using due_rows_next [OF 1(2), of "query_batch_size - 1" now cursor] len by (simp add: query_batch_size_def)
      show ?thesis
      proof (cases "limit \<le> length acc'")
        case True
        then show ?thesis using full by (subst due_loop.simps) simp
      next
        case small: False
        have "due_loop load eligible now limit rows (Some (due_key (last ?page))) acc'
            = scan_rows load eligible limit (due_rows now (Some (due_key (last ?page))) rows) acc'"
          using 1(1) [OF _ refl False s full 1(2)] 1(3) small by simp
        then show ?thesis using full small drop by simp
      qed
    qed
    show ?thesis
      using 1(3) False by (subst due_loop.simps, subst split)
        (cases "scan_rows load eligible limit ?page acc", simp_all add: next_page)
  qed
qed


subsection \<open>The projection follows the files\<close>

text \<open>What the directory should hold: readable, valid records under their own names, no identifier twice.\<close>

definition file_ok :: "zone_db \<Rightarrow> (string \<times> string) \<times> recurrence_file \<Rightarrow> bool" where
  "file_ok db entry =
     (case entry of ((org, i), f) \<Rightarrow>
        case f of UnreadableFile \<Rightarrow> False
        | RecurrenceFile r \<Rightarrow> recurrence_valid db r \<and> rc_id r = i \<and> rc_organization_id r = org)"

definition files_ok :: "zone_db \<Rightarrow> recurrence_store \<Rightarrow> bool" where
  "files_ok db st \<longleftrightarrow> list_all (file_ok db) (rs_files st) \<and> distinct (map (snd \<circ> fst) (rs_files st))"

fun file_record :: "(string \<times> string) \<times> recurrence_file \<Rightarrow> recurrence" where
  "file_record (k, RecurrenceFile r) = migrate r"
| "file_record (k, UnreadableFile) = undefined"

definition stored_records :: "recurrence_store \<Rightarrow> recurrence list" where
  "stored_records st = map file_record (rs_files st)"

definition entry_of :: "(string \<Rightarrow> string) \<Rightarrow> (instant \<Rightarrow> string) \<Rightarrow> recurrence \<Rightarrow> string \<times> index_row" where
  "entry_of sha256 iso_text r = (rc_id r, row_of sha256 iso_text r)"

definition rows_match :: "(string \<Rightarrow> string) \<Rightarrow> (instant \<Rightarrow> string) \<Rightarrow> recurrence_store \<Rightarrow> bool" where
  "rows_match sha256 iso_text st \<longleftrightarrow>
     distinct (map fst (ix_rows (rs_index st))) \<and> set (ix_rows (rs_index st)) = entry_of sha256 iso_text ` set (stored_records st)"

definition index_ok :: "(string \<Rightarrow> string) \<Rightarrow> (instant \<Rightarrow> string) \<Rightarrow> recurrence_store \<Rightarrow> bool" where
  "index_ok sha256 iso_text st \<longleftrightarrow>
     (ix_open (rs_index st) \<longrightarrow> ix_present (rs_index st) \<and> ix_seen (rs_index st) = ix_token (rs_index st)) \<and>
     (ix_present (rs_index st) \<and> ix_token (rs_index st) = rs_revision st \<longrightarrow> rows_match sha256 iso_text st)"

lemma migrate_fields [simp]:
  "rc_id (migrate r) = rc_id r" "rc_organization_id (migrate r) = rc_organization_id r" "rc_asset_id (migrate r) = rc_asset_id r"
  "rc_updated_at (migrate r) = rc_updated_at r" "rc_auth_expires (migrate r) = rc_auth_expires r"
  "rc_next_run_at (migrate r) = rc_next_run_at r" "rc_failure_count (migrate r) = rc_failure_count r"
  by (simp_all add: migrate_def Let_def)

lemma migrate_active: "rc_status (migrate r) = Active \<Longrightarrow> rc_auth_expires r \<noteq> None"
  by (auto simp: migrate_def Let_def split: if_splits)

lemma migrate_id: "rc_contract_version r = recurrence_contract_version \<Longrightarrow> (rc_status r = Active \<longrightarrow> rc_auth_expires r \<noteq> None) \<Longrightarrow> migrate r = r"
  by (auto simp: migrate_def Let_def)

lemma migrate_valid: "recurrence_valid db r \<Longrightarrow> recurrence_valid db (migrate r)"
  by (simp add: migrate_def Let_def recurrence_valid_def)

lemma files_ok_entry:
  assumes "files_ok db st" "((org, i), f) \<in> set (rs_files st)"
  obtains r where "f = RecurrenceFile r" "recurrence_valid db r" "rc_id r = i" "rc_organization_id r = org"
    "read_record db org i st = Inr (migrate r)" "migrate r \<in> set (stored_records st)"
proof -
  have ok: "file_ok db ((org, i), f)" using assms by (auto simp: files_ok_def list_all_iff)
  then obtain r where r: "f = RecurrenceFile r" "recurrence_valid db r" "rc_id r = i" "rc_organization_id r = org"
    by (cases f) (auto simp: file_ok_def)
  have "distinct (map snd (map fst (rs_files st)))" using assms(1) by (simp add: files_ok_def)
  then have "distinct (map fst (rs_files st))" by (simp only: distinct_map)
  then have "map_of (rs_files st) (org, i) = Some f" using assms(2) by simp
  then have "read_record db org i st = Inr (migrate r)" using r by (simp add: read_record_def)
  moreover have "file_record ((org, i), f) = migrate r" by (simp add: r(1))
  then have "migrate r \<in> set (stored_records st)" using assms(2) unfolding stored_records_def by (metis image_eqI set_map)
  ultimately show thesis using that r by blast
qed

lemma stored_record_read:
  assumes "files_ok db st" "r \<in> set (stored_records st)"
  shows "read_record db (rc_organization_id r) (rc_id r) st = Inr r" "is_hex_id 32 (rc_id r)" "is_hex_id 32 (rc_asset_id r)"
    "is_organization_id (rc_organization_id r)" "db (rc_timezone_name r) \<noteq> None" "recurrence_valid db r"
proof -
  obtain org i f where e: "((org, i), f) \<in> set (rs_files st)" "file_record ((org, i), f) = r"
    using assms(2) by (auto simp: stored_records_def)
  from files_ok_entry [OF assms(1) e(1)] obtain r0 where r0: "f = RecurrenceFile r0" "recurrence_valid db r0" "rc_id r0 = i"
    "rc_organization_id r0 = org" "read_record db org i st = Inr (migrate r0)" by metis
  have r: "r = migrate r0" using e(2) r0(1) by simp
  show "read_record db (rc_organization_id r) (rc_id r) st = Inr r" using r0 r by simp
  show v: "recurrence_valid db r" using migrate_valid [OF r0(2)] r by simp
  show "is_hex_id 32 (rc_id r)" "is_hex_id 32 (rc_asset_id r)" "is_organization_id (rc_organization_id r)" "db (rc_timezone_name r) \<noteq> None"
    using v by (auto simp: recurrence_valid_def window_fields_valid_def)
qed

lemma load_validated_entry:
  assumes "files_ok db st" "r \<in> set (stored_records st)"
  shows "load_validated sha256 iso_text db st (entry_of sha256 iso_text r) = Inr r"
  using stored_record_read(1) [OF assms] by (simp add: load_validated_def entry_of_def row_of_def)

lemma stored_ids: "files_ok db st \<Longrightarrow> map rc_id (stored_records st) = map (snd \<circ> fst) (rs_files st)"
proof -
  assume ok: "files_ok db st"
  have "rc_id (file_record e) = snd (fst e)" if "e \<in> set (rs_files st)" for e
  proof -
    obtain org i f where "e = ((org, i), f)" by (metis prod.exhaust)
    then show ?thesis using ok that by (cases f) (auto simp: files_ok_def list_all_iff file_ok_def)
  qed
  then show ?thesis by (simp add: stored_records_def)
qed

lemma replace_rows_spec:
  assumes "\<forall>r \<in> set rs. is_hex_id 32 (rc_id r) \<and> is_hex_id 32 (rc_asset_id r) \<and> is_organization_id (rc_organization_id r)"
    and "distinct (map rc_id rs)" "distinct (map fst rows)" "set (map rc_id rs) \<inter> fst ` set rows = {}"
  shows "\<exists>rows'. replace_rows sha256 iso_text rs rows = Inr rows' \<and> distinct (map fst rows') \<and>
    set rows' = set rows \<union> entry_of sha256 iso_text ` set rs"
  using assms
proof (induction rs arbitrary: rows)
  case (Cons r rs)
  have fresh: "dict_set (rc_id r) (row_of sha256 iso_text r) rows = rows @ [entry_of sha256 iso_text r]"
    using Cons.prems(4) by (simp add: dict_set_new entry_of_def)
  have "\<exists>rows'. replace_rows sha256 iso_text rs (rows @ [entry_of sha256 iso_text r]) = Inr rows' \<and> distinct (map fst rows') \<and>
      set rows' = set (rows @ [entry_of sha256 iso_text r]) \<union> entry_of sha256 iso_text ` set rs"
    using Cons.prems by (intro Cons.IH) (auto simp: entry_of_def)
  then show ?case using Cons.prems(1) fresh by (auto simp: replace_row_def)
qed simp


lemma rebuild_ok:
  assumes "files_ok db st"
  obtains rows where "rebuild sha256 iso_text db st = Inr (st\<lparr>rs_index :=
      \<lparr>ix_open = True, ix_present = True, ix_rows = rows, ix_token = rs_revision st, ix_seen = rs_revision st\<rparr>\<rparr>)"
    "distinct (map fst rows)" "set rows = entry_of sha256 iso_text ` set (stored_records st)"
proof -
  let ?keys = "sort (map fst (rs_files st))"
  have key: "is_organization_id org \<and> is_hex_id 32 i \<and> (\<exists>r. read_record db org i st = Inr r \<and> rc_id r = i \<and> r \<in> set (stored_records st))"
    if "(org, i) \<in> set ?keys" for org i
  proof -
    from that obtain f where "((org, i), f) \<in> set (rs_files st)" by auto
    from files_ok_entry [OF assms this] obtain r where "recurrence_valid db r" "rc_id r = i" "rc_organization_id r = org"
      "read_record db org i st = Inr (migrate r)" "migrate r \<in> set (stored_records st)" by metis
    then show ?thesis by (auto simp: recurrence_valid_def)
  qed
  let ?read = "\<lambda>(org, i). read_record db org i st" let ?rs = "map (\<lambda>k. projr (?read k)) ?keys"
  have key': "is_organization_id (fst k)" "is_hex_id 32 (snd k)" "?read k = Inr (projr (?read k))" "rc_id (projr (?read k)) = snd k"
    "projr (?read k) \<in> set (stored_records st)" if "k \<in> set ?keys" for k
    using key [of "fst k" "snd k"] that by (auto simp: split_def)
  have hex: "filter (\<lambda>(org, i). is_hex_id 32 i) ?keys = ?keys"
    by (rule filter_True, rule ballI) (simp only: split_def key'(2))
  have reads: "map_res ?read ?keys = Inr ?rs"
    unfolding map_res_Inr_iff list_all2_conv_all_nth
  proof (intro conjI allI impI)
    fix n assume "n < length ?keys"
    then show "?read (?keys ! n) = Inr (?rs ! n)" using key'(3) [OF nth_mem, of n] by simp
  qed simp
  have orgs: "\<not> list_ex (\<lambda>(org, i). \<not> is_organization_id org) (map fst (rs_files st))"
  proof
    assume "list_ex (\<lambda>(org, i). \<not> is_organization_id org) (map fst (rs_files st))"
    then obtain k where "k \<in> set (map fst (rs_files st))" "\<not> is_organization_id (fst k)" unfolding list_ex_iff split_def by blast
    then show False using key'(1) [of k] by simp
  qed
  have ids: "map rc_id ?rs = map snd ?keys"
    unfolding map_map by (rule map_cong [OF refl]) (simp only: comp_def key'(4))
  have "mset (map snd ?keys) = mset (map (snd \<circ> fst) (rs_files st))" by (simp add: multiset.map_comp)
  then have dist: "distinct (map rc_id ?rs)" using assms ids mset_eq_imp_distinct_iff by (metis files_ok_def)
  have mem: "set ?rs \<subseteq> set (stored_records st)" using key'(5) by (auto simp del: set_sort)
  have "set (map rc_id ?rs) = set (map rc_id (stored_records st))"
    using ids stored_ids [OF assms] by (auto simp: image_image)
  moreover have "inj_on rc_id (set (stored_records st))"
    using assms stored_ids [OF assms] by (metis distinct_map files_ok_def)
  ultimately have rs: "set ?rs = set (stored_records st)" using mem by (simp only: set_map) (metis inj_on_image_eq_iff subset_refl)
  have fields: "\<forall>r \<in> set ?rs. is_hex_id 32 (rc_id r) \<and> is_hex_id 32 (rc_asset_id r) \<and> is_organization_id (rc_organization_id r)"
    using stored_record_read(2-4) [OF assms subsetD [OF mem]] by blast
  obtain rows where rows: "replace_rows sha256 iso_text ?rs [] = Inr rows" "distinct (map fst rows)"
    "set rows = {} \<union> entry_of sha256 iso_text ` set ?rs"
    using replace_rows_spec [OF fields dist, of "[]" sha256 iso_text] unfolding list.set(1) by auto
  have "rebuild sha256 iso_text db st = Inr (st\<lparr>rs_index :=
      \<lparr>ix_open = True, ix_present = True, ix_rows = rows, ix_token = rs_revision st, ix_seen = rs_revision st\<rparr>\<rparr>)"
    unfolding rebuild_def using orgs rows(1) by (simp only: hex reads) simp
  then show thesis using that rows rs by simp
qed

lemma rows_match_cong:
  "rs_files st' = rs_files st \<Longrightarrow> ix_rows (rs_index st') = ix_rows (rs_index st) \<Longrightarrow> rows_match sha256 iso_text st' = rows_match sha256 iso_text st"
  by (simp add: rows_match_def stored_records_def)

lemma ensure_current_ok:
  assumes "files_ok db st" "index_ok sha256 iso_text st"
  obtains st' where "ensure_current sha256 iso_text db st = Inr st'" "rs_files st' = rs_files st" "rs_revision st' = rs_revision st"
    "rows_match sha256 iso_text st'" "ix_open (rs_index st')" "index_ok sha256 iso_text st'" "ix_seen (rs_index st') = rs_revision st'"
proof -
  obtain rows where r: "rebuild sha256 iso_text db st = Inr (st\<lparr>rs_index :=
      \<lparr>ix_open = True, ix_present = True, ix_rows = rows, ix_token = rs_revision st, ix_seen = rs_revision st\<rparr>\<rparr>)"
    "distinct (map fst rows)" "set rows = entry_of sha256 iso_text ` set (stored_records st)"
    by (rule rebuild_ok [OF assms(1)])
  let ?rebuilt = "st\<lparr>rs_index := \<lparr>ix_open = True, ix_present = True, ix_rows = rows, ix_token = rs_revision st, ix_seen = rs_revision st\<rparr>\<rparr>"
  have m: "rows_match sha256 iso_text ?rebuilt" using r by (simp add: rows_match_def stored_records_def)
  then have i: "index_ok sha256 iso_text ?rebuilt" by (simp add: index_ok_def)
  let ?opened = "st\<lparr>rs_index := (rs_index st)\<lparr>ix_open := True, ix_seen := rs_revision st\<rparr>\<rparr>"
  have def: "ensure_current sha256 iso_text db st = (if \<not> ix_open (rs_index st) \<and> ix_present (rs_index st) then
        (if ix_token (rs_index st) = rs_revision st then Inr ?opened else Inr ?rebuilt)
      else if \<not> ix_open (rs_index st) \<or> \<not> ix_present (rs_index st) then Inr ?rebuilt
      else if ix_seen (rs_index st) \<noteq> rs_revision st then Inr ?rebuilt else Inr st)"
    by (simp only: ensure_current_def Let_def r(1))
  consider (rebuilt) "ensure_current sha256 iso_text db st = Inr ?rebuilt"
    | (adopted) "ensure_current sha256 iso_text db st = Inr ?opened" "ix_present (rs_index st)" "ix_token (rs_index st) = rs_revision st"
    | (same) "ensure_current sha256 iso_text db st = Inr st" "ix_open (rs_index st)" "ix_seen (rs_index st) = rs_revision st"
    unfolding def by (cases "ix_open (rs_index st)"; cases "ix_present (rs_index st)"; cases "ix_token (rs_index st) = rs_revision st";
      cases "ix_seen (rs_index st) = rs_revision st") (simp_all only: if_True if_False simp_thms)
  then show thesis
  proof cases
    case rebuilt
    then show thesis using that m i by simp
  next
    case adopted
    then have "rows_match sha256 iso_text st" using assms(2) by (simp add: index_ok_def)
    then have "rows_match sha256 iso_text ?opened" by (simp add: rows_match_def stored_records_def)
    then show thesis using that [OF adopted(1)] adopted by (simp add: index_ok_def)
  next
    case same
    then show thesis using that [OF same(1)] assms(2) by (simp add: index_ok_def)
  qed
qed

definition record_due :: "instant \<Rightarrow> recurrence \<Rightarrow> bool" where
  "record_due now r \<longleftrightarrow> rc_status r = Active \<and> rc_next_run_at r \<le> now \<and>
     (case rc_next_retry_at r of None \<Rightarrow> True | Some t \<Rightarrow> t \<le> now)"

definition window_open :: "zone_db \<Rightarrow> instant \<Rightarrow> recurrence \<Rightarrow> bool" where
  "window_open db now r \<longleftrightarrow> recurrence_is_within_window db now r = Inr True"

lemma scan_rows_records:
  assumes "\<And>r. r \<in> set rs \<Longrightarrow> load (entry_of sha256 iso_text r) = Inr r" "\<And>r. r \<in> set rs \<Longrightarrow> eligible r = Inr (ok r)" "length acc < limit"
  shows "scan_rows load eligible limit (map (entry_of sha256 iso_text) rs) acc = Inr (acc @ take (limit - length acc) (filter ok rs))"
  using assms
proof (induction rs arbitrary: acc)
  case (Cons r rs)
  show ?case
  proof (cases "ok r")
    case True
    show ?thesis
    proof (cases "length acc + 1 = limit")
      case True
      then have "limit - length acc = 1" by simp
      then show ?thesis using Cons.prems \<open>ok r\<close> True by simp
    next
      case False
      have "scan_rows load eligible limit (map (entry_of sha256 iso_text) rs) (acc @ [r])
          = Inr ((acc @ [r]) @ take (limit - length (acc @ [r])) (filter ok rs))"
        using Cons.prems False by (intro Cons.IH) auto
      moreover have "limit - length acc = Suc (limit - Suc (length acc))" using Cons.prems(3) by simp
      ultimately show ?thesis using Cons.prems(1,2) False \<open>ok r\<close> by simp
    qed
  next
    case False
    then show ?thesis using Cons by simp
  qed
qed simp

lemma due_rows_records:
  assumes "rows_match sha256 iso_text st" "files_ok db st"
  shows "due_rows now None (ix_rows (rs_index st)) =
    map (entry_of sha256 iso_text) (sort_key (\<lambda>r. (rc_next_run_at r, rc_id r)) (filter (record_due now) (stored_records st)))"
proof -
  let ?rows = "ix_rows (rs_index st)" and ?key = "\<lambda>r. (rc_next_run_at r, rc_id r)"
  let ?rs = "sort_key ?key (filter (record_due now) (stored_records st))"
  have key: "due_key (entry_of sha256 iso_text r) = ?key r" for r by (simp add: due_key_def entry_of_def row_of_def)
  have due: "row_due now (entry_of sha256 iso_text r) = record_due now r" for r
    by (simp add: row_due_def entry_of_def row_of_def record_due_def)
  have keys: "map due_key (map (entry_of sha256 iso_text) ?rs) = map ?key ?rs" by (simp add: key)
  have "distinct (map rc_id (stored_records st))" using assms(2) stored_ids [OF assms(2)] by (simp add: files_ok_def)
  then have "distinct (map rc_id (filter (record_due now) (stored_records st)))" by (rule distinct_map_filter)
  moreover have "mset (map rc_id ?rs) = mset (map rc_id (filter (record_due now) (stored_records st)))" by simp
  ultimately have "distinct (map rc_id ?rs)" using mset_eq_imp_distinct_iff by blast
  then have "distinct (map snd (map ?key ?rs))" by (simp add: comp_def)
  then have d: "distinct (map ?key ?rs)" by (simp only: distinct_map)
  have set_eq: "set (due_rows now None ?rows) = set (map (entry_of sha256 iso_text) ?rs)"
    using assms(1) by (auto simp: due_rows_def rows_match_def after_cursor_def due)
  have dist: "distinct (map fst ?rows)" using assms(1) by (simp add: rows_match_def)
  have "inj_on due_key (set (due_rows now None ?rows) \<union> set (map (entry_of sha256 iso_text) ?rs))"
    unfolding set_eq [symmetric] using due_rows_keys(2) [OF dist] by (simp add: distinct_map)
  then show ?thesis
    using due_rows_keys [OF dist] d set_eq keys by (intro map_sorted_distinct_set_unique) (auto simp: keys simp del: map_map)
qed

end
