(* ===== verification/Recurrence_Invariants.thy ===== *)
theory Recurrence_Invariants
  imports Active_Recurrence
begin

section \<open>What every operation of the recurrence store keeps\<close>

text \<open>
  The invariant of the store of \<^verbatim>\<open>backend/app/active_recurrence.py\<close>: readable files, a projection that follows them,
  and no executable schedule whose next run or retry lies at or after the end of its authorization. The step
  relation has one rule for each operation, restarts of the process included.
\<close>

definition admissible :: "recurrence \<Rightarrow> bool" where
  "admissible r \<longleftrightarrow> (rc_status r = Active \<longrightarrow>
     (case rc_auth_expires r of None \<Rightarrow> False
      | Some x \<Rightarrow> rc_next_run_at r < x \<and> (case rc_next_retry_at r of None \<Rightarrow> True | Some t \<Rightarrow> t < x)))"

definition index_fresh :: "(string \<Rightarrow> string) \<Rightarrow> (instant \<Rightarrow> string) \<Rightarrow> recurrence_store \<Rightarrow> bool" where
  "index_fresh sha256 iso_text st \<longleftrightarrow> index_ok sha256 iso_text st \<and> ix_token (rs_index st) \<le> rs_revision st \<and>
     (ix_open (rs_index st) \<longrightarrow> ix_token (rs_index st) = rs_revision st)"

definition store_inv :: "(string \<Rightarrow> string) \<Rightarrow> (instant \<Rightarrow> string) \<Rightarrow> zone_db \<Rightarrow> recurrence_store \<Rightarrow> bool" where
  "store_inv sha256 iso_text db st \<longleftrightarrow>
     files_ok db st \<and> index_fresh sha256 iso_text st \<and> list_all admissible (stored_records st)"

lemma index_fresh_closed [simp]:
  "\<not> ix_open (rs_index st) \<Longrightarrow>
   index_fresh sha256 iso_text st \<longleftrightarrow> ix_token (rs_index st) \<le> rs_revision st \<and>
     (ix_present (rs_index st) \<and> ix_token (rs_index st) = rs_revision st \<longrightarrow> rows_match sha256 iso_text st)"
  by (auto simp: index_fresh_def index_ok_def)

lemma index_fresh_open:
  "ix_open (rs_index st) \<Longrightarrow>
   index_fresh sha256 iso_text st \<longleftrightarrow> ix_present (rs_index st) \<and> ix_seen (rs_index st) = rs_revision st \<and>
     ix_token (rs_index st) = rs_revision st \<and> rows_match sha256 iso_text st"
  by (auto simp: index_fresh_def index_ok_def)

lemma files_ok_dict: "files_ok db st \<Longrightarrow> dict_ok (rs_files st)"
  unfolding files_ok_def dict_ok_def by (metis distinct_map list.map_comp)

subsection \<open>Writing a record\<close>

definition own_id :: "recurrence_store \<Rightarrow> recurrence \<Rightarrow> bool" where
  "own_id st r \<longleftrightarrow> list_all (\<lambda>(org, i). i = rc_id r \<longrightarrow> org = rc_organization_id r) (map fst (rs_files st))"

definition writable :: "zone_db \<Rightarrow> recurrence \<Rightarrow> bool" where
  "writable db r \<longleftrightarrow> recurrence_valid db r \<and> rc_contract_version r = recurrence_contract_version \<and> admissible r"

lemma writable_migrate: "writable db r \<Longrightarrow> migrate r = r"
  by (rule migrate_id) (auto simp: writable_def admissible_def split: option.splits)

definition others :: "string \<Rightarrow> recurrence_store \<Rightarrow> recurrence set" where
  "others i st = {q \<in> set (stored_records st). rc_id q \<noteq> i}"

lemma write_record_files:
  assumes "files_ok db st" "writable db r" "own_id st r"
  shows "files_ok db (write_record r st)" "set (stored_records (write_record r st)) = insert r (others (rc_id r) st)"
proof -
  let ?k = "(rc_organization_id r, rc_id r)"
  have files: "set (rs_files (write_record r st)) = insert (?k, RecurrenceFile r) {e \<in> set (rs_files st). fst e \<noteq> ?k}"
    using dict_set_set [OF files_ok_dict [OF assms(1)]] by (simp add: write_record_def)
  have own: "snd (fst e) = rc_id r \<longleftrightarrow> fst e = ?k" if "e \<in> set (rs_files st)" for e
    using assms(3) that by (auto simp: own_id_def list_all_iff)
  have "distinct (map snd (map fst (rs_files st)))" using assms(1) by (simp add: files_ok_def)
  then have "distinct (map snd (map fst (rs_files (write_record r st))))"
  proof (cases "?k \<in> fst ` set (rs_files st)")
    case True
    then show ?thesis using \<open>distinct (map snd _)\<close> by (simp add: write_record_def dict_set_map_fst)
  next
    case False
    have "rc_id r \<notin> snd ` set (map fst (rs_files st))"
    proof
      assume "rc_id r \<in> snd ` set (map fst (rs_files st))"
      then obtain e where "e \<in> set (rs_files st)" "snd (fst e) = rc_id r" by auto
      with own [of e] have "?k \<in> fst ` set (rs_files st)" by (intro rev_image_eqI [of e]) simp_all
      then show False using False by contradiction
    qed
    then show ?thesis using False \<open>distinct (map snd _)\<close> by (simp add: write_record_def dict_set_map_fst image_image)
  qed
  moreover have "file_ok db (?k, RecurrenceFile r)" using assms(2) by (simp add: file_ok_def writable_def)
  ultimately show "files_ok db (write_record r st)"
    using assms(1) by (simp add: files_ok_def list_all_iff files)
  have id: "rc_id (file_record e) = snd (fst e)" if "e \<in> set (rs_files st)" for e
    using arg_cong [OF stored_ids [OF assms(1)], of set] assms(1) that
    by (cases e; cases "snd e") (auto simp: files_ok_def list_all_iff file_ok_def)
  have "set (stored_records (write_record r st)) = insert (migrate r) (file_record ` {e \<in> set (rs_files st). fst e \<noteq> ?k})"
    by (simp add: stored_records_def files)
  also have "file_record ` {e \<in> set (rs_files st). fst e \<noteq> ?k} = others (rc_id r) st"
    using own id by (fastforce simp: others_def stored_records_def)
  finally show "set (stored_records (write_record r st)) = insert r (others (rc_id r) st)"
    using writable_migrate [OF assms(2)] by simp
qed

lemma rows_match_replaced:
  assumes "rows_match sha256 iso_text st"
  shows "set (dict_set (rc_id r) (row_of sha256 iso_text r) (ix_rows (rs_index st)))
      = entry_of sha256 iso_text ` insert r (others (rc_id r) st)"
    "distinct (map fst (dict_set (rc_id r) (row_of sha256 iso_text r) (ix_rows (rs_index st))))"
proof -
  have ok: "dict_ok (ix_rows (rs_index st))" using assms by (simp add: rows_match_def dict_ok_def)
  then show "distinct (map fst (dict_set (rc_id r) (row_of sha256 iso_text r) (ix_rows (rs_index st))))"
    using dict_set_ok [of "ix_rows (rs_index st)" "rc_id r" "row_of sha256 iso_text r"] by (simp only: dict_ok_def)
  show "set (dict_set (rc_id r) (row_of sha256 iso_text r) (ix_rows (rs_index st)))
      = entry_of sha256 iso_text ` insert r (others (rc_id r) st)"
    using assms unfolding dict_set_set [OF ok] by (auto simp: rows_match_def others_def entry_of_def)
qed

theorem write_and_sync_keeps:
  assumes "store_inv sha256 iso_text db st" "writable db r" "own_id st r"
  shows "\<exists>st'. write_and_sync sha256 iso_text db r x st = (Inr x, st') \<and> store_inv sha256 iso_text db st' \<and>
    set (stored_records st') = insert r (others (rc_id r) st)"
proof -
  let ?w = "write_record r st" and ?ix = "rs_index st"
  note inv = assms(1) [unfolded store_inv_def]
  have files: "files_ok db ?w" and recs: "set (stored_records ?w) = insert r (others (rc_id r) st)"
    using write_record_files [OF _ assms(2,3)] inv by blast+
  have w: "rs_index ?w = ?ix" "rs_revision ?w = Suc (rs_revision st)" by (simp_all add: write_record_def)
  have adm: "list_all admissible (stored_records ?w)"
    unfolding list_all_iff recs using inv assms(2) by (auto simp: writable_def others_def list_all_iff)
  have valid: "is_hex_id 32 (rc_id r)" "is_hex_id 32 (rc_asset_id r)" "is_organization_id (rc_organization_id r)"
    using assms(2) by (auto simp: writable_def recurrence_valid_def)
  show ?thesis
  proof (cases "ix_open ?ix")
    case False
    then have "index_fresh sha256 iso_text ?w" using inv w by auto
    then show ?thesis using False w files adm recs by (simp add: write_and_sync_def sync_after_write_def Let_def store_inv_def)
  next
    case True
    let ?rows = "dict_set (rc_id r) (row_of sha256 iso_text r) (ix_rows ?ix)"
    let ?st' = "?w\<lparr>rs_index := ?ix\<lparr>ix_rows := ?rows, ix_token := rs_revision ?w, ix_seen := rs_revision ?w\<rparr>\<rparr>"
    have "write_and_sync sha256 iso_text db r x st = (Inr x, ?st')"
      using True valid w by (simp add: write_and_sync_def sync_after_write_def Let_def replace_row_def)
    moreover have same: "stored_records ?st' = stored_records ?w" "files_ok db ?st' = files_ok db ?w"
      by (simp_all add: stored_records_def files_ok_def)
    have "rows_match sha256 iso_text st" "ix_present ?ix" using inv True by (simp_all add: index_fresh_open)
    then have "index_fresh sha256 iso_text ?st'"
      using True rows_match_replaced same(1) recs by (simp add: index_fresh_open rows_match_def)
    ultimately show ?thesis using files adm recs same by (auto simp: store_inv_def)
  qed
qed

subsection \<open>Changing a stored record\<close>

lemma read_record_stored:
  assumes "read_record db org i st = Inr c"
  shows "c \<in> set (stored_records st)" "rc_id c = i" "rc_organization_id c = org" "rc_contract_version c = recurrence_contract_version"
    "(org, i) \<in> fst ` set (rs_files st)"
proof -
  obtain r where r: "map_of (rs_files st) (org, i) = Some (RecurrenceFile r)" "rc_id r = i" "rc_organization_id r = org" "c = migrate r"
    using assms by (auto simp: read_record_def split: option.splits recurrence_file.splits if_splits)
  then have mem: "((org, i), RecurrenceFile r) \<in> set (rs_files st)" by (simp add: map_of_SomeD)
  show "c \<in> set (stored_records st)"
    unfolding stored_records_def set_map by (rule rev_image_eqI [OF mem]) (simp add: r(4))
  show "(org, i) \<in> fst ` set (rs_files st)" by (rule rev_image_eqI [OF mem]) simp
  show "rc_id c = i" "rc_organization_id c = org" "rc_contract_version c = recurrence_contract_version"
    using r by (simp_all add: migrate_def Let_def)
qed

lemma own_id_stored:
  assumes "files_ok db st" "(rc_organization_id r, rc_id r) \<in> fst ` set (rs_files st)"
  shows "own_id st r"
proof -
  have "distinct (map snd (map fst (rs_files st)))" using assms(1) by (simp add: files_ok_def)
  then have inj: "inj_on snd (set (map fst (rs_files st)))" unfolding distinct_map by blast
  show ?thesis unfolding own_id_def list_all_iff split_def
  proof (intro ballI impI)
    fix k assume "k \<in> set (map fst (rs_files st))" "snd k = rc_id r"
    with inj_onD [OF inj, of k "(rc_organization_id r, rc_id r)"] assms(2) show "fst k = rc_organization_id r" by simp
  qed
qed

definition stamped :: "recurrence \<Rightarrow> schedule_status \<Rightarrow> schedule_reason \<Rightarrow> instant \<Rightarrow> recurrence" where
  "stamped c status reason now = c\<lparr>rc_status := status, rc_reason := reason, rc_updated_at := now\<rparr>"

lemma mutate_keeps:
  assumes inv: "store_inv sha256 iso_text db st"
    and upd: "\<And>c. c \<in> set (stored_records st) \<Longrightarrow> rc_id c = i \<Longrightarrow> rc_organization_id c = org \<Longrightarrow> rc_updated_at c = expected \<Longrightarrow>
      rc_id (update (stamped c status reason now)) = i \<and> rc_organization_id (update (stamped c status reason now)) = org \<and>
      rc_contract_version (update (stamped c status reason now)) = rc_contract_version c \<and> admissible (update (stamped c status reason now))"
  shows "store_inv sha256 iso_text db (snd (mutate sha256 iso_text db now i org asset_id expected status reason update st))"
proof (cases "mutate sha256 iso_text db now i org asset_id expected status reason update st = (Inl StoreInvalid, st) \<or>
    snd (mutate sha256 iso_text db now i org asset_id expected status reason update st) = st")
  case True
  then show ?thesis using inv by auto
next
  case False
  then obtain c where c: "read_record db org i st = Inr c" "rc_updated_at c = expected"
    and valid: "recurrence_valid db (update (stamped c status reason now))"
    and eq: "mutate sha256 iso_text db now i org asset_id expected status reason update st =
      write_and_sync sha256 iso_text db (update (stamped c status reason now)) (update (stamped c status reason now)) st"
    unfolding mutate_def stamped_def by (auto simp: Let_def res_simps split: sum.splits if_splits)
  note c' = read_record_stored [OF c(1)]
  let ?r = "update (stamped c status reason now)"
  have r: "rc_id ?r = i" "rc_organization_id ?r = org" "writable db ?r"
    using upd [OF c'(1-3) c(2)] valid c'(4) by (auto simp: writable_def)
  have "own_id st ?r" using inv c'(5) r by (intro own_id_stored) (auto simp: store_inv_def)
  then show ?thesis using write_and_sync_keeps [OF inv r(3), of ?r] eq by auto
qed


subsection \<open>Reading through the projection\<close>

lemma ensure_current_keeps:
  assumes "store_inv sha256 iso_text db st"
  shows "\<exists>st'. ensure_current sha256 iso_text db st = Inr st' \<and> store_inv sha256 iso_text db st' \<and> rs_files st' = rs_files st \<and>
    rs_revision st' = rs_revision st \<and> rows_match sha256 iso_text st' \<and> ix_open (rs_index st')"
proof -
  from assms have "files_ok db st" "index_ok sha256 iso_text st" by (auto simp: store_inv_def index_fresh_def)
  from ensure_current_ok [OF this] obtain st' where st': "ensure_current sha256 iso_text db st = Inr st'" "rs_files st' = rs_files st"
    "rs_revision st' = rs_revision st" "rows_match sha256 iso_text st'" "ix_open (rs_index st')" "index_ok sha256 iso_text st'"
    "ix_seen (rs_index st') = rs_revision st'" by metis
  then have "index_fresh sha256 iso_text st'" by (auto simp: index_fresh_def index_ok_def)
  moreover have "files_ok db st'" "list_all admissible (stored_records st')"
    using assms st'(2) by (auto simp: store_inv_def files_ok_def stored_records_def)
  ultimately show ?thesis using st' by (auto simp: store_inv_def)
qed

definition for_asset :: "string \<Rightarrow> string \<Rightarrow> recurrence \<Rightarrow> bool" where
  "for_asset org asset_id r \<longleftrightarrow> rc_organization_id r = org \<and> rc_asset_id r = asset_id"

lemma asset_rows:
  assumes "rows_match sha256 iso_text st" "files_ok db st"
  shows "sort_key fst (filter (\<lambda>(i, row). ir_organization_id row = org \<and> ir_asset_id row = asset_id) (ix_rows (rs_index st)))
    = map (entry_of sha256 iso_text) (sort_key rc_id (filter (for_asset org asset_id) (stored_records st)))"
proof -
  let ?rows = "filter (\<lambda>(i, row). ir_organization_id row = org \<and> ir_asset_id row = asset_id) (ix_rows (rs_index st))"
  let ?rs = "sort_key rc_id (filter (for_asset org asset_id) (stored_records st))"
  have keys: "map fst (map (entry_of sha256 iso_text) ?rs) = map rc_id ?rs" by (simp add: entry_of_def)
  have "distinct (map rc_id (stored_records st))" using assms(2) stored_ids [OF assms(2)] by (simp add: files_ok_def)
  then have "distinct (map rc_id (filter (for_asset org asset_id) (stored_records st)))" by (rule distinct_map_filter)
  moreover have "mset (map rc_id ?rs) = mset (map rc_id (filter (for_asset org asset_id) (stored_records st)))" by simp
  ultimately have d: "distinct (map rc_id ?rs)" using mset_eq_imp_distinct_iff by blast
  have "distinct (map fst (ix_rows (rs_index st)))" using assms(1) by (simp add: rows_match_def)
  then have "distinct (map fst ?rows)" by (rule distinct_map_filter)
  moreover have "mset (map fst (sort_key fst ?rows)) = mset (map fst ?rows)" by simp
  ultimately have dr: "distinct (map fst (sort_key fst ?rows))" using mset_eq_imp_distinct_iff by blast
  have set_eq: "set (sort_key fst ?rows) = set (map (entry_of sha256 iso_text) ?rs)"
    using assms(1) by (auto simp: rows_match_def for_asset_def entry_of_def row_of_def)
  have "inj_on fst (set (sort_key fst ?rows) \<union> set (map (entry_of sha256 iso_text) ?rs))"
    unfolding set_eq [symmetric] using dr by (simp only: distinct_map Un_absorb)
  then show ?thesis
    using dr d set_eq keys by (intro map_sorted_distinct_set_unique) (auto simp only: keys sorted_sort_key)
qed

lemma map_res_all: "(\<And>x. x \<in> set xs \<Longrightarrow> f (g x) = Inr x) \<Longrightarrow> map_res f (map g xs) = Inr xs"
  unfolding map_res_Inr_iff by (simp add: list_all2_conv_all_nth)

lemma map_res_mem: "map_res f xs = Inr ys \<Longrightarrow> x \<in> set xs \<Longrightarrow> \<exists>y \<in> set ys. f x = Inr y"
  unfolding map_res_Inr_iff by (auto simp: list_all2_conv_all_nth in_set_conv_nth)

lemma records_for_asset_reads:
  assumes "store_inv sha256 iso_text db st" "is_organization_id org" "is_hex_id 32 asset_id"
  shows "\<exists>st'. records_for_asset sha256 iso_text db org asset_id st
      = Inr (sort_key rc_id (filter (for_asset org asset_id) (stored_records st)), st') \<and>
    store_inv sha256 iso_text db st' \<and> rs_files st' = rs_files st \<and> ix_open (rs_index st')"
proof -
  obtain st' where st': "ensure_current sha256 iso_text db st = Inr st'" "store_inv sha256 iso_text db st'" "rs_files st' = rs_files st"
    "rows_match sha256 iso_text st'" "ix_open (rs_index st')" using ensure_current_keeps [OF assms(1)] by blast
  have ok: "files_ok db st'" using st'(2) by (simp add: store_inv_def)
  have recs: "stored_records st' = stored_records st" using st'(3) by (simp add: stored_records_def)
  have "map_res (load_validated sha256 iso_text db st') (map (entry_of sha256 iso_text)
      (sort_key rc_id (filter (for_asset org asset_id) (stored_records st))))
    = Inr (sort_key rc_id (filter (for_asset org asset_id) (stored_records st)))"
    using load_validated_entry [OF ok] recs by (intro map_res_all) simp
  then show ?thesis
    using assms(2,3) st' asset_rows [OF st'(4) ok] recs by (simp add: records_for_asset_def)
qed


subsection \<open>Deleting records\<close>

lemma file_record_key:
  "files_ok db st \<Longrightarrow> e \<in> set (rs_files st) \<Longrightarrow> (rc_organization_id (file_record e), rc_id (file_record e)) = fst e"
  by (cases e; cases "snd e") (auto simp: files_ok_def list_all_iff file_ok_def)

lemma unlink_record_files:
  assumes "files_ok db st"
  shows "files_ok db (unlink_record org i st)"
    "set (stored_records (unlink_record org i st)) = {q \<in> set (stored_records st). (rc_organization_id q, rc_id q) \<noteq> (org, i)}"
proof -
  show "files_ok db (unlink_record org i st)"
    using assms by (auto simp: files_ok_def unlink_record_def dict_pop_def list_all_iff distinct_map_filter)
  show "set (stored_records (unlink_record org i st)) = {q \<in> set (stored_records st). (rc_organization_id q, rc_id q) \<noteq> (org, i)}"
    using file_record_key [OF assms] by (fastforce simp: stored_records_def unlink_record_def dict_pop_def)
qed

lemma unlink_records_files:
  assumes "files_ok db st"
  shows "files_ok db (fold (\<lambda>r. unlink_record org (rc_id r)) rs st) \<and>
    set (stored_records (fold (\<lambda>r. unlink_record org (rc_id r)) rs st))
      = {q \<in> set (stored_records st). \<not> (rc_organization_id q = org \<and> rc_id q \<in> rc_id ` set rs)} \<and>
    rs_index (fold (\<lambda>r. unlink_record org (rc_id r)) rs st) = rs_index st \<and>
    rs_revision (fold (\<lambda>r. unlink_record org (rc_id r)) rs st) = rs_revision st + length rs"
  using assms
proof (induction rs arbitrary: st)
  case (Cons r rs)
  note unlinked = unlink_record_files [OF Cons.prems, of org "rc_id r"]
  show ?case using Cons.IH [OF unlinked(1)] unlinked(2) by (auto simp: unlink_record_def)
qed simp

lemma sync_delete_keeps:
  assumes inv: "store_inv sha256 iso_text db st" and files: "files_ok db st1" and ix: "rs_index st1 = rs_index st"
    and rev: "rs_revision st \<le> rs_revision st1" "ix_open (rs_index st) \<or> rs_revision st < rs_revision st1"
    and recs: "set (stored_records st1) = {q \<in> set (stored_records st). \<not> gone (entry_of sha256 iso_text q)}"
  shows "store_inv sha256 iso_text db (sync_delete gone st1)" "stored_records (sync_delete gone st1) = stored_records st1"
proof -
  show same: "stored_records (sync_delete gone st1) = stored_records st1" by (simp add: sync_delete_def Let_def stored_records_def)
  have ok: "files_ok db (sync_delete gone st1)" using files by (simp add: sync_delete_def Let_def files_ok_def)
  have adm: "list_all admissible (stored_records (sync_delete gone st1))"
    unfolding same list_all_iff recs using inv by (auto simp: store_inv_def list_all_iff)
  have "index_fresh sha256 iso_text (sync_delete gone st1)"
  proof (cases "ix_open (rs_index st)")
    case False
    then show ?thesis using inv rev ix by (auto simp: sync_delete_def Let_def store_inv_def)
  next
    case True
    then have m: "rows_match sha256 iso_text st" and p: "ix_present (rs_index st)" using inv by (simp_all add: store_inv_def index_fresh_open)
    have open': "ix_open (rs_index (sync_delete gone st1))" using True ix by (simp add: sync_delete_def Let_def)
    have "distinct (map fst (ix_rows (rs_index st)))" using m by (simp add: rows_match_def)
    then have "distinct (map fst (filter (\<lambda>row. \<not> gone row) (ix_rows (rs_index st))))" by (rule distinct_map_filter)
    moreover have "set (filter (\<lambda>row. \<not> gone row) (ix_rows (rs_index st))) = entry_of sha256 iso_text ` set (stored_records st1)"
      unfolding recs using m by (auto simp: rows_match_def)
    ultimately have "rows_match sha256 iso_text (sync_delete gone st1)"
      unfolding rows_match_def same using True ix by (simp add: sync_delete_def Let_def)
    then show ?thesis unfolding index_fresh_open [OF open'] using True ix p by (simp add: sync_delete_def Let_def)
  qed
  then show "store_inv sha256 iso_text db (sync_delete gone st1)" using ok adm by (simp add: store_inv_def)
qed


subsection \<open>The operations\<close>

lemma planned_creation_writable:
  assumes "planned_creation sha256 db now request org asset_id actor_id role auth = Inr r"
  shows "writable db r" "rc_organization_id r = org" "rc_id r = recurrence_id sha256 org actor_id (cq_idempotency_key request)"
    "rc_status r = Active" "next_run sha256 db now (rc_interval_days r) (rc_id r) (rc_timezone_name r) (rc_weekdays r) (rc_start_hour r)
       (rc_duration_hours r) = Inr (rc_next_run_at r)"
proof -
  obtain q t where q: "validate_request db request = Inr q"
    and t: "next_run sha256 db now (cq_interval_days q) (recurrence_id sha256 org actor_id (cq_idempotency_key q)) (cq_timezone_name q)
      (cq_weekdays q) (cq_start_hour q) (cq_duration_hours q) = Inr t" "t < au_expires_at auth"
    and r: "r = new_recurrence q org asset_id actor_id role auth (recurrence_id sha256 org actor_id (cq_idempotency_key q)) now t"
    and v: "recurrence_valid db r"
    using assms by (auto simp: planned_creation_def Let_def res_simps split: if_splits)
  have "cq_idempotency_key q = cq_idempotency_key request" using q by (auto simp: validate_request_def split: if_splits)
  then show "rc_id r = recurrence_id sha256 org actor_id (cq_idempotency_key request)" by (simp add: r new_recurrence_def)
  show "writable db r" using v t(2) by (simp add: writable_def admissible_def) (simp add: r new_recurrence_def)
  show "rc_organization_id r = org" "rc_status r = Active" by (simp_all add: r new_recurrence_def)
  show "next_run sha256 db now (rc_interval_days r) (rc_id r) (rc_timezone_name r) (rc_weekdays r) (rc_start_hour r)
      (rc_duration_hours r) = Inr (rc_next_run_at r)" using t(1) by (simp add: r new_recurrence_def)
qed

definition id_owned :: "recurrence_store \<Rightarrow> string \<Rightarrow> string \<Rightarrow> bool" where
  "id_owned st org i \<longleftrightarrow> list_all (\<lambda>(owner, schedule_id). schedule_id = i \<longrightarrow> owner = org) (map fst (rs_files st))"

lemma create_keeps:
  assumes "store_inv sha256 iso_text db st" "id_owned st org (recurrence_id sha256 org actor_id (cq_idempotency_key request))"
  shows "store_inv sha256 iso_text db (snd (recurrence_create sha256 iso_text db now pending request org asset_id actor_id role auth st))"
proof (cases "planned_creation sha256 db now request org asset_id actor_id role auth")
  case (Inr r)
  note r = planned_creation_writable [OF Inr]
  have "own_id st r" using assms(2) r(2,3) by (simp add: id_owned_def own_id_def)
  then obtain st' where "write_and_sync sha256 iso_text db r (r, False) st = (Inr (r, False), st')" "store_inv sha256 iso_text db st'"
    using write_and_sync_keeps [OF assms(1) r(1), of "(r, False)"] by auto
  then show ?thesis using Inr assms(1) by (auto simp: recurrence_create_def split: sum.splits)
qed (simp add: recurrence_create_def assms(1))

text \<open>A record in the hands of the dispatcher: an active one whose stamp tells its version.\<close>

definition version_known :: "recurrence_store \<Rightarrow> recurrence \<Rightarrow> bool" where
  "version_known st r \<longleftrightarrow> rc_status r = Active \<and>
     list_all (\<lambda>c. rc_id c = rc_id r \<and> rc_organization_id c = rc_organization_id r \<and> rc_updated_at c = rc_updated_at r \<longrightarrow> c = r)
       (stored_records st)"

lemma version_known_current:
  "version_known st r \<Longrightarrow> store_inv sha256 iso_text db st \<Longrightarrow> c \<in> set (stored_records st) \<Longrightarrow> rc_id c = rc_id r \<Longrightarrow>
   rc_organization_id c = rc_organization_id r \<Longrightarrow> rc_updated_at c = rc_updated_at r \<Longrightarrow> c = r \<and> admissible r \<and> rc_status r = Active"
  by (auto simp: version_known_def list_all_iff store_inv_def)

lemmas mutate_ops = pause_recurrence_def suspend_recurrence_def record_dispatch_def record_failure_outcome_def resume_recurrence_def

lemma pause_keeps:
  "store_inv sha256 iso_text db st \<Longrightarrow> store_inv sha256 iso_text db (snd (pause_recurrence sha256 iso_text db now i org asset_id expected st))"
  unfolding pause_recurrence_def by (rule mutate_keeps) (auto simp: stamped_def admissible_def)

lemma suspend_keeps:
  "store_inv sha256 iso_text db st \<Longrightarrow> store_inv sha256 iso_text db (snd (suspend_recurrence sha256 iso_text db now r reason st))"
  using mutate_keeps [of sha256 iso_text db st "rc_id r" "rc_organization_id r" "rc_updated_at r" id Suspended reason now "rc_asset_id r"]
  by (auto simp: suspend_recurrence_def stamped_def admissible_def)

lemma resume_keeps:
  assumes "store_inv sha256 iso_text db st"
  shows "store_inv sha256 iso_text db (snd (resume_recurrence sha256 iso_text db now now' i org asset_id expected auth st))"
proof (cases "bind_res (get_recurrence db i org asset_id st) (following_run sha256 db now)")
  case (Inr t)
  show ?thesis
  proof (cases "au_expires_at auth \<le> t")
    case False
    show ?thesis unfolding resume_recurrence_def Inr using False
      by (simp, intro mutate_keeps [OF assms]) (auto simp: stamped_def admissible_def)
  qed (simp add: resume_recurrence_def Inr assms)
qed (simp add: resume_recurrence_def assms)

lemma dispatch_keeps:
  assumes "store_inv sha256 iso_text db st" "version_known st r"
  shows "store_inv sha256 iso_text db (snd (record_dispatch sha256 iso_text db observed now r job_id st))"
proof (cases "following_run sha256 db observed r")
  case (Inr t)
  show ?thesis unfolding record_dispatch_def Inr sum.case
    by (rule mutate_keeps [OF assms(1)], drule (3) version_known_current [OF assms(2,1)])
      (auto simp: stamped_def admissible_def ended_by_def split: option.splits)
qed (simp add: record_dispatch_def assms)

lemma failure_keeps:
  assumes "store_inv sha256 iso_text db st" "version_known st r"
  shows "store_inv sha256 iso_text db (snd (record_failure_outcome sha256 iso_text db observed now r outcome st))"
proof (cases "retry_at sha256 db observed r")
  case (Inr t)
  show ?thesis unfolding record_failure_outcome_def Inr sum.case
    by (rule mutate_keeps [OF assms(1)], drule (3) version_known_current [OF assms(2,1)])
      (auto simp: stamped_def admissible_def ended_by_def split: option.splits)
qed (simp add: record_failure_outcome_def assms)


lemma scope_checked:
  assumes "bind_res (validate_recurrence_scope org asset_id) f = Inr x"
  shows "is_organization_id org" "is_hex_id 32 asset_id" "f () = Inr x"
  using assms by (auto simp: validate_recurrence_scope_def res_simps split: if_splits)

lemma delete_keeps:
  assumes inv: "store_inv sha256 iso_text db st"
  shows "store_inv sha256 iso_text db (snd (delete_recurrence db i org asset_id st))"
proof (cases "get_recurrence db i org asset_id st")
  case (Inr r)
  have files: "files_ok db st" using inv by (simp add: store_inv_def)
  have "store_inv sha256 iso_text db (sync_after_delete org i (unlink_record org i st))" unfolding sync_after_delete_def
    by (rule sync_delete_keeps [OF inv unlink_record_files(1) [OF files]])
      (auto simp: unlink_record_files(2) [OF files] entry_of_def row_of_def, simp_all add: unlink_record_def)
  then show ?thesis by (simp add: delete_recurrence_def Inr)
qed (simp add: delete_recurrence_def inv)

lemma delete_for_asset_result:
  assumes inv: "store_inv sha256 iso_text db st" and result: "delete_for_asset sha256 iso_text db org asset_id st = (Inr n, st')"
  shows "store_inv sha256 iso_text db st'" "set (stored_records st') = {q \<in> set (stored_records st). \<not> for_asset org asset_id q}"
    "n = length (filter (for_asset org asset_id) (stored_records st))"
proof -
  let ?m = "bind_res (validate_recurrence_scope org asset_id) (\<lambda>_. as_store_error (records_for_asset sha256 iso_text db org asset_id st))"
  obtain v where v: "?m = Inr v" using result by (cases ?m) (auto simp: delete_for_asset_def)
  note s = scope_checked [OF v]
  let ?rs = "sort_key rc_id (filter (for_asset org asset_id) (stored_records st))"
  obtain st1 where st1: "records_for_asset sha256 iso_text db org asset_id st = Inr (?rs, st1)" "store_inv sha256 iso_text db st1"
    "rs_files st1 = rs_files st" "ix_open (rs_index st1)" using records_for_asset_reads [OF inv s(1,2)] by blast
  let ?st2 = "fold (\<lambda>r. unlink_record org (rc_id r)) ?rs st1"
  have res: "n = length ?rs" "st' = sync_after_asset_delete org asset_id ?st2"
    using result s(1,2) st1(1) by (simp_all add: delete_for_asset_def as_store_error_def validate_recurrence_scope_def)
  show "n = length (filter (for_asset org asset_id) (stored_records st))" using res(1) by simp
  have files: "files_ok db st1" "stored_records st1 = stored_records st" using st1(2,3) by (simp_all add: store_inv_def stored_records_def)
  note u = unlink_records_files [OF files(1), of org ?rs, unfolded files(2)]
  have "inj_on rc_id (set (stored_records st))" using inv stored_ids unfolding store_inv_def files_ok_def by (metis distinct_map files_ok_def)
  then have recs: "set (stored_records ?st2) = {q \<in> set (stored_records st). \<not> for_asset org asset_id q}"
    using u by (auto simp: for_asset_def inj_on_def)
  have "store_inv sha256 iso_text db st'" "stored_records st' = stored_records ?st2" unfolding res(2) sync_after_asset_delete_def
    by (rule sync_delete_keeps [OF st1(2)], use u st1(4) recs files(2) in \<open>auto simp: for_asset_def entry_of_def row_of_def\<close>)+
  then show "store_inv sha256 iso_text db st'" "set (stored_records st') = {q \<in> set (stored_records st). \<not> for_asset org asset_id q}"
    using recs by simp_all
qed

lemma delete_for_asset_keeps:
  assumes inv: "store_inv sha256 iso_text db st"
  shows "store_inv sha256 iso_text db (snd (delete_for_asset sha256 iso_text db org asset_id st))"
proof (cases "fst (delete_for_asset sha256 iso_text db org asset_id st)")
  case (Inl e)
  then show ?thesis using inv by (auto simp: delete_for_asset_def split: sum.splits prod.splits)
next
  case (Inr n)
  then show ?thesis using delete_for_asset_result(1) [OF inv] by (metis prod.collapse)
qed

lemma suspend_records_keeps:
  assumes "store_inv sha256 iso_text db st"
    "\<forall>r \<in> set rs. recurrence_valid db r \<and> rc_contract_version r = recurrence_contract_version \<and>
       (rc_organization_id r, rc_id r) \<in> fst ` set (rs_files st)"
  shows "store_inv sha256 iso_text db (snd (suspend_records sha256 iso_text db now reason rs n st))"
  using assms
proof (induction rs arbitrary: n st)
  case (Cons r rs)
  let ?r = "r\<lparr>rc_status := Suspended, rc_reason := reason, rc_updated_at := now n\<rparr>"
  have "recurrence_valid db ?r = recurrence_valid db r" by (simp add: recurrence_valid_def)
  then have w: "writable db ?r" using Cons.prems(2) by (simp add: writable_def admissible_def)
  have own: "own_id st ?r" using Cons.prems by (intro own_id_stored [of db]) (auto simp: store_inv_def)
  obtain st' where st': "write_and_sync sha256 iso_text db ?r () st = (Inr (), st')" "store_inv sha256 iso_text db st'"
    using write_and_sync_keeps [OF Cons.prems(1) w own, of "()"] by auto
  have "rs_files st' = rs_files (write_record ?r st)"
    using st'(1) w by (auto simp: write_and_sync_def sync_after_write_def Let_def replace_row_def writable_def recurrence_valid_def
      split: sum.splits if_splits)
  then have "fst ` set (rs_files st) \<subseteq> fst ` set (rs_files st')" by (auto simp: write_record_def dict_set_keys)
  then show ?case using Cons st' by (auto simp: subset_iff)
qed simp

lemma suspend_for_asset_keeps:
  assumes inv: "store_inv sha256 iso_text db st"
  shows "store_inv sha256 iso_text db (snd (suspend_for_asset sha256 iso_text db now org asset_id reason st))"
proof -
  let ?m = "bind_res (validate_recurrence_scope org asset_id) (\<lambda>_.
    if reason \<notin> {AuthorizationUnavailable, AuthorizationRevisionChanged, VerificationUnavailable} then Inl InvalidReason
    else as_store_error (records_for_asset sha256 iso_text db org asset_id st))"
  show ?thesis
  proof (cases ?m)
    case (Inl e)
    show ?thesis unfolding suspend_for_asset_def Inl using inv by simp
  next
    case (Inr v)
    note s = scope_checked [OF Inr]
    let ?rs = "sort_key rc_id (filter (for_asset org asset_id) (stored_records st))"
    obtain st1 where st1: "records_for_asset sha256 iso_text db org asset_id st = Inr (?rs, st1)" "store_inv sha256 iso_text db st1"
      "rs_files st1 = rs_files st" using records_for_asset_reads [OF inv s(1,2)] by blast
    have v: "v = (?rs, st1)" using s(3) st1(1) by (auto simp: as_store_error_def split: if_splits)
    have files: "files_ok db st" using inv by (simp add: store_inv_def)
    have "recurrence_valid db r \<and> rc_contract_version r = recurrence_contract_version \<and> (rc_organization_id r, rc_id r) \<in> fst ` set (rs_files st1)"
      if "r \<in> set ?rs" for r
      using that read_record_stored(4,5) [OF stored_record_read(1) [OF files]] stored_record_read(6) [OF files] st1(3) by auto
    then have "store_inv sha256 iso_text db (snd (suspend_records sha256 iso_text db now reason ?rs 0 st1))"
      by (intro suspend_records_keeps [OF st1(2)] ballI)
    then show ?thesis unfolding suspend_for_asset_def Inr v by simp
  qed
qed


lemma list_due_keeps:
  "store_inv sha256 iso_text db st \<Longrightarrow> list_due sha256 iso_text db now limit st = Inr (rs, st') \<Longrightarrow> store_inv sha256 iso_text db st'"
  using ensure_current_keeps [of sha256 iso_text db st]
  by (auto simp: list_due_def due_records_def as_store_error_def res_simps split: if_splits sum.splits recurrence_error.splits)

lemma list_for_asset_keeps:
  assumes "store_inv sha256 iso_text db st"
  shows "store_inv sha256 iso_text db (snd (list_for_asset sha256 iso_text db org asset_id st))"
  using ensure_current_keeps [OF assms] assms
  by (auto simp: list_for_asset_def records_for_asset_def as_store_error_def res_simps
    split: if_splits sum.splits recurrence_error.splits prod.splits)

lemma restart_keeps: "store_inv sha256 iso_text db st \<Longrightarrow> store_inv sha256 iso_text db (st\<lparr>rs_index := (rs_index st)\<lparr>ix_open := False\<rparr>\<rparr>)"
  by (auto simp: store_inv_def index_fresh_def index_ok_def files_ok_def stored_records_def rows_match_def)

subsection \<open>Reachable stores\<close>

definition empty_store :: recurrence_store where
  "empty_store = \<lparr>rs_files = [], rs_revision = 0,
     rs_index = \<lparr>ix_open = False, ix_present = False, ix_rows = [], ix_token = 0, ix_seen = 0\<rparr>\<rparr>"

inductive recurrence_step ::
  "(string \<Rightarrow> string) \<Rightarrow> (instant \<Rightarrow> string) \<Rightarrow> zone_db \<Rightarrow> recurrence_store \<Rightarrow> recurrence_store \<Rightarrow> bool"
  for sha256 iso_text db where
  created: "id_owned st org (recurrence_id sha256 org actor_id (cq_idempotency_key request)) \<Longrightarrow>
    recurrence_step sha256 iso_text db st
      (snd (recurrence_create sha256 iso_text db now pending request org asset_id actor_id role auth st))"
| paused: "recurrence_step sha256 iso_text db st (snd (pause_recurrence sha256 iso_text db now i org asset_id expected st))"
| resumed: "recurrence_step sha256 iso_text db st (snd (resume_recurrence sha256 iso_text db now now' i org asset_id expected auth st))"
| suspended: "recurrence_step sha256 iso_text db st (snd (suspend_recurrence sha256 iso_text db now r reason st))"
| asset_suspended: "recurrence_step sha256 iso_text db st (snd (suspend_for_asset sha256 iso_text db clock org asset_id reason st))"
| dispatched: "version_known st r \<Longrightarrow>
    recurrence_step sha256 iso_text db st (snd (record_dispatch sha256 iso_text db observed now r job_id st))"
| failed: "version_known st r \<Longrightarrow>
    recurrence_step sha256 iso_text db st (snd (record_failure_outcome sha256 iso_text db observed now r outcome st))"
| deleted: "recurrence_step sha256 iso_text db st (snd (delete_recurrence db i org asset_id st))"
| asset_deleted: "recurrence_step sha256 iso_text db st (snd (delete_for_asset sha256 iso_text db org asset_id st))"
| due: "list_due sha256 iso_text db now limit st = Inr (rs, st') \<Longrightarrow> recurrence_step sha256 iso_text db st st'"
| listed: "recurrence_step sha256 iso_text db st (snd (list_for_asset sha256 iso_text db org asset_id st))"
| restarted: "recurrence_step sha256 iso_text db st (st\<lparr>rs_index := (rs_index st)\<lparr>ix_open := False\<rparr>\<rparr>)"

lemmas op_keeps = create_keeps pause_keeps resume_keeps suspend_keeps suspend_for_asset_keeps dispatch_keeps failure_keeps
  delete_keeps delete_for_asset_keeps list_due_keeps list_for_asset_keeps restart_keeps

lemma step_keeps: "recurrence_step sha256 iso_text db st st' \<Longrightarrow> store_inv sha256 iso_text db st \<Longrightarrow> store_inv sha256 iso_text db st'"
  by (induction rule: recurrence_step.induct) (simp_all only: op_keeps)

lemma empty_store_inv: "store_inv sha256 iso_text db empty_store"
  by (simp add: empty_store_def store_inv_def files_ok_def stored_records_def)

text \<open>
  C14. No schedule is ever executable past the authorization it was created or resumed with: in every store reachable from the
  empty one by creations, pauses, resumptions, suspensions, dispatches, failures, deletions, queries and restarts, an
  active record carries an expiry and its next run, and its pending retry if it has one, come strictly before it. Every
  file stays readable, and the projection of every such store is either unopened or exactly the table of its files.
  The runs are those in which no creation derives the identifier of another organization's schedule, and a dispatch or a
  failure is given an active record whose update stamp tells its version: a stored record with its identifiers and its stamp is
  that record.
\<close>

theorem reachable_store_invariant:
  assumes "(recurrence_step sha256 iso_text db)\<^sup>*\<^sup>* empty_store st"
  shows "files_ok db st \<and> (ix_open (rs_index st) \<longrightarrow> rows_match sha256 iso_text st) \<and>
    (\<forall>r \<in> set (stored_records st). rc_status r = Active \<longrightarrow> (\<exists>x. rc_auth_expires r = Some x \<and> rc_next_run_at r < x \<and>
       (\<forall>t. rc_next_retry_at r = Some t \<longrightarrow> t < x)))"
proof -
  from assms have inv: "store_inv sha256 iso_text db st"
    by (induction rule: rtranclp_induct) (auto intro: empty_store_inv step_keeps)
  then have "admissible r" if "r \<in> set (stored_records st)" for r using that by (auto simp: store_inv_def list_all_iff)
  then show ?thesis using inv by (fastforce simp: store_inv_def index_fresh_open admissible_def split: option.splits)
qed


subsection \<open>Dispatches and failures\<close>

lemma mutate_result:
  assumes inv: "store_inv sha256 iso_text db st"
    and upd: "\<And>c. c \<in> set (stored_records st) \<Longrightarrow> rc_id c = i \<Longrightarrow> rc_organization_id c = org \<Longrightarrow> rc_updated_at c = expected \<Longrightarrow>
      rc_id (update (stamped c status reason now)) = i \<and> rc_organization_id (update (stamped c status reason now)) = org \<and>
      rc_contract_version (update (stamped c status reason now)) = rc_contract_version c \<and> admissible (update (stamped c status reason now))"
    and result: "mutate sha256 iso_text db now i org asset_id expected status reason update st = (Inr r', st')"
  shows "\<exists>c. c \<in> set (stored_records st) \<and> rc_id c = i \<and> rc_organization_id c = org \<and> rc_updated_at c = expected \<and>
    r' = update (stamped c status reason now) \<and> recurrence_valid db r' \<and> set (stored_records st') = insert r' (others i st) \<and>
    store_inv sha256 iso_text db st'"
proof -
  obtain c where c: "read_record db org i st = Inr c" "rc_updated_at c = expected"
    and valid: "recurrence_valid db (update (stamped c status reason now))"
    and eq: "write_and_sync sha256 iso_text db (update (stamped c status reason now)) (update (stamped c status reason now)) st = (Inr r', st')"
    using result unfolding mutate_def stamped_def by (auto simp: Let_def res_simps split: sum.splits if_splits)
  note c' = read_record_stored [OF c(1)]
  let ?r = "update (stamped c status reason now)"
  have r: "rc_id ?r = i" "rc_organization_id ?r = org" "writable db ?r"
    using upd [OF c'(1-3) c(2)] valid c'(4) by (auto simp: writable_def)
  have "own_id st ?r" using inv c'(5) r by (intro own_id_stored) (auto simp: store_inv_def)
  then show ?thesis using write_and_sync_keeps [OF inv r(3), of ?r] eq c' c(2) valid r(1) by auto
qed

lemma mutate_stale:
  assumes "files_ok db st" "c \<in> set (stored_records st)" "rc_updated_at c \<noteq> expected"
  shows "\<exists>e. mutate sha256 iso_text db now (rc_id c) (rc_organization_id c) asset_id expected status reason update st = (Inl e, st)"
  using stored_record_read(1) [OF assms(1,2)] assms(3) by (auto simp: mutate_def Let_def validate_recurrence_scope_def)

lemma next_window_time_ge: "next_window_time sha256 db candidate i tz wd h n = Inr t \<Longrightarrow> candidate \<le> t"
  by (auto simp: next_window_time_def res_simps simp del: upt.simps dest!: window_search_Inr)

lemma next_run_ge: "next_run sha256 db observed interval i tz wd h n = Inr t \<Longrightarrow> observed + days interval + secs 1 \<le> t"
  by (auto simp: next_run_def res_simps secs_def dest!: next_window_time_ge jitter_range)

lemma known_mutate_result:
  assumes inv: "store_inv sha256 iso_text db st" and known: "version_known st r"
    and result: "mutate sha256 iso_text db now (rc_id r) (rc_organization_id r) (rc_asset_id r) (rc_updated_at r) status reason update st = (Inr r', st')"
    and upd: "rc_id (update (stamped r status reason now)) = rc_id r \<and> rc_organization_id (update (stamped r status reason now)) = rc_organization_id r \<and>
      rc_contract_version (update (stamped r status reason now)) = rc_contract_version r \<and> (admissible r \<longrightarrow> admissible (update (stamped r status reason now)))"
  shows "r' = update (stamped r status reason now)" "recurrence_valid db r'" "set (stored_records st') = insert r' (others (rc_id r) st)"
    "store_inv sha256 iso_text db st'"
proof -
  have one: "c = r \<and> admissible r" if "c \<in> set (stored_records st)" "rc_id c = rc_id r" "rc_organization_id c = rc_organization_id r"
    "rc_updated_at c = rc_updated_at r" for c using version_known_current [OF known inv that] by simp
  from mutate_result [OF inv _ result] upd one obtain c where c: "c \<in> set (stored_records st)" "rc_id c = rc_id r"
    "rc_organization_id c = rc_organization_id r" "rc_updated_at c = rc_updated_at r" "r' = update (stamped c status reason now)"
    and rest: "recurrence_valid db r'" "set (stored_records st') = insert r' (others (rc_id r) st)" "store_inv sha256 iso_text db st'" by metis
  show "r' = update (stamped r status reason now)" using one [OF c(1-4)] c(5) by simp
  show "recurrence_valid db r'" "set (stored_records st') = insert r' (others (rc_id r) st)" "store_inv sha256 iso_text db st'" by fact+
qed

lemma dispatch_result:
  assumes inv: "store_inv sha256 iso_text db st" and known: "version_known st r"
    and result: "record_dispatch sha256 iso_text db observed now r job_id st = (Inr r', st')"
  shows "\<exists>t. following_run sha256 db observed r = Inr t \<and> set (stored_records st') = insert r' (others (rc_id r) st) \<and>
    store_inv sha256 iso_text db st' \<and>
    r' = (stamped r (if ended_by (rc_auth_expires r) t then Suspended else Active)
        (if ended_by (rc_auth_expires r) t then AuthorizationUnavailable else Scheduled) now)
      \<lparr>rc_last_scheduled_at := Some (rc_next_run_at r), rc_last_job_id := Some job_id, rc_failure_count := 0,
       rc_next_retry_at := None, rc_last_attempt_at := Some observed, rc_last_outcome := OutcomeScheduled, rc_next_run_at := t\<rparr>"
proof -
  obtain t where t: "following_run sha256 db observed r = Inr t" using result by (cases "following_run sha256 db observed r") (auto simp: record_dispatch_def)
  let ?status = "if ended_by (rc_auth_expires r) t then Suspended else Active"
  let ?reason = "if ended_by (rc_auth_expires r) t then AuthorizationUnavailable else Scheduled"
  let ?update = "\<lambda>c. c\<lparr>rc_last_scheduled_at := Some (rc_next_run_at r), rc_last_job_id := Some job_id, rc_failure_count := 0,
    rc_next_retry_at := None, rc_last_attempt_at := Some observed, rc_last_outcome := OutcomeScheduled, rc_next_run_at := t\<rparr>"
  have "mutate sha256 iso_text db now (rc_id r) (rc_organization_id r) (rc_asset_id r) (rc_updated_at r) ?status ?reason ?update st = (Inr r', st')"
    using result by (simp only: record_dispatch_def t sum.case)
  note changed = known_mutate_result [OF inv known this]
  show ?thesis using t
    by (intro exI [of _ t] conjI changed) (use version_known_current [OF known inv] known in
      \<open>auto simp: stamped_def admissible_def ended_by_def version_known_def split: option.splits\<close>)
qed

lemma failure_result:
  assumes inv: "store_inv sha256 iso_text db st" and known: "version_known st r"
    and result: "record_failure_outcome sha256 iso_text db observed now r outcome st = (Inr r', st')"
  shows "\<exists>t. retry_at sha256 db observed r = Inr t \<and> set (stored_records st') = insert r' (others (rc_id r) st) \<and>
    store_inv sha256 iso_text db st' \<and> recurrence_valid db r' \<and>
    r' = (stamped r (if ended_by (rc_auth_expires r) t then Suspended else Active)
        (if ended_by (rc_auth_expires r) t then AuthorizationUnavailable else Scheduled) now)
      \<lparr>rc_failure_count := next_failure_count r, rc_next_retry_at := (if ended_by (rc_auth_expires r) t then None else Some t),
       rc_last_attempt_at := Some observed, rc_last_outcome := outcome\<rparr>"
proof -
  obtain t where t: "retry_at sha256 db observed r = Inr t" using result by (cases "retry_at sha256 db observed r") (auto simp: record_failure_outcome_def)
  let ?status = "if ended_by (rc_auth_expires r) t then Suspended else Active"
  let ?reason = "if ended_by (rc_auth_expires r) t then AuthorizationUnavailable else Scheduled"
  let ?update = "\<lambda>c. c\<lparr>rc_failure_count := next_failure_count r, rc_next_retry_at := (if ended_by (rc_auth_expires r) t then None else Some t),
    rc_last_attempt_at := Some observed, rc_last_outcome := outcome\<rparr>"
  have "mutate sha256 iso_text db now (rc_id r) (rc_organization_id r) (rc_asset_id r) (rc_updated_at r) ?status ?reason ?update st = (Inr r', st')"
    using result by (simp only: record_failure_outcome_def t sum.case)
  note changed = known_mutate_result [OF inv known this]
  show ?thesis using t
    by (intro exI [of _ t] conjI changed) (use version_known_current [OF known inv] known in
      \<open>auto simp: stamped_def admissible_def ended_by_def version_known_def split: option.splits\<close>)
qed


text \<open>
  C28. A schedule runs at most once per interval. When a dispatch of an active record is recorded, the next run is at least the
  interval and one second after the observation, the failures are cleared, only that record changes, and it stays
  active exactly when the authorization outlives the next run. A second dispatch (or one by another process) that
  still holds the old version is refused and changes nothing, provided the clock moved between the two versions.
\<close>

theorem dispatch_spaced_and_once:
  assumes "store_inv sha256 iso_text db st" "version_known st r" "now \<noteq> rc_updated_at r"
    and "record_dispatch sha256 iso_text db observed now r job_id st = (Inr r', st')"
  shows "observed + days (rc_interval_days r) + secs 1 \<le> rc_next_run_at r' \<and> rc_last_scheduled_at r' = Some (rc_next_run_at r) \<and>
    rc_failure_count r' = 0 \<and> rc_next_retry_at r' = None \<and>
    (rc_status r' = Active \<longleftrightarrow> \<not> ended_by (rc_auth_expires r) (rc_next_run_at r')) \<and>
    set (stored_records st') = insert r' (others (rc_id r) st) \<and>
    (\<forall>observed' now' job_id'. \<exists>e. record_dispatch sha256 iso_text db observed' now' r job_id' st' = (Inl e, st'))"
proof -
  obtain t where t: "following_run sha256 db observed r = Inr t" "set (stored_records st') = insert r' (others (rc_id r) st)"
    "store_inv sha256 iso_text db st'"
    and r': "r' = (stamped r (if ended_by (rc_auth_expires r) t then Suspended else Active)
        (if ended_by (rc_auth_expires r) t then AuthorizationUnavailable else Scheduled) now)
      \<lparr>rc_last_scheduled_at := Some (rc_next_run_at r), rc_last_job_id := Some job_id, rc_failure_count := 0,
       rc_next_retry_at := None, rc_last_attempt_at := Some observed, rc_last_outcome := OutcomeScheduled, rc_next_run_at := t\<rparr>"
    using dispatch_result [OF assms(1,2,4)] by blast
  have same: "rc_id r' = rc_id r" "rc_organization_id r' = rc_organization_id r" "rc_updated_at r' = now"
    by (simp_all add: r' stamped_def)
  have "\<exists>e. record_dispatch sha256 iso_text db observed' now' r job_id' st' = (Inl e, st')" for observed' now' job_id'
    using mutate_stale [of db st' r'] t(2,3) same assms(3) unfolding record_dispatch_def store_inv_def
    by (cases "following_run sha256 db observed' r") simp_all
  moreover have "observed + days (rc_interval_days r) + secs 1 \<le> t" using t(1) by (auto simp: following_run_def dest: next_run_ge)
  ultimately show ?thesis using t(2) by (simp add: r' stamped_def)
qed

lemma backoff_bounds: "1 \<le> n \<Longrightarrow> 300 \<le> backoff_seconds n \<and> backoff_seconds n \<le> 21600"
  using one_le_power [of "2 :: int" "nat (n - 1)"] by (simp add: backoff_seconds_def max_backoff_seconds_def)

lemma retry_at_ge:
  assumes "retry_at sha256 db observed r = Inr t"
  shows "observed + secs (backoff_seconds (next_failure_count r)) \<le> t" "1 \<le> next_failure_count r" "next_failure_count r \<le> 8"
proof -
  obtain j where j: "recurrence_retry_jitter_seconds sha256 (rc_id r) (next_failure_count r) = Inr j"
    "next_window_time sha256 db (observed + secs (backoff_seconds (next_failure_count r) + j)) (rc_id r)
       (rc_timezone_name r) (rc_weekdays r) (rc_start_hour r) (rc_duration_hours r) = Inr t"
    using assms by (auto simp: retry_at_def res_simps)
  show "observed + secs (backoff_seconds (next_failure_count r)) \<le> t"
    using next_window_time_ge [OF j(2)] retry_jitter_range [OF j(1)] by (simp add: secs_def)
  show "1 \<le> next_failure_count r" "next_failure_count r \<le> 8"
    using j(1) by (auto simp: recurrence_retry_jitter_seconds_def max_failures_kept_def split: if_splits)
qed

text \<open>
  A failed dispatch backs off. The count of failures grows by one up to eight, the planned run is kept, and as long as the
  schedule stays active it is not due before a retry time that lies at least the exponential delay (five minutes
  doubled with each failure, six hours at most) after the attempt and before the end of the authorization; when there
  is no such time the schedule is suspended.
\<close>

theorem failure_backs_off:
  assumes "store_inv sha256 iso_text db st" "version_known st r"
    and "record_failure_outcome sha256 iso_text db observed now r outcome st = (Inr r', st')"
  shows "rc_next_run_at r' = rc_next_run_at r \<and> rc_failure_count r' = min (rc_failure_count r + 1) 8 \<and> 1 \<le> rc_failure_count r' \<and>
    300 \<le> backoff_seconds (rc_failure_count r') \<and> backoff_seconds (rc_failure_count r') \<le> 21600 \<and>
    (if rc_status r' = Active
     then \<exists>t x. rc_next_retry_at r' = Some t \<and> observed + secs (backoff_seconds (rc_failure_count r')) \<le> t \<and>
       rc_auth_expires r' = Some x \<and> t < x \<and> (\<forall>u < t. \<not> record_due u r')
     else rc_status r' = Suspended \<and> rc_reason r' = AuthorizationUnavailable) \<and>
    set (stored_records st') = insert r' (others (rc_id r) st)"
proof -
  obtain t where t: "retry_at sha256 db observed r = Inr t" "set (stored_records st') = insert r' (others (rc_id r) st)"
    "store_inv sha256 iso_text db st'"
    and r': "r' = (stamped r (if ended_by (rc_auth_expires r) t then Suspended else Active)
        (if ended_by (rc_auth_expires r) t then AuthorizationUnavailable else Scheduled) now)
      \<lparr>rc_failure_count := next_failure_count r, rc_next_retry_at := (if ended_by (rc_auth_expires r) t then None else Some t),
       rc_last_attempt_at := Some observed, rc_last_outcome := outcome\<rparr>"
    using failure_result [OF assms] by blast
  note retry = retry_at_ge [OF t(1)]
  have "admissible r'" using t(2,3) by (simp add: store_inv_def list_all_iff)
  then have "rc_status r' = Active \<Longrightarrow> \<exists>x. rc_auth_expires r' = Some x \<and> t < x"
    by (auto simp: admissible_def r' stamped_def split: option.splits if_splits)
  moreover have count: "rc_failure_count r' = next_failure_count r" "rc_next_run_at r' = rc_next_run_at r"
    by (simp_all add: r' stamped_def)
  moreover have "rc_status r' = Active \<Longrightarrow> rc_next_retry_at r' = Some t"
    "rc_status r' \<noteq> Active \<Longrightarrow> rc_status r' = Suspended \<and> rc_reason r' = AuthorizationUnavailable"
    by (auto simp: r' stamped_def split: if_splits)
  moreover have "\<not> record_due u r'" if "rc_next_retry_at r' = Some t" "u < t" for u using that by (simp add: record_due_def)
  ultimately show ?thesis
    using t(2) retry backoff_bounds [OF retry(2)] by (auto simp: next_failure_count_def max_failures_kept_def)
qed


text \<open>
  C4. The projection never changes an answer: over readable files and a projection that is current or stale, absent,
  unopened or open, \<^verbatim>\<open>list_due\<close> returns exactly the first schedules, by due time and identifier, among the
  files' active schedules whose run and retry times have come and whose local window is open now. The paged query
  with its cursor ends and skips none.
\<close>

theorem list_due_reads_the_files:
  assumes "files_ok db st" "index_ok sha256 iso_text st" "1 \<le> limit" "limit \<le> 16"
  shows "\<exists>st'. list_due sha256 iso_text db now limit st =
      Inr (take limit (filter (window_open db now)
        (sort_key (\<lambda>r. (rc_next_run_at r, rc_id r)) (filter (record_due now) (stored_records st)))), st') \<and>
    rs_files st' = rs_files st \<and> index_ok sha256 iso_text st'"
proof -
  obtain st' where st': "ensure_current sha256 iso_text db st = Inr st'" "rs_files st' = rs_files st"
    "rows_match sha256 iso_text st'" "index_ok sha256 iso_text st'" by (rule ensure_current_ok [OF assms(1,2)])
  have ok: "files_ok db st'" using assms(1) st'(2) by (simp add: files_ok_def)
  have recs: "stored_records st' = stored_records st" using st'(2) by (simp add: stored_records_def)
  let ?rs = "sort_key (\<lambda>r. (rc_next_run_at r, rc_id r)) (filter (record_due now) (stored_records st))"
  have window: "recurrence_is_within_window db now r = Inr (window_open db now r)" if "r \<in> set ?rs" for r
    using stored_record_read(5) [OF assms(1), of r] that
    by (auto simp: window_open_def recurrence_is_within_window_def load_timezone_def split: option.splits)
  have "scan_rows (load_validated sha256 iso_text db st') (recurrence_is_within_window db now) limit (map (entry_of sha256 iso_text) ?rs) []
      = Inr ([] @ take (limit - length ([] :: recurrence list)) (filter (window_open db now) ?rs))"
    using load_validated_entry [OF ok] recs window assms(3) by (intro scan_rows_records) auto
  then have "due_loop (load_validated sha256 iso_text db st') (recurrence_is_within_window db now) now limit
      (ix_rows (rs_index st')) None [] = Inr (take limit (filter (window_open db now) ?rs))"
    using due_loop_scans [of "ix_rows (rs_index st')" "[]" limit] st'(3) assms(3) due_rows_records [OF st'(3) ok] recs
    by (simp add: rows_match_def)
  then show ?thesis
    using assms(3,4) st' by (simp add: list_due_def due_records_def as_store_error_def max_due_per_tick_def)
qed

subsection \<open>Creation\<close>

lemma same_creation_planned:
  assumes "planned_creation sha256 db now request org asset_id actor_id role auth = Inr r"
    "planned_creation sha256 db now' request org asset_id actor_id role auth = Inr r'"
  shows "same_creation r r'" "rc_id r = rc_id r'"
  using assms by (auto simp: planned_creation_def Let_def res_simps same_creation_def new_recurrence_def split: if_splits)

text \<open>
  Creation is idempotent and exclusive. A creation that stores a record adds exactly it, no other record of the
  organization watches the same asset with the same capability and port, and the first run lies beyond the interval and
  before the authorization ends. Repeating the request under the same key later returns the stored record as
  a repetition and changes nothing, as long as the request is still admissible then; a different request under the same key is a
  conflict.
\<close>

theorem create_idempotent:
  assumes "store_inv sha256 iso_text db st" "id_owned st org (recurrence_id sha256 org actor_id (cq_idempotency_key request))"
    and "recurrence_create sha256 iso_text db now pending request org asset_id actor_id role auth st = (Inr (r, False), st')"
  shows "set (stored_records st') = insert r (others (rc_id r) st) \<and> rc_id r \<notin> rc_id ` {q \<in> set (stored_records st). rc_organization_id q = org} \<and>
    (\<forall>q \<in> set (stored_records st). rc_organization_id q = org \<longrightarrow>
       \<not> (rc_asset_id q = asset_id \<and> rc_capability q = rc_capability r \<and> rc_port q = rc_port r)) \<and>
    now + days (rc_interval_days r) < rc_next_run_at r \<and> rc_next_run_at r < au_expires_at auth \<and>
    (\<forall>now' pending' r'. planned_creation sha256 db now' request org asset_id actor_id role auth = Inr r' \<longrightarrow>
       recurrence_create sha256 iso_text db now' pending' request org asset_id actor_id role auth st' = (Inr (r, True), st'))"
proof -
  obtain p where p: "planned_creation sha256 db now request org asset_id actor_id role auth = Inr p"
    using assms(3) by (cases "planned_creation sha256 db now request org asset_id actor_id role auth") (auto simp: recurrence_create_def)
  note pw = planned_creation_writable [OF p]
  have absent: "map_of (rs_files st) (org, rc_id p) = None"
    using assms(3) p by (auto simp: recurrence_create_def res_simps split: if_splits)
  obtain recs where recs: "load_organization db org st = Inr recs"
    "\<not> list_ex (\<lambda>x. rc_asset_id x = asset_id \<and> rc_capability x = rc_capability p \<and> rc_port x = rc_port p) recs"
    and wrote: "write_and_sync sha256 iso_text db p (p, False) st = (Inr (r, False), st')"
    using assms(3) p absent by (auto simp: recurrence_create_def split: sum.splits if_splits)
  have own: "own_id st p" using assms(2) pw(2,3) by (simp add: id_owned_def own_id_def)
  from write_and_sync_keeps [OF assms(1) pw(1) own, of "(p, False)"] wrote have r: "r = p"
    and st': "store_inv sha256 iso_text db st'" "set (stored_records st') = insert p (others (rc_id p) st)" by auto
  have files: "files_ok db st" "files_ok db st'" using assms(1) st'(1) by (simp_all add: store_inv_def)
  have mem: "q \<in> set recs" if "q \<in> set (stored_records st)" "rc_organization_id q = org" for q
  proof -
    note q = stored_record_read [OF files(1) that(1)]
    have "(org, rc_id q) \<in> set (filter (\<lambda>(owner, schedule_id). owner = org) (map fst (rs_files st)))"
      using read_record_stored(5) [OF q(1)] that(2) by simp
    from map_res_mem [OF recs(1) [unfolded load_organization_def] this] show ?thesis using q(1,2) that(2) by auto
  qed
  have fresh: "rc_id p \<noteq> rc_id q" if "q \<in> set (stored_records st)" "rc_organization_id q = org" for q
    using read_record_stored(5) [OF stored_record_read(1) [OF files(1) that(1)]] absent that(2) unfolding map_of_eq_None_iff by metis
  have "recurrence_create sha256 iso_text db now' pending' request org asset_id actor_id role auth st' = (Inr (r, True), st')"
    if again: "planned_creation sha256 db now' request org asset_id actor_id role auth = Inr r'" for now' pending' r'
  proof -
    note same = same_creation_planned [OF p again]
    have read: "read_record db org (rc_id p) st' = Inr p" using stored_record_read(1) [OF files(2), of p] st'(2) pw(2) by simp
    then have "map_of (rs_files st') (org, rc_id p) \<noteq> None" by (auto simp: read_record_def split: option.splits)
    then show ?thesis using again same read r by (simp add: recurrence_create_def)
  qed
  moreover have "now + days (rc_interval_days p) < rc_next_run_at p" using next_run_ge [OF pw(5)] by (simp add: secs_def)
  moreover have "rc_next_run_at p < au_expires_at auth"
    using p by (auto simp: planned_creation_def Let_def res_simps new_recurrence_def split: if_splits)
  ultimately show ?thesis using r st'(2) recs(2) mem fresh by (fastforce simp: list_ex_iff)
qed

subsection \<open>Examples\<close>

definition schedule_sha :: "string \<Rightarrow> string" where
  "schedule_sha x = replicate 64 CHR ''a''"

definition schedule_iso :: "instant \<Rightarrow> string" where
  "schedule_iso t = show_int t"

definition example_schedule :: recurrence where
  "example_schedule =
     \<lparr>rc_contract_version = recurrence_contract_version, rc_id = replicate 32 CHR ''a'', rc_organization_id = replicate 32 CHR ''1'',
      rc_asset_id = replicate 32 CHR ''2'', rc_capability = ActiveTlsBasic, rc_port = Some 443, rc_interval_days = 7,
      rc_timezone_name = ''UTC'', rc_weekdays = [Monday], rc_start_hour = 9, rc_duration_hours = 2,
      rc_auth_id = replicate 32 CHR ''3'', rc_auth_digest = replicate 64 CHR ''4'', rc_auth_sequence = 1, rc_auth_expires = Some (days 60),
      rc_verification_id = replicate 32 CHR ''5'', rc_status = Active, rc_reason = Scheduled, rc_next_run_at = days 4 + hours 9,
      rc_last_scheduled_at = None, rc_last_job_id = None, rc_failure_count = 0, rc_next_retry_at = None,
      rc_last_attempt_at = None, rc_last_outcome = NeverRun, rc_created_at = 0, rc_updated_at = 0,
      rc_actor_id = replicate 32 CHR ''6'', rc_actor_role = Maintainer\<rparr>"

definition example_store :: recurrence_store where
  "example_store = empty_store\<lparr>rs_files := [((rc_organization_id example_schedule, rc_id example_schedule), RecurrenceFile example_schedule)], rs_revision := 1\<rparr>"


lemma example_hex:
  "is_hex_id 32 (replicate 32 CHR ''1'')" "is_hex_id 32 (replicate 32 CHR ''2'')" "is_hex_id 32 (replicate 32 CHR ''3'')"
  "is_hex_id 32 (replicate 32 CHR ''5'')" "is_hex_id 32 (replicate 32 CHR ''6'')" "is_hex_id 32 (replicate 32 CHR ''7'')"
  "is_hex_id 32 (replicate 32 CHR ''a'')" "is_hex_id 64 (replicate 64 CHR ''4'')"
  by code_simp+

lemma example_valid: "recurrence_valid example_zones example_schedule"
  using example_hex by (simp add: recurrence_valid_def example_schedule_def port_valid_def optional_id_def max_failures_kept_def
    window_fields_valid_def example_zones_def is_organization_id_def is_actor_id_def del: replicate.simps)

lemma example_inv: "store_inv sha256 iso_text example_zones example_store"
  using example_valid by (simp add: store_inv_def files_ok_def file_ok_def example_store_def empty_store_def stored_records_def
    migrate_def admissible_def Let_def) (simp add: example_schedule_def days_def hours_def secs_def)

lemma example_known: "version_known example_store example_schedule"
  by (simp add: version_known_def example_store_def empty_store_def stored_records_def migrate_def Let_def)
    (simp add: example_schedule_def)

lemma next_window_time_now:
  assumes "db tz = Some zone" "window_bounds (local_day zone t) zone wd h n = Some (s, e)" "s \<le> t" "t < e"
  shows "next_window_time sha256 db t i tz wd h n = Inr t"
  using assms by (simp add: next_window_time_def load_timezone_def upt_conv_Cons del: upt.simps)

lemma example_window:
  assumes "days 11 + hours 10 \<le> t \<and> t < days 11 + hours 11 \<or> days 4 + hours 10 \<le> t \<and> t < days 4 + hours 11"
  shows "next_window_time sha256 example_zones t i ''UTC'' [Monday] 9 2 = Inr t"
proof -
  obtain d where d: "d \<in> {4, 11}" "days d + hours 10 \<le> t" "t < days d + hours 11" using assms by blast
  have "t div days 1 = d" by (rule int_div_pos_eq [of _ _ _ "t - days d"]) (use d(2,3) in \<open>simp_all add: duration_defs\<close>)
  then have "local_day (fixed_zone 0) t = d" by (simp add: local_day_def fixed_zone_def)
  moreover have "weekday_of d = Monday" using d(1) by (auto simp: weekday_of_def weekdays_def)
  ultimately show ?thesis using d(2,3)
    by (intro next_window_time_now [of example_zones "''UTC''" "fixed_zone 0" t "[Monday]" 9 2 "days d + hours 9 - 0" "days d + hours 9 + hours 2 - 0"])
      (simp_all add: example_zones_def fixed_zone_bounds duration_defs)
qed

lemma example_next: "\<exists>t. following_run schedule_sha example_zones (days 4 + hours 10) example_schedule = Inr t \<and> t < days 12"
proof -
  obtain j where j: "recurrence_jitter_seconds schedule_sha (rc_id example_schedule) = Inr j" "1 \<le> j" "j \<le> 900"
    using jitter_defined [OF example_hex(7), of schedule_sha] jitter_range [of schedule_sha "rc_id example_schedule"]
    by (auto simp: example_schedule_def simp del: replicate.simps)
  then have "next_window_time schedule_sha example_zones (days 4 + hours 10 + days 7 + secs j) (rc_id example_schedule) ''UTC'' [Monday] 9 2
      = Inr (days 4 + hours 10 + days 7 + secs j)" by (intro example_window) (simp add: duration_defs)
  then show ?thesis using j by (simp add: following_run_def next_run_def) (simp add: example_schedule_def duration_defs)
qed

lemma mutate_succeeds:
  assumes "files_ok db st" "r \<in> set (stored_records st)" "recurrence_valid db (update (stamped r status reason now))"
    "store_inv sha256 iso_text db st" "writable db (update (stamped r status reason now))" "own_id st (update (stamped r status reason now))"
  shows "\<exists>st'. mutate sha256 iso_text db now (rc_id r) (rc_organization_id r) (rc_asset_id r) (rc_updated_at r) status reason update st
    = (Inr (update (stamped r status reason now)), st')"
proof -
  note s = stored_record_read [OF assms(1,2)]
  obtain st' where "write_and_sync sha256 iso_text db (update (stamped r status reason now)) (update (stamped r status reason now)) st
    = (Inr (update (stamped r status reason now)), st')" using write_and_sync_keeps [OF assms(4-6)] by metis
  then show ?thesis using s(1-4) assms(3) by (simp add: mutate_def validate_recurrence_scope_def Let_def stamped_def)
qed


lemma example_stored: "stored_records example_store = [example_schedule]"
  by (simp add: example_store_def empty_store_def stored_records_def migrate_def Let_def) (simp add: example_schedule_def)

lemma example_change:
  assumes "recurrence_valid example_zones (update (stamped example_schedule status reason now))"
    "rc_contract_version (update (stamped example_schedule status reason now)) = recurrence_contract_version"
    "admissible (update (stamped example_schedule status reason now))"
    "rc_id (update (stamped example_schedule status reason now)) = rc_id example_schedule"
    "rc_organization_id (update (stamped example_schedule status reason now)) = rc_organization_id example_schedule"
  shows "\<exists>r' st'. mutate sha256 iso_text example_zones now (rc_id example_schedule) (rc_organization_id example_schedule) (rc_asset_id example_schedule)
      (rc_updated_at example_schedule) status reason update example_store = (Inr r', st')"
proof (rule exI, rule mutate_succeeds)
  show "files_ok example_zones example_store" using example_inv by (simp add: store_inv_def)
  show "own_id example_store (update (stamped example_schedule status reason now))"
    using assms(4,5) by (simp add: own_id_def example_store_def)
qed (use assms in \<open>simp_all add: example_inv example_stored writable_def\<close>)

lemma dispatch_spaced_and_once_witness:
  "\<exists>r' st'. record_dispatch schedule_sha schedule_iso example_zones (days 4 + hours 10) 1 example_schedule (replicate 32 CHR ''7'') example_store
      = (Inr r', st') \<and> days 11 \<le> rc_next_run_at r' \<and>
    (\<forall>observed' now' job_id'. \<exists>e. record_dispatch schedule_sha schedule_iso example_zones observed' now' example_schedule job_id' st' = (Inl e, st'))"
proof -
  obtain t where t: "following_run schedule_sha example_zones (days 4 + hours 10) example_schedule = Inr t" "t < days 12" using example_next by blast
  then have live: "\<not> ended_by (rc_auth_expires example_schedule) t" by (simp add: ended_by_def example_schedule_def duration_defs)
  have "\<exists>r' st'. record_dispatch schedule_sha schedule_iso example_zones (days 4 + hours 10) 1 example_schedule (replicate 32 CHR ''7'') example_store = (Inr r', st')"
    unfolding record_dispatch_def t(1) sum.case using live t(2) example_valid example_hex(6)
    by (simp only: if_False, intro example_change)
      (simp_all add: recurrence_valid_def stamped_def optional_id_def admissible_def max_failures_kept_def, simp_all add: example_schedule_def duration_defs)
  then obtain r' st' where r: "record_dispatch schedule_sha schedule_iso example_zones (days 4 + hours 10) 1 example_schedule (replicate 32 CHR ''7'') example_store
      = (Inr r', st')" by blast
  have "1 \<noteq> rc_updated_at example_schedule" by (simp add: example_schedule_def)
  from dispatch_spaced_and_once [OF example_inv example_known this r] r show ?thesis
    by (intro exI [of _ r'] exI [of _ st']) (simp add: example_schedule_def duration_defs)
qed


lemma failure_backs_off_witness:
  "\<exists>r' st' t. record_failure_outcome schedule_sha schedule_iso example_zones (days 4 + hours 10) 1 example_schedule RunnerUnavailable example_store
      = (Inr r', st') \<and> rc_failure_count r' = 1 \<and> rc_next_retry_at r' = Some t \<and> days 4 + hours 10 + secs 300 \<le> t \<and> t < days 60"
proof -
  obtain j where j: "recurrence_retry_jitter_seconds schedule_sha (rc_id example_schedule) (next_failure_count example_schedule) = Inr j" "0 \<le> j" "j \<le> 60"
  proof -
    have "\<exists>j. recurrence_retry_jitter_seconds schedule_sha (rc_id example_schedule) (next_failure_count example_schedule) = Inr j"
      using example_hex(7) by (simp add: recurrence_retry_jitter_seconds_def next_failure_count_def max_failures_kept_def example_schedule_def)
    then show thesis using that retry_jitter_range [of schedule_sha "rc_id example_schedule" "next_failure_count example_schedule"] by auto
  qed
  let ?t = "days 4 + hours 10 + secs (300 + j)"
  have "next_window_time schedule_sha example_zones ?t (rc_id example_schedule) ''UTC'' [Monday] 9 2 = Inr ?t"
    using j by (intro example_window) (simp add: duration_defs)
  moreover have "backoff_seconds (next_failure_count example_schedule) = 300"
    by (simp add: backoff_seconds_def next_failure_count_def example_schedule_def max_failures_kept_def max_backoff_seconds_def)
  ultimately have t: "retry_at schedule_sha example_zones (days 4 + hours 10) example_schedule = Inr ?t"
    using j(1) by (simp add: retry_at_def) (simp add: example_schedule_def)
  then have live: "\<not> ended_by (rc_auth_expires example_schedule) ?t" using j by (simp add: ended_by_def example_schedule_def duration_defs)
  have "\<exists>r' st'. record_failure_outcome schedule_sha schedule_iso example_zones (days 4 + hours 10) 1 example_schedule RunnerUnavailable example_store = (Inr r', st')"
    unfolding record_failure_outcome_def t sum.case using live j example_valid
    by (simp only: if_False, intro example_change)
      (simp_all add: recurrence_valid_def stamped_def admissible_def next_failure_count_def max_failures_kept_def,
       simp_all add: example_schedule_def duration_defs)
  then obtain r' st' where r: "record_failure_outcome schedule_sha schedule_iso example_zones (days 4 + hours 10) 1 example_schedule RunnerUnavailable example_store
      = (Inr r', st')" by blast
  obtain u where u: "r' = (stamped example_schedule (if ended_by (rc_auth_expires example_schedule) u then Suspended else Active)
        (if ended_by (rc_auth_expires example_schedule) u then AuthorizationUnavailable else Scheduled) 1)
      \<lparr>rc_failure_count := next_failure_count example_schedule,
       rc_next_retry_at := (if ended_by (rc_auth_expires example_schedule) u then None else Some u),
       rc_last_attempt_at := Some (days 4 + hours 10), rc_last_outcome := RunnerUnavailable\<rparr>" "u = ?t"
    using failure_result [OF example_inv example_known r] t by auto
  have "rc_status r' = Active" "rc_auth_expires r' = Some (days 60)" "rc_failure_count r' = 1"
    using live u by (simp_all add: stamped_def) (simp_all add: example_schedule_def next_failure_count_def max_failures_kept_def)
  then show ?thesis using failure_backs_off [OF example_inv example_known r] r
    by (auto simp: backoff_seconds_def max_backoff_seconds_def)
qed

lemma list_due_reads_the_files_witness:
  "\<exists>st'. list_due schedule_sha schedule_iso example_zones (days 4 + hours 10) 16 example_store = Inr ([example_schedule], st')"
proof -
  have "files_ok example_zones example_store" "index_ok schedule_sha schedule_iso example_store"
    using example_inv by (auto simp: store_inv_def index_fresh_def)
  note due = list_due_reads_the_files [OF this, of 16 "days 4 + hours 10"]
  have "record_due (days 4 + hours 10) example_schedule" by (simp add: record_due_def example_schedule_def duration_defs)
  moreover have "window_open example_zones (days 4 + hours 10) example_schedule"
    by (simp add: window_open_def recurrence_is_within_window_def load_timezone_def example_schedule_def example_zones_def
      local_day_def fixed_zone_def window_bounds_def valid_local_instants_def duration_defs weekday_of_def weekdays_def Let_def)
  ultimately show ?thesis using due by (auto simp: example_stored)
qed


definition schedule_request :: create_request where
  "schedule_request = \<lparr>cq_capability = ActiveTlsBasic, cq_port = Some 443, cq_interval_days = 7, cq_timezone_name = ''UTC'',
     cq_weekdays = [Monday], cq_start_hour = 9, cq_duration_hours = 2, cq_idempotency_key = replicate 32 CHR ''7''\<rparr>"

definition example_auth :: authorization where
  "example_auth = \<lparr>au_revision_id = replicate 32 CHR ''3'', au_revision_digest = replicate 64 CHR ''4'', au_revision_sequence = 1,
     au_expires_at = days 60, au_verification_id = replicate 32 CHR ''5''\<rparr>"

definition example_created :: "(recurrence_error + recurrence \<times> bool) \<times> recurrence_store" where
  "example_created = recurrence_create schedule_sha schedule_iso example_zones (days 4 + hours 10) False schedule_request
     (replicate 32 CHR ''1'') (replicate 32 CHR ''2'') (replicate 32 CHR ''6'') Maintainer example_auth empty_store"

lemma example_plan:
  "\<exists>r. planned_creation schedule_sha example_zones (days 4 + hours 10) schedule_request
     (replicate 32 CHR ''1'') (replicate 32 CHR ''2'') (replicate 32 CHR ''6'') Maintainer example_auth = Inr r"
proof -
  obtain t where t: "following_run schedule_sha example_zones (days 4 + hours 10) example_schedule = Inr t" "t < days 12" using example_next by blast
  have zone: "zone_name_valid ''UTC''" by code_simp
  have request: "validate_request example_zones schedule_request = Inr schedule_request"
    using example_hex zone by (simp add: validate_request_def schedule_request_def port_valid_def window_fields_valid_def example_zones_def del: replicate.simps)
  have id: "recurrence_id schedule_sha (replicate 32 CHR ''1'') (replicate 32 CHR ''6'') (cq_idempotency_key schedule_request) = rc_id example_schedule"
    by (simp add: recurrence_id_def schedule_sha_def example_schedule_def)
  have run: "next_run schedule_sha example_zones (days 4 + hours 10) (cq_interval_days schedule_request) (rc_id example_schedule) (cq_timezone_name schedule_request)
      (cq_weekdays schedule_request) (cq_start_hour schedule_request) (cq_duration_hours schedule_request) = Inr t"
    using t(1) by (simp add: following_run_def schedule_request_def) (simp add: example_schedule_def)
  have "recurrence_valid example_zones (new_recurrence schedule_request (replicate 32 CHR ''1'') (replicate 32 CHR ''2'') (replicate 32 CHR ''6'')
      Maintainer example_auth (rc_id example_schedule) (days 4 + hours 10) t)"
    using example_valid by (simp add: recurrence_valid_def new_recurrence_def schedule_request_def example_auth_def) (simp add: example_schedule_def)
  moreover have "\<not> au_expires_at example_auth \<le> t" using t(2) by (simp add: example_auth_def duration_defs)
  ultimately show ?thesis
    using example_hex by (simp add: planned_creation_def request id run Let_def validate_recurrence_scope_def is_organization_id_def is_actor_id_def)
qed

lemma example_created_new: "\<exists>r st'. example_created = (Inr (r, False), st') \<and> r \<in> set (stored_records st') \<and> rc_status r = Active"
proof -
  obtain r where p: "planned_creation schedule_sha example_zones (days 4 + hours 10) schedule_request
     (replicate 32 CHR ''1'') (replicate 32 CHR ''2'') (replicate 32 CHR ''6'') Maintainer example_auth = Inr r" using example_plan by blast
  have "own_id empty_store r" by (simp add: own_id_def empty_store_def)
  from write_and_sync_keeps [OF empty_store_inv planned_creation_writable(1) [OF p] this, of schedule_sha schedule_iso "(r, False)"]
  show ?thesis using p planned_creation_writable(4) [OF p]
    by (auto simp: example_created_def recurrence_create_def load_organization_def empty_store_def max_per_organization_def)
qed

lemma create_idempotent_witness:
  "\<exists>r st'. example_created = (Inr (r, False), st') \<and>
     recurrence_create schedule_sha schedule_iso example_zones (days 4 + hours 10) True schedule_request
       (replicate 32 CHR ''1'') (replicate 32 CHR ''2'') (replicate 32 CHR ''6'') Maintainer example_auth st' = (Inr (r, True), st')"
proof -
  obtain r st' where r: "example_created = (Inr (r, False), st')" using example_created_new by blast
  have "id_owned empty_store org i" for org i by (simp add: id_owned_def empty_store_def)
  from create_idempotent [OF empty_store_inv this r [unfolded example_created_def]] example_plan r show ?thesis by blast
qed

lemma reachable_store_invariant_witness:
  "\<exists>st r x. (recurrence_step schedule_sha schedule_iso example_zones)\<^sup>*\<^sup>* empty_store st \<and> r \<in> set (stored_records st) \<and> rc_status r = Active \<and>
     rc_auth_expires r = Some x \<and> rc_next_run_at r < x"
proof -
  obtain r st where r: "example_created = (Inr (r, False), st)" "r \<in> set (stored_records st)" "rc_status r = Active"
    using example_created_new by blast
  have "id_owned empty_store org i" for org i by (simp add: id_owned_def empty_store_def)
  then have "recurrence_step schedule_sha schedule_iso example_zones empty_store (snd example_created)"
    unfolding example_created_def by (rule recurrence_step.created)
  then have reach: "(recurrence_step schedule_sha schedule_iso example_zones)\<^sup>*\<^sup>* empty_store st" unfolding r(1) snd_conv by (rule r_into_rtranclp)
  show ?thesis using reachable_store_invariant [OF reach] reach r(2,3) by blast
qed


end
