(* ===== verification/Json_Unique.thy ===== *)
theory Json_Unique
  imports Json_Text
begin

section \<open>The JSON text determines the document\<close>

text \<open>
  Digests are taken of compact JSON texts. A text determines its document up to the order in which the members
  of its objects are listed, which \<^verbatim>\<open>sort_keys=True\<close> forgets.
\<close>

subsection \<open>Strings and numbers are self-delimiting\<close>

lemma hex_digit_inject:
  assumes "n < 16" "m < 16" "hex_digit n = hex_digit m"
  shows "n = m"
proof -
  have val: "of_char (hex_digit k) = (if k < 10 then 48 + k else 87 + k)" if "k < 16" for k :: nat
    using that by (simp add: hex_digit_def)
  have "(if n < 10 then 48 + n else 87 + n) = (if m < 10 then 48 + m else 87 + m)"
    using val [OF assms(1)] val [OF assms(2)] assms(3) by simp
  then show ?thesis by (auto split: if_splits)
qed

lemma code_inject: "code c = code d \<Longrightarrow> c = d"
  by (simp add: code_def)

lemma escape_unicode_inject:
  assumes "hex_digit (code c div 16) = hex_digit (code d div 16)" "hex_digit (code c mod 16) = hex_digit (code d mod 16)"
  shows "c = d"
proof -
  have "code c div 16 < 16" "code d div 16 < 16" by (rule less_mult_imp_div_less, simp)+
  then have "code c div 16 = code d div 16" "code c mod 16 = code d mod 16"
    using assms by (simp_all add: hex_digit_inject)
  then show ?thesis by (metis code_inject div_mult_mod_eq)
qed

text \<open>The control characters with a letter of their own, and the letters.\<close>

definition short_escapes :: "(char \<times> char) list" where
  "short_escapes = [(CHR 0x22, CHR 0x22), (CHR 0x5C, CHR 0x5C), (CHR 0x0A, CHR ''n''), (CHR 0x0D, CHR ''r''),
     (CHR 0x09, CHR ''t''), (CHR 0x0C, CHR ''f''), (CHR 0x08, CHR ''b'')]"

lemma escape_char_cases:
  obtains (plain) "escape_char c = [c]" "c \<noteq> CHR 0x22" "c \<noteq> CHR 0x5C"
    | (short) l where "escape_char c = [CHR 0x5C, l]" "(c, l) \<in> set short_escapes"
    | (unicode) "escape_char c = [CHR 0x5C, CHR ''u'', CHR ''0'', CHR ''0'', hex_digit (code c div 16), hex_digit (code c mod 16)]"
  by (cases "map_of short_escapes c"; cases "32 \<le> code c \<and> code c \<le> 126")
    (auto simp: escape_char_def short_escapes_def split: if_splits)

lemma short_escapes_inject: "(c, l) \<in> set short_escapes \<Longrightarrow> (d, l) \<in> set short_escapes \<Longrightarrow> c = d"
  and short_escapes_letter: "(c, l) \<in> set short_escapes \<Longrightarrow> l \<noteq> CHR ''u''"
  by (auto simp: short_escapes_def)

lemma escape_char_prefix:
  assumes "escape_char c @ r = escape_char d @ r'"
  shows "c = d \<and> r = r'"
  using assms short_escapes_inject short_escapes_letter
  by (cases c rule: escape_char_cases; cases d rule: escape_char_cases) (auto dest: escape_unicode_inject)

lemma escape_char_not_quote: "escape_char c @ r \<noteq> CHR 0x22 # r'"
  by (cases c rule: escape_char_cases) auto

lemma quoted_prefix:
  assumes "quoted s @ r = quoted s' @ r'"
  shows "s = s' \<and> r = r'"
proof -
  have "concat (map escape_char s) @ CHR 0x22 # r = concat (map escape_char s') @ CHR 0x22 # r' \<Longrightarrow> s = s' \<and> r = r'"
  proof (induction s arbitrary: s')
    case Nil
    then show ?case by (cases s') (auto simp: escape_char_not_quote dest: sym)
  next
    case (Cons c s)
    show ?case
    proof (cases s')
      case Nil
      then show ?thesis using Cons.prems escape_char_not_quote [of c] by simp
    next
      case (Cons d t)
      then show ?thesis using Cons.prems Cons.IH [of t]
        escape_char_prefix [of c "concat (map escape_char s) @ CHR 0x22 # r" d "concat (map escape_char t) @ CHR 0x22 # r'"] by simp
    qed
  qed
  then show ?thesis using assms by (simp add: quoted_def)
qed

lemma takeWhile_digits: "\<forall>c \<in> set xs. is_digit c \<Longrightarrow> (r = [] \<or> \<not> is_digit (hd r)) \<Longrightarrow> takeWhile is_digit (xs @ r) = xs"
  by (induction xs) (auto simp: takeWhile_eq_Nil_iff)

lemma show_nat_prefix:
  assumes "show_nat n @ r = show_nat m @ r'" "r = [] \<or> \<not> is_digit (hd r)" "r' = [] \<or> \<not> is_digit (hd r')"
  shows "n = m \<and> r = r'"
proof -
  have "show_nat n = show_nat m"
    using takeWhile_digits [OF show_nat_digits assms(2), of n, unfolded assms(1)] takeWhile_digits [OF show_nat_digits assms(3), of m]
    by (rule trans [OF sym])
  then have "int m = int n" using digits_val_show_nat [of n] by (simp only: digits_val_show_nat)
  then show ?thesis using assms(1) by simp
qed

lemma show_nat_hd: "is_digit (hd (show_nat n))"
  using show_nat_digits [of n] show_nat_nonempty [of n] hd_in_set by blast

lemma show_int_prefix:
  assumes "show_int n @ r = show_int m @ r'" "r = [] \<or> \<not> is_digit (hd r)" "r' = [] \<or> \<not> is_digit (hd r')"
  shows "n = m \<and> r = r'"
proof -
  have "\<not> is_digit CHR ''-''" by code_simp
  then have no: "show_nat k @ s \<noteq> CHR ''-'' # s'" for k s s' using show_nat_hd [of k] by (cases "show_nat k") auto
  consider "n < 0" "m < 0" | "\<not> n < 0" "\<not> m < 0" | "n < 0 \<longleftrightarrow> \<not> m < 0" by blast
  then show ?thesis
  proof cases
    case 1
    then have "nat (- n) = nat (- m) \<and> r = r'" using assms(1) by (intro show_nat_prefix [OF _ assms(2,3)]) (simp add: show_int_def)
    then show ?thesis using 1 by auto
  next
    case 2
    then have "nat n = nat m \<and> r = r'" using assms(1) by (intro show_nat_prefix [OF _ assms(2,3)]) (simp add: show_int_def)
    then show ?thesis using 2 by auto
  next
    case 3
    then show ?thesis using assms(1) no no [symmetric] by (auto simp: show_int_def split: if_splits)
  qed
qed

subsection \<open>Documents\<close>

text \<open>The document with the members of every object sorted by key.\<close>

primrec canon :: "json \<Rightarrow> json" where
  "canon JNull = JNull"
| "canon (JBool b) = JBool b"
| "canon (JInt n) = JInt n"
| "canon (JStr s) = JStr s"
| "canon (JList xs) = JList (map canon xs)"
| "canon (JObj members) = JObj (sort_key fst (map (map_prod id canon) members))"

definition ends_value :: "string \<Rightarrow> bool" where
  "ends_value r \<longleftrightarrow> r = [] \<or> hd r \<in> {CHR '','', CHR '']'', CHR ''}''}"

lemma ends_value_not_digit: "ends_value r \<Longrightarrow> r = [] \<or> \<not> is_digit (hd r)"
proof -
  have "\<not> is_digit CHR '',''" "\<not> is_digit CHR '']''" "\<not> is_digit CHR ''}''" by code_simp+
  then show "ends_value r \<Longrightarrow> r = [] \<or> \<not> is_digit (hd r)" by (auto simp: ends_value_def)
qed

lemma ends_value_simps [simp]: "ends_value []" "ends_value (CHR '','' # r)" "ends_value (CHR '']'' # r)" "ends_value (CHR ''}'' # r)"
  by (simp_all add: ends_value_def)

text \<open>Sequences of texts that are each determined by what follows, separated by commas and closed by a bracket.\<close>

lemma joined_prefix:
  assumes item: "\<And>x y r r'. x \<in> set xs \<Longrightarrow> f x @ r = f y @ r' \<Longrightarrow> ends_value r \<Longrightarrow> ends_value r' \<Longrightarrow> g x = g y \<and> r = r'"
    and head: "\<And>x. f x \<noteq> [] \<and> hd (f x) \<noteq> close" and close: "close = CHR '']'' \<or> close = CHR ''}''"
    and eq: "py_join '','' (map f xs) @ close # r = py_join '','' (map f ys) @ close # r'"
  shows "map g xs = map g ys \<and> r = r'"
  using item eq
proof (induction xs arbitrary: ys)
  case Nil
  have "ys = []"
  proof (rule ccontr)
    assume "ys \<noteq> []"
    then obtain y zs where ys: "ys = y # zs" by (cases ys) auto
    have "hd (py_join '','' (map f ys) @ close # r') = hd (f y)" using head [of y] ys by (cases zs) auto
    then show False using Nil.prems(2) head [of y] by (metis append_Nil list.sel(1) list.simps(8) py_join.simps(1))
  qed
  then show ?case using Nil.prems(2) by simp
next
  case (Cons x xs)
  obtain y zs where ys: "ys = y # zs"
  proof (cases ys)
    case Nil
    have "hd (py_join '','' (map f (x # xs)) @ close # r) = hd (f x)" using head [of x] by (cases xs) auto
    then show thesis using Cons.prems(2) head [of x] Nil by simp
  qed blast
  let ?tail = "\<lambda>zs r. if zs = [] then close # r else CHR '','' # py_join '','' (map f zs) @ close # r"
  have join: "py_join '','' (map f (z # zs)) @ close # s = f z @ ?tail zs s" for z zs s by (cases zs) simp_all
  have ends: "ends_value (?tail zs s)" for zs s using close by auto
  have first: "g x = g y" "?tail xs r = ?tail zs r'"
    using Cons.prems(1) [of x "?tail xs r" y "?tail zs r'"] Cons.prems(2) ends unfolding ys join by auto
  have "map g xs = map g zs \<and> r = r'"
  proof (cases "xs = []")
    case True
    then show ?thesis using first(2) close by (cases "zs = []") auto
  next
    case False
    then have "zs \<noteq> []" using first(2) close by (auto split: if_splits)
    then have "py_join '','' (map f xs) @ close # r = py_join '','' (map f zs) @ close # r'" using first(2) False by simp
    then show ?thesis by (intro Cons.IH Cons.prems(1)) auto
  qed
  then show ?case using first(1) ys by simp
qed

lemma sort_key_map_snd: "sort_key fst (map (map_prod id f) xs) = map (map_prod id f) (sort_key fst xs)"
proof -
  have insort: "insort_key fst (k, f v) (map (map_prod id f) xs) = map (map_prod id f) (insort_key fst (k, v) xs)" for k v xs
    by (induction xs) auto
  show ?thesis
  proof (induction xs)
    case (Cons x xs)
    then show ?case using insort [of "fst x" "snd x", unfolded id_def] by (cases x) (simp add: id_def)
  qed simp
qed

lemma field_texts_map: "field_texts '':'' (map (map_prod id f) members) = map (\<lambda>(k, v). quoted k @ '':'' @ f v) (sort_key fst members)"
  by (simp add: field_texts_def sort_key_map_snd split_def comp_def)

lemma quoted_hd [simp]: "quoted s \<noteq> []" "hd (quoted s) = CHR 0x22" "hd (quoted s @ r) = CHR 0x22"
  by (simp_all add: quoted_def)


definition head_kind :: "string \<Rightarrow> char" where
  "head_kind s = (if is_digit (hd s) then CHR ''-'' else hd s)"

lemma show_int_head: "show_int n \<noteq> []" "head_kind (show_int n @ r) = CHR ''-''"
  using show_nat_hd [of "nat n"] show_nat_nonempty [of "nat n"]
  by (auto simp: show_int_def head_kind_def)

lemma dumps_head:
  "dumps_compact j \<noteq> []"
  "head_kind (dumps_compact j @ r) = (case j of JNull \<Rightarrow> CHR ''n'' | JBool b \<Rightarrow> (if b then CHR ''t'' else CHR ''f'') | JInt n \<Rightarrow> CHR ''-''
     | JStr s \<Rightarrow> CHR 0x22 | JList xs \<Rightarrow> CHR ''['' | JObj ms \<Rightarrow> CHR ''{'')"
proof -
  have digits: "\<not> is_digit CHR ''n''" "\<not> is_digit CHR ''t''" "\<not> is_digit CHR ''f''" "\<not> is_digit CHR 0x22" "\<not> is_digit CHR ''[''" "\<not> is_digit CHR ''{''"
    by code_simp+
  show "dumps_compact j \<noteq> []" by (cases j) (auto simp: dumps_compact_def show_int_head)
  show "head_kind (dumps_compact j @ r) = (case j of JNull \<Rightarrow> CHR ''n'' | JBool b \<Rightarrow> (if b then CHR ''t'' else CHR ''f'') | JInt n \<Rightarrow> CHR ''-''
     | JStr s \<Rightarrow> CHR 0x22 | JList xs \<Rightarrow> CHR ''['' | JObj ms \<Rightarrow> CHR ''{'')"
    using digits by (cases j) (auto simp: dumps_compact_def show_int_head(2), auto simp: head_kind_def)
qed

lemma dumps_not_closing: "hd (dumps_compact j) \<noteq> CHR '']''" "hd (dumps_compact j) \<noteq> CHR ''}''"
proof -
  have "\<not> is_digit CHR '']''" "\<not> is_digit CHR ''}''" by code_simp+
  then show "hd (dumps_compact j) \<noteq> CHR '']''" "hd (dumps_compact j) \<noteq> CHR ''}''"
    using dumps_head(2) [of j "[]"] by (auto simp: head_kind_def split: json.splits if_splits)
qed

theorem dumps_compact_prefix:
  assumes "dumps_compact j @ r = dumps_compact j' @ r'" "ends_value r" "ends_value r'"
  shows "canon j = canon j' \<and> r = r'"
  using assms
proof (induction j arbitrary: j' r r')
  case JNull
  then show ?case using dumps_head(2) [of JNull r] dumps_head(2) [of j' r'] by (cases j') (auto simp: dumps_compact_def split: if_splits)
next
  case (JBool b)
  then show ?case using dumps_head(2) [of "JBool b" r] dumps_head(2) [of j' r'] by (cases j') (auto simp: dumps_compact_def split: if_splits)
next
  case (JInt n)
  then obtain m where "j' = JInt m"
    using dumps_head(2) [of "JInt n" r] dumps_head(2) [of j' r'] by (cases j') (auto split: if_splits)
  then show ?case using JInt show_int_prefix [of n r m r'] ends_value_not_digit by (simp add: dumps_compact_def)
next
  case (JStr s)
  then obtain t where "j' = JStr t"
    using dumps_head(2) [of "JStr s" r] dumps_head(2) [of j' r'] by (cases j') (auto split: if_splits)
  then show ?case using JStr quoted_prefix [of s r t r'] by (simp add: dumps_compact_def)
next
  case (JList xs)
  then obtain ys where ys: "j' = JList ys"
    using dumps_head(2) [of "JList xs" r] dumps_head(2) [of j' r'] by (cases j') (auto split: if_splits)
  have "map canon xs = map canon ys \<and> r = r'"
  proof (rule joined_prefix [where f = dumps_compact and close = "CHR '']''"])
    show "py_join '','' (map dumps_compact xs) @ CHR '']'' # r = py_join '','' (map dumps_compact ys) @ CHR '']'' # r'"
      using JList.prems(1) ys by (simp add: dumps_compact_def)
  next
    fix x y s s'
    assume "x \<in> set xs" "dumps_compact x @ s = dumps_compact y @ s'" "ends_value s" "ends_value s'"
    then show "canon x = canon y \<and> s = s'" by (rule JList.IH)
  qed (simp_all add: dumps_head(1) dumps_not_closing)
  then show ?case using ys by simp
next
  case (JObj ms)
  then obtain ns where ns: "j' = JObj ns"
    using dumps_head(2) [of "JObj ms" r] dumps_head(2) [of j' r'] by (cases j') (auto split: if_splits)
  let ?f = "\<lambda>(k, v). quoted k @ '':'' @ dumps_compact v"
  have "map (map_prod id canon) (sort_key fst ms) = map (map_prod id canon) (sort_key fst ns) \<and> r = r'"
  proof (rule joined_prefix [where f = ?f and close = "CHR ''}''"])
    show "py_join '','' (map ?f (sort_key fst ms)) @ CHR ''}'' # r = py_join '','' (map ?f (sort_key fst ns)) @ CHR ''}'' # r'"
      using JObj.prems(1) ns by (simp add: dumps_compact_def field_texts_map)
  next
    fix x y s s'
    assume x: "x \<in> set (sort_key fst ms)" and eq: "?f x @ s = ?f y @ s'" and ends: "ends_value s" "ends_value s'"
    have "fst x = fst y \<and> '':'' @ dumps_compact (snd x) @ s = '':'' @ dumps_compact (snd y) @ s'"
      by (rule quoted_prefix) (use eq in \<open>simp add: split_def\<close>)
    moreover from this have "canon (snd x) = canon (snd y) \<and> s = s'"
      using x ends by (intro JObj.IH [of x]) (auto simp: snds.intros)
    ultimately show "map_prod id canon x = map_prod id canon y \<and> s = s'" by (cases x; cases y) simp
  qed (auto simp: split_def)
  then show ?case using ns by (simp add: sort_key_map_snd)
qed

lemma dumps_compact_inject: "dumps_compact j = dumps_compact j' \<Longrightarrow> canon j = canon j'"
  using dumps_compact_prefix [of j "[]" j' "[]"] by simp


end
