(* ===== verification/Product_Audit.thy ===== *)
theory Product_Audit
  imports Json_Unique File_Steps
begin

section \<open>The product audit log\<close>

text \<open>
  Model of \<^verbatim>\<open>backend/app/product_audit.py\<close>. Each organization has a directory with one file for each event and a
  directory \<^verbatim>\<open>.integrity\<close> with a hash chain over the events: numbered entries and a state file that names the
  anchor, the head and the number of retained events. Files are decoded contents or \<open>Unreadable\<close>, entry files are known
  by their number and other names in the directory of entries are \<open>it_strays\<close>. Operations run one file-system step at
  a time. The names \<open>ao_temps\<close> are temporary files of \<^verbatim>\<open>_atomic_write_json\<close> that nothing else looks at. The metadata
  hold strings, integers and booleans; no caller passes a float. SHA-256 (of the bytes, as hexadecimal digits) and the
  text of a time stamp are parameters; symbolic links and file modes are left out.
\<close>

subsection \<open>Events\<close>

datatype audit_error = AuditCapacityReached | InvalidPageSize | InvalidCursor | InvalidAction | InvalidExportRange | InvalidResource
  | AuditRecordInvalid | AuditStoreUnavailable | AuditIntegrityInvalid | InvalidOrganization | InvalidClock | EventValidationError

datatype metadata_value = MText string | MInt int | MBool bool

record audit_event =
  ae_id :: string
  ae_organization_id :: string
  ae_actor_id :: string
  ae_actor_role :: string
  ae_action :: string
  ae_resource_type :: string
  ae_resource_id :: string
  ae_result :: string
  ae_correlation_id :: string
  ae_occurred_at :: instant
  ae_metadata :: "(string \<times> metadata_value) list"

definition product_audit_contract_version :: string where
  "product_audit_contract_version = ''2026-09-06.1''"

definition integrity_contract_version :: string where
  "integrity_contract_version = ''2026-09-10.1''"

definition audit_page_limit :: int where
  "audit_page_limit = 100"

definition chain_zero :: string where
  "chain_zero = replicate 64 CHR ''0''"

definition action_char :: "char \<Rightarrow> bool" where
  "action_char c \<longleftrightarrow> is_lower c \<or> is_digit c \<or> c \<in> {CHR ''_'', CHR ''.'', CHR ''-''}"

definition is_action :: "string \<Rightarrow> bool" where
  "is_action s \<longleftrightarrow> 3 \<le> length s \<and> length s \<le> 96 \<and> is_lower (hd s) \<and> list_all action_char (tl s)"

definition is_resource_type :: "string \<Rightarrow> bool" where
  "is_resource_type s \<longleftrightarrow> 2 \<le> length s \<and> length s \<le> 48 \<and> is_lower (hd s) \<and>
     list_all (\<lambda>c. is_lower c \<or> is_digit c \<or> c \<in> {CHR ''_'', CHR ''-''}) (tl s)"

definition is_resource_id :: "string \<Rightarrow> bool" where
  "is_resource_id s \<longleftrightarrow> s = ''local-admin'' \<or> s = ''team-admin'' \<or> (32 \<le> length s \<and> length s \<le> 64 \<and> list_all is_hex s)"

definition word_char :: "char \<Rightarrow> bool" where
  "word_char c \<longleftrightarrow> is_ascii_alnum c \<or> c \<in> {CHR '':'', CHR ''.'', CHR ''_'', CHR ''-''}"

definition is_correlation :: "string \<Rightarrow> bool" where
  "is_correlation s \<longleftrightarrow> 1 \<le> length s \<and> length s \<le> 160 \<and> is_ascii_alnum (hd s) \<and> list_all word_char (tl s)"

definition event_valid :: "audit_event \<Rightarrow> bool" where
  "event_valid e \<longleftrightarrow>
     is_hex_id 32 (ae_id e) \<and> is_organization_id (ae_organization_id e) \<and> is_actor_id (ae_actor_id e) \<and>
     ae_actor_role e \<in> {''administrator'', ''maintainer'', ''reader''} \<and> is_action (ae_action e) \<and>
     is_resource_type (ae_resource_type e) \<and> is_resource_id (ae_resource_id e) \<and>
     ae_result e \<in> {''succeeded'', ''denied'', ''failed''} \<and> is_correlation (ae_correlation_id e)"

definition safe_metadata_keys :: "string list" where
  "safe_metadata_keys =
     [''analysis_id'', ''analysis_profile'', ''affected_asset_count'', ''affected_project_count'', ''authorization_revision_id'',
      ''authorization_revision_sequence'', ''baseline_version'', ''decision_status'', ''changed'', ''deletion_contract'',
      ''deletion_state'', ''execution_contract_version'', ''event_count'', ''finding_count'', ''filter_applied'', ''job_id'',
      ''package_ecosystem'', ''policy_revision'', ''project_id'', ''provider'', ''responsible_count'', ''replayed'',
      ''report_format'', ''report_profile'', ''review_period'', ''retry'', ''source_state'', ''scope_expanded'', ''target_role'',
      ''unassigned_asset_count'', ''unassigned_project_count'', ''verification_method'', ''verification_status'']"

definition safe_metadata_string :: "string \<Rightarrow> bool" where
  "safe_metadata_string s = is_correlation s"

fun metadata_kept :: "metadata_value \<Rightarrow> bool" where
  "metadata_kept (MText s) = safe_metadata_string s"
| "metadata_kept (MInt n) = True"
| "metadata_kept (MBool b) = True"

text \<open>A value that is \<open>None\<close> or of another type is dropped by the caller of the model.\<close>

definition sanitize_metadata :: "(string \<times> metadata_value) list \<Rightarrow> (string \<times> metadata_value) list" where
  "sanitize_metadata metadata = filter (\<lambda>(k, v). k \<in> set safe_metadata_keys \<and> metadata_kept v) metadata"

fun metadata_json :: "metadata_value \<Rightarrow> json" where
  "metadata_json (MText s) = JStr s"
| "metadata_json (MInt n) = JInt n"
| "metadata_json (MBool b) = JBool b"

definition event_json :: "(instant \<Rightarrow> string) \<Rightarrow> audit_event \<Rightarrow> json" where
  "event_json iso_text e = JObj
     [(''contract_version'', JStr product_audit_contract_version), (''id'', JStr (ae_id e)),
      (''organization_id'', JStr (ae_organization_id e)), (''actor_id'', JStr (ae_actor_id e)), (''actor_role'', JStr (ae_actor_role e)),
      (''action'', JStr (ae_action e)), (''resource_type'', JStr (ae_resource_type e)), (''resource_id'', JStr (ae_resource_id e)),
      (''result'', JStr (ae_result e)), (''correlation_id'', JStr (ae_correlation_id e)),
      (''occurred_at'', JStr (iso_text (ae_occurred_at e))),
      (''metadata'', JObj (map (map_prod id metadata_json) (ae_metadata e)))]"

definition event_digest :: "(string \<Rightarrow> string) \<Rightarrow> (instant \<Rightarrow> string) \<Rightarrow> audit_event \<Rightarrow> string" where
  "event_digest sha256 iso_text e = sha256 (''inspectra-product-audit-event-v1'' @ [CHR 0x00] @ dumps_compact (event_json iso_text e))"

definition rotation_seed :: "(string \<Rightarrow> string) \<Rightarrow> string \<Rightarrow> string" where
  "rotation_seed sha256 previous_head_digest = sha256 (''inspectra-product-audit-rotation-v1'' @ [CHR 0x00] @ previous_head_digest)"

subsection \<open>The chain\<close>

record chain_entry =
  ce_organization_id :: string
  ce_generation :: int
  ce_sequence :: int
  ce_event_id :: string
  ce_event_digest :: string
  ce_previous :: string
  ce_digest :: string

record chain_state =
  cs_organization_id :: string
  cs_generation :: int
  cs_parent :: string
  cs_anchor_sequence :: int
  cs_anchor_digest :: string
  cs_head_sequence :: int
  cs_head_digest :: string
  cs_retained :: int

definition entry_json :: "string \<Rightarrow> int \<Rightarrow> int \<Rightarrow> string \<Rightarrow> string \<Rightarrow> string \<Rightarrow> json" where
  "entry_json org generation sequence event_id digest previous = JObj
     [(''contract_version'', JStr integrity_contract_version), (''organization_id'', JStr org), (''generation'', JInt generation),
      (''sequence'', JInt sequence), (''event_id'', JStr event_id), (''event_digest'', JStr digest),
      (''previous_chain_digest'', JStr previous)]"

definition build_chain_entry ::
  "(string \<Rightarrow> string) \<Rightarrow> (instant \<Rightarrow> string) \<Rightarrow> string \<Rightarrow> int \<Rightarrow> int \<Rightarrow> audit_event \<Rightarrow> string \<Rightarrow> chain_entry" where
  "build_chain_entry sha256 iso_text org generation sequence e previous =
     \<lparr>ce_organization_id = org, ce_generation = generation, ce_sequence = sequence, ce_event_id = ae_id e,
      ce_event_digest = event_digest sha256 iso_text e, ce_previous = previous,
      ce_digest = sha256 (''inspectra-product-audit-chain-v1'' @ [CHR 0x00] @
        dumps_compact (entry_json org generation sequence (ae_id e) (event_digest sha256 iso_text e) previous))\<rparr>"

definition valid_chain_state :: "(string \<Rightarrow> string) \<Rightarrow> string \<Rightarrow> chain_state \<Rightarrow> bool" where
  "valid_chain_state sha256 org s \<longleftrightarrow>
     cs_organization_id s = org \<and> 1 \<le> cs_generation s \<and> 0 \<le> cs_anchor_sequence s \<and> cs_anchor_sequence s \<le> cs_head_sequence s \<and>
     cs_retained s = cs_head_sequence s - cs_anchor_sequence s \<and>
     is_hex_id 64 (cs_parent s) \<and> is_hex_id 64 (cs_anchor_digest s) \<and> is_hex_id 64 (cs_head_digest s) \<and>
     (0 < cs_retained s \<or> cs_head_digest s = cs_anchor_digest s) \<and>
     (cs_anchor_sequence s \<noteq> 0 \<or>
      cs_generation s = 1 \<and> cs_parent s = chain_zero \<and> cs_anchor_digest s = chain_zero \<or>
      1 < cs_generation s \<and> cs_parent s \<noteq> chain_zero \<and> cs_anchor_digest s = rotation_seed sha256 (cs_parent s))"

subsection \<open>Directories\<close>

datatype 'a file_content = Readable 'a | Unreadable

record integrity_tree =
  it_state :: "chain_state file_content"
  it_entries :: "(int \<times> chain_entry file_content) list"
  it_strays :: "string list"

record audit_org =
  ao_events :: "(string \<times> audit_event file_content) list"
  ao_tree :: "integrity_tree option"
  ao_temps :: "string list"

type_synonym audit_store = "(string \<times> audit_org) list"
type_synonym 'a audit_action = "(audit_store, audit_error, 'a) io"

definition empty_org :: audit_org where
  "empty_org = \<lparr>ao_events = [], ao_tree = None, ao_temps = []\<rparr>"

definition org_of :: "string \<Rightarrow> audit_store \<Rightarrow> audit_org" where
  "org_of org st = (case map_of st org of None \<Rightarrow> empty_org | Some d \<Rightarrow> d)"

definition set_org :: "string \<Rightarrow> (audit_org \<Rightarrow> audit_org) \<Rightarrow> audit_store \<Rightarrow> audit_store" where
  "set_org org f st = dict_set org (f (org_of org st)) st"

text \<open>Reading the events, each under its own name; the two readers differ in the error they raise.\<close>

definition event_file_ok :: "string \<Rightarrow> string \<times> audit_event file_content \<Rightarrow> bool" where
  "event_file_ok org entry =
     (case entry of (stem, Unreadable) \<Rightarrow> False
      | (stem, Readable e) \<Rightarrow> event_valid e \<and> ae_id e = stem \<and> ae_organization_id e = org)"

fun file_event :: "string \<times> audit_event file_content \<Rightarrow> audit_event option" where
  "file_event (stem, Readable e) = Some e"
| "file_event (stem, Unreadable) = None"

definition load_event :: "string \<Rightarrow> string \<times> audit_event file_content \<Rightarrow> audit_error + audit_event" where
  "load_event org entry =
     (case entry of (stem, Unreadable) \<Rightarrow> Inl AuditStoreUnavailable
      | (stem, Readable e) \<Rightarrow>
          if \<not> event_valid e then Inl AuditStoreUnavailable
          else if ae_id e \<noteq> stem \<or> ae_organization_id e \<noteq> org then Inl AuditRecordInvalid else Inr e)"

definition load_organization_events :: "string \<Rightarrow> audit_org \<Rightarrow> audit_error + audit_event list" where
  "load_organization_events org d = map_res (load_event org) (filter (\<lambda>(stem, c). is_hex_id 32 stem) (ao_events d))"

fun walk_entries ::
  "(string \<Rightarrow> string) \<Rightarrow> (instant \<Rightarrow> string) \<Rightarrow> string \<Rightarrow> int \<Rightarrow> (string \<times> audit_event) list \<Rightarrow> (int \<times> chain_entry file_content) list
     \<Rightarrow> int list \<Rightarrow> string \<Rightarrow> audit_error + chain_entry list \<times> string" where
  "walk_entries sha256 iso_text org generation events files [] previous = Inr ([], previous)"
| "walk_entries sha256 iso_text org generation events files (n # ns) previous =
     (case map_of files n of
        Some (Readable entry) \<Rightarrow>
          (case map_of events (ce_event_id entry) of
             None \<Rightarrow> Inl AuditIntegrityInvalid
           | Some e \<Rightarrow>
               if entry \<noteq> build_chain_entry sha256 iso_text org generation n e previous then Inl AuditIntegrityInvalid
               else bind_res (walk_entries sha256 iso_text org generation events files ns (ce_digest entry))
                 (\<lambda>(entries, final). Inr (entry # entries, final)))
      | _ \<Rightarrow> Inl AuditIntegrityInvalid)"

definition events_by_id :: "audit_org \<Rightarrow> (string \<times> audit_event) list" where
  "events_by_id d = map (\<lambda>e. (ae_id e, e)) (List.map_filter file_event (ao_events d))"

definition validate_directory ::
  "(string \<Rightarrow> string) \<Rightarrow> (instant \<Rightarrow> string) \<Rightarrow> string \<Rightarrow> audit_org \<Rightarrow> audit_error + chain_state \<times> chain_entry list" where
  "validate_directory sha256 iso_text org d =
     (case ao_tree d of None \<Rightarrow> Inl AuditIntegrityInvalid
      | Some t \<Rightarrow>
          (case it_state t of Unreadable \<Rightarrow> Inl AuditIntegrityInvalid
           | Readable s \<Rightarrow>
               let ns = [cs_anchor_sequence s + 1 .. cs_head_sequence s] in
               if \<not> valid_chain_state sha256 org s then Inl AuditIntegrityInvalid
               else if it_strays t \<noteq> [] then Inl AuditIntegrityInvalid
               else if set (map fst (it_entries t)) \<noteq> set ns then Inl AuditIntegrityInvalid
               else if \<not> list_all (\<lambda>f. is_hex_id 32 (fst f) \<and> event_file_ok org f) (ao_events d) then Inl AuditIntegrityInvalid
               else if \<not> distinct (map fst (events_by_id d)) then Inl AuditIntegrityInvalid
               else bind_res (walk_entries sha256 iso_text org (cs_generation s) (events_by_id d) (it_entries t) ns (cs_anchor_digest s))
                 (\<lambda>(entries, final).
                    if set (map ce_event_id entries) \<noteq> set (map fst (events_by_id d)) then Inl AuditIntegrityInvalid
                    else if int (length entries) \<noteq> cs_retained s \<or> final \<noteq> cs_head_digest s then Inl AuditIntegrityInvalid
                    else Inr (s, entries))))"

subsection \<open>Writing files\<close>

text \<open>
  \<^verbatim>\<open>_atomic_write_json\<close>: the temporary file has a fixed name, so one that an earlier stop left makes the next write fail,
  and is removed on the way.
\<close>

definition atomic_write ::
  "(audit_store \<Rightarrow> bool) \<Rightarrow> (audit_store \<Rightarrow> audit_store) \<Rightarrow> (audit_store \<Rightarrow> audit_store) \<Rightarrow> (audit_store \<Rightarrow> audit_store) \<Rightarrow> unit audit_action" where
  "atomic_write left create discard rename =
     bind_io (read_fs left) (\<lambda>exists.
       if exists then bind_io (step_fs discard) (\<lambda>_. raise AuditStoreUnavailable)
       else os_error_as AuditStoreUnavailable
         (bind_io (step_fs create) (\<lambda>_. on_os_failure (step_fs (\<lambda>st. rename (discard st))) discard)))"

definition add_temp :: "string \<Rightarrow> audit_org \<Rightarrow> audit_org" where
  "add_temp name d = d\<lparr>ao_temps := ao_temps d @ [name]\<rparr>"

definition remove_temp :: "string \<Rightarrow> audit_org \<Rightarrow> audit_org" where
  "remove_temp name d = d\<lparr>ao_temps := filter (\<lambda>x. x \<noteq> name) (ao_temps d)\<rparr>"

definition write_named :: "string \<Rightarrow> string \<Rightarrow> (audit_org \<Rightarrow> audit_org) \<Rightarrow> unit audit_action" where
  "write_named org name f =
     atomic_write (\<lambda>st. name \<in> set (ao_temps (org_of org st))) (set_org org (add_temp name)) (set_org org (remove_temp name)) (set_org org f)"

definition put_event :: "audit_event \<Rightarrow> audit_org \<Rightarrow> audit_org" where
  "put_event e d = d\<lparr>ao_events := dict_set (ae_id e) (Readable e) (ao_events d)\<rparr>"

definition drop_event :: "string \<Rightarrow> audit_org \<Rightarrow> audit_org" where
  "drop_event i d = d\<lparr>ao_events := dict_pop i (ao_events d)\<rparr>"

definition on_tree :: "(integrity_tree \<Rightarrow> integrity_tree) \<Rightarrow> audit_org \<Rightarrow> audit_org" where
  "on_tree f d = d\<lparr>ao_tree := map_option f (ao_tree d)\<rparr>"

definition put_entry :: "chain_entry \<Rightarrow> integrity_tree \<Rightarrow> integrity_tree" where
  "put_entry a t = t\<lparr>it_entries := dict_set (ce_sequence a) (Readable a) (it_entries t)\<rparr>"

definition drop_entry :: "int \<Rightarrow> integrity_tree \<Rightarrow> integrity_tree" where
  "drop_entry n t = t\<lparr>it_entries := dict_pop n (it_entries t)\<rparr>"

definition write_event :: "string \<Rightarrow> audit_event \<Rightarrow> unit audit_action" where
  "write_event org e = write_named org (ae_id e) (put_event e)"

definition write_state :: "string \<Rightarrow> chain_state \<Rightarrow> unit audit_action" where
  "write_state org s = write_named org ''state'' (on_tree (\<lambda>t. t\<lparr>it_state := Readable s\<rparr>))"

text \<open>The temporary file of an entry lies among the entries.\<close>

definition write_entry :: "string \<Rightarrow> chain_entry \<Rightarrow> unit audit_action" where
  "write_entry org a =
     (let name = show_int (ce_sequence a) in
      atomic_write (\<lambda>st. case ao_tree (org_of org st) of None \<Rightarrow> False | Some t \<Rightarrow> name \<in> set (it_strays t))
        (set_org org (on_tree (\<lambda>t. t\<lparr>it_strays := it_strays t @ [name]\<rparr>)))
        (set_org org (on_tree (\<lambda>t. t\<lparr>it_strays := filter (\<lambda>x. x \<noteq> name) (it_strays t)\<rparr>)))
        (set_org org (on_tree (put_entry a))))"

subsection \<open>Building and checking the chain\<close>

fun chain_entries ::
  "(string \<Rightarrow> string) \<Rightarrow> (instant \<Rightarrow> string) \<Rightarrow> string \<Rightarrow> int \<Rightarrow> int \<Rightarrow> string \<Rightarrow> audit_event list \<Rightarrow> chain_entry list" where
  "chain_entries sha256 iso_text org generation n previous [] = []"
| "chain_entries sha256 iso_text org generation n previous (e # es) =
     (let a = build_chain_entry sha256 iso_text org generation n e previous in
      a # chain_entries sha256 iso_text org generation (n + 1) (ce_digest a) es)"

definition build_integrity_tree ::
  "(string \<Rightarrow> string) \<Rightarrow> (instant \<Rightarrow> string) \<Rightarrow> string \<Rightarrow> audit_event list \<Rightarrow> int \<Rightarrow> string \<Rightarrow> string \<Rightarrow> integrity_tree \<times> chain_state" where
  "build_integrity_tree sha256 iso_text org events generation parent anchor =
     (let entries = chain_entries sha256 iso_text org generation 1 anchor events;
          s = \<lparr>cs_organization_id = org, cs_generation = generation, cs_parent = parent, cs_anchor_sequence = 0, cs_anchor_digest = anchor,
               cs_head_sequence = int (length events), cs_head_digest = (if entries = [] then anchor else ce_digest (last entries)),
               cs_retained = int (length events)\<rparr> in
      (\<lparr>it_state = Readable s, it_entries = map (\<lambda>a. (ce_sequence a, Readable a)) entries, it_strays = []\<rparr>, s))"

definition event_order :: "audit_event \<Rightarrow> instant \<times> string" where
  "event_order e = (ae_occurred_at e, ae_id e)"

definition load_integrity_state :: "(string \<Rightarrow> string) \<Rightarrow> string \<Rightarrow> integrity_tree \<Rightarrow> audit_error + chain_state" where
  "load_integrity_state sha256 org t =
     (case it_state t of Unreadable \<Rightarrow> Inl AuditIntegrityInvalid
      | Readable s \<Rightarrow> if \<not> valid_chain_state sha256 org s then Inl AuditIntegrityInvalid else Inr s)"

text \<open>
  \<^verbatim>\<open>_ensure_integrity_unlocked\<close>: the new tree is written beside its place and then renamed, so its own writes are one
  invisible step.
\<close>

definition ensure_integrity ::
  "(string \<Rightarrow> string) \<Rightarrow> (instant \<Rightarrow> string) \<Rightarrow> string \<Rightarrow> (chain_state \<times> bool) audit_action" where
  "ensure_integrity sha256 iso_text org =
     bind_io (read_fs (\<lambda>st. ao_tree (org_of org st))) (\<lambda>existing.
       case existing of
         Some t \<Rightarrow> bind_io (from_res (\<lambda>_. load_integrity_state sha256 org t)) (\<lambda>s. ret (s, False))
       | None \<Rightarrow>
           bind_io (step_fs (set_org org id)) (\<lambda>_.
             bind_io (from_res (\<lambda>st. load_organization_events org (org_of org st))) (\<lambda>events.
               let (t, s) = build_integrity_tree sha256 iso_text org (sort_key event_order events) 1 chain_zero chain_zero in
               bind_io (os_error_as AuditStoreUnavailable (step_fs id)) (\<lambda>_.
                 bind_io (os_error_as AuditIntegrityInvalid (step_fs (set_org org (\<lambda>d. d\<lparr>ao_tree := Some t\<rparr>)))) (\<lambda>_.
                   ret (s, events \<noteq> []))))))"

definition verify_integrity_unlocked ::
  "(string \<Rightarrow> string) \<Rightarrow> (instant \<Rightarrow> string) \<Rightarrow> string \<Rightarrow> chain_state option \<Rightarrow> chain_entry list audit_action" where
  "verify_integrity_unlocked sha256 iso_text org expected =
     bind_io (from_res (\<lambda>st. validate_directory sha256 iso_text org (org_of org st))) (\<lambda>(s, entries).
       if expected \<noteq> None \<and> expected \<noteq> Some s then raise AuditIntegrityInvalid else ret entries)"

subsection \<open>Retention\<close>

definition retention_cutoff :: "int \<Rightarrow> instant \<Rightarrow> instant" where
  "retention_cutoff retention_days now = now - retention_days * 86400 * 1000000"

definition entry_expired :: "instant \<Rightarrow> audit_event list \<Rightarrow> chain_entry \<Rightarrow> bool" where
  "entry_expired cutoff events a =
     (case find (\<lambda>e. ae_id e = ce_event_id a) events of None \<Rightarrow> False | Some e \<Rightarrow> ae_occurred_at e < cutoff)"

definition advance_anchor :: "chain_state \<Rightarrow> chain_entry list \<Rightarrow> chain_state" where
  "advance_anchor s expired =
     s\<lparr>cs_anchor_sequence := ce_sequence (last expired), cs_anchor_digest := ce_digest (last expired),
       cs_retained := cs_retained s - int (length expired)\<rparr>"

definition purge_organization ::
  "(string \<Rightarrow> string) \<Rightarrow> (instant \<Rightarrow> string) \<Rightarrow> instant \<Rightarrow> string \<Rightarrow> nat audit_action" where
  "purge_organization sha256 iso_text cutoff org =
     bind_io (ensure_integrity sha256 iso_text org) (\<lambda>(s, _).
       bind_io (verify_integrity_unlocked sha256 iso_text org (Some s)) (\<lambda>entries.
         bind_io (from_res (\<lambda>st. load_organization_events org (org_of org st))) (\<lambda>events.
           let expired = takeWhile (entry_expired cutoff events) entries in
           if expired = [] then ret 0
           else bind_io (write_state org (advance_anchor s expired)) (\<lambda>_.
             bind_io (for_each expired (\<lambda>a.
                bind_io (step_fs (set_org org (drop_event (ce_event_id a)))) (\<lambda>_.
                  step_fs (set_org org (on_tree (drop_entry (ce_sequence a))))))) (\<lambda>_.
               ret (length expired))))))"

fun purge_organizations ::
  "(string \<Rightarrow> string) \<Rightarrow> (instant \<Rightarrow> string) \<Rightarrow> instant \<Rightarrow> string list \<Rightarrow> nat audit_action" where
  "purge_organizations sha256 iso_text cutoff [] = ret 0"
| "purge_organizations sha256 iso_text cutoff (org # orgs) =
     bind_io (purge_organization sha256 iso_text cutoff org) (\<lambda>n.
       bind_io (purge_organizations sha256 iso_text cutoff orgs) (\<lambda>m. ret (n + m)))"

definition organization_ids :: "audit_store \<Rightarrow> string list" where
  "organization_ids st = sort (filter is_organization_id (map fst st))"

definition purge_expired_unlocked ::
  "(string \<Rightarrow> string) \<Rightarrow> (instant \<Rightarrow> string) \<Rightarrow> int \<Rightarrow> instant \<Rightarrow> string option \<Rightarrow> nat audit_action" where
  "purge_expired_unlocked sha256 iso_text retention_days now organization_id =
     os_error_as AuditStoreUnavailable
       (bind_io (read_fs (\<lambda>st. case organization_id of Some org \<Rightarrow> [org] | None \<Rightarrow> organization_ids st))
          (purge_organizations sha256 iso_text (retention_cutoff retention_days now)))"

definition event_count :: "instant \<Rightarrow> audit_store \<Rightarrow> int" where
  "event_count cutoff st =
     int (length (filter (\<lambda>(stem, c). is_hex_id 32 stem \<and>
         (case c of Unreadable \<Rightarrow> True | Readable e \<Rightarrow> \<not> event_valid e \<or> cutoff \<le> ae_occurred_at e))
       (concat (map (\<lambda>(org, d). if is_organization_id org then ao_events d else []) st))))"


subsection \<open>Operations\<close>

definition new_event ::
  "string \<Rightarrow> string \<Rightarrow> string \<Rightarrow> string \<Rightarrow> string \<Rightarrow> string \<Rightarrow> string \<Rightarrow> string \<Rightarrow> string \<Rightarrow> instant \<Rightarrow> (string \<times> metadata_value) list \<Rightarrow> audit_event" where
  "new_event event_id org actor_id actor_role action resource_type resource_id result correlation_id now metadata =
     \<lparr>ae_id = event_id, ae_organization_id = org, ae_actor_id = actor_id, ae_actor_role = actor_role, ae_action = action,
      ae_resource_type = resource_type, ae_resource_id = resource_id, ae_result = result, ae_correlation_id = correlation_id,
      ae_occurred_at = now, ae_metadata = sanitize_metadata metadata\<rparr>"

definition append_integrity_event ::
  "(string \<Rightarrow> string) \<Rightarrow> (instant \<Rightarrow> string) \<Rightarrow> audit_event \<Rightarrow> chain_state \<Rightarrow> unit audit_action" where
  "append_integrity_event sha256 iso_text e s =
     (let org = ae_organization_id e; n = cs_head_sequence s + 1;
          a = build_chain_entry sha256 iso_text org (cs_generation s) n e (cs_head_digest s);
          s' = s\<lparr>cs_head_sequence := n, cs_head_digest := ce_digest a, cs_retained := cs_retained s + 1\<rparr> in
      bind_io (verify_integrity_unlocked sha256 iso_text org (Some s)) (\<lambda>_.
        on_raised
          (bind_io (write_event org e) (\<lambda>_. bind_io (write_entry org a) (\<lambda>_. write_state org s')))
          (bind_io (step_fs (set_org org (on_tree (drop_entry n)))) (\<lambda>_. step_fs (set_org org (drop_event (ae_id e)))))))"

definition audit_record ::
  "(string \<Rightarrow> string) \<Rightarrow> (instant \<Rightarrow> string) \<Rightarrow> int \<Rightarrow> int \<Rightarrow> audit_event \<Rightarrow> audit_event audit_action" where
  "audit_record sha256 iso_text retention_days max_events e =
     (let org = ae_organization_id e; now = ae_occurred_at e in
      if \<not> event_valid e then raise EventValidationError
      else bind_io (purge_expired_unlocked sha256 iso_text retention_days now (Some org)) (\<lambda>_.
        bind_io (read_fs (event_count (retention_cutoff retention_days now))) (\<lambda>n.
          if n \<ge> max_events then raise AuditCapacityReached
          else bind_io (ensure_integrity sha256 iso_text org) (\<lambda>(s, _).
            bind_io (append_integrity_event sha256 iso_text e s) (\<lambda>_. ret e)))))"

text \<open>The events of an organization after the purge, with the chain checked.\<close>

definition checked_events ::
  "(string \<Rightarrow> string) \<Rightarrow> (instant \<Rightarrow> string) \<Rightarrow> int \<Rightarrow> instant \<Rightarrow> string \<Rightarrow> audit_event list audit_action" where
  "checked_events sha256 iso_text retention_days now org =
     bind_io (purge_expired_unlocked sha256 iso_text retention_days now (Some org)) (\<lambda>_.
       bind_io (verify_integrity_unlocked sha256 iso_text org None) (\<lambda>_.
         from_res (\<lambda>st. load_organization_events org (org_of org st))))"

fun position_of :: "string \<Rightarrow> audit_event list \<Rightarrow> nat option" where
  "position_of i [] = None"
| "position_of i (e # es) = (if ae_id e = i then Some 0 else map_option Suc (position_of i es))"

definition audit_page ::
  "nat \<Rightarrow> string option \<Rightarrow> string option \<Rightarrow> audit_event list \<Rightarrow> audit_error + audit_event list \<times> string option" where
  "audit_page limit cursor action events =
     (let selected = (case action of None \<Rightarrow> events | Some a \<Rightarrow> filter (\<lambda>e. ae_action e = a) events);
          ordered = rev (sort_key event_order selected);
          page_from = (\<lambda>start. let page = take limit (drop start ordered) in
            (page, if start + length page < length ordered \<and> page \<noteq> [] then Some (ae_id (last page)) else None)) in
      case cursor of
        None \<Rightarrow> Inr (page_from 0)
      | Some i \<Rightarrow> (case position_of i ordered of None \<Rightarrow> Inl InvalidCursor | Some k \<Rightarrow> Inr (page_from (k + 1))))"

definition audit_list ::
  "(string \<Rightarrow> string) \<Rightarrow> (instant \<Rightarrow> string) \<Rightarrow> int \<Rightarrow> instant \<Rightarrow> string \<Rightarrow> int \<Rightarrow> string option \<Rightarrow> string option
     \<Rightarrow> (audit_event list \<times> string option) audit_action" where
  "audit_list sha256 iso_text retention_days now org limit cursor action =
     (if \<not> is_organization_id org then raise InvalidOrganization
      else if \<not> (1 \<le> limit \<and> limit \<le> audit_page_limit) then raise InvalidPageSize
      else if (case cursor of None \<Rightarrow> False | Some i \<Rightarrow> \<not> is_hex_id 32 i) then raise InvalidCursor
      else if (case action of None \<Rightarrow> False | Some a \<Rightarrow> \<not> is_action a) then raise InvalidAction
      else bind_io (checked_events sha256 iso_text retention_days now org) (\<lambda>events.
        from_res (\<lambda>_. audit_page (nat limit) cursor action events)))"

definition invalid_range :: "instant \<Rightarrow> instant \<Rightarrow> int \<Rightarrow> bool" where
  "invalid_range starts_at ends_at limit \<longleftrightarrow>
     starts_at \<ge> ends_at \<or> ends_at - starts_at > 366 * 86400 * 1000000 \<or> \<not> (1 \<le> limit \<and> limit \<le> 1000)"

text \<open>\<^verbatim>\<open>matching[-limit:], len(matching)\<close> in the order of time.\<close>

definition export_slice :: "nat \<Rightarrow> audit_event list \<Rightarrow> audit_event list \<times> nat" where
  "export_slice limit matching = (drop (length matching - limit) (sort_key event_order matching), length matching)"

definition linked_to_jobs :: "string list \<Rightarrow> audit_event \<Rightarrow> bool" where
  "linked_to_jobs jobs e \<longleftrightarrow> (case map_of (ae_metadata e) ''job_id'' of Some (MText j) \<Rightarrow> j \<in> set jobs | _ \<Rightarrow> False)"

definition active_events_for_export ::
  "(string \<Rightarrow> string) \<Rightarrow> (instant \<Rightarrow> string) \<Rightarrow> int \<Rightarrow> instant \<Rightarrow> string \<Rightarrow> instant \<Rightarrow> instant \<Rightarrow> string option \<Rightarrow> string list \<Rightarrow> int
     \<Rightarrow> (audit_event list \<times> nat) audit_action" where
  "active_events_for_export sha256 iso_text retention_days now org starts_at ends_at asset_id jobs limit =
     (if \<not> is_organization_id org then raise InvalidOrganization
      else if invalid_range starts_at ends_at limit then raise InvalidExportRange
      else if (case asset_id of None \<Rightarrow> False | Some i \<Rightarrow> \<not> is_hex_id 32 i) then raise InvalidResource
      else if list_ex (\<lambda>j. \<not> is_hex_id 32 j) jobs then raise InvalidResource
      else bind_io (checked_events sha256 iso_text retention_days now org) (\<lambda>events.
        ret (export_slice (nat limit) (filter (\<lambda>e. starts_with ''active_asset.'' (ae_action e) \<and>
            starts_at \<le> ae_occurred_at e \<and> ae_occurred_at e \<le> ends_at \<and>
            (asset_id = None \<or> asset_id = Some (ae_resource_id e) \<or> ae_resource_id e \<in> set jobs \<or> linked_to_jobs jobs e)) events))))"

definition events_for_export ::
  "(string \<Rightarrow> string) \<Rightarrow> (instant \<Rightarrow> string) \<Rightarrow> int \<Rightarrow> instant \<Rightarrow> string \<Rightarrow> instant \<Rightarrow> instant \<Rightarrow> string option \<Rightarrow> int
     \<Rightarrow> (audit_event list \<times> nat) audit_action" where
  "events_for_export sha256 iso_text retention_days now org starts_at ends_at action limit =
     (if \<not> is_organization_id org then raise InvalidOrganization
      else if invalid_range starts_at ends_at limit then raise InvalidExportRange
      else if (case action of None \<Rightarrow> False | Some a \<Rightarrow> \<not> is_action a) then raise InvalidAction
      else bind_io (checked_events sha256 iso_text retention_days now org) (\<lambda>events.
        ret (export_slice (nat limit) (filter (\<lambda>e. starts_at \<le> ae_occurred_at e \<and> ae_occurred_at e \<le> ends_at \<and>
            (action = None \<or> action = Some (ae_action e))) events))))"

definition purge_expired_events ::
  "(string \<Rightarrow> string) \<Rightarrow> (instant \<Rightarrow> string) \<Rightarrow> int \<Rightarrow> instant \<Rightarrow> string option \<Rightarrow> nat audit_action" where
  "purge_expired_events sha256 iso_text retention_days now organization_id =
     (if (case organization_id of None \<Rightarrow> False | Some org \<Rightarrow> \<not> is_organization_id org) then raise InvalidOrganization
      else purge_expired_unlocked sha256 iso_text retention_days now organization_id)"

record integrity_response =
  ir_state :: string
  ir_bootstrapped :: bool
  ir_chain :: "chain_state option"

definition verify_integrity ::
  "(string \<Rightarrow> string) \<Rightarrow> (instant \<Rightarrow> string) \<Rightarrow> string \<Rightarrow> integrity_response audit_action" where
  "verify_integrity sha256 iso_text org =
     (if \<not> is_organization_id org then raise InvalidOrganization
      else (\<lambda>b st.
        case bind_io (ensure_integrity sha256 iso_text org) (\<lambda>(s, bootstrapped).
            bind_io (verify_integrity_unlocked sha256 iso_text org (Some s)) (\<lambda>_.
              ret \<lparr>ir_state = (if cs_retained s = 0 then ''empty'' else ''valid''), ir_bootstrapped = bootstrapped, ir_chain = Some s\<rparr>)) b st of
          (Raised e, b', st') \<Rightarrow> (Done \<lparr>ir_state = ''invalid'', ir_bootstrapped = False, ir_chain = None\<rparr>, b', st')
        | r \<Rightarrow> r))"

subsection \<open>Anonymization\<close>

definition event_linked :: "string \<Rightarrow> string list \<Rightarrow> audit_event \<Rightarrow> bool" where
  "event_linked asset_id jobs e \<longleftrightarrow> ae_resource_id e = asset_id \<or> ae_resource_id e \<in> set jobs \<or> linked_to_jobs jobs e"

definition anonymized :: "string \<Rightarrow> audit_event \<Rightarrow> audit_event" where
  "anonymized receipt_id e =
     e\<lparr>ae_resource_type := ''deleted_active_asset'', ae_resource_id := receipt_id,
       ae_correlation_id := ''active-deletion:'' @ receipt_id, ae_metadata := []\<rparr>"

text \<open>
  \<^verbatim>\<open>_rotate_integrity_unlocked\<close>: the current tree is renamed away and the new one into place; when the second rename fails
  the old tree is put back, and when the process stops in between there is no tree.
\<close>

definition rotate_integrity ::
  "(string \<Rightarrow> string) \<Rightarrow> (instant \<Rightarrow> string) \<Rightarrow> string \<Rightarrow> chain_state \<Rightarrow> unit audit_action" where
  "rotate_integrity sha256 iso_text org s =
     bind_io (from_res (\<lambda>st. load_organization_events org (org_of org st))) (\<lambda>events.
       bind_io (read_fs (\<lambda>st. ao_tree (org_of org st))) (\<lambda>current.
         let (t, _) = build_integrity_tree sha256 iso_text org (sort_key event_order events) (cs_generation s + 1)
               (cs_head_digest s) (rotation_seed sha256 (cs_head_digest s)) in
         os_error_as AuditIntegrityInvalid
           (bind_io (step_fs id) (\<lambda>_.
             bind_io (step_fs (set_org org (\<lambda>d. d\<lparr>ao_tree := None\<rparr>))) (\<lambda>_.
               bind_io (on_os_failure (step_fs (set_org org (\<lambda>d. d\<lparr>ao_tree := Some t\<rparr>))) (set_org org (\<lambda>d. d\<lparr>ao_tree := current\<rparr>))) (\<lambda>_.
                 step_fs id))))))"

definition anonymize_active_asset ::
  "(string \<Rightarrow> string) \<Rightarrow> (instant \<Rightarrow> string) \<Rightarrow> string \<Rightarrow> string \<Rightarrow> string list \<Rightarrow> string \<Rightarrow> nat audit_action" where
  "anonymize_active_asset sha256 iso_text org asset_id jobs receipt_id =
     (if \<not> is_organization_id org then raise InvalidOrganization
      else if \<not> is_hex_id 32 asset_id \<or> \<not> is_hex_id 32 receipt_id then raise InvalidResource
      else if list_ex (\<lambda>j. \<not> is_hex_id 32 j) jobs then raise InvalidResource
      else bind_io (ensure_integrity sha256 iso_text org) (\<lambda>(s, _).
        bind_io (verify_integrity_unlocked sha256 iso_text org (Some s)) (\<lambda>_.
          bind_io (from_res (\<lambda>st. load_organization_events org (org_of org st))) (\<lambda>events.
            let affected = filter (event_linked asset_id jobs) events in
            bind_io (for_each affected (\<lambda>e. write_event org (anonymized receipt_id e))) (\<lambda>_.
              bind_io (if affected = [] then ret () else rotate_integrity sha256 iso_text org s) (\<lambda>_.
                ret (length affected)))))))"


end
