(* ===== verification/Audit_Integrity.thy ===== *)
theory Audit_Integrity
  imports Product_Audit
begin

section \<open>Integrity of the product audit log\<close>

text \<open>
  What the hash chain of \<^verbatim>\<open>backend/app/product_audit.py\<close> gives: the head of a chain determines its events, the operations keep
  a valid chain, and a chain that an interruption left invalid stays so.
\<close>

subsection \<open>Tampering shows\<close>

lemma canon_members:
  assumes "canon (JObj ms) = canon (JObj ns)" "distinct (map fst ms)" "distinct (map fst ns)"
  shows "map_option canon (map_of ms k) = map_option canon (map_of ns k)"
proof -
  have sorted: "map_of (sort_key fst xs) = map_of xs" if "distinct (map fst xs)" for xs :: "(string \<times> json) list"
  proof (rule map_of_inject_set [THEN iffD2])
    show "distinct (map fst (sort_key fst xs))" using that mset_eq_imp_distinct_iff [of "map fst (sort_key fst xs)" "map fst xs"] by simp
  qed (use that in simp_all)
  have canon: "map_of (map (map_prod id canon) xs) k = map_option canon (map_of xs k)" for xs :: "(string \<times> json) list"
    by (induction xs) auto
  have "map_of (map (map_prod id canon) ms) = map_of (map (map_prod id canon) ns)"
    using assms by (simp flip: sorted [of "map (map_prod id canon) ms"] sorted [of "map (map_prod id canon) ns"] add: comp_def)
  then show ?thesis by (metis canon)
qed

text \<open>Two events that differ only in the order in which the metadata are listed.\<close>

definition same_event :: "audit_event \<Rightarrow> audit_event \<Rightarrow> bool" where
  "same_event e e' \<longleftrightarrow> e\<lparr>ae_metadata := sort_key fst (ae_metadata e)\<rparr> = e'\<lparr>ae_metadata := sort_key fst (ae_metadata e')\<rparr>"

lemma metadata_json_inject: "canon (metadata_json v) = canon (metadata_json w) \<Longrightarrow> v = w"
  by (cases v; cases w) auto

lemma canon_metadata:
  assumes "canon (JObj (map (map_prod id metadata_json) ms)) = canon (JObj (map (map_prod id metadata_json) ns))"
  shows "sort_key fst ms = sort_key fst ns"
proof -
  have "map (map_prod id (canon \<circ> metadata_json)) (sort_key fst ms) = map (map_prod id (canon \<circ> metadata_json)) (sort_key fst ns)"
    using assms sort_key_map_snd [of "canon \<circ> metadata_json" ms] sort_key_map_snd [of "canon \<circ> metadata_json" ns]
    by (simp add: prod.map_comp comp_def id_def)
  moreover have "inj (map_prod id (canon \<circ> metadata_json) :: string \<times> metadata_value \<Rightarrow> _)"
    by (intro prod.inj_map inj_on_id injI) (simp add: metadata_json_inject)
  ultimately show ?thesis by (simp add: inj_map_eq_map)
qed

lemma event_json_inject:
  assumes "canon (event_json iso_text e) = canon (event_json iso_text e')" "inj iso_text"
  shows "same_event e e'"
proof -
  note member = canon_members [OF assms(1) [unfolded event_json_def]]
  have "ae_id e = ae_id e'" using member [of "''id''"] by simp
  moreover have "ae_organization_id e = ae_organization_id e'" using member [of "''organization_id''"] by simp
  moreover have "ae_actor_id e = ae_actor_id e'" using member [of "''actor_id''"] by simp
  moreover have "ae_actor_role e = ae_actor_role e'" using member [of "''actor_role''"] by simp
  moreover have "ae_action e = ae_action e'" using member [of "''action''"] by simp
  moreover have "ae_resource_type e = ae_resource_type e'" using member [of "''resource_type''"] by simp
  moreover have "ae_resource_id e = ae_resource_id e'" using member [of "''resource_id''"] by simp
  moreover have "ae_result e = ae_result e'" using member [of "''result''"] by simp
  moreover have "ae_correlation_id e = ae_correlation_id e'" using member [of "''correlation_id''"] by simp
  moreover have "iso_text (ae_occurred_at e) = iso_text (ae_occurred_at e')" using member [of "''occurred_at''"] by simp
  moreover have "sort_key fst (ae_metadata e) = sort_key fst (ae_metadata e')"
    using member [of "''metadata''"] by (intro canon_metadata) simp
  ultimately show ?thesis using injD [OF assms(2)] by (simp add: same_event_def)
qed

lemma entry_json_inject:
  assumes "canon (entry_json org g n i d p) = canon (entry_json org' g' n' i' d' p')"
  shows "i = i' \<and> d = d' \<and> p = p'"
proof -
  note member = canon_members [OF assms [unfolded entry_json_def]]
  show ?thesis using member [of "''event_id''"] member [of "''event_digest''"] member [of "''previous_chain_digest''"] by simp
qed

text \<open>The texts whose digests a directory holds.\<close>

definition event_text :: "(instant \<Rightarrow> string) \<Rightarrow> audit_event \<Rightarrow> string" where
  "event_text iso_text e = ''inspectra-product-audit-event-v1'' @ [CHR 0x00] @ dumps_compact (event_json iso_text e)"

definition entry_text :: "chain_entry \<Rightarrow> string" where
  "entry_text a = ''inspectra-product-audit-chain-v1'' @ [CHR 0x00] @
     dumps_compact (entry_json (ce_organization_id a) (ce_generation a) (ce_sequence a) (ce_event_id a) (ce_event_digest a) (ce_previous a))"

definition hashed_texts :: "(instant \<Rightarrow> string) \<Rightarrow> audit_org \<Rightarrow> chain_entry list \<Rightarrow> string set" where
  "hashed_texts iso_text d es = event_text iso_text ` snd ` set (events_by_id d) \<union> entry_text ` set es"

lemma entry_digest: "ce_digest (build_chain_entry sha256 iso_text org g n e p) = sha256 (entry_text (build_chain_entry sha256 iso_text org g n e p))"
  by (simp add: build_chain_entry_def entry_text_def)

lemma walk_entries_determined:
  assumes "\<forall>a \<in> set es. \<forall>b \<in> set es'. sha256 (entry_text a) = sha256 (entry_text b) \<longrightarrow> entry_text a = entry_text b"
    "walk_entries sha256 iso_text org g events files ns p = Inr (es, final)"
    "walk_entries sha256 iso_text org g events' files' ns p' = Inr (es', final)"
  shows "es = es' \<and> p = p'"
  using assms
proof (induction ns arbitrary: p p' es es')
  case (Cons n ns)
  obtain a e as where a: "map_of events (ce_event_id a) = Some e" "a = build_chain_entry sha256 iso_text org g n e p"
    "walk_entries sha256 iso_text org g events files ns (ce_digest a) = Inr (as, final)" "es = a # as"
    using Cons.prems(2) by (auto simp: res_simps split: option.splits file_content.splits if_splits)
  obtain b f bs where b: "map_of events' (ce_event_id b) = Some f" "b = build_chain_entry sha256 iso_text org g n f p'"
    "walk_entries sha256 iso_text org g events' files' ns (ce_digest b) = Inr (bs, final)" "es' = b # bs"
    using Cons.prems(3) by (auto simp: res_simps split: option.splits file_content.splits if_splits)
  note inj = Cons.prems(1) [unfolded a(4) b(4) list.set]
  have "\<forall>a \<in> set as. \<forall>b \<in> set bs. sha256 (entry_text a) = sha256 (entry_text b) \<longrightarrow> entry_text a = entry_text b" using inj by blast
  from Cons.IH [OF this a(3) b(3)] have tails: "as = bs" "ce_digest a = ce_digest b" by simp_all
  have "ce_digest a = sha256 (entry_text a)" "ce_digest b = sha256 (entry_text b)" unfolding a(2) b(2) by (rule entry_digest)+
  then have "entry_text a = entry_text b" using inj tails(2) by (metis insertI1)
  then have "dumps_compact (entry_json org g n (ae_id e) (event_digest sha256 iso_text e) p)
      = dumps_compact (entry_json org g n (ae_id f) (event_digest sha256 iso_text f) p')"
    by (simp add: a(2) b(2) build_chain_entry_def entry_text_def)
  from entry_json_inject [OF dumps_compact_inject [OF this]] show ?case using tails a(2,4) b(2,4) by (simp add: build_chain_entry_def)
qed simp

lemma walk_entries_digests:
  assumes "walk_entries sha256 iso_text org g events files ns p = Inr (es, final)" "a \<in> set es"
  shows "\<exists>e. map_of events (ce_event_id a) = Some e \<and> ce_event_digest a = event_digest sha256 iso_text e"
  using assms
proof (induction ns arbitrary: p es)
  case (Cons n ns)
  obtain b e bs where b: "map_of events (ce_event_id b) = Some e" "b = build_chain_entry sha256 iso_text org g n e p"
    "walk_entries sha256 iso_text org g events files ns (ce_digest b) = Inr (bs, final)" "es = b # bs"
    using Cons.prems(1) by (auto simp: res_simps split: option.splits file_content.splits if_splits)
  then show ?case using Cons.IH [OF b(3)] Cons.prems(2) by (auto simp: build_chain_entry_def)
qed simp

lemma validate_directory_Inr:
  assumes "validate_directory sha256 iso_text org d = Inr (s, es)"
  shows "\<exists>t. ao_tree d = Some t \<and> it_state t = Readable s \<and> it_strays t = [] \<and> valid_chain_state sha256 org s \<and>
    fst ` set (it_entries t) = {cs_anchor_sequence s + 1 .. cs_head_sequence s} \<and>
    walk_entries sha256 iso_text org (cs_generation s) (events_by_id d) (it_entries t) [cs_anchor_sequence s + 1 .. cs_head_sequence s]
      (cs_anchor_digest s) = Inr (es, cs_head_digest s)" "ce_event_id ` set es = fst ` set (events_by_id d)"
    "int (length es) = cs_retained s" "list_all (\<lambda>f. is_hex_id 32 (fst f) \<and> event_file_ok org f) (ao_events d)"
    "distinct (map fst (events_by_id d))"
  using assms by (auto simp: validate_directory_def Let_def res_simps split: option.splits file_content.splits if_splits)

text \<open>
  C15. Tampering shows. Take two directories of an organization that both pass the integrity check and whose
  state files agree in the generation, the range of sequence numbers and the head digest. Then they have the same chain of
  entries, the same anchor and, event for event, the same events: none was altered, added, removed or reordered. The only way
  out is a collision of SHA-256 between a text hashed for the one directory and a different text hashed for the other.
\<close>

theorem audit_head_determines_events:
  assumes "validate_directory sha256 iso_text org d = Inr (s, es)" "validate_directory sha256 iso_text org d' = Inr (s', es')"
    and "cs_generation s = cs_generation s'" "cs_anchor_sequence s = cs_anchor_sequence s'"
      "cs_head_sequence s = cs_head_sequence s'" "cs_head_digest s = cs_head_digest s'" and "inj iso_text"
  shows "(\<exists>x \<in> hashed_texts iso_text d es. \<exists>y \<in> hashed_texts iso_text d' es'. x \<noteq> y \<and> sha256 x = sha256 y) \<or>
    es = es' \<and> cs_anchor_digest s = cs_anchor_digest s' \<and>
    (\<forall>i. rel_option same_event (map_of (events_by_id d) i) (map_of (events_by_id d') i))"
proof (cases "\<exists>x \<in> hashed_texts iso_text d es. \<exists>y \<in> hashed_texts iso_text d' es'. x \<noteq> y \<and> sha256 x = sha256 y")
  case True
  then show ?thesis ..
next
  case False
  then have inj: "x = y" if "x \<in> hashed_texts iso_text d es" "y \<in> hashed_texts iso_text d' es'" "sha256 x = sha256 y" for x y using that by blast
  obtain t :: integrity_tree where w1: "walk_entries sha256 iso_text org (cs_generation s) (events_by_id d) (it_entries t)
      [cs_anchor_sequence s + 1 .. cs_head_sequence s] (cs_anchor_digest s) = Inr (es, cs_head_digest s)"
    using validate_directory_Inr(1) [OF assms(1)] by (elim exE conjE) rule
  obtain t' :: integrity_tree where w2: "walk_entries sha256 iso_text org (cs_generation s') (events_by_id d') (it_entries t')
      [cs_anchor_sequence s' + 1 .. cs_head_sequence s'] (cs_anchor_digest s') = Inr (es', cs_head_digest s')"
    using validate_directory_Inr(1) [OF assms(2)] by (elim exE conjE) rule
  note w = w1 w2 [folded assms(3-6)]
  note ids = validate_directory_Inr(2) [OF assms(1)] validate_directory_Inr(2) [OF assms(2)]
  have "\<forall>a \<in> set es. \<forall>b \<in> set es'. sha256 (entry_text a) = sha256 (entry_text b) \<longrightarrow> entry_text a = entry_text b"
  proof (intro ballI impI)
    fix a b assume "a \<in> set es" "b \<in> set es'" and eq: "sha256 (entry_text a) = sha256 (entry_text b)"
    then have "entry_text a \<in> hashed_texts iso_text d es" "entry_text b \<in> hashed_texts iso_text d' es'" by (simp_all add: hashed_texts_def)
    then show "entry_text a = entry_text b" using eq by (rule inj)
  qed
  from walk_entries_determined [OF this w] have same: "es = es'" "cs_anchor_digest s = cs_anchor_digest s'" by simp_all
  have "rel_option same_event (map_of (events_by_id d) i) (map_of (events_by_id d') i)" for i
  proof (cases "i \<in> ce_event_id ` set es")
    case False
    then have "map_of (events_by_id d) i = None" "map_of (events_by_id d') i = None" using ids same(1) by (simp_all add: map_of_eq_None_iff)
    then show ?thesis by simp
  next
    case True
    then obtain a where a: "a \<in> set es" "ce_event_id a = i" by blast
    obtain e e' where e: "map_of (events_by_id d) i = Some e" "ce_event_digest a = event_digest sha256 iso_text e"
      "map_of (events_by_id d') i = Some e'" "ce_event_digest a = event_digest sha256 iso_text e'"
      using walk_entries_digests [OF w(1)] walk_entries_digests [OF w(2)] a same(1) by blast
    then have "event_text iso_text e \<in> hashed_texts iso_text d es" "event_text iso_text e' \<in> hashed_texts iso_text d' es'"
      unfolding hashed_texts_def by (metis UnI1 imageI map_of_SomeD snd_conv)+
    moreover have "sha256 (event_text iso_text e) = sha256 (event_text iso_text e')" using e(2,4) by (simp add: event_digest_def event_text_def)
    ultimately have "event_text iso_text e = event_text iso_text e'" by (rule inj)
    then have "dumps_compact (event_json iso_text e) = dumps_compact (event_json iso_text e')" by (simp add: event_text_def)
    then show ?thesis using e event_json_inject [OF dumps_compact_inject assms(7)] by simp
  qed
  then show ?thesis using same by blast
qed

subsection \<open>The directory of a log\<close>

text \<open>
  The abstract value of a directory is the list of its events in the order of the chain. \<open>chained\<close> says that a
  directory holds such a log: its files are the events, and the tree is the chain that leads from the anchor to the head.
\<close>

definition chain_head :: "string \<Rightarrow> chain_entry list \<Rightarrow> string" where
  "chain_head anchor entries = (if entries = [] then anchor else ce_digest (last entries))"

definition files_of :: "audit_event list \<Rightarrow> (string \<times> audit_event file_content) set" where
  "files_of evs = (\<lambda>e. (ae_id e, Readable e)) ` set evs"

definition entries_of_state ::
  "(string \<Rightarrow> string) \<Rightarrow> (instant \<Rightarrow> string) \<Rightarrow> string \<Rightarrow> chain_state \<Rightarrow> audit_event list \<Rightarrow> chain_entry list" where
  "entries_of_state sha256 iso_text org s = chain_entries sha256 iso_text org (cs_generation s) (cs_anchor_sequence s + 1) (cs_anchor_digest s)"

definition log_events :: "string \<Rightarrow> audit_event list \<Rightarrow> bool" where
  "log_events org evs \<longleftrightarrow> list_all (\<lambda>e. event_valid e \<and> ae_organization_id e = org) evs \<and> distinct (map ae_id evs)"

definition holds_events :: "audit_org \<Rightarrow> audit_event list \<Rightarrow> bool" where
  "holds_events d evs \<longleftrightarrow> dict_ok (ao_events d) \<and> set (ao_events d) = files_of evs"

definition tree_of :: "(string \<Rightarrow> string) \<Rightarrow> (instant \<Rightarrow> string) \<Rightarrow> string \<Rightarrow> chain_state \<Rightarrow> audit_event list \<Rightarrow> integrity_tree \<Rightarrow> bool" where
  "tree_of sha256 iso_text org s evs t \<longleftrightarrow>
     it_state t = Readable s \<and> it_strays t = [] \<and> valid_chain_state sha256 org s \<and> dict_ok (it_entries t) \<and>
     set (it_entries t) = (\<lambda>a. (ce_sequence a, Readable a)) ` set (entries_of_state sha256 iso_text org s evs) \<and>
     cs_head_sequence s = cs_anchor_sequence s + int (length evs) \<and>
     cs_head_digest s = chain_head (cs_anchor_digest s) (entries_of_state sha256 iso_text org s evs)"

definition chained :: "(string \<Rightarrow> string) \<Rightarrow> (instant \<Rightarrow> string) \<Rightarrow> string \<Rightarrow> audit_org \<Rightarrow> chain_state \<Rightarrow> audit_event list \<Rightarrow> bool" where
  "chained sha256 iso_text org d s evs \<longleftrightarrow>
     log_events org evs \<and> holds_events d evs \<and> (\<exists>t. ao_tree d = Some t \<and> tree_of sha256 iso_text org s evs t)"

lemma chain_entries_append:
  "chain_entries sha256 iso_text org g n p (xs @ ys) = chain_entries sha256 iso_text org g n p xs @
     chain_entries sha256 iso_text org g (n + int (length xs)) (chain_head p (chain_entries sha256 iso_text org g n p xs)) ys"
proof (induction xs arbitrary: n p)
  case (Cons e es)
  then show ?case by (simp add: Let_def chain_head_def add.assoc add.commute [of 1])
qed (simp add: chain_head_def)

lemma chain_entries_length [simp]: "length (chain_entries sha256 iso_text org g n p evs) = length evs"
  by (induction evs arbitrary: n p) (simp_all add: Let_def)

lemma chain_entries_Nil [simp]: "chain_entries sha256 iso_text org g n p evs = [] \<longleftrightarrow> evs = []"
  by (cases evs) (simp_all add: Let_def)

lemma chain_entries_sequence: "map ce_sequence (chain_entries sha256 iso_text org g n p evs) = [n .. n + int (length evs) - 1]"
proof (induction evs arbitrary: n p)
  case (Cons e es)
  have "[n .. n + int (length (e # es)) - 1] = n # [n + 1 .. n + 1 + int (length es) - 1]" by (subst upto_rec1) simp_all
  then show ?case using Cons.IH [of "n + 1"] by (simp add: Let_def build_chain_entry_def)
qed simp

lemma chain_entries_ids: "map ce_event_id (chain_entries sha256 iso_text org g n p evs) = map ae_id evs"
  by (induction evs arbitrary: n p) (simp_all add: Let_def build_chain_entry_def)

lemma walk_chain:
  assumes "\<And>a. a \<in> set (chain_entries sha256 iso_text org g n p evs) \<Longrightarrow> map_of files (ce_sequence a) = Some (Readable a)"
    and "\<And>e. e \<in> set evs \<Longrightarrow> map_of events (ae_id e) = Some e"
  shows "walk_entries sha256 iso_text org g events files [n .. n + int (length evs) - 1] p
    = Inr (chain_entries sha256 iso_text org g n p evs, chain_head p (chain_entries sha256 iso_text org g n p evs))"
  using assms
proof (induction evs arbitrary: n p)
  case (Cons e es)
  let ?a = "build_chain_entry sha256 iso_text org g n e p"
  have a: "ce_sequence ?a = n" "ce_event_id ?a = ae_id e" by (simp_all add: build_chain_entry_def)
  have "walk_entries sha256 iso_text org g events files [n + 1 .. n + 1 + int (length es) - 1] (ce_digest ?a)
      = Inr (chain_entries sha256 iso_text org g (n + 1) (ce_digest ?a) es, chain_head (ce_digest ?a) (chain_entries sha256 iso_text org g (n + 1) (ce_digest ?a) es))"
    using Cons.prems by (intro Cons.IH) (auto simp: Let_def)
  moreover have "[n .. n + int (length (e # es)) - 1] = n # [n + 1 .. n + 1 + int (length es) - 1]" by (subst upto_rec1) simp_all
  moreover have "map_of files n = Some (Readable ?a)" using Cons.prems(1) [of ?a] a(1) by (simp add: Let_def)
  ultimately show ?case using Cons.prems(2) [of e] a(2) by (simp add: Let_def chain_head_def)
qed (simp add: chain_head_def)

lemma holds_events_by_id:
  assumes "holds_events d evs" "log_events org evs"
  shows "set (events_by_id d) = (\<lambda>e. (ae_id e, e)) ` set evs" "distinct (map fst (events_by_id d))"
    "list_all (\<lambda>f. is_hex_id 32 (fst f) \<and> event_file_ok org f) (ao_events d)"
proof -
  have files: "set (ao_events d) = (\<lambda>e. (ae_id e, Readable e)) ` set evs" using assms(1) by (simp add: holds_events_def files_of_def)
  then have key: "\<exists>e. f = (ae_id e, Readable e) \<and> e \<in> set evs" if "f \<in> set (ao_events d)" for f using that by auto
  show "set (events_by_id d) = (\<lambda>e. (ae_id e, e)) ` set evs"
    by (auto simp: events_by_id_def List.map_filter_def files image_image)
  have "map fst (events_by_id d) = map fst (ao_events d)" if "\<forall>f \<in> set xs. \<exists>e. f = (ae_id e, Readable e)" "xs = ao_events d" for xs
    using that unfolding events_by_id_def that(2) [symmetric] by (induction xs) (auto simp: List.map_filter_def)
  then show "distinct (map fst (events_by_id d))" using key assms(1) by (fastforce simp: holds_events_def dict_ok_def)
  show "list_all (\<lambda>f. is_hex_id 32 (fst f) \<and> event_file_ok org f) (ao_events d)"
    using files assms(2) by (auto simp: list_all_iff event_file_ok_def log_events_def event_valid_def)
qed

theorem chained_validates:
  assumes "chained sha256 iso_text org d s evs"
  shows "validate_directory sha256 iso_text org d = Inr (s, entries_of_state sha256 iso_text org s evs)"
proof -
  obtain t where ev: "log_events org evs" "holds_events d evs" and t: "ao_tree d = Some t" "it_state t = Readable s" "it_strays t = []"
    "valid_chain_state sha256 org s" "dict_ok (it_entries t)"
    "set (it_entries t) = (\<lambda>a. (ce_sequence a, Readable a)) ` set (entries_of_state sha256 iso_text org s evs)"
    "cs_head_sequence s = cs_anchor_sequence s + int (length evs)"
    "cs_head_digest s = chain_head (cs_anchor_digest s) (entries_of_state sha256 iso_text org s evs)"
    using assms by (auto simp: chained_def tree_of_def)
  note by_id = holds_events_by_id [OF ev(2,1)]
  let ?ns = "[cs_anchor_sequence s + 1 .. cs_head_sequence s]"
  have ns: "?ns = [cs_anchor_sequence s + 1 .. cs_anchor_sequence s + 1 + int (length evs) - 1]" using t(7) by simp
  have walk: "walk_entries sha256 iso_text org (cs_generation s) (events_by_id d) (it_entries t) ?ns (cs_anchor_digest s)
      = Inr (entries_of_state sha256 iso_text org s evs, cs_head_digest s)"
    unfolding ns t(8) entries_of_state_def
  proof (rule walk_chain)
    fix a assume "a \<in> set (chain_entries sha256 iso_text org (cs_generation s) (cs_anchor_sequence s + 1) (cs_anchor_digest s) evs)"
    then show "map_of (it_entries t) (ce_sequence a) = Some (Readable a)"
      using t(5,6) by (intro dict_ok_map_of) (auto simp: entries_of_state_def)
  next
    fix e assume "e \<in> set evs"
    then show "map_of (events_by_id d) (ae_id e) = Some e" using by_id(1,2) by (intro map_of_is_SomeI) auto
  qed
  have "map ce_sequence (entries_of_state sha256 iso_text org s evs) = ?ns" unfolding ns entries_of_state_def by (rule chain_entries_sequence)
  then have "set (map fst (it_entries t)) = set ?ns"
    using arg_cong [of _ _ set] unfolding set_map t(6) image_image fst_conv by (metis set_map)
  moreover have "set (map ce_event_id (entries_of_state sha256 iso_text org s evs)) = set (map fst (events_by_id d))"
    unfolding entries_of_state_def chain_entries_ids set_map by_id(1) image_image fst_conv ..
  moreover have "int (length (entries_of_state sha256 iso_text org s evs)) = cs_retained s"
    using t(4,7) by (simp add: entries_of_state_def valid_chain_state_def)
  ultimately show ?thesis
    using t(1-4) by_id(2,3) walk by (simp add: validate_directory_def Let_def)
qed


end
