(* ===== verification/Audit_Operations.thy ===== *)
theory Audit_Operations
  imports Audit_Integrity
begin

section \<open>The operations of the product audit log\<close>

text \<open>
  Every operation of \<^verbatim>\<open>backend/app/product_audit.py\<close>, run without a fault, implements an operation on the list of events:
  the purge drops the expired prefix, recording appends, anonymization maps over the list and starts a new generation. A
  stop in the middle of recording leaves a directory that every operation refuses.
\<close>

subsection \<open>One organization of the store\<close>

lemma dict_set_again: "dict_set k v (dict_set k w d) = dict_set k v d"
  by (induction k w d rule: dict_set.induct) auto

lemma org_of_set [simp]: "org_of org (set_org org' f st) = (if org = org' then f (org_of org st) else org_of org st)"
  by (simp add: org_of_def set_org_def)

lemma set_org_again [simp]: "set_org org f (set_org org g st) = set_org org (\<lambda>d. f (g d)) st"
proof -
  have "org_of org (dict_set org x st) = x" for x by (simp add: org_of_def)
  then show ?thesis by (simp add: set_org_def dict_set_again)
qed

lemma temp_gone: "name \<notin> set (ao_temps d) \<Longrightarrow> remove_temp name (add_temp name d) = d"
  by (cases d) (auto simp: remove_temp_def add_temp_def filter_id_conv)

lemma set_org_cong: "f (org_of org st) = g (org_of org st) \<Longrightarrow> set_org org f st = set_org org g st"
  by (simp add: set_org_def)

lemma atomic_write_quiet:
  "\<not> left st \<Longrightarrow> atomic_write left create discard rename None st = (Done (), None, rename (discard (create st)))"
  by (simp add: atomic_write_def bind_read bind_step_quiet os_error_as_def on_os_failure_def step_fs_quiet)

lemma write_named_quiet:
  assumes "name \<notin> set (ao_temps (org_of org st))"
  shows "write_named org name f None st = (Done (), None, set_org org f st)"
  unfolding write_named_def
  by (subst atomic_write_quiet) (use assms in \<open>auto intro!: set_org_cong simp: temp_gone\<close>)

lemma bind_write_named:
  "name \<notin> set (ao_temps (org_of org st)) \<Longrightarrow> bind_io (write_named org name f) g None st = g () None (set_org org f st)"
  by (rule bind_Done) (rule write_named_quiet)

lemma write_entry_quiet:
  assumes "ao_tree (org_of org st) = Some t" "it_strays t = []"
  shows "write_entry org a None st = (Done (), None, set_org org (on_tree (put_entry a)) st)"
  unfolding write_entry_def Let_def
  by (subst atomic_write_quiet) (use assms in \<open>auto intro!: set_org_cong simp: on_tree_def put_entry_def\<close>)

lemma load_event_ok: "event_file_ok org f \<Longrightarrow> \<exists>e. file_event f = Some e \<and> load_event org f = Inr e"
  by (auto simp: event_file_ok_def load_event_def split: prod.splits file_content.splits)

lemma load_events_holds:
  assumes "holds_events d evs" "log_events org evs"
  shows "\<exists>es. load_organization_events org d = Inr es \<and> set es = set evs \<and> distinct (map ae_id es)"
proof -
  note by_id = holds_events_by_id [OF assms]
  have "load_organization_events org d = Inr (List.map_filter file_event (ao_events d))"
    if "list_all (\<lambda>f. is_hex_id 32 (fst f) \<and> event_file_ok org f) (ao_events d)" for d
  proof -
    have "map_res (load_event org) fs = Inr (List.map_filter file_event fs)" if "list_all (event_file_ok org) fs" for fs
      using that by (induction fs) (auto simp: List.map_filter_def dest!: load_event_ok)
    moreover have "filter (\<lambda>(stem, c). is_hex_id 32 stem) (ao_events d) = ao_events d"
      using that by (auto simp: filter_id_conv list_all_iff)
    ultimately show ?thesis using that by (simp add: load_organization_events_def list_all_iff)
  qed
  from this [OF by_id(3)] show ?thesis
    using by_id(1,2) by (auto simp: events_by_id_def comp_def image_iff inj_on_def)
qed

subsection \<open>Reading a log\<close>

definition digest_function :: "(string \<Rightarrow> string) \<Rightarrow> bool" where
  "digest_function sha256 \<longleftrightarrow> (\<forall>x. is_hex_id 64 (sha256 x) \<and> sha256 x \<noteq> chain_zero)"

text \<open>No temporary file is left over.\<close>

definition log_at ::
  "(string \<Rightarrow> string) \<Rightarrow> (instant \<Rightarrow> string) \<Rightarrow> string \<Rightarrow> audit_store \<Rightarrow> chain_state \<Rightarrow> audit_event list \<Rightarrow> bool" where
  "log_at sha256 iso_text org st s evs \<longleftrightarrow> chained sha256 iso_text org (org_of org st) s evs \<and> ao_temps (org_of org st) = []"

lemma chained_tree:
  assumes "chained sha256 iso_text org d s evs"
  obtains t where "ao_tree d = Some t" "tree_of sha256 iso_text org s evs t" "log_events org evs" "holds_events d evs"
  using assms unfolding chained_def by blast

lemma ensure_log:
  assumes "chained sha256 iso_text org (org_of org st) s evs"
  shows "ensure_integrity sha256 iso_text org b st = (Done (s, False), b, st)"
proof -
  obtain t :: integrity_tree where "ao_tree (org_of org st) = Some t" "it_state t = Readable s" "valid_chain_state sha256 org s"
    using chained_tree [OF assms] unfolding tree_of_def by metis
  then show ?thesis by (simp add: ensure_integrity_def bind_read bind_from_res load_integrity_state_def ret_def)
qed

lemma verify_log:
  assumes "chained sha256 iso_text org (org_of org st) s evs" "expected = None \<or> expected = Some s"
  shows "verify_integrity_unlocked sha256 iso_text org expected b st = (Done (entries_of_state sha256 iso_text org s evs), b, st)"
  using assms(2) by (auto simp: verify_integrity_unlocked_def bind_from_res chained_validates [OF assms(1)] ret_def)

lemma bind_ensure_log:
  "chained sha256 iso_text org (org_of org st) s evs \<Longrightarrow> bind_io (ensure_integrity sha256 iso_text org) f b st = f (s, False) b st"
  by (rule bind_Done) (rule ensure_log)

lemma bind_verify_log:
  "chained sha256 iso_text org (org_of org st) s evs \<Longrightarrow> expected = None \<or> expected = Some s \<Longrightarrow>
    bind_io (verify_integrity_unlocked sha256 iso_text org expected) f b st = f (entries_of_state sha256 iso_text org s evs) b st"
  by (rule bind_Done) (rule verify_log)

lemma load_log:
  assumes "chained sha256 iso_text org d s evs"
  shows "\<exists>es. load_organization_events org d = Inr es \<and> set es = set evs \<and> distinct (map ae_id es)"
  using load_events_holds assms unfolding chained_def by blast

subsection \<open>The purge\<close>

lemma takeWhile_related:
  "list_all2 (\<lambda>x y. P x \<longleftrightarrow> Q y) xs ys \<Longrightarrow> takeWhile P xs = take (length (takeWhile Q ys)) xs"
  by (induction rule: list_all2_induct) simp_all

lemma find_by_id:
  assumes "distinct (map ae_id es)" "e \<in> set es"
  shows "find (\<lambda>x. ae_id x = ae_id e) es = Some e"
  using assms by (induction es) auto

lemma expired_entries:
  assumes "set es = set evs" "distinct (map ae_id es)"
  shows "takeWhile (entry_expired cutoff es) (chain_entries sha256 iso_text org g n p evs)
    = take (length (takeWhile (\<lambda>e. ae_occurred_at e < cutoff) evs)) (chain_entries sha256 iso_text org g n p evs)"
proof (rule takeWhile_related)
  have "entry_expired cutoff es a \<longleftrightarrow> ae_occurred_at e < cutoff" if "ce_event_id a = ae_id e" "e \<in> set evs" for a e
    using find_by_id [OF assms(2)] that assms(1) by (simp add: entry_expired_def)
  then show "list_all2 (\<lambda>a e. entry_expired cutoff es a \<longleftrightarrow> ae_occurred_at e < cutoff) (chain_entries sha256 iso_text org g n p evs) evs"
    using chain_entries_ids [of sha256 iso_text org g n p evs]
    by (auto simp: list_all2_conv_all_nth) (metis chain_entries_length nth_map nth_mem)+
qed

definition drop_all :: "chain_entry list \<Rightarrow> audit_org \<Rightarrow> audit_org" where
  "drop_all = fold (\<lambda>a d. on_tree (drop_entry (ce_sequence a)) (drop_event (ce_event_id a) d))"

lemma drop_all_simps [simp]:
  "ao_events (drop_all as d) = filter (\<lambda>f. fst f \<notin> ce_event_id ` set as) (ao_events d)"
  "ao_tree (drop_all as d) = map_option (\<lambda>t. t\<lparr>it_entries := filter (\<lambda>f. fst f \<notin> ce_sequence ` set as) (it_entries t)\<rparr>) (ao_tree d)"
  "ao_temps (drop_all as d) = ao_temps d"
proof -
  show "ao_events (drop_all as d) = filter (\<lambda>f. fst f \<notin> ce_event_id ` set as) (ao_events d)"
    unfolding drop_all_def
    by (induction as arbitrary: d) (auto simp: on_tree_def drop_event_def dict_pop_def intro!: filter_cong)
  show "ao_tree (drop_all as d) = map_option (\<lambda>t. t\<lparr>it_entries := filter (\<lambda>f. fst f \<notin> ce_sequence ` set as) (it_entries t)\<rparr>) (ao_tree d)"
    unfolding drop_all_def
    by (induction as arbitrary: d) (auto simp: on_tree_def drop_event_def drop_entry_def dict_pop_def option.map_comp comp_def option.map_ident
        intro!: filter_cong option.map_cong)
  show "ao_temps (drop_all as d) = ao_temps d"
    unfolding drop_all_def by (induction as arbitrary: d) (simp_all add: on_tree_def drop_event_def)
qed

lemma for_each_drop:
  "for_each as (\<lambda>a. bind_io (step_fs (set_org org (drop_event (ce_event_id a)))) (\<lambda>_.
      step_fs (set_org org (on_tree (drop_entry (ce_sequence a)))))) None (set_org org g st)
    = (Done (), None, set_org org (\<lambda>d. drop_all as (g d)) st)"
proof (induction as arbitrary: g)
  case (Cons a as)
  from Cons.IH [of "\<lambda>d. on_tree (drop_entry (ce_sequence a)) (drop_event (ce_event_id a) (g d))"] show ?case
    by (simp add: bind_io_def step_fs_def drop_all_def)
qed (simp add: ret_def drop_all_def)


lemma bind_drop:
  "bind_io (for_each as (\<lambda>a. bind_io (step_fs (set_org org (drop_event (ce_event_id a)))) (\<lambda>_.
      step_fs (set_org org (on_tree (drop_entry (ce_sequence a))))))) f None (set_org org g st)
    = f () None (set_org org (\<lambda>d. drop_all as (g d)) st)"
  by (rule bind_Done) (rule for_each_drop)

lemma entries_split:
  assumes "0 < k" "k \<le> length evs"
  shows "take k (entries_of_state sha256 iso_text org s evs) = entries_of_state sha256 iso_text org s (take k evs)"
    "entries_of_state sha256 iso_text org s evs = entries_of_state sha256 iso_text org s (take k evs) @
       entries_of_state sha256 iso_text org (advance_anchor s (entries_of_state sha256 iso_text org s (take k evs))) (drop k evs)"
    "ce_sequence (last (entries_of_state sha256 iso_text org s (take k evs))) = cs_anchor_sequence s + int k"
proof -
  let ?E = "entries_of_state sha256 iso_text org s (take k evs)"
  have len: "length ?E = k" using assms(2) by (simp add: entries_of_state_def)
  then have ne: "?E \<noteq> []" using assms(1) by auto
  have "map ce_sequence ?E = [cs_anchor_sequence s + 1 .. cs_anchor_sequence s + 1 + int (length (take k evs)) - 1]"
    unfolding entries_of_state_def by (rule chain_entries_sequence)
  then have "last (map ce_sequence ?E) = last [cs_anchor_sequence s + 1 .. cs_anchor_sequence s + int k]" using assms(2) by (simp add: min_absorb2)
  moreover have "last [i .. j] = j" if "i \<le> j" for i j :: int using that upto_rec2 [of i j] by simp
  ultimately show seq: "ce_sequence (last ?E) = cs_anchor_sequence s + int k" using assms(1) ne by (simp add: last_map)
  have split: "entries_of_state sha256 iso_text org s (take k evs @ drop k evs) = ?E @
      entries_of_state sha256 iso_text org (advance_anchor s ?E) (drop k evs)"
    unfolding entries_of_state_def chain_entries_append using seq assms ne
    by (simp add: advance_anchor_def chain_head_def entries_of_state_def min_absorb2 algebra_simps)
  then show "entries_of_state sha256 iso_text org s evs = ?E @ entries_of_state sha256 iso_text org (advance_anchor s ?E) (drop k evs)" by simp
  then show "take k (entries_of_state sha256 iso_text org s evs) = ?E" using len by simp
qed

lemma entries_hex: "digest_function sha256 \<Longrightarrow> a \<in> set (chain_entries sha256 iso_text org g n p evs) \<Longrightarrow> is_hex_id 64 (ce_digest a) \<and> ce_digest a \<noteq> chain_zero"
  by (induction evs arbitrary: n p) (auto simp: Let_def build_chain_entry_def digest_function_def)

lemma entries_sequence_distinct: "distinct (map ce_sequence (entries_of_state sha256 iso_text org s evs))"
  unfolding entries_of_state_def chain_entries_sequence by simp

lemma advance_valid:
  assumes "digest_function sha256" "valid_chain_state sha256 org s" "0 < k" "k \<le> length evs"
    "cs_head_sequence s = cs_anchor_sequence s + int (length evs)"
    "cs_head_digest s = chain_head (cs_anchor_digest s) (entries_of_state sha256 iso_text org s evs)"
  defines "s' \<equiv> advance_anchor s (entries_of_state sha256 iso_text org s (take k evs))"
  shows "valid_chain_state sha256 org s'" "cs_head_sequence s' = cs_anchor_sequence s' + int (length (drop k evs))"
    "cs_head_digest s' = chain_head (cs_anchor_digest s') (entries_of_state sha256 iso_text org s' (drop k evs))"
proof -
  let ?E = "entries_of_state sha256 iso_text org s (take k evs)"
  note split = entries_split [OF assms(3,4), of sha256 iso_text org s]
  have len: "length ?E = k" using assms(4) by (simp add: entries_of_state_def)
  then have ne: "?E \<noteq> []" using assms(3) by auto
  then have hex: "is_hex_id 64 (ce_digest (last ?E))" using entries_hex [OF assms(1)] last_in_set [OF ne] unfolding entries_of_state_def by blast
  show seq: "cs_head_sequence s' = cs_anchor_sequence s' + int (length (drop k evs))"
    using assms(4,5) split(3) by (simp add: s'_def advance_anchor_def of_nat_diff)
  show head: "cs_head_digest s' = chain_head (cs_anchor_digest s') (entries_of_state sha256 iso_text org s' (drop k evs))"
    using assms(6) split(2) ne by (simp add: chain_head_def s'_def [symmetric]) (simp add: s'_def advance_anchor_def)
  have ret: "cs_retained s' = int (length evs) - int k"
    using assms(2,5) len by (simp add: s'_def advance_anchor_def valid_chain_state_def)
  have "cs_head_digest s' = cs_anchor_digest s'" if "k = length evs"
    using that head by (simp add: chain_head_def entries_of_state_def)
  then have "0 < cs_retained s' \<or> cs_head_digest s' = cs_anchor_digest s'" using ret assms(4) by (cases "k = length evs") auto
  moreover have "cs_anchor_sequence s' = cs_anchor_sequence s + int k" "cs_anchor_digest s' = ce_digest (last ?E)" "cs_head_sequence s' = cs_head_sequence s"
    "cs_organization_id s' = cs_organization_id s" "cs_generation s' = cs_generation s" "cs_parent s' = cs_parent s" "cs_head_digest s' = cs_head_digest s"
    using split(3) by (simp_all add: s'_def advance_anchor_def)
  ultimately show "valid_chain_state sha256 org s'"
    using assms(2-5) hex ret unfolding valid_chain_state_def by simp
qed

lemma without_prefix:
  assumes "distinct (map key (xs @ ys))"
  shows "{f \<in> (\<lambda>a. (key a, val a)) ` set (xs @ ys). fst f \<notin> key ` set xs} = (\<lambda>a. (key a, val a)) ` set ys"
  using assms by auto (metis disjoint_iff imageI)

lemma chained_drop:
  assumes "digest_function sha256" "chained sha256 iso_text org d s evs" "0 < k" "k \<le> length evs"
  defines "E \<equiv> entries_of_state sha256 iso_text org s (take k evs)"
  shows "chained sha256 iso_text org (drop_all E (on_tree (\<lambda>t. t\<lparr>it_state := Readable (advance_anchor s E)\<rparr>) d)) (advance_anchor s E) (drop k evs)"
proof -
  let ?s = "advance_anchor s E" and ?F = "entries_of_state sha256 iso_text org (advance_anchor s E) (drop k evs)"
  obtain t :: integrity_tree where t: "ao_tree d = Some t" "tree_of sha256 iso_text org s evs t" and ev: "log_events org evs" "holds_events d evs"
    using chained_tree [OF assms(2)] by metis
  note t' = t(2) [unfolded tree_of_def]
  note split = entries_split [OF assms(3,4), of sha256 iso_text org s, folded E_def]
  note valid = advance_valid [OF assms(1) _ assms(3,4), of org s iso_text, folded E_def]
  have ids: "ce_event_id ` set E = ae_id ` set (take k evs)"
    using arg_cong [OF chain_entries_ids [of sha256 iso_text org "cs_generation s" "cs_anchor_sequence s + 1" "cs_anchor_digest s" "take k evs"], of set]
    by (simp add: E_def entries_of_state_def)
  have "distinct (map ce_sequence (E @ ?F))" using entries_sequence_distinct [of sha256 iso_text org s evs] split(2) by simp
  moreover have "set (it_entries t) = (\<lambda>a. (ce_sequence a, Readable a)) ` set (E @ ?F)" using t' split(2) by simp
  ultimately have "set (filter (\<lambda>f. fst f \<notin> ce_sequence ` set E) (it_entries t)) = (\<lambda>a. (ce_sequence a, Readable a)) ` set ?F"
    unfolding set_filter using without_prefix [of ce_sequence E ?F Readable] by simp
  moreover have "log_events org (drop k evs)" using ev(1) by (auto simp: log_events_def list_all_iff dest: in_set_dropD simp flip: drop_map)
  moreover have "set (filter (\<lambda>f. fst f \<notin> ce_event_id ` set E) (ao_events d)) = files_of (drop k evs)"
  proof -
    have "distinct (map ae_id (take k evs @ drop k evs))" using ev(1) by (simp add: log_events_def)
    moreover have "set (ao_events d) = (\<lambda>e. (ae_id e, Readable e)) ` set (take k evs @ drop k evs)"
      using ev(2) by (simp add: holds_events_def files_of_def)
    ultimately show ?thesis unfolding set_filter ids files_of_def using without_prefix [of ae_id "take k evs" "drop k evs" Readable] by simp
  qed
  ultimately show ?thesis
    using t(1) t' ev valid by (auto simp: chained_def tree_of_def holds_events_def on_tree_def dict_ok_def distinct_map_filter)
qed


definition same_elsewhere :: "string \<Rightarrow> audit_store \<Rightarrow> audit_store \<Rightarrow> bool" where
  "same_elsewhere org st st' \<longleftrightarrow> (\<forall>x. x \<noteq> org \<longrightarrow> org_of x st' = org_of x st)"

lemma same_elsewhere_simps [simp, intro]:
  "same_elsewhere org st st" "same_elsewhere org st (set_org org f st)"
  by (simp_all add: same_elsewhere_def)

lemma same_elsewhere_trans: "same_elsewhere org a b \<Longrightarrow> same_elsewhere org b c \<Longrightarrow> same_elsewhere org a c"
  by (simp add: same_elsewhere_def)

lemma filter_fewer: "length (filter (\<lambda>x. P x \<and> Q x) xs) \<le> length (filter Q xs)"
  by (induction xs) auto

lemma event_count_fewer:
  assumes "ao_events (f (org_of org st)) = filter P (ao_events (org_of org st))"
  shows "event_count c (set_org org f st) \<le> event_count c st"
proof -
  have gen: "event_count c (dict_set org d st) \<le> event_count c st" if "ao_events d = filter P (ao_events (org_of org st))" for d st
    using that
  proof (induction st)
    case Nil
    then show ?case by (simp add: event_count_def org_of_def empty_org_def)
  next
    case (Cons x st)
    show ?case
    proof (cases "fst x = org")
      case True
      then show ?thesis using Cons.prems by (cases x) (simp add: event_count_def org_of_def filter_fewer)
    next
      case False
      then have "org_of org (x # st) = org_of org st" by (cases x) (simp add: org_of_def)
      then show ?thesis using Cons False by (cases x) (simp add: event_count_def)
    qed
  qed
  then show ?thesis using assms by (simp add: set_org_def)
qed

lemma purge_log:
  fixes cutoff :: instant
  assumes "digest_function sha256" "log_at sha256 iso_text org st s evs"
  defines "gone \<equiv> \<lambda>e. ae_occurred_at e < cutoff"
  shows "\<exists>st' s'. purge_organization sha256 iso_text cutoff org None st = (Done (length (takeWhile gone evs)), None, st') \<and>
    log_at sha256 iso_text org st' s' (dropWhile gone evs) \<and> same_elsewhere org st st' \<and>
    cs_generation s' = cs_generation s \<and> cs_head_digest s' = cs_head_digest s \<and> (\<forall>c. event_count c st' \<le> event_count c st)"
proof -
  let ?k = "length (takeWhile gone evs)" and ?E = "entries_of_state sha256 iso_text org s (take (length (takeWhile gone evs)) evs)"
  have ch: "chained sha256 iso_text org (org_of org st) s evs" and temps: "ao_temps (org_of org st) = []"
    using assms(2) by (simp_all add: log_at_def)
  obtain es where es: "load_organization_events org (org_of org st) = Inr es" "set es = set evs" "distinct (map ae_id es)"
    using load_log [OF ch] by blast
  have exp: "takeWhile (entry_expired cutoff es) (entries_of_state sha256 iso_text org s evs) = take ?k (entries_of_state sha256 iso_text org s evs)"
    unfolding gone_def entries_of_state_def by (rule expired_entries [OF es(2,3)])
  note run = purge_organization_def bind_ensure_log [OF ch] bind_verify_log [OF ch] bind_from_res es(1) exp
  show ?thesis
  proof (cases "?k = 0")
    case True
    then have "dropWhile gone evs = evs" by (metis dropWhile_eq_drop drop0)
    moreover have "purge_organization sha256 iso_text cutoff org None st = (Done 0, None, st)" using True by (simp add: run ret_def)
    ultimately show ?thesis using assms(2) True by auto
  next
    case False
    let ?st = "set_org org (\<lambda>d. drop_all ?E (on_tree (\<lambda>t. t\<lparr>it_state := Readable (advance_anchor s ?E)\<rparr>) d)) st"
    have k: "0 < ?k" "?k \<le> length evs" using False length_takeWhile_le by auto
    note split = entries_split [OF k, of sha256 iso_text org s]
    have E: "length ?E = ?k" using k by (simp add: entries_of_state_def min_absorb2)
    then have "?E \<noteq> []" using k(1) by (metis length_0_conv less_numeral_extra(3))
    note E = E this
    have "purge_organization sha256 iso_text cutoff org None st = (Done ?k, None, ?st)"
      using E temps by (simp add: run split(1) write_state_def Let_def bind_write_named bind_drop ret_def)
    moreover have "log_at sha256 iso_text org ?st (advance_anchor s ?E) (dropWhile gone evs)"
      using chained_drop [OF assms(1) ch k] temps unfolding log_at_def dropWhile_eq_drop by (simp add: on_tree_def)
    moreover have "same_elsewhere org st ?st" by simp
    moreover have "event_count c ?st \<le> event_count c st" for c by (rule event_count_fewer) (simp add: on_tree_def)
    ultimately show ?thesis by (intro exI [of _ ?st] exI [of _ "advance_anchor s ?E"]) (simp add: advance_anchor_def)
  qed
qed


subsection \<open>Recording an event\<close>

definition append_state :: "chain_state \<Rightarrow> chain_entry \<Rightarrow> chain_state" where
  "append_state s a = s\<lparr>cs_head_sequence := cs_head_sequence s + 1, cs_head_digest := ce_digest a, cs_retained := cs_retained s + 1\<rparr>"

definition append_files :: "audit_event \<Rightarrow> chain_entry \<Rightarrow> chain_state \<Rightarrow> audit_org \<Rightarrow> audit_org" where
  "append_files e a s d = on_tree (\<lambda>t. t\<lparr>it_state := Readable s\<rparr>) (on_tree (put_entry a) (put_event e d))"

lemma put_new_event:
  assumes "holds_events d evs" "ae_id e \<notin> ae_id ` set evs"
  shows "holds_events (put_event e d) (evs @ [e])"
proof -
  have "set (dict_set (ae_id e) (Readable e) (ao_events d)) = files_of (evs @ [e])"
    using assms by (subst dict_set_new) (auto simp: holds_events_def files_of_def)
  then show ?thesis using assms(1) by (simp add: holds_events_def put_event_def)
qed

lemma chained_append:
  assumes "digest_function sha256" "chained sha256 iso_text org d s evs"
    and e: "event_valid e" "ae_organization_id e = org" "ae_id e \<notin> ae_id ` set evs"
  defines "a \<equiv> build_chain_entry sha256 iso_text org (cs_generation s) (cs_head_sequence s + 1) e (cs_head_digest s)"
  shows "chained sha256 iso_text org (append_files e a (append_state s a) d) (append_state s a) (evs @ [e])"
proof -
  obtain t :: integrity_tree where t: "ao_tree d = Some t" "tree_of sha256 iso_text org s evs t" and ev: "log_events org evs" "holds_events d evs"
    using chained_tree [OF assms(2)] by metis
  note t' = t(2) [unfolded tree_of_def]
  let ?s = "append_state s a"
  have head: "cs_head_sequence s = cs_anchor_sequence s + int (length evs)"
    "cs_head_digest s = chain_head (cs_anchor_digest s) (entries_of_state sha256 iso_text org s evs)" using t' by simp_all
  have entries: "entries_of_state sha256 iso_text org ?s (evs @ [e]) = entries_of_state sha256 iso_text org s evs @ [a]"
    using head by (simp add: entries_of_state_def chain_entries_append append_state_def Let_def a_def algebra_simps)
  have seq: "ce_sequence a = cs_head_sequence s + 1" by (simp add: a_def build_chain_entry_def)
  have "ce_sequence ` set (entries_of_state sha256 iso_text org s evs) = {cs_anchor_sequence s + 1 .. cs_head_sequence s}"
    using arg_cong [OF chain_entries_sequence [of sha256 iso_text org "cs_generation s" "cs_anchor_sequence s + 1" "cs_anchor_digest s" evs], of set] head(1)
    by (simp add: entries_of_state_def)
  then have new: "fst ` set (it_entries t) = {cs_anchor_sequence s + 1 .. cs_head_sequence s}" using t' by (simp add: image_image)
  have "is_hex_id 64 (ce_digest a)" using assms(1) by (simp add: a_def build_chain_entry_def digest_function_def)
  then have valid: "valid_chain_state sha256 org ?s" using t' by (auto simp: valid_chain_state_def append_state_def)
  note files = put_new_event [OF ev(2) e(3)]
  have "set (dict_set (ce_sequence a) (Readable a) (it_entries t)) =
      (\<lambda>a. (ce_sequence a, Readable a)) ` set (entries_of_state sha256 iso_text org ?s (evs @ [e]))"
    using t' new seq by (subst dict_set_new) (auto simp: entries)
  then have "tree_of sha256 iso_text org ?s (evs @ [e]) (t\<lparr>it_entries := dict_set (ce_sequence a) (Readable a) (it_entries t), it_state := Readable ?s\<rparr>)"
    using t' valid head by (simp add: tree_of_def entries chain_head_def) (simp add: append_state_def)
  moreover have "log_events org (evs @ [e])" using ev(1) e by (simp add: log_events_def)
  ultimately show ?thesis
    using t(1) files by (simp add: chained_def append_files_def holds_events_def on_tree_def put_event_def put_entry_def)
qed

lemma append_log:
  assumes "digest_function sha256" "log_at sha256 iso_text org st s evs"
    and e: "event_valid e" "ae_organization_id e = org" "ae_id e \<notin> ae_id ` set evs"
  shows "\<exists>st' s'. append_integrity_event sha256 iso_text e s None st = (Done (), None, st') \<and>
    log_at sha256 iso_text org st' s' (evs @ [e]) \<and> same_elsewhere org st st' \<and> cs_generation s' = cs_generation s"
proof -
  let ?a = "build_chain_entry sha256 iso_text org (cs_generation s) (cs_head_sequence s + 1) e (cs_head_digest s)"
  let ?s = "append_state s ?a" and ?st = "set_org org (append_files e ?a (append_state s ?a)) st"
  have ch: "chained sha256 iso_text org (org_of org st) s evs" and temps: "ao_temps (org_of org st) = []"
    using assms(2) by (simp_all add: log_at_def)
  obtain t :: integrity_tree where t: "ao_tree (org_of org st) = Some t" "it_strays t = []"
    using chained_tree [OF ch] by (metis tree_of_def)
  have files: "write_event org e None st = (Done (), None, set_org org (put_event e) st)"
    "write_entry org ?a None (set_org org (put_event e) st) = (Done (), None, set_org org (\<lambda>d. on_tree (put_entry ?a) (put_event e d)) st)"
    "write_state org ?s None (set_org org (\<lambda>d. on_tree (put_entry ?a) (put_event e d)) st) = (Done (), None, ?st)"
    using temps t unfolding write_event_def write_state_def
    by (simp_all add: write_named_quiet write_entry_quiet [where t = t] on_tree_def put_event_def append_files_def [abs_def])
  have "append_integrity_event sha256 iso_text e s None st = (Done (), None, ?st)"
    using files by (simp add: append_integrity_event_def Let_def e(2) verify_log [OF ch] on_raised_def bind_io_def append_state_def)
  moreover have "log_at sha256 iso_text org ?st ?s (evs @ [e])"
    using chained_append [OF assms(1) ch e] temps by (simp add: log_at_def append_files_def on_tree_def put_event_def)
  ultimately show ?thesis by (intro exI [of _ ?st] exI [of _ ?s]) (simp add: append_state_def)
qed


subsection \<open>The log of an organization\<close>

text \<open>
  The abstract state of an organization is its list of events. Before the first operation there may be event files and no
  tree; the events then count in the order in which the chain will be started.
\<close>

definition unchained :: "string \<Rightarrow> audit_org \<Rightarrow> audit_event list \<Rightarrow> bool" where
  "unchained org d evs \<longleftrightarrow> ao_tree d = None \<and> log_events org evs \<and> holds_events d evs \<and> sorted (map event_order evs)"

definition log_state :: "(string \<Rightarrow> string) \<Rightarrow> (instant \<Rightarrow> string) \<Rightarrow> string \<Rightarrow> audit_store \<Rightarrow> audit_event list \<Rightarrow> bool" where
  "log_state sha256 iso_text org st evs \<longleftrightarrow>
     (\<exists>s. log_at sha256 iso_text org st s evs) \<or> unchained org (org_of org st) evs \<and> ao_temps (org_of org st) = []"

lemma sort_key_unique:
  assumes "set xs = set ys" "distinct (map f xs)" "distinct (map f ys)" "sorted (map f ys)"
  shows "sort_key f xs = ys"
proof -
  have "map f (sort_key f xs) = map f ys"
    using assms by (intro sorted_distinct_set_unique) (auto simp: distinct_map distinct_sort)
  moreover have "inj_on f (set (sort_key f xs) \<union> set ys)" using assms(1,3) by (simp add: distinct_map)
  ultimately show ?thesis using inj_on_map_eq_map by blast
qed

lemma order_distinct: "distinct (map ae_id es) \<Longrightarrow> distinct (map event_order es)"
  by (auto simp: distinct_map event_order_def inj_on_def)

lemma chain_zero_hex [simp]: "is_hex_id 64 chain_zero"
  by (simp add: is_hex_id_def chain_zero_def list_all_iff is_hex_def is_digit_def code_def)

lemma built_tree:
  assumes "log_events org evs" "is_hex_id 64 parent" "is_hex_id 64 anchor" "digest_function sha256"
    and "g = 1 \<and> parent = chain_zero \<and> anchor = chain_zero \<or> 1 < g \<and> parent \<noteq> chain_zero \<and> anchor = rotation_seed sha256 parent"
    and "build_integrity_tree sha256 iso_text org evs g parent anchor = (t, s)"
  shows "tree_of sha256 iso_text org s evs t" "cs_generation s = g" "cs_parent s = parent"
proof -
  let ?E = "chain_entries sha256 iso_text org g 1 anchor evs"
  have s: "s = \<lparr>cs_organization_id = org, cs_generation = g, cs_parent = parent, cs_anchor_sequence = 0, cs_anchor_digest = anchor,
      cs_head_sequence = int (length evs), cs_head_digest = chain_head anchor ?E, cs_retained = int (length evs)\<rparr>"
    and t: "t = \<lparr>it_state = Readable s, it_entries = map (\<lambda>a. (ce_sequence a, Readable a)) ?E, it_strays = []\<rparr>"
    using assms(6) by (auto simp: build_integrity_tree_def Let_def chain_head_def)
  have E: "entries_of_state sha256 iso_text org s evs = ?E" by (simp add: s entries_of_state_def)
  have "is_hex_id 64 (chain_head anchor ?E)"
    using assms(3) entries_hex [OF assms(4) last_in_set, of iso_text org g 1 anchor evs] unfolding chain_head_def by metis
  then have "valid_chain_state sha256 org s" using assms(2,3,5) by (auto simp: valid_chain_state_def s chain_head_def)
  moreover have "dict_ok (it_entries t)"
    unfolding t dict_ok_def using entries_sequence_distinct [of sha256 iso_text org s evs] E by (simp add: comp_def)
  ultimately show "tree_of sha256 iso_text org s evs t" using E by (simp add: tree_of_def t) (simp add: s)
  show "cs_generation s = g" "cs_parent s = parent" by (simp_all add: s)
qed

lemma ensure_bootstrap:
  assumes "digest_function sha256" "unchained org (org_of org st) evs" "ao_temps (org_of org st) = []"
  shows "\<exists>st' s. ensure_integrity sha256 iso_text org None st = (Done (s, evs \<noteq> []), None, st') \<and> log_at sha256 iso_text org st' s evs \<and>
    cs_generation s = 1 \<and> same_elsewhere org st st' \<and> (\<forall>c. event_count c st' \<le> event_count c st)"
proof -
  have d: "ao_tree (org_of org st) = None" "log_events org evs" "holds_events (org_of org st) evs" "sorted (map event_order evs)"
    using assms(2) by (simp_all add: unchained_def)
  obtain es where es: "load_organization_events org (org_of org st) = Inr es" "set es = set evs" "distinct (map ae_id es)"
    using load_events_holds [OF d(3,2)] by blast
  have sorted: "sort_key event_order es = evs"
    using es d(2,4) by (intro sort_key_unique order_distinct) (simp_all add: log_events_def)
  obtain t s where ts: "build_integrity_tree sha256 iso_text org evs 1 chain_zero chain_zero = (t, s)" by fastforce
  let ?st = "set_org org (\<lambda>d. d\<lparr>ao_tree := Some t\<rparr>) st"
  have "es = [] \<longleftrightarrow> evs = []" using es(2) by (metis set_empty)
  then have "ensure_integrity sha256 iso_text org None st = (Done (s, evs \<noteq> []), None, ?st)"
    using d(1) es(1) ts sorted by (simp add: ensure_integrity_def bind_io_def read_fs_def step_fs_def from_res_def os_error_as_def ret_def)
  moreover note tree = built_tree [OF d(2) chain_zero_hex chain_zero_hex assms(1) _ ts]
  have "log_at sha256 iso_text org ?st s evs" "cs_generation s = 1"
    using tree d(2,3) assms(3) by (auto simp: log_at_def chained_def holds_events_def)
  moreover have "event_count c ?st \<le> event_count c st" for c by (rule event_count_fewer [where P = "\<lambda>_. True"]) simp
  ultimately show ?thesis by (intro exI [of _ ?st] exI [of _ s]) simp
qed


lemma purge_state:
  assumes "digest_function sha256" "log_state sha256 iso_text org st evs"
  shows "\<exists>st' s. purge_expired_unlocked sha256 iso_text days now (Some org) None st
      = (Done (length (takeWhile (\<lambda>e. ae_occurred_at e < retention_cutoff days now) evs)), None, st') \<and>
    log_at sha256 iso_text org st' s (dropWhile (\<lambda>e. ae_occurred_at e < retention_cutoff days now) evs) \<and>
    same_elsewhere org st st' \<and> (\<forall>c. event_count c st' \<le> event_count c st)"
proof -
  let ?gone = "\<lambda>e. ae_occurred_at e < retention_cutoff days now" and ?purge = "purge_organization sha256 iso_text (retention_cutoff days now) org"
  obtain st1 s1 where st1: "?purge None st = ?purge None st1" "log_at sha256 iso_text org st1 s1 evs"
    "same_elsewhere org st st1" "\<forall>c. event_count c st1 \<le> event_count c st"
  proof (cases "\<exists>s. log_at sha256 iso_text org st s evs")
    case True
    then show ?thesis using that by auto
  next
    case False
    then have "unchained org (org_of org st) evs" "ao_temps (org_of org st) = []" using assms(2) by (simp_all add: log_state_def)
    from ensure_bootstrap [OF assms(1) this] obtain st1 s1 where b: "ensure_integrity sha256 iso_text org None st = (Done (s1, evs \<noteq> []), None, st1)"
      "log_at sha256 iso_text org st1 s1 evs" "same_elsewhere org st st1" "\<forall>c. event_count c st1 \<le> event_count c st" by blast
    then have "ensure_integrity sha256 iso_text org None st1 = (Done (s1, False), None, st1)" by (auto intro: ensure_log simp: log_at_def)
    then have "?purge None st = ?purge None st1" by (simp add: purge_organization_def bind_io_def b(1))
    from that [OF this b(2-4)] show ?thesis .
  qed
  from purge_log [OF assms(1) st1(2), of "retention_cutoff days now"] obtain st' s' where
    p: "?purge None st1 = (Done (length (takeWhile ?gone evs)), None, st')" "log_at sha256 iso_text org st' s' (dropWhile ?gone evs)"
    "same_elsewhere org st1 st'" "\<forall>c. event_count c st' \<le> event_count c st1" by blast
  have "purge_expired_unlocked sha256 iso_text days now (Some org) None st = (Done (length (takeWhile ?gone evs)), None, st')"
    using p(1) st1(1) by (simp add: purge_expired_unlocked_def bind_io_def read_fs_def os_error_as_def ret_def)
  moreover have "event_count c st' \<le> event_count c st" for c using p(4) st1(4) order_trans by blast
  ultimately show ?thesis using p(2) same_elsewhere_trans [OF st1(3) p(3)] by blast
qed

lemma record_log:
  assumes "digest_function sha256" "log_state sha256 iso_text (ae_organization_id e) st evs"
    and "event_valid e" "ae_id e \<notin> ae_id ` set evs" "event_count (retention_cutoff days (ae_occurred_at e)) st < max_events"
  shows "\<exists>st' s. audit_record sha256 iso_text days max_events e None st = (Done e, None, st') \<and>
    log_at sha256 iso_text (ae_organization_id e) st' s
      (dropWhile (\<lambda>x. ae_occurred_at x < retention_cutoff days (ae_occurred_at e)) evs @ [e]) \<and>
    same_elsewhere (ae_organization_id e) st st'"
proof -
  let ?org = "ae_organization_id e" and ?cutoff = "retention_cutoff days (ae_occurred_at e)"
  let ?kept = "dropWhile (\<lambda>x. ae_occurred_at x < ?cutoff) evs"
  obtain n st1 s1 where p: "purge_expired_unlocked sha256 iso_text days (ae_occurred_at e) (Some ?org) None st = (Done n, None, st1)"
    "log_at sha256 iso_text ?org st1 s1 ?kept" "same_elsewhere ?org st st1" "event_count ?cutoff st1 \<le> event_count ?cutoff st"
    using purge_state [OF assms(1,2)] by blast
  have ch: "chained sha256 iso_text ?org (org_of ?org st1) s1 ?kept" using p(2) by (simp add: log_at_def)
  have "ae_id e \<notin> ae_id ` set ?kept" using assms(4) set_dropWhileD by fastforce
  from append_log [OF assms(1) p(2) assms(3) refl this] obtain st' s where
    a: "append_integrity_event sha256 iso_text e s1 None st1 = (Done (), None, st')" "log_at sha256 iso_text ?org st' s (?kept @ [e])"
    "same_elsewhere ?org st1 st'" by blast
  have "audit_record sha256 iso_text days max_events e None st = (Done e, None, st')"
    using assms(3,5) p(1,4) a(1) by (simp add: audit_record_def Let_def bind_io_def ensure_log [OF ch] read_fs_def ret_def)
  then show ?thesis using a(2) same_elsewhere_trans [OF p(3) a(3)] by blast
qed


text \<open>
  Recording an event, when nothing fails, appends it to the organization's log: the events older than the retention period
  that head the log are gone, every other event is kept in its place, the chain over the result is valid, and the directories
  of other organizations are as before. The event must be valid and new and the number of retained events below the limit.
\<close>

theorem record_appends:
  assumes "digest_function sha256" "log_state sha256 iso_text (ae_organization_id e) st evs"
    and "event_valid e" "ae_id e \<notin> ae_id ` set evs" "event_count (retention_cutoff days (ae_occurred_at e)) st < max_events"
  shows "\<exists>st' s. audit_record sha256 iso_text days max_events e None st = (Done e, None, st') \<and>
    log_at sha256 iso_text (ae_organization_id e) st' s
      (dropWhile (\<lambda>x. ae_occurred_at x < retention_cutoff days (ae_occurred_at e)) evs @ [e]) \<and>
    validate_directory sha256 iso_text (ae_organization_id e) (org_of (ae_organization_id e) st') =
      Inr (s, entries_of_state sha256 iso_text (ae_organization_id e) s
        (dropWhile (\<lambda>x. ae_occurred_at x < retention_cutoff days (ae_occurred_at e)) evs @ [e])) \<and>
    same_elsewhere (ae_organization_id e) st st'"
proof -
  from record_log [OF assms] show ?thesis using chained_validates unfolding log_at_def by blast
qed

subsection \<open>A run of records\<close>

fun all_accepted :: "('e \<Rightarrow> 's \<Rightarrow> bool) \<Rightarrow> ('e \<Rightarrow> 's \<Rightarrow> 's) \<Rightarrow> 'e list \<Rightarrow> 's \<Rightarrow> bool" where
  "all_accepted accepts put [] st \<longleftrightarrow> True"
| "all_accepted accepts put (e # es) st \<longleftrightarrow> accepts e st \<and> all_accepted accepts put es (put e st)"

text \<open>
  A log with retention: appending an accepted element drops a prefix of elements that are expired by then. The store is one
  such log for each organization.
\<close>

locale retained_log =
  fixes holds :: "'s \<Rightarrow> 'e list \<Rightarrow> bool"
    and accepts :: "'e \<Rightarrow> 's \<Rightarrow> bool"
    and put :: "'e \<Rightarrow> 's \<Rightarrow> 's"
    and expired :: "'e \<Rightarrow> 'e \<Rightarrow> bool"
  assumes put_holds: "holds st evs \<Longrightarrow> accepts e st \<Longrightarrow> holds (put e st) (dropWhile (expired e) evs @ [e])"
begin

lemma run_holds:
  assumes "holds st evs" "all_accepted accepts put es st"
  shows "\<exists>gone kept. evs @ es = gone @ kept \<and> holds (fold put es st) kept \<and> (\<forall>x \<in> set gone. \<exists>e \<in> set es. expired e x)"
  using assms
proof (induction es arbitrary: st evs)
  case Nil
  then show ?case by (intro exI [of _ "[]"] exI [of _ evs]) simp
next
  case (Cons e es)
  have next_log: "holds (put e st) (dropWhile (expired e) evs @ [e])" using Cons.prems put_holds by simp
  have "all_accepted accepts put es (put e st)" using Cons.prems(2) by simp
  from Cons.IH [OF next_log this] obtain gone kept where
    ih: "(dropWhile (expired e) evs @ [e]) @ es = gone @ kept" "holds (fold put es (put e st)) kept"
      "\<forall>x \<in> set gone. \<exists>e' \<in> set es. expired e' x" by blast
  have "evs @ e # es = (takeWhile (expired e) evs @ gone) @ kept" using ih(1) by (metis append.assoc append_Cons append_Nil takeWhile_dropWhile_id)
  moreover have "\<forall>x \<in> set (takeWhile (expired e) evs @ gone). \<exists>e' \<in> set (e # es). expired e' x"
    using ih(3) set_takeWhileD by fastforce
  moreover have "holds (fold put (e # es) st) kept" using ih(2) by simp
  ultimately show ?case by blast
qed

end

definition record_accepts :: "string \<Rightarrow> int \<Rightarrow> int \<Rightarrow> audit_event \<Rightarrow> audit_store \<Rightarrow> bool" where
  "record_accepts org days max_events e st \<longleftrightarrow>
     event_valid e \<and> ae_organization_id e = org \<and> ae_id e \<notin> set (map fst (ao_events (org_of org st))) \<and>
     event_count (retention_cutoff days (ae_occurred_at e)) st < max_events"

definition after_record ::
  "(string \<Rightarrow> string) \<Rightarrow> (instant \<Rightarrow> string) \<Rightarrow> int \<Rightarrow> int \<Rightarrow> audit_event \<Rightarrow> audit_store \<Rightarrow> audit_store" where
  "after_record sha256 iso_text days max_events e st = snd (snd (audit_record sha256 iso_text days max_events e None st))"

definition expired_at :: "int \<Rightarrow> audit_event \<Rightarrow> audit_event \<Rightarrow> bool" where
  "expired_at days e x \<longleftrightarrow> ae_occurred_at x < retention_cutoff days (ae_occurred_at e)"

lemma record_holds:
  assumes "digest_function sha256" "log_state sha256 iso_text org st evs" "record_accepts org days max_events e st"
  shows "log_state sha256 iso_text org (after_record sha256 iso_text days max_events e st) (dropWhile (expired_at days e) evs @ [e])"
proof -
  have e: "event_valid e" "ae_organization_id e = org" "event_count (retention_cutoff days (ae_occurred_at e)) st < max_events"
    "ae_id e \<notin> fst ` set (ao_events (org_of org st))" using assms(3) by (simp_all add: record_accepts_def)
  have "set (ao_events (org_of org st)) = files_of evs"
    using assms(2) by (auto simp: log_state_def log_at_def chained_def unchained_def holds_events_def)
  then have "ae_id e \<notin> ae_id ` set evs" using e(4) by (simp add: files_of_def image_image)
  from record_log [OF assms(1) assms(2) [folded e(2)] e(1) this e(3)] show ?thesis
    unfolding e(2) by (auto simp: log_state_def after_record_def expired_at_def [abs_def])
qed

interpretation audit_runs: retained_log
  "\<lambda>st evs. digest_function sha256 \<and> log_state sha256 iso_text org st evs" "record_accepts org days max_events"
  "after_record sha256 iso_text days max_events" "expired_at days"
  for sha256 iso_text org days max_events
  by unfold_locales (simp add: record_holds)

text \<open>
  C16. The audit trail is complete. When events are recorded one after another without a fault, each of them valid, new and within the
  capacity, the log at the end is the old log followed by the recorded events in the order of recording, less a prefix of
  events that were past the retention period when some event was recorded; without such events nothing is lost.
\<close>

theorem audit_trail_complete:
  assumes "digest_function sha256" "log_state sha256 iso_text org st evs"
    and "all_accepted (record_accepts org days max_events) (after_record sha256 iso_text days max_events) es st"
  shows "\<exists>gone kept. evs @ es = gone @ kept \<and>
      log_state sha256 iso_text org (fold (after_record sha256 iso_text days max_events) es st) kept \<and>
      (\<forall>x \<in> set gone. \<exists>e \<in> set es. ae_occurred_at x < retention_cutoff days (ae_occurred_at e))"
  using audit_runs.run_holds [of sha256 iso_text org st evs days max_events es] assms unfolding expired_at_def by blast


subsection \<open>Listing\<close>

definition retained :: "int \<Rightarrow> instant \<Rightarrow> audit_event list \<Rightarrow> audit_event list" where
  "retained days now evs = dropWhile (\<lambda>e. ae_occurred_at e < retention_cutoff days now) evs"

lemma retained_again [simp]: "retained days now (retained days now evs) = retained days now evs"
  unfolding retained_def by (induction evs) simp_all

lemma sort_key_same:
  assumes "set xs = set ys" "distinct (map ae_id xs)" "distinct (map ae_id ys)"
  shows "sort_key event_order (filter P xs) = sort_key event_order (filter P ys)"
proof (rule sort_key_unique)
  show "distinct (map event_order (filter P xs))" using assms(2) by (intro order_distinct) (simp add: distinct_map_filter)
  have "distinct (map event_order (filter P ys))" using assms(3) by (intro order_distinct) (simp add: distinct_map_filter)
  then show "distinct (map event_order (sort_key event_order (filter P ys)))"
    using mset_eq_imp_distinct_iff [of "map event_order (sort_key event_order (filter P ys))" "map event_order (filter P ys)"] by simp
qed (use assms in simp_all)

lemma checked_events_log:
  assumes "digest_function sha256" "log_state sha256 iso_text org st evs"
  shows "\<exists>st' es. checked_events sha256 iso_text days now org None st = (Done es, None, st') \<and> set es = set (retained days now evs) \<and>
    distinct (map ae_id es) \<and> distinct (map ae_id (retained days now evs)) \<and> log_state sha256 iso_text org st' (retained days now evs)"
proof -
  obtain n st' s where p: "purge_expired_unlocked sha256 iso_text days now (Some org) None st = (Done n, None, st')"
    "log_at sha256 iso_text org st' s (retained days now evs)"
    using purge_state [OF assms] unfolding retained_def by blast
  have ch: "chained sha256 iso_text org (org_of org st') s (retained days now evs)" using p(2) by (simp add: log_at_def)
  obtain es where es: "load_organization_events org (org_of org st') = Inr es" "set es = set (retained days now evs)" "distinct (map ae_id es)"
    using load_log [OF ch] by blast
  have "checked_events sha256 iso_text days now org None st = (Done es, None, st')"
    using p(1) es(1) by (simp add: checked_events_def bind_io_def verify_log [OF ch] from_res_def)
  moreover have "distinct (map ae_id (retained days now evs))" using ch by (simp add: chained_def log_events_def)
  ultimately show ?thesis using es(2,3) p(2) unfolding log_state_def by blast
qed

lemma audit_page_same:
  assumes "set xs = set ys" "distinct (map ae_id xs)" "distinct (map ae_id ys)"
  shows "audit_page limit cursor action xs = audit_page limit cursor action ys"
proof -
  have "sort_key event_order (case action of None \<Rightarrow> xs | Some a \<Rightarrow> filter (\<lambda>e. ae_action e = a) xs) =
      sort_key event_order (case action of None \<Rightarrow> ys | Some a \<Rightarrow> filter (\<lambda>e. ae_action e = a) ys)"
    using sort_key_same [OF assms, of "\<lambda>_. True"] sort_key_same [OF assms] by (cases action) simp_all
  then show ?thesis unfolding audit_page_def Let_def by (simp only:)
qed

definition newest_first :: "string option \<Rightarrow> audit_event list \<Rightarrow> audit_event list" where
  "newest_first action evs = rev (sort_key event_order (filter (\<lambda>e. action = None \<or> action = Some (ae_action e)) evs))"

lemma newest_first_distinct: "distinct (map ae_id evs) \<Longrightarrow> distinct (map ae_id (newest_first action evs))"
  using mset_eq_imp_distinct_iff [of "map ae_id (newest_first action evs)" "map ae_id (filter (\<lambda>e. action = None \<or> action = Some (ae_action e)) evs)"]
  by (simp add: newest_first_def distinct_map_filter)

lemma position_of_nth: "distinct (map ae_id L) \<Longrightarrow> j < length L \<Longrightarrow> position_of (ae_id (L ! j)) L = Some j"
proof (induction L arbitrary: j)
  case (Cons e L)
  then show ?case by (cases j) (auto simp: image_iff)
qed simp

definition cursor_at :: "nat \<Rightarrow> audit_event list \<Rightarrow> string option" where
  "cursor_at k L = (if k = 0 then None else Some (ae_id (L ! (k - 1))))"

lemma audit_page_slice:
  assumes "distinct (map ae_id evs)" "0 < limit" "k < length (newest_first action evs) \<or> k = 0"
  shows "audit_page limit (cursor_at k (newest_first action evs)) action evs = Inr (take limit (drop k (newest_first action evs)),
    if k + limit < length (newest_first action evs) then cursor_at (k + limit) (newest_first action evs) else None)"
proof -
  let ?L = "newest_first action evs"
  have L: "rev (sort_key event_order (case action of None \<Rightarrow> evs | Some a \<Rightarrow> filter (\<lambda>e. ae_action e = a) evs)) = ?L"
    by (cases action) (auto simp: newest_first_def intro!: arg_cong [of _ _ "sort_key event_order"] filter_cong)
  have pos: "position_of (ae_id (?L ! (k - 1))) ?L = Some (k - 1)" if "0 < k"
    using position_of_nth [OF newest_first_distinct [OF assms(1)]] assms(3) that by simp
  have "last (take limit (drop k ?L)) = ?L ! (k + limit - 1)" if "k + limit < length ?L"
    using that assms(2) by (simp add: last_conv_nth min_absorb2)
  then show ?thesis using assms(2,3) pos
    by (auto simp: audit_page_def Let_def L cursor_at_def min_def split: if_splits)
qed


text \<open>A client that follows \<^verbatim>\<open>next_cursor\<close>, with at most so many requests.\<close>

fun collect_list ::
  "(string \<Rightarrow> string) \<Rightarrow> (instant \<Rightarrow> string) \<Rightarrow> int \<Rightarrow> instant \<Rightarrow> string \<Rightarrow> int \<Rightarrow> string option \<Rightarrow> nat \<Rightarrow> string option \<Rightarrow> audit_store
     \<Rightarrow> audit_event list option" where
  "collect_list sha256 iso_text days now org limit action 0 cursor st = None"
| "collect_list sha256 iso_text days now org limit action (Suc n) cursor st =
     (case audit_list sha256 iso_text days now org limit cursor action None st of
        (Done (page, None), _, _) \<Rightarrow> Some page
      | (Done (page, Some i), _, st') \<Rightarrow> map_option ((@) page) (collect_list sha256 iso_text days now org limit action n (Some i) st')
      | _ \<Rightarrow> None)"

lemma audit_list_log:
  assumes "digest_function sha256" "log_state sha256 iso_text org st evs" "is_organization_id org" "1 \<le> limit" "limit \<le> audit_page_limit"
    "action = None \<or> (\<exists>a. action = Some a \<and> is_action a)" "cursor = None \<or> (\<exists>i. cursor = Some i \<and> is_hex_id 32 i)"
    "audit_page (nat limit) cursor action (retained days now evs) = Inr page"
  shows "\<exists>st'. audit_list sha256 iso_text days now org limit cursor action None st = (Done page, None, st') \<and>
    log_state sha256 iso_text org st' (retained days now evs)"
proof -
  obtain st' es where c: "checked_events sha256 iso_text days now org None st = (Done es, None, st')" "set es = set (retained days now evs)"
    "distinct (map ae_id es)" "distinct (map ae_id (retained days now evs))" "log_state sha256 iso_text org st' (retained days now evs)"
    using checked_events_log [OF assms(1,2)] by blast
  have "audit_page (nat limit) cursor action es = Inr page" using audit_page_same [OF c(2-4)] assms(8) by simp
  then have "audit_list sha256 iso_text days now org limit cursor action None st = (Done page, None, st')"
    using assms(3-7) c(1) by (auto simp: audit_list_def bind_io_def from_res_def)
  then show ?thesis using c(5) by blast
qed

lemma log_state_ids:
  assumes "log_state sha256 iso_text org st evs"
  shows "distinct (map ae_id evs)" "e \<in> set evs \<Longrightarrow> is_hex_id 32 (ae_id e)"
  using assms by (auto simp: log_state_def log_at_def chained_def unchained_def log_events_def list_all_iff event_valid_def)

lemma collect_from:
  assumes "digest_function sha256" "is_organization_id org" "1 \<le> limit" "limit \<le> audit_page_limit"
    "action = None \<or> (\<exists>a. action = Some a \<and> is_action a)" and "log_state sha256 iso_text org st evs" "retained days now evs = evs"
    and "k < length (newest_first action evs) \<or> k = 0" "length (newest_first action evs) < k + n"
  shows "collect_list sha256 iso_text days now org limit action n (cursor_at k (newest_first action evs)) st = Some (drop k (newest_first action evs))"
  using assms(6,8,9)
proof (induction n arbitrary: k st)
  case 0
  then show ?case by auto
next
  case (Suc n)
  let ?L = "newest_first action evs"
  note ids = log_state_ids [OF Suc.prems(1)]
  have "set ?L \<subseteq> set evs" by (auto simp: newest_first_def)
  then have "is_hex_id 32 (ae_id (?L ! j))" if "j < length ?L" for j using that ids(2) nth_mem by blast
  then have hex: "cursor_at k ?L = None \<or> (\<exists>i. cursor_at k ?L = Some i \<and> is_hex_id 32 i)"
    using Suc.prems(2) by (auto simp: cursor_at_def)
  have page: "audit_page (nat limit) (cursor_at k ?L) action (retained days now evs) = Inr (take (nat limit) (drop k ?L),
      if k + nat limit < length ?L then cursor_at (k + nat limit) ?L else None)"
    using audit_page_slice [OF ids(1) _ Suc.prems(2)] assms(3,7) by simp
  from audit_list_log [OF assms(1) Suc.prems(1) assms(2-5) hex page] obtain st' where
    l: "audit_list sha256 iso_text days now org limit (cursor_at k ?L) action None st =
      (Done (take (nat limit) (drop k ?L), if k + nat limit < length ?L then cursor_at (k + nat limit) ?L else None), None, st')"
      "log_state sha256 iso_text org st' evs" unfolding assms(7) by blast
  show ?case
  proof (cases "k + nat limit < length ?L")
    case True
    then obtain i where i: "cursor_at (k + nat limit) ?L = Some i" using assms(3) by (simp add: cursor_at_def)
    have "collect_list sha256 iso_text days now org limit action n (cursor_at (k + nat limit) ?L) st' = Some (drop (k + nat limit) ?L)"
      using True Suc.prems(3) assms(3) by (intro Suc.IH l(2)) simp_all
    moreover have "take (nat limit) (drop k ?L) @ drop (k + nat limit) ?L = drop k ?L"
      using append_take_drop_id [of "nat limit" "drop k ?L"] by (simp add: add.commute)
    ultimately show ?thesis using l(1) True i by simp
  next
    case False
    then show ?thesis using l(1) by simp
  qed
qed


text \<open>
  C29. Listing the log page by page, following the cursor of each page until there is none, returns every retained event with
  the requested action exactly once, the newest first, and a number of requests one above the number of such events is
  enough, whatever the page size. The clock stands still and nothing is recorded in between.
\<close>

theorem audit_pages_complete:
  assumes "digest_function sha256" "log_state sha256 iso_text org st evs" "is_organization_id org" "1 \<le> limit" "limit \<le> audit_page_limit"
    "action = None \<or> (\<exists>a. action = Some a \<and> is_action a)"
  shows "collect_list sha256 iso_text days now org limit action (length (newest_first action (retained days now evs)) + 1) None st
    = Some (newest_first action (retained days now evs))"
proof -
  let ?E = "retained days now evs" let ?L = "newest_first action (retained days now evs)"
  have page: "audit_page (nat limit) None action ?E = Inr (take (nat limit) ?L, if nat limit < length ?L then cursor_at (nat limit) ?L else None)"
    if "distinct (map ae_id ?E)" using audit_page_slice [OF that, of "nat limit" 0 action] assms(4) by (simp add: cursor_at_def)
  have "distinct (map ae_id ?E)" using checked_events_log [OF assms(1,2)] by blast
  from audit_list_log [OF assms(1-6) _ page [OF this]] obtain st' where
    l: "audit_list sha256 iso_text days now org limit None action None st =
      (Done (take (nat limit) ?L, if nat limit < length ?L then cursor_at (nat limit) ?L else None), None, st')"
      "log_state sha256 iso_text org st' ?E" by blast
  have rest: "collect_list sha256 iso_text days now org limit action (length ?L) (cursor_at (nat limit) ?L) st' = Some (drop (nat limit) ?L)"
    if "nat limit < length ?L"
    using that assms(4) collect_from [OF assms(1,3-6) l(2) retained_again, of "nat limit" "length ?L"] by simp
  show ?thesis
  proof (cases "nat limit < length ?L")
    case True
    then obtain i where "cursor_at (nat limit) ?L = Some i" using assms(4) by (simp add: cursor_at_def)
    then show ?thesis using l(1) True rest [OF True] by simp
  qed (use l(1) in simp)
qed


subsection \<open>Anonymization\<close>

definition detached :: "string \<Rightarrow> string list \<Rightarrow> string \<Rightarrow> audit_event \<Rightarrow> audit_event" where
  "detached asset_id jobs receipt_id e = (if event_linked asset_id jobs e then anonymized receipt_id e else e)"

lemma anonymized_simps [simp]:
  "ae_id (anonymized r e) = ae_id e" "ae_organization_id (anonymized r e) = ae_organization_id e" "ae_actor_id (anonymized r e) = ae_actor_id e"
  "ae_actor_role (anonymized r e) = ae_actor_role e" "ae_action (anonymized r e) = ae_action e" "ae_result (anonymized r e) = ae_result e"
  "ae_occurred_at (anonymized r e) = ae_occurred_at e" "ae_resource_id (anonymized r e) = r" "ae_metadata (anonymized r e) = []"
  by (simp_all add: anonymized_def)

lemma detached_id [simp]: "ae_id (detached asset_id jobs r e) = ae_id e" "ae_organization_id (detached asset_id jobs r e) = ae_organization_id e"
  by (simp_all add: detached_def)

lemma anonymized_valid:
  assumes "event_valid e" "is_hex_id 32 r"
  shows "event_valid (anonymized r e)"
proof -
  have "list_all is_hex r" "length r = 32" using assms(2) by (simp_all add: is_hex_id_def)
  moreover from this(1) have "list_all word_char r"
    by (auto simp: list_all_iff word_char_def is_hex_def is_ascii_alnum_def is_digit_def is_letter_def is_lower_def is_upper_def)
  moreover have "is_resource_type ''deleted_active_asset''"
    by (simp add: is_resource_type_def is_lower_def is_digit_def code_def)
  ultimately show ?thesis
    using assms(1) by (simp add: event_valid_def anonymized_def is_resource_id_def is_correlation_def word_char_def is_ascii_alnum_def is_letter_def
        is_digit_def is_lower_def is_upper_def code_def)
qed

lemma detached_log:
  assumes "log_events org evs" "is_hex_id 32 r"
  shows "log_events org (map (detached asset_id jobs r) evs)"
proof -
  have "event_valid (detached asset_id jobs r e)" if "event_valid e" for e
    using that anonymized_valid [OF that assms(2)] by (simp add: detached_def)
  then show ?thesis using assms(1) by (simp add: log_events_def list_all_iff comp_def)
qed

lemma put_all:
  assumes "dict_ok (ao_events d)" "distinct (map ae_id as)"
  shows "set (ao_events (fold put_event as d)) = {f \<in> set (ao_events d). fst f \<notin> ae_id ` set as} \<union> files_of as"
    "dict_ok (ao_events (fold put_event as d))" "ao_tree (fold put_event as d) = ao_tree d" "ao_temps (fold put_event as d) = ao_temps d"
proof -
  show "set (ao_events (fold put_event as d)) = {f \<in> set (ao_events d). fst f \<notin> ae_id ` set as} \<union> files_of as"
    using assms
  proof (induction as arbitrary: d)
    case (Cons a as)
    have "set (ao_events (put_event a d)) = insert (ae_id a, Readable a) {f \<in> set (ao_events d). fst f \<noteq> ae_id a}"
      using dict_set_set [OF Cons.prems(1)] by (simp add: put_event_def)
    moreover have "dict_ok (ao_events (put_event a d))" using Cons.prems(1) by (simp add: put_event_def)
    ultimately show ?case using Cons.IH [of "put_event a d"] Cons.prems(2) by (auto simp: files_of_def)
  qed (simp add: files_of_def)
  show "dict_ok (ao_events (fold put_event as d))" using assms(1) by (induction as arbitrary: d) (simp_all add: put_event_def)
  show "ao_tree (fold put_event as d) = ao_tree d" by (induction as arbitrary: d) (simp_all add: put_event_def)
  show "ao_temps (fold put_event as d) = ao_temps d" by (induction as arbitrary: d) (simp_all add: put_event_def)
qed

lemma put_detached:
  assumes "holds_events d evs" "set es = set evs" "distinct (map ae_id es)"
  shows "holds_events (fold put_event (map (anonymized r) (filter (event_linked asset_id jobs) es)) d) (map (detached asset_id jobs r) evs)"
proof -
  let ?as = "map (anonymized r) (filter (event_linked asset_id jobs) es)"
  have d: "dict_ok (ao_events d)" "set (ao_events d) = files_of evs" using assms(1) by (simp_all add: holds_events_def)
  have ids: "ae_id ` set ?as = ae_id ` {e \<in> set evs. event_linked asset_id jobs e}" using assms(2) by (simp add: image_image)
  have inj: "inj_on ae_id (set evs)" using assms(2,3) by (simp add: distinct_map)
  have "distinct (map ae_id ?as)" using assms(3) by (simp add: comp_def distinct_map_filter)
  note put = put_all [OF d(1) this]
  have "{f \<in> files_of evs. fst f \<notin> ae_id ` set ?as} = files_of (filter (\<lambda>e. \<not> event_linked asset_id jobs e) evs)"
    unfolding ids files_of_def using inj by (auto simp: inj_on_def)
  moreover have "files_of ?as = (\<lambda>e. (ae_id e, Readable (anonymized r e))) ` {e \<in> set evs. event_linked asset_id jobs e}"
    using assms(2) by (simp add: files_of_def image_image)
  moreover have "files_of (map (detached asset_id jobs r) evs) =
      files_of (filter (\<lambda>e. \<not> event_linked asset_id jobs e) evs) \<union> (\<lambda>e. (ae_id e, Readable (anonymized r e))) ` {e \<in> set evs. event_linked asset_id jobs e}"
    by (auto simp: files_of_def detached_def image_iff)
  ultimately show ?thesis using put(1,2) d(2) by (simp add: holds_events_def)
qed

lemma for_each_write:
  assumes "\<And>d. ao_temps (g d) = ao_temps d" "ao_temps (org_of org st) = []"
  shows "for_each as (\<lambda>e. write_event org (f e)) None (set_org org g st) = (Done (), None, set_org org (\<lambda>d. fold put_event (map f as) (g d)) st)"
  using assms(1)
proof (induction as arbitrary: g)
  case (Cons a as)
  have "write_event org (f a) None (set_org org g st) = (Done (), None, set_org org (\<lambda>d. put_event (f a) (g d)) st)"
    using Cons.prems assms(2) by (simp add: write_event_def write_named_quiet)
  moreover have "for_each as (\<lambda>e. write_event org (f e)) None (set_org org (\<lambda>d. put_event (f a) (g d)) st) =
      (Done (), None, set_org org (\<lambda>d. fold put_event (map f as) (put_event (f a) (g d))) st)"
    using Cons.prems by (intro Cons.IH) (simp add: put_event_def)
  ultimately show ?case by (simp add: bind_io_def)
qed (simp add: ret_def)


lemma set_org_same:
  assumes "ao_tree (org_of org st) \<noteq> None"
  shows "set_org org (\<lambda>d. d) st = st"
proof -
  have "dict_set org d st = st" if "map_of st org = Some d" for d
    using that by (induction st) (auto split: if_splits)
  then show ?thesis using assms by (auto simp: set_org_def org_of_def empty_org_def split: option.splits)
qed

lemma rotate_log:
  assumes "digest_function sha256" "log_events org evs" "holds_events (org_of org st) evs" "ao_temps (org_of org st) = []"
    "0 < cs_generation s" "is_hex_id 64 (cs_head_digest s)" "cs_head_digest s \<noteq> chain_zero"
  shows "\<exists>st' s'. rotate_integrity sha256 iso_text org s None st = (Done (), None, st') \<and>
    log_at sha256 iso_text org st' s' (sort_key event_order evs) \<and> cs_generation s' = cs_generation s + 1 \<and> cs_parent s' = cs_head_digest s \<and>
    same_elsewhere org st st'"
proof -
  let ?evs = "sort_key event_order evs" let ?seed = "rotation_seed sha256 (cs_head_digest s)"
  obtain es where es: "load_organization_events org (org_of org st) = Inr es" "set es = set evs" "distinct (map ae_id es)"
    using load_events_holds [OF assms(3,2)] by blast
  have ids: "distinct (map ae_id evs)" using assms(2) by (simp add: log_events_def)
  have sorted: "sort_key event_order es = ?evs" using sort_key_same [OF es(2,3) ids, of "\<lambda>_. True"] by simp
  obtain t s' where ts: "build_integrity_tree sha256 iso_text org ?evs (cs_generation s + 1) (cs_head_digest s) ?seed = (t, s')" by fastforce
  have log: "log_events org ?evs"
    using assms(2) mset_eq_imp_distinct_iff [of "map ae_id ?evs" "map ae_id evs"] by (simp add: log_events_def list_all_iff)
  have "is_hex_id 64 ?seed" using assms(1) by (simp add: digest_function_def rotation_seed_def)
  from built_tree [OF log assms(6) this assms(1) _ ts] have tree: "tree_of sha256 iso_text org s' ?evs t"
    "cs_generation s' = cs_generation s + 1" "cs_parent s' = cs_head_digest s" using assms(5,7) by simp_all
  let ?st = "set_org org (\<lambda>d. d\<lparr>ao_tree := Some t\<rparr>) st"
  have "rotate_integrity sha256 iso_text org s None st = (Done (), None, ?st)"
    using es(1) ts sorted
    by (simp add: rotate_integrity_def bind_io_def read_fs_def step_fs_def from_res_def os_error_as_def on_os_failure_def)
  moreover have "log_at sha256 iso_text org ?st s' ?evs"
    using tree(1) log assms(3,4) by (simp add: log_at_def chained_def holds_events_def files_of_def)
  ultimately show ?thesis using tree(2,3) by (intro exI [of _ ?st] exI [of _ s']) simp
qed

lemma chained_head_hex:
  assumes "digest_function sha256" "chained sha256 iso_text org d s evs" "evs \<noteq> []"
  shows "is_hex_id 64 (cs_head_digest s)" "cs_head_digest s \<noteq> chain_zero" "0 < cs_generation s"
proof -
  have s: "valid_chain_state sha256 org s" "cs_head_digest s = chain_head (cs_anchor_digest s) (entries_of_state sha256 iso_text org s evs)"
    using chained_tree [OF assms(2)] by (metis tree_of_def)+
  have "entries_of_state sha256 iso_text org s evs \<noteq> []" using assms(3) by (simp add: entries_of_state_def)
  then show "is_hex_id 64 (cs_head_digest s)" "cs_head_digest s \<noteq> chain_zero"
    using entries_hex [OF assms(1)] last_in_set s(2) unfolding chain_head_def entries_of_state_def by metis+
  show "0 < cs_generation s" using s(1) by (simp add: valid_chain_state_def)
qed

lemma anonymize_run:
  assumes "digest_function sha256" "log_at sha256 iso_text org st s evs" "is_organization_id org" "is_hex_id 32 asset_id" "is_hex_id 32 receipt_id"
    "list_all (is_hex_id 32) jobs"
  shows "if list_ex (event_linked asset_id jobs) evs
    then \<exists>st' s'. anonymize_active_asset sha256 iso_text org asset_id jobs receipt_id None st
          = (Done (length (filter (event_linked asset_id jobs) evs)), None, st') \<and>
        log_at sha256 iso_text org st' s' (sort_key event_order (map (detached asset_id jobs receipt_id) evs)) \<and>
        cs_generation s' = cs_generation s + 1 \<and> cs_parent s' = cs_head_digest s \<and> same_elsewhere org st st'
    else anonymize_active_asset sha256 iso_text org asset_id jobs receipt_id None st = (Done 0, None, st)"
proof -
  have ch: "chained sha256 iso_text org (org_of org st) s evs" and temps: "ao_temps (org_of org st) = []"
    using assms(2) by (simp_all add: log_at_def)
  obtain es where es: "load_organization_events org (org_of org st) = Inr es" "set es = set evs" "distinct (map ae_id es)"
    using load_log [OF ch] by blast
  obtain t :: integrity_tree where ev: "ao_tree (org_of org st) = Some t" "log_events org evs" "holds_events (org_of org st) evs"
    using chained_tree [OF ch] by metis
  let ?as = "filter (event_linked asset_id jobs) es" let ?d = "fold put_event (map (anonymized receipt_id) (filter (event_linked asset_id jobs) es))"
  have "mset es = mset evs" using es(2,3) ev(2) by (simp add: set_eq_iff_mset_eq_distinct [symmetric] log_events_def distinct_map)
  then have count: "length ?as = length (filter (event_linked asset_id jobs) evs)" by (metis mset_filter size_mset)
  have guards: "\<not> list_ex (\<lambda>j. \<not> is_hex_id 32 j) jobs" using assms(6) by (simp add: list_ex_iff list_all_iff)
  note run = anonymize_active_asset_def bind_io_def ensure_log [OF ch] verify_log [OF ch] from_res_def es(1) Let_def ret_def
  show ?thesis
  proof (cases "list_ex (event_linked asset_id jobs) evs")
    case False
    then have "?as = []" using es(2) by (auto simp: list_ex_iff filter_empty_conv)
    then show ?thesis using False guards assms(3-5) by (simp add: run)
  next
    case True
    then have ne: "?as \<noteq> []" "evs \<noteq> []" using es(2) by (auto simp: list_ex_iff filter_empty_conv)
    have put: "for_each ?as (\<lambda>e. write_event org (anonymized receipt_id e)) None st = (Done (), None, set_org org ?d st)"
      using for_each_write [of "\<lambda>d. d" org st ?as "anonymized receipt_id"] temps set_org_same [of org st] ev(1) by simp
    have "distinct (map ae_id (map (anonymized receipt_id) ?as))" using es(3) by (simp add: comp_def distinct_map_filter)
    note kept = put_all [OF _ this, of "org_of org st"]
    have d: "holds_events (org_of org (set_org org ?d st)) (map (detached asset_id jobs receipt_id) evs)" "ao_temps (org_of org (set_org org ?d st)) = []"
      using put_detached [OF ev(3) es(2,3)] kept(4) ev(3) temps by (simp_all add: holds_events_def)
    from rotate_log [OF assms(1) detached_log [OF ev(2) assms(5)] d, of s iso_text] chained_head_hex [OF assms(1) ch ne(2)]
    obtain st' s' where r: "rotate_integrity sha256 iso_text org s None (set_org org ?d st) = (Done (), None, st')"
      "log_at sha256 iso_text org st' s' (sort_key event_order (map (detached asset_id jobs receipt_id) evs))"
      "cs_generation s' = cs_generation s + 1" "cs_parent s' = cs_head_digest s" "same_elsewhere org (set_org org ?d st) st'" by blast
    have "anonymize_active_asset sha256 iso_text org asset_id jobs receipt_id None st = (Done (length ?as), None, st')"
      using guards assms(3-5) ne(1) put r(1) by (simp add: run)
    then show ?thesis using True count r(2-4) same_elsewhere_trans [OF _ r(5), of st] by auto
  qed
qed

lemma anonymized_fields:
  "anonymized receipt_id e = \<lparr>ae_id = ae_id e, ae_organization_id = ae_organization_id e, ae_actor_id = ae_actor_id e,
     ae_actor_role = ae_actor_role e, ae_action = ae_action e, ae_resource_type = ''deleted_active_asset'', ae_resource_id = receipt_id,
     ae_result = ae_result e, ae_correlation_id = ''active-deletion:'' @ receipt_id, ae_occurred_at = ae_occurred_at e, ae_metadata = []\<rparr>"
  by (cases e) (simp add: anonymized_def)

text \<open>An event is about an asset when its resource is the asset or one of the jobs, or its metadata name one of the jobs.\<close>

definition about_asset :: "string \<Rightarrow> string list \<Rightarrow> audit_event \<Rightarrow> bool" where
  "about_asset asset_id jobs e \<longleftrightarrow>
     ae_resource_id e \<in> insert asset_id (set jobs) \<or> (\<exists>job \<in> set jobs. map_of (ae_metadata e) ''job_id'' = Some (MText job))"

lemma event_linked_about: "event_linked asset_id jobs = about_asset asset_id jobs"
  by (auto simp: fun_eq_iff event_linked_def linked_to_jobs_def about_asset_def split: option.splits metadata_value.splits)

text \<open>
  C17. Anonymizing a deleted asset, under a receipt that is neither the asset nor one of its jobs and when no step fails, returns the number of
  events about the asset or one of its jobs. The log afterwards holds every earlier event once: an event about them with the resource
  type, resource, correlation and metadata replaced by those of the receipt and every other field (identity, actor, role, action, result and
  time) as before, any other event unchanged. So no event is about the asset or the jobs any more. The log is then in the order
  of time under a new generation that is bound to the head of the previous one; without such an event nothing changes; and the
  directories of other organizations are untouched.
\<close>

theorem anonymize_detaches:
  assumes "digest_function sha256" "log_at sha256 iso_text org st s evs" "is_organization_id org" "is_hex_id 32 asset_id" "is_hex_id 32 receipt_id"
    "list_all (is_hex_id 32) jobs" "receipt_id \<noteq> asset_id" "receipt_id \<notin> set jobs"
  shows "\<exists>st' s' evs'. anonymize_active_asset sha256 iso_text org asset_id jobs receipt_id None st
        = (Done (length (filter (about_asset asset_id jobs) evs)), None, st') \<and>
    log_at sha256 iso_text org st' s' evs' \<and> list_all (\<lambda>e. \<not> about_asset asset_id jobs e) evs' \<and>
    mset evs' = image_mset (\<lambda>e. if about_asset asset_id jobs e
      then \<lparr>ae_id = ae_id e, ae_organization_id = ae_organization_id e, ae_actor_id = ae_actor_id e, ae_actor_role = ae_actor_role e,
            ae_action = ae_action e, ae_resource_type = ''deleted_active_asset'', ae_resource_id = receipt_id, ae_result = ae_result e,
            ae_correlation_id = ''active-deletion:'' @ receipt_id, ae_occurred_at = ae_occurred_at e, ae_metadata = []\<rparr>
      else e) (mset evs) \<and>
    same_elsewhere org st st' \<and>
    (if list_ex (about_asset asset_id jobs) evs
     then sorted (map event_order evs') \<and> cs_generation s' = cs_generation s + 1 \<and> cs_parent s' = cs_head_digest s
     else st' = st \<and> s' = s \<and> evs' = evs)"
proof -
  let ?linked = "about_asset asset_id jobs" and ?run = "anonymize_active_asset sha256 iso_text org asset_id jobs receipt_id None st"
  have ids: "is_organization_id org" "is_hex_id 32 asset_id" "is_hex_id 32 receipt_id" "list_all (is_hex_id 32) jobs" using assms by simp_all
  note run = anonymize_run [OF assms(1,2) ids, unfolded event_linked_about]
  show ?thesis
  proof (cases "list_ex ?linked evs")
    case False
    then have none: "list_all (\<lambda>e. \<not> ?linked e) evs" "filter ?linked evs = []" by (auto simp: list_ex_iff list_all_iff filter_empty_conv)
    have "image_mset (\<lambda>e. if ?linked e then x e else e) (mset evs) = image_mset (\<lambda>e. e) (mset evs)" for x
      by (rule image_mset_cong) (use none(1) in \<open>simp add: list_all_iff\<close>)
    then show ?thesis using run False assms(2) none
      by (intro exI [of _ st] exI [of _ s] exI [of _ evs]) simp
  next
    case True
    then obtain st' s' where r: "?run = (Done (length (filter ?linked evs)), None, st')"
      "log_at sha256 iso_text org st' s' (sort_key event_order (map (detached asset_id jobs receipt_id) evs))"
      "cs_generation s' = cs_generation s + 1" "cs_parent s' = cs_head_digest s" "same_elsewhere org st st'"
      using run by auto
    have "\<not> ?linked (detached asset_id jobs receipt_id e)" for e
      using assms(7,8) unfolding detached_def event_linked_about by (auto simp: about_asset_def)
    then have "list_all (\<lambda>e. \<not> ?linked e) (sort_key event_order (map (detached asset_id jobs receipt_id) evs))" by (auto simp: list_all_iff)
    then show ?thesis using r True
      by (intro exI [of _ st'] exI [of _ s'] exI [of _ "sort_key event_order (map (detached asset_id jobs receipt_id) evs)"])
        (simp add: detached_def [abs_def] event_linked_about anonymized_fields cong: if_cong)
  qed
qed


subsection \<open>An interrupted record\<close>

text \<open>A directory with a tree that does not pass the check.\<close>

definition broken :: "(string \<Rightarrow> string) \<Rightarrow> (instant \<Rightarrow> string) \<Rightarrow> string \<Rightarrow> audit_store \<Rightarrow> bool" where
  "broken sha256 iso_text org st \<longleftrightarrow>
     ao_tree (org_of org st) \<noteq> None \<and> validate_directory sha256 iso_text org (org_of org st) = Inl AuditIntegrityInvalid"

lemma validate_error: "validate_directory sha256 iso_text org d = Inl x \<Longrightarrow> x = AuditIntegrityInvalid"
proof -
  have "walk_entries sha256 iso_text org g evs files ns p = Inl x \<Longrightarrow> x = AuditIntegrityInvalid" for g evs files ns p x
    by (induction ns arbitrary: p) (auto simp: res_simps split: option.splits file_content.splits if_splits)
  then show "validate_directory sha256 iso_text org d = Inl x \<Longrightarrow> x = AuditIntegrityInvalid"
    by (auto simp: validate_directory_def Let_def res_simps split: option.splits file_content.splits if_splits)
qed

lemma broken_checked:
  assumes "broken sha256 iso_text org st"
  shows "bind_io (ensure_integrity sha256 iso_text org) (\<lambda>(s, x). bind_io (verify_integrity_unlocked sha256 iso_text org (Some s)) (f s x)) b st
      = (Raised AuditIntegrityInvalid, b, st)"
    "bind_io (verify_integrity_unlocked sha256 iso_text org expected) g b st = (Raised AuditIntegrityInvalid, b, st)"
proof -
  show verify: "bind_io (verify_integrity_unlocked sha256 iso_text org expected) g b st = (Raised AuditIntegrityInvalid, b, st)" for expected g
    using assms by (simp add: broken_def verify_integrity_unlocked_def bind_io_def from_res_def)
  obtain t where "ao_tree (org_of org st) = Some t" using assms by (auto simp: broken_def)
  then have ens: "bind_io (ensure_integrity sha256 iso_text org) h b st =
      (case load_integrity_state sha256 org t of Inl x \<Rightarrow> (Raised x, b, st) | Inr s \<Rightarrow> h (s, False) b st)" for h
    by (simp add: ensure_integrity_def bind_io_def read_fs_def from_res_def ret_def split: sum.splits)
  show "bind_io (ensure_integrity sha256 iso_text org) (\<lambda>(s, x). bind_io (verify_integrity_unlocked sha256 iso_text org (Some s)) (f s x)) b st
      = (Raised AuditIntegrityInvalid, b, st)"
    unfolding ens by (auto simp: verify load_integrity_state_def split: sum.splits file_content.splits if_splits)
qed

lemma broken_purge:
  "broken sha256 iso_text org st \<Longrightarrow> purge_organization sha256 iso_text cutoff org b st = (Raised AuditIntegrityInvalid, b, st)"
  unfolding purge_organization_def by (rule broken_checked)

lemma broken_purge_unlocked:
  "broken sha256 iso_text org st \<Longrightarrow> purge_expired_unlocked sha256 iso_text days now (Some org) b st = (Raised AuditIntegrityInvalid, b, st)"
  by (simp add: purge_expired_unlocked_def read_fs_def bind_io_def os_error_as_def broken_purge)

lemma broken_anonymize:
  assumes "broken sha256 iso_text org st" "is_organization_id org" "is_hex_id 32 asset_id" "is_hex_id 32 receipt_id" "list_all (is_hex_id 32) jobs"
  shows "anonymize_active_asset sha256 iso_text org asset_id jobs receipt_id b st = (Raised AuditIntegrityInvalid, b, st)"
proof -
  have "\<not> list_ex (\<lambda>j. \<not> is_hex_id 32 j) jobs" using assms(5) by (simp add: list_ex_iff list_all_iff)
  then show ?thesis using assms(2-4) unfolding anonymize_active_asset_def by (simp add: broken_checked [OF assms(1)])
qed

lemma broken_elsewhere: "broken sha256 iso_text org st \<Longrightarrow> org \<noteq> x \<Longrightarrow> broken sha256 iso_text org (set_org x f st)"
  by (simp add: broken_def)

lemma keeps_wrappers:
  "keeps P m \<Longrightarrow> keeps P (os_error_as x m)" "keeps P m \<Longrightarrow> (\<And>fs. P fs \<Longrightarrow> P (h fs)) \<Longrightarrow> keeps P (on_os_failure m h)"
  by (auto simp: keeps_def os_error_as_def on_os_failure_def split: prod.splits outcome.splits) (metis snd_conv)+

lemma purge_keeps_broken:
  assumes "org \<noteq> x"
  shows "keeps (broken sha256 iso_text org) (purge_organization sha256 iso_text cutoff x)"
proof -
  have step: "keeps (broken sha256 iso_text org) (step_fs (set_org x f))" for f using broken_elsewhere assms by (intro keeps_basic) blast
  have "keeps (broken sha256 iso_text org) (step_fs id)" by (rule keeps_basic) simp
  note basics = keeps_bind keeps_basic(1-4) keeps_for_each keeps_wrappers step this
  have "keeps (broken sha256 iso_text org) (ensure_integrity sha256 iso_text x)"
    unfolding ensure_integrity_def by (intro basics) (auto intro!: basics split: option.splits prod.splits)
  moreover have "keeps (broken sha256 iso_text org) (verify_integrity_unlocked sha256 iso_text x s)" for s
    unfolding verify_integrity_unlocked_def by (intro basics) (auto intro!: basics)
  moreover have "keeps (broken sha256 iso_text org) (write_state x s)" for s
  proof -
    have "keeps (broken sha256 iso_text org) (step_fs (\<lambda>st. set_org x f (set_org x g st)))" for f g
      using broken_elsewhere assms by (intro keeps_basic) blast
    then show ?thesis unfolding write_state_def write_named_def atomic_write_def
      using broken_elsewhere assms by (intro basics) (auto intro!: basics)
  qed
  ultimately show ?thesis unfolding purge_organization_def by (intro basics) (auto intro!: basics simp: Let_def)
qed


lemma purge_all_fails:
  assumes "broken sha256 iso_text org st" "org \<in> set orgs"
  shows "fst (purge_organizations sha256 iso_text cutoff orgs b st) \<noteq> Done n"
  using assms
proof (induction orgs arbitrary: b st n)
  case (Cons x orgs)
  show ?case
  proof (cases "x = org")
    case True
    then show ?thesis using Cons.prems(1) by (simp add: bind_io_def broken_purge)
  next
    case False
    obtain r b' st' where p: "purge_organization sha256 iso_text cutoff x b st = (r, b', st')" by (metis prod_cases3)
    have "broken sha256 iso_text org st'" using purge_keeps_broken [of org x] False Cons.prems(1) p unfolding keeps_def by (metis snd_conv)
    then have ih: "fst (purge_organizations sha256 iso_text cutoff orgs b' st') \<noteq> Done m" for m using Cons.IH Cons.prems(2) False by simp
    obtain q b2 st2 where q: "purge_organizations sha256 iso_text cutoff orgs b' st' = (q, b2, st2)" by (metis prod_cases3)
    show ?thesis using ih p q by (cases r; cases q) (auto simp: bind_io_def)
  qed
qed simp

lemma broken_startup:
  assumes "broken sha256 iso_text org st" "is_organization_id org"
  shows "fst (purge_expired_events sha256 iso_text days now None b st) \<noteq> Done n"
proof -
  have "org \<in> set (map fst st)" using assms(1) by (auto simp: broken_def org_of_def empty_org_def map_of_eq_None_iff split: option.splits) (metis domI dom_map_of_conv_image_fst)
  then have "org \<in> set (organization_ids st)" using assms(2) by (simp add: organization_ids_def)
  note fails = purge_all_fails [OF assms(1) this]
  obtain q b2 st2 where q: "purge_organizations sha256 iso_text (retention_cutoff days now) (organization_ids st) b st = (q, b2, st2)" by (metis prod_cases3)
  show ?thesis using q fails [of "retention_cutoff days now" b]
    by (cases q) (auto simp: purge_expired_events_def purge_expired_unlocked_def bind_read os_error_as_def)
qed

lemma broken_record:
  assumes "broken sha256 iso_text (ae_organization_id e) st" "event_valid e"
  shows "audit_record sha256 iso_text days max_events e b st = (Raised AuditIntegrityInvalid, b, st)"
  using assms(2) by (simp add: audit_record_def Let_def bind_io_def broken_purge_unlocked [OF assms(1)])

lemma broken_list:
  assumes "broken sha256 iso_text org st" "is_organization_id org" "1 \<le> limit" "limit \<le> audit_page_limit"
  shows "audit_list sha256 iso_text days now org limit None None b st = (Raised AuditIntegrityInvalid, b, st)"
  using assms(2-4) by (simp add: audit_list_def checked_events_def bind_io_def broken_purge_unlocked [OF assms(1)])

lemma write_named_faults:
  assumes "name \<notin> set (ao_temps (org_of org st))"
  shows "write_named org name f (Some (Suc (Suc n), kind)) st = (Done (), Some (n, kind), set_org org f st)"
    "write_named org name f (Some (Suc 0, PowerLoss)) st = (Crashed, None, set_org org (add_temp name) st)"
    "write_named org name f (Some (0, PowerLoss)) st = (Crashed, None, st)"
proof -
  have "set_org org (\<lambda>d. f (remove_temp name (add_temp name d))) st = set_org org f st"
    using assms by (intro set_org_cong) (simp add: temp_gone)
  then show "write_named org name f (Some (Suc (Suc n), kind)) st = (Done (), Some (n, kind), set_org org f st)"
    using assms by (simp add: write_named_def atomic_write_def bind_io_def read_fs_def step_fs_def os_error_as_def on_os_failure_def)
qed (use assms in \<open>simp_all add: write_named_def atomic_write_def bind_io_def read_fs_def step_fs_def os_error_as_def on_os_failure_def\<close>)

lemma write_entry_faults:
  assumes "ao_tree (org_of org st) = Some t" "it_strays t = []"
  shows "write_entry org a (Some (Suc (Suc n), kind)) st = (Done (), Some (n, kind), set_org org (on_tree (put_entry a)) st)"
    "\<exists>t'. it_state t' = it_state t \<and> write_entry org a (Some (Suc 0, PowerLoss)) st = (Crashed, None, set_org org (\<lambda>d. d\<lparr>ao_tree := Some t'\<rparr>) st)"
    "write_entry org a (Some (0, PowerLoss)) st = (Crashed, None, st)"
proof -
  let ?name = "show_int (ce_sequence a)"
  have "set_org org (\<lambda>d. on_tree (put_entry a) (on_tree (\<lambda>t. t\<lparr>it_strays := filter (\<lambda>x. x \<noteq> ?name) (it_strays t)\<rparr>)
      (on_tree (\<lambda>t. t\<lparr>it_strays := it_strays t @ [?name]\<rparr>) d))) st = set_org org (on_tree (put_entry a)) st"
    using assms by (intro set_org_cong) (cases t; simp add: on_tree_def)
  then show "write_entry org a (Some (Suc (Suc n), kind)) st = (Done (), Some (n, kind), set_org org (on_tree (put_entry a)) st)"
    using assms by (simp add: write_entry_def atomic_write_def bind_io_def read_fs_def step_fs_def os_error_as_def on_os_failure_def Let_def)
  have "set_org org (on_tree (\<lambda>t. t\<lparr>it_strays := it_strays t @ [?name]\<rparr>)) st = set_org org (\<lambda>d. d\<lparr>ao_tree := Some (t\<lparr>it_strays := [?name]\<rparr>)\<rparr>) st"
    using assms by (intro set_org_cong) (simp add: on_tree_def)
  then show "\<exists>t'. it_state t' = it_state t \<and> write_entry org a (Some (Suc 0, PowerLoss)) st = (Crashed, None, set_org org (\<lambda>d. d\<lparr>ao_tree := Some t'\<rparr>) st)"
    using assms by (intro exI [of _ "t\<lparr>it_strays := [?name]\<rparr>"])
      (simp add: write_entry_def atomic_write_def bind_io_def read_fs_def step_fs_def os_error_as_def on_os_failure_def Let_def)
  show "write_entry org a (Some (0, PowerLoss)) st = (Crashed, None, st)"
    using assms by (simp add: write_entry_def atomic_write_def bind_io_def read_fs_def step_fs_def os_error_as_def on_os_failure_def Let_def)
qed


text \<open>An event file that no entry names.\<close>

lemma unnamed_event_broken:
  assumes "chained sha256 iso_text org (org_of org st) s evs" "ae_id e \<notin> ae_id ` set evs"
    and "ao_events (org_of org st') = ao_events (put_event e (org_of org st))" "ao_tree (org_of org st') = Some t'" "it_state t' = Readable s"
  shows "broken sha256 iso_text org st'"
proof -
  obtain t :: integrity_tree where t: "tree_of sha256 iso_text org s evs t" "log_events org evs" "holds_events (org_of org st) evs"
    using chained_tree [OF assms(1)] by metis
  let ?d = "org_of org st'"
  have holds: "holds_events ?d (evs @ [e])" using put_new_event [OF t(3) assms(2)] assms(3) by (simp add: holds_events_def)
  have False if v: "validate_directory sha256 iso_text org ?d = Inr (s', es)" for s' es
  proof -
    have "s' = s" using validate_directory_Inr(1) [OF v] assms(4,5) by auto
    have "ae_id ` set (evs @ [e]) \<subseteq> ce_event_id ` set es"
    proof
      fix i assume "i \<in> ae_id ` set (evs @ [e])"
      then obtain x where x: "x \<in> set (evs @ [e])" "i = ae_id x" by blast
      then have "(ae_id x, Readable x) \<in> set (ao_events ?d)" using holds unfolding holds_events_def files_of_def by blast
      then have "x \<in> set (List.map_filter file_event (ao_events ?d))" by (force simp: List.map_filter_def image_iff)
      then show "i \<in> ce_event_id ` set es" unfolding validate_directory_Inr(2) [OF v] events_by_id_def x(2) by (simp add: image_image)
    qed
    then have "card (ae_id ` set (evs @ [e])) \<le> length es"
      by (meson List.finite_set card_image_le card_length card_mono finite_imageI le_trans)
    moreover have "card (ae_id ` set (evs @ [e])) = length evs + 1"
      using t(2) assms(2) distinct_card [of "map ae_id (evs @ [e])"] by (simp add: log_events_def)
    ultimately show False
      using validate_directory_Inr(3) [OF v] \<open>s' = s\<close> t(1) by (simp add: tree_of_def valid_chain_state_def)
  qed
  then have "\<exists>x. validate_directory sha256 iso_text org ?d = Inl x" by (cases "validate_directory sha256 iso_text org ?d") auto
  then show ?thesis using validate_error assms(4) by (auto simp: broken_def)
qed

lemma append_stopped:
  assumes "log_at sha256 iso_text org st s evs" "ae_organization_id e = org" "ae_id e \<notin> ae_id ` set evs" "ae_id e \<noteq> ''state''" "2 \<le> k" "k \<le> 5"
  shows "\<exists>st'. append_integrity_event sha256 iso_text e s (Some (k, PowerLoss)) st = (Crashed, None, st') \<and> broken sha256 iso_text org st'"
proof -
  let ?a = "build_chain_entry sha256 iso_text org (cs_generation s) (cs_head_sequence s + 1) e (cs_head_digest s)"
  have ch: "chained sha256 iso_text org (org_of org st) s evs" and temps: "ao_temps (org_of org st) = []"
    using assms(1) by (simp_all add: log_at_def)
  obtain t :: integrity_tree where t: "ao_tree (org_of org st) = Some t" "it_strays t = []" "it_state t = Readable s"
    using chained_tree [OF ch] by (metis tree_of_def)
  let ?s1 = "set_org org (put_event e) st" and ?s2 = "set_org org (\<lambda>d. on_tree (put_entry ?a) (put_event e d)) st"
  have t1: "ao_tree (org_of org ?s1) = Some t" "ao_temps (org_of org ?s1) = []" "ao_temps (org_of org ?s2) = []" using t temps by (simp_all add: put_event_def on_tree_def)
  have e1: "write_event org e (Some (Suc (Suc n), PowerLoss)) st = (Done (), Some (n, PowerLoss), ?s1)" for n
    unfolding write_event_def using temps by (intro write_named_faults) simp
  note a1 = write_entry_faults [OF t1(1) t(2), of ?a]
  have a2: "write_entry org ?a (Some (Suc (Suc n), PowerLoss)) ?s1 = (Done (), Some (n, PowerLoss), ?s2)" for n using a1(1) by simp
  have w: "write_state org x (Some (0, PowerLoss)) ?s2 = (Crashed, None, ?s2)"
    "write_state org x (Some (Suc 0, PowerLoss)) ?s2 = (Crashed, None, set_org org (add_temp ''state'') ?s2)" for x
    unfolding write_state_def using write_named_faults(2,3) [of "''state''" org ?s2] t1(3) by simp_all
  note run = append_integrity_event_def Let_def assms(2) bind_io_def verify_log [OF ch] on_raised_def
  note unnamed = unnamed_event_broken [OF ch assms(3)]
  consider "k = Suc (Suc 0)" | "k = Suc (Suc (Suc 0))" | "k = Suc (Suc (Suc (Suc 0)))" | "k = Suc (Suc (Suc (Suc (Suc 0))))" using assms(5,6) by linarith
  then show ?thesis
  proof cases
    case 1
    have "broken sha256 iso_text org ?s1" using t t1 by (intro unnamed [where t' = t]) simp_all
    then show ?thesis using 1 by (simp add: run e1 a1(3))
  next
    case 2
    obtain t' where t': "it_state t' = it_state t" "write_entry org ?a (Some (Suc 0, PowerLoss)) ?s1 = (Crashed, None, set_org org (\<lambda>d. d\<lparr>ao_tree := Some t'\<rparr>) ?s1)"
      using a1(2) by blast
    have "broken sha256 iso_text org (set_org org (\<lambda>d. d\<lparr>ao_tree := Some t'\<rparr>) ?s1)" using t' t by (intro unnamed [where t' = t']) simp_all
    then show ?thesis using 2 t'(2) by (simp add: run e1)
  next
    case 3
    have "broken sha256 iso_text org ?s2" using t by (intro unnamed [where t' = "put_entry ?a t"]) (simp_all add: on_tree_def put_event_def put_entry_def)
    then show ?thesis using 3 by (simp add: run e1 a2 w)
  next
    case 4
    have "broken sha256 iso_text org (set_org org (add_temp ''state'') ?s2)"
      using t by (intro unnamed [where t' = "put_entry ?a t"]) (simp_all add: on_tree_def put_event_def put_entry_def add_temp_def)
    then show ?thesis using 4 by (simp add: run e1 a2 w)
  qed
qed


text \<open>
  C35. A power loss during recording can disable the log and the application. When the process stops after the event file is in place
  and before the state file is, the directory no longer passes the integrity check, and nothing repairs it: every later
  record, purge, listing and anonymization for the organization raises \<open>AuditIntegrityInvalid\<close> and changes no file, and the purge
  of all organizations, which the application runs at startup without catching its errors, never succeeds.
\<close>

theorem interrupted_record_blocks_log:
  assumes "log_at sha256 iso_text (ae_organization_id e) st s evs" "event_valid e" "ae_id e \<notin> ae_id ` set evs"
    and "retained days (ae_occurred_at e) evs = evs" "event_count (retention_cutoff days (ae_occurred_at e)) st < max_events"
    and "2 \<le> k" "k \<le> 5"
  shows "\<exists>st'. audit_record sha256 iso_text days max_events e (Some (k, PowerLoss)) st = (Crashed, None, st') \<and>
    (\<forall>e' days' max' b. event_valid e' \<and> ae_organization_id e' = ae_organization_id e \<longrightarrow>
       audit_record sha256 iso_text days' max' e' b st' = (Raised AuditIntegrityInvalid, b, st')) \<and>
    (\<forall>days' now b. purge_expired_events sha256 iso_text days' now (Some (ae_organization_id e)) b st' = (Raised AuditIntegrityInvalid, b, st')) \<and>
    (\<forall>days' now limit b. 1 \<le> limit \<and> limit \<le> audit_page_limit \<longrightarrow>
       audit_list sha256 iso_text days' now (ae_organization_id e) limit None None b st' = (Raised AuditIntegrityInvalid, b, st')) \<and>
    (\<forall>asset jobs receipt b. is_hex_id 32 asset \<and> is_hex_id 32 receipt \<and> list_all (is_hex_id 32) jobs \<longrightarrow>
       anonymize_active_asset sha256 iso_text (ae_organization_id e) asset jobs receipt b st' = (Raised AuditIntegrityInvalid, b, st')) \<and>
    (\<forall>days' now b n. fst (purge_expired_events sha256 iso_text days' now None b st') \<noteq> Done n)"
proof -
  let ?org = "ae_organization_id e" and ?b = "Some (k, PowerLoss)"
  have org: "is_organization_id ?org" and id: "ae_id e \<noteq> ''state''" using assms(2) by (auto simp: event_valid_def is_hex_id_def)
  have ch: "chained sha256 iso_text ?org (org_of ?org st) s evs" using assms(1) by (simp add: log_at_def)
  obtain es where es: "load_organization_events ?org (org_of ?org st) = Inr es" "set es = set evs" "distinct (map ae_id es)"
    using load_log [OF ch] by blast
  have "takeWhile (\<lambda>x. ae_occurred_at x < retention_cutoff days (ae_occurred_at e)) evs = []"
    using assms(4) unfolding retained_def by (metis append_self_conv2 takeWhile_dropWhile_id)
  then have none: "takeWhile (entry_expired (retention_cutoff days (ae_occurred_at e)) es) (entries_of_state sha256 iso_text ?org s evs) = []"
    using expired_entries [OF es(2,3)] unfolding entries_of_state_def by simp
  have purge: "purge_expired_unlocked sha256 iso_text days (ae_occurred_at e) (Some ?org) ?b st = (Done 0, ?b, st)"
    using es(1) none by (simp add: purge_expired_unlocked_def purge_organization_def bind_io_def read_fs_def os_error_as_def ensure_log [OF ch]
        verify_log [OF ch] from_res_def Let_def ret_def)
  obtain st' where stop: "append_integrity_event sha256 iso_text e s ?b st = (Crashed, None, st')" and bad: "broken sha256 iso_text ?org st'"
    using append_stopped [OF assms(1) refl assms(3) id assms(6,7)] by blast
  have "audit_record sha256 iso_text days max_events e ?b st = (Crashed, None, st')"
    using assms(2,5) purge stop by (simp add: audit_record_def Let_def bind_io_def ensure_log [OF ch] read_fs_def)
  moreover have "audit_record sha256 iso_text days' max' e' b st' = (Raised AuditIntegrityInvalid, b, st')"
    if "event_valid e'" "ae_organization_id e' = ?org" for e' days' max' b using broken_record [OF bad [folded that(2)] that(1)] .
  moreover have "purge_expired_events sha256 iso_text days' now (Some ?org) b st' = (Raised AuditIntegrityInvalid, b, st')" for days' now b
    using broken_purge_unlocked [OF bad] org by (simp add: purge_expired_events_def)
  ultimately show ?thesis using broken_list [OF bad org] broken_anonymize [OF bad org] broken_startup [OF bad org] by blast
qed


subsection \<open>A concrete log\<close>

definition audit_sha :: "string \<Rightarrow> string" where
  "audit_sha s = replicate 64 CHR ''a''"

definition asset_event :: "string \<Rightarrow> instant \<Rightarrow> audit_event" where
  "asset_event event_id at = new_event event_id ''local-admin'' ''local-admin'' ''administrator'' ''active_asset.created'' ''active_asset''
     (replicate 32 CHR ''5'') ''succeeded'' ''request-1'' at [(''job_id'', MText (replicate 32 CHR ''6'')), (''secret'', MText ''x'')]"

lemma audit_sha_digest: "digest_function audit_sha"
proof -
  have "is_hex_id 64 (replicate 64 CHR ''a'')" "replicate 64 CHR ''a'' \<noteq> chain_zero" by code_simp+
  then show ?thesis by (simp add: digest_function_def audit_sha_def)
qed

lemma show_int_inj: "inj show_int"
  using show_int_prefix [where r = "[]" and r' = "[]"] by (auto intro: injI)

lemma asset_event_valid: "event_valid (asset_event (replicate 32 CHR ''1'') 7)"
proof -
  have "is_hex_id 32 (replicate 32 CHR ''1'')" "is_organization_id ''local-admin''" "is_actor_id ''local-admin''" "is_action ''active_asset.created''"
    "is_resource_type ''active_asset''" "is_resource_id (replicate 32 CHR ''5'')" "is_correlation ''request-1''" by code_simp+
  then show ?thesis by (simp add: event_valid_def asset_event_def new_event_def)
qed

lemma empty_log: "log_state sha256 iso_text org [] []" "event_count c [] = 0"
  by (simp_all add: log_state_def unchained_def org_of_def empty_org_def log_events_def holds_events_def dict_ok_def files_of_def event_count_def)

lemma asset_event_accepted: "record_accepts ''local-admin'' 90 5 (asset_event (replicate 32 CHR ''1'') 7) []"
  using asset_event_valid by (simp add: record_accepts_def empty_log org_of_def empty_org_def) (simp add: asset_event_def new_event_def)

lemma recorded_log:
  "\<exists>st s. log_at audit_sha show_int ''local-admin'' st s [asset_event (replicate 32 CHR ''1'') 7]"
proof -
  let ?e = "asset_event (replicate 32 CHR ''1'') 7"
  have org: "ae_organization_id ?e = ''local-admin''" by (simp add: asset_event_def new_event_def)
  from record_log [OF audit_sha_digest empty_log(1) asset_event_valid, where iso_text = show_int and days = 90 and max_events = 5]
  show ?thesis unfolding org by (auto simp: empty_log)
qed

theorem record_appends_witness:
  "\<exists>st' s. audit_record audit_sha show_int 90 5 (asset_event (replicate 32 CHR ''1'') 7) None []
      = (Done (asset_event (replicate 32 CHR ''1'') 7), None, st') \<and>
    log_at audit_sha show_int ''local-admin'' st' s [asset_event (replicate 32 CHR ''1'') 7] \<and>
    validate_directory audit_sha show_int ''local-admin'' (org_of ''local-admin'' st')
      = Inr (s, entries_of_state audit_sha show_int ''local-admin'' s [asset_event (replicate 32 CHR ''1'') 7])"
proof -
  let ?e = "asset_event (replicate 32 CHR ''1'') 7"
  have org: "ae_organization_id ?e = ''local-admin''" by (simp add: asset_event_def new_event_def)
  from record_appends [OF audit_sha_digest empty_log(1) asset_event_valid, where iso_text = show_int and days = 90 and max_events = 5]
  show ?thesis unfolding org by (auto simp: empty_log)
qed

theorem audit_trail_complete_witness:
  "\<exists>gone kept. [asset_event (replicate 32 CHR ''1'') 7] = gone @ kept \<and>
    log_state audit_sha show_int ''local-admin'' (after_record audit_sha show_int 90 5 (asset_event (replicate 32 CHR ''1'') 7) []) kept \<and> gone = []"
proof -
  let ?e = "asset_event (replicate 32 CHR ''1'') 7"
  have "all_accepted (record_accepts ''local-admin'' 90 5) (after_record audit_sha show_int 90 5) [?e] []" using asset_event_accepted by simp
  from audit_trail_complete [OF audit_sha_digest empty_log(1) this] obtain gone kept where
    run: "[?e] = gone @ kept" "log_state audit_sha show_int ''local-admin'' (after_record audit_sha show_int 90 5 ?e []) kept"
      "\<forall>x \<in> set gone. ae_occurred_at x < retention_cutoff 90 (ae_occurred_at ?e)" by auto
  have "gone = []" using run(1,3) by (cases gone) (simp_all add: retention_cutoff_def)
  with run show ?thesis by blast
qed

theorem audit_pages_complete_witness:
  "\<exists>st. log_state audit_sha show_int ''local-admin'' st [asset_event (replicate 32 CHR ''1'') 7] \<and>
    collect_list audit_sha show_int 90 7 ''local-admin'' 1 None 2 None st = Some [asset_event (replicate 32 CHR ''1'') 7]"
proof -
  let ?e = "asset_event (replicate 32 CHR ''1'') 7"
  obtain st where st: "log_state audit_sha show_int ''local-admin'' st [?e]" using recorded_log unfolding log_state_def by blast
  have "is_organization_id ''local-admin''" by (simp add: is_organization_id_def)
  note pages = audit_pages_complete [OF audit_sha_digest st this, of 1 None 90 7]
  have "newest_first None (retained 90 7 [?e]) = [?e]"
    by (simp add: retained_def newest_first_def retention_cutoff_def asset_event_def new_event_def)
  moreover have "length [?e] + 1 = 2" by simp
  ultimately have "collect_list audit_sha show_int 90 7 ''local-admin'' 1 None 2 None st = Some [?e]"
    using pages by (metis audit_page_limit_def one_le_numeral order_refl)
  with st show ?thesis by blast
qed

theorem anonymize_detaches_witness:
  "\<exists>st s st' s' e. log_at audit_sha show_int ''local-admin'' st s [asset_event (replicate 32 CHR ''1'') 7] \<and>
    anonymize_active_asset audit_sha show_int ''local-admin'' (replicate 32 CHR ''5'') [replicate 32 CHR ''6''] (replicate 32 CHR ''7'') None st
      = (Done 1, None, st') \<and>
    log_at audit_sha show_int ''local-admin'' st' s' [e] \<and> cs_generation s' = cs_generation s + 1 \<and>
    ae_correlation_id e = ''active-deletion:'' @ replicate 32 CHR ''7'' \<and> ae_actor_role e = ''administrator''"
proof -
  let ?e = "asset_event (replicate 32 CHR ''1'') 7" and ?about = "about_asset (replicate 32 CHR ''5'') [replicate 32 CHR ''6'']"
  let ?u = "?e\<lparr>ae_resource_type := ''deleted_active_asset'', ae_resource_id := replicate 32 CHR ''7'',
    ae_correlation_id := ''active-deletion:'' @ replicate 32 CHR ''7'', ae_metadata := []\<rparr>"
  obtain st s where st: "log_at audit_sha show_int ''local-admin'' st s [?e]" using recorded_log by blast
  have ids: "is_organization_id ''local-admin''" "is_hex_id 32 (replicate 32 CHR ''5'')" "is_hex_id 32 (replicate 32 CHR ''7'')"
    "list_all (is_hex_id 32) [replicate 32 CHR ''6'']" "replicate 32 CHR ''7'' \<noteq> replicate 32 CHR ''5''"
    "replicate 32 CHR ''7'' \<notin> set [replicate 32 CHR ''6'']" by code_simp+
  have about: "?about ?e" by (simp add: about_asset_def asset_event_def new_event_def)
  obtain st' s' evs' where r: "anonymize_active_asset audit_sha show_int ''local-admin'' (replicate 32 CHR ''5'') [replicate 32 CHR ''6'']
      (replicate 32 CHR ''7'') None st = (Done 1, None, st')" "log_at audit_sha show_int ''local-admin'' st' s' evs'"
      "mset evs' = {#?u#}" "cs_generation s' = cs_generation s + 1"
    using anonymize_detaches [OF audit_sha_digest st ids] about by (auto simp: asset_event_def new_event_def)
  have "evs' = [?u]" using r(3) by simp
  moreover have "ae_actor_role ?u = ''administrator''" by (simp add: asset_event_def new_event_def)
  ultimately show ?thesis using st r by (intro exI [of _ st] exI [of _ s] exI [of _ st'] exI [of _ s'] exI [of _ ?u]) simp
qed

theorem interrupted_record_blocks_log_witness:
  "\<exists>st s st'. log_at audit_sha show_int ''local-admin'' st s [] \<and>
    audit_record audit_sha show_int 90 5 (asset_event (replicate 32 CHR ''1'') 7) (Some (3, PowerLoss)) st = (Crashed, None, st') \<and>
    purge_expired_events audit_sha show_int 90 8 (Some ''local-admin'') None st' = (Raised AuditIntegrityInvalid, None, st')"
proof -
  let ?e = "asset_event (replicate 32 CHR ''1'') 7"
  have org: "ae_organization_id ?e = ''local-admin''" by (simp add: asset_event_def new_event_def)
  have "unchained ''local-admin'' (org_of ''local-admin'' []) []" "ao_temps (org_of ''local-admin'' []) = []"
    by (simp_all add: unchained_def org_of_def empty_org_def log_events_def holds_events_def dict_ok_def files_of_def)
  from ensure_bootstrap [OF audit_sha_digest this, of show_int] obtain st s where
    st: "log_at audit_sha show_int ''local-admin'' st s []" "\<forall>c. event_count c st \<le> 0" using empty_log(2) by metis
  have "event_count c st < 5" for c using st(2) by (meson le_less_trans zero_less_numeral)
  from interrupted_record_blocks_log [OF st(1) [folded org] asset_event_valid _ _ this, of 90 3]
  show ?thesis using st(1) unfolding org by (auto simp: retained_def)
qed

theorem audit_head_determines_events_witness:
  "\<exists>d s es. validate_directory audit_sha show_int ''local-admin'' d = Inr (s, es) \<and> cs_retained s = 1 \<and>
    ((\<exists>x \<in> hashed_texts show_int d es. \<exists>y \<in> hashed_texts show_int d es. x \<noteq> y \<and> audit_sha x = audit_sha y) \<or>
     (\<forall>i. rel_option same_event (map_of (events_by_id d) i) (map_of (events_by_id d) i)))"
proof -
  obtain st s where st: "log_at audit_sha show_int ''local-admin'' st s [asset_event (replicate 32 CHR ''1'') 7]" using recorded_log by blast
  then have ch: "chained audit_sha show_int ''local-admin'' (org_of ''local-admin'' st) s [asset_event (replicate 32 CHR ''1'') 7]"
    by (simp add: log_at_def)
  note valid = chained_validates [OF ch]
  have "cs_retained s = 1" using validate_directory_Inr(3) [OF valid] by (simp add: entries_of_state_def)
  then show ?thesis using valid audit_head_determines_events [OF valid valid refl refl refl refl show_int_inj] by blast
qed


end
