(* ===== verification/Auth_Stores.thy ===== *)
theory Auth_Stores
  imports Automation_Tokens
begin

section \<open>Sessions, login throttling and password hashes\<close>

text \<open>
  Model of \<^verbatim>\<open>backend/app/auth.py\<close>: the in-memory session store, the login attempt store with its
  lockouts and bounded number of keys, and the password hash format. Both stores keep a \<^verbatim>\<open>dict\<close>, an
  association list in insertion order; every method takes the dictionary and returns it. A method
  argument that the code tests with \<^verbatim>\<open>isinstance(x, str)\<close> is a \<^typ>\<open>string option\<close>. Parameters: the
  clock value \<open>now\<close>, the texts the token factories return, and \<open>pbkdf2\<close>, which returns the
  hexadecimal digest or \<open>None\<close> when \<^verbatim>\<open>hashlib\<close> raises.
\<close>

subsection \<open>Sessions\<close>

record admin_session =
  se_session_id :: string
  se_csrf_token :: string
  se_operator_id :: string
  se_created_at :: instant
  se_expires_at :: instant
  se_auth_mode :: string
  se_organization_id :: "string option"
  se_role :: "string option"

type_synonym session_dict = "(string \<times> admin_session) list"

definition effective_ttl :: "int \<Rightarrow> int" where
  "effective_ttl ttl_seconds = max 1 ttl_seconds"

text \<open>\<open>tokens\<close> are the values the token factory returns, in order; \<open>fallback\<close> is a new random identifier.\<close>

definition unique_session_id :: "string list \<Rightarrow> string \<Rightarrow> session_dict \<Rightarrow> string" where
  "unique_session_id tokens fallback sessions =
     (case find (\<lambda>t. t \<notin> fst ` set sessions) (take 5 tokens) of Some t \<Rightarrow> t | None \<Rightarrow> fallback)"

definition create_admin_session ::
  "int \<Rightarrow> instant \<Rightarrow> string list \<Rightarrow> string \<Rightarrow> string \<Rightarrow> string \<Rightarrow> string \<Rightarrow> string option \<Rightarrow> string option
     \<Rightarrow> session_dict \<Rightarrow> admin_session \<times> session_dict" where
  "create_admin_session ttl_seconds now tokens fallback csrf operator_id auth_mode organization_id role sessions =
     (let session = \<lparr>se_session_id = unique_session_id tokens fallback sessions, se_csrf_token = csrf,
            se_operator_id = operator_id, se_created_at = now,
            se_expires_at = now + seconds (effective_ttl ttl_seconds), se_auth_mode = auth_mode,
            se_organization_id = organization_id, se_role = role\<rparr> in
      (session, dict_set (se_session_id session) session sessions))"

definition is_session_valid :: "instant \<Rightarrow> admin_session option \<Rightarrow> session_dict \<Rightarrow> bool" where
  "is_session_valid now session sessions =
     (case session of None \<Rightarrow> False
      | Some s \<Rightarrow> map_of sessions (se_session_id s) = Some s \<and> se_expires_at s > now)"

definition get_session :: "instant \<Rightarrow> string option \<Rightarrow> session_dict \<Rightarrow> admin_session option \<times> session_dict" where
  "get_session now session_id sessions =
     (case session_id of None \<Rightarrow> (None, sessions)
      | Some sid \<Rightarrow>
          if sid = [] then (None, sessions)
          else (case map_of sessions sid of None \<Rightarrow> (None, sessions)
                | Some session \<Rightarrow>
                    if \<not> is_session_valid now (Some session) sessions then (None, dict_pop sid sessions)
                    else (Some session, sessions)))"

definition invalidate_session :: "string option \<Rightarrow> session_dict \<Rightarrow> bool \<times> session_dict" where
  "invalidate_session session_id sessions =
     (case session_id of None \<Rightarrow> (False, sessions)
      | Some sid \<Rightarrow>
          if sid = [] then (False, sessions) else (map_of sessions sid \<noteq> None, dict_pop sid sessions))"

definition pop_keys :: "string list \<Rightarrow> (string \<times> 'v) list \<Rightarrow> (string \<times> 'v) list" where
  "pop_keys keys d = fold dict_pop keys d"

definition purge_expired_sessions :: "instant \<Rightarrow> session_dict \<Rightarrow> nat \<times> session_dict" where
  "purge_expired_sessions now sessions =
     (let expired = map fst (filter (\<lambda>(sid, session). \<not> is_session_valid now (Some session) sessions) sessions) in
      (length expired, pop_keys expired sessions))"

definition invalidate_operator_sessions :: "string \<Rightarrow> session_dict \<Rightarrow> nat \<times> session_dict" where
  "invalidate_operator_sessions operator_id sessions =
     (let ids = map fst (filter (\<lambda>(sid, session). se_operator_id session = operator_id) sessions) in
      (length ids, pop_keys ids sessions))"

subsection \<open>Login attempts\<close>

record login_record =
  lr_client_key :: string
  lr_failure_count :: int
  lr_first_failed_at :: instant
  lr_last_failed_at :: instant
  lr_locked_until :: "instant option"

type_synonym login_dict = "(string \<times> login_record) list"

record login_limits =
  window_seconds :: int
  max_failures :: int
  lockout_seconds :: int
  max_keys :: nat

text \<open>\<^verbatim>\<open>LoginAttemptStore.__init__\<close>: every limit is at least one.\<close>

definition make_limits :: "int \<Rightarrow> int \<Rightarrow> int \<Rightarrow> int \<Rightarrow> login_limits" where
  "make_limits window failures lockout keys =
     \<lparr>window_seconds = max 1 window, max_failures = max 1 failures, lockout_seconds = max 1 lockout,
      max_keys = nat (max 1 keys)\<rparr>"

definition client_key :: "string option \<Rightarrow> string" where
  "client_key key =
     (case key of None \<Rightarrow> ''unknown''
      | Some k \<Rightarrow> (let normalized = py_strip k in if normalized = [] then ''unknown'' else normalized))"

definition is_expired :: "login_limits \<Rightarrow> login_record \<Rightarrow> instant \<Rightarrow> bool" where
  "is_expired limits r now =
     (case lr_locked_until r of Some u \<Rightarrow> u \<le> now
      | None \<Rightarrow> lr_last_failed_at r + seconds (window_seconds limits) \<le> now)"

text \<open>\<^verbatim>\<open>min(records, key=...)\<close>: the first key with the least last failure.\<close>

fun oldest_key :: "login_dict \<Rightarrow> string" where
  "oldest_key [] = []"
| "oldest_key [(k, r)] = k"
| "oldest_key ((k, r) # (k', r') # d) =
     (if lr_last_failed_at r \<le> lr_last_failed_at r' then oldest_key ((k, r) # d) else oldest_key ((k', r') # d))"

lemma oldest_key_mem: "d \<noteq> [] \<Longrightarrow> oldest_key d \<in> fst ` set d"
  by (induction d rule: oldest_key.induct) auto

function evict_oldest_keys :: "nat \<Rightarrow> login_dict \<Rightarrow> login_dict" where
  "evict_oldest_keys n d = (if length d > n then evict_oldest_keys n (dict_pop (oldest_key d) d) else d)"
  by auto

lemma dict_pop_less: "k \<in> fst ` set d \<Longrightarrow> length (dict_pop k d) < length d"
  unfolding dict_pop_def by (auto intro: length_filter_less)

termination evict_oldest_keys
proof (relation "measure (\<lambda>(n, d). length d)")
  fix n :: nat and d :: login_dict
  assume "n < length d"
  then have "oldest_key d \<in> fst ` set d" by (intro oldest_key_mem) auto
  then show "((n, dict_pop (oldest_key d) d), (n, d)) \<in> measure (\<lambda>(n, d). length d)"
    using dict_pop_less by simp
qed simp

declare evict_oldest_keys.simps [simp del]

definition lock_after :: "login_limits \<Rightarrow> instant \<Rightarrow> int \<Rightarrow> instant option" where
  "lock_after limits now failures =
     (if failures \<ge> max_failures limits then Some (now + seconds (lockout_seconds limits)) else None)"

definition next_record :: "login_limits \<Rightarrow> instant \<Rightarrow> string \<Rightarrow> login_record option \<Rightarrow> login_record" where
  "next_record limits now key existing =
     (case existing of
        None \<Rightarrow> \<lparr>lr_client_key = key, lr_failure_count = 1, lr_first_failed_at = now, lr_last_failed_at = now,
                 lr_locked_until = if max_failures limits \<le> 1 then Some (now + seconds (lockout_seconds limits)) else None\<rparr>
      | Some r \<Rightarrow>
          if is_expired limits r now
          then \<lparr>lr_client_key = key, lr_failure_count = 1, lr_first_failed_at = now, lr_last_failed_at = now,
                lr_locked_until = if max_failures limits \<le> 1 then Some (now + seconds (lockout_seconds limits)) else None\<rparr>
          else if (case lr_locked_until r of None \<Rightarrow> False | Some u \<Rightarrow> u > now) then r
          else \<lparr>lr_client_key = key, lr_failure_count = lr_failure_count r + 1,
                lr_first_failed_at = lr_first_failed_at r, lr_last_failed_at = now,
                lr_locked_until = lock_after limits now (lr_failure_count r + 1)\<rparr>)"

definition record_failure :: "login_limits \<Rightarrow> instant \<Rightarrow> string option \<Rightarrow> login_dict \<Rightarrow> login_record \<times> login_dict" where
  "record_failure limits now key d =
     (let k = client_key key; r = next_record limits now k (map_of d k) in
      (r, evict_oldest_keys (max_keys limits) (dict_set k r d)))"

definition is_locked :: "login_limits \<Rightarrow> instant \<Rightarrow> string option \<Rightarrow> login_dict \<Rightarrow> bool \<times> login_dict" where
  "is_locked limits now key d =
     (let k = client_key key in
      case map_of d k of None \<Rightarrow> (False, d)
      | Some r \<Rightarrow>
          (case lr_locked_until r of
             None \<Rightarrow> (False, if is_expired limits r now then dict_pop k d else d)
           | Some u \<Rightarrow> if u \<le> now then (False, dict_pop k d) else (True, d)))"

text \<open>\<^verbatim>\<open>math.ceil\<close> of a duration in seconds, from microseconds.\<close>

definition ceil_seconds :: "int \<Rightarrow> int" where
  "ceil_seconds us = - ((- us) div 1000000)"

definition seconds_until_unlock :: "instant \<Rightarrow> string option \<Rightarrow> login_dict \<Rightarrow> int \<times> login_dict" where
  "seconds_until_unlock now key d =
     (let k = client_key key in
      case map_of d k of None \<Rightarrow> (0, d)
      | Some r \<Rightarrow>
          (case lr_locked_until r of None \<Rightarrow> (0, d)
           | Some u \<Rightarrow> if u \<le> now then (0, dict_pop k d) else (max 0 (ceil_seconds (u - now)), d)))"

definition reset_success :: "string option \<Rightarrow> login_dict \<Rightarrow> bool \<times> login_dict" where
  "reset_success key d = (let k = client_key key in (map_of d k \<noteq> None, dict_pop k d))"

definition purge_expired :: "login_limits \<Rightarrow> instant \<Rightarrow> login_dict \<Rightarrow> nat \<times> login_dict" where
  "purge_expired limits now d =
     (let expired = map fst (filter (\<lambda>(k, r). is_expired limits r now) d) in (length expired, pop_keys expired d))"

definition failure_count :: "login_limits \<Rightarrow> instant \<Rightarrow> string option \<Rightarrow> login_dict \<Rightarrow> int \<times> login_dict" where
  "failure_count limits now key d =
     (let k = client_key key in
      case map_of d k of None \<Rightarrow> (0, d)
      | Some r \<Rightarrow> if is_expired limits r now then (0, dict_pop k d) else (lr_failure_count r, d))"

definition record_count :: "login_dict \<Rightarrow> nat" where
  "record_count d = length d"

subsection \<open>The session cookie\<close>

record session_cookie_settings =
  sc_name :: string
  sc_httponly :: bool
  sc_samesite :: string
  sc_secure :: bool
  sc_max_age_seconds :: int
  sc_path :: string

definition build_session_cookie_settings :: "int \<Rightarrow> bool \<Rightarrow> session_cookie_settings" where
  "build_session_cookie_settings ttl_seconds secure =
     \<lparr>sc_name = ''inspectra_session'', sc_httponly = True, sc_samesite = ''strict'', sc_secure = secure,
      sc_max_age_seconds = max 1 ttl_seconds, sc_path = ''/''\<rparr>"

subsection \<open>Password hashes and CSRF tokens\<close>

datatype auth_exc = PasswordValueError | Pbkdf2Error | CompareTypeError | RequiredValueError string

definition min_hash_iterations :: int where
  "min_hash_iterations = 600000"

definition hash_scheme :: string where
  "hash_scheme = ''pbkdf2_sha256''"

definition salt_char :: "char \<Rightarrow> bool" where
  "salt_char c \<longleftrightarrow> is_ascii_alnum c \<or> c \<in> {CHR ''_'', CHR ''.'', CHR ''-''}"

definition is_iteration_text :: "string \<Rightarrow> bool" where
  "is_iteration_text s \<longleftrightarrow> s \<noteq> [] \<and> is_digit (hd s) \<and> hd s \<noteq> CHR ''0'' \<and> list_all is_digit s"

text \<open>\<^verbatim>\<open>[A-Fa-f0-9]\<close>\<close>

definition hash_digest_char :: "char \<Rightarrow> bool" where
  "hash_digest_char c \<longleftrightarrow> is_hex c \<or> (65 \<le> code c \<and> code c \<le> 70)"

definition is_hash_digest :: "string \<Rightarrow> bool" where
  "is_hash_digest s \<longleftrightarrow> length s = 64 \<and> list_all hash_digest_char s"

definition parse_admin_password_hash :: "string option \<Rightarrow> (int \<times> string \<times> string) option" where
  "parse_admin_password_hash password_hash =
     (case password_hash of None \<Rightarrow> None
      | Some h \<Rightarrow>
          (let value = py_strip h in
           if value = [] then None
           else (case py_split CHR ''$'' value of
                   [scheme, iterations, salt, digest] \<Rightarrow>
                     if \<not> (scheme = hash_scheme \<and> is_iteration_text iterations \<and>
                            16 \<le> length salt \<and> length salt \<le> 128 \<and> list_all salt_char salt \<and> is_hash_digest digest)
                     then None
                     else (case py_int iterations of
                             Inl _ \<Rightarrow> None
                           | Inr n \<Rightarrow> if n < min_hash_iterations then None else Some (n, salt, py_lower digest))
                 | _ \<Rightarrow> None)))"

definition is_supported_admin_password_hash :: "string option \<Rightarrow> bool" where
  "is_supported_admin_password_hash password_hash \<longleftrightarrow> parse_admin_password_hash password_hash \<noteq> None"

definition verify_admin_password ::
  "(string \<Rightarrow> string \<Rightarrow> int \<Rightarrow> string option) \<Rightarrow> string option \<Rightarrow> string option \<Rightarrow> bool" where
  "verify_admin_password pbkdf2 password password_hash =
     (case password of None \<Rightarrow> False
      | Some pw \<Rightarrow>
          if pw = [] then False
          else (case parse_admin_password_hash password_hash of None \<Rightarrow> False
                | Some (iterations, salt, expected) \<Rightarrow>
                    (case pbkdf2 pw salt iterations of None \<Rightarrow> False | Some actual \<Rightarrow> actual = expected)))"

definition hash_password ::
  "(string \<Rightarrow> string \<Rightarrow> int \<Rightarrow> string option) \<Rightarrow> string \<Rightarrow> string option \<Rightarrow> int \<Rightarrow> auth_exc + string" where
  "hash_password pbkdf2 salt password iterations =
     (case password of None \<Rightarrow> Inl PasswordValueError
      | Some pw \<Rightarrow>
          if \<not> (12 \<le> length pw \<and> length pw \<le> 256) then Inl PasswordValueError
          else if iterations < min_hash_iterations then Inl PasswordValueError
          else (case pbkdf2 pw salt iterations of None \<Rightarrow> Inl Pbkdf2Error
                | Some digest \<Rightarrow>
                    if length (show_nat (nat iterations)) > max_str_digits then Inl PasswordValueError
                    else Inr (py_join ''$'' [hash_scheme, show_nat (nat iterations), salt, digest])))"

text \<open>
  \<^verbatim>\<open>hmac.compare_digest\<close> on two \<^verbatim>\<open>str\<close> raises a \<^verbatim>\<open>TypeError\<close> unless both are ASCII.
\<close>

definition compare_digest_str :: "string \<Rightarrow> string \<Rightarrow> auth_exc + bool" where
  "compare_digest_str a b =
     (if list_all (\<lambda>c. code c < 128) a \<and> list_all (\<lambda>c. code c < 128) b then Inr (a = b) else Inl CompareTypeError)"

definition verify_admin_csrf_token :: "string option \<Rightarrow> admin_session option \<Rightarrow> auth_exc + bool" where
  "verify_admin_csrf_token token session =
     (case session of None \<Rightarrow> Inr False
      | Some s \<Rightarrow>
          (case token of None \<Rightarrow> Inr False
           | Some t \<Rightarrow> if t = [] then Inr False else compare_digest_str t (se_csrf_token s)))"

subsection \<open>Dictionary facts\<close>

lemma pop_keys_lookup: "map_of (pop_keys ks d) k = (if k \<in> set ks then None else map_of d k)"
  unfolding pop_keys_def by (induction ks arbitrary: d) (auto simp: fun_upd_def)

lemma pop_keys_ok [simp]: "dict_ok d \<Longrightarrow> dict_ok (pop_keys ks d)"
  unfolding pop_keys_def by (induction ks arbitrary: d) auto

lemma dict_pop_subset: "set (dict_pop k d) \<subseteq> set d"
  by (auto simp: dict_pop_def)

lemma pop_keys_subset: "set (pop_keys ks d) \<subseteq> set d"
  unfolding pop_keys_def
proof (induction ks arbitrary: d)
  case (Cons k ks)
  then show ?case using dict_pop_subset [of k d] subset_trans by fastforce
qed simp

lemma dict_ok_length_mono:
  assumes "dict_ok d'" "set d' \<subseteq> set d"
  shows "length d' \<le> length d"
proof -
  have "length d' = card (set d')" using assms(1) by (simp add: dict_ok_def distinct_map distinct_card)
  also have "\<dots> \<le> card (set d)" using assms(2) by (simp add: card_mono)
  also have "\<dots> \<le> length d" by (rule card_length)
  finally show ?thesis .
qed

lemma dict_set_subset: "set (dict_set k v d) \<subseteq> insert (k, v) (set d)"
  by (induction k v d rule: dict_set.induct) auto

lemma evict_length: "length (evict_oldest_keys n d) \<le> n"
proof (induction n d rule: evict_oldest_keys.induct)
  case (1 n d)
  then show ?case by (subst evict_oldest_keys.simps) simp
qed

lemma evict_subset: "set (evict_oldest_keys n d) \<subseteq> set d"
proof (induction n d rule: evict_oldest_keys.induct)
  case (1 n d)
  have "n < length d \<Longrightarrow> set (evict_oldest_keys n (dict_pop (oldest_key d) d)) \<subseteq> set d"
    by (rule order_trans [OF 1 dict_pop_subset])
  then show ?case by (subst evict_oldest_keys.simps) simp
qed

lemma evict_ok: "dict_ok d \<Longrightarrow> dict_ok (evict_oldest_keys n d)"
proof (induction n d rule: evict_oldest_keys.induct)
  case (1 n d)
  then show ?case by (subst evict_oldest_keys.simps) simp
qed

lemma evict_id: "length d \<le> n \<Longrightarrow> evict_oldest_keys n d = d"
  by (subst evict_oldest_keys.simps) simp

subsection \<open>Login throttling: invariant\<close>

definition login_record_ok :: "login_limits \<Rightarrow> string \<times> login_record \<Rightarrow> bool" where
  "login_record_ok limits kr = (case kr of (k, r) \<Rightarrow>
     lr_client_key r = k \<and> 1 \<le> lr_failure_count r \<and>
     lr_locked_until r = lock_after limits (lr_last_failed_at r) (lr_failure_count r))"

definition login_ok :: "login_limits \<Rightarrow> login_dict \<Rightarrow> bool" where
  "login_ok limits d \<longleftrightarrow> dict_ok d \<and> length d \<le> max_keys limits \<and> list_all (login_record_ok limits) d"

datatype login_op =
  LoginFailure "string option" | LoginIsLocked "string option" | LoginSeconds "string option"
  | LoginReset "string option" | LoginPurge | LoginCount "string option"

fun login_exec :: "login_limits \<Rightarrow> instant \<Rightarrow> login_op \<Rightarrow> login_dict \<Rightarrow> login_dict" where
  "login_exec limits now (LoginFailure key) d = snd (record_failure limits now key d)"
| "login_exec limits now (LoginIsLocked key) d = snd (is_locked limits now key d)"
| "login_exec limits now (LoginSeconds key) d = snd (seconds_until_unlock now key d)"
| "login_exec limits now (LoginReset key) d = snd (reset_success key d)"
| "login_exec limits now LoginPurge d = snd (purge_expired limits now d)"
| "login_exec limits now (LoginCount key) d = snd (failure_count limits now key d)"

fun login_run :: "login_limits \<Rightarrow> (instant \<times> login_op) list \<Rightarrow> login_dict \<Rightarrow> login_dict" where
  "login_run limits [] d = d"
| "login_run limits ((now, op) # ops) d = login_run limits ops (login_exec limits now op d)"

lemma login_ok_subset:
  assumes "login_ok limits d" "dict_ok d'" "set d' \<subseteq> set d"
  shows "login_ok limits d'"
  using assms dict_ok_length_mono [OF assms(2,3)] by (auto simp: login_ok_def list_all_iff)

lemma login_ok_pop: "login_ok limits d \<Longrightarrow> login_ok limits (dict_pop k d)"
  by (rule login_ok_subset [OF _ _ dict_pop_subset]) (simp_all add: login_ok_def)

lemma next_record_ok:
  assumes "\<And>r. existing = Some r \<Longrightarrow> login_record_ok limits (k, r)"
  shows "login_record_ok limits (k, next_record limits now k existing)"
proof (cases existing)
  case None
  then show ?thesis by (simp add: next_record_def login_record_ok_def lock_after_def)
next
  case (Some r)
  have "login_record_ok limits (k, r)" using assms Some by simp
  then show ?thesis
    using Some by (simp add: next_record_def login_record_ok_def) (simp add: lock_after_def)
qed

lemma record_failure_ok:
  assumes "login_ok limits d"
  shows "login_ok limits (snd (record_failure limits now key d))"
proof -
  let ?k = "client_key key"
  let ?r = "next_record limits now ?k (map_of d ?k)"
  let ?d = "evict_oldest_keys (max_keys limits) (dict_set ?k ?r d)"
  have "login_record_ok limits (?k, ?r)"
  proof (rule next_record_ok)
    fix r assume "map_of d ?k = Some r"
    then show "login_record_ok limits (?k, r)"
      using assms map_of_SomeD unfolding login_ok_def list_all_iff by fast
  qed
  moreover have "set ?d \<subseteq> insert (?k, ?r) (set d)" by (rule order_trans [OF evict_subset dict_set_subset])
  ultimately have "list_all (login_record_ok limits) ?d" using assms by (auto simp: login_ok_def list_all_iff)
  moreover have "dict_ok ?d" using assms by (intro evict_ok dict_set_ok) (simp add: login_ok_def)
  ultimately show ?thesis
    using evict_length by (simp add: record_failure_def Let_def login_ok_def)
qed

lemma login_exec_ok:
  assumes "login_ok limits d"
  shows "login_ok limits (login_exec limits now op d)"
proof (cases op)
  case (LoginFailure key)
  then show ?thesis using assms record_failure_ok by simp
next
  case LoginPurge
  have "login_ok limits (pop_keys ks d)" for ks
    using assms login_ok_subset pop_keys_subset pop_keys_ok login_ok_def by metis
  then show ?thesis using LoginPurge by (simp add: purge_expired_def Let_def)
qed (use assms login_ok_pop in
      \<open>auto simp: is_locked_def seconds_until_unlock_def reset_success_def failure_count_def Let_def
        split: option.splits\<close>)

lemma login_run_ok: "login_ok limits d \<Longrightarrow> login_ok limits (login_run limits ops d)"
  by (induction limits ops d rule: login_run.induct) (auto simp: login_exec_ok)

text \<open>
  Bounded memory and no early lockout: after any sequence of calls at any instants, the store
  holds at most \<open>max_keys\<close> records, and a client that is reported as locked has a record of at least
  \<open>max_failures\<close> failures whose last one is less than the lockout time ago.
\<close>

theorem login_lock_justified:
  fixes limits ops
  defines "d \<equiv> login_run limits ops []"
  shows "length d \<le> max_keys limits \<and>
    (fst (is_locked limits now key d) \<longrightarrow>
      (\<exists>r. map_of d (client_key key) = Some r \<and> lr_failure_count r \<ge> max_failures limits \<and>
           now < lr_last_failed_at r + seconds (lockout_seconds limits)))"
proof -
  have ok: "login_ok limits d" unfolding d_def by (rule login_run_ok) (simp add: login_ok_def dict_ok_def)
  have "lr_failure_count r \<ge> max_failures limits \<and> now < lr_last_failed_at r + seconds (lockout_seconds limits)"
    if "map_of d (client_key key) = Some r" "lr_locked_until r = Some u" "now < u" for r u
    using ok that map_of_SomeD [OF that(1)]
    by (auto simp: login_ok_def list_all_iff login_record_ok_def lock_after_def split: if_splits)
  then show ?thesis
    using ok by (auto simp: is_locked_def Let_def login_ok_def split: option.splits if_splits)
qed

subsection \<open>Login throttling: lockout\<close>

fun record_failures :: "login_limits \<Rightarrow> string option \<Rightarrow> instant list \<Rightarrow> login_dict \<Rightarrow> login_dict" where
  "record_failures limits key [] d = d"
| "record_failures limits key (t # ts) d = record_failures limits key ts (snd (record_failure limits t key d))"

lemma record_failures_snoc:
  "record_failures limits key (ts @ [t]) d = snd (record_failure limits t key (record_failures limits key ts d))"
  by (induction ts arbitrary: d) auto

text \<open>Each failure follows the one before it within the window.\<close>

fun within_window :: "login_limits \<Rightarrow> instant list \<Rightarrow> bool" where
  "within_window limits (t # t' # ts) = (t' < t + seconds (window_seconds limits) \<and> within_window limits (t' # ts))"
| "within_window limits _ = True"

lemma within_window_snoc:
  "ts \<noteq> [] \<Longrightarrow> within_window limits (ts @ [t]) \<longleftrightarrow>
     within_window limits ts \<and> t < last ts + seconds (window_seconds limits)"
  by (induction limits ts rule: within_window.induct) auto

lemma record_failure_no_evict:
  assumes "length (dict_set (client_key key) r d) \<le> max_keys limits"
    "r = next_record limits t (client_key key) (map_of d (client_key key))"
  shows "snd (record_failure limits t key d) = dict_set (client_key key) r d"
  using assms evict_id by (simp add: record_failure_def Let_def)

lemma record_failures_state:
  assumes "map_of d (client_key key) = None" "length d < max_keys limits" "max_failures limits \<ge> 1"
    and "ts \<noteq> []" "int (length ts) \<le> max_failures limits" "within_window limits ts"
  shows "\<exists>r. map_of (record_failures limits key ts d) (client_key key) = Some r \<and>
    length (record_failures limits key ts d) = Suc (length d) \<and>
    lr_failure_count r = int (length ts) \<and> lr_last_failed_at r = last ts \<and>
    lr_locked_until r = lock_after limits (last ts) (int (length ts))"
  using assms(4-6)
proof (induction ts rule: rev_induct)
  case (snoc t ts)
  let ?k = "client_key key"
  show ?case
  proof (cases "ts = []")
    case True
    let ?r = "next_record limits t ?k None"
    have len: "length (dict_set ?k ?r d) = Suc (length d)"
      using assms(1) by (simp add: dict_set_length map_of_eq_None_iff)
    have "snd (record_failure limits t key d) = dict_set ?k ?r d"
      using len assms(1,2) by (intro record_failure_no_evict) simp_all
    moreover have "lr_failure_count ?r = 1" "lr_last_failed_at ?r = t" "lr_locked_until ?r = lock_after limits t 1"
      by (simp_all add: next_record_def lock_after_def)
    ultimately show ?thesis using True len by simp
  next
    case False
    let ?d = "record_failures limits key ts d"
    obtain r where r: "map_of ?d ?k = Some r" "length ?d = Suc (length d)" "lr_failure_count r = int (length ts)"
        "lr_last_failed_at r = last ts" "lr_locked_until r = lock_after limits (last ts) (int (length ts))"
      using snoc False by (auto simp: within_window_snoc)
    have gap: "t < last ts + seconds (window_seconds limits)"
      using snoc.prems(3) False by (simp add: within_window_snoc)
    have unlocked: "lr_locked_until r = None" using r(5) snoc.prems(2) by (simp add: lock_after_def)
    let ?r = "next_record limits t ?k (Some r)"
    have len: "length (dict_set ?k ?r ?d) = Suc (length d)"
      using r(1,2) by (force simp: dict_set_length dest: map_of_SomeD)
    have "snd (record_failure limits t key ?d) = dict_set ?k ?r ?d"
      using len r(1) assms(2) by (intro record_failure_no_evict) simp_all
    moreover have "lr_failure_count ?r = int (length (ts @ [t]))" "lr_last_failed_at ?r = t"
        "lr_locked_until ?r = lock_after limits t (int (length (ts @ [t])))"
      using unlocked gap r(3,4) by (simp_all add: next_record_def is_expired_def add.commute)
    ultimately show ?thesis using len by (simp add: record_failures_snoc)
  qed
qed simp

text \<open>
  C33. Lockout in the store of the attempts that lives in memory: a client that has no record yet, in a table with room for
  one more (fewer than \<open>max_keys\<close> records), and that then fails \<open>max_failures\<close> times (at least once), each time within the window
  after the time before, is locked until the lockout time after its last failure has passed, and it is told a positive number of
  seconds to wait. Both conditions matter: a full table may evict the record, and earlier failures count as well.
\<close>

theorem lockout_after_max_failures:
  assumes "map_of d (client_key key) = None" "length d < max_keys limits" "max_failures limits \<ge> 1"
    and "int (length ts) = max_failures limits" "within_window limits ts"
    and "t < last ts + seconds (lockout_seconds limits)"
  shows "is_locked limits t key (record_failures limits key ts d) = (True, record_failures limits key ts d) \<and>
    fst (seconds_until_unlock t key (record_failures limits key ts d)) \<ge> 1"
proof -
  have "ts \<noteq> []" using assms(3,4) by auto
  then obtain r where r: "map_of (record_failures limits key ts d) (client_key key) = Some r"
      "lr_locked_until r = lock_after limits (last ts) (int (length ts))"
    using record_failures_state [OF assms(1-3) _ _ assms(5)] assms(4) by (metis order_refl)
  then have u: "lr_locked_until r = Some (last ts + seconds (lockout_seconds limits))"
    using assms(4) by (simp add: lock_after_def)
  have "ceil_seconds (last ts + seconds (lockout_seconds limits) - t) \<ge> 1"
    using assms(6) unfolding ceil_seconds_def by linarith
  then show ?thesis using r(1) u assms(6) by (simp add: is_locked_def seconds_until_unlock_def Let_def)
qed

lemma lockout_after_max_failures_witness:
  "is_locked (make_limits 60 3 300 100) 30 (Some ''10.0.0.1'')
     (record_failures (make_limits 60 3 300 100) (Some ''10.0.0.1'') [10, 20, 25] []) =
   (True, record_failures (make_limits 60 3 300 100) (Some ''10.0.0.1'') [10, 20, 25] [])"
  using lockout_after_max_failures [of "[]" "Some ''10.0.0.1''" "make_limits 60 3 300 100" "[10, 20, 25]" 30]
  by (simp add: make_limits_def seconds_def)

lemma login_lock_justified_witness:
  "length (login_run (make_limits 60 1 300 2) [(5, LoginFailure (Some ''a'')), (6, LoginFailure (Some ''b'')),
      (7, LoginFailure (Some ''c''))] []) \<le> 2"
  using login_lock_justified [of "make_limits 60 1 300 2" "[(5, LoginFailure (Some ''a'')), (6, LoginFailure (Some ''b'')),
      (7, LoginFailure (Some ''c''))]" 8 None] by (simp add: make_limits_def)

subsection \<open>Sessions: invariant and life time\<close>

definition session_dict_ok :: "session_dict \<Rightarrow> bool" where
  "session_dict_ok sessions \<longleftrightarrow> dict_ok sessions \<and> list_all (\<lambda>(sid, s). se_session_id s = sid) sessions"

datatype session_op =
  SessionCreate int "string list" string string string string "string option" "string option"
  | SessionGet "string option" | SessionInvalidate "string option" | SessionPurge | SessionInvalidateOperator string

fun session_exec :: "instant \<Rightarrow> session_op \<Rightarrow> session_dict \<Rightarrow> session_dict" where
  "session_exec now (SessionCreate ttl tokens fallback csrf operator_id auth_mode organization_id role) sessions =
     snd (create_admin_session ttl now tokens fallback csrf operator_id auth_mode organization_id role sessions)"
| "session_exec now (SessionGet session_id) sessions = snd (get_session now session_id sessions)"
| "session_exec now (SessionInvalidate session_id) sessions = snd (invalidate_session session_id sessions)"
| "session_exec now SessionPurge sessions = snd (purge_expired_sessions now sessions)"
| "session_exec now (SessionInvalidateOperator operator_id) sessions =
     snd (invalidate_operator_sessions operator_id sessions)"

fun session_run :: "(instant \<times> session_op) list \<Rightarrow> session_dict \<Rightarrow> session_dict" where
  "session_run [] sessions = sessions"
| "session_run ((now, op) # ops) sessions = session_run ops (session_exec now op sessions)"

fun session_creates :: "string \<Rightarrow> session_op \<Rightarrow> bool" where
  "session_creates sid (SessionCreate ttl tokens fallback csrf operator_id auth_mode organization_id role) =
     (sid \<in> set (take 5 tokens) \<or> sid = fallback)"
| "session_creates sid _ = False"

lemma unique_session_id_source:
  "unique_session_id tokens fallback sessions \<in> set (take 5 tokens) \<or> unique_session_id tokens fallback sessions = fallback"
  unfolding unique_session_id_def by (auto split: option.splits dest!: find_Some_iff_first)

lemma session_exec_lookup:
  assumes "\<not> session_creates sid op"
  shows "map_of (session_exec now op sessions) sid \<in> {None, map_of sessions sid}"
proof (cases op)
  case (SessionCreate ttl tokens fallback csrf operator_id auth_mode organization_id role)
  then have "unique_session_id tokens fallback sessions \<noteq> sid"
    using assms unique_session_id_source [of tokens fallback sessions] by auto
  then show ?thesis using SessionCreate by (simp add: create_admin_session_def Let_def)
qed (auto simp: get_session_def invalidate_session_def purge_expired_sessions_def
      invalidate_operator_sessions_def Let_def pop_keys_lookup split: option.splits)

lemma session_run_gone:
  "map_of sessions sid = None \<Longrightarrow> list_all (\<lambda>(t, op). \<not> session_creates sid op) ops \<Longrightarrow>
   map_of (session_run ops sessions) sid = None"
proof (induction ops sessions rule: session_run.induct)
  case (2 now op ops sessions)
  then show ?case using session_exec_lookup [of sid op now sessions] by auto
qed simp

text \<open>
  Logging out is permanent: after \<^verbatim>\<open>invalidate_session\<close>, or \<^verbatim>\<open>invalidate_operator_sessions\<close> for the
  session's operator, no later call returns the session, whatever calls come in between, as long as no
  creation draws the same identifier again.
\<close>

theorem invalidated_session_never_returned:
  assumes "sid \<noteq> []"
    and "sessions' = snd (invalidate_session (Some sid) sessions) \<or>
         (\<exists>s. map_of sessions sid = Some s \<and> sessions' = snd (invalidate_operator_sessions (se_operator_id s) sessions))"
    and "list_all (\<lambda>(t, op). \<not> session_creates sid op) ops"
  shows "fst (get_session now (Some sid) (session_run ops sessions')) = None"
proof -
  have "map_of sessions' sid = None"
    using assms(1,2) map_of_SomeD [of sessions sid]
    by (fastforce simp: invalidate_session_def invalidate_operator_sessions_def Let_def pop_keys_lookup image_iff)
  then have "map_of (session_run ops sessions') sid = None" using assms(3) by (rule session_run_gone)
  then show ?thesis using assms(1) by (simp add: get_session_def)
qed

lemma invalidated_session_never_returned_witness:
  "fst (get_session 9 (Some ''s1'') (session_run [(8, SessionPurge)]
     (snd (invalidate_session (Some ''s1'')
        (snd (create_admin_session 60 5 [''s1''] ''s2'' ''c'' ''op'' ''mode'' None None [])))))) = None"
  by (rule invalidated_session_never_returned) auto

text \<open>
  Session life time: a created session is returned by \<^verbatim>\<open>get_session\<close> exactly until its time to
  live (at least one second) has passed; from then on the lookup returns nothing and removes it.
\<close>

theorem session_lives_for_ttl:
  assumes "create_admin_session ttl now tokens fallback csrf operator_id auth_mode organization_id role sessions
             = (s, sessions')" "se_session_id s \<noteq> []"
  shows "get_session t (Some (se_session_id s)) sessions' =
    (if t < now + seconds (max 1 ttl) then (Some s, sessions') else (None, dict_pop (se_session_id s) sessions'))
    \<and> now < now + seconds (max 1 ttl)"
proof -
  have s: "se_expires_at s = now + seconds (max 1 ttl)" and lookup: "map_of sessions' (se_session_id s) = Some s"
    using assms(1) by (auto simp: create_admin_session_def Let_def effective_ttl_def)
  then show ?thesis using assms(2) by (auto simp: get_session_def is_session_valid_def seconds_def)
qed

lemma session_lives_for_ttl_witness:
  "\<exists>s sessions'. create_admin_session 60 5 [''s1''] ''s2'' ''c'' ''op'' ''mode'' None None [] = (s, sessions') \<and>
     fst (get_session 30 (Some (se_session_id s)) sessions') = Some s"
proof -
  obtain s sessions' where c: "create_admin_session 60 5 [''s1''] ''s2'' ''c'' ''op'' ''mode'' None None [] = (s, sessions')"
    by (meson surj_pair)
  have "se_session_id s \<noteq> []" using c by (auto simp: create_admin_session_def unique_session_id_def Let_def)
  from session_lives_for_ttl [OF c this, of 30] c show ?thesis by (simp add: seconds_def)
qed

subsection \<open>Password hashes\<close>

lemma hex_char_facts:
  assumes "is_hex c"
  shows "c \<noteq> CHR ''$''" "\<not> is_space c" "salt_char c" "lower_char c = c" "hash_digest_char c"
  using assms by (auto simp: char_class_defs salt_char_def lower_char_def hash_digest_char_def)

lemma digit_is_hex: "is_digit c \<Longrightarrow> is_hex c"
  by (simp add: char_class_defs)

lemma hash_text_facts:
  assumes "w \<in> set [hash_scheme, show_nat n, salt, digest]" "is_hex_id 32 salt" "is_hex_id 64 digest" "c \<in> set w"
  shows "c \<noteq> CHR ''$''" "\<not> is_space c"
proof -
  have "is_hex c \<or> c \<in> set hash_scheme"
    using assms is_hex_id_chars show_nat_digits digit_is_hex by fastforce
  then show "c \<noteq> CHR ''$''" "\<not> is_space c"
    using hex_char_facts(1,2) by (auto simp: hash_scheme_def char_class_defs)
qed

lemma parse_hash_text:
  assumes "is_hex_id 32 salt" "is_hex_id 64 digest" "n \<noteq> 0" "length (show_nat n) \<le> max_str_digits"
    and "min_hash_iterations \<le> int n"
  shows "parse_admin_password_hash (Some (py_join ''$'' [hash_scheme, show_nat n, salt, digest])) = Some (int n, salt, digest)"
proof -
  let ?parts = "[hash_scheme, show_nat n, salt, digest]"
  have split: "py_split CHR ''$'' (py_join ''$'' ?parts) = ?parts"
    by (rule py_split_join) (use hash_text_facts(1) [OF _ assms(1,2)] in blast)+
  have "set (py_join ''$'' ?parts) \<subseteq> (\<Union>w \<in> set ?parts. set w) \<union> {CHR ''$''}" by auto
  then have "\<not> is_space c" if "c \<in> set (py_join ''$'' ?parts)" for c
    using that hash_text_facts(2) [OF _ assms(1,2)] by (auto simp: char_class_defs)
  then have strip: "py_strip (py_join ''$'' ?parts) = py_join ''$'' ?parts" by (rule py_strip_no_space)
  have nonempty: "py_join ''$'' ?parts \<noteq> []" by (simp add: hash_scheme_def)
  have "is_iteration_text (show_nat n)"
    using show_nat_leading [OF assms(3)] show_nat_digits [of n] by (simp add: is_iteration_text_def list_all_iff)
  moreover have "16 \<le> length salt" "length salt \<le> 128" "list_all salt_char salt"
    using assms(1) hex_char_facts(3) is_hex_id_chars [OF assms(1)] by (auto simp: is_hex_id_def list_all_iff)
  moreover have "is_hash_digest digest" "py_lower digest = digest"
    using assms(2) hex_char_facts(4,5) is_hex_id_chars [OF assms(2)]
    by (auto simp: is_hash_digest_def is_hex_id_def list_all_iff py_lower_def map_idI)
  moreover have "py_int (show_nat n) = Inr (int n)" using assms(4) by (simp add: py_int_def digits_val_show_nat)
  ultimately show ?thesis
    using assms(5) split strip nonempty
    unfolding parse_admin_password_hash_def Let_def by (simp del: py_join.simps)
qed

text \<open>
  Round trip: a hash that \<^verbatim>\<open>hash_password\<close> returns is supported, and \<^verbatim>\<open>verify_admin_password\<close> accepts
  against it exactly the passwords whose derived key is the one of the hashed password; so it accepts
  the password itself. (The salt is 32 hexadecimal digits and derived keys are 64.)
\<close>

theorem hashed_password_verifies:
  assumes "hash_password pbkdf2 salt (Some pw) iterations = Inr h"
    and "is_hex_id 32 salt" "\<forall>p s i k. pbkdf2 p s i = Some k \<longrightarrow> is_hex_id 64 k"
  shows "is_supported_admin_password_hash (Some h) \<and> verify_admin_password pbkdf2 (Some pw) (Some h) \<and>
    (\<forall>pw'. verify_admin_password pbkdf2 (Some pw') (Some h) \<longleftrightarrow>
       pw' \<noteq> [] \<and> pbkdf2 pw' salt iterations = pbkdf2 pw salt iterations)"
proof -
  obtain digest where d: "pbkdf2 pw salt iterations = Some digest" "12 \<le> length pw"
      "min_hash_iterations \<le> iterations" "length (show_nat (nat iterations)) \<le> max_str_digits"
      "h = py_join ''$'' [hash_scheme, show_nat (nat iterations), salt, digest]"
    using assms(1) by (auto simp: hash_password_def split: option.splits if_splits)
  have "nat iterations \<noteq> 0" "int (nat iterations) = iterations" using d(3) by (auto simp: min_hash_iterations_def)
  then have "parse_admin_password_hash (Some h) = Some (iterations, salt, digest)"
    unfolding d(5) using parse_hash_text [OF assms(2), of digest "nat iterations"] assms(3) d by auto
  moreover have "pw \<noteq> []" using d(2) by auto
  ultimately show ?thesis
    using d(1) by (auto simp: is_supported_admin_password_hash_def verify_admin_password_def split: option.splits)
qed

lemma hashed_password_verifies_witness:
  "\<exists>h. hash_password (\<lambda>p s i. Some (replicate 64 (if p = ''correct horse'' then CHR ''a'' else CHR ''b'')))
         (replicate 32 CHR ''0'') (Some ''correct horse'') 600000 = Inr h \<and>
       verify_admin_password (\<lambda>p s i. Some (replicate 64 (if p = ''correct horse'' then CHR ''a'' else CHR ''b'')))
         (Some ''correct horse'') (Some h)"
proof -
  let ?f = "\<lambda>p (s::string) (i::int). Some (replicate 64 (if p = ''correct horse'' then CHR ''a'' else CHR ''b''))"
  have "isl (hash_password ?f (replicate 32 CHR ''0'') (Some ''correct horse'') 600000) = False"
    by (simp add: hash_password_def min_hash_iterations_def show_nat.simps max_str_digits_def)
  then obtain h where h: "hash_password ?f (replicate 32 CHR ''0'') (Some ''correct horse'') 600000 = Inr h"
    by (cases "hash_password ?f (replicate 32 CHR ''0'') (Some ''correct horse'') 600000") auto
  have salt: "is_hex_id 32 (replicate 32 CHR ''0'')" by code_simp
  have "is_hex_id 64 (replicate 64 CHR ''a'')" "is_hex_id 64 (replicate 64 CHR ''b'')" by code_simp+
  then have keys: "\<forall>p s i k. ?f p s i = Some k \<longrightarrow> is_hex_id 64 k" by auto
  from hashed_password_verifies [OF h salt keys] h show ?thesis by blast
qed

subsection \<open>CSRF tokens\<close>

text \<open>
  A CSRF token that holds a character outside ASCII makes the check raise a \<^verbatim>\<open>TypeError\<close> instead
  of returning false; on ASCII texts the check holds exactly for the session's own non-empty token.
\<close>

theorem csrf_check_outcome:
  assumes "list_all (\<lambda>c. code c < 128) (se_csrf_token s)" "t \<noteq> []"
  shows "verify_admin_csrf_token (Some t) (Some s) =
    (if \<exists>c \<in> set t. code c \<ge> 128 then Inl CompareTypeError else Inr (t = se_csrf_token s))"
  using assms by (auto simp: verify_admin_csrf_token_def compare_digest_str_def list_all_iff not_less)

lemma csrf_check_outcome_witness:
  "verify_admin_csrf_token (Some [CHR 0xE9])
     (Some \<lparr>se_session_id = ''s'', se_csrf_token = ''c'', se_operator_id = ''o'', se_created_at = 0, se_expires_at = 9,
            se_auth_mode = ''m'', se_organization_id = None, se_role = None\<rparr>) = Inl CompareTypeError"
  using csrf_check_outcome [of "\<lparr>se_session_id = ''s'', se_csrf_token = ''c'', se_operator_id = ''o'', se_created_at = 0,
      se_expires_at = 9, se_auth_mode = ''m'', se_organization_id = None, se_role = None\<rparr>" "[CHR 0xE9]"]
  by (simp add: code_def)

end
