(* ===== verification/Team_Identity.thy ===== *)
theory Team_Identity
  imports Auth_Stores
begin

section \<open>Team identity\<close>

text \<open>
  Model of \<^verbatim>\<open>backend/app/team_identity.py\<close>: users, organizations, memberships, federated identities, invitations and
  attestations of public package names. The SQLite database is a record with one list of rows for each table. Every operation
  is one transaction: it returns the new database or, with an error, the old one. An insert or update that violates a primary
  key, a unique column or a foreign key is an \<^verbatim>\<open>IntegrityError\<close> and so \<open>IdentityStoreUnavailable\<close>; other failures of SQLite are
  left out. The random identifiers and the clock are arguments, SHA-256 and PBKDF2 are parameters, and time stamps are exact.
  Rows that a query leaves in no particular order come in the order of the table.
\<close>

subsection \<open>Roles and texts\<close>

datatype team_error = AdministratorRequired | MaintainerRequired | InvalidUsername | InvalidRole | InvalidOrganizationName
  | InvitationUnavailable | InvalidInvitation | MemberExists | MemberNotFound | MemberNotActive | LastAdministrator
  | InvalidFederatedSubject | FederatedAdministratorForbidden | FederatedIdentityConflict | FederatedIdentityNotFound
  | InvalidPublicIdentity | InvalidAttestationTtl | AttestationExists | AttestationLimitReached | AttestationNotFound
  | AttestationNotPending | AttestationNotActive | OrganizationNotFound | IdentityStoreUnavailable | PasswordRejected auth_exc

datatype team_role = Administrator | Maintainer | Reader

definition team_role :: "string \<Rightarrow> team_error + team_role" where
  "team_role s = (if s = ''administrator'' then Inr Administrator else if s = ''maintainer'' then Inr Maintainer
     else if s = ''reader'' then Inr Reader else Inl InvalidRole)"

fun role_name :: "team_role \<Rightarrow> string" where
  "role_name Administrator = ''administrator''"
| "role_name Maintainer = ''maintainer''"
| "role_name Reader = ''reader''"

definition team_capabilities :: "string list" where
  "team_capabilities = [''workspace_read'', ''project_mutate'', ''workspace_admin'']"

definition team_role_capabilities :: "(string \<times> string list) list" where
  "team_role_capabilities =
     [(''reader'', [''workspace_read'']), (''maintainer'', [''workspace_read'', ''project_mutate'']), (''administrator'', team_capabilities)]"

definition team_role_allows :: "string \<Rightarrow> string \<Rightarrow> bool" where
  "team_role_allows role capability =
     (case map_of team_role_capabilities role of None \<Rightarrow> False
      | Some allowed \<Rightarrow> if capability \<notin> set team_capabilities then False else capability \<in> set allowed)"

definition bootstrap_organization_id :: string where
  "bootstrap_organization_id = ''local-admin''"

definition bootstrap_admin_id :: string where
  "bootstrap_admin_id = ''team-admin''"

definition bootstrap_admin_username :: string where
  "bootstrap_admin_username = ''admin''"

definition invitation_token_max_length :: nat where
  "invitation_token_max_length = 128"

definition deprovisioned_password_marker :: string where
  "deprovisioned_password_marker = ''account-deprovisioned''"

definition lower_alnum :: "char \<Rightarrow> bool" where
  "lower_alnum c \<longleftrightarrow> is_lower c \<or> is_digit c"

text \<open>\<^verbatim>\<open>[a-z0-9][a-z0-9<extra>]*\<close>\<close>

definition is_segment :: "string \<Rightarrow> string \<Rightarrow> bool" where
  "is_segment extra s \<longleftrightarrow> s \<noteq> [] \<and> lower_alnum (hd s) \<and> list_all (\<lambda>c. lower_alnum c \<or> c \<in> set extra) (tl s)"

definition is_team_username :: "string \<Rightarrow> bool" where
  "is_team_username s \<longleftrightarrow> 3 \<le> length s \<and> length s \<le> 64 \<and> is_segment ''._-'' s"

definition normalize_username :: "string \<Rightarrow> string option" where
  "normalize_username value = (let normalized = py_lower (py_strip value) in if is_team_username normalized then Some normalized else None)"

definition normalize_organization_name :: "string \<Rightarrow> team_error + string" where
  "normalize_organization_name value =
     (let normalized = py_join '' '' (py_words (py_strip value)) in
      if \<not> (3 \<le> length normalized \<and> length normalized \<le> 80) then Inl InvalidOrganizationName
      else if list_ex (\<lambda>c. code c < 32 \<or> c = CHR ''/'' \<or> c = CHR 0x5C) normalized then Inl InvalidOrganizationName
      else Inr normalized)"

definition public_identity_ecosystems :: "string list" where
  "public_identity_ecosystems = [''npm'', ''pypi'', ''go'', ''cargo'', ''composer'', ''maven'', ''nuget'']"

text \<open>\<^verbatim>\<open>re.sub(r"[-_.]+", "-", s)\<close>\<close>

fun collapse_from :: "bool \<Rightarrow> string \<Rightarrow> string" where
  "collapse_from in_run [] = []"
| "collapse_from in_run (c # cs) =
     (if c \<in> {CHR ''-'', CHR ''_'', CHR ''.''} then (if in_run then collapse_from True cs else CHR ''-'' # collapse_from True cs)
      else c # collapse_from False cs)"

definition collapse_runs :: "string \<Rightarrow> string" where
  "collapse_runs s = collapse_from False s"

definition is_npm_name :: "string \<Rightarrow> bool" where
  "is_npm_name s = (case s of CHR ''@'' # rest \<Rightarrow>
       (case py_split CHR ''/'' rest of [scope, name] \<Rightarrow> is_segment ''._-'' scope \<and> is_segment ''._-'' name | _ \<Rightarrow> False)
     | _ \<Rightarrow> is_segment ''._-'' s)"

definition is_pair_name :: "char \<Rightarrow> string \<Rightarrow> bool" where
  "is_pair_name sep s = (case py_split sep s of [x, y] \<Rightarrow> is_segment ''_.-'' x \<and> is_segment ''_.-'' y | _ \<Rightarrow> False)"

definition is_go_path :: "string \<Rightarrow> bool" where
  "is_go_path s = (case py_split CHR ''/'' s of
       host # parts \<Rightarrow> is_segment ''._~-'' host \<and> parts \<noteq> [] \<and> list_all (is_segment ''._~+-'') parts \<and> CHR ''.'' \<in> set host
     | [] \<Rightarrow> False)"

definition normalize_component_name :: "string \<Rightarrow> string \<Rightarrow> string option" where
  "normalize_component_name ecosystem value =
     (let raw = py_strip value; low = py_lower raw in
      if ecosystem = ''npm'' then (if is_npm_name low then Some low else None)
      else if ecosystem = ''pypi'' then (if is_segment ''._-'' low then Some (collapse_runs low) else None)
      else if ecosystem = ''go'' then (if raw \<noteq> low \<or> length raw > 300 \<or> \<not> is_go_path raw then None else Some raw)
      else if ecosystem = ''cargo'' then (if length raw \<le> 128 \<and> is_segment ''_-'' raw then Some raw else None)
      else if ecosystem = ''composer'' then (if length raw \<le> 200 \<and> raw = low \<and> is_pair_name CHR ''/'' raw then Some raw else None)
      else if ecosystem = ''maven'' then (if length raw \<le> 321 \<and> raw = low \<and> is_pair_name CHR '':'' raw then Some raw else None)
      else if ecosystem = ''nuget'' then (if length low \<le> 200 \<and> is_segment ''_.-'' low then Some low else None)
      else None)"

definition normalize_public_identity :: "string \<Rightarrow> string \<Rightarrow> team_error + string \<times> string" where
  "normalize_public_identity ecosystem package_name =
     (if ecosystem \<notin> set public_identity_ecosystems then Inl InvalidPublicIdentity
      else (case normalize_component_name ecosystem package_name of None \<Rightarrow> Inl InvalidPublicIdentity | Some n \<Rightarrow> Inr (ecosystem, n)))"

definition attestation_max_ttl_days :: int where
  "attestation_max_ttl_days = 90"

definition attestation_max_per_organization :: int where
  "attestation_max_per_organization = 200"

definition normalize_public_identity_ttl :: "int \<Rightarrow> team_error + int" where
  "normalize_public_identity_ttl value =
     (if \<not> (1 \<le> value \<and> value \<le> attestation_max_ttl_days) then Inl InvalidAttestationTtl else Inr value)"

definition hash_invitation_token :: "(string \<Rightarrow> string) \<Rightarrow> string \<Rightarrow> string" where
  "hash_invitation_token sha256 token = sha256 (''inspectra-team-invitation-v1'' @ [CHR 0x00] @ token)"

subsection \<open>Tables\<close>

record team_organization =
  to_id :: string
  to_name :: string
  to_created_at :: instant

record team_user =
  tu_id :: string
  tu_username :: string
  tu_password_hash :: string
  tu_active :: bool
  tu_created_at :: instant

record team_membership =
  tm_organization_id :: string
  tm_user_id :: string
  tm_role :: team_role
  tm_created_at :: instant
  tm_revoked_at :: "instant option"

record federated_identity =
  tf_id :: string
  tf_subject_digest :: string
  tf_organization_id :: string
  tf_user_id :: string
  tf_created_by :: string
  tf_created_at :: instant
  tf_revoked_at :: "instant option"

record team_invitation =
  ti_id :: string
  ti_token_hash :: string
  ti_organization_id :: string
  ti_username :: string
  ti_role :: team_role
  ti_created_by :: string
  ti_created_at :: instant
  ti_expires_at :: instant
  ti_accepted_at :: "instant option"
  ti_revoked_at :: "instant option"

datatype attestation_state = AttestationPending | AttestationApproved | AttestationRevoked

record attestation =
  pi_id :: string
  pi_organization_id :: string
  pi_ecosystem :: string
  pi_package_name :: string
  pi_state :: attestation_state
  pi_revision :: int
  pi_ttl_days :: int
  pi_proposed_by :: string
  pi_proposed_at :: instant
  pi_approved_by :: "string option"
  pi_approved_at :: "instant option"
  pi_expires_at :: "instant option"
  pi_revoked_by :: "string option"
  pi_revoked_at :: "instant option"

record team_db =
  db_organizations :: "team_organization list"
  db_users :: "team_user list"
  db_memberships :: "team_membership list"
  db_federated :: "federated_identity list"
  db_invitations :: "team_invitation list"
  db_attestations :: "attestation list"

record team_principal =
  tp_user_id :: string
  tp_username :: string
  tp_organization_id :: string
  tp_organization_name :: string
  tp_role :: team_role

definition first_row :: "'a list \<Rightarrow> 'a option" where
  "first_row rows = (case rows of [] \<Rightarrow> None | r # _ \<Rightarrow> Some r)"

definition has_user :: "team_db \<Rightarrow> string \<Rightarrow> bool" where
  "has_user db i \<longleftrightarrow> i \<in> tu_id ` set (db_users db)"

definition has_organization :: "team_db \<Rightarrow> string \<Rightarrow> bool" where
  "has_organization db i \<longleftrightarrow> i \<in> to_id ` set (db_organizations db)"

definition membership_key :: "team_membership \<Rightarrow> string \<times> string" where
  "membership_key m = (tm_organization_id m, tm_user_id m)"

definition attestation_key :: "attestation \<Rightarrow> string \<times> string \<times> string" where
  "attestation_key a = (pi_organization_id a, pi_ecosystem a, pi_package_name a)"

text \<open>\<^verbatim>\<open>INSERT\<close> into each table, with the constraints of the schema.\<close>

definition insert_organization :: "team_organization \<Rightarrow> team_db \<Rightarrow> team_error + team_db" where
  "insert_organization r db =
     (if has_organization db (to_id r) then Inl IdentityStoreUnavailable else Inr (db\<lparr>db_organizations := db_organizations db @ [r]\<rparr>))"

definition insert_user :: "team_user \<Rightarrow> team_db \<Rightarrow> team_error + team_db" where
  "insert_user r db =
     (if has_user db (tu_id r) \<or> tu_username r \<in> tu_username ` set (db_users db) then Inl IdentityStoreUnavailable
      else Inr (db\<lparr>db_users := db_users db @ [r]\<rparr>))"

definition insert_membership :: "team_membership \<Rightarrow> team_db \<Rightarrow> team_error + team_db" where
  "insert_membership r db =
     (if membership_key r \<in> membership_key ` set (db_memberships db) \<or> \<not> has_organization db (tm_organization_id r) \<or> \<not> has_user db (tm_user_id r)
      then Inl IdentityStoreUnavailable else Inr (db\<lparr>db_memberships := db_memberships db @ [r]\<rparr>))"

definition insert_invitation :: "team_invitation \<Rightarrow> team_db \<Rightarrow> team_error + team_db" where
  "insert_invitation r db =
     (if ti_id r \<in> ti_id ` set (db_invitations db) \<or> ti_token_hash r \<in> ti_token_hash ` set (db_invitations db) \<or>
         \<not> has_organization db (ti_organization_id r) \<or> \<not> has_user db (ti_created_by r)
      then Inl IdentityStoreUnavailable else Inr (db\<lparr>db_invitations := db_invitations db @ [r]\<rparr>))"

subsection \<open>Queries\<close>

text \<open>The joins of active users with their live memberships, with and without the organization.\<close>

definition member_rows :: "team_db \<Rightarrow> (team_user \<times> team_membership) list" where
  "member_rows db = [(u, m). u \<leftarrow> db_users db, m \<leftarrow> db_memberships db, tm_user_id m = tu_id u \<and> tu_active u \<and> tm_revoked_at m = None]"

definition principal_rows :: "team_db \<Rightarrow> (team_user \<times> team_membership \<times> team_organization) list" where
  "principal_rows db = [(u, m, org). (u, m) \<leftarrow> member_rows db, org \<leftarrow> db_organizations db, to_id org = tm_organization_id m]"

fun principal_from_row :: "team_user \<times> team_membership \<times> team_organization \<Rightarrow> team_principal" where
  "principal_from_row (u, m, org) =
     \<lparr>tp_user_id = tu_id u, tp_username = tu_username u, tp_organization_id = to_id org, tp_organization_name = to_name org, tp_role = tm_role m\<rparr>"

text \<open>\<^verbatim>\<open>ORDER BY CASE WHEN o.id = 'local-admin' THEN 0 ELSE 1 END, o.created_at\<close>\<close>

definition organization_order :: "team_organization \<Rightarrow> int \<times> instant" where
  "organization_order org = (if to_id org = bootstrap_organization_id then 0 else 1, to_created_at org)"

definition authenticate ::
  "(string \<Rightarrow> string \<Rightarrow> int \<Rightarrow> string option) \<Rightarrow> string \<Rightarrow> string \<Rightarrow> team_db \<Rightarrow> team_principal option" where
  "authenticate pbkdf2 username password db =
     (case normalize_username username of None \<Rightarrow> None
      | Some name \<Rightarrow>
          (case first_row (sort_key (\<lambda>(u, m, org). organization_order org) (filter (\<lambda>(u, m, org). tu_username u = name) (principal_rows db))) of
             None \<Rightarrow> None
           | Some (u, m, org) \<Rightarrow>
               if \<not> verify_admin_password pbkdf2 (Some password) (Some (tu_password_hash u)) then None
               else Some (principal_from_row (u, m, org))))"

definition list_organizations :: "string \<Rightarrow> team_db \<Rightarrow> (team_organization \<times> team_role) list" where
  "list_organizations user_id db =
     map (\<lambda>(u, m, org). (org, tm_role m))
       (sort_key (\<lambda>(u, m, org). organization_order org) (filter (\<lambda>(u, m, org). tm_user_id m = user_id) (principal_rows db)))"

definition get_principal :: "string \<Rightarrow> string \<Rightarrow> team_db \<Rightarrow> team_principal option" where
  "get_principal user_id organization_id db =
     map_option principal_from_row (first_row (filter (\<lambda>(u, m, org). tu_id u = user_id \<and> to_id org = organization_id) (principal_rows db)))"

record team_member =
  me_user_id :: string
  me_username :: string
  me_role :: team_role
  me_joined_at :: instant

fun role_rank :: "team_role \<Rightarrow> int" where
  "role_rank Administrator = 0"
| "role_rank Maintainer = 1"
| "role_rank Reader = 2"

definition list_members :: "string \<Rightarrow> team_db \<Rightarrow> team_member list" where
  "list_members organization_id db =
     map (\<lambda>(u, m). \<lparr>me_user_id = tu_id u, me_username = tu_username u, me_role = tm_role m, me_joined_at = tm_created_at m\<rparr>)
       (sort_key (\<lambda>(u, m). (role_rank (tm_role m), tu_username u)) (filter (\<lambda>(u, m). tm_organization_id m = organization_id) (member_rows db)))"

subsection \<open>Organizations and members\<close>

text \<open>A transaction: an error leaves the database as it was.\<close>

definition commit :: "team_db \<Rightarrow> team_error + 'a \<times> team_db \<Rightarrow> (team_error + 'a) \<times> team_db" where
  "commit db r = (case r of Inl e \<Rightarrow> (Inl e, db) | Inr (x, db') \<Rightarrow> (Inr x, db'))"

definition create_organization ::
  "string \<Rightarrow> instant \<Rightarrow> team_principal \<Rightarrow> string \<Rightarrow> team_db \<Rightarrow> (team_error + team_organization) \<times> team_db" where
  "create_organization organization_id now p name db =
     (if tp_role p \<noteq> Administrator then (Inl AdministratorRequired, db)
      else commit db (bind_res (normalize_organization_name name) (\<lambda>normalized.
        let org = \<lparr>to_id = organization_id, to_name = normalized, to_created_at = now\<rparr> in
        bind_res (insert_organization org db) (\<lambda>db1.
          bind_res (insert_membership \<lparr>tm_organization_id = organization_id, tm_user_id = tp_user_id p, tm_role = Administrator,
              tm_created_at = now, tm_revoked_at = None\<rparr> db1) (\<lambda>db2. Inr (org, db2))))))"

definition live_membership :: "string \<Rightarrow> string \<Rightarrow> team_membership \<Rightarrow> bool" where
  "live_membership organization_id user_id m \<longleftrightarrow> tm_organization_id m = organization_id \<and> tm_user_id m = user_id \<and> tm_revoked_at m = None"

definition administrator_count :: "string \<Rightarrow> team_db \<Rightarrow> nat" where
  "administrator_count organization_id db =
     length (filter (\<lambda>m. tm_organization_id m = organization_id \<and> tm_role m = Administrator \<and> tm_revoked_at m = None) (db_memberships db))"

definition set_memberships :: "(team_membership \<Rightarrow> bool) \<Rightarrow> (team_membership \<Rightarrow> team_membership) \<Rightarrow> team_db \<Rightarrow> team_db" where
  "set_memberships P f db = db\<lparr>db_memberships := map (\<lambda>m. if P m then f m else m) (db_memberships db)\<rparr>"

definition change_member_role ::
  "team_principal \<Rightarrow> string \<Rightarrow> string \<Rightarrow> team_db \<Rightarrow> (team_error + team_member) \<times> team_db" where
  "change_member_role p user_id role db =
     (if tp_role p \<noteq> Administrator then (Inl AdministratorRequired, db)
      else case team_role role of Inl e \<Rightarrow> (Inl e, db)
      | Inr r \<Rightarrow>
          if user_id = bootstrap_admin_id \<and> r \<noteq> Administrator then (Inl LastAdministrator, db)
          else (case find (live_membership (tp_organization_id p) user_id) (db_memberships db) of
             None \<Rightarrow> (Inl MemberNotFound, db)
           | Some current \<Rightarrow>
               if tm_role current = Administrator \<and> r \<noteq> Administrator \<and> administrator_count (tp_organization_id p) db \<le> 1
               then (Inl LastAdministrator, db)
               else (let db' = set_memberships (live_membership (tp_organization_id p) user_id) (\<lambda>m. m\<lparr>tm_role := r\<rparr>) db in
                 case find (\<lambda>x. me_user_id x = user_id) (list_members (tp_organization_id p) db') of
                   None \<Rightarrow> (Inl MemberNotFound, db')
                 | Some member \<Rightarrow> (Inr member, db'))))"

text \<open>
  An operation of a caller that runs inside the transaction has a state \<open>'x\<close> of its own, which a rollback does not undo; when it
  raises, the transaction is rolled back. An error of SQLite in it is taken for one of the store.
\<close>

datatype 'e callback_error = CallbackSqliteError | CallbackError 'e

datatype 'e team_failure = TeamFailure team_error | CallerFailure 'e

definition callback_failure :: "'e callback_error \<Rightarrow> 'e team_failure" where
  "callback_failure e = (case e of CallbackSqliteError \<Rightarrow> TeamFailure IdentityStoreUnavailable | CallbackError x \<Rightarrow> CallerFailure x)"

definition run_with_active_members ::
  "string \<Rightarrow> string list \<Rightarrow> ('x \<Rightarrow> ('e callback_error + 't) \<times> 'x) \<Rightarrow> team_db \<Rightarrow> 'x \<Rightarrow> ('e team_failure + 't) \<times> 'x" where
  "run_with_active_members organization_id user_ids operation db ext =
     (if set (filter (\<lambda>i. i \<in> set user_ids) (map (\<lambda>(u, m). tm_user_id m) (filter (\<lambda>(u, m). tm_organization_id m = organization_id) (member_rows db))))
         \<noteq> set user_ids
      then (Inl (TeamFailure MemberNotActive), ext)
      else (case operation ext of (Inl e, ext') \<Rightarrow> (Inl (callback_failure e), ext') | (Inr x, ext') \<Rightarrow> (Inr x, ext')))"

definition deprovisioned_username :: "string \<Rightarrow> string" where
  "deprovisioned_username user_id = ''deprovisioned.'' @ user_id"

text \<open>\<^verbatim>\<open>UPDATE team_users SET username = ?, ... WHERE id = ?\<close>: the user name is unique.\<close>

definition deprovision_user :: "string \<Rightarrow> team_db \<Rightarrow> team_error + team_db" where
  "deprovision_user user_id db =
     (if list_ex (\<lambda>u. tu_id u \<noteq> user_id \<and> tu_username u = deprovisioned_username user_id) (db_users db) then Inl IdentityStoreUnavailable
      else Inr (db\<lparr>db_users := map (\<lambda>u. if tu_id u = user_id then u\<lparr>tu_username := deprovisioned_username user_id,
          tu_password_hash := deprovisioned_password_marker, tu_active := False\<rparr> else u) (db_users db)\<rparr>))"

definition revoke_member ::
  "instant \<Rightarrow> team_principal \<Rightarrow> string \<Rightarrow> ('x \<Rightarrow> ('e callback_error + 't) \<times> 'x) option \<Rightarrow> team_db \<Rightarrow> 'x
     \<Rightarrow> ('e team_failure + 't option) \<times> team_db \<times> 'x" where
  "revoke_member now p user_id on_membership_revoked db ext =
     (if tp_role p \<noteq> Administrator then (Inl (TeamFailure AdministratorRequired), db, ext)
      else if user_id = bootstrap_admin_id then (Inl (TeamFailure LastAdministrator), db, ext)
      else case find (live_membership (tp_organization_id p) user_id) (db_memberships db) of
        None \<Rightarrow> (Inl (TeamFailure MemberNotFound), db, ext)
      | Some current \<Rightarrow>
          if tm_role current = Administrator \<and> administrator_count (tp_organization_id p) db \<le> 1
          then (Inl (TeamFailure LastAdministrator), db, ext)
          else if length (filter (live_membership (tp_organization_id p) user_id) (db_memberships db)) \<noteq> 1
          then (Inl (TeamFailure MemberNotFound), db, ext)
          else (let db1 = set_memberships (live_membership (tp_organization_id p) user_id) (\<lambda>m. m\<lparr>tm_revoked_at := Some now\<rparr>) db;
                    (result, ext') = (case on_membership_revoked of None \<Rightarrow> (Inr None, ext)
                      | Some f \<Rightarrow> (case f ext of (Inl e, x) \<Rightarrow> (Inl e, x) | (Inr v, x) \<Rightarrow> (Inr (Some v), x))) in
            case result of Inl e \<Rightarrow> (Inl (callback_failure e), db, ext')
            | Inr v \<Rightarrow>
                if list_ex (\<lambda>m. tm_user_id m = user_id \<and> tm_revoked_at m = None) (db_memberships db1) then (Inr v, db1, ext')
                else (case deprovision_user user_id db1 of Inl e \<Rightarrow> (Inl (TeamFailure e), db, ext') | Inr db2 \<Rightarrow> (Inr v, db2, ext'))))"


subsection \<open>Federated identities\<close>

definition subject_digest :: "string \<Rightarrow> team_error + string" where
  "subject_digest value = (if is_hex_id 64 value then Inr value else Inl InvalidFederatedSubject)"

definition binding_identifier :: "string \<Rightarrow> team_error + string" where
  "binding_identifier value = (if is_hex_id 32 value then Inr value else Inl FederatedIdentityNotFound)"

record federated_binding =
  fb_binding_id :: string
  fb_organization_id :: string
  fb_user_id :: string
  fb_username :: string
  fb_role :: team_role
  fb_created_at :: instant
  fb_revoked_at :: "instant option"

text \<open>
  \<^verbatim>\<open>INSERT ... ON CONFLICT(subject_digest) DO UPDATE SET revoked_at = NULL\<close>. An insert with a new digest and an identifier that is
  taken fails.
\<close>

definition upsert_federated :: "federated_identity \<Rightarrow> team_db \<Rightarrow> team_error + team_db" where
  "upsert_federated r db =
     (if \<not> has_organization db (tf_organization_id r) \<or> \<not> has_user db (tf_user_id r) \<or> \<not> has_user db (tf_created_by r) then Inl IdentityStoreUnavailable
      else if tf_subject_digest r \<in> tf_subject_digest ` set (db_federated db)
      then Inr (db\<lparr>db_federated := map (\<lambda>f. if tf_subject_digest f = tf_subject_digest r then f\<lparr>tf_revoked_at := None\<rparr> else f) (db_federated db)\<rparr>)
      else if tf_id r \<in> tf_id ` set (db_federated db) then Inl IdentityStoreUnavailable
      else Inr (db\<lparr>db_federated := db_federated db @ [r]\<rparr>))"

definition provision_federated_identity ::
  "string \<Rightarrow> instant \<Rightarrow> team_principal \<Rightarrow> string \<Rightarrow> string \<Rightarrow> team_db \<Rightarrow> (team_error + federated_binding) \<times> team_db" where
  "provision_federated_identity new_id now p user_id digest_text db =
     (if tp_role p \<noteq> Administrator then (Inl AdministratorRequired, db)
      else commit db (bind_res (subject_digest digest_text) (\<lambda>digest.
        case first_row (filter (\<lambda>(u, m). tu_id u = user_id \<and> tm_organization_id m = tp_organization_id p) (member_rows db)) of
          None \<Rightarrow> Inl MemberNotFound
        | Some (u, m) \<Rightarrow>
            if tm_role m = Administrator then Inl FederatedAdministratorForbidden
            else (let existing = find (\<lambda>f. tf_subject_digest f = digest) (db_federated db) in
              if (case existing of None \<Rightarrow> False | Some f \<Rightarrow> tf_organization_id f \<noteq> tp_organization_id p \<or> tf_user_id f \<noteq> user_id)
              then Inl FederatedIdentityConflict
              else (let binding_id = (case existing of None \<Rightarrow> new_id | Some f \<Rightarrow> tf_id f) in
                bind_res (upsert_federated \<lparr>tf_id = binding_id, tf_subject_digest = digest, tf_organization_id = tp_organization_id p,
                    tf_user_id = user_id, tf_created_by = tp_user_id p, tf_created_at = now, tf_revoked_at = None\<rparr> db) (\<lambda>db'.
                  Inr (\<lparr>fb_binding_id = binding_id, fb_organization_id = tp_organization_id p, fb_user_id = tu_id u, fb_username = tu_username u,
                      fb_role = tm_role m, fb_created_at = now, fb_revoked_at = None\<rparr>, db')))))))"

definition federated_rows :: "team_db \<Rightarrow> (federated_identity \<times> team_user \<times> team_membership) list" where
  "federated_rows db = [(f, u, m). f \<leftarrow> db_federated db, u \<leftarrow> db_users db, m \<leftarrow> db_memberships db,
     tu_id u = tf_user_id f \<and> tm_user_id m = tf_user_id f \<and> tm_organization_id m = tf_organization_id f]"

definition resolve_federated_principal :: "string \<Rightarrow> string \<Rightarrow> string \<Rightarrow> team_db \<Rightarrow> team_error + team_principal option" where
  "resolve_federated_principal organization_id digest_text asserted_role db =
     bind_res (subject_digest digest_text) (\<lambda>digest. Inr
       (case first_row [(u, m, org). (f, u, m) \<leftarrow> federated_rows db, org \<leftarrow> db_organizations db,
            to_id org = tf_organization_id f \<and> tf_subject_digest f = digest \<and> tf_organization_id f = organization_id \<and>
            tf_revoked_at f = None \<and> tu_active u \<and> tm_revoked_at m = None] of
          None \<Rightarrow> None
        | Some (u, m, org) \<Rightarrow>
            if role_name (tm_role m) \<noteq> asserted_role \<or> tm_role m = Administrator then None else Some (principal_from_row (u, m, org))))"

definition binding_of :: "string \<Rightarrow> federated_identity \<times> team_user \<times> team_membership \<Rightarrow> federated_binding" where
  "binding_of organization_id row = (case row of (f, u, m) \<Rightarrow>
     \<lparr>fb_binding_id = tf_id f, fb_organization_id = organization_id, fb_user_id = tf_user_id f, fb_username = tu_username u,
      fb_role = tm_role m, fb_created_at = tf_created_at f, fb_revoked_at = None\<rparr>)"

definition list_federated_identities :: "string \<Rightarrow> team_db \<Rightarrow> federated_binding list" where
  "list_federated_identities organization_id db =
     map (binding_of organization_id) (sort_key (\<lambda>(f, u, m). (- tf_created_at f, tf_id f))
       (filter (\<lambda>(f, u, m). tf_organization_id f = organization_id \<and> tf_revoked_at f = None) (federated_rows db)))"

definition revoke_federated_identity ::
  "instant \<Rightarrow> team_principal \<Rightarrow> string \<Rightarrow> team_db \<Rightarrow> (team_error + federated_binding) \<times> team_db" where
  "revoke_federated_identity now p binding_id db =
     (if tp_role p \<noteq> Administrator then (Inl AdministratorRequired, db)
      else commit db (bind_res (binding_identifier binding_id) (\<lambda>i.
        case first_row (filter (\<lambda>(f, u, m). tf_id f = i \<and> tf_organization_id f = tp_organization_id p) (federated_rows db)) of
          None \<Rightarrow> Inl FederatedIdentityNotFound
        | Some (f, u, m) \<Rightarrow>
            if tf_revoked_at f \<noteq> None then Inl FederatedIdentityNotFound
            else Inr ((binding_of (tp_organization_id p) (f, u, m))\<lparr>fb_revoked_at := Some now\<rparr>,
              db\<lparr>db_federated := map (\<lambda>x. if tf_id x = i \<and> tf_organization_id x = tp_organization_id p then x\<lparr>tf_revoked_at := Some now\<rparr> else x)
                (db_federated db)\<rparr>))))"

subsection \<open>Invitations\<close>

record issued_invitation =
  ii_invitation_id :: string
  ii_token :: string
  ii_username :: string
  ii_role :: team_role
  ii_expires_at :: instant

text \<open>\<^verbatim>\<open>ttl_seconds\<close> is the configured duration; the constructor raises it to one second.\<close>

definition create_invitation ::
  "(string \<Rightarrow> string) \<Rightarrow> int \<Rightarrow> string \<Rightarrow> string \<Rightarrow> instant \<Rightarrow> team_principal \<Rightarrow> string \<Rightarrow> string \<Rightarrow> team_db
     \<Rightarrow> (team_error + issued_invitation) \<times> team_db" where
  "create_invitation sha256 ttl_seconds invitation_id token now p username role db =
     (if tp_role p \<noteq> Administrator then (Inl AdministratorRequired, db)
      else case normalize_username username of None \<Rightarrow> (Inl InvalidUsername, db)
      | Some name \<Rightarrow> commit db (bind_res (team_role role) (\<lambda>r.
          let expires_at = now + seconds (max 1 ttl_seconds) in
          if token = [] \<or> length token > invitation_token_max_length then Inl InvitationUnavailable
          else if list_ex (\<lambda>(u, m). tu_username u = name \<and> tm_organization_id m = tp_organization_id p) (member_rows db) then Inl MemberExists
          else bind_res (insert_invitation
              \<lparr>ti_id = invitation_id, ti_token_hash = hash_invitation_token sha256 token, ti_organization_id = tp_organization_id p,
               ti_username = name, ti_role = r, ti_created_by = tp_user_id p, ti_created_at = now, ti_expires_at = expires_at,
               ti_accepted_at = None, ti_revoked_at = None\<rparr>
              (db\<lparr>db_invitations := map (\<lambda>i. if ti_organization_id i = tp_organization_id p \<and> ti_username i = name \<and>
                  ti_accepted_at i = None \<and> ti_revoked_at i = None then i\<lparr>ti_revoked_at := Some now\<rparr> else i) (db_invitations db)\<rparr>)) (\<lambda>db'.
            Inr (\<lparr>ii_invitation_id = invitation_id, ii_token = token, ii_username = name, ii_role = r, ii_expires_at = expires_at\<rparr>, db')))))"

definition accept_user ::
  "(string \<Rightarrow> string \<Rightarrow> int \<Rightarrow> string option) \<Rightarrow> string \<Rightarrow> string \<Rightarrow> string \<Rightarrow> string \<Rightarrow> instant \<Rightarrow> team_db \<Rightarrow> team_error + string \<times> team_db" where
  "accept_user pbkdf2 new_id username password password_hash now db =
     (case find (\<lambda>u. tu_username u = username) (db_users db) of
        Some u \<Rightarrow> if \<not> tu_active u \<or> \<not> verify_admin_password pbkdf2 (Some password) (Some (tu_password_hash u)) then Inl InvalidInvitation
          else Inr (tu_id u, db)
      | None \<Rightarrow> bind_res (insert_user \<lparr>tu_id = new_id, tu_username = username, tu_password_hash = password_hash, tu_active = True,
            tu_created_at = now\<rparr> db) (\<lambda>db'. Inr (new_id, db')))"

definition accept_invitation ::
  "(string \<Rightarrow> string) \<Rightarrow> (string \<Rightarrow> string \<Rightarrow> int \<Rightarrow> string option) \<Rightarrow> string \<Rightarrow> string \<Rightarrow> instant \<Rightarrow> string \<Rightarrow> string \<Rightarrow> team_db
     \<Rightarrow> (team_error + team_principal) \<times> team_db" where
  "accept_invitation sha256 pbkdf2 salt new_id now token password db =
     (if token = [] \<or> length token > invitation_token_max_length then (Inl InvalidInvitation, db)
      else case hash_password pbkdf2 salt (Some password) min_hash_iterations of Inl e \<Rightarrow> (Inl (PasswordRejected e), db)
      | Inr password_hash \<Rightarrow>
          let token_hash = hash_invitation_token sha256 token in
          case commit db (case first_row [i. i \<leftarrow> db_invitations db, org \<leftarrow> db_organizations db,
                to_id org = ti_organization_id i \<and> ti_token_hash i = token_hash] of
              None \<Rightarrow> Inl InvalidInvitation
            | Some i \<Rightarrow>
                if ti_accepted_at i \<noteq> None \<or> ti_revoked_at i \<noteq> None \<or> ti_expires_at i \<le> now then Inl InvalidInvitation
                else bind_res (accept_user pbkdf2 new_id (ti_username i) password password_hash now db) (\<lambda>(user_id, db1).
                  bind_res (insert_membership \<lparr>tm_organization_id = ti_organization_id i, tm_user_id = user_id, tm_role = ti_role i,
                      tm_created_at = now, tm_revoked_at = None\<rparr> db1) (\<lambda>db2.
                    Inr ((user_id, ti_organization_id i), db2\<lparr>db_invitations :=
                      map (\<lambda>x. if ti_id x = ti_id i then x\<lparr>ti_accepted_at := Some now\<rparr> else x) (db_invitations db2)\<rparr>)))) of
            (Inl e, db') \<Rightarrow> (Inl e, db')
          | (Inr (user_id, organization_id), db') \<Rightarrow>
              (case get_principal user_id organization_id db' of None \<Rightarrow> (Inl IdentityStoreUnavailable, db') | Some p \<Rightarrow> (Inr p, db')))"

definition terminal_at :: "team_invitation \<Rightarrow> instant" where
  "terminal_at i = (case ti_accepted_at i of Some t \<Rightarrow> t | None \<Rightarrow> (case ti_revoked_at i of Some t \<Rightarrow> t | None \<Rightarrow> ti_expires_at i))"

definition organization_identifier :: "string \<Rightarrow> team_error + string" where
  "organization_identifier value = (if value = bootstrap_organization_id \<or> is_hex_id 32 value then Inr value else Inl OrganizationNotFound)"

definition purge_terminal_invitations :: "instant \<Rightarrow> string option \<Rightarrow> team_db \<Rightarrow> (team_error + nat) \<times> team_db" where
  "purge_terminal_invitations cutoff organization_id db =
     commit db (bind_res (case organization_id of None \<Rightarrow> Inr None | Some s \<Rightarrow> bind_res (organization_identifier s) (\<lambda>x. Inr (Some x))) (\<lambda>org.
       let gone = (\<lambda>i. terminal_at i \<le> cutoff \<and> (org = None \<or> org = Some (ti_organization_id i))) in
       Inr (length (filter gone (db_invitations db)), db\<lparr>db_invitations := filter (\<lambda>i. \<not> gone i) (db_invitations db)\<rparr>)))"


subsection \<open>Attestations of public package names\<close>

datatype attestation_status = StatusPending | StatusApproved | StatusExpired | StatusRevoked

definition public_identity_status :: "instant \<Rightarrow> attestation \<Rightarrow> attestation_status" where
  "public_identity_status now a =
     (if pi_state a = AttestationApproved \<and> (case pi_expires_at a of None \<Rightarrow> False | Some t \<Rightarrow> t \<le> now) then StatusExpired
      else case pi_state a of AttestationPending \<Rightarrow> StatusPending | AttestationApproved \<Rightarrow> StatusApproved | AttestationRevoked \<Rightarrow> StatusRevoked)"

text \<open>
  What the operations return: the row with its status. A row whose ecosystem is unknown is an error, raised after the
  transaction is committed.
\<close>

definition attestation_from_row :: "instant \<Rightarrow> attestation \<Rightarrow> team_error + attestation \<times> attestation_status" where
  "attestation_from_row now a =
     (if pi_ecosystem a \<notin> set public_identity_ecosystems then Inl IdentityStoreUnavailable else Inr (a, public_identity_status now a))"

definition opaque_identifier :: "string \<Rightarrow> team_error + string" where
  "opaque_identifier value = (if is_hex_id 32 value then Inr value else Inl AttestationNotFound)"

text \<open>
  \<^verbatim>\<open>INSERT ... ON CONFLICT(organization_id, ecosystem, package_name) DO UPDATE\<close>. The identifier is unique as well, and is new.
\<close>

definition upsert_attestation :: "attestation \<Rightarrow> team_db \<Rightarrow> team_error + team_db" where
  "upsert_attestation r db =
     (if \<not> has_organization db (pi_organization_id r) \<or> \<not> has_user db (pi_proposed_by r) \<or> pi_id r \<in> pi_id ` set (db_attestations db)
      then Inl IdentityStoreUnavailable
      else if attestation_key r \<in> attestation_key ` set (db_attestations db)
      then Inr (db\<lparr>db_attestations := map (\<lambda>a. if attestation_key a = attestation_key r then r else a) (db_attestations db)\<rparr>)
      else Inr (db\<lparr>db_attestations := db_attestations db @ [r]\<rparr>))"

definition propose_public_identity ::
  "string \<Rightarrow> instant \<Rightarrow> team_principal \<Rightarrow> string \<Rightarrow> string \<Rightarrow> int \<Rightarrow> team_db \<Rightarrow> (team_error + attestation \<times> attestation_status) \<times> team_db" where
  "propose_public_identity attestation_id now p ecosystem package_name requested_ttl_days db =
     (if tp_role p \<notin> {Administrator, Maintainer} then (Inl MaintainerRequired, db)
      else (case commit db (bind_res (normalize_public_identity ecosystem package_name) (\<lambda>(eco, name).
        bind_res (normalize_public_identity_ttl requested_ttl_days) (\<lambda>ttl.
          let key = (tp_organization_id p, eco, name); existing = find (\<lambda>a. attestation_key a = key) (db_attestations db) in
          if (case existing of None \<Rightarrow> False | Some a \<Rightarrow> public_identity_status now a \<in> {StatusPending, StatusApproved}) then Inl AttestationExists
          else if existing = None \<and>
            int (length (filter (\<lambda>a. pi_organization_id a = tp_organization_id p) (db_attestations db))) \<ge> attestation_max_per_organization
          then Inl AttestationLimitReached
          else (let a = \<lparr>pi_id = attestation_id, pi_organization_id = tp_organization_id p, pi_ecosystem = eco, pi_package_name = name,
                  pi_state = AttestationPending, pi_revision = (case existing of None \<Rightarrow> 1 | Some x \<Rightarrow> pi_revision x + 1), pi_ttl_days = ttl,
                  pi_proposed_by = tp_user_id p, pi_proposed_at = now, pi_approved_by = None, pi_approved_at = None, pi_expires_at = None,
                  pi_revoked_by = None, pi_revoked_at = None\<rparr> in
            bind_res (upsert_attestation a db) (\<lambda>db'. Inr (a, db')))))) of
          (Inl e, db') \<Rightarrow> (Inl e, db')
        | (Inr a, db') \<Rightarrow> (attestation_from_row now a, db')))"

definition days_after :: "instant \<Rightarrow> int \<Rightarrow> instant" where
  "days_after now n = now + n * 86400 * 1000000"

definition approved_row :: "instant \<Rightarrow> string \<Rightarrow> attestation \<Rightarrow> attestation" where
  "approved_row now user_id a = a\<lparr>pi_state := AttestationApproved, pi_revision := pi_revision a + 1, pi_approved_by := Some user_id,
     pi_approved_at := Some now, pi_expires_at := Some (days_after now (pi_ttl_days a)), pi_revoked_by := None, pi_revoked_at := None\<rparr>"

definition revoked_row :: "instant \<Rightarrow> string \<Rightarrow> attestation \<Rightarrow> attestation" where
  "revoked_row now user_id a = a\<lparr>pi_state := AttestationRevoked, pi_revision := pi_revision a + 1, pi_revoked_by := Some user_id,
     pi_revoked_at := Some now\<rparr>"

definition set_attestations :: "(attestation \<Rightarrow> bool) \<Rightarrow> (attestation \<Rightarrow> attestation) \<Rightarrow> team_db \<Rightarrow> team_db" where
  "set_attestations P f db = db\<lparr>db_attestations := map (\<lambda>a. if P a then f a else a) (db_attestations db)\<rparr>"

text \<open>Then the row of the given identifier is read back.\<close>

definition read_back :: "instant \<Rightarrow> string \<Rightarrow> team_db \<Rightarrow> (team_error + attestation \<times> attestation_status) \<times> team_db" where
  "read_back now i db =
     (case find (\<lambda>a. pi_id a = i) (db_attestations db) of None \<Rightarrow> (Inl AttestationNotFound, db) | Some a \<Rightarrow> (attestation_from_row now a, db))"

definition approve_public_identity ::
  "instant \<Rightarrow> team_principal \<Rightarrow> string \<Rightarrow> team_db \<Rightarrow> (team_error + attestation \<times> attestation_status) \<times> team_db" where
  "approve_public_identity now p attestation_id db =
     (if tp_role p \<noteq> Administrator then (Inl AdministratorRequired, db)
      else case opaque_identifier attestation_id of Inl e \<Rightarrow> (Inl e, db)
      | Inr i \<Rightarrow>
          (let P = (\<lambda>a. pi_id a = i \<and> pi_organization_id a = tp_organization_id p) in
           case find P (db_attestations db) of None \<Rightarrow> (Inl AttestationNotFound, db)
           | Some a \<Rightarrow>
               if public_identity_status now a \<noteq> StatusPending then (Inl AttestationNotPending, db)
               else if \<not> has_user db (tp_user_id p) then (Inl IdentityStoreUnavailable, db)
               else if length (filter (\<lambda>a. P a \<and> pi_state a = AttestationPending) (db_attestations db)) \<noteq> 1 then (Inl AttestationNotPending, db)
               else read_back now i (set_attestations (\<lambda>a. P a \<and> pi_state a = AttestationPending) (approved_row now (tp_user_id p)) db)))"

definition revocable :: "instant \<Rightarrow> attestation \<Rightarrow> bool" where
  "revocable now a \<longleftrightarrow> pi_state a \<in> {AttestationPending, AttestationApproved} \<and>
     (pi_state a \<noteq> AttestationApproved \<or> (case pi_expires_at a of None \<Rightarrow> False | Some t \<Rightarrow> t > now))"

definition revoke_public_identity ::
  "instant \<Rightarrow> team_principal \<Rightarrow> string \<Rightarrow> team_db \<Rightarrow> (team_error + attestation \<times> attestation_status) \<times> team_db" where
  "revoke_public_identity now p attestation_id db =
     (if tp_role p \<noteq> Administrator then (Inl AdministratorRequired, db)
      else case opaque_identifier attestation_id of Inl e \<Rightarrow> (Inl e, db)
      | Inr i \<Rightarrow>
          (let P = (\<lambda>a. pi_id a = i \<and> pi_organization_id a = tp_organization_id p \<and> revocable now a) in
           if filter P (db_attestations db) \<noteq> [] \<and> \<not> has_user db (tp_user_id p) then (Inl IdentityStoreUnavailable, db)
           else if length (filter P (db_attestations db)) \<noteq> 1 then (Inl AttestationNotActive, db)
           else read_back now i (set_attestations P (revoked_row now (tp_user_id p)) db)))"

definition list_public_identities :: "instant \<Rightarrow> string \<Rightarrow> team_db \<Rightarrow> team_error + (attestation \<times> attestation_status) list" where
  "list_public_identities now organization_id db =
     map_res (attestation_from_row now) (sort_key (\<lambda>a. (- pi_proposed_at a, pi_id a))
       (filter (\<lambda>a. pi_organization_id a = organization_id) (db_attestations db)))"

text \<open>\<^verbatim>\<open>state = 'approved' AND expires_at > ?\<close>, which an \<^verbatim>\<open>expires_at\<close> that is null does not satisfy.\<close>

definition currently_approved :: "instant \<Rightarrow> attestation \<Rightarrow> bool" where
  "currently_approved now a \<longleftrightarrow> pi_state a = AttestationApproved \<and> (case pi_expires_at a of None \<Rightarrow> False | Some t \<Rightarrow> t > now)"

definition approved_public_identity_keys :: "instant \<Rightarrow> string \<Rightarrow> team_db \<Rightarrow> string list" where
  "approved_public_identity_keys now organization_id db =
     map (\<lambda>a. pi_ecosystem a @ '':'' @ pi_package_name a) (sort_key (\<lambda>a. (pi_ecosystem a, pi_package_name a))
       (filter (\<lambda>a. pi_organization_id a = organization_id \<and> currently_approved now a) (db_attestations db)))"

definition is_public_identity_approved :: "instant \<Rightarrow> string \<Rightarrow> string \<Rightarrow> string \<Rightarrow> team_db \<Rightarrow> bool" where
  "is_public_identity_approved now organization_id ecosystem package_name db =
     (case normalize_public_identity ecosystem package_name of Inl _ \<Rightarrow> False
      | Inr (eco, name) \<Rightarrow>
          (case find (\<lambda>a. attestation_key a = (organization_id, eco, name) \<and> pi_state a = AttestationApproved) (db_attestations db) of
             None \<Rightarrow> False
           | Some a \<Rightarrow> (case pi_expires_at a of None \<Rightarrow> False | Some t \<Rightarrow> t > now)))"

subsection \<open>Opening the store\<close>

definition upsert_organization :: "team_organization \<Rightarrow> team_db \<Rightarrow> team_db" where
  "upsert_organization r db =
     (if has_organization db (to_id r)
      then db\<lparr>db_organizations := map (\<lambda>x. if to_id x = to_id r then x\<lparr>to_name := to_name r\<rparr> else x) (db_organizations db)\<rparr>
      else db\<lparr>db_organizations := db_organizations db @ [r]\<rparr>)"

definition upsert_user :: "team_user \<Rightarrow> team_db \<Rightarrow> team_error + team_db" where
  "upsert_user r db =
     (if list_ex (\<lambda>x. tu_id x \<noteq> tu_id r \<and> tu_username x = tu_username r) (db_users db) then Inl IdentityStoreUnavailable
      else if has_user db (tu_id r)
      then Inr (db\<lparr>db_users := map (\<lambda>x. if tu_id x = tu_id r
          then x\<lparr>tu_username := tu_username r, tu_password_hash := tu_password_hash r, tu_active := True\<rparr> else x) (db_users db)\<rparr>)
      else Inr (db\<lparr>db_users := db_users db @ [r]\<rparr>))"

definition upsert_membership :: "team_membership \<Rightarrow> team_db \<Rightarrow> team_db" where
  "upsert_membership r db =
     (if membership_key r \<in> membership_key ` set (db_memberships db)
      then db\<lparr>db_memberships := map (\<lambda>x. if membership_key x = membership_key r then x\<lparr>tm_role := Administrator, tm_revoked_at := None\<rparr> else x)
        (db_memberships db)\<rparr>
      else db\<lparr>db_memberships := db_memberships db @ [r]\<rparr>)"

definition ensure_bootstrap_identity :: "instant \<Rightarrow> string \<Rightarrow> string \<Rightarrow> team_db \<Rightarrow> team_error + team_db" where
  "ensure_bootstrap_identity now organization_name admin_hash db =
     bind_res (upsert_user \<lparr>tu_id = bootstrap_admin_id, tu_username = bootstrap_admin_username, tu_password_hash = admin_hash, tu_active = True,
         tu_created_at = now\<rparr>
         (upsert_organization \<lparr>to_id = bootstrap_organization_id, to_name = organization_name, to_created_at = now\<rparr> db)) (\<lambda>db1.
       Inr (upsert_membership \<lparr>tm_organization_id = bootstrap_organization_id, tm_user_id = bootstrap_admin_id, tm_role = Administrator,
         tm_created_at = now, tm_revoked_at = None\<rparr> db1))"

definition empty_db :: team_db where
  "empty_db = \<lparr>db_organizations = [], db_users = [], db_memberships = [], db_federated = [], db_invitations = [], db_attestations = []\<rparr>"

definition open_store :: "instant \<Rightarrow> string \<Rightarrow> string \<Rightarrow> team_db \<Rightarrow> (team_error + unit) \<times> team_db" where
  "open_store now organization_name admin_hash db =
     commit db (bind_res (normalize_organization_name organization_name) (\<lambda>name.
       bind_res (ensure_bootstrap_identity now name admin_hash db) (\<lambda>db'. Inr ((), db'))))"


end
