(* ===== verification/Team_Invariants.thy ===== *)
theory Team_Invariants
  imports Team_Identity
begin

section \<open>Invariants of the team identity store\<close>

text \<open>
  What every run of the operations of \<^verbatim>\<open>backend/app/team_identity.py\<close> keeps: the constraints of the schema, an administrator for every
  organization, an active user behind every live membership and well-formed attestations; and what follows for
  revocations, invitations, federated identities and attestations.
\<close>

subsection \<open>The invariant\<close>

definition keys_ok :: "team_db \<Rightarrow> bool" where
  "keys_ok db \<longleftrightarrow> distinct (map to_id (db_organizations db)) \<and> distinct (map tu_id (db_users db)) \<and> distinct (map tu_username (db_users db)) \<and>
     distinct (map membership_key (db_memberships db)) \<and> distinct (map tf_id (db_federated db)) \<and> distinct (map tf_subject_digest (db_federated db)) \<and>
     distinct (map ti_id (db_invitations db)) \<and> distinct (map ti_token_hash (db_invitations db)) \<and>
     distinct (map pi_id (db_attestations db)) \<and> distinct (map attestation_key (db_attestations db))"

definition references_ok :: "team_db \<Rightarrow> bool" where
  "references_ok db \<longleftrightarrow>
     list_all (\<lambda>m. has_organization db (tm_organization_id m) \<and> has_user db (tm_user_id m)) (db_memberships db) \<and>
     list_all (\<lambda>f. has_organization db (tf_organization_id f) \<and> has_user db (tf_user_id f) \<and> has_user db (tf_created_by f)) (db_federated db) \<and>
     list_all (\<lambda>i. has_organization db (ti_organization_id i) \<and> has_user db (ti_created_by i)) (db_invitations db) \<and>
     list_all (\<lambda>a. has_organization db (pi_organization_id a) \<and> has_user db (pi_proposed_by a) \<and>
       pred_option (has_user db) (pi_approved_by a) \<and> pred_option (has_user db) (pi_revoked_by a)) (db_attestations db)"

definition live_administrator :: "string \<Rightarrow> team_membership \<Rightarrow> bool" where
  "live_administrator org m \<longleftrightarrow> tm_organization_id m = org \<and> tm_role m = Administrator \<and> tm_revoked_at m = None"

definition staffed :: "team_db \<Rightarrow> bool" where
  "staffed db \<longleftrightarrow> list_all (\<lambda>org. list_ex (live_administrator (to_id org)) (db_memberships db)) (db_organizations db)"

definition user_active :: "team_db \<Rightarrow> string \<Rightarrow> bool" where
  "user_active db i \<longleftrightarrow> list_ex (\<lambda>u. tu_id u = i \<and> tu_active u) (db_users db)"

definition members_active :: "team_db \<Rightarrow> bool" where
  "members_active db \<longleftrightarrow> list_all (\<lambda>m. tm_revoked_at m = None \<longrightarrow> user_active db (tm_user_id m)) (db_memberships db)"

definition bootstrapped :: "team_db \<Rightarrow> bool" where
  "bootstrapped db \<longleftrightarrow> has_organization db bootstrap_organization_id \<and>
     list_ex (\<lambda>u. tu_id u = bootstrap_admin_id \<and> tu_username u = bootstrap_admin_username) (db_users db)"

definition attestation_ok :: "attestation \<Rightarrow> bool" where
  "attestation_ok a \<longleftrightarrow> pi_ecosystem a \<in> set public_identity_ecosystems \<and> 1 \<le> pi_ttl_days a \<and> pi_ttl_days a \<le> attestation_max_ttl_days \<and>
     1 \<le> pi_revision a \<and>
     (pi_state a = AttestationApproved \<longrightarrow>
       (case (pi_approved_at a, pi_expires_at a, pi_approved_by a) of
          (Some t, Some x, Some u) \<Rightarrow> x = days_after t (pi_ttl_days a) | _ \<Rightarrow> False))"

definition attestations_within :: "team_db \<Rightarrow> bool" where
  "attestations_within db \<longleftrightarrow>
     (\<forall>org. int (length (filter (\<lambda>a. pi_organization_id a = org) (db_attestations db))) \<le> attestation_max_per_organization)"

definition team_ok :: "team_db \<Rightarrow> bool" where
  "team_ok db \<longleftrightarrow> keys_ok db \<and> references_ok db \<and> staffed db \<and> members_active db \<and> bootstrapped db \<and>
     list_all attestation_ok (db_attestations db) \<and> attestations_within db"

lemmas team_parts = keys_ok_def references_ok_def staffed_def members_active_def bootstrapped_def attestations_within_def

subsection \<open>Joins\<close>

lemma member_rows_iff:
  "(u, m) \<in> set (member_rows db) \<longleftrightarrow>
     u \<in> set (db_users db) \<and> m \<in> set (db_memberships db) \<and> tm_user_id m = tu_id u \<and> tu_active u \<and> tm_revoked_at m = None"
  by (auto simp: member_rows_def)

lemma principal_rows_iff:
  "(u, m, org) \<in> set (principal_rows db) \<longleftrightarrow> (u, m) \<in> set (member_rows db) \<and> org \<in> set (db_organizations db) \<and> to_id org = tm_organization_id m"
  by (auto simp: principal_rows_def)

lemma user_active_has: "user_active db i \<Longrightarrow> has_user db i"
  by (auto simp: user_active_def has_user_def list_ex_iff)

lemma first_row_Some: "first_row xs = Some x \<Longrightarrow> x \<in> set xs"
  by (auto simp: first_row_def split: list.splits)

lemma first_row_None: "first_row xs = None \<longleftrightarrow> xs = []"
  by (auto simp: first_row_def split: list.splits)

lemma get_principal_Some:
  assumes "get_principal i org db = Some p"
  shows "\<exists>u m. u \<in> set (db_users db) \<and> tu_id u = i \<and> tu_active u \<and> m \<in> set (db_memberships db) \<and> live_membership org i m \<and>
    tp_user_id p = i \<and> tp_organization_id p = org \<and> tp_role p = tm_role m \<and> tp_username p = tu_username u"
proof -
  obtain u m x where row: "(u, m, x) \<in> set (principal_rows db)" "tu_id u = i" "to_id x = org" "p = principal_from_row (u, m, x)"
    using assms by (auto simp: get_principal_def dest!: first_row_Some)
  then show ?thesis by (intro exI [of _ u] exI [of _ m]) (auto simp: principal_rows_iff member_rows_iff live_membership_def)
qed

lemma get_principal_exists:
  assumes "team_ok db" "user_active db i" "m \<in> set (db_memberships db)" "live_membership org i m"
  shows "get_principal i org db \<noteq> None"
proof -
  obtain u where u: "u \<in> set (db_users db)" "tu_id u = i" "tu_active u" using assms(2) by (auto simp: user_active_def list_ex_iff)
  have "has_organization db org" using assms(1,3,4) by (auto simp: team_ok_def references_ok_def list_all_iff live_membership_def)
  then obtain x where "x \<in> set (db_organizations db)" "to_id x = org" by (auto simp: has_organization_def)
  then have "(u, m, x) \<in> set (principal_rows db)" using u assms(3,4) by (simp add: principal_rows_iff member_rows_iff live_membership_def)
  then show ?thesis using u(2) \<open>to_id x = org\<close> by (auto simp: get_principal_def first_row_None filter_empty_conv)
qed

subsection \<open>Every operation keeps the invariant\<close>

lemma commit_keeps:
  assumes "P db" "\<And>x db'. r = Inr (x, db') \<Longrightarrow> P db'"
  shows "P (snd (commit db r))"
  using assms by (auto simp: commit_def split: sum.splits prod.splits)

lemma lookup_frames [simp]:
  "has_user (db\<lparr>db_federated := fs\<rparr>) = has_user db" "has_organization (db\<lparr>db_federated := fs\<rparr>) = has_organization db"
  "has_user (db\<lparr>db_invitations := is\<rparr>) = has_user db" "has_organization (db\<lparr>db_invitations := is\<rparr>) = has_organization db"
  "has_user (db\<lparr>db_attestations := as\<rparr>) = has_user db" "has_organization (db\<lparr>db_attestations := as\<rparr>) = has_organization db"
  "has_user (db\<lparr>db_memberships := ms\<rparr>) = has_user db" "has_organization (db\<lparr>db_memberships := ms\<rparr>) = has_organization db"
  "has_user (db\<lparr>db_organizations := os\<rparr>) = has_user db" "has_organization (db\<lparr>db_users := us\<rparr>) = has_organization db"
  "user_active (db\<lparr>db_federated := fs\<rparr>) = user_active db" "user_active (db\<lparr>db_invitations := is\<rparr>) = user_active db"
  "user_active (db\<lparr>db_attestations := as\<rparr>) = user_active db" "user_active (db\<lparr>db_memberships := ms\<rparr>) = user_active db"
  "user_active (db\<lparr>db_organizations := os\<rparr>) = user_active db"
  by (simp_all add: fun_eq_iff has_user_def has_organization_def user_active_def)

lemmas commit_ok = commit_keeps [where P = team_ok]

text \<open>Replacing rows of the tables that no other part of the invariant reads.\<close>

lemma keeps_federated:
  assumes "team_ok db" "distinct (map tf_id fs)" "distinct (map tf_subject_digest fs)"
    "\<And>f. f \<in> set fs \<Longrightarrow> has_organization db (tf_organization_id f) \<and> has_user db (tf_user_id f) \<and> has_user db (tf_created_by f)"
  shows "team_ok (db\<lparr>db_federated := fs\<rparr>)"
  using assms by (simp add: team_ok_def team_parts list_all_iff)

lemma keeps_invitations:
  assumes "team_ok db" "distinct (map ti_id is)" "distinct (map ti_token_hash is)"
    "\<And>i. i \<in> set is \<Longrightarrow> has_organization db (ti_organization_id i) \<and> has_user db (ti_created_by i)"
  shows "team_ok (db\<lparr>db_invitations := is\<rparr>)"
  using assms by (simp add: team_ok_def team_parts list_all_iff)

lemma keeps_invitations_map:
  assumes "team_ok db" "\<And>i. ti_id (f i) = ti_id i \<and> ti_token_hash (f i) = ti_token_hash i \<and> ti_organization_id (f i) = ti_organization_id i \<and> ti_created_by (f i) = ti_created_by i"
  shows "team_ok (db\<lparr>db_invitations := map f (db_invitations db)\<rparr>)"
proof (rule keeps_invitations [OF assms(1)])
  have "ti_id \<circ> f = ti_id" "ti_token_hash \<circ> f = ti_token_hash" using assms(2) by (auto simp: fun_eq_iff)
  then show "distinct (map ti_id (map f (db_invitations db)))" "distinct (map ti_token_hash (map f (db_invitations db)))"
    using assms(1) by (simp_all add: team_ok_def keys_ok_def)
qed (use assms in \<open>auto simp: team_ok_def references_ok_def list_all_iff\<close>)

lemma keeps_attestations:
  assumes "team_ok db" "distinct (map pi_id as)" "distinct (map attestation_key as)" "list_all attestation_ok as"
    "\<And>a. a \<in> set as \<Longrightarrow> has_organization db (pi_organization_id a) \<and> has_user db (pi_proposed_by a) \<and>
       pred_option (has_user db) (pi_approved_by a) \<and> pred_option (has_user db) (pi_revoked_by a)"
    "\<And>org. int (length (filter (\<lambda>a. pi_organization_id a = org) as)) \<le> attestation_max_per_organization"
  shows "team_ok (db\<lparr>db_attestations := as\<rparr>)"
  using assms by (simp add: team_ok_def team_parts list_all_iff)

lemma insert_invitation_keeps: "team_ok db \<Longrightarrow> insert_invitation r db = Inr db' \<Longrightarrow> team_ok db'"
  by (auto simp: insert_invitation_def team_ok_def team_parts list_all_iff split: if_splits)

lemma create_invitation_keeps:
  assumes "team_ok db"
  shows "team_ok (snd (create_invitation sha256 ttl i token now p username role db))"
proof -
  have ok: "team_ok (db\<lparr>db_invitations := map (\<lambda>i. if P i then i\<lparr>ti_revoked_at := Some now\<rparr> else i) (db_invitations db)\<rparr>)" for P
    by (rule keeps_invitations_map [OF assms]) simp
  show ?thesis using assms unfolding create_invitation_def
    by (auto simp: Let_def res_simps split: option.splits prod.splits if_splits intro!: commit_ok dest!: insert_invitation_keeps [OF ok])
qed

lemma purge_keeps:
  assumes "team_ok db"
  shows "team_ok (snd (purge_terminal_invitations cutoff org db))"
proof -
  have "team_ok (db\<lparr>db_invitations := filter P (db_invitations db)\<rparr>)" for P
    using assms by (intro keeps_invitations) (auto simp: distinct_map_filter team_ok_def team_parts list_all_iff)
  then show ?thesis using assms unfolding purge_terminal_invitations_def
    by (auto simp: Let_def res_simps intro!: commit_ok)
qed

lemma keeps_federated_map:
  assumes "team_ok db" "\<And>f. tf_id (g f) = tf_id f \<and> tf_subject_digest (g f) = tf_subject_digest f \<and> tf_organization_id (g f) = tf_organization_id f \<and>
      tf_user_id (g f) = tf_user_id f \<and> tf_created_by (g f) = tf_created_by f"
  shows "team_ok (db\<lparr>db_federated := map g (db_federated db)\<rparr>)"
proof (rule keeps_federated [OF assms(1)])
  have "tf_id \<circ> g = tf_id" "tf_subject_digest \<circ> g = tf_subject_digest" using assms(2) by (auto simp: fun_eq_iff)
  then show "distinct (map tf_id (map g (db_federated db)))" "distinct (map tf_subject_digest (map g (db_federated db)))"
    using assms(1) by (simp_all add: team_ok_def keys_ok_def)
qed (use assms in \<open>auto simp: team_ok_def references_ok_def list_all_iff\<close>)

lemma upsert_federated_keeps:
  assumes "team_ok db" "upsert_federated r db = Inr db'"
  shows "team_ok db'"
proof (cases "tf_subject_digest r \<in> tf_subject_digest ` set (db_federated db)")
  case True
  then have "db' = db\<lparr>db_federated := map (\<lambda>f. if tf_subject_digest f = tf_subject_digest r then f\<lparr>tf_revoked_at := None\<rparr> else f) (db_federated db)\<rparr>"
    using assms(2) by (auto simp: upsert_federated_def split: if_splits)
  then show ?thesis using keeps_federated_map [OF assms(1)] by simp
next
  case False
  then show ?thesis using assms by (auto simp: upsert_federated_def team_ok_def team_parts list_all_iff split: if_splits)
qed

lemma provision_keeps:
  assumes "team_ok db"
  shows "team_ok (snd (provision_federated_identity i now p user_id digest db))"
  using assms unfolding provision_federated_identity_def
  by (auto simp: Let_def res_simps intro!: commit_ok)
    (auto simp: Let_def res_simps split: option.splits prod.splits if_splits dest!: upsert_federated_keeps [OF assms])

lemma revoke_federated_keeps:
  assumes "team_ok db"
  shows "team_ok (snd (revoke_federated_identity now p i db))"
  using assms unfolding revoke_federated_identity_def
  by (auto simp: Let_def res_simps intro!: commit_ok) (auto split: option.splits prod.splits if_splits intro!: keeps_federated_map [OF assms])

lemma keeps_attestations_map:
  assumes "team_ok db" "\<And>a. a \<in> set (db_attestations db) \<Longrightarrow> pi_id (g a) = pi_id a \<and> attestation_key (g a) = attestation_key a \<and>
      pi_proposed_by (g a) = pi_proposed_by a \<and> (attestation_ok a \<longrightarrow> attestation_ok (g a)) \<and>
      (pred_option (has_user db) (pi_approved_by a) \<longrightarrow> pred_option (has_user db) (pi_approved_by (g a))) \<and>
      (pred_option (has_user db) (pi_revoked_by a) \<longrightarrow> pred_option (has_user db) (pi_revoked_by (g a)))"
  shows "team_ok (db\<lparr>db_attestations := map g (db_attestations db)\<rparr>)"
proof (rule keeps_attestations [OF assms(1)])
  have same: "map pi_id (map g (db_attestations db)) = map pi_id (db_attestations db)"
    "map attestation_key (map g (db_attestations db)) = map attestation_key (db_attestations db)" using assms(2) by simp_all
  then show "distinct (map pi_id (map g (db_attestations db)))" "distinct (map attestation_key (map g (db_attestations db)))"
    using assms(1) by (simp_all add: team_ok_def keys_ok_def del: map_map)
  show "list_all attestation_ok (map g (db_attestations db))" using assms by (simp add: team_ok_def list_all_iff)
  show "has_organization db (pi_organization_id a) \<and> has_user db (pi_proposed_by a) \<and> pred_option (has_user db) (pi_approved_by a) \<and>
      pred_option (has_user db) (pi_revoked_by a)" if a: "a \<in> set (map g (db_attestations db))" for a
  proof -
    obtain x where x: "x \<in> set (db_attestations db)" "a = g x" using a by auto
    show ?thesis using assms(1) assms(2) [OF x(1)] x by (simp add: team_ok_def references_ok_def list_all_iff attestation_key_def)
  qed
  have "length (filter (\<lambda>a. pi_organization_id a = org) (map g (db_attestations db))) = length (filter (\<lambda>a. pi_organization_id a = org) (db_attestations db))" for org
    using assms(2) by (auto simp: filter_map comp_def attestation_key_def intro!: arg_cong [of _ _ length] filter_cong)
  then show "int (length (filter (\<lambda>a. pi_organization_id a = org) (map g (db_attestations db)))) \<le> attestation_max_per_organization" for org
    using assms(1) by (simp add: team_ok_def attestations_within_def)
qed

lemma read_back_db [simp]: "snd (read_back now i db) = db"
  by (simp add: read_back_def split: option.splits)

lemma approve_keeps:
  assumes "team_ok db"
  shows "team_ok (snd (approve_public_identity now p i db))"
proof -
  have "team_ok (set_attestations P (approved_row now (tp_user_id p)) db)" if "has_user db (tp_user_id p)" for P
    unfolding set_attestations_def
    by (rule keeps_attestations_map [OF assms]) (use that in \<open>auto simp: approved_row_def attestation_key_def attestation_ok_def\<close>)
  then show ?thesis using assms by (auto simp: approve_public_identity_def Let_def split: sum.splits option.splits)
qed

lemma revoke_attestation_keeps:
  assumes "team_ok db"
  shows "team_ok (snd (revoke_public_identity now p i db))"
proof -
  have "team_ok (set_attestations P (revoked_row now (tp_user_id p)) db)" if "has_user db (tp_user_id p)" for P
    unfolding set_attestations_def
    by (rule keeps_attestations_map [OF assms]) (use that in \<open>auto simp: revoked_row_def attestation_key_def attestation_ok_def\<close>)
  moreover have "filter P (db_attestations db) \<noteq> []" if "length (filter P (db_attestations db)) = 1" for P using that by auto
  ultimately show ?thesis using assms by (auto simp: revoke_public_identity_def Let_def split: sum.splits)
qed


lemma distinct_replace:
  assumes "distinct (map k xs)" "distinct (map i xs)" "i r \<notin> i ` set xs"
  shows "distinct (map i (map (\<lambda>x. if k x = k r then r else x) xs))"
  using assms
proof (induction xs)
  case (Cons x xs)
  then have ih: "distinct (map i (map (\<lambda>x. if k x = k r then r else x) xs))" by simp
  show ?case
  proof (cases "k x = k r")
    case True
    then have "k y \<noteq> k r" if "y \<in> set xs" for y using Cons.prems(1) that by (simp add: image_iff) metis
    then have "map (\<lambda>x. if k x = k r then r else x) xs = xs" by (intro map_idI) simp
    then show ?thesis using True Cons.prems by auto
  next
    case False
    have "i x \<noteq> i r" "i x \<notin> i ` set xs" using Cons.prems by auto
    then have "i x \<notin> (\<lambda>x. i (if k x = k r then r else x)) ` set xs" by (auto split: if_splits)
    then show ?thesis using False ih by simp
  qed
qed simp

lemma upsert_attestation_keeps:
  assumes "team_ok db" "upsert_attestation r db = Inr db'" "attestation_ok r" "pi_approved_by r = None" "pi_revoked_by r = None"
    "attestation_key r \<in> attestation_key ` set (db_attestations db) \<or>
     int (length (filter (\<lambda>a. pi_organization_id a = pi_organization_id r) (db_attestations db))) < attestation_max_per_organization"
  shows "team_ok db'"
proof -
  have r: "has_organization db (pi_organization_id r)" "has_user db (pi_proposed_by r)" "pi_id r \<notin> pi_id ` set (db_attestations db)"
    using assms(2) by (auto simp: upsert_attestation_def split: if_splits)
  have ok: "distinct (map pi_id (db_attestations db))" "distinct (map attestation_key (db_attestations db))" "list_all attestation_ok (db_attestations db)"
    "\<And>org. int (length (filter (\<lambda>a. pi_organization_id a = org) (db_attestations db))) \<le> attestation_max_per_organization"
    "\<And>a. a \<in> set (db_attestations db) \<Longrightarrow> has_organization db (pi_organization_id a) \<and> has_user db (pi_proposed_by a) \<and>
       pred_option (has_user db) (pi_approved_by a) \<and> pred_option (has_user db) (pi_revoked_by a)"
    using assms(1) by (simp_all add: team_ok_def team_parts list_all_iff)
  show ?thesis
  proof (cases "attestation_key r \<in> attestation_key ` set (db_attestations db)")
    case True
    let ?g = "\<lambda>a. if attestation_key a = attestation_key r then r else a"
    have db': "db' = db\<lparr>db_attestations := map ?g (db_attestations db)\<rparr>" using assms(2) True r by (simp add: upsert_attestation_def)
    have keys: "map attestation_key (map ?g (db_attestations db)) = map attestation_key (db_attestations db)" by simp
    have orgs: "pi_organization_id (?g a) = pi_organization_id a" for a by (simp add: attestation_key_def)
    then have "length (filter (\<lambda>a. pi_organization_id a = org) (map ?g (db_attestations db))) =
        length (filter (\<lambda>a. pi_organization_id a = org) (db_attestations db))" for org unfolding filter_map comp_def by simp
    then show ?thesis unfolding db'
      using distinct_replace [OF ok(2,1) r(3)] keys ok assms(3-5) r
      by (intro keeps_attestations [OF assms(1)]) (auto simp: list_all_iff simp del: map_map)
  next
    case False
    then have db': "db' = db\<lparr>db_attestations := db_attestations db @ [r]\<rparr>" using assms(2) r by (simp add: upsert_attestation_def)
    show ?thesis unfolding db'
    proof (rule keeps_attestations [OF assms(1)])
      show "int (length (filter (\<lambda>a. pi_organization_id a = org) (db_attestations db @ [r]))) \<le> attestation_max_per_organization" for org
        using ok(4) [of org] assms(6) False by (cases "org = pi_organization_id r") auto
    qed (use ok(1-3,5) False assms(3-5) r in \<open>auto simp: list_all_iff\<close>)
  qed
qed

definition proposal_of :: "team_db \<Rightarrow> string \<Rightarrow> instant \<Rightarrow> team_principal \<Rightarrow> int \<Rightarrow> attestation \<Rightarrow> bool" where
  "proposal_of db i now p ttl a \<longleftrightarrow> pi_id a = i \<and> pi_organization_id a = tp_organization_id p \<and> pi_state a = AttestationPending \<and> pi_ttl_days a = ttl \<and>
     pi_proposed_by a = tp_user_id p \<and> pi_proposed_at a = now \<and> pi_approved_by a = None \<and> pi_approved_at a = None \<and> pi_expires_at a = None \<and>
     pi_revoked_by a = None \<and> pi_ecosystem a \<in> set public_identity_ecosystems \<and> 1 \<le> ttl \<and> ttl \<le> attestation_max_ttl_days \<and>
     (case find (\<lambda>x. attestation_key x = attestation_key a) (db_attestations db) of
        None \<Rightarrow> pi_revision a = 1 \<and> int (length (filter (\<lambda>x. pi_organization_id x = pi_organization_id a) (db_attestations db))) < attestation_max_per_organization
      | Some x \<Rightarrow> pi_revision a = pi_revision x + 1 \<and> public_identity_status now x \<in> {StatusExpired, StatusRevoked})"

lemma propose_result:
  assumes "propose_public_identity i now p eco name ttl db = (r, db')" "db' \<noteq> db"
  shows "\<exists>a. upsert_attestation a db = Inr db' \<and> proposal_of db i now p ttl a"
proof -
  obtain e n where n: "normalize_public_identity eco name = Inr (e, n)" "normalize_public_identity_ttl ttl = Inr ttl" "e \<in> set public_identity_ecosystems"
    using assms
    by (auto simp: propose_public_identity_def commit_def normalize_public_identity_def normalize_public_identity_ttl_def split: if_splits option.splits)
  let ?x = "find (\<lambda>a. attestation_key a = (tp_organization_id p, e, n)) (db_attestations db)"
  have not: "public_identity_status now x \<in> {StatusExpired, StatusRevoked}" if "public_identity_status now x \<notin> {StatusPending, StatusApproved}" for x
    using that by (cases "public_identity_status now x") auto
  have ttl: "1 \<le> ttl" "ttl \<le> attestation_max_ttl_days" using n(2) by (auto simp: normalize_public_identity_ttl_def split: if_splits)
  show ?thesis
  proof (cases ?x)
    case None
    then show ?thesis using assms n ttl
      by (auto simp: propose_public_identity_def commit_def Let_def res_simps proposal_of_def attestation_key_def split: if_splits sum.splits)
  next
    case (Some x)
    then show ?thesis using assms n ttl not [of x]
      by (auto simp: propose_public_identity_def commit_def Let_def res_simps proposal_of_def attestation_key_def split: if_splits sum.splits)
  qed
qed

lemma propose_keeps:
  assumes "team_ok db"
  shows "team_ok (snd (propose_public_identity i now p eco name ttl db))"
proof (cases "snd (propose_public_identity i now p eco name ttl db) = db")
  case False
  obtain r db' where e: "propose_public_identity i now p eco name ttl db = (r, db')" by fastforce
  with False obtain a where a: "upsert_attestation a db = Inr db'" "proposal_of db i now p ttl a" using propose_result [OF e] by auto
  have rev: "1 \<le> pi_revision x" if "find P (db_attestations db) = Some x" for P x
    using assms find_Some_iff_first [OF that] by (auto simp: team_ok_def list_all_iff attestation_ok_def)
  have "1 \<le> pi_revision a"
  proof (cases "find (\<lambda>x. attestation_key x = attestation_key a) (db_attestations db)")
    case None
    then show ?thesis using a(2) by (simp add: proposal_of_def)
  next
    case (Some x)
    then show ?thesis using a(2) rev [OF Some] by (simp add: proposal_of_def)
  qed
  then have "attestation_ok a" using a(2) by (simp add: proposal_of_def attestation_ok_def)
  moreover have "attestation_key a \<in> attestation_key ` set (db_attestations db) \<or>
     int (length (filter (\<lambda>x. pi_organization_id x = pi_organization_id a) (db_attestations db))) < attestation_max_per_organization"
  proof (cases "find (\<lambda>x. attestation_key x = attestation_key a) (db_attestations db)")
    case None
    then show ?thesis using a(2) unfolding proposal_of_def by auto
  next
    case (Some x)
    from find_Some_iff_first [OF this] show ?thesis by (metis image_eqI)
  qed
  ultimately have "team_ok db'" using upsert_attestation_keeps [OF assms a(1)] a(2) by (simp add: proposal_of_def)
  then show ?thesis using e by simp
qed (use assms in simp)

lemma keeps_memberships:
  assumes "team_ok db" "distinct (map membership_key ms)"
    "\<And>m. m \<in> set ms \<Longrightarrow> has_organization db (tm_organization_id m) \<and> has_user db (tm_user_id m) \<and> (tm_revoked_at m = None \<longrightarrow> user_active db (tm_user_id m))"
    "\<And>org. org \<in> set (db_organizations db) \<Longrightarrow> list_ex (live_administrator (to_id org)) ms"
  shows "team_ok (db\<lparr>db_memberships := ms\<rparr>)"
  using assms by (simp add: team_ok_def team_parts list_all_iff)

lemma live_membership_key: "live_membership org i m \<Longrightarrow> membership_key m = (org, i)"
  by (simp add: live_membership_def membership_key_def)

text \<open>Where there are two live administrators, one is left when any one membership is changed.\<close>

lemma other_administrator:
  assumes "distinct (map membership_key ms)" "1 < length (filter (live_administrator org) ms)"
  shows "\<exists>m \<in> set ms. live_administrator org m \<and> membership_key m \<noteq> key"
proof (rule ccontr)
  assume none: "\<not> ?thesis"
  have "distinct (map membership_key (filter (live_administrator org) ms))" using assms(1) by (rule distinct_map_filter)
  moreover have "membership_key m = key" if "m \<in> set (filter (live_administrator org) ms)" for m using none that by auto
  then have "set (map membership_key (filter (live_administrator org) ms)) \<subseteq> {key}" by auto
  ultimately have "length (map membership_key (filter (live_administrator org) ms)) \<le> 1"
    by (metis card_mono card.empty card_insert_disjoint distinct_card empty_iff finite.emptyI finite.insertI One_nat_def)
  then show False using assms(2) by simp
qed

lemma administrator_count_eq: "administrator_count org db = length (filter (live_administrator org) (db_memberships db))"
  by (simp add: administrator_count_def live_administrator_def [abs_def])

lemma set_memberships_keeps:
  assumes "team_ok db" "find (live_membership org i) (db_memberships db) = Some current"
    and f: "\<And>m. membership_key (f m) = membership_key m" "\<And>m. tm_revoked_at m \<noteq> None \<Longrightarrow> tm_revoked_at (f m) \<noteq> None"
    and last: "\<not> (tm_role current = Administrator \<and> \<not> live_administrator org (f current) \<and> administrator_count org db \<le> 1)"
  shows "team_ok (set_memberships (live_membership org i) f db)"
  unfolding set_memberships_def
proof (rule keeps_memberships [OF assms(1)])
  let ?g = "\<lambda>m. if live_membership org i m then f m else m"
  have keys: "distinct (map membership_key (db_memberships db))" using assms(1) by (simp add: team_ok_def keys_ok_def)
  have same: "membership_key (?g m) = membership_key m" for m using f(1) by simp
  then have "map membership_key (map ?g (db_memberships db)) = map membership_key (db_memberships db)" by simp
  then show "distinct (map membership_key (map ?g (db_memberships db)))" using keys by (simp del: map_map)
  show "has_organization db (tm_organization_id m) \<and> has_user db (tm_user_id m) \<and> (tm_revoked_at m = None \<longrightarrow> user_active db (tm_user_id m))"
    if m: "m \<in> set (map ?g (db_memberships db))" for m
  proof -
    obtain x where x: "x \<in> set (db_memberships db)" "m = ?g x" using m by auto
    have "tm_organization_id m = tm_organization_id x" "tm_user_id m = tm_user_id x" using same [of x] x(2) by (simp_all add: membership_key_def)
    moreover have "tm_revoked_at m = None \<Longrightarrow> tm_revoked_at x = None" using x(2) f(2) [of x] by (auto simp: live_membership_def split: if_splits)
    ultimately show ?thesis using assms(1) x(1) by (auto simp: team_ok_def team_parts list_all_iff)
  qed
  have cur: "current \<in> set (db_memberships db)" "live_membership org i current" using find_Some_iff_first [OF assms(2)] by simp_all
  have only: "m = current" if "m \<in> set (db_memberships db)" "live_membership org i m" for m
    using keys cur that live_membership_key by (metis distinct_map inj_onD)
  show "list_ex (live_administrator (to_id x)) (map ?g (db_memberships db))" if x: "x \<in> set (db_organizations db)" for x
  proof -
    obtain m where m: "m \<in> set (db_memberships db)" "live_administrator (to_id x) m"
      using assms(1) x by (auto simp: team_ok_def staffed_def list_all_iff list_ex_iff)
    show ?thesis
    proof (cases "live_membership org i m")
      case False
      then show ?thesis using m by (auto simp: list_ex_iff intro!: bexI [of _ m])
    next
      case True
      then have "m = current" "to_id x = org" using only m by (auto simp: live_membership_def live_administrator_def)
      show ?thesis
      proof (cases "live_administrator org (f current)")
        case True
        then have "live_administrator (to_id x) (?g current)" using cur(2) \<open>to_id x = org\<close> by simp
        then show ?thesis using cur(1) by (intro list_ex_mapI)
      next
        case no: False
        then have "1 < length (filter (live_administrator org) (db_memberships db))"
          using last m(2) \<open>m = current\<close> by (auto simp: live_administrator_def administrator_count_eq)
        then obtain y where y: "y \<in> set (db_memberships db)" "live_administrator org y" "membership_key y \<noteq> (org, i)"
          using other_administrator [OF keys] by blast
        then have "\<not> live_membership org i y" using live_membership_key by blast
        then show ?thesis using y \<open>to_id x = org\<close> by (auto simp: list_ex_iff intro!: bexI [of _ y])
      qed
    qed
  qed
qed


lemma change_role_keeps:
  assumes "team_ok db"
  shows "team_ok (snd (change_member_role p i role db))"
proof -
  have "team_ok (set_memberships (live_membership (tp_organization_id p) i) (\<lambda>m. m\<lparr>tm_role := r\<rparr>) db)"
    if "find (live_membership (tp_organization_id p) i) (db_memberships db) = Some current"
      "\<not> (tm_role current = Administrator \<and> r \<noteq> Administrator \<and> administrator_count (tp_organization_id p) db \<le> 1)" for r current
  proof (rule set_memberships_keeps [OF assms that(1)])
    show "\<not> (tm_role current = Administrator \<and> \<not> live_administrator (tp_organization_id p) (current\<lparr>tm_role := r\<rparr>) \<and>
        administrator_count (tp_organization_id p) db \<le> 1)"
      using that(2) find_Some_iff_first [OF that(1)] by (auto simp: live_administrator_def live_membership_def)
  qed (simp_all add: membership_key_def)
  then show ?thesis using assms unfolding change_member_role_def by (auto simp: Let_def split: sum.splits option.splits)
qed

lemma keeps_users:
  assumes "team_ok db" "map tu_id us = map tu_id (db_users db)" "distinct (map tu_username us)"
    "\<And>m. m \<in> set (db_memberships db) \<Longrightarrow> tm_revoked_at m = None \<Longrightarrow> list_ex (\<lambda>u. tu_id u = tm_user_id m \<and> tu_active u) us"
    "list_ex (\<lambda>u. tu_id u = bootstrap_admin_id \<and> tu_username u = bootstrap_admin_username) us"
  shows "team_ok (db\<lparr>db_users := us\<rparr>)"
proof -
  have "tu_id ` set us = tu_id ` set (db_users db)" using arg_cong [OF assms(2), of set] by simp
  then have "has_user (db\<lparr>db_users := us\<rparr>) = has_user db" by (simp add: fun_eq_iff has_user_def)
  moreover have "distinct (map tu_id us)" using assms(1,2) by (simp add: team_ok_def keys_ok_def)
  ultimately show ?thesis using assms(1,3-5) by (simp add: team_ok_def team_parts list_all_iff user_active_def)
qed

definition deprovisioned :: "string \<Rightarrow> team_user \<Rightarrow> team_user" where
  "deprovisioned i u = (if tu_id u = i then u\<lparr>tu_username := deprovisioned_username i, tu_password_hash := deprovisioned_password_marker, tu_active := False\<rparr> else u)"

lemma deprovisioned_simps [simp]: "tu_id (deprovisioned i u) = tu_id u" "tu_id u \<noteq> i \<Longrightarrow> deprovisioned i u = u"
  by (simp_all add: deprovisioned_def)

lemma deprovision_user_eq:
  "deprovision_user i db = (if list_ex (\<lambda>u. tu_id u \<noteq> i \<and> tu_username u = deprovisioned_username i) (db_users db) then Inl IdentityStoreUnavailable
     else Inr (db\<lparr>db_users := map (deprovisioned i) (db_users db)\<rparr>))"
  by (simp add: deprovision_user_def deprovisioned_def [abs_def])

lemma deprovision_keeps:
  assumes "team_ok db" "deprovision_user i db = Inr db'" "i \<noteq> bootstrap_admin_id"
    "\<not> list_ex (\<lambda>m. tm_user_id m = i \<and> tm_revoked_at m = None) (db_memberships db)"
  shows "team_ok db'"
proof -
  have free: "tu_username u \<noteq> deprovisioned_username i" if "u \<in> set (db_users db)" "tu_id u \<noteq> i" for u
    using assms(2) that by (auto simp: deprovision_user_eq list_ex_iff split: if_splits)
  have db': "db' = db\<lparr>db_users := map (deprovisioned i) (db_users db)\<rparr>" using assms(2) by (simp add: deprovision_user_eq split: if_splits)
  have names: "distinct (map tu_username (map (deprovisioned i) us))" if "distinct (map tu_id us)" "distinct (map tu_username us)" "set us \<subseteq> set (db_users db)" for us
    using that
  proof (induction us)
    case (Cons u us)
    have "tu_username (deprovisioned i u) \<noteq> tu_username (deprovisioned i v)" if "v \<in> set us" for v
    proof -
      have "u \<in> set (db_users db)" "v \<in> set (db_users db)" "tu_id u \<noteq> tu_id v" "tu_username u \<noteq> tu_username v" using Cons.prems that by auto
      then show ?thesis using free [of u] free [of v] by (auto simp: deprovisioned_def)
    qed
    then show ?case using Cons by auto
  qed simp
  show ?thesis unfolding db'
  proof (rule keeps_users [OF assms(1)])
    show "map tu_id (map (deprovisioned i) (db_users db)) = map tu_id (db_users db)" by simp
    show "distinct (map tu_username (map (deprovisioned i) (db_users db)))" using assms(1) by (intro names) (simp_all add: team_ok_def keys_ok_def)
    show "list_ex (\<lambda>u. tu_id u = tm_user_id m \<and> tu_active u) (map (deprovisioned i) (db_users db))"
      if m: "m \<in> set (db_memberships db)" "tm_revoked_at m = None" for m
    proof -
      obtain u where "u \<in> set (db_users db)" "tu_id u = tm_user_id m" "tu_active u"
        using assms(1) m by (auto simp: team_ok_def members_active_def user_active_def list_all_iff list_ex_iff)
      moreover have "tm_user_id m \<noteq> i" using assms(4) m by (auto simp: list_ex_iff)
      ultimately show ?thesis by (auto simp: list_ex_iff intro!: bexI [of _ u])
    qed
    obtain u where "u \<in> set (db_users db)" "tu_id u = bootstrap_admin_id" "tu_username u = bootstrap_admin_username"
      using assms(1) by (auto simp: team_ok_def bootstrapped_def list_ex_iff)
    then show "list_ex (\<lambda>u. tu_id u = bootstrap_admin_id \<and> tu_username u = bootstrap_admin_username) (map (deprovisioned i) (db_users db))"
      using assms(3) by (auto simp: list_ex_iff intro!: bexI [of _ u])
  qed
qed

lemma revoke_member_keeps:
  assumes "team_ok db"
  shows "team_ok (fst (snd (revoke_member now p i callback db ext)))"
proof -
  let ?db = "set_memberships (live_membership (tp_organization_id p) i) (\<lambda>m. m\<lparr>tm_revoked_at := Some now\<rparr>) db"
  have ok: "team_ok ?db" if "find (live_membership (tp_organization_id p) i) (db_memberships db) = Some current"
      "\<not> (tm_role current = Administrator \<and> administrator_count (tp_organization_id p) db \<le> 1)" for current
    by (rule set_memberships_keeps [OF assms that(1)]) (use that(2) in \<open>auto simp: membership_key_def\<close>)
  show ?thesis unfolding revoke_member_def using assms ok deprovision_keeps [of ?db i]
    by (auto simp: Let_def split: option.splits sum.splits prod.splits)
qed


lemma insert_user_keeps: "team_ok db \<Longrightarrow> insert_user r db = Inr db' \<Longrightarrow> team_ok db'"
  by (auto simp: insert_user_def team_ok_def team_parts list_all_iff has_user_def user_active_def list_ex_iff option.pred_set split: if_splits)

lemma insert_membership_keeps:
  assumes "team_ok db" "insert_membership r db = Inr db'" "user_active db (tm_user_id r)"
  shows "team_ok db'"
proof -
  have r: "membership_key r \<notin> membership_key ` set (db_memberships db)" "has_organization db (tm_organization_id r)" "has_user db (tm_user_id r)"
    "db' = db\<lparr>db_memberships := db_memberships db @ [r]\<rparr>"
    using assms(2) by (auto simp: insert_membership_def split: if_splits)
  then show ?thesis using assms(1,3) by (auto simp: team_ok_def team_parts list_all_iff list_ex_iff)
qed

lemma create_organization_keeps:
  assumes "team_ok db" "user_active db (tp_user_id p)"
  shows "team_ok (snd (create_organization i now p name db))"
proof -
  have "team_ok db2" if "insert_organization x db = Inr db1" "insert_membership \<lparr>tm_organization_id = to_id x, tm_user_id = tp_user_id p,
      tm_role = Administrator, tm_created_at = now, tm_revoked_at = None\<rparr> db1 = Inr db2" for x db1 db2
  proof -
    let ?m = "\<lparr>tm_organization_id = to_id x, tm_user_id = tp_user_id p, tm_role = Administrator, tm_created_at = now, tm_revoked_at = None\<rparr>"
    have x: "\<not> has_organization db (to_id x)" "db1 = db\<lparr>db_organizations := db_organizations db @ [x]\<rparr>"
      using that(1) by (auto simp: insert_organization_def split: if_splits)
    have m: "membership_key ?m \<notin> membership_key ` set (db_memberships db)" "has_user db (tp_user_id p)"
      "db2 = db\<lparr>db_organizations := db_organizations db @ [x], db_memberships := db_memberships db @ [?m]\<rparr>"
      using that(2) x(2) by (auto simp: insert_membership_def split: if_splits)
    have org: "has_organization (db\<lparr>db_organizations := db_organizations db @ [x]\<rparr>) y \<longleftrightarrow> y = to_id x \<or> has_organization db y" for y
      by (auto simp: has_organization_def)
    have admin: "live_administrator (to_id x) ?m" by (simp add: live_administrator_def)
    have ok: "keys_ok db" "references_ok db" "staffed db" "members_active db" "bootstrapped db" "list_all attestation_ok (db_attestations db)" "attestations_within db"
      using assms(1) by (simp_all add: team_ok_def)
    have "keys_ok db2" using ok(1) x(1) m(1) by (simp add: m(3) keys_ok_def has_organization_def)
    moreover have "references_ok db2" using ok(2) m(2) by (simp add: m(3) references_ok_def list_all_iff org)
    moreover have "staffed db2" using ok(3) admin by (simp add: m(3) staffed_def list_all_iff)
    moreover have "members_active db2" using ok(4) assms(2) by (simp add: m(3) members_active_def)
    ultimately show ?thesis using ok(5-7) by (simp add: team_ok_def m(3) bootstrapped_def attestations_within_def org)
  qed
  then show ?thesis using assms(1) unfolding create_organization_def
    by (auto simp: Let_def res_simps intro!: commit_ok)
qed

lemma accept_user_result:
  assumes "team_ok db" "accept_user pbkdf2 new_id name password h now db = Inr (i, db1)"
  shows "team_ok db1" "user_active db1 i" "db_memberships db1 = db_memberships db" "db_invitations db1 = db_invitations db"
    "db_organizations db1 = db_organizations db" "db_federated db1 = db_federated db" "db_attestations db1 = db_attestations db"
proof -
  show "team_ok db1" using assms insert_user_keeps [OF assms(1)] by (auto simp: accept_user_def res_simps split: option.splits if_splits)
  show "user_active db1 i" "db_memberships db1 = db_memberships db" "db_invitations db1 = db_invitations db"
    "db_organizations db1 = db_organizations db" "db_federated db1 = db_federated db" "db_attestations db1 = db_attestations db"
    using assms(2)
    by (auto simp: accept_user_def res_simps user_active_def list_ex_iff insert_user_def split: option.splits if_splits dest!: find_Some_iff_first)
qed

text \<open>A successful acceptance of the invitation \<open>i\<close> by the user \<open>user_id\<close>.\<close>

definition accepted ::
  "(string \<Rightarrow> string) \<Rightarrow> (string \<Rightarrow> string \<Rightarrow> int \<Rightarrow> string option) \<Rightarrow> string \<Rightarrow> string \<Rightarrow> instant \<Rightarrow> string \<Rightarrow> string \<Rightarrow> team_db \<Rightarrow> team_invitation
     \<Rightarrow> string \<Rightarrow> team_db \<Rightarrow> bool" where
  "accepted sha256 pbkdf2 salt new_id now token password db i user_id db' \<longleftrightarrow>
     i \<in> set (db_invitations db) \<and> ti_token_hash i = hash_invitation_token sha256 token \<and>
     ti_accepted_at i = None \<and> ti_revoked_at i = None \<and> now < ti_expires_at i \<and>
     (\<exists>h db1 db2. hash_password pbkdf2 salt (Some password) min_hash_iterations = Inr h \<and>
       accept_user pbkdf2 new_id (ti_username i) password h now db = Inr (user_id, db1) \<and>
       insert_membership \<lparr>tm_organization_id = ti_organization_id i, tm_user_id = user_id, tm_role = ti_role i,
         tm_created_at = now, tm_revoked_at = None\<rparr> db1 = Inr db2 \<and>
       db' = db2\<lparr>db_invitations := map (\<lambda>x. if ti_id x = ti_id i then x\<lparr>ti_accepted_at := Some now\<rparr> else x) (db_invitations db2)\<rparr>)"

lemma accept_result:
  assumes "accept_invitation sha256 pbkdf2 salt new_id now token password db = (r, db')"
  shows "(db' = db \<and> isl r) \<or> (\<exists>i user_id. accepted sha256 pbkdf2 salt new_id now token password db i user_id db' \<and>
    r = (case get_principal user_id (ti_organization_id i) db' of None \<Rightarrow> Inl IdentityStoreUnavailable | Some p \<Rightarrow> Inr p))"
proof -
  let ?row = "first_row [i. i \<leftarrow> db_invitations db, org \<leftarrow> db_organizations db,
      to_id org = ti_organization_id i \<and> ti_token_hash i = hash_invitation_token sha256 token]"
  show ?thesis
  proof (cases "\<exists>h i. hash_password pbkdf2 salt (Some password) min_hash_iterations = Inr h \<and> ?row = Some i \<and> ti_accepted_at i = None \<and>
      ti_revoked_at i = None \<and> now < ti_expires_at i \<and> \<not> (token = [] \<or> length token > invitation_token_max_length)")
    case False
    then show ?thesis using assms by (auto simp: accept_invitation_def Let_def commit_def split: if_splits sum.splits option.splits)
  next
    case True
    then obtain h i where i: "hash_password pbkdf2 salt (Some password) min_hash_iterations = Inr h" "?row = Some i" "ti_accepted_at i = None"
      "ti_revoked_at i = None" "now < ti_expires_at i" "\<not> (token = [] \<or> length token > invitation_token_max_length)" by blast
    then have mem: "i \<in> set (db_invitations db)" "ti_token_hash i = hash_invitation_token sha256 token" by (auto dest!: first_row_Some)
    show ?thesis
    proof (cases "accept_user pbkdf2 new_id (ti_username i) password h now db")
      case (Inl e)
      then show ?thesis using assms i by (auto simp: accept_invitation_def commit_def)
    next
      case (Inr x)
      then obtain user_id db1 where u: "accept_user pbkdf2 new_id (ti_username i) password h now db = Inr (user_id, db1)" by (cases x) simp
      show ?thesis
      proof (cases "insert_membership \<lparr>tm_organization_id = ti_organization_id i, tm_user_id = user_id, tm_role = ti_role i,
          tm_created_at = now, tm_revoked_at = None\<rparr> db1")
        case (Inl e)
        then show ?thesis using assms i u by (auto simp: accept_invitation_def commit_def)
      next
        case (Inr db2)
        let ?db = "db2\<lparr>db_invitations := map (\<lambda>x. if ti_id x = ti_id i then x\<lparr>ti_accepted_at := Some now\<rparr> else x) (db_invitations db2)\<rparr>"
        have "(r, db') = ((case get_principal user_id (ti_organization_id i) ?db of None \<Rightarrow> Inl IdentityStoreUnavailable | Some p \<Rightarrow> Inr p), ?db)"
          using assms i u Inr by (simp add: accept_invitation_def commit_def split: option.splits)
        moreover have "accepted sha256 pbkdf2 salt new_id now token password db i user_id ?db"
          unfolding accepted_def using mem i(1,3-5) u Inr by blast
        ultimately show ?thesis by blast
      qed
    qed
  qed
qed

lemma accept_keeps:
  assumes "team_ok db"
  shows "team_ok (snd (accept_invitation sha256 pbkdf2 salt new_id now token password db))"
proof -
  obtain r db' where e: "accept_invitation sha256 pbkdf2 salt new_id now token password db = (r, db')" by fastforce
  consider "db' = db" | i user_id where "accepted sha256 pbkdf2 salt new_id now token password db i user_id db'" using accept_result [OF e] by blast
  then have "team_ok db'"
  proof cases
    case 2
    then obtain h db1 db2 where a: "accept_user pbkdf2 new_id (ti_username i) password h now db = Inr (user_id, db1)"
      "insert_membership \<lparr>tm_organization_id = ti_organization_id i, tm_user_id = user_id, tm_role = ti_role i,
         tm_created_at = now, tm_revoked_at = None\<rparr> db1 = Inr db2"
      "db' = db2\<lparr>db_invitations := map (\<lambda>x. if ti_id x = ti_id i then x\<lparr>ti_accepted_at := Some now\<rparr> else x) (db_invitations db2)\<rparr>"
      unfolding accepted_def by blast
    have "team_ok db2" using insert_membership_keeps [OF accept_user_result(1) [OF assms a(1)] a(2)] accept_user_result(2) [OF assms a(1)] by simp
    then show ?thesis unfolding a(3) by (rule keeps_invitations_map) simp
  qed (use assms in simp)
  then show ?thesis using e by simp
qed

text \<open>Opening an existing store again.\<close>

lemma bootstrap_user:
  assumes "team_ok db"
  shows "\<exists>u \<in> set (db_users db). tu_id u = bootstrap_admin_id \<and> tu_username u = bootstrap_admin_username"
    "\<not> list_ex (\<lambda>x. tu_id x \<noteq> bootstrap_admin_id \<and> tu_username x = bootstrap_admin_username) (db_users db)"
proof -
  show u: "\<exists>u \<in> set (db_users db). tu_id u = bootstrap_admin_id \<and> tu_username u = bootstrap_admin_username"
    using assms by (simp add: team_ok_def bootstrapped_def list_ex_iff)
  then obtain u where u: "u \<in> set (db_users db)" "tu_id u = bootstrap_admin_id" "tu_username u = bootstrap_admin_username" by blast
  have "inj_on tu_username (set (db_users db))" using assms by (simp add: team_ok_def keys_ok_def distinct_map)
  then show "\<not> list_ex (\<lambda>x. tu_id x \<noteq> bootstrap_admin_id \<and> tu_username x = bootstrap_admin_username) (db_users db)"
    using u by (auto simp: list_ex_iff inj_on_def)
qed

lemma upsert_membership_keeps:
  assumes "team_ok db" "has_organization db (tm_organization_id r)" "user_active db (tm_user_id r)" "has_user db (tm_user_id r)" "tm_role r = Administrator" "tm_revoked_at r = None"
  shows "team_ok (upsert_membership r db)"
proof (cases "membership_key r \<in> membership_key ` set (db_memberships db)")
  case True
  let ?g = "\<lambda>x. if membership_key x = membership_key r then x\<lparr>tm_role := Administrator, tm_revoked_at := None\<rparr> else x"
  have same: "membership_key (?g m) = membership_key m" for m by (simp add: membership_key_def)
  have "team_ok (db\<lparr>db_memberships := map ?g (db_memberships db)\<rparr>)"
  proof (rule keeps_memberships [OF assms(1)])
    have "map membership_key (map ?g (db_memberships db)) = map membership_key (db_memberships db)" using same by simp
    then show "distinct (map membership_key (map ?g (db_memberships db)))" using assms(1) by (simp add: team_ok_def keys_ok_def del: map_map)
    show "has_organization db (tm_organization_id m) \<and> has_user db (tm_user_id m) \<and> (tm_revoked_at m = None \<longrightarrow> user_active db (tm_user_id m))"
      if m: "m \<in> set (map ?g (db_memberships db))" for m
      using m assms(1-4) by (auto simp: team_ok_def team_parts list_all_iff membership_key_def)
    show "list_ex (live_administrator (to_id x)) (map ?g (db_memberships db))" if x: "x \<in> set (db_organizations db)" for x
    proof -
      obtain m where m: "m \<in> set (db_memberships db)" "live_administrator (to_id x) m"
        using assms(1) x by (auto simp: team_ok_def staffed_def list_all_iff list_ex_iff)
      then have "live_administrator (to_id x) (?g m)" by (simp add: live_administrator_def)
      then show ?thesis using m(1) by (intro list_ex_mapI)
    qed
  qed
  then show ?thesis using True by (simp add: upsert_membership_def)
next
  case False
  then have "insert_membership r db = Inr (upsert_membership r db)" using assms(2,4) by (simp add: insert_membership_def upsert_membership_def)
  then show ?thesis using insert_membership_keeps [OF assms(1) _ assms(3)] by blast
qed

lemma keeps_organizations:
  assumes "team_ok db" "map to_id os = map to_id (db_organizations db)"
  shows "team_ok (db\<lparr>db_organizations := os\<rparr>)"
proof -
  have ids: "to_id ` set os = to_id ` set (db_organizations db)" using arg_cong [OF assms(2), of set] by simp
  then have "has_organization (db\<lparr>db_organizations := os\<rparr>) = has_organization db" by (simp add: fun_eq_iff has_organization_def)
  moreover have "list_all (\<lambda>org. list_ex (live_administrator (to_id org)) ms) os \<longleftrightarrow>
      list_all (\<lambda>org. list_ex (live_administrator (to_id org)) ms) (db_organizations db)" for ms
    using ids by (auto simp: list_all_iff image_iff set_eq_iff) (metis imageE imageI)+
  moreover have "distinct (map to_id os)" using assms by (simp add: team_ok_def keys_ok_def)
  ultimately show ?thesis using assms(1) by (simp add: team_ok_def team_parts)
qed

lemma open_keeps:
  assumes "team_ok db"
  shows "team_ok (snd (open_store now name h db))" "normalize_organization_name name = Inr n \<Longrightarrow> fst (open_store now name h db) = Inr ()"
proof -
  let ?u = "\<lambda>x. if tu_id x = bootstrap_admin_id then x\<lparr>tu_username := bootstrap_admin_username, tu_password_hash := h, tu_active := True\<rparr> else x"
  let ?db1 = "\<lambda>n. db\<lparr>db_organizations := map (\<lambda>x. if to_id x = bootstrap_organization_id then x\<lparr>to_name := n\<rparr> else x) (db_organizations db)\<rparr>"
  let ?db2 = "\<lambda>n. (?db1 n)\<lparr>db_users := map ?u (db_users db)\<rparr>"
  let ?m = "\<lparr>tm_organization_id = bootstrap_organization_id, tm_user_id = bootstrap_admin_id, tm_role = Administrator, tm_created_at = now, tm_revoked_at = None\<rparr>"
  obtain u where u: "u \<in> set (db_users db)" "tu_id u = bootstrap_admin_id" "tu_username u = bootstrap_admin_username"
    using bootstrap_user(1) [OF assms] by blast
  have ok1: "team_ok (?db1 n)" for n by (rule keeps_organizations [OF assms]) simp
  have "tu_username (?u x) = tu_username x" if "x \<in> set (db_users db)" for x
  proof -
    have "inj_on tu_id (set (db_users db))" using assms by (simp add: team_ok_def keys_ok_def distinct_map)
    then show ?thesis using that u by (auto simp: inj_on_def)
  qed
  then have names: "map tu_username (map ?u (db_users db)) = map tu_username (db_users db)" by simp
  have ok2: "team_ok (?db2 n)" for n
  proof (rule keeps_users [OF ok1])
    show "map tu_id (map ?u (db_users db)) = map tu_id (db_users (?db1 n))" by simp
    show "distinct (map tu_username (map ?u (db_users db)))" unfolding names using assms by (simp add: team_ok_def keys_ok_def)
    show "list_ex (\<lambda>u. tu_id u = bootstrap_admin_id \<and> tu_username u = bootstrap_admin_username) (map ?u (db_users db))"
      using u by (intro list_ex_mapI [of u]) simp_all
    show "list_ex (\<lambda>u. tu_id u = tm_user_id m \<and> tu_active u) (map ?u (db_users db))" if m: "m \<in> set (db_memberships (?db1 n))" "tm_revoked_at m = None" for m
    proof -
      obtain v where "v \<in> set (db_users db)" "tu_id v = tm_user_id m" "tu_active v"
        using assms m by (auto simp: team_ok_def members_active_def user_active_def list_all_iff list_ex_iff)
      then have "tu_id (?u v) = tm_user_id m \<and> tu_active (?u v)" by simp
      then show ?thesis using \<open>v \<in> set (db_users db)\<close> by (intro list_ex_mapI)
    qed
  qed
  have "has_organization db bootstrap_organization_id" using assms by (simp add: team_ok_def bootstrapped_def)
  moreover have hu: "has_user db bootstrap_admin_id" using u by (force simp: has_user_def)
  ultimately have eq: "ensure_bootstrap_identity now n h db = Inr (upsert_membership ?m (?db2 n))" for n
    using bootstrap_user(2) [OF assms] by (simp add: ensure_bootstrap_identity_def upsert_organization_def upsert_user_def cong: if_cong)
  have "has_organization (?db2 n) bootstrap_organization_id" for n using ok2 [of n] by (simp add: team_ok_def bootstrapped_def)
  moreover have active: "user_active (?db2 n) bootstrap_admin_id" for n unfolding user_active_def using u by (auto intro!: list_ex_mapI [of u])
  moreover have "has_user (?db2 n) bootstrap_admin_id" for n using active [of n] by (rule user_active_has)
  ultimately have ok3: "team_ok (upsert_membership ?m (?db2 n))" for n by (intro upsert_membership_keeps ok2) simp_all
  show "team_ok (snd (open_store now name h db))" unfolding open_store_def
    by (rule commit_ok [OF assms]) (auto simp: res_simps eq intro: ok3)
  show "normalize_organization_name name = Inr n \<Longrightarrow> fst (open_store now name h db) = Inr ()"
    by (simp add: open_store_def eq commit_def)
qed

subsection \<open>Runs\<close>

text \<open>
  The operations a deployment runs on the database, in any order. The principal of an operation is one that \<^verbatim>\<open>get_principal\<close>
  returns for the same database, as the request handlers look it up.
\<close>

inductive team_step :: "(string \<Rightarrow> string) \<Rightarrow> (string \<Rightarrow> string \<Rightarrow> int \<Rightarrow> string option) \<Rightarrow> team_db \<Rightarrow> team_db \<Rightarrow> bool" for sha256 pbkdf2 where
  reopen: "team_step sha256 pbkdf2 db (snd (open_store now name h db))"
| organization: "get_principal (tp_user_id p) (tp_organization_id p) db = Some p \<Longrightarrow> team_step sha256 pbkdf2 db (snd (create_organization i now p name db))"
| change_role: "get_principal (tp_user_id p) (tp_organization_id p) db = Some p \<Longrightarrow> team_step sha256 pbkdf2 db (snd (change_member_role p i role db))"
| revoke: "get_principal (tp_user_id p) (tp_organization_id p) db = Some p \<Longrightarrow>
    team_step sha256 pbkdf2 db (fst (snd (revoke_member now p i (callback :: (unit \<Rightarrow> (unit callback_error + unit) \<times> unit) option) db ())))"
| provision: "get_principal (tp_user_id p) (tp_organization_id p) db = Some p \<Longrightarrow> team_step sha256 pbkdf2 db (snd (provision_federated_identity j now p i digest db))"
| unbind: "get_principal (tp_user_id p) (tp_organization_id p) db = Some p \<Longrightarrow> team_step sha256 pbkdf2 db (snd (revoke_federated_identity now p j db))"
| invite: "get_principal (tp_user_id p) (tp_organization_id p) db = Some p \<Longrightarrow>
    team_step sha256 pbkdf2 db (snd (create_invitation sha256 ttl j token now p username role db))"
| accept: "team_step sha256 pbkdf2 db (snd (accept_invitation sha256 pbkdf2 salt new_id now token password db))"
| purge: "team_step sha256 pbkdf2 db (snd (purge_terminal_invitations cutoff org db))"
| propose: "get_principal (tp_user_id p) (tp_organization_id p) db = Some p \<Longrightarrow> team_step sha256 pbkdf2 db (snd (propose_public_identity j now p eco name days db))"
| approve: "get_principal (tp_user_id p) (tp_organization_id p) db = Some p \<Longrightarrow> team_step sha256 pbkdf2 db (snd (approve_public_identity now p j db))"
| revoke_attestation: "get_principal (tp_user_id p) (tp_organization_id p) db = Some p \<Longrightarrow> team_step sha256 pbkdf2 db (snd (revoke_public_identity now p j db))"

inductive_cases team_step_cases: "team_step sha256 pbkdf2 db db'"

definition team_reachable :: "(string \<Rightarrow> string) \<Rightarrow> (string \<Rightarrow> string \<Rightarrow> int \<Rightarrow> string option) \<Rightarrow> team_db \<Rightarrow> bool" where
  "team_reachable sha256 pbkdf2 db \<longleftrightarrow>
     (\<exists>now name h db0. open_store now name h empty_db = (Inr (), db0) \<and> (team_step sha256 pbkdf2)\<^sup>*\<^sup>* db0 db)"

lemma team_step_keeps:
  assumes "team_step sha256 pbkdf2 db db'" "team_ok db"
  shows "team_ok db'"
  using assms(1)
proof cases
  case (organization p)
  then have "user_active db (tp_user_id p)" by (auto simp: user_active_def list_ex_iff dest!: get_principal_Some)
  then show ?thesis using organization create_organization_keeps [OF assms(2)] by simp
qed (use assms(2) in \<open>auto intro: open_keeps change_role_keeps revoke_member_keeps provision_keeps revoke_federated_keeps create_invitation_keeps
    accept_keeps purge_keeps propose_keeps approve_keeps revoke_attestation_keeps\<close>)

lemma first_open_ok:
  assumes "open_store now name h empty_db = (Inr (), db)"
  shows "team_ok db"
proof -
  obtain n where "db = \<lparr>db_organizations = [\<lparr>to_id = bootstrap_organization_id, to_name = n, to_created_at = now\<rparr>],
      db_users = [\<lparr>tu_id = bootstrap_admin_id, tu_username = bootstrap_admin_username, tu_password_hash = h, tu_active = True, tu_created_at = now\<rparr>],
      db_memberships = [\<lparr>tm_organization_id = bootstrap_organization_id, tm_user_id = bootstrap_admin_id, tm_role = Administrator,
        tm_created_at = now, tm_revoked_at = None\<rparr>], db_federated = [], db_invitations = [], db_attestations = []\<rparr>"
    using assms by (auto simp: open_store_def commit_def res_simps ensure_bootstrap_identity_def upsert_organization_def upsert_user_def upsert_membership_def
        empty_db_def has_organization_def has_user_def split: sum.splits)
  then show ?thesis by (simp add: team_ok_def team_parts has_organization_def has_user_def user_active_def live_administrator_def attestation_max_per_organization_def)
qed

interpretation team_runs: invariant_steps "team_step sha256 pbkdf2" team_ok for sha256 pbkdf2
  by unfold_locales (rule team_step_keeps)

lemma reachable_ok: "team_reachable sha256 pbkdf2 db \<Longrightarrow> team_ok db"
  using first_open_ok team_runs.run_inv unfolding team_reachable_def by blast

end
