(* ===== verification/Team_Samples.thy ===== *)
theory Team_Samples
  imports Team_Invariants
begin

section \<open>A sample run of the team identity store\<close>

text \<open>
  The databases of one small deployment, each with the operation that leads to it: an administrator invites \<open>alice\<close>, who joins, is bound to
  a federated subject, joins a second organization, leaves the first and is invited again. They show that the hypotheses of the theorems on
  the store hold in runs of it. Hashing is replaced by simple functions.
\<close>

definition sample_pbkdf2 :: "string \<Rightarrow> string \<Rightarrow> int \<Rightarrow> string option" where
  "sample_pbkdf2 password salt iterations = Some (replicate 64 CHR ''a'')"

definition sample_sha256 :: "string \<Rightarrow> string" where
  "sample_sha256 s = drop 29 s"

definition sample_salt :: string where
  "sample_salt = replicate 32 CHR ''0''"

definition sample_hash :: string where
  "sample_hash = py_join ''$'' [hash_scheme, show_nat 600000, sample_salt, replicate 64 CHR ''a'']"

definition sample_member :: "string \<Rightarrow> string \<Rightarrow> team_role \<Rightarrow> instant \<Rightarrow> team_membership" where
  "sample_member org i role t = \<lparr>tm_organization_id = org, tm_user_id = i, tm_role = role, tm_created_at = t, tm_revoked_at = None\<rparr>"

definition sample_user :: "string \<Rightarrow> string \<Rightarrow> string \<Rightarrow> instant \<Rightarrow> team_user" where
  "sample_user i name h t = \<lparr>tu_id = i, tu_username = name, tu_password_hash = h, tu_active = True, tu_created_at = t\<rparr>"

definition sample_invitation :: "string \<Rightarrow> string \<Rightarrow> string \<Rightarrow> instant \<Rightarrow> team_invitation" where
  "sample_invitation i org name t = \<lparr>ti_id = i, ti_token_hash = i, ti_organization_id = org, ti_username = name, ti_role = Maintainer,
     ti_created_by = bootstrap_admin_id, ti_created_at = t, ti_expires_at = t + seconds 3600, ti_accepted_at = None, ti_revoked_at = None\<rparr>"

definition sample_principal :: "string \<Rightarrow> string \<Rightarrow> team_role \<Rightarrow> team_principal" where
  "sample_principal i name role = \<lparr>tp_user_id = i, tp_username = name, tp_organization_id = bootstrap_organization_id,
     tp_organization_name = ''Example'', tp_role = role\<rparr>"

definition sample_administrator :: "string \<Rightarrow> string \<Rightarrow> team_principal" where
  "sample_administrator org name = \<lparr>tp_user_id = bootstrap_admin_id, tp_username = bootstrap_admin_username, tp_organization_id = org,
     tp_organization_name = name, tp_role = Administrator\<rparr>"

definition sample_open :: team_db where
  "sample_open = empty_db\<lparr>db_organizations := [\<lparr>to_id = bootstrap_organization_id, to_name = ''Example'', to_created_at = 0\<rparr>],
     db_users := [sample_user bootstrap_admin_id bootstrap_admin_username ''h'' 0],
     db_memberships := [sample_member bootstrap_organization_id bootstrap_admin_id Administrator 0]\<rparr>"

definition sample_invited :: team_db where
  "sample_invited = sample_open\<lparr>db_invitations := [sample_invitation ''t1'' bootstrap_organization_id ''alice'' 1]\<rparr>"

definition sample_joined :: team_db where
  "sample_joined = sample_open\<lparr>db_invitations := [(sample_invitation ''t1'' bootstrap_organization_id ''alice'' 1)\<lparr>ti_accepted_at := Some 2\<rparr>],
     db_users := db_users sample_open @ [sample_user ''u1'' ''alice'' sample_hash 2],
     db_memberships := db_memberships sample_open @ [sample_member bootstrap_organization_id ''u1'' Maintainer 2]\<rparr>"

lemmas sample_defs = sample_member_def sample_user_def sample_invitation_def sample_principal_def sample_administrator_def sample_open_def sample_invited_def sample_joined_def
  empty_db_def bootstrap_organization_id_def bootstrap_admin_id_def bootstrap_admin_username_def

lemma sample_name: "normalize_organization_name ''Example'' = Inr ''Example''" by code_simp
lemma sample_open_step: "open_store 0 ''Example'' ''h'' empty_db = (Inr (), sample_open)"
  by (simp add: open_store_def sample_name ensure_bootstrap_identity_def upsert_organization_def upsert_user_def upsert_membership_def
      has_organization_def has_user_def commit_def sample_defs)

lemma sample_alice: "normalize_username ''alice'' = Some ''alice''" by code_simp
lemma sample_hashed: "hash_password sample_pbkdf2 sample_salt (Some ''correct horse'') min_hash_iterations = Inr sample_hash"
  by (simp add: hash_password_def sample_pbkdf2_def sample_hash_def min_hash_iterations_def show_nat.simps max_str_digits_def)
lemma sample_token: "hash_invitation_token sample_sha256 token = token"
  by (simp add: hash_invitation_token_def sample_sha256_def)

lemma sample_invite: "snd (create_invitation sample_sha256 3600 ''t1'' ''t1'' 1 (sample_administrator bootstrap_organization_id ''Example'')
   ''alice'' ''maintainer'' sample_open) = sample_invited"
  by (simp add: create_invitation_def sample_alice sample_token team_role_def member_rows_def insert_invitation_def has_organization_def has_user_def
    invitation_token_max_length_def commit_def sample_defs Let_def)
lemma sample_accept: "accept_invitation sample_sha256 sample_pbkdf2 sample_salt ''u1'' 2 ''t1'' ''correct horse'' sample_invited =
   (Inr (sample_principal ''u1'' ''alice'' Maintainer), sample_joined)"
  by (simp add: accept_invitation_def sample_hashed sample_token invitation_token_max_length_def commit_def accept_user_def insert_user_def
    insert_membership_def membership_key_def has_organization_def has_user_def first_row_def seconds_def get_principal_def principal_rows_def member_rows_def sample_defs)

definition sample_gone :: team_db where
  "sample_gone = sample_joined\<lparr>db_users := db_users sample_open @ [(sample_user ''u1'' ''deprovisioned.u1'' deprovisioned_password_marker 2)\<lparr>tu_active := False\<rparr>],
     db_memberships := db_memberships sample_open @ [(sample_member bootstrap_organization_id ''u1'' Maintainer 2)\<lparr>tm_revoked_at := Some 3\<rparr>]\<rparr>"

lemma sample_revoke: "revoke_member 3 (sample_administrator bootstrap_organization_id ''Example'') ''u1''
    (None :: (unit \<Rightarrow> (unit callback_error + unit) \<times> unit) option) sample_joined () = (Inr None, sample_gone, ())"
  by (simp add: revoke_member_def live_membership_def administrator_count_def set_memberships_def deprovision_user_def deprovisioned_username_def
    sample_gone_def sample_defs)

definition sample_digest :: string where
  "sample_digest = replicate 64 CHR ''d''"

definition sample_bound :: team_db where
  "sample_bound = sample_joined\<lparr>db_federated := [\<lparr>tf_id = ''f1'', tf_subject_digest = sample_digest, tf_organization_id = bootstrap_organization_id,
     tf_user_id = ''u1'', tf_created_by = bootstrap_admin_id, tf_created_at = 4, tf_revoked_at = None\<rparr>]\<rparr>"

lemma sample_digest_ok: "subject_digest sample_digest = Inr sample_digest"
proof -
  have "is_hex_id 64 sample_digest" unfolding sample_digest_def by code_simp
  then show ?thesis by (simp add: subject_digest_def)
qed

lemma sample_provision: "snd (provision_federated_identity ''f1'' 4 (sample_administrator bootstrap_organization_id ''Example'') ''u1''
    sample_digest sample_joined) = sample_bound"
  by (simp add: provision_federated_identity_def sample_digest_ok first_row_def member_rows_def Let_def upsert_federated_def has_organization_def has_user_def
    commit_def sample_bound_def sample_defs)

lemma sample_resolve: "resolve_federated_principal bootstrap_organization_id sample_digest ''maintainer'' sample_bound
    = Inr (Some (sample_principal ''u1'' ''alice'' Maintainer))"
  by (simp add: resolve_federated_principal_def sample_digest_ok first_row_def federated_rows_def sample_bound_def sample_defs)

definition sample_proposal :: attestation where
  "sample_proposal = \<lparr>pi_id = replicate 32 CHR ''b'', pi_organization_id = bootstrap_organization_id, pi_ecosystem = ''npm'', pi_package_name = ''left-pad'',
     pi_state = AttestationPending, pi_revision = 1, pi_ttl_days = 30, pi_proposed_by = bootstrap_admin_id, pi_proposed_at = 5, pi_approved_by = None,
     pi_approved_at = None, pi_expires_at = None, pi_revoked_by = None, pi_revoked_at = None\<rparr>"

lemma sample_package: "normalize_public_identity ''npm'' ''Left-Pad'' = Inr (''npm'', ''left-pad'')" by code_simp

lemma sample_propose: "snd (propose_public_identity (replicate 32 CHR ''b'') 5 (sample_administrator bootstrap_organization_id ''Example'')
    ''npm'' ''Left-Pad'' 30 sample_open) = sample_open\<lparr>db_attestations := [sample_proposal]\<rparr>"
  by (simp add: propose_public_identity_def sample_package normalize_public_identity_ttl_def attestation_max_ttl_days_def attestation_max_per_organization_def
    Let_def upsert_attestation_def has_organization_def has_user_def commit_def sample_proposal_def sample_defs)

lemma sample_opaque: "opaque_identifier (replicate 32 CHR ''b'') = Inr (replicate 32 CHR ''b'')"
proof -
  have "is_hex_id 32 (replicate 32 CHR ''b'')" by code_simp
  then show ?thesis by (simp only: opaque_identifier_def if_True)
qed

lemma sample_approve: "snd (approve_public_identity 6 (sample_administrator bootstrap_organization_id ''Example'')
    (replicate 32 CHR ''b'') (sample_open\<lparr>db_attestations := [sample_proposal]\<rparr>)) =
    sample_open\<lparr>db_attestations := [approved_row 6 bootstrap_admin_id sample_proposal]\<rparr>"
  by (simp only: approve_public_identity_def sample_opaque)
    (simp add: Let_def public_identity_status_def set_attestations_def has_user_def sample_proposal_def sample_defs)


lemma sample_step_reachable: "team_reachable sha256 pbkdf2 db \<Longrightarrow> team_step sha256 pbkdf2 db db' \<Longrightarrow> team_reachable sha256 pbkdf2 db'"
  unfolding team_reachable_def by (blast intro: rtranclp.rtrancl_into_rtrancl)

definition sample_second :: team_db where
  "sample_second = sample_joined\<lparr>db_organizations := db_organizations sample_open @ [\<lparr>to_id = ''o2'', to_name = ''Second'', to_created_at = 3\<rparr>],
     db_memberships := db_memberships sample_joined @ [sample_member ''o2'' bootstrap_admin_id Administrator 3]\<rparr>"

lemma sample_second_name: "normalize_organization_name ''Second'' = Inr ''Second''" by code_simp

lemma sample_second_step: "snd (create_organization ''o2'' 3 (sample_administrator bootstrap_organization_id ''Example'') ''Second'' sample_joined) = sample_second"
  by (simp add: create_organization_def sample_second_name Let_def insert_organization_def insert_membership_def has_organization_def has_user_def
    membership_key_def commit_def sample_second_def sample_defs)

definition sample_twice :: team_db where
  "sample_twice = sample_second\<lparr>db_invitations := db_invitations sample_joined @ [(sample_invitation ''t2'' ''o2'' ''alice'' 4)\<lparr>ti_accepted_at := Some 5\<rparr>],
     db_memberships := db_memberships sample_second @ [sample_member ''o2'' ''u1'' Maintainer 5]\<rparr>"

lemma sample_invite_second: "snd (create_invitation sample_sha256 3600 ''t2'' ''t2'' 4 (sample_administrator ''o2'' ''Second'') ''alice'' ''maintainer'' sample_second) =
    sample_second\<lparr>db_invitations := db_invitations sample_joined @ [sample_invitation ''t2'' ''o2'' ''alice'' 4]\<rparr>"
  by (simp add: create_invitation_def sample_alice sample_token team_role_def member_rows_def insert_invitation_def has_organization_def has_user_def
    invitation_token_max_length_def commit_def Let_def sample_second_def sample_defs)

lemma sample_hex: "is_hex_id 32 sample_salt" "is_hex_id 64 (replicate 64 CHR ''a'')"
  unfolding sample_salt_def by code_simp+

lemma sample_verifies: "verify_admin_password sample_pbkdf2 (Some ''correct horse'') (Some sample_hash)"
  using hashed_password_verifies [OF sample_hashed] sample_hex by (simp add: sample_pbkdf2_def)

lemma sample_accept_second: "snd (accept_invitation sample_sha256 sample_pbkdf2 sample_salt ''u9'' 5 ''t2'' ''correct horse''
    (sample_second\<lparr>db_invitations := db_invitations sample_joined @ [sample_invitation ''t2'' ''o2'' ''alice'' 4]\<rparr>)) = sample_twice"
  by (simp add: accept_invitation_def sample_hashed sample_token invitation_token_max_length_def commit_def accept_user_def sample_verifies Let_def
    insert_membership_def membership_key_def has_organization_def has_user_def first_row_def seconds_def get_principal_def principal_rows_def member_rows_def
    sample_twice_def sample_second_def sample_defs)

definition sample_left :: team_db where
  "sample_left = sample_twice\<lparr>db_memberships := db_memberships sample_open @
     [(sample_member bootstrap_organization_id ''u1'' Maintainer 2)\<lparr>tm_revoked_at := Some 6\<rparr>, sample_member ''o2'' bootstrap_admin_id Administrator 3,
      sample_member ''o2'' ''u1'' Maintainer 5]\<rparr>"

lemma sample_leave: "revoke_member 6 (sample_administrator bootstrap_organization_id ''Example'') ''u1''
    (None :: (unit \<Rightarrow> (unit callback_error + unit) \<times> unit) option) sample_twice () = (Inr None, sample_left, ())"
  by (simp add: revoke_member_def live_membership_def administrator_count_def set_memberships_def
    sample_left_def sample_twice_def sample_second_def sample_defs)

definition sample_again :: team_db where
  "sample_again = sample_left\<lparr>db_invitations := db_invitations sample_twice @ [sample_invitation ''t3'' bootstrap_organization_id ''alice'' 7]\<rparr>"

lemma sample_invite_again: "snd (create_invitation sample_sha256 3600 ''t3'' ''t3'' 7 (sample_administrator bootstrap_organization_id ''Example'')
    ''alice'' ''maintainer'' sample_left) = sample_again"
  by (simp add: create_invitation_def sample_alice sample_token team_role_def member_rows_def insert_invitation_def has_organization_def has_user_def
    invitation_token_max_length_def commit_def Let_def sample_again_def sample_left_def sample_twice_def sample_second_def sample_defs)

lemma sample_admin_second: "get_principal (tp_user_id (sample_administrator ''o2'' ''Second'')) (tp_organization_id (sample_administrator ''o2'' ''Second'')) sample_second = Some (sample_administrator ''o2'' ''Second'')"
  by (simp add: get_principal_def principal_rows_def member_rows_def first_row_def sample_second_def sample_defs)

lemma sample_admin:
  "db \<in> {sample_open, sample_invited, sample_joined, sample_twice, sample_left, sample_open\<lparr>db_attestations := [sample_proposal]\<rparr>} \<Longrightarrow>
    get_principal (tp_user_id (sample_administrator bootstrap_organization_id ''Example'')) (tp_organization_id (sample_administrator bootstrap_organization_id ''Example'')) db
      = Some (sample_administrator bootstrap_organization_id ''Example'')"
  by (auto simp: get_principal_def principal_rows_def member_rows_def first_row_def sample_left_def sample_twice_def sample_second_def sample_defs)

definition sample_squatted :: team_db where
  "sample_squatted = sample_joined\<lparr>db_invitations := db_invitations sample_joined @
      [(sample_invitation ''t4'' bootstrap_organization_id ''deprovisioned.u1'' 3)\<lparr>ti_accepted_at := Some 4\<rparr>],
     db_users := db_users sample_joined @ [sample_user ''u2'' ''deprovisioned.u1'' sample_hash 4],
     db_memberships := db_memberships sample_joined @ [sample_member bootstrap_organization_id ''u2'' Maintainer 4]\<rparr>"

lemma sample_squatter: "normalize_username ''deprovisioned.u1'' = Some ''deprovisioned.u1''" by code_simp

lemma sample_invite_squatter: "snd (create_invitation sample_sha256 3600 ''t4'' ''t4'' 3 (sample_administrator bootstrap_organization_id ''Example'')
    ''deprovisioned.u1'' ''maintainer'' sample_joined) =
    sample_joined\<lparr>db_invitations := db_invitations sample_joined @ [sample_invitation ''t4'' bootstrap_organization_id ''deprovisioned.u1'' 3]\<rparr>"
  by (simp add: create_invitation_def sample_squatter sample_token team_role_def member_rows_def insert_invitation_def has_organization_def has_user_def
    invitation_token_max_length_def commit_def Let_def sample_defs)

lemma sample_accept_squatter: "snd (accept_invitation sample_sha256 sample_pbkdf2 sample_salt ''u2'' 4 ''t4'' ''correct horse''
    (sample_joined\<lparr>db_invitations := db_invitations sample_joined @ [sample_invitation ''t4'' bootstrap_organization_id ''deprovisioned.u1'' 3]\<rparr>)) = sample_squatted"
  by (simp add: accept_invitation_def sample_hashed sample_token invitation_token_max_length_def commit_def accept_user_def insert_user_def Let_def
    insert_membership_def membership_key_def has_organization_def has_user_def first_row_def seconds_def get_principal_def principal_rows_def member_rows_def
    sample_squatted_def sample_defs)

subsection \<open>The databases are reachable\<close>

abbreviation sample_reachable :: "team_db \<Rightarrow> bool" where
  "sample_reachable \<equiv> team_reachable sample_sha256 sample_pbkdf2"

lemma sample_open_reachable: "sample_reachable sample_open"
  unfolding team_reachable_def using sample_open_step by blast

lemma sample_invited_reachable: "sample_reachable sample_invited"
  using sample_step_reachable [OF sample_open_reachable invite [OF sample_admin]] sample_invite by (metis insertI1)

lemma sample_joined_reachable: "sample_reachable sample_joined"
  using sample_step_reachable [OF sample_invited_reachable accept] sample_accept by (metis snd_conv)

lemma sample_bound_reachable: "sample_reachable sample_bound"
  using sample_step_reachable [OF sample_joined_reachable provision [OF sample_admin]] sample_provision by (metis insertCI)

lemma sample_approved_reachable: "sample_reachable (sample_open\<lparr>db_attestations := [approved_row 6 bootstrap_admin_id sample_proposal]\<rparr>)"
proof -
  have "sample_reachable (sample_open\<lparr>db_attestations := [sample_proposal]\<rparr>)"
    using sample_step_reachable [OF sample_open_reachable propose [OF sample_admin]] sample_propose by (metis insertCI)
  then show ?thesis using sample_step_reachable [OF _ approve [OF sample_admin]] sample_approve by (metis insertCI)
qed

lemma sample_again_reachable: "sample_reachable sample_again"
proof -
  have "sample_reachable sample_second"
    using sample_step_reachable [OF sample_joined_reachable organization [OF sample_admin]] sample_second_step by (metis insertCI)
  then have "sample_reachable (sample_second\<lparr>db_invitations := db_invitations sample_joined @ [sample_invitation ''t2'' ''o2'' ''alice'' 4]\<rparr>)"
    using sample_step_reachable [OF _ invite [OF sample_admin_second]] sample_invite_second by metis
  then have "sample_reachable sample_twice" using sample_step_reachable [OF _ accept] sample_accept_second by metis
  then have "sample_reachable sample_left"
    using sample_step_reachable [OF _ revoke [OF sample_admin]] sample_leave by (metis fst_conv insertCI snd_conv)
  then show ?thesis using sample_step_reachable [OF _ invite [OF sample_admin]] sample_invite_again by (metis insertCI)
qed

lemma sample_squatted_reachable: "sample_reachable sample_squatted"
proof -
  have "sample_reachable (sample_joined\<lparr>db_invitations := db_invitations sample_joined @ [sample_invitation ''t4'' bootstrap_organization_id ''deprovisioned.u1'' 3]\<rparr>)"
    using sample_step_reachable [OF sample_joined_reachable invite [OF sample_admin]] sample_invite_squatter by (metis insertCI)
  then show ?thesis using sample_step_reachable [OF _ accept] sample_accept_squatter by metis
qed

end
