(* ===== verification/Team_Security.thy ===== *)
theory Team_Security
  imports Team_Samples
begin

section \<open>Security of the team identity store\<close>

text \<open>
  What stays true over every later run of \<^verbatim>\<open>backend/app/team_identity.py\<close>: a revoked membership, a used invitation and the owner of a
  federated subject; what authentication and attestations mean; and two runs in which the store refuses what it should do.
\<close>

subsection \<open>Administrators\<close>

text \<open>
  C6. However the operations are interleaved, every organization of the store always has an active administrator among the members
  that \<^verbatim>\<open>list_members\<close> returns, so no workspace can lock itself out; and reopening the store with a valid organization name always succeeds.
\<close>

theorem organization_keeps_administrator:
  assumes "team_reachable sha256 pbkdf2 db"
  shows "list_all (\<lambda>org. list_ex (\<lambda>m. me_role m = Administrator) (list_members (to_id org) db)) (db_organizations db) \<and>
    (normalize_organization_name name = Inr n \<longrightarrow> fst (open_store now name h db) = Inr ())"
proof -
  have ok: "team_ok db" using reachable_ok [OF assms] .
  have "list_ex (\<lambda>m. me_role m = Administrator) (list_members (to_id org) db)" if "org \<in> set (db_organizations db)" for org
  proof -
    have "list_ex (live_administrator (to_id org)) (db_memberships db)" using ok that by (simp add: team_ok_def staffed_def list_all_iff)
    then obtain m where m: "m \<in> set (db_memberships db)" "live_administrator (to_id org) m" by (auto simp: list_ex_iff)
    then have "user_active db (tm_user_id m)" using ok by (auto simp: team_ok_def members_active_def list_all_iff live_administrator_def)
    then obtain u where "u \<in> set (db_users db)" "tu_id u = tm_user_id m" "tu_active u" by (auto simp: user_active_def list_ex_iff)
    then have "(u, m) \<in> set (member_rows db)" using m by (simp add: member_rows_iff live_administrator_def)
    then show ?thesis using m(2) unfolding list_members_def
      by (intro list_ex_mapI [of "(u, m)"]) (simp_all add: live_administrator_def)
  qed
  then show ?thesis using open_keeps(2) [OF ok] by (simp add: list_all_iff)
qed

lemma organization_keeps_administrator_witness:
  "list_ex (\<lambda>m. me_role m = Administrator) (list_members ''o2'' sample_again) \<and> fst (open_store 8 ''Example'' ''h'' sample_again) = Inr ()"
  using organization_keeps_administrator [OF sample_again_reachable] sample_name
  by (simp add: sample_again_def sample_left_def sample_twice_def sample_second_def)

subsection \<open>What an operation leaves alone\<close>

definition same_people :: "team_db \<Rightarrow> team_db \<Rightarrow> bool" where
  "same_people db db' \<longleftrightarrow> db_users db' = db_users db \<and> db_memberships db' = db_memberships db \<and> db_organizations db' = db_organizations db"

lemmas commit_people = commit_keeps [where P = "same_people db" and db = db for db]

lemma same_people_refl [simp]: "same_people db db"
  by (simp add: same_people_def)

lemma invite_people: "same_people db (snd (create_invitation sha256 ttl j token now p username role db))"
  unfolding create_invitation_def
  by (auto simp: Let_def res_simps split: option.splits intro!: commit_people) (auto simp: insert_invitation_def same_people_def split: if_splits)

lemma purge_people: "same_people db (snd (purge_terminal_invitations cutoff org db))"
  unfolding purge_terminal_invitations_def by (auto simp: Let_def res_simps intro!: commit_people) (simp add: same_people_def)

lemma upsert_federated_people: "upsert_federated r db = Inr db' \<Longrightarrow> same_people db db'"
  by (auto simp: upsert_federated_def same_people_def split: if_splits)

lemma provision_people: "same_people db (snd (provision_federated_identity j now p i digest db))"
  unfolding provision_federated_identity_def
  by (auto simp: Let_def res_simps intro!: commit_people)
    (auto simp: Let_def res_simps split: option.splits prod.splits if_splits dest!: upsert_federated_people)

lemma unbind_people: "same_people db (snd (revoke_federated_identity now p j db))"
  unfolding revoke_federated_identity_def
  by (auto simp: Let_def res_simps intro!: commit_people) (auto simp: same_people_def split: option.splits prod.splits if_splits)

lemma propose_people: "same_people db (snd (propose_public_identity j now p eco name days db))"
proof -
  obtain r db' where e: "propose_public_identity j now p eco name days db = (r, db')" by fastforce
  have "same_people db db'" if "upsert_attestation a db = Inr db'" for a
    using that by (auto simp: upsert_attestation_def same_people_def split: if_splits)
  then show ?thesis using propose_result [OF e] e by (cases "db' = db") auto
qed

lemma approve_people: "same_people db (snd (approve_public_identity now p j db))"
  by (simp add: approve_public_identity_def Let_def same_people_def set_attestations_def split: sum.splits option.splits)

lemma revoke_attestation_people: "same_people db (snd (revoke_public_identity now p j db))"
  by (simp add: revoke_public_identity_def Let_def same_people_def set_attestations_def split: sum.splits)

lemmas people_frames = invite_people purge_people provision_people unbind_people propose_people approve_people revoke_attestation_people

subsection \<open>Revocation\<close>

definition membership_revoked :: "string \<Rightarrow> string \<Rightarrow> team_db \<Rightarrow> bool" where
  "membership_revoked org i db \<longleftrightarrow> list_ex (\<lambda>m. membership_key m = (org, i) \<and> tm_revoked_at m \<noteq> None) (db_memberships db)"

lemma revoked_no_principal:
  assumes "team_ok db" "membership_revoked org i db"
  shows "get_principal i org db = None"
proof (rule ccontr)
  assume "get_principal i org db \<noteq> None"
  then obtain m where m: "m \<in> set (db_memberships db)" "live_membership org i m" using get_principal_Some by blast
  obtain x where x: "x \<in> set (db_memberships db)" "membership_key x = (org, i)" "tm_revoked_at x \<noteq> None"
    using assms(2) by (auto simp: membership_revoked_def list_ex_iff)
  have "inj_on membership_key (set (db_memberships db))" using assms(1) by (simp add: team_ok_def keys_ok_def distinct_map)
  then have "m = x" using m x live_membership_key [OF m(2)] by (metis inj_onD)
  then show False using m(2) x(3) by (simp add: live_membership_def)
qed

lemma revoked_set_memberships: "membership_revoked org i db \<Longrightarrow> membership_revoked org i (set_memberships (live_membership o2 j) f db)"
  by (auto simp: membership_revoked_def set_memberships_def list_ex_iff live_membership_def)

lemma revoked_people: "same_people db db' \<Longrightarrow> membership_revoked org i db \<Longrightarrow> membership_revoked org i db'"
  by (simp add: same_people_def membership_revoked_def)

lemma revoked_append: "membership_revoked org i db \<Longrightarrow> db_memberships db' = db_memberships db @ ms \<Longrightarrow> membership_revoked org i db'"
  by (auto simp: membership_revoked_def)

lemma accepted_memberships:
  assumes "team_ok db" "accepted sha256 pbkdf2 salt new_id now token password db i user_id db'"
  shows "db_memberships db' = db_memberships db @ [\<lparr>tm_organization_id = ti_organization_id i, tm_user_id = user_id, tm_role = ti_role i,
      tm_created_at = now, tm_revoked_at = None\<rparr>]"
  using assms accept_user_result(3) [OF assms(1)] by (auto simp: accepted_def insert_membership_def split: if_splits)

lemma create_organization_memberships:
  "\<exists>ms. db_memberships (snd (create_organization i now p name db)) = db_memberships db @ ms"
  unfolding create_organization_def
  by (auto simp: Let_def res_simps insert_organization_def insert_membership_def intro!: commit_keeps [where P = "\<lambda>x. \<exists>ms. db_memberships x = db_memberships db @ ms"]
      split: if_splits)

lemma open_memberships:
  assumes "team_ok db" "membership_revoked org i db" "(org, i) \<noteq> (bootstrap_organization_id, bootstrap_admin_id)"
  shows "membership_revoked org i (snd (open_store now name h db))"
proof -
  have people: "db_memberships x = db_memberships db" if "upsert_user u (upsert_organization r db) = Inr x" for u r x
    using that by (auto simp: upsert_user_def upsert_organization_def split: if_splits)
  have upsert: "membership_revoked org i (upsert_membership m x)" if "membership_revoked org i x" "membership_key m \<noteq> (org, i)" for m x
    using that by (auto simp: membership_revoked_def upsert_membership_def list_ex_iff)
  have "membership_revoked org i x" if e: "ensure_bootstrap_identity now n h db = Inr x" for n x
  proof -
    obtain u r m db1 where 1: "upsert_user u (upsert_organization r db) = Inr db1" "x = upsert_membership m db1"
      "membership_key m = (bootstrap_organization_id, bootstrap_admin_id)"
      using e unfolding ensure_bootstrap_identity_def bind_res_Inr_iff by (fastforce simp: membership_key_def)
    have "membership_revoked org i db1" using assms(2) people [OF 1(1)] by (simp add: membership_revoked_def)
    then show ?thesis using upsert 1(2,3) assms(3) by metis
  qed
  then show ?thesis unfolding open_store_def using assms(2)
    by (intro commit_keeps [where P = "membership_revoked org i"]) (auto simp: res_simps)
qed

lemma revoke_member_memberships:
  "db_memberships (fst (snd (revoke_member now p j callback db ext))) \<in>
     {db_memberships db, db_memberships (set_memberships (live_membership (tp_organization_id p) j) (\<lambda>m. m\<lparr>tm_revoked_at := Some now\<rparr>) db)}"
  unfolding revoke_member_def
  by (auto simp: Let_def deprovision_user_eq split: option.splits sum.splits prod.splits if_splits)

lemma revoked_stable:
  assumes "team_ok db" "team_step sha256 pbkdf2 db db'" "(org, i) \<noteq> (bootstrap_organization_id, bootstrap_admin_id)" "membership_revoked org i db"
  shows "membership_revoked org i db'"
  using assms(2)
proof cases
  case (reopen now name h)
  then show ?thesis using open_memberships [OF assms(1,4,3)] by simp
next
  case (organization p)
  then show ?thesis using create_organization_memberships revoked_append [OF assms(4)] by metis
next
  case (change_role p j role)
  have "membership_revoked org i (snd (change_member_role p j role db))" unfolding change_member_role_def
    using assms(4) revoked_set_memberships [OF assms(4)] by (auto simp: Let_def split: sum.splits option.splits)
  then show ?thesis using change_role by simp
next
  case (revoke p now j callback)
  have "membership_revoked org i (fst (snd (revoke_member now p j callback db ())))"
    using revoke_member_memberships [of now p j callback db "()"] assms(4) revoked_set_memberships [OF assms(4)] by (auto simp: membership_revoked_def)
  then show ?thesis using revoke by simp
next
  case (accept salt new_id now token password)
  obtain r x where e: "accept_invitation sha256 pbkdf2 salt new_id now token password db = (r, x)" by fastforce
  then have "membership_revoked org i x" using accept_result [OF e] assms(4) accepted_memberships [OF assms(1)] revoked_append [OF assms(4)] by metis
  then show ?thesis using accept e by simp
qed (simp_all only: people_frames [THEN revoked_people] assms(4))



lemma run_keeps_revoked:
  assumes "(team_step sha256 pbkdf2)\<^sup>*\<^sup>* db db'" "team_ok db" "membership_revoked org i db"
    "(org, i) \<noteq> (bootstrap_organization_id, bootstrap_admin_id)"
  shows "team_ok db' \<and> membership_revoked org i db'"
  using team_runs.run_stable [where P = "membership_revoked org i", OF _ assms(1-3)] revoked_stable [OF _ _ assms(4)]
    team_runs.run_inv [OF assms(1,2)] by blast

text \<open>The keys are unique, so the queries return the only row there is.\<close>

lemma principal_row_unique:
  assumes "team_ok db" "(u, m, org) \<in> set (principal_rows db)" "(u', m', org') \<in> set (principal_rows db)" "tu_id u' = tu_id u" "to_id org' = to_id org"
  shows "(u', m', org') = (u, m, org)"
proof -
  have "inj_on tu_id (set (db_users db))" "inj_on to_id (set (db_organizations db))" "inj_on membership_key (set (db_memberships db))"
    using assms(1) by (simp_all add: team_ok_def keys_ok_def distinct_map)
  moreover have "membership_key m' = membership_key m" using assms(2-5) by (simp add: principal_rows_iff member_rows_iff membership_key_def)
  moreover have "u \<in> set (db_users db)" "u' \<in> set (db_users db)" "m \<in> set (db_memberships db)" "m' \<in> set (db_memberships db)"
    "org \<in> set (db_organizations db)" "org' \<in> set (db_organizations db)"
    using assms(2,3) by (simp_all add: principal_rows_iff member_rows_iff)
  ultimately have "u' = u" "m' = m" "org' = org" using assms(4,5) by (simp_all add: inj_on_eq_iff)
  then show ?thesis by simp
qed

lemma get_principal_row:
  assumes "team_ok db" "(u, m, org) \<in> set (principal_rows db)"
  shows "get_principal (tu_id u) (to_id org) db = Some (principal_from_row (u, m, org))"
proof -
  let ?rows = "filter (\<lambda>(v, k, x). tu_id v = tu_id u \<and> to_id x = to_id org) (principal_rows db)"
  have "?rows \<noteq> []" using assms(2) by (auto simp: filter_empty_conv)
  then obtain r where r: "first_row ?rows = Some r" using first_row_None by fastforce
  then have "r = (u, m, org)" using principal_row_unique [OF assms] by (cases r) (auto dest!: first_row_Some)
  then show ?thesis using r by (simp add: get_principal_def)
qed

lemma authenticate_principal:
  assumes "team_ok db" "authenticate pbkdf2 username password db = Some q"
  shows "get_principal (tp_user_id q) (tp_organization_id q) db = Some q"
proof -
  obtain u m org where "(u, m, org) \<in> set (principal_rows db)" "q = principal_from_row (u, m, org)"
    using assms(2) by (auto simp: authenticate_def split: option.splits if_splits dest!: first_row_Some)
  then show ?thesis using get_principal_row [OF assms(1)] by simp
qed

lemma resolve_row:
  assumes "resolve_federated_principal org digest role db = Inr (Some q)"
  shows "\<exists>f u m x. f \<in> set (db_federated db) \<and> tf_subject_digest f = digest \<and> tf_organization_id f = org \<and> tf_revoked_at f = None \<and>
    tf_user_id f = tu_id u \<and> (u, m, x) \<in> set (principal_rows db) \<and> to_id x = org \<and> q = principal_from_row (u, m, x) \<and>
    tm_role m \<noteq> Administrator \<and> role_name (tm_role m) = role"
proof -
  let ?rows = "[(u, m, x). (f, u, m) \<leftarrow> federated_rows db, x \<leftarrow> db_organizations db,
    to_id x = tf_organization_id f \<and> tf_subject_digest f = digest \<and> tf_organization_id f = org \<and>
    tf_revoked_at f = None \<and> tu_active u \<and> tm_revoked_at m = None]"
  obtain u m x where r: "first_row ?rows = Some (u, m, x)" "q = principal_from_row (u, m, x)" "tm_role m \<noteq> Administrator" "role_name (tm_role m) = role"
    using assms unfolding resolve_federated_principal_def
    by (cases "first_row ?rows"; cases "is_hex_id 64 digest") (auto simp: subject_digest_def split: if_splits)
  then obtain f where "(f, u, m) \<in> set (federated_rows db)" "x \<in> set (db_organizations db)" "to_id x = tf_organization_id f" "tf_subject_digest f = digest"
    "tf_organization_id f = org" "tf_revoked_at f = None" "tu_active u" "tm_revoked_at m = None"
    using first_row_Some [OF r(1)] by auto
  then have "f \<in> set (db_federated db)" "tf_user_id f = tu_id u" "(u, m, x) \<in> set (principal_rows db)"
    by (auto simp: federated_rows_def principal_rows_iff member_rows_iff)
  then show ?thesis using r(2-4) \<open>tf_subject_digest f = digest\<close> \<open>tf_organization_id f = org\<close> \<open>tf_revoked_at f = None\<close> \<open>to_id x = tf_organization_id f\<close>
    by metis
qed

lemma resolve_principal:
  assumes "team_ok db" "resolve_federated_principal org digest role db = Inr (Some q)"
  shows "get_principal (tp_user_id q) (tp_organization_id q) db = Some q"
  using resolve_row [OF assms(2)] get_principal_row [OF assms(1)] by fastforce

lemma revoke_member_result:
  assumes "revoke_member now p i callback db ext = (Inr v, db', ext')"
  shows "i \<noteq> bootstrap_admin_id" "membership_revoked (tp_organization_id p) i db'"
proof -
  show "i \<noteq> bootstrap_admin_id" using assms by (auto simp: revoke_member_def split: if_splits)
  let ?live = "live_membership (tp_organization_id p) i"
  obtain m where m: "find ?live (db_memberships db) = Some m"
    using assms by (auto simp: revoke_member_def split: if_splits option.splits)
  have e: "db_memberships db' = db_memberships (set_memberships ?live (\<lambda>m. m\<lparr>tm_revoked_at := Some now\<rparr>) db)"
    using assms unfolding revoke_member_def
    by (auto simp: Let_def deprovision_user_eq split: option.splits sum.splits prod.splits if_splits)
  have "m \<in> set (db_memberships db)" "?live m" using find_Some_iff_first [OF m] by simp_all
  then show "membership_revoked (tp_organization_id p) i db'"
    unfolding membership_revoked_def e set_memberships_def
    by (auto simp: live_membership_def membership_key_def intro!: list_ex_mapI [of m])
qed

text \<open>
  C7. Once a member is revoked, no later run of the store lets the member act in that organization again: neither the session
  lookup nor the password login nor the federated login ever returns a principal of that user in that organization.
\<close>

theorem revocation_permanent:
  assumes "team_reachable sha256 pbkdf2 db" "revoke_member now p i callback db ext = (Inr v, db1, ext')" "(team_step sha256 pbkdf2)\<^sup>*\<^sup>* db1 db2"
  shows "get_principal i (tp_organization_id p) db2 = None \<and>
    (\<forall>username password q. authenticate pbkdf2 username password db2 = Some q \<longrightarrow> (tp_user_id q, tp_organization_id q) \<noteq> (i, tp_organization_id p)) \<and>
    (\<forall>org digest role q. resolve_federated_principal org digest role db2 = Inr (Some q) \<longrightarrow>
       (tp_user_id q, tp_organization_id q) \<noteq> (i, tp_organization_id p))"
proof -
  have "team_ok db1" using revoke_member_keeps [OF reachable_ok [OF assms(1)], of now p i callback ext] assms(2) by simp
  then have ok: "team_ok db2" "membership_revoked (tp_organization_id p) i db2"
    using run_keeps_revoked [OF assms(3)] revoke_member_result [OF assms(2)] by auto
  then have "get_principal i (tp_organization_id p) db2 = None" by (rule revoked_no_principal)
  then show ?thesis using authenticate_principal [OF ok(1)] resolve_principal [OF ok(1)] by fastforce
qed

lemma revocation_permanent_witness: "get_principal ''u1'' bootstrap_organization_id sample_gone = None"
  using revocation_permanent [OF sample_joined_reachable sample_revoke rtranclp.rtrancl_refl] by (simp add: sample_administrator_def)


subsection \<open>Invitations\<close>

definition issued_hashes :: "team_db \<Rightarrow> string set" where
  "issued_hashes db = ti_token_hash ` set (db_invitations db)"

definition invitation_spent :: "string \<Rightarrow> team_db \<Rightarrow> bool" where
  "invitation_spent h db \<longleftrightarrow> list_all (\<lambda>i. ti_token_hash i = h \<longrightarrow> ti_accepted_at i \<noteq> None) (db_invitations db)"

definition invited_names :: "team_db \<Rightarrow> bool" where
  "invited_names db \<longleftrightarrow> list_all (\<lambda>i. is_team_username (ti_username i)) (db_invitations db)"

text \<open>The rows an operation adds to the table of invitations, and what happens to the others.\<close>

definition invitation_kept :: "team_invitation \<Rightarrow> team_invitation \<Rightarrow> bool" where
  "invitation_kept i i' \<longleftrightarrow> ti_token_hash i' = ti_token_hash i \<and> ti_username i' = ti_username i \<and> ti_organization_id i' = ti_organization_id i \<and>
     (ti_accepted_at i \<noteq> None \<longrightarrow> ti_accepted_at i' \<noteq> None)"

lemma invitation_kept_refl [simp]: "invitation_kept i i"
  by (simp add: invitation_kept_def)

definition invitations_evolve :: "team_db \<Rightarrow> team_db \<Rightarrow> bool" where
  "invitations_evolve db db' \<longleftrightarrow> (\<forall>i' \<in> set (db_invitations db').
     (\<exists>i \<in> set (db_invitations db). invitation_kept i i') \<or> (ti_token_hash i' \<notin> issued_hashes db \<and> is_team_username (ti_username i')))"

lemma evolve_subset: "set (db_invitations db') \<subseteq> set (db_invitations db) \<Longrightarrow> invitations_evolve db db'"
  unfolding invitations_evolve_def using invitation_kept_refl by (metis subsetD)

lemma evolve_same [intro]: "db_invitations db' = db_invitations db \<Longrightarrow> invitations_evolve db db'"
  by (simp add: evolve_subset)

lemmas commit_evolves = commit_keeps [where P = "invitations_evolve db" and db = db for db]
lemmas commit_same_invitations = commit_keeps [where P = "\<lambda>x. db_invitations x = db_invitations db" and db = db for db]

lemma evolve_map [intro]:
  "db_invitations db' = map f (db_invitations db) \<Longrightarrow> (\<And>i. invitation_kept i (f i)) \<Longrightarrow> invitations_evolve db db'"
  by (auto simp: invitations_evolve_def)

lemma evolve_insert:
  assumes "insert_invitation r (db\<lparr>db_invitations := map f (db_invitations db)\<rparr>) = Inr db'" "\<And>i. invitation_kept i (f i)" "is_team_username (ti_username r)"
  shows "invitations_evolve db db'"
proof -
  have "ti_token_hash (f i) = ti_token_hash i" for i using assms(2) by (simp add: invitation_kept_def)
  then have "db_invitations db' = map f (db_invitations db) @ [r]" "ti_token_hash r \<notin> issued_hashes db"
    using assms(1) by (auto simp: insert_invitation_def issued_hashes_def image_image split: if_splits)
  then show ?thesis using assms(2,3) by (auto simp: invitations_evolve_def)
qed

lemma create_invitation_evolves: "invitations_evolve db (snd (create_invitation sha256 ttl j token now p username role db))"
proof -
  have "is_team_username name" if "normalize_username username = Some name" for name
    using that by (auto simp: normalize_username_def Let_def split: if_splits)
  then show ?thesis unfolding create_invitation_def
    by (auto simp: Let_def res_simps invitation_kept_def split: option.splits if_splits intro!: commit_evolves elim!: evolve_insert)
qed

lemma accept_evolves:
  assumes "team_ok db"
  shows "invitations_evolve db (snd (accept_invitation sha256 pbkdf2 salt new_id now token password db))"
proof -
  obtain r db' where e: "accept_invitation sha256 pbkdf2 salt new_id now token password db = (r, db')" by fastforce
  have "db_invitations db' = map (\<lambda>x. if ti_id x = ti_id i then x\<lparr>ti_accepted_at := Some now\<rparr> else x) (db_invitations db)"
    if "accepted sha256 pbkdf2 salt new_id now token password db i user_id db'" for i user_id
    using that accept_user_result(4) [OF assms] by (auto simp: accepted_def insert_membership_def split: if_splits)
  then have "invitations_evolve db db'" using accept_result [OF e] by (fastforce simp: invitation_kept_def)
  then show ?thesis using e by simp
qed

lemma purge_evolves: "invitations_evolve db (snd (purge_terminal_invitations cutoff org db))"
  unfolding purge_terminal_invitations_def by (rule commit_evolves) (auto simp: Let_def res_simps intro!: evolve_subset)

lemma other_invitations:
  "db_invitations (snd (create_organization i now p name db)) = db_invitations db"
  "db_invitations (snd (change_member_role p i role db)) = db_invitations db"
  "db_invitations (fst (snd (revoke_member now p i callback db ext))) = db_invitations db"
  "db_invitations (snd (provision_federated_identity j now p i digest db)) = db_invitations db"
  "db_invitations (snd (revoke_federated_identity now p j db)) = db_invitations db"
  "db_invitations (snd (propose_public_identity j now p eco name days db)) = db_invitations db"
  "db_invitations (snd (approve_public_identity now p j db)) = db_invitations db"
  "db_invitations (snd (revoke_public_identity now p j db)) = db_invitations db"
  "db_invitations (snd (open_store now name h db)) = db_invitations db"
proof -
  show "db_invitations (snd (create_organization i now p name db)) = db_invitations db" unfolding create_organization_def
    by (auto simp: Let_def res_simps insert_organization_def insert_membership_def intro!: commit_same_invitations split: if_splits)
  show "db_invitations (snd (change_member_role p i role db)) = db_invitations db"
    by (auto simp: change_member_role_def Let_def set_memberships_def split: sum.splits option.splits)
  show "db_invitations (fst (snd (revoke_member now p i callback db ext))) = db_invitations db"
    by (auto simp: revoke_member_def Let_def set_memberships_def deprovision_user_eq split: option.splits sum.splits prod.splits if_splits)
  show "db_invitations (snd (provision_federated_identity j now p i digest db)) = db_invitations db" unfolding provision_federated_identity_def
    by (auto simp: Let_def res_simps intro!: commit_same_invitations)
      (auto simp: Let_def res_simps upsert_federated_def split: option.splits prod.splits if_splits)
  show "db_invitations (snd (revoke_federated_identity now p j db)) = db_invitations db" unfolding revoke_federated_identity_def
    by (auto simp: Let_def res_simps intro!: commit_same_invitations) (auto split: option.splits prod.splits if_splits)
  show "db_invitations (snd (propose_public_identity j now p eco name days db)) = db_invitations db"
  proof -
    obtain r db' where e: "propose_public_identity j now p eco name days db = (r, db')" by fastforce
    have "db_invitations db' = db_invitations db" if "upsert_attestation a db = Inr db'" for a
      using that by (auto simp: upsert_attestation_def split: if_splits)
    then show ?thesis using propose_result [OF e] e by (cases "db' = db") auto
  qed
  show "db_invitations (snd (approve_public_identity now p j db)) = db_invitations db"
    by (simp add: approve_public_identity_def Let_def set_attestations_def split: sum.splits option.splits)
  show "db_invitations (snd (revoke_public_identity now p j db)) = db_invitations db"
    by (simp add: revoke_public_identity_def Let_def set_attestations_def split: sum.splits)
  show "db_invitations (snd (open_store now name h db)) = db_invitations db" unfolding open_store_def
    by (auto simp: res_simps ensure_bootstrap_identity_def upsert_user_def upsert_organization_def upsert_membership_def
        intro!: commit_same_invitations split: if_splits)
qed

lemma step_evolves:
  assumes "team_step sha256 pbkdf2 db db'" "team_ok db"
  shows "invitations_evolve db db'"
  using assms(1) by cases (use assms(2) in \<open>auto simp: other_invitations create_invitation_evolves accept_evolves purge_evolves\<close>)

lemma invited_names_stable:
  assumes "team_step sha256 pbkdf2 db db'" "team_ok db" "invited_names db"
  shows "invited_names db'"
  using step_evolves [OF assms(1,2)] assms(3) unfolding invitations_evolve_def invited_names_def invitation_kept_def list_all_iff by metis

text \<open>A step that issues an invitation with the hash \<open>h\<close>, which no row of the table has.\<close>

definition issues :: "string \<Rightarrow> team_db \<Rightarrow> team_db \<Rightarrow> bool" where
  "issues h db db' \<longleftrightarrow> h \<notin> issued_hashes db \<and> h \<in> issued_hashes db'"

lemma invitation_spent_stable:
  assumes "team_step sha256 pbkdf2 db db'" "\<not> issues h db db'" "team_ok db" "invitation_spent h db"
  shows "invitation_spent h db'"
  using step_evolves [OF assms(1,3)] assms(2,4) unfolding invitations_evolve_def invitation_kept_def invitation_spent_def issues_def issued_hashes_def list_all_iff
  by (metis image_eqI)


lemma accepted_invitation_spent:
  assumes "team_ok db" "accepted sha256 pbkdf2 salt new_id now token password db i user_id db'"
  shows "invitation_spent (hash_invitation_token sha256 token) db'"
proof -
  have inv: "db_invitations db' = map (\<lambda>x. if ti_id x = ti_id i then x\<lparr>ti_accepted_at := Some now\<rparr> else x) (db_invitations db)"
    using assms(2) accept_user_result(4) [OF assms(1)] by (auto simp: accepted_def insert_membership_def split: if_splits)
  have "inj_on ti_token_hash (set (db_invitations db))" using assms(1) by (simp add: team_ok_def keys_ok_def distinct_map)
  moreover have "i \<in> set (db_invitations db)" "ti_token_hash i = hash_invitation_token sha256 token" using assms(2) by (simp_all add: accepted_def)
  ultimately have "x = i" if "x \<in> set (db_invitations db)" "ti_token_hash x = hash_invitation_token sha256 token" for x
    using that by (metis inj_on_eq_iff)
  then show ?thesis unfolding invitation_spent_def inv by (auto simp: list_all_iff)
qed

lemma spent_rejects:
  assumes "invitation_spent (hash_invitation_token sha256 token) db"
  shows "isl (fst (accept_invitation sha256 pbkdf2 salt new_id now token password db)) \<and>
    snd (accept_invitation sha256 pbkdf2 salt new_id now token password db) = db"
proof -
  obtain r db' where e: "accept_invitation sha256 pbkdf2 salt new_id now token password db = (r, db')" by fastforce
  have "\<not> accepted sha256 pbkdf2 salt new_id now token password db i user_id db'" for i user_id
    using assms by (auto simp: accepted_def invitation_spent_def list_all_iff)
  then show ?thesis using accept_result [OF e] e by auto
qed

text \<open>
  C18. An invitation is good for one acceptance. Once it succeeded, every later attempt with the same token fails and changes
  nothing, whatever the password, the time and the operations in between; unless one of them issues a new invitation with the same token.
\<close>

theorem invitation_single_use:
  assumes "team_reachable sha256 pbkdf2 db" "accept_invitation sha256 pbkdf2 salt new_id now token password db = (Inr q, db1)"
    "(\<lambda>x y. team_step sha256 pbkdf2 x y \<and> \<not> issues (hash_invitation_token sha256 token) x y)\<^sup>*\<^sup>* db1 db2"
  shows "isl (fst (accept_invitation sha256 pbkdf2 salt' new_id' now' token password' db2)) \<and>
    snd (accept_invitation sha256 pbkdf2 salt' new_id' now' token password' db2) = db2"
proof -
  have ok: "team_ok db" using reachable_ok [OF assms(1)] .
  obtain i user_id where "accepted sha256 pbkdf2 salt new_id now token password db i user_id db1" using accept_result [OF assms(2)] by auto
  then have "invitation_spent (hash_invitation_token sha256 token) db1 \<and> team_ok db1"
    using accepted_invitation_spent [OF ok] accept_keeps [OF ok, of sha256 pbkdf2 salt new_id now token password] assms(2) by simp
  with assms(3) have "invitation_spent (hash_invitation_token sha256 token) db2 \<and> team_ok db2"
    by (induction rule: rtranclp_induct) (auto intro: invitation_spent_stable team_step_keeps)
  then show ?thesis using spent_rejects by blast
qed

lemma invitation_single_use_witness:
  "isl (fst (accept_invitation sample_sha256 sample_pbkdf2 sample_salt ''u3'' 3 ''t1'' ''another secret'' sample_joined))"
  using invitation_single_use [OF sample_invited_reachable sample_accept rtranclp.rtrancl_refl] by blast

subsection \<open>Joining and logging in\<close>

lemma username_normalized:
  assumes "is_team_username s"
  shows "normalize_username s = Some s"
proof -
  have c: "lower_alnum c \<or> c \<in> set ''._-''" if "c \<in> set s" for c
    using assms that by (cases s) (auto simp: is_team_username_def is_segment_def list_all_iff)
  have "\<not> is_space c \<and> lower_char c = c" if "c \<in> set s" for c
    using c [OF that] by (auto simp: lower_alnum_def is_lower_def is_digit_def is_space_def lower_char_def is_upper_def code_def)
  then have "py_strip s = s" "py_lower s = s" by (simp_all add: py_lower_def map_idI)
  then show ?thesis using assms by (simp add: normalize_username_def Let_def)
qed


lemma accepted_row:
  assumes "team_ok db" "accepted sha256 pbkdf2 salt new_id now token password db i user_id db'"
    "is_hex_id 32 salt" "\<forall>p s i k. pbkdf2 p s i = Some k \<longrightarrow> is_hex_id 64 k"
  shows "\<exists>u \<in> set (db_users db'). tu_id u = user_id \<and> tu_username u = ti_username i \<and> tu_active u \<and>
    verify_admin_password pbkdf2 (Some password) (Some (tu_password_hash u))"
proof -
  obtain h db1 db2 where h: "hash_password pbkdf2 salt (Some password) min_hash_iterations = Inr h"
      "accept_user pbkdf2 new_id (ti_username i) password h now db = Inr (user_id, db1)" "db_users db' = db_users db1"
    using assms(2) by (auto simp: accepted_def insert_membership_def split: if_splits)
  have "verify_admin_password pbkdf2 (Some password) (Some h)" using hashed_password_verifies [OF h(1) assms(3,4)] by blast
  then show ?thesis using h(2,3)
    by (auto simp: accept_user_def res_simps insert_user_def split: option.splits if_splits dest!: find_Some_iff_first)
qed

lemma authenticates:
  assumes "team_ok db" "u \<in> set (db_users db)" "tu_active u" "normalize_username name = Some (tu_username u)"
    "verify_admin_password pbkdf2 (Some password) (Some (tu_password_hash u))" "get_principal (tu_id u) org db = Some q"
  shows "\<exists>q'. authenticate pbkdf2 name password db = Some q' \<and> tp_user_id q' = tu_id u"
proof -
  let ?rows = "sort_key (\<lambda>(u, m, org). organization_order org) (filter (\<lambda>(v, m, org). tu_username v = tu_username u) (principal_rows db))"
  have inj: "inj_on tu_username (set (db_users db))" "inj_on tu_id (set (db_users db))" using assms(1) by (simp_all add: team_ok_def keys_ok_def distinct_map)
  obtain v m x where v: "(v, m, x) \<in> set (principal_rows db)" "tu_id v = tu_id u"
    using assms(6) by (auto simp: get_principal_def dest!: first_row_Some)
  moreover have "v = u" using v inj(2) assms(2) by (auto simp: principal_rows_iff member_rows_iff dest: inj_onD)
  ultimately have "(u, m, x) \<in> set ?rows" by simp
  then obtain r where r: "first_row ?rows = Some r" "r \<in> set ?rows" using first_row_None [of ?rows] first_row_Some by (metis empty_iff empty_set not_None_eq)
  obtain w k y where w: "r = (w, k, y)" by (cases r)
  have "w = u" using r(2) w inj(1) assms(2) by (auto simp: principal_rows_iff member_rows_iff dest: inj_onD)
  then show ?thesis using assms(4,5) r(1) w by (simp add: authenticate_def)
qed


lemma new_member_only_there:
  assumes "team_ok db" "accepted sha256 pbkdf2 salt new_id now token password db i user_id db'" "ti_username i \<notin> tu_username ` set (db_users db)"
    "get_principal user_id org db' = Some q"
  shows "org = ti_organization_id i"
proof -
  obtain h db1 where "accept_user pbkdf2 new_id (ti_username i) password h now db = Inr (user_id, db1)" using assms(2) by (auto simp: accepted_def)
  moreover have "find (\<lambda>u. tu_username u = ti_username i) (db_users db) = None" unfolding find_None_iff using assms(3) by (metis rev_image_eqI)
  ultimately have "\<not> has_user db user_id" by (auto simp: accept_user_def res_simps insert_user_def split: if_splits)
  then have "tm_user_id m \<noteq> user_id" if "m \<in> set (db_memberships db)" for m
    using that assms(1) by (auto simp: team_ok_def references_ok_def list_all_iff)
  then show ?thesis using get_principal_Some [OF assms(4)] accepted_memberships [OF assms(1,2)] by (auto simp: live_membership_def)
qed

lemma reachable_names:
  assumes "team_reachable sha256 pbkdf2 db"
  shows "invited_names db"
proof -
  obtain now name h db0 where o: "open_store now name h empty_db = (Inr (), db0)" "(team_step sha256 pbkdf2)\<^sup>*\<^sup>* db0 db"
    using assms by (auto simp: team_reachable_def)
  have "db_invitations db0 = []" using other_invitations(9) [of now name h empty_db] o(1) by (simp add: empty_db_def)
  then have "invited_names db0" by (simp add: invited_names_def)
  then show ?thesis using team_runs.run_stable [where P = invited_names, OF _ o(2) first_open_ok [OF o(1)]] invited_names_stable by blast
qed

text \<open>
  C22. Whoever accepts an invitation becomes a member with the invited role, and the password chosen (or confirmed) then logs
  that user in at once; a new user is logged in to exactly the organization of the invitation. (The salt is 32 hexadecimal digits and derived keys are 64.)
\<close>

theorem accepted_member_logs_in:
  assumes "team_reachable sha256 pbkdf2 db" "accept_invitation sha256 pbkdf2 salt new_id now token password db = (Inr q, db')"
    "is_hex_id 32 salt" "\<forall>p s i k. pbkdf2 p s i = Some k \<longrightarrow> is_hex_id 64 k"
  shows "list_ex (\<lambda>i. ti_token_hash i = hash_invitation_token sha256 token \<and> ti_username i = tp_username q \<and> ti_role i = tp_role q \<and>
      ti_organization_id i = tp_organization_id q) (db_invitations db) \<and>
    get_principal (tp_user_id q) (tp_organization_id q) db' = Some q \<and>
    (\<exists>q'. authenticate pbkdf2 (tp_username q) password db' = Some q' \<and> tp_user_id q' = tp_user_id q \<and>
      (tp_username q \<notin> tu_username ` set (db_users db) \<longrightarrow> q' = q))"
proof -
  have ok: "team_ok db" "team_ok db'" using reachable_ok [OF assms(1)] accept_keeps [of db sha256 pbkdf2 salt new_id now token password] assms(2) by simp_all
  obtain i user_id where a: "accepted sha256 pbkdf2 salt new_id now token password db i user_id db'"
      and p: "get_principal user_id (ti_organization_id i) db' = Some q"
    using accept_result [OF assms(2)] by (auto split: option.splits)
  obtain u where u: "u \<in> set (db_users db')" "tu_id u = user_id" "tu_username u = ti_username i" "tu_active u"
      "verify_admin_password pbkdf2 (Some password) (Some (tu_password_hash u))"
    using accepted_row [OF ok(1) a assms(3,4)] by blast
  obtain v m where v: "v \<in> set (db_users db')" "tu_id v = user_id" "m \<in> set (db_memberships db')" "live_membership (ti_organization_id i) user_id m"
      "tp_user_id q = user_id" "tp_organization_id q = ti_organization_id i" "tp_role q = tm_role m" "tp_username q = tu_username v"
    using get_principal_Some [OF p] by blast
  have inj: "inj_on tu_id (set (db_users db'))" "inj_on membership_key (set (db_memberships db'))"
    using ok(2) by (simp_all add: team_ok_def keys_ok_def distinct_map)
  have name: "tp_username q = ti_username i" using inj(1) u(1-3) v(1,2,8) by (metis inj_onD)
  let ?m = "\<lparr>tm_organization_id = ti_organization_id i, tm_user_id = user_id, tm_role = ti_role i, tm_created_at = now, tm_revoked_at = None\<rparr>"
  have "?m \<in> set (db_memberships db')" using accepted_memberships [OF ok(1) a] by simp
  moreover have "membership_key ?m = membership_key m" using live_membership_key [OF v(4)] by (simp add: membership_key_def)
  ultimately have "m = ?m" using inj(2) v(3) by (metis inj_onD)
  then have role: "tp_role q = ti_role i" using v(7) by simp
  have i: "i \<in> set (db_invitations db)" "ti_token_hash i = hash_invitation_token sha256 token" using a by (simp_all add: accepted_def)
  have "normalize_username (tp_username q) = Some (tu_username u)"
    using username_normalized reachable_names [OF assms(1)] i(1) name u(3) by (simp add: invited_names_def list_all_iff)
  then obtain q' where q': "authenticate pbkdf2 (tp_username q) password db' = Some q'" "tp_user_id q' = user_id"
    using authenticates [OF ok(2) u(1,4) _ u(5)] p u(2) by blast
  have "q' = q" if "tp_username q \<notin> tu_username ` set (db_users db)"
    using new_member_only_there [OF ok(1) a] that name authenticate_principal [OF ok(2) q'(1)] q'(2) p by simp
  then show ?thesis using i name role v(5,6) p q' by (auto simp: list_ex_iff intro!: bexI [of _ i])
qed

lemma accepted_member_logs_in_witness:
  "authenticate sample_pbkdf2 ''alice'' ''correct horse'' sample_joined = Some (sample_principal ''u1'' ''alice'' Maintainer)"
  using accepted_member_logs_in [OF sample_invited_reachable sample_accept] sample_hex
  by (auto simp: sample_pbkdf2_def [abs_def] sample_principal_def sample_invited_def sample_open_def sample_user_def bootstrap_admin_username_def)


subsection \<open>Two operations that cannot be carried out\<close>

text \<open>The invitation that \<^verbatim>\<open>accept_invitation\<close> looks up.\<close>

lemma invitation_row:
  assumes "team_ok db" "i \<in> set (db_invitations db)" "ti_token_hash i = h"
  shows "first_row [x. x \<leftarrow> db_invitations db, org \<leftarrow> db_organizations db, to_id org = ti_organization_id x \<and> ti_token_hash x = h] = Some i"
proof -
  let ?rows = "[x. x \<leftarrow> db_invitations db, org \<leftarrow> db_organizations db, to_id org = ti_organization_id x \<and> ti_token_hash x = h]"
  have inj: "inj_on ti_token_hash (set (db_invitations db))" using assms(1) by (simp add: team_ok_def keys_ok_def distinct_map)
  have "has_organization db (ti_organization_id i)" using assms(1,2) by (simp add: team_ok_def references_ok_def list_all_iff)
  then have "i \<in> set ?rows" using assms(2,3) by (fastforce simp: has_organization_def)
  then have "?rows \<noteq> []" by (metis list.set_cases list.discI)
  then obtain x where x: "first_row ?rows = Some x" using first_row_None [of ?rows] by blast
  then have "x \<in> set (db_invitations db)" "ti_token_hash x = h" using first_row_Some [OF x] by auto
  then have "x = i" using inj assms(2,3) by (metis inj_onD)
  then show ?thesis using x by simp
qed

lemma find_unique:
  assumes "distinct (map f xs)" "x \<in> set xs" "f x = y"
  shows "find (\<lambda>z. f z = y) xs = Some x"
  using assms by (induction xs) auto

text \<open>
  A member who was revoked in an organization but kept the account (having another membership) can be invited to it again, but the
  invitation can never be accepted: acceptance inserts a second row for the same key, so it always fails and changes nothing, and
  with the right password the error is the one of an unavailable store.
\<close>

theorem readmission_blocked:
  assumes "team_reachable sha256 pbkdf2 db" "u \<in> set (db_users db)" "i \<in> set (db_invitations db)" "tu_username u = ti_username i"
    "membership_revoked (ti_organization_id i) (tu_id u) db" "ti_token_hash i = hash_invitation_token sha256 token"
  shows "isl (fst (accept_invitation sha256 pbkdf2 salt new_id now token password db)) \<and>
    snd (accept_invitation sha256 pbkdf2 salt new_id now token password db) = db \<and>
    (token \<noteq> [] \<and> length token \<le> invitation_token_max_length \<and> hash_password pbkdf2 salt (Some password) min_hash_iterations = Inr h \<and>
     ti_accepted_at i = None \<and> ti_revoked_at i = None \<and> now < ti_expires_at i \<and> tu_active u \<and>
     verify_admin_password pbkdf2 (Some password) (Some (tu_password_hash u)) \<longrightarrow>
       fst (accept_invitation sha256 pbkdf2 salt new_id now token password db) = Inl IdentityStoreUnavailable)"
proof -
  have ok: "team_ok db" using reachable_ok [OF assms(1)] .
  have row: "first_row [x. x \<leftarrow> db_invitations db, org \<leftarrow> db_organizations db,
      to_id org = ti_organization_id x \<and> ti_token_hash x = hash_invitation_token sha256 token] = Some i"
    by (rule invitation_row [OF ok assms(3,6)])
  have user: "find (\<lambda>x. tu_username x = ti_username i) (db_users db) = Some u"
    using find_unique [of tu_username, OF _ assms(2,4)] ok by (simp add: team_ok_def keys_ok_def)
  have key: "insert_membership \<lparr>tm_organization_id = ti_organization_id i, tm_user_id = tu_id u, tm_role = r, tm_created_at = now, tm_revoked_at = None\<rparr> db
      = Inl IdentityStoreUnavailable" for r
    using assms(5) by (auto simp: insert_membership_def membership_revoked_def list_ex_iff membership_key_def [of "team_membership.make a b c d e" for a b c d e])
      (force simp: membership_key_def)
  show ?thesis using row user key
    by (auto simp: accept_invitation_def Let_def accept_user_def commit_def split: sum.splits)
qed

lemma readmission_blocked_witness:
  "fst (accept_invitation sample_sha256 sample_pbkdf2 sample_salt ''u9'' 8 ''t3'' ''correct horse'' sample_again) = Inl IdentityStoreUnavailable"
proof -
  let ?u = "sample_user ''u1'' ''alice'' sample_hash 2" and ?i = "sample_invitation ''t3'' bootstrap_organization_id ''alice'' 7"
  have "?u \<in> set (db_users sample_again)" "?i \<in> set (db_invitations sample_again)" "tu_username ?u = ti_username ?i"
    "membership_revoked (ti_organization_id ?i) (tu_id ?u) sample_again" "ti_token_hash ?i = hash_invitation_token sample_sha256 ''t3''"
    by (simp_all add: sample_again_def sample_left_def sample_twice_def sample_second_def sample_defs sample_token membership_revoked_def membership_key_def)
  from readmission_blocked [OF sample_again_reachable this] sample_hashed sample_verifies show ?thesis
    by (fastforce simp: invitation_token_max_length_def sample_invitation_def sample_user_def seconds_def)
qed

text \<open>
  C37. When another account already has the user name \<^verbatim>\<open>deprovisioned.<user id>\<close>, the last membership of that user cannot be revoked: the
  rename of the account breaks the unique user names, so the whole transaction is undone and the member stays, although the
  caller's callback has run and its effects remain.
\<close>

theorem deprovision_blocked:
  assumes "tp_role p = Administrator" "i \<noteq> bootstrap_admin_id" "find (live_membership (tp_organization_id p) i) (db_memberships db) = Some m"
    "tm_role m \<noteq> Administrator" "length (filter (live_membership (tp_organization_id p) i) (db_memberships db)) = 1"
    "\<not> list_ex (\<lambda>x. tm_user_id x = i \<and> tm_revoked_at x = None \<and> tm_organization_id x \<noteq> tp_organization_id p) (db_memberships db)"
    "v \<in> set (db_users db)" "tu_id v \<noteq> i" "tu_username v = deprovisioned_username i" "f ext = (Inr r, ext')"
  shows "revoke_member now p i (Some f) db ext = (Inl (TeamFailure IdentityStoreUnavailable), db, ext')"
proof -
  let ?db = "set_memberships (live_membership (tp_organization_id p) i) (\<lambda>m. m\<lparr>tm_revoked_at := Some now\<rparr>) db"
  have none: "\<not> list_ex (\<lambda>x. tm_user_id x = i \<and> tm_revoked_at x = None) (db_memberships ?db)"
  proof
    assume "list_ex (\<lambda>x. tm_user_id x = i \<and> tm_revoked_at x = None) (db_memberships ?db)"
    then obtain y where "y \<in> set (db_memberships db)" "\<not> live_membership (tp_organization_id p) i y" "tm_user_id y = i" "tm_revoked_at y = None"
      by (auto simp: list_ex_iff set_memberships_def split: if_splits)
    then have "list_ex (\<lambda>x. tm_user_id x = i \<and> tm_revoked_at x = None \<and> tm_organization_id x \<noteq> tp_organization_id p) (db_memberships db)"
      unfolding list_ex_iff live_membership_def by blast
    then show False using assms(6) by contradiction
  qed
  have rename: "deprovision_user i ?db = Inl IdentityStoreUnavailable"
    using assms(7-9) by (auto simp: deprovision_user_eq set_memberships_def list_ex_iff)
  show ?thesis unfolding revoke_member_def Let_def assms(3,5) using assms(1,2,4,10) none rename by simp
qed

lemma deprovision_blocked_witness:
  "sample_reachable sample_squatted \<and> revoke_member 5 (sample_administrator bootstrap_organization_id ''Example'') ''u1''
     (Some (\<lambda>n. (Inr (), Suc n))) sample_squatted 0 = (Inl (TeamFailure IdentityStoreUnavailable), sample_squatted, Suc 0)"
proof -
  let ?p = "sample_administrator bootstrap_organization_id ''Example''" and ?m = "sample_member bootstrap_organization_id ''u1'' Maintainer 2"
    and ?v = "sample_user ''u2'' ''deprovisioned.u1'' sample_hash 4"
  have h: "tp_role ?p = Administrator" "''u1'' \<noteq> bootstrap_admin_id"
    "find (live_membership (tp_organization_id ?p) ''u1'') (db_memberships sample_squatted) = Some ?m" "tm_role ?m \<noteq> Administrator"
    "length (filter (live_membership (tp_organization_id ?p) ''u1'') (db_memberships sample_squatted)) = 1"
    "\<not> list_ex (\<lambda>x. tm_user_id x = ''u1'' \<and> tm_revoked_at x = None \<and> tm_organization_id x \<noteq> tp_organization_id ?p) (db_memberships sample_squatted)"
    "?v \<in> set (db_users sample_squatted)" "tu_id ?v \<noteq> ''u1''" "tu_username ?v = deprovisioned_username ''u1''"
    by (simp_all add: sample_squatted_def sample_defs live_membership_def deprovisioned_username_def)
  show ?thesis using sample_squatted_reachable deprovision_blocked [OF h, of "\<lambda>n. (Inr (), Suc n)" 0 "()" "Suc 0" 5] by simp
qed


subsection \<open>Federated identities\<close>

text \<open>The digest \<open>d\<close> of a subject is bound to the user \<open>u\<close> in the organization \<open>org\<close>.\<close>

definition bound_to :: "string \<Rightarrow> string \<Rightarrow> string \<Rightarrow> team_db \<Rightarrow> bool" where
  "bound_to d org u db \<longleftrightarrow> list_ex (\<lambda>f. tf_subject_digest f = d \<and> tf_organization_id f = org \<and> tf_user_id f = u) (db_federated db)"

lemma bound_if:
  assumes "bound_to d org u db"
  shows "bound_to d org u (db\<lparr>db_federated := map (\<lambda>f. if P f then f\<lparr>tf_revoked_at := t\<rparr> else f) (db_federated db)\<rparr>)"
proof -
  obtain f where "f \<in> set (db_federated db)" "tf_subject_digest f = d \<and> tf_organization_id f = org \<and> tf_user_id f = u"
    using assms by (auto simp: bound_to_def list_ex_iff)
  then show ?thesis by (auto simp: bound_to_def intro!: list_ex_mapI [of f])
qed

lemma bound_frame: "bound_to d org u db \<Longrightarrow> db_federated db' = db_federated db \<Longrightarrow> bound_to d org u db'"
  by (simp add: bound_to_def)

lemma upsert_federated_bound: "upsert_federated r db = Inr db' \<Longrightarrow> bound_to d org u db \<Longrightarrow> bound_to d org u db'"
  by (auto simp: upsert_federated_def split: if_splits intro: bound_if) (simp add: bound_to_def)

lemma provision_bound: "bound_to d org u db \<Longrightarrow> bound_to d org u (snd (provision_federated_identity j now p i digest db))"
  unfolding provision_federated_identity_def
  by (auto simp: Let_def res_simps intro!: commit_keeps [where P = "bound_to d org u"])
    (auto simp: Let_def res_simps split: option.splits prod.splits if_splits dest!: upsert_federated_bound)

lemma unbind_bound: "bound_to d org u db \<Longrightarrow> bound_to d org u (snd (revoke_federated_identity now p j db))"
  unfolding revoke_federated_identity_def
  by (auto simp: Let_def res_simps intro!: commit_keeps [where P = "bound_to d org u"])
    (auto split: option.splits prod.splits if_splits intro!: bound_if)

lemmas commit_same_federated = commit_keeps [where P = "\<lambda>x. db_federated x = db_federated db" and db = db for db]

lemma other_federated:
  "db_federated (snd (create_organization i now p name db)) = db_federated db"
  "db_federated (snd (change_member_role p i role db)) = db_federated db"
  "db_federated (fst (snd (revoke_member now p i callback db ext))) = db_federated db"
  "db_federated (snd (create_invitation sha256 ttl j token now p username role db)) = db_federated db"
  "db_federated (snd (purge_terminal_invitations cutoff org db)) = db_federated db"
  "db_federated (snd (propose_public_identity j now p eco name days db)) = db_federated db"
  "db_federated (snd (approve_public_identity now p j db)) = db_federated db"
  "db_federated (snd (revoke_public_identity now p j db)) = db_federated db"
  "db_federated (snd (open_store now name h db)) = db_federated db"
proof -
  show "db_federated (snd (create_organization i now p name db)) = db_federated db" unfolding create_organization_def
    by (auto simp: Let_def res_simps insert_organization_def insert_membership_def intro!: commit_same_federated split: if_splits)
  show "db_federated (snd (change_member_role p i role db)) = db_federated db"
    by (auto simp: change_member_role_def Let_def set_memberships_def split: sum.splits option.splits)
  show "db_federated (fst (snd (revoke_member now p i callback db ext))) = db_federated db"
    by (auto simp: revoke_member_def Let_def set_memberships_def deprovision_user_eq split: option.splits sum.splits prod.splits if_splits)
  show "db_federated (snd (create_invitation sha256 ttl j token now p username role db)) = db_federated db" unfolding create_invitation_def
    by (auto simp: Let_def res_simps insert_invitation_def split: option.splits if_splits intro!: commit_same_federated)
  show "db_federated (snd (purge_terminal_invitations cutoff org db)) = db_federated db" unfolding purge_terminal_invitations_def
    by (rule commit_same_federated) (auto simp: Let_def res_simps)
  show "db_federated (snd (propose_public_identity j now p eco name days db)) = db_federated db"
  proof -
    obtain r db' where e: "propose_public_identity j now p eco name days db = (r, db')" by fastforce
    have "db_federated db' = db_federated db" if "upsert_attestation a db = Inr db'" for a
      using that by (auto simp: upsert_attestation_def split: if_splits)
    then show ?thesis using propose_result [OF e] e by (cases "db' = db") auto
  qed
  show "db_federated (snd (approve_public_identity now p j db)) = db_federated db"
    by (simp add: approve_public_identity_def Let_def set_attestations_def split: sum.splits option.splits)
  show "db_federated (snd (revoke_public_identity now p j db)) = db_federated db"
    by (simp add: revoke_public_identity_def Let_def set_attestations_def split: sum.splits)
  show "db_federated (snd (open_store now name h db)) = db_federated db" unfolding open_store_def
    by (auto simp: res_simps ensure_bootstrap_identity_def upsert_user_def upsert_organization_def upsert_membership_def
        intro!: commit_same_federated split: if_splits)
qed

lemma accept_federated:
  assumes "team_ok db"
  shows "db_federated (snd (accept_invitation sha256 pbkdf2 salt new_id now token password db)) = db_federated db"
proof -
  obtain r db' where e: "accept_invitation sha256 pbkdf2 salt new_id now token password db = (r, db')" by fastforce
  have "db_federated db' = db_federated db" if "accepted sha256 pbkdf2 salt new_id now token password db i user_id db'" for i user_id
    using that accept_user_result(6) [OF assms] by (auto simp: accepted_def insert_membership_def split: if_splits)
  then show ?thesis using accept_result [OF e] e by auto
qed

lemma bound_stable:
  assumes "team_step sha256 pbkdf2 db db'" "team_ok db" "bound_to d org u db"
  shows "bound_to d org u db'"
  using assms(1) by cases
    (use assms(2) provision_bound [OF assms(3)] unbind_bound [OF assms(3)] in
      \<open>auto simp: accept_federated other_federated intro!: bound_frame [OF assms(3)]\<close>)

text \<open>
  C23. A federated subject is bound to one user of one organization for good: whatever happens later, also a revocation of the binding
  and a new one, the federated login of that subject only ever yields that user in that organization, in the role the provider
  asserts, and never an administrator.
\<close>

theorem federated_binding_permanent:
  assumes "team_reachable sha256 pbkdf2 db" "f \<in> set (db_federated db)" "(team_step sha256 pbkdf2)\<^sup>*\<^sup>* db db'"
    "resolve_federated_principal org (tf_subject_digest f) role db' = Inr (Some q)"
  shows "tp_user_id q = tf_user_id f \<and> org = tf_organization_id f \<and> tp_organization_id q = org \<and> role_name (tp_role q) = role \<and> tp_role q \<noteq> Administrator"
proof -
  have ok: "team_ok db" "team_ok db'" using reachable_ok [OF assms(1)] team_runs.run_inv [OF assms(3)] by blast+
  have "bound_to (tf_subject_digest f) (tf_organization_id f) (tf_user_id f) db" using assms(2) by (auto simp: bound_to_def list_ex_iff)
  then have "bound_to (tf_subject_digest f) (tf_organization_id f) (tf_user_id f) db'"
    using team_runs.run_stable [OF _ assms(3) ok(1), where P = "bound_to (tf_subject_digest f) (tf_organization_id f) (tf_user_id f)"] bound_stable by blast
  then obtain g where g: "g \<in> set (db_federated db')" "tf_subject_digest g = tf_subject_digest f" "tf_organization_id g = tf_organization_id f"
      "tf_user_id g = tf_user_id f" by (auto simp: bound_to_def list_ex_iff)
  obtain k u m x where k: "k \<in> set (db_federated db')" "tf_subject_digest k = tf_subject_digest f" "tf_organization_id k = org" "tf_user_id k = tu_id u"
      "to_id x = org" "q = principal_from_row (u, m, x)" "tm_role m \<noteq> Administrator" "role_name (tm_role m) = role"
    using resolve_row [OF assms(4)] by blast
  have "inj_on tf_subject_digest (set (db_federated db'))" using ok(2) by (simp add: team_ok_def keys_ok_def distinct_map)
  then have "k = g" using g(1,2) k(1,2) by (metis inj_onD)
  then show ?thesis using g k by simp
qed

lemma federated_binding_permanent_witness:
  "\<exists>q. resolve_federated_principal bootstrap_organization_id sample_digest ''maintainer'' sample_bound = Inr (Some q) \<and> tp_user_id q = ''u1'' \<and>
     tp_role q \<noteq> Administrator"
proof -
  let ?f = "\<lparr>tf_id = ''f1'', tf_subject_digest = sample_digest, tf_organization_id = bootstrap_organization_id,
     tf_user_id = ''u1'', tf_created_by = bootstrap_admin_id, tf_created_at = 4, tf_revoked_at = None\<rparr>"
  have "?f \<in> set (db_federated sample_bound)" by (simp add: sample_bound_def)
  then show ?thesis using federated_binding_permanent [OF sample_bound_reachable _ rtranclp.rtrancl_refl, of ?f] sample_resolve by simp
qed


subsection \<open>Attestations\<close>

lemma ecosystem_no_colon: "e \<in> set public_identity_ecosystems \<Longrightarrow> CHR '':'' \<notin> set e"
  by (auto simp: public_identity_ecosystems_def)

lemma key_text_inject:
  assumes "CHR '':'' \<notin> set e" "CHR '':'' \<notin> set e'" "e @ '':'' @ n = e' @ '':'' @ n'"
  shows "e = e' \<and> n = n'"
  using assms
proof (induction e arbitrary: e')
  case Nil
  then show ?case by (cases e') auto
next
  case (Cons c e)
  then show ?case by (cases e') auto
qed

lemma approved_iff_row:
  assumes "team_ok db" "normalize_public_identity eco name = Inr (e, n)"
  shows "is_public_identity_approved now org eco name db \<longleftrightarrow>
    (\<exists>a \<in> set (db_attestations db). attestation_key a = (org, e, n) \<and> currently_approved now a)"
proof -
  have inj: "inj_on attestation_key (set (db_attestations db))" using assms(1) by (simp add: team_ok_def keys_ok_def distinct_map)
  let ?found = "find (\<lambda>a. attestation_key a = (org, e, n) \<and> pi_state a = AttestationApproved) (db_attestations db)"
  show ?thesis
  proof (cases ?found)
    case None
    have "\<not> (attestation_key a = (org, e, n) \<and> currently_approved now a)" if "a \<in> set (db_attestations db)" for a
      using None that unfolding find_None_iff currently_approved_def by blast
    then show ?thesis using None assms(2) by (simp add: is_public_identity_approved_def)
  next
    case (Some a)
    then have a: "a \<in> set (db_attestations db)" "attestation_key a = (org, e, n)" "pi_state a = AttestationApproved"
      using find_Some_iff_first [OF Some] by simp_all
    then have "b = a" if "b \<in> set (db_attestations db)" "attestation_key b = (org, e, n)" for b using that inj by (metis inj_onD)
    then have "(\<exists>b \<in> set (db_attestations db). attestation_key b = (org, e, n) \<and> currently_approved now b) \<longleftrightarrow> currently_approved now a"
      using a(1,2) by blast
    then show ?thesis using Some a(3) assms(2) by (simp add: is_public_identity_approved_def currently_approved_def)
  qed
qed

text \<open>
  The two ways to ask for approved package names agree: a name is approved exactly when its key is in the list for the
  organization. And an approval always names the member who gave it, and holds for at most 90 days after it was given.
\<close>

theorem approval_lookups_agree:
  assumes "team_reachable sha256 pbkdf2 db"
  shows "(is_public_identity_approved now org eco name db \<longleftrightarrow>
      (\<exists>e n. normalize_public_identity eco name = Inr (e, n) \<and> e @ '':'' @ n \<in> set (approved_public_identity_keys now org db))) \<and>
    (is_public_identity_approved now org eco name db \<longrightarrow>
      list_ex (\<lambda>a. pi_organization_id a = org \<and> (\<exists>u t. pi_approved_by a = Some u \<and> has_user db u \<and> pi_approved_at a = Some t \<and>
        now < days_after t attestation_max_ttl_days)) (db_attestations db))"
proof (cases "normalize_public_identity eco name")
  case (Inl x)
  then show ?thesis by (simp add: is_public_identity_approved_def)
next
  case (Inr en)
  obtain e n where n: "normalize_public_identity eco name = Inr (e, n)" using Inr by (cases en) auto
  have ok: "team_ok db" using reachable_ok [OF assms] .
  then have att: "attestation_ok a" if "a \<in> set (db_attestations db)" for a using that by (simp add: team_ok_def list_all_iff)
  have e: "CHR '':'' \<notin> set e" using n by (auto simp: normalize_public_identity_def ecosystem_no_colon split: if_splits option.splits)
  have colon: "CHR '':'' \<notin> set (pi_ecosystem a)" if "a \<in> set (db_attestations db)" for a
    using att [OF that] by (simp add: attestation_ok_def ecosystem_no_colon)
  have same: "e @ '':'' @ n = pi_ecosystem a @ '':'' @ pi_package_name a \<longleftrightarrow> e = pi_ecosystem a \<and> n = pi_package_name a"
    if "a \<in> set (db_attestations db)" for a using key_text_inject [OF e colon [OF that], of n "pi_package_name a"] by auto
  have keys: "e @ '':'' @ n \<in> set (approved_public_identity_keys now org db) \<longleftrightarrow> is_public_identity_approved now org eco name db"
    unfolding approved_iff_row [OF ok n] approved_public_identity_keys_def using same by (auto simp: attestation_key_def)
  have "list_ex (\<lambda>a. pi_organization_id a = org \<and> (\<exists>u t. pi_approved_by a = Some u \<and> has_user db u \<and> pi_approved_at a = Some t \<and>
      now < days_after t attestation_max_ttl_days)) (db_attestations db)" if approved: "is_public_identity_approved now org eco name db"
  proof -
    obtain a where a: "a \<in> set (db_attestations db)" "attestation_key a = (org, e, n)" "currently_approved now a"
      using approved unfolding approved_iff_row [OF ok n] by blast
    obtain t u where t: "pi_approved_at a = Some t" "pi_approved_by a = Some u" "now < days_after t (pi_ttl_days a)" "pi_ttl_days a \<le> attestation_max_ttl_days"
      using att [OF a(1)] a(3) by (auto simp: attestation_ok_def currently_approved_def split: option.splits)
    have "pred_option (has_user db) (pi_approved_by a)" using ok a(1) by (simp add: team_ok_def references_ok_def list_all_iff)
    moreover have "now < days_after t attestation_max_ttl_days" using t(3,4) by (simp add: days_after_def)
    ultimately show ?thesis using a(1,2) t(1,2) by (auto simp: list_ex_iff attestation_key_def intro!: bexI [of _ a])
  qed
  then show ?thesis using keys n by auto
qed

lemma approval_lookups_agree_witness:
  "is_public_identity_approved 7 bootstrap_organization_id ''npm'' ''Left-Pad'' (sample_open\<lparr>db_attestations := [approved_row 6 bootstrap_admin_id sample_proposal]\<rparr>)"
proof -
  let ?db = "sample_open\<lparr>db_attestations := [approved_row 6 bootstrap_admin_id sample_proposal]\<rparr>"
  have "''npm'' @ '':'' @ ''left-pad'' \<in> set (approved_public_identity_keys 7 bootstrap_organization_id ?db)"
    by (simp add: approved_public_identity_keys_def approved_row_def sample_proposal_def currently_approved_def days_after_def)
  then show ?thesis using approval_lookups_agree [OF sample_approved_reachable, of 7 bootstrap_organization_id "''npm''" "''Left-Pad''"] sample_package by blast
qed

subsection \<open>Well-formedness\<close>

text \<open>
  C24. Type invariant of the store. After any sequence of operations the tables satisfy the schema (primary keys, unique columns and
  foreign keys), every membership that is not revoked belongs to an active user, the bootstrap organization and
  administrator exist, every attestation has a known ecosystem, a duration of 1 to 90 days and, when approved, the expiry that
  follows from its approval, and no organization has more than 200 of them.
\<close>

theorem team_store_well_formed:
  assumes "team_reachable sha256 pbkdf2 db"
  shows "keys_ok db \<and> references_ok db \<and> members_active db \<and> bootstrapped db \<and> list_all attestation_ok (db_attestations db) \<and> attestations_within db"
  using reachable_ok [OF assms] by (simp add: team_ok_def)

lemma team_store_well_formed_witness: "keys_ok sample_again \<and> references_ok sample_again \<and> attestations_within sample_again"
  using team_store_well_formed [OF sample_again_reachable] by simp


end
