(* ===== verification/Auth_State_Sqlite.thy ===== *)
theory Auth_State_Sqlite
  imports Auth_Stores
begin

section \<open>Sessions and login attempts in SQLite\<close>

text \<open>
  Model of \<^verbatim>\<open>backend/app/auth_state_sqlite.py\<close>: the tables of sessions and of login attempts with the
  operations of \<^verbatim>\<open>SQLiteAuthStateStore\<close>, and the two stores over them that replace the in-memory stores of
  \<^verbatim>\<open>auth.py\<close>. A table is the list of its rows in the order of their row numbers; \<^verbatim>\<open>INSERT OR REPLACE\<close> removes
  the row with the same primary key and appends the new one. Session identifiers, CSRF tokens and client keys are stored
  as digests; \<open>sha256\<close> is the hexadecimal digest of a text, so the digests that \<^verbatim>\<open>hmac.compare_digest\<close> compares are
  ASCII. Times in \<^verbatim>\<open>REAL\<close> columns are the exact instants (the rounding of \<^verbatim>\<open>float\<close> seconds is not modelled), and an
  operation reads the clock once. A session store is its table with the process-local cache of CSRF tokens.
\<close>

subsection \<open>Digests and texts\<close>

definition hash_value :: "(string \<Rightarrow> string) \<Rightarrow> string \<Rightarrow> string option \<Rightarrow> string" where
  "hash_value sha256 purpose v =
     sha256 (''inspectra-auth-state-v1:'' @ purpose @ [CHR 0x00] @ (case v of None \<Rightarrow> [] | Some t \<Rightarrow> t))"

definition hash_session_id :: "(string \<Rightarrow> string) \<Rightarrow> string \<Rightarrow> string" where
  "hash_session_id sha256 session_id = hash_value sha256 ''session'' (Some session_id)"

definition hash_csrf_token :: "(string \<Rightarrow> string) \<Rightarrow> string \<Rightarrow> string" where
  "hash_csrf_token sha256 csrf_token = hash_value sha256 ''csrf'' (Some csrf_token)"

definition hash_client_key :: "(string \<Rightarrow> string) \<Rightarrow> string option \<Rightarrow> string" where
  "hash_client_key sha256 key =
     hash_value sha256 ''client_key'' (Some (case key of None \<Rightarrow> ''unknown''
       | Some k \<Rightarrow> (let normalized = py_strip k in if normalized = [] then ''unknown'' else normalized)))"

definition safe_reason :: "string option \<Rightarrow> string option" where
  "safe_reason reason =
     (case reason of None \<Rightarrow> None
      | Some r \<Rightarrow> (let normalized = py_strip r in if normalized = [] then None else Some (take 120 normalized)))"

definition require_non_blank :: "string \<Rightarrow> string option \<Rightarrow> auth_exc + string" where
  "require_non_blank field v =
     (case v of None \<Rightarrow> Inl (RequiredValueError field) | Some t \<Rightarrow> if t = [] then Inl (RequiredValueError field) else Inr t)"

subsection \<open>Statements\<close>

text \<open>\<^verbatim>\<open>UPDATE ... WHERE\<close> and \<^verbatim>\<open>DELETE ... WHERE\<close> with their row counts.\<close>

definition sql_update :: "('r \<Rightarrow> bool) \<Rightarrow> ('r \<Rightarrow> 'r) \<Rightarrow> 'r list \<Rightarrow> nat \<times> 'r list" where
  "sql_update P f rows = (length (filter P rows), map (\<lambda>r. if P r then f r else r) rows)"

definition sql_delete :: "('r \<Rightarrow> bool) \<Rightarrow> 'r list \<Rightarrow> nat \<times> 'r list" where
  "sql_delete P rows = (length (filter P rows), filter (\<lambda>r. \<not> P r) rows)"

definition insert_or_replace :: "('r \<Rightarrow> string) \<Rightarrow> 'r \<Rightarrow> 'r list \<Rightarrow> 'r list" where
  "insert_or_replace key row rows = filter (\<lambda>r. key r \<noteq> key row) rows @ [row]"

definition select_key :: "('r \<Rightarrow> string) \<Rightarrow> string \<Rightarrow> 'r list \<Rightarrow> 'r option" where
  "select_key key k rows = find (\<lambda>r. key r = k) rows"

subsection \<open>The table of sessions\<close>

record session_row =
  sx_session_id_hash :: string
  sx_csrf_token_hash :: string
  sx_operator_id :: string
  sx_auth_mode :: string
  sx_created_at :: instant
  sx_last_seen_at :: instant
  sx_expires_at :: instant
  sx_revoked_at :: "instant option"
  sx_revocation_reason :: "string option"
  sx_client_key_hash :: "string option"
  sx_user_agent_hash :: "string option"
  sx_organization_id :: "string option"
  sx_role :: "string option"

record sqlite_session =
  ss_operator_id :: string
  ss_auth_mode :: string
  ss_created_at :: instant
  ss_last_seen_at :: instant
  ss_expires_at :: instant
  ss_organization_id :: "string option"
  ss_role :: "string option"
  ss_revoked_at :: "instant option"
  ss_revocation_reason :: "string option"

definition session_from_row :: "session_row \<Rightarrow> sqlite_session" where
  "session_from_row r =
     \<lparr>ss_operator_id = sx_operator_id r, ss_auth_mode = sx_auth_mode r, ss_created_at = sx_created_at r,
      ss_last_seen_at = sx_last_seen_at r, ss_expires_at = sx_expires_at r, ss_organization_id = sx_organization_id r,
      ss_role = sx_role r, ss_revoked_at = sx_revoked_at r, ss_revocation_reason = sx_revocation_reason r\<rparr>"

definition state_create_session ::
  "(string \<Rightarrow> string) \<Rightarrow> string option \<Rightarrow> string option \<Rightarrow> string option \<Rightarrow> string option \<Rightarrow> string option \<Rightarrow> string option
     \<Rightarrow> instant \<Rightarrow> instant \<Rightarrow> string option \<Rightarrow> string option \<Rightarrow> session_row list \<Rightarrow> auth_exc + sqlite_session \<times> session_row list" where
  "state_create_session sha256 session_id csrf_token operator_id auth_mode organization_id role expires_at now client user_agent table =
     bind_res (require_non_blank ''session_id'' session_id) (\<lambda>sid.
     bind_res (require_non_blank ''csrf_token'' csrf_token) (\<lambda>csrf.
     bind_res (require_non_blank ''operator_id'' operator_id) (\<lambda>operator_text.
     bind_res (require_non_blank ''auth_mode'' auth_mode) (\<lambda>mode.
       let row = \<lparr>sx_session_id_hash = hash_session_id sha256 sid, sx_csrf_token_hash = hash_csrf_token sha256 csrf,
             sx_operator_id = operator_text, sx_auth_mode = mode, sx_created_at = now, sx_last_seen_at = now,
             sx_expires_at = expires_at, sx_revoked_at = None, sx_revocation_reason = None,
             sx_client_key_hash = map_option (\<lambda>c. hash_client_key sha256 (Some c)) client,
             sx_user_agent_hash = map_option (\<lambda>u. hash_value sha256 ''user_agent'' (Some u)) user_agent,
             sx_organization_id = organization_id, sx_role = role\<rparr> in
       Inr (\<lparr>ss_operator_id = operator_text, ss_auth_mode = mode, ss_created_at = now, ss_last_seen_at = now,
             ss_expires_at = expires_at, ss_organization_id = organization_id, ss_role = role, ss_revoked_at = None,
             ss_revocation_reason = None\<rparr>,
            insert_or_replace sx_session_id_hash row table)))))"

definition state_get_session :: "(string \<Rightarrow> string) \<Rightarrow> instant \<Rightarrow> string option \<Rightarrow> session_row list \<Rightarrow> sqlite_session option" where
  "state_get_session sha256 now session_id table =
     (case session_id of None \<Rightarrow> None
      | Some sid \<Rightarrow>
          if sid = [] then None
          else (case select_key sx_session_id_hash (hash_session_id sha256 sid) table of None \<Rightarrow> None
                | Some r \<Rightarrow>
                    if sx_revoked_at r \<noteq> None \<or> sx_expires_at r \<le> now then None else Some (session_from_row r)))"

definition state_verify_csrf :: "(string \<Rightarrow> string) \<Rightarrow> instant \<Rightarrow> string option \<Rightarrow> string option \<Rightarrow> session_row list \<Rightarrow> bool" where
  "state_verify_csrf sha256 now session_id csrf_token table =
     (case (session_id, csrf_token) of
        (Some sid, Some token) \<Rightarrow>
          if sid = [] \<or> token = [] then False
          else (case select_key sx_session_id_hash (hash_session_id sha256 sid) table of None \<Rightarrow> False
                | Some r \<Rightarrow>
                    if sx_revoked_at r \<noteq> None \<or> sx_expires_at r \<le> now then False
                    else sx_csrf_token_hash r = hash_csrf_token sha256 token)
      | _ \<Rightarrow> False)"

text \<open>The condition \<^verbatim>\<open>revoked_at IS NULL AND expires_at > ?\<close> on the row of a session.\<close>

definition row_live :: "(string \<Rightarrow> string) \<Rightarrow> instant \<Rightarrow> string \<Rightarrow> session_row \<Rightarrow> bool" where
  "row_live sha256 now sid r \<longleftrightarrow>
     sx_session_id_hash r = hash_session_id sha256 sid \<and> sx_revoked_at r = None \<and> sx_expires_at r > now"

definition state_update_csrf ::
  "(string \<Rightarrow> string) \<Rightarrow> instant \<Rightarrow> string option \<Rightarrow> string option \<Rightarrow> session_row list \<Rightarrow> auth_exc + bool \<times> session_row list" where
  "state_update_csrf sha256 now session_id csrf_token table =
     (case session_id of None \<Rightarrow> Inr (False, table)
      | Some sid \<Rightarrow>
          if sid = [] then Inr (False, table)
          else bind_res (require_non_blank ''csrf_token'' csrf_token) (\<lambda>csrf.
            let (n, table') = sql_update (row_live sha256 now sid)
                  (\<lambda>r. r\<lparr>sx_csrf_token_hash := hash_csrf_token sha256 csrf, sx_last_seen_at := now\<rparr>) table in
            Inr (n > 0, table')))"

text \<open>\<^verbatim>\<open>SET revoked_at = ?, revocation_reason = ?\<close>\<close>

definition revoke_session_row :: "instant \<Rightarrow> string option \<Rightarrow> session_row \<Rightarrow> session_row" where
  "revoke_session_row now reason r = r\<lparr>sx_revoked_at := Some now, sx_revocation_reason := safe_reason reason\<rparr>"

definition state_revoke_session ::
  "(string \<Rightarrow> string) \<Rightarrow> instant \<Rightarrow> string option \<Rightarrow> string option \<Rightarrow> session_row list \<Rightarrow> bool \<times> session_row list" where
  "state_revoke_session sha256 now session_id reason table =
     (case session_id of None \<Rightarrow> (False, table)
      | Some sid \<Rightarrow>
          if sid = [] then (False, table)
          else (let (n, table') = sql_update (\<lambda>r. sx_session_id_hash r = hash_session_id sha256 sid \<and> sx_revoked_at r = None)
                      (revoke_session_row now reason) table in (n > 0, table')))"

definition state_revoke_operator ::
  "instant \<Rightarrow> string option \<Rightarrow> string option \<Rightarrow> session_row list \<Rightarrow> auth_exc + nat \<times> session_row list" where
  "state_revoke_operator now operator_id reason table =
     bind_res (require_non_blank ''operator_id'' operator_id) (\<lambda>operator_text.
       Inr (sql_update (\<lambda>r. sx_operator_id r = operator_text \<and> sx_revoked_at r = None) (revoke_session_row now reason) table))"

definition state_revoke_operator_organization ::
  "instant \<Rightarrow> string option \<Rightarrow> string option \<Rightarrow> string option \<Rightarrow> session_row list \<Rightarrow> auth_exc + nat \<times> session_row list" where
  "state_revoke_operator_organization now operator_id organization_id reason table =
     bind_res (require_non_blank ''operator_id'' operator_id) (\<lambda>operator_text.
     bind_res (require_non_blank ''organization_id'' organization_id) (\<lambda>organization.
       Inr (sql_update (\<lambda>r. sx_operator_id r = operator_text \<and> sx_organization_id r = Some organization \<and> sx_revoked_at r = None)
              (revoke_session_row now reason) table)))"

definition touch_session :: "(string \<Rightarrow> string) \<Rightarrow> instant \<Rightarrow> string option \<Rightarrow> session_row list \<Rightarrow> bool \<times> session_row list" where
  "touch_session sha256 now session_id table =
     (case session_id of None \<Rightarrow> (False, table)
      | Some sid \<Rightarrow>
          if sid = [] then (False, table)
          else (let (n, table') = sql_update (row_live sha256 now sid) (\<lambda>r. r\<lparr>sx_last_seen_at := now\<rparr>) table in (n > 0, table')))"

definition cleanup_sessions :: "instant \<Rightarrow> int \<Rightarrow> session_row list \<Rightarrow> nat \<times> session_row list" where
  "cleanup_sessions now revoked_retention_seconds table =
     sql_delete (\<lambda>r. sx_expires_at r \<le> now \<or>
       (case sx_revoked_at r of None \<Rightarrow> False | Some t \<Rightarrow> t \<le> now - seconds (max 0 revoked_retention_seconds))) table"

text \<open>
  The schema. \<open>ax_session_columns\<close> are the columns of \<^verbatim>\<open>auth_sessions\<close>: a file of the first version has no
  \<^verbatim>\<open>organization_id\<close> and \<^verbatim>\<open>role\<close>, and its rows read \<^verbatim>\<open>NULL\<close> once the columns are added.
\<close>

record auth_file =
  ax_session_columns :: "string list"
  ax_metadata :: "(string \<times> string \<times> instant) list"

definition created_columns :: "string list" where
  "created_columns = [''session_id_hash'', ''csrf_token_hash'', ''operator_id'', ''auth_mode'', ''created_at'', ''last_seen_at'',
     ''expires_at'', ''revoked_at'', ''revocation_reason'', ''client_key_hash'', ''user_agent_hash'']"

definition ensure_column :: "string \<Rightarrow> string list \<Rightarrow> string list" where
  "ensure_column column columns = (if column \<notin> set columns then columns @ [column] else columns)"

definition initialize_schema :: "instant \<Rightarrow> auth_file option \<Rightarrow> auth_file" where
  "initialize_schema now file =
     (let f = (case file of None \<Rightarrow> \<lparr>ax_session_columns = created_columns, ax_metadata = []\<rparr> | Some f \<Rightarrow> f) in
      \<lparr>ax_session_columns = ensure_column ''role'' (ensure_column ''organization_id'' (ax_session_columns f)),
       ax_metadata = dict_set ''schema_version'' (show_nat 2, now) (ax_metadata f)\<rparr>)"

definition get_schema_version :: "auth_file \<Rightarrow> int option" where
  "get_schema_version file =
     (case map_of (ax_metadata file) ''schema_version'' of None \<Rightarrow> None
      | Some (v, updated) \<Rightarrow> (case py_int v of Inl e \<Rightarrow> None | Inr n \<Rightarrow> Some n))"

subsection \<open>The table of login attempts\<close>

record attempt_row =
  la_client_key_hash :: string
  la_failure_count :: int
  la_first_failed_at :: instant
  la_last_failed_at :: instant
  la_locked_until :: "instant option"
  la_updated_at :: instant

record sqlite_login_attempt =
  sl_failure_count :: int
  sl_first_failed_at :: instant
  sl_last_failed_at :: instant
  sl_locked_until :: "instant option"
  sl_updated_at :: "instant option"

definition login_attempt_from_row :: "attempt_row \<Rightarrow> sqlite_login_attempt" where
  "login_attempt_from_row r =
     \<lparr>sl_failure_count = la_failure_count r, sl_first_failed_at = la_first_failed_at r,
      sl_last_failed_at = la_last_failed_at r, sl_locked_until = la_locked_until r, sl_updated_at = Some (la_updated_at r)\<rparr>"

definition login_attempt_expired :: "attempt_row \<Rightarrow> instant \<Rightarrow> int \<Rightarrow> bool" where
  "login_attempt_expired r now window =
     (case la_locked_until r of Some u \<Rightarrow> u \<le> now | None \<Rightarrow> la_last_failed_at r + seconds window \<le> now)"

definition record_login_failure ::
  "(string \<Rightarrow> string) \<Rightarrow> string option \<Rightarrow> instant \<Rightarrow> int \<Rightarrow> int \<Rightarrow> int \<Rightarrow> attempt_row list
     \<Rightarrow> sqlite_login_attempt \<times> attempt_row list" where
  "record_login_failure sha256 key now window_arg failures_arg lockout_arg table =
     (let key_hash = hash_client_key sha256 key; window = max 1 window_arg; threshold = max 1 failures_arg;
          lockout = max 1 lockout_arg;
          write = (\<lambda>failures first_failed.
            let locked = (if failures \<ge> threshold then Some (now + seconds lockout) else None) in
            (\<lparr>sl_failure_count = failures, sl_first_failed_at = first_failed, sl_last_failed_at = now,
              sl_locked_until = locked, sl_updated_at = Some now\<rparr>,
             insert_or_replace la_client_key_hash
               \<lparr>la_client_key_hash = key_hash, la_failure_count = failures, la_first_failed_at = first_failed,
                la_last_failed_at = now, la_locked_until = locked, la_updated_at = now\<rparr> table)) in
      case select_key la_client_key_hash key_hash table of
        None \<Rightarrow> write 1 now
      | Some r \<Rightarrow>
          if login_attempt_expired r now window then write 1 now
          else if (case la_locked_until r of None \<Rightarrow> False | Some u \<Rightarrow> u > now) then (login_attempt_from_row r, table)
          else write (la_failure_count r + 1) (la_first_failed_at r))"

definition get_login_attempt :: "(string \<Rightarrow> string) \<Rightarrow> string option \<Rightarrow> attempt_row list \<Rightarrow> sqlite_login_attempt option" where
  "get_login_attempt sha256 key table =
     map_option login_attempt_from_row (select_key la_client_key_hash (hash_client_key sha256 key) table)"

definition reset_login_attempt :: "(string \<Rightarrow> string) \<Rightarrow> string option \<Rightarrow> attempt_row list \<Rightarrow> bool \<times> attempt_row list" where
  "reset_login_attempt sha256 key table =
     (let (n, table') = sql_delete (\<lambda>r. la_client_key_hash r = hash_client_key sha256 key) table in (n > 0, table'))"

definition count_login_attempts :: "attempt_row list \<Rightarrow> nat" where
  "count_login_attempts table = length table"

definition cleanup_login_attempts :: "instant \<Rightarrow> int \<Rightarrow> attempt_row list \<Rightarrow> nat \<times> attempt_row list" where
  "cleanup_login_attempts now window_arg table =
     sql_delete (\<lambda>r. (case la_locked_until r of Some u \<Rightarrow> u \<le> now
       | None \<Rightarrow> la_last_failed_at r + seconds (max 1 window_arg) \<le> now)) table"

text \<open>\<^verbatim>\<open>locked_until IS NULL OR locked_until <= ?\<close>\<close>

definition prunable :: "instant \<Rightarrow> attempt_row \<Rightarrow> bool" where
  "prunable now r \<longleftrightarrow> (case la_locked_until r of None \<Rightarrow> True | Some u \<Rightarrow> u \<le> now)"

definition delete_attempts :: "string list \<Rightarrow> attempt_row list \<Rightarrow> nat \<times> attempt_row list" where
  "delete_attempts keys table =
     fold (\<lambda>k (deleted, t). let (n, t') = sql_delete (\<lambda>r. la_client_key_hash r = k) t in (deleted + n, t')) keys (0, table)"

text \<open>\<^verbatim>\<open>ORDER BY updated_at ASC LIMIT ?\<close>; rows updated at the same instant are in the order of their row numbers.\<close>

definition prune_login_attempts :: "int \<Rightarrow> instant \<Rightarrow> attempt_row list \<Rightarrow> nat \<times> attempt_row list" where
  "prune_login_attempts max_rows now table =
     (let limit = nat (max 1 max_rows); count = count_login_attempts table in
      if count \<le> limit then (0, table)
      else (let rows = take (count - limit) (sort_key la_updated_at (filter (prunable now) table)) in
            if rows = [] then (0, table) else delete_attempts (map la_client_key_hash rows) table))"

subsection \<open>The session store\<close>

record session_store =
  st_table :: "session_row list"
  st_csrf_cache :: "(string \<times> string) list"

definition admin_session_of :: "string \<Rightarrow> string \<Rightarrow> sqlite_session \<Rightarrow> admin_session" where
  "admin_session_of session_id csrf p =
     \<lparr>se_session_id = session_id, se_csrf_token = csrf, se_operator_id = ss_operator_id p, se_created_at = ss_created_at p,
      se_expires_at = ss_expires_at p, se_auth_mode = ss_auth_mode p, se_organization_id = ss_organization_id p, se_role = ss_role p\<rparr>"

definition sqlite_unique_session_id :: "(string \<Rightarrow> string) \<Rightarrow> instant \<Rightarrow> string list \<Rightarrow> string \<Rightarrow> session_row list \<Rightarrow> string" where
  "sqlite_unique_session_id sha256 now tokens fallback table =
     (case find (\<lambda>t. state_get_session sha256 now (Some t) table = None) (take 5 tokens) of Some t \<Rightarrow> t | None \<Rightarrow> fallback)"

definition sqlite_create_session ::
  "(string \<Rightarrow> string) \<Rightarrow> int \<Rightarrow> instant \<Rightarrow> string list \<Rightarrow> string \<Rightarrow> string \<Rightarrow> string \<Rightarrow> string \<Rightarrow> string option \<Rightarrow> string option
     \<Rightarrow> session_store \<Rightarrow> (auth_exc + admin_session) \<times> session_store" where
  "sqlite_create_session sha256 ttl_seconds now tokens fallback csrf operator_id auth_mode organization_id role st =
     (let sid = sqlite_unique_session_id sha256 now tokens fallback (st_table st) in
      case state_create_session sha256 (Some sid) (Some csrf) (Some operator_id) (Some auth_mode) organization_id role
             (now + seconds (effective_ttl ttl_seconds)) now None None (st_table st) of
        Inl e \<Rightarrow> (Inl e, st)
      | Inr (persisted, table) \<Rightarrow>
          (Inr (admin_session_of sid csrf persisted),
           st\<lparr>st_table := table, st_csrf_cache := dict_set sid csrf (st_csrf_cache st)\<rparr>))"

definition sqlite_get_session ::
  "(string \<Rightarrow> string) \<Rightarrow> instant \<Rightarrow> string option \<Rightarrow> session_store \<Rightarrow> admin_session option \<times> session_store" where
  "sqlite_get_session sha256 now session_id st =
     (case session_id of None \<Rightarrow> (None, st)
      | Some sid \<Rightarrow>
          if sid = [] then (None, st)
          else (case state_get_session sha256 now (Some sid) (st_table st) of
                  None \<Rightarrow> (None, st\<lparr>st_csrf_cache := dict_pop sid (st_csrf_cache st)\<rparr>)
                | Some p \<Rightarrow>
                    (Some (admin_session_of sid (case map_of (st_csrf_cache st) sid of None \<Rightarrow> [] | Some c \<Rightarrow> c) p), st)))"

definition sqlite_session_valid :: "(string \<Rightarrow> string) \<Rightarrow> instant \<Rightarrow> admin_session option \<Rightarrow> session_store \<Rightarrow> bool" where
  "sqlite_session_valid sha256 now session st =
     (case session of None \<Rightarrow> False
      | Some s \<Rightarrow>
          (case state_get_session sha256 now (Some (se_session_id s)) (st_table st) of None \<Rightarrow> False
           | Some p \<Rightarrow> ss_operator_id p = se_operator_id s \<and> ss_auth_mode p = se_auth_mode s \<and>
               ss_expires_at p = se_expires_at s \<and> ss_organization_id p = se_organization_id s \<and> ss_role p = se_role s))"

definition sqlite_invalidate_session ::
  "(string \<Rightarrow> string) \<Rightarrow> instant \<Rightarrow> string option \<Rightarrow> session_store \<Rightarrow> bool \<times> session_store" where
  "sqlite_invalidate_session sha256 now session_id st =
     (case session_id of None \<Rightarrow> (False, st)
      | Some sid \<Rightarrow>
          if sid = [] then (False, st)
          else (let (found, table) = state_revoke_session sha256 now (Some sid) (Some ''logout'') (st_table st) in
                (found, st\<lparr>st_table := table, st_csrf_cache := dict_pop sid (st_csrf_cache st)\<rparr>)))"

definition sqlite_purge_sessions :: "instant \<Rightarrow> session_store \<Rightarrow> nat \<times> session_store" where
  "sqlite_purge_sessions now st = (let (n, table) = cleanup_sessions now 0 (st_table st) in (n, st\<lparr>st_table := table\<rparr>))"

text \<open>The result of a statement on the table, put back into the store.\<close>

definition with_table :: "session_store \<Rightarrow> auth_exc + 'a \<times> session_row list \<Rightarrow> (auth_exc + 'a) \<times> session_store" where
  "with_table st r = (case r of Inl e \<Rightarrow> (Inl e, st) | Inr (x, table) \<Rightarrow> (Inr x, st\<lparr>st_table := table\<rparr>))"

definition sqlite_invalidate_operator :: "instant \<Rightarrow> string option \<Rightarrow> session_store \<Rightarrow> (auth_exc + nat) \<times> session_store" where
  "sqlite_invalidate_operator now operator_id st =
     with_table st (state_revoke_operator now operator_id (Some ''membership_revoked'') (st_table st))"

definition sqlite_invalidate_operator_organization ::
  "instant \<Rightarrow> string option \<Rightarrow> string option \<Rightarrow> session_store \<Rightarrow> (auth_exc + nat) \<times> session_store" where
  "sqlite_invalidate_operator_organization now operator_id organization_id st =
     with_table st (state_revoke_operator_organization now operator_id organization_id (Some ''membership_revoked'') (st_table st))"

definition csrf_token_for_session ::
  "(string \<Rightarrow> string) \<Rightarrow> instant \<Rightarrow> string \<Rightarrow> admin_session option \<Rightarrow> session_store \<Rightarrow> (auth_exc + string option) \<times> session_store" where
  "csrf_token_for_session sha256 now new_token session st =
     (case session of None \<Rightarrow> (Inr None, st)
      | Some s \<Rightarrow>
          (case map_of (st_csrf_cache st) (se_session_id s) of
             Some (c # cs) \<Rightarrow> (Inr (Some (c # cs)), st)
           | _ \<Rightarrow>
               (case state_update_csrf sha256 now (Some (se_session_id s)) (Some new_token) (st_table st) of
                  Inl e \<Rightarrow> (Inl e, st)
                | Inr (False, table) \<Rightarrow> (Inr None, st\<lparr>st_table := table\<rparr>)
                | Inr (True, table) \<Rightarrow>
                    (Inr (Some new_token),
                     st\<lparr>st_table := table, st_csrf_cache := dict_set (se_session_id s) new_token (st_csrf_cache st)\<rparr>))))"

definition verify_csrf_token ::
  "(string \<Rightarrow> string) \<Rightarrow> instant \<Rightarrow> string option \<Rightarrow> string option \<Rightarrow> session_store \<Rightarrow> (auth_exc + bool) \<times> session_store" where
  "verify_csrf_token sha256 now session_id csrf_token st =
     (case (session_id, csrf_token) of
        (Some sid, Some token) \<Rightarrow>
          if sid = [] \<or> token = [] then (Inr False, st)
          else (case (case map_of (st_csrf_cache st) sid of
                        Some (c # cs) \<Rightarrow> compare_digest_str (c # cs) token
                      | _ \<Rightarrow> Inr False) of
                  Inl e \<Rightarrow> (Inl e, st)
                | Inr True \<Rightarrow> (Inr True, st)
                | Inr False \<Rightarrow>
                    if \<not> state_verify_csrf sha256 now session_id csrf_token (st_table st) then (Inr False, st)
                    else (Inr True, st\<lparr>st_csrf_cache := dict_set sid token (st_csrf_cache st)\<rparr>))
      | _ \<Rightarrow> (Inr False, st))"

subsection \<open>The store of login attempts\<close>

definition login_record_from_sqlite :: "string \<Rightarrow> sqlite_login_attempt \<Rightarrow> login_record" where
  "login_record_from_sqlite key a =
     \<lparr>lr_client_key = key, lr_failure_count = sl_failure_count a, lr_first_failed_at = sl_first_failed_at a,
      lr_last_failed_at = sl_last_failed_at a, lr_locked_until = sl_locked_until a\<rparr>"

definition sqlite_record_failure ::
  "(string \<Rightarrow> string) \<Rightarrow> login_limits \<Rightarrow> instant \<Rightarrow> string option \<Rightarrow> attempt_row list \<Rightarrow> login_record \<times> attempt_row list" where
  "sqlite_record_failure sha256 limits now key table =
     (let k = client_key key;
          (a, table1) = record_login_failure sha256 (Some k) now (window_seconds limits) (max_failures limits)
             (lockout_seconds limits) table;
          (n, table2) = prune_login_attempts (int (max_keys limits)) now table1 in
      (login_record_from_sqlite k a, table2))"

definition sqlite_is_expired :: "login_limits \<Rightarrow> sqlite_login_attempt \<Rightarrow> instant \<Rightarrow> bool" where
  "sqlite_is_expired limits a now =
     (case sl_locked_until a of Some u \<Rightarrow> u \<le> now
      | None \<Rightarrow> sl_last_failed_at a + seconds (window_seconds limits) \<le> now)"

definition sqlite_purge_expired :: "login_limits \<Rightarrow> instant \<Rightarrow> attempt_row list \<Rightarrow> nat \<times> attempt_row list" where
  "sqlite_purge_expired limits now table = cleanup_login_attempts now (window_seconds limits) table"

definition sqlite_is_locked ::
  "(string \<Rightarrow> string) \<Rightarrow> login_limits \<Rightarrow> instant \<Rightarrow> string option \<Rightarrow> attempt_row list \<Rightarrow> bool \<times> attempt_row list" where
  "sqlite_is_locked sha256 limits now key table =
     (case get_login_attempt sha256 (Some (client_key key)) table of None \<Rightarrow> (False, table)
      | Some a \<Rightarrow>
          if sqlite_is_expired limits a now then (False, snd (sqlite_purge_expired limits now table))
          else ((case sl_locked_until a of None \<Rightarrow> False | Some u \<Rightarrow> u > now), table))"

definition sqlite_seconds_until_unlock ::
  "(string \<Rightarrow> string) \<Rightarrow> login_limits \<Rightarrow> instant \<Rightarrow> string option \<Rightarrow> attempt_row list \<Rightarrow> int \<times> attempt_row list" where
  "sqlite_seconds_until_unlock sha256 limits now key table =
     (case get_login_attempt sha256 (Some (client_key key)) table of None \<Rightarrow> (0, table)
      | Some a \<Rightarrow>
          (case sl_locked_until a of None \<Rightarrow> (0, table)
           | Some u \<Rightarrow>
               if u \<le> now then (0, snd (sqlite_purge_expired limits now table))
               else (max 0 (ceil_seconds (u - now)), table)))"

definition sqlite_reset_success :: "(string \<Rightarrow> string) \<Rightarrow> string option \<Rightarrow> attempt_row list \<Rightarrow> bool \<times> attempt_row list" where
  "sqlite_reset_success sha256 key table = reset_login_attempt sha256 (Some (client_key key)) table"

definition sqlite_failure_count ::
  "(string \<Rightarrow> string) \<Rightarrow> login_limits \<Rightarrow> instant \<Rightarrow> string option \<Rightarrow> attempt_row list \<Rightarrow> int \<times> attempt_row list" where
  "sqlite_failure_count sha256 limits now key table =
     (case get_login_attempt sha256 (Some (client_key key)) table of None \<Rightarrow> (0, table)
      | Some a \<Rightarrow>
          if sqlite_is_expired limits a now then (0, snd (sqlite_purge_expired limits now table))
          else (sl_failure_count a, table))"

definition sqlite_record_count :: "attempt_row list \<Rightarrow> nat" where
  "sqlite_record_count table = count_login_attempts table"

end
