(* ===== verification/Auth_State_Refinement.thy ===== *)
theory Auth_State_Refinement
  imports Auth_State_Sqlite
begin

section \<open>The SQLite stores against the in-memory stores\<close>

text \<open>
  The contract the two session stores share is the locale \<open>session_provider\<close>: a session that is shut is not returned and
  stays shut until its identifier is issued again; both stores are instances. The attempt store over SQLite is shown to give
  the answers of the dictionary store as long as the number of clients stays within the limit, operation by operation over
  what is not expired. Beyond the limit they differ: what SQLite does then is a theorem too.
\<close>

subsection \<open>The contract of a session store\<close>

text \<open>
  \<open>shut\<close>: the store will not return the session. Only an operation that issues the identifier can open it again.
\<close>

locale session_provider =
  fixes look_up :: "instant \<Rightarrow> string \<Rightarrow> 's \<Rightarrow> admin_session option"
    and exec :: "instant \<Rightarrow> 'op \<Rightarrow> 's \<Rightarrow> 's"
    and issues_id :: "string \<Rightarrow> 'op \<Rightarrow> bool"
    and shut :: "string \<Rightarrow> 's \<Rightarrow> bool"
  assumes shut_not_returned: "shut sid s \<Longrightarrow> look_up now sid s = None"
    and shut_stays: "\<not> issues_id sid op \<Longrightarrow> shut sid s \<Longrightarrow> shut sid (exec now op s)"
begin

lemma shut_run:
  "list_all (\<lambda>(t, op). \<not> issues_id sid op) ops \<Longrightarrow> shut sid s \<Longrightarrow> shut sid (fold (\<lambda>(t, op). exec t op) ops s)"
  by (induction ops arbitrary: s) (auto intro: shut_stays)

lemma never_returned:
  "list_all (\<lambda>(t, op). \<not> issues_id sid op) ops \<Longrightarrow> shut sid s \<Longrightarrow> look_up now sid (fold (\<lambda>(t, op). exec t op) ops s) = None"
  by (intro shut_not_returned shut_run)

end

interpretation memory: session_provider
  "\<lambda>now sid s. fst (get_session now (Some sid) s)" session_exec session_creates "\<lambda>sid s. map_of s sid = None"
proof
  show "map_of s sid = None \<Longrightarrow> fst (get_session now (Some sid) s) = None" for sid s now
    by (simp add: get_session_def)
  show "map_of (session_exec now op s) sid = None" if "\<not> session_creates sid op" "map_of s sid = None" for sid op s now
    using session_exec_lookup [OF that(1), of now s] that(2) by simp
qed

subsection \<open>Rows by primary key\<close>

lemma select_key_Some: "select_key key k rows = Some r \<Longrightarrow> r \<in> set rows \<and> key r = k"
  unfolding select_key_def using find_Some_iff_first by fastforce

lemma select_key_None: "select_key key k rows = None \<longleftrightarrow> k \<notin> key ` set rows"
  unfolding select_key_def find_None_iff_all by auto

lemma select_key_snoc:
  "select_key key k (rows @ [row]) =
     (case select_key key k rows of None \<Rightarrow> if key row = k then Some row else None | Some r \<Rightarrow> Some r)"
  unfolding select_key_def by (induction rows) auto

lemma select_key_filter:
  "distinct (map key rows) \<Longrightarrow>
   select_key key k (filter P rows) = (case select_key key k rows of None \<Rightarrow> None | Some r \<Rightarrow> if P r then Some r else None)"
proof (induction rows)
  case (Cons x rows)
  show ?case
  proof (cases "key x = k")
    case True
    then have "select_key key k (filter P rows) = None" using Cons.prems by (auto simp: select_key_None)
    then show ?thesis using True by (simp add: select_key_def)
  next
    case False
    then show ?thesis using Cons by (simp add: select_key_def)
  qed
qed (simp add: select_key_def)

lemma select_key_replace:
  assumes "distinct (map key rows)"
  shows "select_key key k (insert_or_replace key row rows) = (if key row = k then Some row else select_key key k rows)"
  using assms select_key_Some [of key k rows]
  by (auto simp: insert_or_replace_def select_key_snoc select_key_filter split: option.splits)

lemma distinct_insert_or_replace:
  "distinct (map key rows) \<Longrightarrow> distinct (map key (insert_or_replace key row rows))"
  by (auto simp: insert_or_replace_def distinct_map_filter)

lemma keys_replace: "key ` set (insert_or_replace key row rows) \<subseteq> insert (key row) (key ` set rows)"
  by (auto simp: insert_or_replace_def)

lemma distinct_length_le:
  "distinct (map key rows) \<Longrightarrow> key ` set rows \<subseteq> A \<Longrightarrow> finite A \<Longrightarrow> length rows \<le> card A"
  by (metis card_mono distinct_card length_map list.set_map)

subsection \<open>Login attempts: agreement\<close>

lemma py_strip_idem [simp]: "py_strip (py_strip s) = py_strip s"
proof -
  have idem: "dropWhile is_space (dropWhile is_space xs) = dropWhile is_space xs" for xs
    by (induction xs) auto
  define a where "a = dropWhile is_space s"
  define b where "b = py_strip s"
  have b: "b = rev (dropWhile is_space (rev a))" by (simp add: a_def b_def py_strip_def)
  have "\<exists>t. a = b @ t"
    unfolding b by (metis rev_append rev_rev_ident takeWhile_dropWhile_id)
  moreover have "a \<noteq> [] \<Longrightarrow> \<not> is_space (hd a)" unfolding a_def by (rule hd_dropWhile)
  ultimately have "dropWhile is_space b = b" by (cases b) fastforce+
  then show ?thesis using idem [of "rev a"] unfolding b_def [symmetric] by (simp add: py_strip_def b)
qed

lemma client_key_idem [simp]: "client_key (Some (client_key key)) = client_key key"
proof -
  have "py_strip ''unknown'' = ''unknown''" by code_simp
  then show ?thesis by (auto simp: client_key_def Let_def split: option.splits)
qed

lemma hash_client_key_normal: "hash_client_key sha256 key = hash_value sha256 ''client_key'' (Some (client_key key))"
  by (simp add: hash_client_key_def client_key_def)

definition key_hash :: "(string \<Rightarrow> string) \<Rightarrow> string \<Rightarrow> string" where
  "key_hash sha256 k = hash_client_key sha256 (Some k)"

text \<open>What each store knows of a client and is not expired.\<close>

definition dict_live :: "login_limits \<Rightarrow> instant \<Rightarrow> login_dict \<Rightarrow> string \<Rightarrow> login_record option" where
  "dict_live limits now d k =
     (case map_of d k of None \<Rightarrow> None | Some r \<Rightarrow> if is_expired limits r now then None else Some r)"

definition record_of_row :: "string \<Rightarrow> attempt_row \<Rightarrow> login_record" where
  "record_of_row k r = login_record_from_sqlite k (login_attempt_from_row r)"

definition table_live :: "(string \<Rightarrow> string) \<Rightarrow> login_limits \<Rightarrow> instant \<Rightarrow> attempt_row list \<Rightarrow> string \<Rightarrow> login_record option" where
  "table_live sha256 limits now table k =
     (case select_key la_client_key_hash (key_hash sha256 k) table of None \<Rightarrow> None
      | Some r \<Rightarrow> if is_expired limits (record_of_row k r) now then None else Some (record_of_row k r))"

definition dict_keys_ok :: "string set \<Rightarrow> login_dict \<Rightarrow> bool" where
  "dict_keys_ok K d \<longleftrightarrow> dict_ok d \<and> fst ` set d \<subseteq> K \<and> list_all (\<lambda>(k, r). lr_client_key r = k) d"

definition table_keys_ok :: "(string \<Rightarrow> string) \<Rightarrow> string set \<Rightarrow> attempt_row list \<Rightarrow> bool" where
  "table_keys_ok sha256 K table \<longleftrightarrow>
     distinct (map la_client_key_hash table) \<and> la_client_key_hash ` set table \<subseteq> key_hash sha256 ` K"

definition stores_agree :: "(string \<Rightarrow> string) \<Rightarrow> login_limits \<Rightarrow> string set \<Rightarrow> instant \<Rightarrow> login_dict \<Rightarrow> attempt_row list \<Rightarrow> bool" where
  "stores_agree sha256 limits K now d table \<longleftrightarrow> dict_keys_ok K d \<and> table_keys_ok sha256 K table \<and>
     (\<forall>k \<in> K. dict_live limits now d k = table_live sha256 limits now table k)"

lemma expired_row:
  "sqlite_is_expired limits (login_attempt_from_row r) now = is_expired limits (record_of_row k r) now"
  "login_attempt_expired r now (window_seconds limits) = is_expired limits (record_of_row k r) now"
  by (simp_all add: sqlite_is_expired_def login_attempt_expired_def is_expired_def record_of_row_def login_record_from_sqlite_def
      login_attempt_from_row_def split: option.splits)

lemma record_of_row_fields [simp]:
  "lr_client_key (record_of_row k r) = k" "lr_failure_count (record_of_row k r) = la_failure_count r"
  "lr_first_failed_at (record_of_row k r) = la_first_failed_at r" "lr_last_failed_at (record_of_row k r) = la_last_failed_at r"
  "lr_locked_until (record_of_row k r) = la_locked_until r"
  by (simp_all add: record_of_row_def login_record_from_sqlite_def login_attempt_from_row_def)

lemma is_expired_mono: "is_expired limits r now \<Longrightarrow> now \<le> now' \<Longrightarrow> is_expired limits r now'"
  by (auto simp: is_expired_def split: option.splits)

lemma dict_live_later:
  "now \<le> now' \<Longrightarrow> dict_live limits now' d k =
     (case dict_live limits now d k of None \<Rightarrow> None | Some r \<Rightarrow> if is_expired limits r now' then None else Some r)"
  by (auto simp: dict_live_def is_expired_mono split: option.splits)

lemma table_live_later:
  "now \<le> now' \<Longrightarrow> table_live sha256 limits now' table k =
     (case table_live sha256 limits now table k of None \<Rightarrow> None | Some r \<Rightarrow> if is_expired limits r now' then None else Some r)"
  by (auto simp: table_live_def is_expired_mono split: option.splits)

lemma stores_agree_later: "stores_agree sha256 limits K now d table \<Longrightarrow> now \<le> now' \<Longrightarrow> stores_agree sha256 limits K now' d table"
  by (simp add: stores_agree_def dict_live_later table_live_later)

subsection \<open>Login attempts: operations\<close>

lemma next_record_live: "next_record limits now k (map_of d k) = next_record limits now k (dict_live limits now d k)"
  by (auto simp: next_record_def dict_live_def split: option.splits)

lemma next_record_locked:
  "lr_client_key r = k \<Longrightarrow> lr_locked_until r = Some u \<Longrightarrow> now < u \<Longrightarrow> next_record limits now k (Some r) = r"
  by (simp add: next_record_def is_expired_def)

definition limits_ok :: "login_limits \<Rightarrow> bool" where
  "limits_ok limits \<longleftrightarrow> 1 \<le> window_seconds limits \<and> 1 \<le> max_failures limits \<and> 1 \<le> lockout_seconds limits \<and> 1 \<le> max_keys limits"

lemma make_limits_ok [simp]: "limits_ok (make_limits w f l m)"
  by (auto simp: limits_ok_def make_limits_def)

text \<open>One failure writes the record the in-memory store would write, or leaves a locked one.\<close>

lemma record_login_failure_cases:
  assumes "limits_ok limits"
  obtains (Write) row where "record_of_row k row = next_record limits now k (table_live sha256 limits now table k)"
      "la_client_key_hash row = key_hash sha256 k" "la_updated_at row = now" "la_last_failed_at row = now"
      "la_locked_until row = lock_after limits now (la_failure_count row)"
      "record_login_failure sha256 (Some k) now (window_seconds limits) (max_failures limits) (lockout_seconds limits) table =
         (login_attempt_from_row row, insert_or_replace la_client_key_hash row table)"
  | (Locked) row where "select_key la_client_key_hash (key_hash sha256 k) table = Some row"
      "record_of_row k row = next_record limits now k (table_live sha256 limits now table k)"
      "\<not> prunable now row"
      "record_login_failure sha256 (Some k) now (window_seconds limits) (max_failures limits) (lockout_seconds limits) table =
         (login_attempt_from_row row, table)"
proof -
  let ?sel = "select_key la_client_key_hash (key_hash sha256 k) table"
  let ?new = "\<lambda>n t. \<lparr>la_client_key_hash = key_hash sha256 k, la_failure_count = n, la_first_failed_at = t,
    la_last_failed_at = now, la_locked_until = lock_after limits now n, la_updated_at = now\<rparr>"
  have bounds: "max 1 (window_seconds limits) = window_seconds limits" "max 1 (max_failures limits) = max_failures limits"
      "max 1 (lockout_seconds limits) = lockout_seconds limits" using assms by (auto simp: limits_ok_def)
  note defs = record_login_failure_def Let_def bounds key_hash_def lock_after_def login_attempt_from_row_def
    login_record_from_sqlite_def record_of_row_def table_live_def next_record_def
  show thesis
  proof (cases ?sel)
    case None
    show thesis by (rule Write [of "?new 1 now"]) (use None in \<open>simp_all add: defs\<close>)
  next
    case (Some r)
    show thesis
    proof (cases "is_expired limits (record_of_row k r) now")
      case True
      show thesis
        by (rule Write [of "?new 1 now"]) (use Some True expired_row(2) [of r now limits k] in \<open>simp_all add: defs\<close>)
    next
      case live: False
      show thesis
      proof (cases "prunable now r")
        case True
        then have u: "la_locked_until r = None"
          using live by (auto simp: prunable_def is_expired_def split: option.splits)
        show thesis
          by (rule Write [of "?new (la_failure_count r + 1) (la_first_failed_at r)"])
            (use Some live u expired_row(2) [of r now limits k] in \<open>simp_all add: defs\<close>)
      next
        case False
        then obtain u where u: "la_locked_until r = Some u" "now < u" by (auto simp: prunable_def split: option.splits)
        show thesis
        proof (rule Locked [of r])
          show "record_of_row k r = next_record limits now k (table_live sha256 limits now table k)"
            using Some live u by (simp add: table_live_def next_record_locked)
          show "record_login_failure sha256 (Some k) now (window_seconds limits) (max_failures limits) (lockout_seconds limits) table =
              (login_attempt_from_row r, table)"
            using Some live u expired_row(2) [of r now limits k] by (simp add: record_login_failure_def Let_def bounds key_hash_def)
        qed (use Some False in auto)
      qed
    qed
  qed
qed

lemma prune_within: "length table \<le> max_keys limits \<Longrightarrow> prune_login_attempts (int (max_keys limits)) now table = (0, table)"
  by (simp add: prune_login_attempts_def count_login_attempts_def Let_def)

lemma table_length:
  assumes "table_keys_ok sha256 K table" "finite K"
  shows "length table \<le> card K"
  using assms distinct_length_le [of la_client_key_hash table "key_hash sha256 ` K"] card_image_le [of K "key_hash sha256"]
  by (force simp: table_keys_ok_def)

lemma dict_length:
  assumes "dict_keys_ok K d" "finite K"
  shows "length d \<le> card K"
  using assms distinct_length_le [of fst d K] by (simp add: dict_keys_ok_def dict_ok_def)


lemma table_keys_replace:
  assumes "table_keys_ok sha256 K table" "la_client_key_hash row \<in> key_hash sha256 ` K"
  shows "table_keys_ok sha256 K (insert_or_replace la_client_key_hash row table)"
  unfolding table_keys_ok_def
proof
  show "distinct (map la_client_key_hash (insert_or_replace la_client_key_hash row table))"
    using assms(1) by (intro distinct_insert_or_replace) (simp add: table_keys_ok_def)
  show "la_client_key_hash ` set (insert_or_replace la_client_key_hash row table) \<subseteq> key_hash sha256 ` K"
    by (rule order_trans [OF keys_replace]) (use assms in \<open>simp add: table_keys_ok_def\<close>)
qed

definition live_record :: "login_limits \<Rightarrow> instant \<Rightarrow> login_record \<Rightarrow> login_record option" where
  "live_record limits now r = (if is_expired limits r now then None else Some r)"

lemma dict_failure:
  assumes "dict_keys_ok K d" "client_key key \<in> K" "finite K" "card K \<le> max_keys limits"
    and "r = next_record limits now (client_key key) (dict_live limits now d (client_key key))"
  shows "\<exists>d'. record_failure limits now key d = (r, d') \<and> dict_keys_ok K d' \<and>
    (\<forall>k. dict_live limits now d' k = (if k = client_key key then live_record limits now r else dict_live limits now d k))"
proof -
  let ?k = "client_key key"
  have "lr_client_key r = ?k"
    using assms(1,5) map_of_SomeD [of d ?k]
    by (fastforce simp: dict_keys_ok_def list_all_iff dict_live_def next_record_def split: option.splits)
  then have ok: "dict_keys_ok K (dict_set ?k r d)"
    using assms(1,2) dict_set_subset [of ?k r d] by (auto simp: dict_keys_ok_def list_all_iff dict_set_keys)
  have "evict_oldest_keys (max_keys limits) (dict_set ?k r d) = dict_set ?k r d"
    using dict_length [OF ok assms(3)] assms(4) by (intro evict_id) simp
  then show ?thesis
    using ok assms(5) by (auto simp: record_failure_def Let_def next_record_live dict_live_def live_record_def)
qed

lemma table_failure:
  assumes "table_keys_ok sha256 K table" "client_key key \<in> K" "finite K" "card K \<le> max_keys limits"
    and "limits_ok limits" "inj_on (key_hash sha256) K"
    and "r = next_record limits now (client_key key) (table_live sha256 limits now table (client_key key))"
  shows "\<exists>table'. sqlite_record_failure sha256 limits now key table = (r, table') \<and> table_keys_ok sha256 K table' \<and>
    (\<forall>k \<in> K. table_live sha256 limits now table' k =
       (if k = client_key key then live_record limits now r else table_live sha256 limits now table k))"
proof -
  let ?k = "client_key key"
  have within: "prune_login_attempts (int (max_keys limits)) now t = (0, t)" if "table_keys_ok sha256 K t" for t
    using table_length [OF that assms(3)] assms(4) by (intro prune_within) simp
  show ?thesis
  proof (rule record_login_failure_cases [OF assms(5), of ?k now sha256 table], goal_cases)
    case (1 row)
    note Write = 1
    let ?t = "insert_or_replace la_client_key_hash row table"
    have ok: "table_keys_ok sha256 K ?t"
      using assms(2) Write(2) by (intro table_keys_replace [OF assms(1)]) simp
    have "table_live sha256 limits now ?t k = (if k = ?k then live_record limits now r else table_live sha256 limits now table k)"
      if "k \<in> K" for k
    proof -
      have "key_hash sha256 ?k = key_hash sha256 k \<longleftrightarrow> k = ?k"
        using inj_onD [OF assms(6) _ assms(2) that] by metis
      then show ?thesis
        using assms(1,7) Write(1,2)
        by (simp add: table_live_def select_key_replace table_keys_ok_def live_record_def)
    qed
    then show ?thesis
      using Write(1,6) assms(7) ok within [OF ok] by (simp add: sqlite_record_failure_def Let_def record_of_row_def)
  next
    case (2 row)
    note Locked = 2
    have "table_live sha256 limits now table ?k = live_record limits now r"
      using Locked(1,2) assms(7) by (simp add: table_live_def live_record_def)
    then show ?thesis
      using Locked(2,4) assms(1,7) within [OF assms(1)] by (simp add: sqlite_record_failure_def Let_def record_of_row_def)
  qed
qed

text \<open>Dropping expired entries, all of them or one, changes nothing that is live.\<close>

lemma dict_live_pop: "dict_live limits now (dict_pop k d) k' = (if k' = k then None else dict_live limits now d k')"
  by (simp add: dict_live_def)

lemma dict_keys_subset: "dict_keys_ok K d \<Longrightarrow> dict_ok d' \<Longrightarrow> set d' \<subseteq> set d \<Longrightarrow> dict_keys_ok K d'"
  by (auto simp: dict_keys_ok_def list_all_iff)

lemma dict_keys_pop: "dict_keys_ok K d \<Longrightarrow> dict_keys_ok K (dict_pop k d)"
  by (rule dict_keys_subset [OF _ _ dict_pop_subset]) (simp_all add: dict_keys_ok_def)

lemma dict_purge:
  assumes "dict_keys_ok K d"
  shows "dict_keys_ok K (snd (purge_expired limits now d))"
    "dict_live limits now (snd (purge_expired limits now d)) k = dict_live limits now d k"
proof -
  have "dict_ok d" using assms by (simp add: dict_keys_ok_def)
  then show "dict_keys_ok K (snd (purge_expired limits now d))"
    using dict_keys_subset [OF assms _ pop_keys_subset] by (simp add: purge_expired_def Let_def)
  show "dict_live limits now (snd (purge_expired limits now d)) k = dict_live limits now d k"
  proof (cases "map_of d k")
    case (Some r)
    have only: "b = r" if "(k, b) \<in> set d" for b using dict_ok_map_of [OF \<open>dict_ok d\<close> that] Some by simp
    have "k \<in> fst ` set (filter (\<lambda>(k, r). is_expired limits r now) d) \<longleftrightarrow> is_expired limits r now"
      using map_of_SomeD [OF Some] by (auto simp: image_iff dest: only)
    then show ?thesis using Some by (simp add: purge_expired_def Let_def dict_live_def pop_keys_lookup)
  qed (simp add: purge_expired_def Let_def dict_live_def pop_keys_lookup)
qed

lemma table_keys_filter: "table_keys_ok sha256 K table \<Longrightarrow> table_keys_ok sha256 K (filter P table)"
  by (auto simp: table_keys_ok_def distinct_map_filter)

lemma table_purge:
  assumes "table_keys_ok sha256 K table" "limits_ok limits"
  shows "table_keys_ok sha256 K (snd (sqlite_purge_expired limits now table))"
    "table_live sha256 limits now (snd (sqlite_purge_expired limits now table)) k = table_live sha256 limits now table k"
proof -
  have purge: "snd (sqlite_purge_expired limits now table) = filter (\<lambda>r. \<not> is_expired limits (record_of_row k r) now) table"
    using assms(2)
    by (auto simp: sqlite_purge_expired_def cleanup_login_attempts_def sql_delete_def is_expired_def limits_ok_def
        intro!: filter_cong split: option.splits)
  show "table_keys_ok sha256 K (snd (sqlite_purge_expired limits now table))"
    unfolding purge by (rule table_keys_filter [OF assms(1)])
  show "table_live sha256 limits now (snd (sqlite_purge_expired limits now table)) k = table_live sha256 limits now table k"
    using assms(1) unfolding purge by (simp add: table_live_def select_key_filter table_keys_ok_def split: option.splits)
qed


subsection \<open>Login attempts: the answers\<close>

definition lock_answer :: "login_record option \<Rightarrow> bool" where
  "lock_answer live = (case live of None \<Rightarrow> False | Some r \<Rightarrow> lr_locked_until r \<noteq> None)"

definition wait_answer :: "instant \<Rightarrow> login_record option \<Rightarrow> int" where
  "wait_answer now live =
     (case live of None \<Rightarrow> 0 | Some r \<Rightarrow> (case lr_locked_until r of None \<Rightarrow> 0 | Some u \<Rightarrow> max 0 (ceil_seconds (u - now))))"

definition count_answer :: "login_record option \<Rightarrow> int" where
  "count_answer live = (case live of None \<Rightarrow> 0 | Some r \<Rightarrow> lr_failure_count r)"

text \<open>A query answers from what is live; it may drop what is not.\<close>

definition dict_query :: "login_limits \<Rightarrow> instant \<Rightarrow> string set \<Rightarrow> login_dict \<Rightarrow> login_dict \<Rightarrow> bool" where
  "dict_query limits now K d d' \<longleftrightarrow> (dict_keys_ok K d \<longrightarrow> dict_keys_ok K d') \<and> dict_live limits now d' = dict_live limits now d"

lemma dict_query_pop:
  "map_of d k = Some r \<Longrightarrow> is_expired limits r now \<Longrightarrow> dict_query limits now K d (dict_pop k d)"
  using dict_keys_pop by (auto simp: dict_query_def dict_live_pop dict_live_def fun_eq_iff)

lemma dict_query_refl [simp]: "dict_query limits now K d d"
  by (simp add: dict_query_def)

lemma dict_answers:
  shows "fst (is_locked limits now key d) = lock_answer (dict_live limits now d (client_key key))"
    and "dict_query limits now K d (snd (is_locked limits now key d))"
    and "fst (seconds_until_unlock now key d) = wait_answer now (dict_live limits now d (client_key key))"
    and "dict_query limits now K d (snd (seconds_until_unlock now key d))"
    and "fst (failure_count limits now key d) = count_answer (dict_live limits now d (client_key key))"
    and "dict_query limits now K d (snd (failure_count limits now key d))"
  by (auto simp: is_locked_def seconds_until_unlock_def failure_count_def lock_answer_def wait_answer_def count_answer_def
      dict_live_def is_expired_def Let_def intro!: dict_query_pop split: option.splits)

definition table_query :: "(string \<Rightarrow> string) \<Rightarrow> login_limits \<Rightarrow> instant \<Rightarrow> string set \<Rightarrow> attempt_row list \<Rightarrow> attempt_row list \<Rightarrow> bool" where
  "table_query sha256 limits now K table table' \<longleftrightarrow>
     table_keys_ok sha256 K table' \<and> table_live sha256 limits now table' = table_live sha256 limits now table"

lemma table_answers:
  assumes "table_keys_ok sha256 K table" "limits_ok limits"
  shows "fst (sqlite_is_locked sha256 limits now key table) = lock_answer (table_live sha256 limits now table (client_key key))"
    and "table_query sha256 limits now K table (snd (sqlite_is_locked sha256 limits now key table))"
    and "fst (sqlite_seconds_until_unlock sha256 limits now key table) =
       wait_answer now (table_live sha256 limits now table (client_key key))"
    and "table_query sha256 limits now K table (snd (sqlite_seconds_until_unlock sha256 limits now key table))"
    and "fst (sqlite_failure_count sha256 limits now key table) = count_answer (table_live sha256 limits now table (client_key key))"
    and "table_query sha256 limits now K table (snd (sqlite_failure_count sha256 limits now key table))"
proof -
  have purge: "table_query sha256 limits now K table (snd (sqlite_purge_expired limits now table))"
    using table_purge [OF assms] by (simp add: table_query_def fun_eq_iff)
  have same: "table_query sha256 limits now K table table" using assms by (simp add: table_query_def)
  note defs = sqlite_is_locked_def sqlite_seconds_until_unlock_def sqlite_failure_count_def lock_answer_def wait_answer_def
    count_answer_def table_live_def get_login_attempt_def expired_row(1) [where k = "client_key key"] key_hash_def Let_def
  have u: "sl_locked_until (login_attempt_from_row r) = la_locked_until r"
      "sl_failure_count (login_attempt_from_row r) = la_failure_count r" for r
    by (simp_all add: login_attempt_from_row_def)
  show "fst (sqlite_is_locked sha256 limits now key table) = lock_answer (table_live sha256 limits now table (client_key key))"
    "fst (sqlite_seconds_until_unlock sha256 limits now key table) =
       wait_answer now (table_live sha256 limits now table (client_key key))"
    "fst (sqlite_failure_count sha256 limits now key table) = count_answer (table_live sha256 limits now table (client_key key))"
    by (auto simp: defs u is_expired_def split: option.splits)
  show "table_query sha256 limits now K table (snd (sqlite_is_locked sha256 limits now key table))"
    "table_query sha256 limits now K table (snd (sqlite_seconds_until_unlock sha256 limits now key table))"
    "table_query sha256 limits now K table (snd (sqlite_failure_count sha256 limits now key table))"
    using purge same by (auto simp: defs u split: option.splits)
qed

datatype login_answer = FailureRecorded login_record | LockState bool | WaitTime int | FailureTotal int | Unreported

fun login_outcome :: "login_limits \<Rightarrow> instant \<Rightarrow> login_op \<Rightarrow> login_dict \<Rightarrow> login_answer" where
  "login_outcome limits now (LoginFailure key) d = FailureRecorded (fst (record_failure limits now key d))"
| "login_outcome limits now (LoginIsLocked key) d = LockState (fst (is_locked limits now key d))"
| "login_outcome limits now (LoginSeconds key) d = WaitTime (fst (seconds_until_unlock now key d))"
| "login_outcome limits now (LoginCount key) d = FailureTotal (fst (failure_count limits now key d))"
| "login_outcome limits now _ d = Unreported"

fun login_outcomes :: "login_limits \<Rightarrow> (instant \<times> login_op) list \<Rightarrow> login_dict \<Rightarrow> login_answer list" where
  "login_outcomes limits [] d = []"
| "login_outcomes limits ((now, op) # ops) d = login_outcome limits now op d # login_outcomes limits ops (login_exec limits now op d)"

fun sqlite_login_exec :: "(string \<Rightarrow> string) \<Rightarrow> login_limits \<Rightarrow> instant \<Rightarrow> login_op \<Rightarrow> attempt_row list \<Rightarrow> attempt_row list" where
  "sqlite_login_exec sha256 limits now (LoginFailure key) t = snd (sqlite_record_failure sha256 limits now key t)"
| "sqlite_login_exec sha256 limits now (LoginIsLocked key) t = snd (sqlite_is_locked sha256 limits now key t)"
| "sqlite_login_exec sha256 limits now (LoginSeconds key) t = snd (sqlite_seconds_until_unlock sha256 limits now key t)"
| "sqlite_login_exec sha256 limits now (LoginReset key) t = snd (sqlite_reset_success sha256 key t)"
| "sqlite_login_exec sha256 limits now LoginPurge t = snd (sqlite_purge_expired limits now t)"
| "sqlite_login_exec sha256 limits now (LoginCount key) t = snd (sqlite_failure_count sha256 limits now key t)"

fun sqlite_login_outcome :: "(string \<Rightarrow> string) \<Rightarrow> login_limits \<Rightarrow> instant \<Rightarrow> login_op \<Rightarrow> attempt_row list \<Rightarrow> login_answer" where
  "sqlite_login_outcome sha256 limits now (LoginFailure key) t = FailureRecorded (fst (sqlite_record_failure sha256 limits now key t))"
| "sqlite_login_outcome sha256 limits now (LoginIsLocked key) t = LockState (fst (sqlite_is_locked sha256 limits now key t))"
| "sqlite_login_outcome sha256 limits now (LoginSeconds key) t = WaitTime (fst (sqlite_seconds_until_unlock sha256 limits now key t))"
| "sqlite_login_outcome sha256 limits now (LoginCount key) t = FailureTotal (fst (sqlite_failure_count sha256 limits now key t))"
| "sqlite_login_outcome sha256 limits now _ t = Unreported"

fun sqlite_login_outcomes ::
  "(string \<Rightarrow> string) \<Rightarrow> login_limits \<Rightarrow> (instant \<times> login_op) list \<Rightarrow> attempt_row list \<Rightarrow> login_answer list" where
  "sqlite_login_outcomes sha256 limits [] t = []"
| "sqlite_login_outcomes sha256 limits ((now, op) # ops) t =
     sqlite_login_outcome sha256 limits now op t # sqlite_login_outcomes sha256 limits ops (sqlite_login_exec sha256 limits now op t)"

fun op_clients :: "login_op \<Rightarrow> string set" where
  "op_clients (LoginFailure key) = {client_key key}"
| "op_clients (LoginIsLocked key) = {client_key key}"
| "op_clients (LoginSeconds key) = {client_key key}"
| "op_clients (LoginReset key) = {client_key key}"
| "op_clients LoginPurge = {}"
| "op_clients (LoginCount key) = {client_key key}"

lemma agree_failure:
  assumes "stores_agree sha256 limits K now d table" "client_key key \<in> K" "finite K" "card K \<le> max_keys limits"
    and "limits_ok limits" "inj_on (key_hash sha256) K"
  shows "fst (record_failure limits now key d) = fst (sqlite_record_failure sha256 limits now key table) \<and>
    stores_agree sha256 limits K now (snd (record_failure limits now key d)) (snd (sqlite_record_failure sha256 limits now key table))"
proof -
  let ?r = "next_record limits now (client_key key) (dict_live limits now d (client_key key))"
  have k: "dict_keys_ok K d" "table_keys_ok sha256 K table" and live: "\<forall>k \<in> K. dict_live limits now d k = table_live sha256 limits now table k"
    using assms(1) by (simp_all add: stores_agree_def)
  have r: "?r = next_record limits now (client_key key) (table_live sha256 limits now table (client_key key))"
    using live assms(2) by simp
  obtain d' where d': "record_failure limits now key d = (?r, d')" "dict_keys_ok K d'"
      "\<forall>k. dict_live limits now d' k = (if k = client_key key then live_record limits now ?r else dict_live limits now d k)"
    using dict_failure [OF k(1) assms(2-4), of ?r now] by blast
  obtain t' where t': "sqlite_record_failure sha256 limits now key table = (?r, t')" "table_keys_ok sha256 K t'"
      "\<forall>k \<in> K. table_live sha256 limits now t' k =
         (if k = client_key key then live_record limits now ?r else table_live sha256 limits now table k)"
    using table_failure [OF k(2) assms(2-6) r] by blast
  show ?thesis using d' t' live by (simp add: stores_agree_def)
qed

lemma agree_query:
  assumes "stores_agree sha256 limits K now d table" "dict_query limits now K d d'" "table_query sha256 limits now K table table'"
  shows "stores_agree sha256 limits K now d' table'"
  using assms by (simp add: stores_agree_def dict_query_def table_query_def)

lemma agree_reset:
  assumes "stores_agree sha256 limits K now d table" "client_key key \<in> K" "inj_on (key_hash sha256) K"
  shows "stores_agree sha256 limits K now (snd (reset_success key d)) (snd (sqlite_reset_success sha256 key table))"
proof -
  have t: "snd (sqlite_reset_success sha256 key table) = filter (\<lambda>r. la_client_key_hash r \<noteq> key_hash sha256 (client_key key)) table"
    by (simp add: sqlite_reset_success_def reset_login_attempt_def sql_delete_def key_hash_def)
  have "table_live sha256 limits now (snd (sqlite_reset_success sha256 key table)) k =
      (if k = client_key key then None else table_live sha256 limits now table k)" if "k \<in> K" for k
  proof -
    have "key_hash sha256 k = key_hash sha256 (client_key key) \<longleftrightarrow> k = client_key key"
      using inj_onD [OF assms(3) _ that assms(2)] by metis
    then show ?thesis
      using assms(1) select_key_Some [of la_client_key_hash "key_hash sha256 k" table] unfolding t
      by (auto simp: table_live_def select_key_filter stores_agree_def table_keys_ok_def split: option.splits)
  qed
  then show ?thesis
    using assms(1) dict_keys_pop table_keys_filter
    by (auto simp: stores_agree_def reset_success_def dict_live_pop Let_def t)
qed

lemma agree_step:
  assumes "stores_agree sha256 limits K now d table" "op_clients op \<subseteq> K" "finite K" "card K \<le> max_keys limits"
    and "limits_ok limits" "inj_on (key_hash sha256) K"
  shows "login_outcome limits now op d = sqlite_login_outcome sha256 limits now op table \<and>
    stores_agree sha256 limits K now (login_exec limits now op d) (sqlite_login_exec sha256 limits now op table)"
proof -
  have ok: "table_keys_ok sha256 K table" and live: "k \<in> K \<Longrightarrow> dict_live limits now d k = table_live sha256 limits now table k" for k
    using assms(1) by (simp_all add: stores_agree_def)
  note answers = dict_answers(1,3,5) [where limits = limits] dict_answers(2,4,6) [where limits = limits and K = K] table_answers [OF ok assms(5)]
  show ?thesis
  proof (cases op)
    case (LoginFailure key)
    then show ?thesis using agree_failure [OF assms(1) _ assms(3-6)] assms(2) by simp
  next
    case (LoginReset key)
    then show ?thesis using agree_reset [OF assms(1) _ assms(6)] assms(2) by simp
  next
    case LoginPurge
    have "stores_agree sha256 limits K now (snd (purge_expired limits now d)) (snd (sqlite_purge_expired limits now table))"
      using assms(1) dict_purge [of K d limits now] table_purge [OF ok assms(5), of now] by (simp add: stores_agree_def)
    then show ?thesis using LoginPurge by simp
  qed (use assms(2) live agree_query [OF assms(1)] answers in \<open>simp_all\<close>)
qed

lemma agree_run:
  assumes "finite K" "card K \<le> max_keys limits" "limits_ok limits" "inj_on (key_hash sha256) K"
  shows "stores_agree sha256 limits K start d table \<Longrightarrow> sorted (start # map fst ops) \<Longrightarrow> \<forall>(t, op) \<in> set ops. op_clients op \<subseteq> K \<Longrightarrow>
    login_outcomes limits ops d = sqlite_login_outcomes sha256 limits ops table"
proof (induction ops arbitrary: start d table)
  case (Cons x ops)
  obtain now op where x: "x = (now, op)" by fastforce
  have "stores_agree sha256 limits K now d table" using stores_agree_later [OF Cons.prems(1)] Cons.prems(2) x by simp
  from agree_step [OF this _ assms, of op] Cons.prems(2,3) x Cons.IH show ?case by auto
qed simp

text \<open>
  C11. The attempt store over SQLite implements the in-memory store: in any run whose clock does not go back and that names at most
  \<open>max_keys\<close> clients with different digests, both report the same records, locks, waiting times and failure counts.
\<close>

theorem sqlite_attempts_refine_memory:
  assumes "sorted (map fst ops)" "K = (\<Union>(t, op) \<in> set ops. op_clients op)"
    and "card K \<le> max_keys (make_limits window failures lockout keys)" "inj_on (\<lambda>k. hash_client_key sha256 (Some k)) K"
  shows "sqlite_login_outcomes sha256 (make_limits window failures lockout keys) ops [] =
    login_outcomes (make_limits window failures lockout keys) ops []"
proof (cases ops)
  case (Cons x rest)
  have "finite (op_clients op)" for op by (cases op) auto
  then have fin: "finite K" using assms(2) by auto
  have inj: "inj_on (key_hash sha256) K" using assms(4) by (simp add: key_hash_def [abs_def])
  have "stores_agree sha256 (make_limits window failures lockout keys) K (fst x) [] []"
    by (simp add: stores_agree_def dict_keys_ok_def table_keys_ok_def dict_ok_def dict_live_def table_live_def select_key_def)
  moreover have "sorted (fst x # map fst ops)" using assms(1) Cons by simp
  moreover have "\<forall>(t, op) \<in> set ops. op_clients op \<subseteq> K" unfolding assms(2) by auto
  ultimately show ?thesis by (rule agree_run [OF fin assms(3) make_limits_ok inj, symmetric])
qed simp

definition spread_digest :: "string \<Rightarrow> string" where
  "spread_digest s = s"

definition attempt_trace :: "(instant \<times> login_op) list" where
  "attempt_trace = [(1, LoginFailure (Some ''a'')), (2, LoginFailure (Some '' a '')), (3, LoginIsLocked (Some ''a'')),
     (4, LoginFailure (Some ''b'')), (5, LoginSeconds (Some ''a'')), (6, LoginReset (Some ''b'')), (7, LoginCount (Some ''b''))]"

lemma sqlite_attempts_refine_memory_witness:
  "sqlite_login_outcomes spread_digest (make_limits 60 2 300 2) attempt_trace [] =
     login_outcomes (make_limits 60 2 300 2) attempt_trace []"
proof (rule sqlite_attempts_refine_memory [OF _ refl])
  have clients: "(\<Union>(t, op) \<in> set attempt_trace. op_clients op) = {''a'', ''b''}" by code_simp
  show "sorted (map fst attempt_trace)" by code_simp
  show "card (\<Union>(t, op) \<in> set attempt_trace. op_clients op) \<le> max_keys (make_limits 60 2 300 2)"
    unfolding clients by (simp add: make_limits_def)
  show "inj_on (\<lambda>k. hash_client_key spread_digest (Some k)) (\<Union>(t, op) \<in> set attempt_trace. op_clients op)"
    unfolding clients by (simp add: inj_on_def) code_simp
qed


subsection \<open>Beyond the limit\<close>

lemma delete_attempts_rows: "snd (delete_attempts keys table) = filter (\<lambda>r. la_client_key_hash r \<notin> set keys) table"
proof -
  have "snd (fold (\<lambda>k (deleted, t). let (n, t') = sql_delete (\<lambda>r. la_client_key_hash r = k) t in (deleted + n, t')) keys (n, t)) =
      filter (\<lambda>r. la_client_key_hash r \<notin> set keys) t" for n t
  proof (induction keys arbitrary: n t)
    case (Cons k keys)
    then show ?case by (auto simp: sql_delete_def intro!: filter_cong)
  qed simp
  then show ?thesis by (simp add: delete_attempts_def)
qed

text \<open>When the locked rows alone fill the table, pruning leaves only them.\<close>

lemma prune_saturated:
  assumes "distinct (map la_client_key_hash table)" "1 \<le> m" "m \<le> length (filter (\<lambda>r. \<not> prunable now r) table)"
  shows "snd (prune_login_attempts (int m) now table) = filter (\<lambda>r. \<not> prunable now r) table"
proof -
  let ?free = "filter (prunable now) table"
  let ?rows = "take (length table - m) (sort_key la_updated_at ?free)"
  have count: "length ?free + length (filter (\<lambda>r. \<not> prunable now r) table) = length table" by (rule sum_length_filter_compl)
  have all: "set ?rows = set ?free" using count assms(3) by simp
  show ?thesis
  proof (cases "length table \<le> m")
    case True
    then have "length ?free = 0" using count assms(3) by linarith
    then have "filter (\<lambda>r. \<not> prunable now r) table = table" by (simp add: filter_empty_conv filter_id_conv)
    then show ?thesis using True assms(2) by (simp add: prune_login_attempts_def count_login_attempts_def Let_def)
  next
    case False
    have "snd (prune_login_attempts (int m) now table) = filter (\<lambda>r. la_client_key_hash r \<notin> la_client_key_hash ` set ?free) table"
    proof (cases "?rows = []")
      case True
      then have "set ?free = {}" using all by (metis empty_set)
      then have "?free = []" by (metis set_empty)
      then show ?thesis using False assms(2) by (simp add: prune_login_attempts_def count_login_attempts_def Let_def)
    next
      case rows: False
      then show ?thesis
        using False assms(2) all by (simp add: prune_login_attempts_def count_login_attempts_def Let_def delete_attempts_rows)
    qed
    also have "\<dots> = filter (\<lambda>r. \<not> prunable now r) table"
      using inj_onD [of la_client_key_hash "set table"] assms(1)
      by (intro filter_cong) (auto simp: distinct_map image_iff dest: inj_onD)
    finally show ?thesis .
  qed
qed

lemma failure_saturated:
  assumes "distinct (map la_client_key_hash table)" "limits_ok limits" "2 \<le> max_failures limits"
    and "max_keys limits \<le> length (filter (\<lambda>r. \<not> prunable now r) table)"
    and "select_key la_client_key_hash (key_hash sha256 (client_key key)) table = None"
  shows "snd (sqlite_record_failure sha256 limits now key table) = filter (\<lambda>r. \<not> prunable now r) table"
proof (rule record_login_failure_cases [OF assms(2), of "client_key key" now sha256 table], goal_cases)
  case (1 row)
  let ?t = "insert_or_replace la_client_key_hash row table"
  have "table_live sha256 limits now table (client_key key) = None" using assms(5) by (simp add: table_live_def)
  then have "lr_failure_count (record_of_row (client_key key) row) = 1" unfolding 1(1) by (simp add: next_record_def)
  then have "la_failure_count row = 1" by simp
  then have "prunable now row" using 1(5) assms(3) by (simp add: prunable_def lock_after_def)
  moreover have "filter (\<lambda>r. la_client_key_hash r \<noteq> la_client_key_hash row) table = table"
    using assms(5) 1(2) unfolding select_key_None by (metis (mono_tags, lifting) filter_True imageI)
  ultimately have t: "filter (\<lambda>r. \<not> prunable now r) ?t = filter (\<lambda>r. \<not> prunable now r) table"
    by (simp add: insert_or_replace_def)
  have "snd (prune_login_attempts (int (max_keys limits)) now ?t) = filter (\<lambda>r. \<not> prunable now r) ?t"
    using assms(2,4) t by (intro prune_saturated distinct_insert_or_replace assms(1)) (simp_all add: limits_ok_def)
  then show ?case unfolding t by (auto simp: sqlite_record_failure_def 1(6) split: prod.splits)
qed (use assms(5) in simp)

fun sqlite_failures :: "(string \<Rightarrow> string) \<Rightarrow> login_limits \<Rightarrow> string option \<Rightarrow> instant list \<Rightarrow> attempt_row list \<Rightarrow> attempt_row list" where
  "sqlite_failures sha256 limits key [] table = table"
| "sqlite_failures sha256 limits key (t # ts) table =
     sqlite_failures sha256 limits key ts (snd (sqlite_record_failure sha256 limits t key table))"

text \<open>
  C34. A full table of lockouts disables the throttle for everyone else: while \<open>max_keys\<close> clients are locked, every failure of another client is
  pruned in the call that records it, so however often that client fails (more than one failure being needed for a lock) it is
  not locked and has no failures.
\<close>

theorem full_table_forgets_failures:
  assumes "distinct (map la_client_key_hash table)" "limits = make_limits window failures lockout keys" "2 \<le> failures"
    and "max_keys limits \<le> length (filter (\<lambda>r. \<not> prunable end_time r) table)" "list_all (\<lambda>t. t \<le> end_time) ts"
    and "select_key la_client_key_hash (hash_client_key sha256 (Some (client_key key))) table = None"
  shows "fst (sqlite_is_locked sha256 limits end_time key (sqlite_failures sha256 limits key ts table)) = False \<and>
    fst (sqlite_failure_count sha256 limits end_time key (sqlite_failures sha256 limits key ts table)) = 0"
  using assms(1,4-6)
proof (induction ts arbitrary: table)
  case Nil
  then show ?case by (simp add: sqlite_is_locked_def sqlite_failure_count_def get_login_attempt_def)
next
  case (Cons t ts)
  have ok: "limits_ok limits" "2 \<le> max_failures limits" using assms(2,3) by (auto simp: limits_ok_def make_limits_def)
  have later: "\<not> prunable end_time r \<Longrightarrow> \<not> prunable t r" for r
    using Cons.prems(3) by (auto simp: prunable_def split: option.splits)
  have full: "max_keys limits \<le> length (filter (\<lambda>r. \<not> prunable t r) table)"
    using Cons.prems(2) later by (meson length_filter_mono order_trans)
  let ?t = "filter (\<lambda>r. \<not> prunable t r) table"
  have step: "snd (sqlite_record_failure sha256 limits t key table) = ?t"
    using failure_saturated [OF Cons.prems(1) ok full] Cons.prems(4) by (simp add: key_hash_def)
  have "filter (\<lambda>r. \<not> prunable end_time r) ?t = filter (\<lambda>r. \<not> prunable end_time r) table"
    using later by (auto intro!: filter_cong)
  then show ?case
    using Cons.IH [of ?t] Cons.prems by (simp add: step distinct_map_filter select_key_filter)
qed

definition locked_out :: "attempt_row list" where
  "locked_out = sqlite_failures spread_digest (make_limits 60 2 300 2) (Some ''b'') [3, 4]
     (sqlite_failures spread_digest (make_limits 60 2 300 2) (Some ''a'') [1, 2] [])"

lemma full_table_forgets_failures_witness:
  "fst (sqlite_is_locked spread_digest (make_limits 60 2 300 2) 9 (Some ''c'')
     (sqlite_failures spread_digest (make_limits 60 2 300 2) (Some ''c'') [5, 6, 7, 8] locked_out)) = False"
proof -
  have "distinct (map la_client_key_hash locked_out)"
    "max_keys (make_limits 60 2 300 2) \<le> length (filter (\<lambda>r. \<not> prunable 9 r) locked_out)"
    "select_key la_client_key_hash (hash_client_key spread_digest (Some (client_key (Some ''c'')))) locked_out = None"
    by code_simp+
  from full_table_forgets_failures [OF this(1) refl _ this(2) _ this(3), of "[5, 6, 7, 8]"] show ?thesis by simp
qed


subsection \<open>Sessions\<close>

datatype sqlite_session_op =
  SqliteCreate int "string list" string string string string "string option" "string option"
  | SqliteGet "string option" | SqliteInvalidate "string option" | SqlitePurge
  | SqliteInvalidateOperator "string option" | SqliteInvalidateOrganization "string option" "string option"
  | SqliteCsrfToken string "admin_session option" | SqliteVerifyCsrf "string option" "string option"

fun sqlite_session_exec :: "(string \<Rightarrow> string) \<Rightarrow> instant \<Rightarrow> sqlite_session_op \<Rightarrow> session_store \<Rightarrow> session_store" where
  "sqlite_session_exec sha256 now (SqliteCreate ttl tokens fallback csrf operator_id auth_mode organization_id role) st =
     snd (sqlite_create_session sha256 ttl now tokens fallback csrf operator_id auth_mode organization_id role st)"
| "sqlite_session_exec sha256 now (SqliteGet session_id) st = snd (sqlite_get_session sha256 now session_id st)"
| "sqlite_session_exec sha256 now (SqliteInvalidate session_id) st = snd (sqlite_invalidate_session sha256 now session_id st)"
| "sqlite_session_exec sha256 now SqlitePurge st = snd (sqlite_purge_sessions now st)"
| "sqlite_session_exec sha256 now (SqliteInvalidateOperator operator_id) st = snd (sqlite_invalidate_operator now operator_id st)"
| "sqlite_session_exec sha256 now (SqliteInvalidateOrganization operator_id organization_id) st =
     snd (sqlite_invalidate_operator_organization now operator_id organization_id st)"
| "sqlite_session_exec sha256 now (SqliteCsrfToken token session) st = snd (csrf_token_for_session sha256 now token session st)"
| "sqlite_session_exec sha256 now (SqliteVerifyCsrf session_id token) st = snd (verify_csrf_token sha256 now session_id token st)"

text \<open>An operation that may store a row under the digest of the identifier.\<close>

fun sqlite_issues :: "(string \<Rightarrow> string) \<Rightarrow> string \<Rightarrow> sqlite_session_op \<Rightarrow> bool" where
  "sqlite_issues sha256 sid (SqliteCreate ttl tokens fallback csrf operator_id auth_mode organization_id role) \<longleftrightarrow>
     list_ex (\<lambda>t. hash_session_id sha256 t = hash_session_id sha256 sid) (fallback # take 5 tokens)"
| "sqlite_issues sha256 sid _ \<longleftrightarrow> False"

text \<open>Every row of the session is revoked.\<close>

definition row_shut :: "(string \<Rightarrow> string) \<Rightarrow> string \<Rightarrow> session_row \<Rightarrow> bool" where
  "row_shut sha256 sid r \<longleftrightarrow> (sx_session_id_hash r = hash_session_id sha256 sid \<longrightarrow> sx_revoked_at r \<noteq> None)"

definition session_shut :: "(string \<Rightarrow> string) \<Rightarrow> string \<Rightarrow> session_store \<Rightarrow> bool" where
  "session_shut sha256 sid st \<longleftrightarrow> list_all (row_shut sha256 sid) (st_table st)"

lemma shut_state_get: "list_all (row_shut sha256 sid) table \<Longrightarrow> state_get_session sha256 now (Some sid) table = None"
  by (auto simp: state_get_session_def list_all_iff row_shut_def split: option.splits dest!: select_key_Some)

lemma update_shut:
  assumes "list_all (row_shut sha256 sid) table" "\<And>r. row_shut sha256 sid r \<Longrightarrow> row_shut sha256 sid (f r)"
  shows "list_all (row_shut sha256 sid) (snd (sql_update P f table))"
  using assms by (auto simp: sql_update_def list_all_iff)

lemma row_shut_revoke [simp]: "row_shut sha256 sid (revoke_session_row now reason r)"
  by (simp add: row_shut_def revoke_session_row_def)

lemma row_shut_fields [simp]:
  "row_shut sha256 sid (r\<lparr>sx_csrf_token_hash := c, sx_last_seen_at := t\<rparr>) = row_shut sha256 sid r"
  by (simp add: row_shut_def)

lemma sqlite_unique_source:
  "sqlite_unique_session_id sha256 now tokens fallback table \<in> set (fallback # take 5 tokens)"
  unfolding sqlite_unique_session_id_def by (auto split: option.splits dest!: find_Some_iff_first)

lemma state_create_rows:
  "state_create_session sha256 (Some sid) csrf operator_id auth_mode organization_id role expires now client agent table = Inr (p, table') \<Longrightarrow>
   r \<in> set table' \<Longrightarrow> r \<in> set table \<or> sx_session_id_hash r = hash_session_id sha256 sid"
  by (auto simp: state_create_session_def insert_or_replace_def Let_def require_non_blank_def res_simps split: option.splits if_splits)

lemma update_csrf_rows:
  "state_update_csrf sha256 now (Some sid) (Some token) table = Inr (b, table') \<Longrightarrow>
   table' = table \<or> table' = snd (sql_update (row_live sha256 now sid)
     (\<lambda>r. r\<lparr>sx_csrf_token_hash := hash_csrf_token sha256 token, sx_last_seen_at := now\<rparr>) table)"
  by (auto simp: state_update_csrf_def require_non_blank_def case_prod_beta res_simps split: if_splits)

lemma revoke_shut:
  "sql_update P (revoke_session_row now reason) table = (n, table') \<Longrightarrow> list_all (row_shut sha256 sid) table \<Longrightarrow>
   list_all (row_shut sha256 sid) table'"
  using update_shut [of sha256 sid table "revoke_session_row now reason" P] by simp

lemma shut_exec:
  assumes "\<not> sqlite_issues sha256 sid op" "session_shut sha256 sid st"
  shows "session_shut sha256 sid (sqlite_session_exec sha256 now op st)"
proof (cases op)
  case (SqliteCreate ttl tokens fallback csrf operator_id auth_mode organization_id role)
  let ?id = "sqlite_unique_session_id sha256 now tokens fallback (st_table st)"
  have other: "hash_session_id sha256 ?id \<noteq> hash_session_id sha256 sid"
    using assms(1) SqliteCreate sqlite_unique_source [of sha256 now tokens fallback "st_table st"]
    by (auto simp: list_ex_iff)
  show ?thesis
  proof (cases "state_create_session sha256 (Some ?id) (Some csrf) (Some operator_id) (Some auth_mode) organization_id role
      (now + seconds (effective_ttl ttl)) now None None (st_table st)")
    case (Inr v)
    obtain p table where v: "v = (p, table)" by fastforce
    have "row_shut sha256 sid r" if "r \<in> set table" for r
      using state_create_rows [OF Inr [unfolded v] that] assms(2) other by (auto simp: session_shut_def list_all_iff row_shut_def)
    then show ?thesis
      using SqliteCreate Inr v by (simp add: sqlite_create_session_def Let_def session_shut_def list_all_iff)
  qed (use assms(2) SqliteCreate in \<open>simp add: sqlite_create_session_def Let_def\<close>)
next
  case (SqliteCsrfToken token session)
  have "list_all (row_shut sha256 sid) table'"
    if "state_update_csrf sha256 now (Some i) (Some token) (st_table st) = Inr (b, table')" for i b table'
    using update_csrf_rows [OF that] assms(2) update_shut [OF assms(2) [unfolded session_shut_def]]
    by (auto simp: session_shut_def)
  then show ?thesis
    using assms(2) SqliteCsrfToken
    by (auto simp: csrf_token_for_session_def session_shut_def split: option.splits list.splits sum.splits bool.splits)
next
  case SqlitePurge
  then show ?thesis
    using assms(2) by (auto simp: sqlite_purge_sessions_def cleanup_sessions_def sql_delete_def session_shut_def list_all_iff)
qed (use assms(2) in
  \<open>auto simp: sqlite_get_session_def sqlite_invalidate_session_def state_revoke_session_def sqlite_invalidate_operator_def
     sqlite_invalidate_operator_organization_def state_revoke_operator_def state_revoke_operator_organization_def with_table_def
     verify_csrf_token_def session_shut_def res_simps dest: revoke_shut
     split: option.splits list.splits sum.splits bool.splits prod.splits\<close>)

interpretation sqlite: session_provider
  "\<lambda>now sid st. fst (sqlite_get_session sha256 now (Some sid) st)" "sqlite_session_exec sha256" "sqlite_issues sha256" "session_shut sha256"
  for sha256
proof
  show "session_shut sha256 sid st \<Longrightarrow> fst (sqlite_get_session sha256 now (Some sid) st) = None" for sid st now
    by (simp add: sqlite_get_session_def session_shut_def shut_state_get)
qed (rule shut_exec)


definition session_table_ok :: "session_row list \<Rightarrow> bool" where
  "session_table_ok table \<longleftrightarrow> distinct (map sx_session_id_hash table) \<and> list_all (\<lambda>r. sx_operator_id r \<noteq> []) table"

definition table_kept :: "session_row list \<Rightarrow> session_row list \<Rightarrow> bool" where
  "table_kept table table' \<longleftrightarrow> (session_table_ok table \<longrightarrow> session_table_ok table')"

lemma kept_refl [simp]: "table_kept table table"
  by (simp add: table_kept_def)

lemma kept_update:
  assumes "\<And>r. sx_session_id_hash (f r) = sx_session_id_hash r \<and> sx_operator_id (f r) = sx_operator_id r"
  shows "table_kept table (snd (sql_update P f table))"
proof -
  have "map sx_session_id_hash (snd (sql_update P f table)) = map sx_session_id_hash table"
    using assms by (simp add: sql_update_def)
  moreover have "list_all (\<lambda>r. sx_operator_id r \<noteq> []) table \<longrightarrow> list_all (\<lambda>r. sx_operator_id r \<noteq> []) (snd (sql_update P f table))"
    using assms by (auto simp: sql_update_def list_all_iff)
  ultimately show ?thesis by (simp add: table_kept_def session_table_ok_def)
qed

lemma kept_revoke: "sql_update P (revoke_session_row now reason) table = (n, table') \<Longrightarrow> table_kept table table'"
  using kept_update [of "revoke_session_row now reason" table P] by (simp add: revoke_session_row_def)

lemma kept_create:
  assumes "state_create_session sha256 sid csrf operator_id auth_mode organization_id role expires now client agent table = Inr (p, table')"
  shows "table_kept table table'"
  using assms
  by (auto simp: state_create_session_def Let_def require_non_blank_def res_simps table_kept_def session_table_ok_def list_all_iff
      insert_or_replace_def distinct_map_filter split: option.splits if_splits)

lemma kept_csrf:
  "state_update_csrf sha256 now (Some sid) (Some token) table = Inr (b, table') \<Longrightarrow> table_kept table table'"
  using update_csrf_rows [of sha256 now sid token table b table']
    kept_update [of "\<lambda>r. r\<lparr>sx_csrf_token_hash := hash_csrf_token sha256 token, sx_last_seen_at := now\<rparr>"] by auto

lemma kept_exec: "table_kept (st_table st) (st_table (sqlite_session_exec sha256 now op st))"
proof (cases op)
  case (SqliteCreate ttl tokens fallback csrf operator_id auth_mode organization_id role)
  then show ?thesis by (auto simp: sqlite_create_session_def Let_def dest: kept_create split: sum.splits)
next
  case (SqliteCsrfToken token session)
  then show ?thesis
    by (auto simp: csrf_token_for_session_def dest: kept_csrf split: option.splits list.splits sum.splits bool.splits)
next
  case SqlitePurge
  then show ?thesis
    by (auto simp: sqlite_purge_sessions_def cleanup_sessions_def sql_delete_def table_kept_def session_table_ok_def list_all_iff
        distinct_map_filter)
qed (auto simp: sqlite_get_session_def sqlite_invalidate_session_def state_revoke_session_def sqlite_invalidate_operator_def
     sqlite_invalidate_operator_organization_def state_revoke_operator_def state_revoke_operator_organization_def with_table_def
     verify_csrf_token_def res_simps dest: kept_revoke
     split: option.splits list.splits sum.splits bool.splits prod.splits)

definition empty_session_store :: session_store where
  "empty_session_store = \<lparr>st_table = [], st_csrf_cache = []\<rparr>"

definition sqlite_session_run :: "(string \<Rightarrow> string) \<Rightarrow> (instant \<times> sqlite_session_op) list \<Rightarrow> session_store \<Rightarrow> session_store" where
  "sqlite_session_run sha256 ops st = fold (\<lambda>(t, op). sqlite_session_exec sha256 t op) ops st"

lemma run_table_ok: "session_table_ok (st_table (sqlite_session_run sha256 ops empty_session_store))"
proof -
  have "session_table_ok (st_table st) \<Longrightarrow> session_table_ok (st_table (sqlite_session_run sha256 ops st))" for st
    using kept_exec by (induction ops arbitrary: st) (auto simp: sqlite_session_run_def table_kept_def)
  then show ?thesis by (simp add: session_table_ok_def empty_session_store_def)
qed

lemma get_session_row:
  assumes "fst (sqlite_get_session sha256 now (Some sid) st) = Some s" "session_table_ok (st_table st)"
  shows "sid \<noteq> [] \<and> se_operator_id s \<noteq> [] \<and> (\<forall>r \<in> set (st_table st). sx_session_id_hash r = hash_session_id sha256 sid \<longrightarrow>
    sx_operator_id r = se_operator_id s \<and> sx_organization_id r = se_organization_id s)"
proof -
  obtain p where p: "sid \<noteq> []" "state_get_session sha256 now (Some sid) (st_table st) = Some p"
      "s = admin_session_of sid (case map_of (st_csrf_cache st) sid of None \<Rightarrow> [] | Some c \<Rightarrow> c) p"
    using assms(1) by (auto simp: sqlite_get_session_def split: if_splits option.splits)
  then obtain r where r: "select_key sx_session_id_hash (hash_session_id sha256 sid) (st_table st) = Some r" "p = session_from_row r"
    by (auto simp: state_get_session_def split: option.splits if_splits)
  have "r' = r" if "r' \<in> set (st_table st)" "sx_session_id_hash r' = hash_session_id sha256 sid" for r'
    using assms(2) that select_key_Some [OF r(1)] inj_onD unfolding session_table_ok_def distinct_map by metis
  then show ?thesis
    using p(1,3) r(2) select_key_Some [OF r(1)] assms(2)
    by (auto simp: admin_session_of_def session_from_row_def session_table_ok_def list_all_iff)
qed

lemma revoke_rows_shut:
  assumes "\<And>r. r \<in> set table \<Longrightarrow> sx_session_id_hash r = hash_session_id sha256 sid \<Longrightarrow> sx_revoked_at r = None \<Longrightarrow> P r"
  shows "list_all (row_shut sha256 sid) (snd (sql_update P (revoke_session_row now reason) table))"
  using assms by (fastforce simp: sql_update_def list_all_iff row_shut_def revoke_session_row_def)

text \<open>
  C12. Ending a session is permanent in the SQLite store, for every way to end it: logging out, revoking the sessions of its operator, or
  those of the operator in its organization. Whatever calls come later, at whatever times, the session is neither returned nor
  valid, as long as no new session is given an identifier with the same digest.
\<close>

theorem ended_session_stays_ended:
  assumes "st = sqlite_session_run sha256 history empty_session_store" "fst (sqlite_get_session sha256 now (Some sid) st) = Some s"
    and "op = SqliteInvalidate (Some sid) \<or> op = SqliteInvalidateOperator (Some (se_operator_id s)) \<or>
      (\<exists>organization. organization \<noteq> [] \<and> se_organization_id s = Some organization \<and>
         op = SqliteInvalidateOrganization (Some (se_operator_id s)) (Some organization))"
    and "list_all (\<lambda>(t, op). \<not> sqlite_issues sha256 sid op) later"
    and "st' = sqlite_session_run sha256 later (sqlite_session_exec sha256 end_time op st)"
  shows "fst (sqlite_get_session sha256 t (Some sid) st') = None \<and> (se_session_id s = sid \<and> \<not> sqlite_session_valid sha256 t (Some s) st')"
proof -
  have rows: "sid \<noteq> []" "se_operator_id s \<noteq> []"
      "\<And>r. r \<in> set (st_table st) \<Longrightarrow> sx_session_id_hash r = hash_session_id sha256 sid \<Longrightarrow>
        sx_operator_id r = se_operator_id s \<and> sx_organization_id r = se_organization_id s"
    using get_session_row [OF assms(2)] run_table_ok assms(1) by auto
  have "session_shut sha256 sid (sqlite_session_exec sha256 end_time op st)"
    using assms(3) rows(1,2)
    by (auto simp: session_shut_def sqlite_invalidate_session_def state_revoke_session_def sqlite_invalidate_operator_def
        sqlite_invalidate_operator_organization_def state_revoke_operator_def state_revoke_operator_organization_def with_table_def
        require_non_blank_def case_prod_beta rows(3) intro!: revoke_rows_shut)
  then have shut: "session_shut sha256 sid st'" unfolding assms(5) sqlite_session_run_def by (rule sqlite.shut_run [OF assms(4)])
  have sid: "se_session_id s = sid"
    using assms(2) rows(1) by (auto simp: sqlite_get_session_def admin_session_of_def split: option.splits)
  show ?thesis
    using sqlite.shut_not_returned [OF shut] shut_state_get shut sid by (simp add: sqlite_session_valid_def session_shut_def)
qed

definition session_history :: "(instant \<times> sqlite_session_op) list" where
  "session_history = [(5, SqliteCreate 60 [''s1''] ''s2'' ''c1'' ''u1'' ''team'' (Some ''o1'') (Some ''reader''))]"

lemma ended_session_stays_ended_witness:
  "fst (sqlite_get_session spread_digest 9 (Some ''s1'') (sqlite_session_run spread_digest [(8, SqlitePurge)]
     (sqlite_session_exec spread_digest 7 (SqliteInvalidateOperator (Some ''u1''))
       (sqlite_session_run spread_digest session_history empty_session_store)))) = None"
proof -
  let ?st = "sqlite_session_run spread_digest session_history empty_session_store"
  have "map_option se_operator_id (fst (sqlite_get_session spread_digest 6 (Some ''s1'') ?st)) = Some ''u1''" by code_simp
  then obtain s where s: "fst (sqlite_get_session spread_digest 6 (Some ''s1'') ?st) = Some s" "se_operator_id s = ''u1''" by blast
  show ?thesis
    using ended_session_stays_ended [OF refl s(1), of "SqliteInvalidateOperator (Some ''u1'')" "[(8, SqlitePurge)]" _ 7 9] s(2) by simp
qed

text \<open>What a created session leaves in the table and in the cache.\<close>

lemma sqlite_created:
  assumes "sqlite_create_session sha256 ttl now tokens fallback csrf operator_id auth_mode organization_id role st = (Inr s, st1)"
  shows "se_session_id s \<noteq> []" "se_csrf_token s = csrf" "csrf \<noteq> []" "map_of (st_csrf_cache st1) (se_session_id s) = Some csrf"
    "se_operator_id s = operator_id" "se_organization_id s = organization_id" "se_role s = role"
    "\<exists>row. select_key sx_session_id_hash (hash_session_id sha256 (se_session_id s)) (st_table st1) = Some row \<and>
       sx_csrf_token_hash row = hash_csrf_token sha256 csrf \<and> sx_revoked_at row = None \<and> sx_expires_at row = now + seconds (max 1 ttl) \<and>
       (\<forall>c. admin_session_of (se_session_id s) c (session_from_row row) = s\<lparr>se_csrf_token := c\<rparr>)"
proof -
  let ?id = "sqlite_unique_session_id sha256 now tokens fallback (st_table st)"
  have ok: "?id \<noteq> []" "csrf \<noteq> []" "operator_id \<noteq> []" "auth_mode \<noteq> []"
    using assms by (auto simp: sqlite_create_session_def state_create_session_def require_non_blank_def Let_def split: if_splits)
  note defs = sqlite_create_session_def state_create_session_def require_non_blank_def Let_def admin_session_of_def
  show id: "se_session_id s \<noteq> []" "se_csrf_token s = csrf" "csrf \<noteq> []" "map_of (st_csrf_cache st1) (se_session_id s) = Some csrf"
      "se_operator_id s = operator_id" "se_organization_id s = organization_id" "se_role s = role"
    using assms ok by (auto simp: defs)
  have s: "se_session_id s = ?id" using assms ok by (auto simp: defs)
  obtain rows row where row: "st_table st1 = rows @ [row]" "hash_session_id sha256 ?id \<notin> sx_session_id_hash ` set rows"
      "sx_session_id_hash row = hash_session_id sha256 ?id" "sx_csrf_token_hash row = hash_csrf_token sha256 csrf" "sx_revoked_at row = None"
      "sx_expires_at row = now + seconds (max 1 ttl)" "\<forall>c. admin_session_of ?id c (session_from_row row) = s\<lparr>se_csrf_token := c\<rparr>"
    using assms ok by (fastforce simp: defs insert_or_replace_def session_from_row_def effective_ttl_def)
  then have "select_key sx_session_id_hash (hash_session_id sha256 ?id) (st_table st1) = Some row"
    using select_key_None [of sx_session_id_hash "hash_session_id sha256 ?id" rows] by (simp add: select_key_snoc)
  then show "\<exists>row. select_key sx_session_id_hash (hash_session_id sha256 (se_session_id s)) (st_table st1) = Some row \<and>
       sx_csrf_token_hash row = hash_csrf_token sha256 csrf \<and> sx_revoked_at row = None \<and> sx_expires_at row = now + seconds (max 1 ttl) \<and>
       (\<forall>c. admin_session_of (se_session_id s) c (session_from_row row) = s\<lparr>se_csrf_token := c\<rparr>)"
    using row(4-7) s by auto
qed

text \<open>
  C21. A restart of the application keeps a session: with the cache gone, the session is returned until its time to live has passed,
  without its CSRF token, and exactly the tokens with the digest of the one it was created with are accepted.
\<close>

theorem restart_keeps_session:
  assumes "sqlite_create_session sha256 ttl now tokens fallback csrf operator_id auth_mode organization_id role st = (Inr s, st1)"
  defines "st2 \<equiv> st1\<lparr>st_csrf_cache := []\<rparr>"
  shows "fst (sqlite_get_session sha256 t (Some (se_session_id s)) st2) =
      (if t < now + seconds (max 1 ttl) then Some (s\<lparr>se_csrf_token := []\<rparr>) else None) \<and>
    fst (verify_csrf_token sha256 t (Some (se_session_id s)) (Some token) st2) =
      Inr (t < now + seconds (max 1 ttl) \<and> token \<noteq> [] \<and> hash_csrf_token sha256 token = hash_csrf_token sha256 (se_csrf_token s))"
  using sqlite_created(1,2,8) [OF assms(1)]
  by (auto simp: sqlite_get_session_def state_get_session_def verify_csrf_token_def state_verify_csrf_def st2_def)

lemma restart_keeps_session_witness:
  "\<exists>s st. sqlite_create_session spread_digest 60 5 [''s1''] ''s2'' ''c1'' ''u1'' ''team'' (Some ''o1'') (Some ''reader'') empty_session_store
       = (Inr s, st) \<and> fst (verify_csrf_token spread_digest 30 (Some (se_session_id s)) (Some ''c1'') (st\<lparr>st_csrf_cache := []\<rparr>)) = Inr True"
proof -
  let ?c = "sqlite_create_session spread_digest 60 5 [''s1''] ''s2'' ''c1'' ''u1'' ''team'' (Some ''o1'') (Some ''reader'') empty_session_store"
  obtain s st where c: "?c = (Inr s, st)" "se_csrf_token s = ''c1''"
    by (simp add: sqlite_create_session_def state_create_session_def sqlite_unique_session_id_def state_get_session_def select_key_def Let_def
        empty_session_store_def require_non_blank_def admin_session_of_def)
  from restart_keeps_session [OF c(1), of 30 "''c1''"] c show ?thesis by (simp add: seconds_def)
qed

text \<open>
  The cache of CSRF tokens outlives the session. After the sessions of an operator were revoked the process that created one still accepts its
  CSRF token, also past its expiry, although the table refuses the token.
\<close>

theorem cached_csrf_outlives_session:
  assumes "sqlite_create_session sha256 ttl now tokens fallback csrf operator_id auth_mode organization_id role st = (Inr s, st1)"
    and "list_all (\<lambda>c. code c < 128) csrf" "st2 = snd (sqlite_invalidate_operator end_time (Some operator_id) st1)"
  shows "fst (verify_csrf_token sha256 t (Some (se_session_id s)) (Some csrf) st2) = Inr True"
proof -
  note sqlite_created(1,3,4) [OF assms(1)]
  moreover have "st_csrf_cache st2 = st_csrf_cache st1"
    unfolding assms(3) by (simp add: sqlite_invalidate_operator_def with_table_def split: sum.splits prod.splits)
  ultimately show ?thesis
    using assms(2) by (cases csrf) (auto simp: verify_csrf_token_def compare_digest_str_def)
qed

end
