(* ===== verification/Login_Gate.thy ===== *)
theory Login_Gate
  imports Team_Security Auth_State_Refinement
begin

section \<open>Signing in\<close>

text \<open>
  Model of what \<^verbatim>\<open>backend/app/main.py\<close> does with the stores of sessions, login attempts and team identities: the login and logout,
  the acceptance of an invitation, the choice of an organization, the change of a role, and the check of the session, the CSRF token and the role
  before a request. The stores are in memory or in SQLite, as the settings say. A handler takes the state and returns it with its
  response or the error it raises; \<open>gt_actions\<close> is the sequence of calls of \<^verbatim>\<open>record_product_action\<close>, whose errors
  the code ignores. A handler that looks up the session does it as the first lookup of its request, and it reads the clock once.
  \<open>sha256\<close> and \<open>pbkdf2\<close> are parameters, the draws of the token factories are arguments.
\<close>

subsection \<open>The stores of the application\<close>

datatype auth_mode = TrustedLocal | SelfHostedSingleAdmin | PrivateTeam | PublicCommunity

fun auth_mode_text :: "auth_mode \<Rightarrow> string" where
  "auth_mode_text TrustedLocal = ''trusted_local_no_auth''"
| "auth_mode_text SelfHostedSingleAdmin = ''self_hosted_single_admin''"
| "auth_mode_text PrivateTeam = ''private_team_lightweight_users''"
| "auth_mode_text PublicCommunity = ''public_community_limited_instance''"

record gate_settings =
  gs_auth_mode :: auth_mode
  gs_auth_state_store :: string
  gs_admin_password_hash :: "string option"
  gs_session_ttl_seconds :: int
  gs_session_cookie_secure :: bool
  gs_window_seconds :: int
  gs_max_failures :: int
  gs_lockout_seconds :: int
  gs_max_keys :: int
  gs_local_operator_id :: string

definition gate_limits :: "gate_settings \<Rightarrow> login_limits" where
  "gate_limits g = make_limits (gs_window_seconds g) (gs_max_failures g) (gs_lockout_seconds g) (gs_max_keys g)"

datatype session_backend = MemorySessions session_dict | SqliteSessions session_store

datatype attempt_backend = MemoryAttempts login_dict | SqliteAttempts "attempt_row list"

definition persistent_auth :: "gate_settings \<Rightarrow> bool" where
  "persistent_auth g \<longleftrightarrow> gs_auth_mode g \<in> {SelfHostedSingleAdmin, PrivateTeam} \<and> gs_auth_state_store g = ''sqlite''"

definition create_admin_session_store :: "gate_settings \<Rightarrow> session_row list \<Rightarrow> session_backend" where
  "create_admin_session_store g table =
     (if persistent_auth g then SqliteSessions \<lparr>st_table = table, st_csrf_cache = []\<rparr> else MemorySessions [])"

definition create_login_attempt_store :: "gate_settings \<Rightarrow> attempt_row list \<Rightarrow> attempt_backend" where
  "create_login_attempt_store g table = (if persistent_auth g then SqliteAttempts table else MemoryAttempts [])"

text \<open>The methods both kinds of store have.\<close>

fun admin_get_session :: "(string \<Rightarrow> string) \<Rightarrow> instant \<Rightarrow> string option \<Rightarrow> session_backend \<Rightarrow> admin_session option \<times> session_backend" where
  "admin_get_session sha256 now sid (MemorySessions d) = map_prod id MemorySessions (get_session now sid d)"
| "admin_get_session sha256 now sid (SqliteSessions s) = map_prod id SqliteSessions (sqlite_get_session sha256 now sid s)"

text \<open>What the token factories return while a session is created.\<close>

record session_draw =
  dw_tokens :: "string list"
  dw_fallback :: string
  dw_csrf :: string

fun admin_create_session ::
  "(string \<Rightarrow> string) \<Rightarrow> int \<Rightarrow> instant \<Rightarrow> session_draw \<Rightarrow> string \<Rightarrow> string \<Rightarrow> string option \<Rightarrow> string option \<Rightarrow> session_backend
     \<Rightarrow> (auth_exc + admin_session) \<times> session_backend" where
  "admin_create_session sha256 ttl now w operator_id mode organization_id role (MemorySessions d) =
     map_prod Inr MemorySessions
       (create_admin_session ttl now (dw_tokens w) (dw_fallback w) (dw_csrf w) operator_id mode organization_id role d)"
| "admin_create_session sha256 ttl now w operator_id mode organization_id role (SqliteSessions s) =
     map_prod id SqliteSessions
       (sqlite_create_session sha256 ttl now (dw_tokens w) (dw_fallback w) (dw_csrf w) operator_id mode organization_id role s)"

fun admin_invalidate_session :: "(string \<Rightarrow> string) \<Rightarrow> instant \<Rightarrow> string option \<Rightarrow> session_backend \<Rightarrow> session_backend" where
  "admin_invalidate_session sha256 now sid (MemorySessions d) = MemorySessions (snd (invalidate_session sid d))"
| "admin_invalidate_session sha256 now sid (SqliteSessions s) = SqliteSessions (snd (sqlite_invalidate_session sha256 now sid s))"

text \<open>
  The sessions of an operator in an organization; the in-memory store has no such method, and all sessions of the operator end.
\<close>

fun admin_invalidate_member :: "instant \<Rightarrow> string \<Rightarrow> string \<Rightarrow> session_backend \<Rightarrow> (auth_exc + nat) \<times> session_backend" where
  "admin_invalidate_member now operator_id organization_id (MemorySessions d) =
     map_prod Inr MemorySessions (invalidate_operator_sessions operator_id d)"
| "admin_invalidate_member now operator_id organization_id (SqliteSessions s) =
     map_prod id SqliteSessions (sqlite_invalidate_operator_organization now (Some operator_id) (Some organization_id) s)"

fun verify_csrf_token_for_request ::
  "(string \<Rightarrow> string) \<Rightarrow> instant \<Rightarrow> string option \<Rightarrow> admin_session \<Rightarrow> session_backend \<Rightarrow> (auth_exc + bool) \<times> session_backend" where
  "verify_csrf_token_for_request sha256 now token session (MemorySessions d) =
     (verify_admin_csrf_token token (Some session), MemorySessions d)"
| "verify_csrf_token_for_request sha256 now token session (SqliteSessions s) =
     map_prod id SqliteSessions (verify_csrf_token sha256 now (Some (se_session_id session)) token s)"

fun attempts_purge :: "login_limits \<Rightarrow> instant \<Rightarrow> attempt_backend \<Rightarrow> attempt_backend" where
  "attempts_purge limits now (MemoryAttempts d) = MemoryAttempts (snd (purge_expired limits now d))"
| "attempts_purge limits now (SqliteAttempts t) = SqliteAttempts (snd (sqlite_purge_expired limits now t))"

fun attempts_locked :: "(string \<Rightarrow> string) \<Rightarrow> login_limits \<Rightarrow> instant \<Rightarrow> string \<Rightarrow> attempt_backend \<Rightarrow> bool \<times> attempt_backend" where
  "attempts_locked sha256 limits now key (MemoryAttempts d) = map_prod id MemoryAttempts (is_locked limits now (Some key) d)"
| "attempts_locked sha256 limits now key (SqliteAttempts t) = map_prod id SqliteAttempts (sqlite_is_locked sha256 limits now (Some key) t)"

fun attempts_wait :: "(string \<Rightarrow> string) \<Rightarrow> login_limits \<Rightarrow> instant \<Rightarrow> string \<Rightarrow> attempt_backend \<Rightarrow> int \<times> attempt_backend" where
  "attempts_wait sha256 limits now key (MemoryAttempts d) = map_prod id MemoryAttempts (seconds_until_unlock now (Some key) d)"
| "attempts_wait sha256 limits now key (SqliteAttempts t) =
     map_prod id SqliteAttempts (sqlite_seconds_until_unlock sha256 limits now (Some key) t)"

fun attempts_failure :: "(string \<Rightarrow> string) \<Rightarrow> login_limits \<Rightarrow> instant \<Rightarrow> string \<Rightarrow> attempt_backend \<Rightarrow> attempt_backend" where
  "attempts_failure sha256 limits now key (MemoryAttempts d) = MemoryAttempts (snd (record_failure limits now (Some key) d))"
| "attempts_failure sha256 limits now key (SqliteAttempts t) = SqliteAttempts (snd (sqlite_record_failure sha256 limits now (Some key) t))"

fun attempts_reset :: "(string \<Rightarrow> string) \<Rightarrow> string \<Rightarrow> attempt_backend \<Rightarrow> attempt_backend" where
  "attempts_reset sha256 key (MemoryAttempts d) = MemoryAttempts (snd (reset_success (Some key) d))"
| "attempts_reset sha256 key (SqliteAttempts t) = SqliteAttempts (snd (sqlite_reset_success sha256 (Some key) t))"

text \<open>The arguments of \<^verbatim>\<open>record_product_action\<close>, without its metadata.\<close>

record product_action =
  ga_action :: string
  ga_resource_type :: string
  ga_resource_id :: string
  ga_organization_id :: string
  ga_actor_id :: string
  ga_actor_role :: string

record gate_state =
  gt_sessions :: session_backend
  gt_attempts :: attempt_backend
  gt_team :: "team_db option"
  gt_actions :: "product_action list"

datatype gate_error =
  TooManyRequests "int option" | InvalidCredentials | AuthenticationRequired | CsrfRequired | RoleForbidden | AdministratorOnly
  | InvitationMissing | InvitationRejected | WorkspaceMissing | MemberMissing | LastAdministratorKept | IdentityUnavailable
  | Unhandled auth_exc

text \<open>\<^verbatim>\<open>a or b\<close> for texts\<close>

definition or_text :: "string option \<Rightarrow> string \<Rightarrow> string" where
  "or_text v other = (case v of None \<Rightarrow> other | Some t \<Rightarrow> if t = [] then other else t)"

definition login_client_key :: "string option \<Rightarrow> string" where
  "login_client_key host = (case host of None \<Rightarrow> ''unknown'' | Some h \<Rightarrow> if py_strip h = [] then ''unknown'' else py_strip h)"

definition rate_limited_mode :: "gate_settings \<Rightarrow> bool" where
  "rate_limited_mode g \<longleftrightarrow> gs_auth_mode g \<in> {SelfHostedSingleAdmin, PrivateTeam}"

subsection \<open>The session of a request\<close>

definition current_session_for_request ::
  "(string \<Rightarrow> string) \<Rightarrow> gate_settings \<Rightarrow> instant \<Rightarrow> string option \<Rightarrow> gate_state \<Rightarrow> admin_session option \<times> gate_state" where
  "current_session_for_request sha256 g now cookie st =
     (let (session, sessions) = admin_get_session sha256 now cookie (gt_sessions st); st1 = st\<lparr>gt_sessions := sessions\<rparr> in
      case session of None \<Rightarrow> (None, st1)
      | Some s \<Rightarrow>
          if gs_auth_mode g \<noteq> PrivateTeam then (Some s, st1)
          else (case (gt_team st, or_text (se_organization_id s) []) of
                  (None, _) \<Rightarrow> (None, st1)
                | (_, []) \<Rightarrow> (None, st1)
                | (Some db, organization) \<Rightarrow>
                    (case get_principal (se_operator_id s) organization db of
                       None \<Rightarrow> (None, st1\<lparr>gt_sessions := admin_invalidate_session sha256 now cookie sessions\<rparr>)
                     | Some p \<Rightarrow>
                         if Some (role_name (tp_role p)) \<noteq> se_role s
                         then (None, st1\<lparr>gt_sessions := admin_invalidate_session sha256 now cookie sessions\<rparr>)
                         else (Some s, st1))))"

definition current_team_principal ::
  "(string \<Rightarrow> string) \<Rightarrow> gate_settings \<Rightarrow> instant \<Rightarrow> string option \<Rightarrow> gate_state \<Rightarrow> (gate_error + team_principal) \<times> gate_state" where
  "current_team_principal sha256 g now cookie st =
     (if gs_auth_mode g \<noteq> PrivateTeam then (Inl WorkspaceMissing, st)
      else (let (session, st1) = current_session_for_request sha256 g now cookie st in
        case (session, gt_team st1) of
          (Some s, Some db) \<Rightarrow>
            if or_text (se_organization_id s) [] = [] then (Inl AuthenticationRequired, st1)
            else (case get_principal (se_operator_id s) (or_text (se_organization_id s) []) db of
                    None \<Rightarrow> (Inl AuthenticationRequired, st1)
                  | Some p \<Rightarrow>
                      if Some (role_name (tp_role p)) \<noteq> se_role s then (Inl AuthenticationRequired, st1) else (Inr p, st1))
        | _ \<Rightarrow> (Inl AuthenticationRequired, st1)))"

definition require_team_administrator ::
  "(string \<Rightarrow> string) \<Rightarrow> gate_settings \<Rightarrow> instant \<Rightarrow> string option \<Rightarrow> gate_state \<Rightarrow> (gate_error + team_principal) \<times> gate_state" where
  "require_team_administrator sha256 g now cookie st =
     (case current_team_principal sha256 g now cookie st of
        (Inl e, st1) \<Rightarrow> (Inl e, st1)
      | (Inr p, st1) \<Rightarrow>
          if \<not> team_role_allows (role_name (tp_role p)) ''workspace_admin'' then (Inl AdministratorOnly, st1) else (Inr p, st1))"

subsection \<open>The check before a request\<close>

definition csrf_required_methods :: "string list" where
  "csrf_required_methods = [''POST'', ''PUT'', ''PATCH'', ''DELETE'']"

definition team_reader_read_post_paths :: "string list" where
  "team_reader_read_post_paths =
     [''/projects/search'', ''/projects/portfolio/search'', ''/projects/trends'', ''/projects/trends/refresh'', ''/projects/trends/report'',
      ''/remediation/search'', ''/remediation/report'', ''/remediation/plans'', ''/active/operations/weekly-review-receipts/verify'']"

definition action_read_path :: "string \<Rightarrow> bool" where
  "action_read_path path \<longleftrightarrow>
     starts_with ''/projects/actions/'' path \<and> is_hex_id 32 (take 32 (drop 18 path)) \<and> drop 50 path = ''/read''"

definition saved_view_path :: "string \<Rightarrow> bool" where
  "saved_view_path path \<longleftrightarrow> starts_with ''/remediation/views/'' path \<and> is_hex_id 32 (drop 19 path)"

text \<open>The requests of these methods that a reader may make; the argument is the method in upper case.\<close>

definition reader_may_request :: "string \<Rightarrow> string \<Rightarrow> bool" where
  "reader_may_request method path \<longleftrightarrow>
     path = ''/auth/logout'' \<or> path \<in> set team_reader_read_post_paths \<or>
     (method = ''POST'' \<and> path = ''/remediation/views'') \<or> (method = ''PUT'' \<and> path = ''/remediation/views/default'') \<or>
     (method = ''PUT'' \<and> action_read_path path) \<or> (method = ''DELETE'' \<and> saved_view_path path)"

definition request_gate ::
  "(string \<Rightarrow> string) \<Rightarrow> gate_settings \<Rightarrow> instant \<Rightarrow> string \<Rightarrow> string \<Rightarrow> string option \<Rightarrow> string option \<Rightarrow> gate_state
     \<Rightarrow> (gate_error + admin_session) \<times> gate_state" where
  "request_gate sha256 g now method path cookie csrf_header st =
     (let (session, st1) = current_session_for_request sha256 g now cookie st in
      case session of None \<Rightarrow> (Inl AuthenticationRequired, st1)
      | Some s \<Rightarrow>
          let (csrf, sessions) = (if method \<in> set csrf_required_methods
                then verify_csrf_token_for_request sha256 now csrf_header s (gt_sessions st1) else (Inr True, gt_sessions st1));
              st2 = st1\<lparr>gt_sessions := sessions\<rparr> in
          case csrf of Inl e \<Rightarrow> (Inl (Unhandled e), st2)
          | Inr ok \<Rightarrow>
              if \<not> ok then (Inl CsrfRequired, st2)
              else if gs_auth_mode g = PrivateTeam \<and> method \<in> set csrf_required_methods \<and>
                \<not> team_role_allows (or_text (se_role s) []) ''project_mutate'' \<and> \<not> reader_may_request method path
              then (Inl RoleForbidden, st2)
              else (Inr s, st2))"

subsection \<open>Login and logout\<close>

definition throttle_check ::
  "(string \<Rightarrow> string) \<Rightarrow> login_limits \<Rightarrow> instant \<Rightarrow> string \<Rightarrow> attempt_backend \<Rightarrow> gate_error option \<times> attempt_backend" where
  "throttle_check sha256 limits now key a =
     (let (locked, a1) = attempts_locked sha256 limits now key (attempts_purge limits now a) in
      if locked then (let (wait, a2) = attempts_wait sha256 limits now key a1 in
        (Some (TooManyRequests (if wait > 0 then Some wait else None)), a2))
      else (None, a1))"

definition check_credentials ::
  "(string \<Rightarrow> string \<Rightarrow> int \<Rightarrow> string option) \<Rightarrow> gate_settings \<Rightarrow> string option \<Rightarrow> string option \<Rightarrow> team_db option
     \<Rightarrow> bool \<times> team_principal option" where
  "check_credentials pbkdf2 g username password team =
     (let name = py_strip (or_text username []); pw = or_text password [] in
      case gs_auth_mode g of
        SelfHostedSingleAdmin \<Rightarrow>
          ((name = [] \<or> name = ''admin'') \<and> verify_admin_password pbkdf2 (Some pw) (gs_admin_password_hash g), None)
      | PrivateTeam \<Rightarrow>
          (let p = (case team of None \<Rightarrow> None | Some db \<Rightarrow> authenticate pbkdf2 name pw db) in (p \<noteq> None, p))
      | _ \<Rightarrow> (False, None))"

record session_response =
  sr_cookie_value :: string
  sr_cookie :: session_cookie_settings
  sr_operator_id :: string
  sr_auth_mode :: string
  sr_organization_id :: "string option"
  sr_role :: "string option"

definition session_response_of :: "gate_settings \<Rightarrow> admin_session \<Rightarrow> session_response" where
  "session_response_of g s =
     \<lparr>sr_cookie_value = se_session_id s,
      sr_cookie = build_session_cookie_settings (gs_session_ttl_seconds g) (gs_session_cookie_secure g),
      sr_operator_id = se_operator_id s, sr_auth_mode = auth_mode_text (gs_auth_mode g), sr_organization_id = se_organization_id s,
      sr_role = se_role s\<rparr>"

definition account_action :: "string \<Rightarrow> admin_session \<Rightarrow> product_action" where
  "account_action action s =
     \<lparr>ga_action = action, ga_resource_type = ''account'', ga_resource_id = se_operator_id s,
      ga_organization_id = or_text (se_organization_id s) (se_operator_id s), ga_actor_id = se_operator_id s,
      ga_actor_role = or_text (se_role s) ''administrator''\<rparr>"

definition auth_login ::
  "(string \<Rightarrow> string) \<Rightarrow> (string \<Rightarrow> string \<Rightarrow> int \<Rightarrow> string option) \<Rightarrow> gate_settings \<Rightarrow> instant \<Rightarrow> session_draw \<Rightarrow> string option
     \<Rightarrow> string option \<Rightarrow> string option \<Rightarrow> gate_state \<Rightarrow> (gate_error + session_response) \<times> gate_state" where
  "auth_login sha256 pbkdf2 g now w host username password st =
     (let key = login_client_key host; limited = rate_limited_mode g;
          (refused, a) = (if limited then throttle_check sha256 (gate_limits g) now key (gt_attempts st) else (None, gt_attempts st)) in
      case refused of Some e \<Rightarrow> (Inl e, st\<lparr>gt_attempts := a\<rparr>)
      | None \<Rightarrow>
          let (valid, p) = check_credentials pbkdf2 g username password (gt_team st) in
          if \<not> valid
          then (Inl InvalidCredentials, st\<lparr>gt_attempts := if limited then attempts_failure sha256 (gate_limits g) now key a else a\<rparr>)
          else
            (let st1 = st\<lparr>gt_attempts := attempts_reset sha256 key a\<rparr>;
                 (created, sessions) =
                   (case p of
                      Some q \<Rightarrow> admin_create_session sha256 (gs_session_ttl_seconds g) now w (tp_user_id q) (auth_mode_text (gs_auth_mode g))
                        (Some (tp_organization_id q)) (Some (role_name (tp_role q))) (gt_sessions st)
                    | None \<Rightarrow> admin_create_session sha256 (gs_session_ttl_seconds g) now w (gs_local_operator_id g)
                        (auth_mode_text (gs_auth_mode g)) None None (gt_sessions st));
                 st2 = st1\<lparr>gt_sessions := sessions\<rparr> in
             case created of Inl e \<Rightarrow> (Inl (Unhandled e), st2)
             | Inr s \<Rightarrow> (Inr (session_response_of g s), st2\<lparr>gt_actions := gt_actions st @ [account_action ''auth.login'' s]\<rparr>)))"

definition auth_logout ::
  "(string \<Rightarrow> string) \<Rightarrow> gate_settings \<Rightarrow> instant \<Rightarrow> string option \<Rightarrow> gate_state \<Rightarrow> gate_state" where
  "auth_logout sha256 g now cookie st =
     (let (session, st1) = current_session_for_request sha256 g now cookie st;
          st2 = st1\<lparr>gt_sessions := admin_invalidate_session sha256 now cookie (gt_sessions st1)\<rparr> in
      case session of None \<Rightarrow> st2
      | Some s \<Rightarrow> st2\<lparr>gt_actions := gt_actions st2 @ [account_action ''auth.logout'' s]\<rparr>)"

subsection \<open>Invitations, organizations and members\<close>

definition principal_action :: "string \<Rightarrow> string \<Rightarrow> string \<Rightarrow> team_principal \<Rightarrow> product_action" where
  "principal_action action resource_type resource_id p =
     \<lparr>ga_action = action, ga_resource_type = resource_type, ga_resource_id = resource_id, ga_organization_id = tp_organization_id p,
      ga_actor_id = tp_user_id p, ga_actor_role = role_name (tp_role p)\<rparr>"

definition accept_team_invitation ::
  "(string \<Rightarrow> string) \<Rightarrow> (string \<Rightarrow> string \<Rightarrow> int \<Rightarrow> string option) \<Rightarrow> gate_settings \<Rightarrow> instant \<Rightarrow> string \<Rightarrow> string \<Rightarrow> string option
     \<Rightarrow> string \<Rightarrow> string \<Rightarrow> gate_state \<Rightarrow> (gate_error + string) \<times> gate_state" where
  "accept_team_invitation sha256 pbkdf2 g now salt new_id host token password st =
     (case (gs_auth_mode g, gt_team st) of
        (PrivateTeam, Some db) \<Rightarrow>
          (let key = login_client_key host; (refused, a) = throttle_check sha256 (gate_limits g) now key (gt_attempts st) in
           case refused of Some e \<Rightarrow> (Inl e, st\<lparr>gt_attempts := a\<rparr>)
           | None \<Rightarrow>
               (case accept_invitation sha256 pbkdf2 salt new_id now token password db of
                  (Inl (PasswordRejected Pbkdf2Error), db') \<Rightarrow>
                    (Inl (Unhandled Pbkdf2Error), st\<lparr>gt_team := Some db', gt_attempts := a\<rparr>)
                | (Inl e, db') \<Rightarrow>
                    (Inl InvitationRejected,
                     st\<lparr>gt_team := Some db', gt_attempts := attempts_failure sha256 (gate_limits g) now key a\<rparr>)
                | (Inr p, db') \<Rightarrow>
                    (Inr (tp_username p),
                     st\<lparr>gt_team := Some db', gt_attempts := attempts_reset sha256 key a,
                        gt_actions := gt_actions st @ [principal_action ''team.invitation_accepted'' ''account'' (tp_user_id p) p]\<rparr>)))
      | _ \<Rightarrow> (Inl InvitationMissing, st))"

definition team_scope_identifier :: "string \<Rightarrow> string \<Rightarrow> bool" where
  "team_scope_identifier bootstrap_value v \<longleftrightarrow> v = bootstrap_value \<or> is_hex_id 32 v"

definition select_team_organization ::
  "(string \<Rightarrow> string) \<Rightarrow> gate_settings \<Rightarrow> instant \<Rightarrow> session_draw \<Rightarrow> string option \<Rightarrow> string \<Rightarrow> gate_state
     \<Rightarrow> (gate_error + session_response) \<times> gate_state" where
  "select_team_organization sha256 g now w cookie organization_id st =
     (case current_team_principal sha256 g now cookie st of
        (Inl e, st1) \<Rightarrow> (Inl e, st1)
      | (Inr p, st1) \<Rightarrow>
          if \<not> team_scope_identifier bootstrap_organization_id organization_id then (Inl WorkspaceMissing, st1)
          else (case (case gt_team st1 of None \<Rightarrow> None | Some db \<Rightarrow> get_principal (tp_user_id p) organization_id db) of
                  None \<Rightarrow> (Inl WorkspaceMissing, st1)
                | Some q \<Rightarrow>
                    (let ended = admin_invalidate_session sha256 now cookie (gt_sessions st1);
                         (created, sessions) = admin_create_session sha256 (gs_session_ttl_seconds g) now w (tp_user_id q)
                           (auth_mode_text PrivateTeam) (Some (tp_organization_id q)) (Some (role_name (tp_role q))) ended;
                         st2 = st1\<lparr>gt_sessions := sessions\<rparr> in
                     case created of Inl e \<Rightarrow> (Inl (Unhandled e), st2)
                     | Inr s \<Rightarrow>
                         (Inr (session_response_of g s),
                          st2\<lparr>gt_actions := gt_actions st2 @
                            [principal_action ''team.organization_selected'' ''organization'' (tp_organization_id q) q]\<rparr>))))"

definition change_team_member_role ::
  "(string \<Rightarrow> string) \<Rightarrow> gate_settings \<Rightarrow> instant \<Rightarrow> string option \<Rightarrow> string \<Rightarrow> string \<Rightarrow> gate_state
     \<Rightarrow> (gate_error + team_member) \<times> gate_state" where
  "change_team_member_role sha256 g now cookie user_id role st =
     (case require_team_administrator sha256 g now cookie st of
        (Inl e, st1) \<Rightarrow> (Inl e, st1)
      | (Inr p, st1) \<Rightarrow>
          if \<not> team_scope_identifier bootstrap_admin_id user_id then (Inl MemberMissing, st1)
          else (case gt_team st1 of None \<Rightarrow> (Inl IdentityUnavailable, st1)
                | Some db \<Rightarrow>
                    (case change_member_role p user_id role db of
                       (Inl e, db') \<Rightarrow>
                         (Inl (case e of LastAdministrator \<Rightarrow> LastAdministratorKept | MemberNotFound \<Rightarrow> MemberMissing | _ \<Rightarrow> IdentityUnavailable),
                          st1\<lparr>gt_team := Some db'\<rparr>)
                     | (Inr m, db') \<Rightarrow>
                         (let (ended, sessions) = (if user_id \<noteq> tp_user_id p
                                then admin_invalidate_member now user_id (tp_organization_id p) (gt_sessions st1)
                                else (Inr 0, gt_sessions st1));
                              st2 = st1\<lparr>gt_team := Some db', gt_sessions := sessions\<rparr> in
                          case ended of Inl e \<Rightarrow> (Inl (Unhandled e), st2)
                          | Inr _ \<Rightarrow>
                              (Inr m, st2\<lparr>gt_actions := gt_actions st2 @
                                 [principal_action ''team.member_role_changed'' ''account'' (me_user_id m) p]\<rparr>)))))"


text \<open>\<open>reconcile\<close> takes the member's responsibilities away in the other stores, whose state is \<open>ext\<close>.\<close>

definition revoke_team_member ::
  "(string \<Rightarrow> string) \<Rightarrow> gate_settings \<Rightarrow> instant \<Rightarrow> string option \<Rightarrow> string \<Rightarrow> ('x \<Rightarrow> ('e callback_error + 't) \<times> 'x) \<Rightarrow> gate_state \<Rightarrow> 'x
     \<Rightarrow> (gate_error + unit) \<times> gate_state \<times> 'x" where
  "revoke_team_member sha256 g now cookie user_id reconcile st ext =
     (case require_team_administrator sha256 g now cookie st of
        (Inl e, st1) \<Rightarrow> (Inl e, st1, ext)
      | (Inr p, st1) \<Rightarrow>
          if \<not> team_scope_identifier bootstrap_admin_id user_id then (Inl MemberMissing, st1, ext)
          else if user_id = bootstrap_admin_id then (Inl LastAdministratorKept, st1, ext)
          else (case gt_team st1 of None \<Rightarrow> (Inl IdentityUnavailable, st1, ext)
                | Some db \<Rightarrow>
                    if get_principal user_id (tp_organization_id p) db = None then (Inl MemberMissing, st1, ext)
                    else (let (ended, sessions) = admin_invalidate_member now user_id (tp_organization_id p) (gt_sessions st1);
                              st2 = st1\<lparr>gt_sessions := sessions\<rparr> in
                      case ended of Inl e \<Rightarrow> (Inl (Unhandled e), st2, ext)
                      | Inr _ \<Rightarrow>
                          (case revoke_member now p user_id (Some reconcile) db ext of
                             (Inl (TeamFailure LastAdministrator), db', ext') \<Rightarrow> (Inl LastAdministratorKept, st2\<lparr>gt_team := Some db'\<rparr>, ext')
                           | (Inl (TeamFailure MemberNotFound), db', ext') \<Rightarrow> (Inl MemberMissing, st2\<lparr>gt_team := Some db'\<rparr>, ext')
                           | (Inl e, db', ext') \<Rightarrow> (Inl IdentityUnavailable, st2\<lparr>gt_team := Some db'\<rparr>, ext')
                           | (Inr v, db', ext') \<Rightarrow>
                               (Inr (), st2\<lparr>gt_team := Some db', gt_actions := gt_actions st2 @
                                  [principal_action ''team.member_revoked'' ''account'' user_id p]\<rparr>, ext')))))"

end
