(* ===== verification/Login_Security.thy ===== *)
theory Login_Security
  imports Login_Gate
begin

section \<open>What the login guarantees\<close>

text \<open>
  The contract of the attempt store is the locale \<open>attempt_provider\<close>, over what the store knows of a client and is not expired; both kinds of
  store are instances as long as the clients stay within the limit. From it follow the lockout of the login and what defeats it. The
  other theorems combine the session store with the team identities: who logged in is let through, a member who was revoked is not.
\<close>

subsection \<open>The contract of the attempt store\<close>

definition below :: "nat \<Rightarrow> login_record option \<Rightarrow> bool" where
  "below n v \<longleftrightarrow> (case v of None \<Rightarrow> True | Some r \<Rightarrow> lr_locked_until r = None \<and> lr_failure_count r \<le> int n)"

locale attempt_provider =
  fixes ok :: "'s \<Rightarrow> bool"
    and live :: "instant \<Rightarrow> 's \<Rightarrow> string \<Rightarrow> login_record option"
    and purge :: "instant \<Rightarrow> 's \<Rightarrow> 's"
    and locked :: "instant \<Rightarrow> string \<Rightarrow> 's \<Rightarrow> bool \<times> 's"
    and wait :: "instant \<Rightarrow> string \<Rightarrow> 's \<Rightarrow> int \<times> 's"
    and failure :: "instant \<Rightarrow> string \<Rightarrow> 's \<Rightarrow> 's"
    and reset :: "string \<Rightarrow> 's \<Rightarrow> 's"
    and limits :: login_limits
    and K :: "string set"
  assumes limits: "limits_ok limits"
    and later: "now \<le> now' \<Longrightarrow> live now' s k = (case live now s k of None \<Rightarrow> None | Some r \<Rightarrow> live_record limits now' r)"
    and purge: "ok s \<Longrightarrow> k \<in> K \<Longrightarrow> ok (purge now s) \<and> live now (purge now s) k = live now s k"
    and locked: "ok s \<Longrightarrow> k \<in> K \<Longrightarrow> fst (locked now k s) = lock_answer (live now s k) \<and> ok (snd (locked now k s)) \<and>
      live now (snd (locked now k s)) k = live now s k"
    and wait: "ok s \<Longrightarrow> k \<in> K \<Longrightarrow> fst (wait now k s) = wait_answer now (live now s k) \<and> ok (snd (wait now k s)) \<and>
      live now (snd (wait now k s)) k = live now s k"
    and failure: "ok s \<Longrightarrow> k \<in> K \<Longrightarrow> ok (failure now k s) \<and>
      live now (failure now k s) k = live_record limits now (next_record limits now k (live now s k))"
    and reset: "ok s \<Longrightarrow> k \<in> K \<Longrightarrow> ok (reset k s) \<and> live now (reset k s) k = None"
begin

lemma check:
  assumes "ok s" "k \<in> K"
  shows "fst (locked now k (purge now s)) = lock_answer (live now s k)" "ok (snd (locked now k (purge now s)))"
    "live now (snd (locked now k (purge now s))) k = live now s k"
    "fst (wait now k (snd (locked now k (purge now s)))) = wait_answer now (live now s k)"
  using assms purge locked wait by auto

text \<open>The state of a client after some failures in a row.\<close>

lemma next_failure:
  assumes "live t s k = None \<and> n = 0 \<or>
      (\<exists>r. live t s k = Some r \<and> lr_failure_count r = int n \<and> lr_last_failed_at r = t \<and> lr_locked_until r = None)"
    and "t \<le> now" "n = 0 \<or> now < t + seconds (window_seconds limits)"
  shows "\<exists>r. live_record limits now (next_record limits now k (live now s k)) = Some r \<and> lr_failure_count r = int (Suc n) \<and>
    lr_last_failed_at r = now \<and> lr_locked_until r = lock_after limits now (int (Suc n))"
proof -
  have pos: "seconds (window_seconds limits) > 0" "seconds (lockout_seconds limits) > 0"
    using limits by (auto simp: limits_ok_def seconds_def)
  have fresh: "\<not> is_expired limits r now" if "lr_last_failed_at r = now" "lr_locked_until r = lock_after limits now c" for r c
    using that pos by (auto simp: is_expired_def lock_after_def)
  show ?thesis
  proof (cases "live t s k")
    case None
    then have "live now s k = None" "n = 0" using later [OF assms(2), of s k] assms(1) by auto
    then show ?thesis using fresh by (auto simp: live_record_def next_record_def lock_after_def)
  next
    case (Some r)
    then have r: "lr_failure_count r = int n" "lr_last_failed_at r = t" "lr_locked_until r = None" using assms(1) by auto
    show ?thesis
    proof (cases "is_expired limits r now")
      case True
      then have "n = 0" "live now s k = None"
        using assms(3) r later [OF assms(2), of s k] Some by (auto simp: is_expired_def live_record_def)
      then show ?thesis using fresh by (auto simp: live_record_def next_record_def lock_after_def)
    next
      case False
      then have "live now s k = Some r" using later [OF assms(2), of s k] Some by (simp add: live_record_def)
      then show ?thesis using fresh False r by (auto simp: live_record_def next_record_def add.commute)
    qed
  qed
qed

text \<open>Failures that do not reach the limit leave the client unlocked.\<close>

lemma wait_positive:
  assumes "lock_answer (live now s k)"
  shows "wait_answer now (live now s k) \<ge> 1"
proof -
  obtain r u where r: "live now s k = Some r" "lr_locked_until r = Some u"
    using assms by (auto simp: lock_answer_def split: option.splits)
  then have "now < u" using later [of now now s k] by (auto simp: live_record_def is_expired_def split: if_splits)
  then have "ceil_seconds (u - now) \<ge> 1" unfolding ceil_seconds_def by linarith
  then show ?thesis using r by (simp add: wait_answer_def)
qed

lemma below_later: "below n (live t s k) \<Longrightarrow> t \<le> now \<Longrightarrow> below n (live now s k)"
  using later [of t now s k] by (auto simp: below_def live_record_def split: option.splits)

lemma below_failure:
  assumes "below n v" "int (Suc n) < max_failures limits"
  shows "below (Suc n) (live_record limits now (next_record limits now k v))"
  using assms by (auto simp: below_def live_record_def next_record_def lock_after_def split: option.splits)

lemma below_unlocked: "below n v \<Longrightarrow> \<not> lock_answer v"
  by (auto simp: below_def lock_answer_def split: option.splits)

end

subsection \<open>Both stores are instances\<close>

text \<open>The clients of a run: no more than the limit, with different digests, named as \<^verbatim>\<open>_client_key\<close> names them.\<close>

definition clients_ok :: "(string \<Rightarrow> string) \<Rightarrow> login_limits \<Rightarrow> string set \<Rightarrow> bool" where
  "clients_ok sha256 limits K \<longleftrightarrow> finite K \<and> card K \<le> max_keys limits \<and> inj_on (\<lambda>k. hash_client_key sha256 (Some k)) K \<and>
     (\<forall>k \<in> K. client_key (Some k) = k)"

fun attempts_ok :: "(string \<Rightarrow> string) \<Rightarrow> login_limits \<Rightarrow> string set \<Rightarrow> attempt_backend \<Rightarrow> bool" where
  "attempts_ok sha256 limits K (MemoryAttempts d) \<longleftrightarrow> clients_ok sha256 limits K \<and> dict_keys_ok K d"
| "attempts_ok sha256 limits K (SqliteAttempts t) \<longleftrightarrow> clients_ok sha256 limits K \<and> table_keys_ok sha256 K t"

fun attempts_live :: "(string \<Rightarrow> string) \<Rightarrow> login_limits \<Rightarrow> instant \<Rightarrow> attempt_backend \<Rightarrow> string \<Rightarrow> login_record option" where
  "attempts_live sha256 limits now (MemoryAttempts d) k = dict_live limits now d k"
| "attempts_live sha256 limits now (SqliteAttempts t) k = table_live sha256 limits now t k"

lemma clients_okD:
  assumes "clients_ok sha256 limits K"
  shows "finite K" "card K \<le> max_keys limits" "inj_on (key_hash sha256) K" "k \<in> K \<Longrightarrow> client_key (Some k) = k"
  using assms by (simp_all add: clients_ok_def key_hash_def [abs_def])

interpretation attempts: attempt_provider
  "attempts_ok sha256 (make_limits w f l m) K" "attempts_live sha256 (make_limits w f l m)" "attempts_purge (make_limits w f l m)"
  "attempts_locked sha256 (make_limits w f l m)" "attempts_wait sha256 (make_limits w f l m)" "attempts_failure sha256 (make_limits w f l m)"
  "attempts_reset sha256" "make_limits w f l m" K
  for sha256 w f l m K
proof
  let ?limits = "make_limits w f l m"
  show "limits_ok ?limits" by simp
  show "attempts_live sha256 ?limits now' s k =
      (case attempts_live sha256 ?limits now s k of None \<Rightarrow> None | Some r \<Rightarrow> live_record ?limits now' r)" if "now \<le> now'" for now now' s k
    using that by (cases s) (simp_all add: dict_live_later table_live_later live_record_def split: option.splits)
  fix s k now
  assume ok: "attempts_ok sha256 ?limits K s" and k: "k \<in> K"
  have K: "clients_ok sha256 ?limits K" using ok by (cases s) simp_all
  have key: "client_key (Some k) = k" by (rule clients_okD(4) [OF K k])
  show "attempts_ok sha256 ?limits K (attempts_purge ?limits now s) \<and>
      attempts_live sha256 ?limits now (attempts_purge ?limits now s) k = attempts_live sha256 ?limits now s k"
    using ok dict_purge [of K] table_purge [OF _ make_limits_ok, of sha256 K] by (cases s) auto
  show "fst (attempts_locked sha256 ?limits now k s) = lock_answer (attempts_live sha256 ?limits now s k) \<and>
      attempts_ok sha256 ?limits K (snd (attempts_locked sha256 ?limits now k s)) \<and>
      attempts_live sha256 ?limits now (snd (attempts_locked sha256 ?limits now k s)) k = attempts_live sha256 ?limits now s k"
    using ok key dict_answers(1) [of ?limits now "Some k"] dict_answers(2) [of ?limits now K _ "Some k"]
      table_answers(1,2) [OF _ make_limits_ok, of sha256 K _ w f l m now "Some k"]
    by (cases s) (simp_all add: dict_query_def table_query_def)
  show "fst (attempts_wait sha256 ?limits now k s) = wait_answer now (attempts_live sha256 ?limits now s k) \<and>
      attempts_ok sha256 ?limits K (snd (attempts_wait sha256 ?limits now k s)) \<and>
      attempts_live sha256 ?limits now (snd (attempts_wait sha256 ?limits now k s)) k = attempts_live sha256 ?limits now s k"
    using ok key dict_answers(3) [of now "Some k" _ ?limits] dict_answers(4) [of ?limits now K _ "Some k"]
      table_answers(3,4) [OF _ make_limits_ok, of sha256 K _ w f l m now "Some k"]
    by (cases s) (simp_all add: dict_query_def table_query_def)
  show "attempts_ok sha256 ?limits K (attempts_failure sha256 ?limits now k s) \<and>
      attempts_live sha256 ?limits now (attempts_failure sha256 ?limits now k s) k =
        live_record ?limits now (next_record ?limits now k (attempts_live sha256 ?limits now s k))"
  proof (cases s)
    case (MemoryAttempts d)
    then show ?thesis
      using dict_failure [OF _ _ clients_okD(1,2) [OF K] refl, of d "Some k" now] ok k key K by auto
  next
    case (SqliteAttempts t)
    then show ?thesis
      using table_failure [OF _ _ clients_okD(1,2) [OF K] make_limits_ok clients_okD(3) [OF K] refl, of t "Some k" now] ok k key K
      by auto
  qed
  show "attempts_ok sha256 ?limits K (attempts_reset sha256 k s) \<and> attempts_live sha256 ?limits now (attempts_reset sha256 k s) k = None"
    for now
  proof (cases s)
    case (MemoryAttempts d)
    then show ?thesis using ok key K dict_keys_pop by (simp add: reset_success_def Let_def dict_live_pop)
  next
    case (SqliteAttempts t)
    then show ?thesis
      using ok key K table_keys_filter select_key_Some [of la_client_key_hash "key_hash sha256 k" t]
      by (auto simp: sqlite_reset_success_def reset_login_attempt_def sql_delete_def key_hash_def table_live_def select_key_filter
          table_keys_ok_def split: option.splits)
  qed
qed

subsection \<open>The throttle of the login\<close>

definition login_attempts_ok :: "(string \<Rightarrow> string) \<Rightarrow> gate_settings \<Rightarrow> string set \<Rightarrow> gate_state \<Rightarrow> bool" where
  "login_attempts_ok sha256 g K st \<longleftrightarrow> rate_limited_mode g \<and> attempts_ok sha256 (gate_limits g) K (gt_attempts st)"

definition client_live :: "(string \<Rightarrow> string) \<Rightarrow> gate_settings \<Rightarrow> instant \<Rightarrow> string option \<Rightarrow> gate_state \<Rightarrow> login_record option" where
  "client_live sha256 g now host st = attempts_live sha256 (gate_limits g) now (gt_attempts st) (login_client_key host)"

lemma client_later:
  "now \<le> now' \<Longrightarrow> client_live sha256 g now' host st =
     (case client_live sha256 g now host st of None \<Rightarrow> None | Some r \<Rightarrow> live_record (gate_limits g) now' r)"
  unfolding client_live_def gate_limits_def by (rule attempts.later)

lemma login_locked:
  assumes "login_attempts_ok sha256 g K st" "login_client_key host \<in> K" "lock_answer (client_live sha256 g now host st)"
  shows "\<exists>wait a. 1 \<le> wait \<and>
    auth_login sha256 pbkdf2 g now w host username password st = (Inl (TooManyRequests (Some wait)), st\<lparr>gt_attempts := a\<rparr>)"
proof -
  have ok: "attempts_ok sha256 (gate_limits g) K (gt_attempts st)" "rate_limited_mode g" using assms(1) by (simp_all add: login_attempts_ok_def)
  note c = attempts.check [OF ok(1) [unfolded gate_limits_def] assms(2), folded gate_limits_def]
  have "1 \<le> wait_answer now (client_live sha256 g now host st)"
    using attempts.wait_positive [OF assms(3) [unfolded client_live_def gate_limits_def]] unfolding client_live_def gate_limits_def .
  then show ?thesis
    using c(1,4) [of now] assms(3) ok(2)
    by (auto simp: auth_login_def throttle_check_def client_live_def Let_def case_prod_beta)
qed

lemma login_wrong:
  assumes "login_attempts_ok sha256 g K st" "login_client_key host \<in> K" "\<not> lock_answer (client_live sha256 g now host st)"
    and "\<not> fst (check_credentials pbkdf2 g username password (gt_team st))"
  shows "\<exists>a. auth_login sha256 pbkdf2 g now w host username password st = (Inl InvalidCredentials, st\<lparr>gt_attempts := a\<rparr>) \<and>
    login_attempts_ok sha256 g K (st\<lparr>gt_attempts := a\<rparr>) \<and> client_live sha256 g now host (st\<lparr>gt_attempts := a\<rparr>) =
      live_record (gate_limits g) now (next_record (gate_limits g) now (login_client_key host) (client_live sha256 g now host st))"
proof -
  have ok: "attempts_ok sha256 (gate_limits g) K (gt_attempts st)" "rate_limited_mode g" using assms(1) by (simp_all add: login_attempts_ok_def)
  note c = attempts.check [OF ok(1) [unfolded gate_limits_def] assms(2), folded gate_limits_def]
  note f = attempts.failure [OF c(2) [unfolded gate_limits_def] assms(2), folded gate_limits_def]
  show ?thesis
    using c(1,3) [of now] f [of now now] assms(3,4) ok(2)
    by (auto simp: auth_login_def throttle_check_def client_live_def login_attempts_ok_def Let_def case_prod_beta)
qed

lemma login_right:
  assumes "login_attempts_ok sha256 g K st" "login_client_key host \<in> K" "\<not> lock_answer (client_live sha256 g now host st)"
    and "fst (check_credentials pbkdf2 g username password (gt_team st))"
    and "auth_login sha256 pbkdf2 g now w host username password st = (result, st')"
  shows "\<nexists>wait. result = Inl (TooManyRequests wait)" "login_attempts_ok sha256 g K st'" "client_live sha256 g now host st' = None"
    "gt_team st' = gt_team st"
proof -
  have ok: "attempts_ok sha256 (gate_limits g) K (gt_attempts st)" "rate_limited_mode g" using assms(1) by (simp_all add: login_attempts_ok_def)
  note c = attempts.check [OF ok(1) [unfolded gate_limits_def] assms(2), folded gate_limits_def]
  note r = attempts.reset [OF c(2) [unfolded gate_limits_def] assms(2), folded gate_limits_def]
  have "gt_attempts st' = attempts_reset sha256 (login_client_key host)
      (snd (attempts_locked sha256 (gate_limits g) now (login_client_key host) (attempts_purge (gate_limits g) now (gt_attempts st)))) \<and>
      gt_team st' = gt_team st \<and> (\<nexists>wait. result = Inl (TooManyRequests wait))"
    using assms(3-5) c(1) [of now] ok(2)
    by (auto simp: auth_login_def throttle_check_def client_live_def Let_def case_prod_beta split: sum.splits)
  then show "\<nexists>wait. result = Inl (TooManyRequests wait)" "login_attempts_ok sha256 g K st'" "client_live sha256 g now host st' = None"
      "gt_team st' = gt_team st"
    using r ok(2) by (simp_all add: login_attempts_ok_def client_live_def)
qed

text \<open>Login attempts from one address, one after the other: the time, what the token factories return, the name and the password.\<close>

type_synonym login_try = "instant \<times> session_draw \<times> string option \<times> string option"

fun login_tries ::
  "(string \<Rightarrow> string) \<Rightarrow> (string \<Rightarrow> string \<Rightarrow> int \<Rightarrow> string option) \<Rightarrow> gate_settings \<Rightarrow> string option \<Rightarrow> login_try list \<Rightarrow> gate_state
     \<Rightarrow> (gate_error + session_response) list \<times> gate_state" where
  "login_tries sha256 pbkdf2 g host [] st = ([], st)"
| "login_tries sha256 pbkdf2 g host ((now, w, username, password) # tries) st =
     (let (result, st1) = auth_login sha256 pbkdf2 g now w host username password st;
          (results, st2) = login_tries sha256 pbkdf2 g host tries st1 in (result # results, st2))"

definition try_valid :: "(string \<Rightarrow> string \<Rightarrow> int \<Rightarrow> string option) \<Rightarrow> gate_settings \<Rightarrow> team_db option \<Rightarrow> login_try \<Rightarrow> bool" where
  "try_valid pbkdf2 g team t = (case t of (now, w, username, password) \<Rightarrow> fst (check_credentials pbkdf2 g username password team))"

text \<open>The state of the client after \<open>n\<close> failures, the last at \<open>t\<close>.\<close>

definition failures_counted :: "(string \<Rightarrow> string) \<Rightarrow> gate_settings \<Rightarrow> string option \<Rightarrow> instant \<Rightarrow> nat \<Rightarrow> gate_state \<Rightarrow> bool" where
  "failures_counted sha256 g host t n st \<longleftrightarrow>
     (client_live sha256 g t host st = None \<and> n = 0 \<or>
      (\<exists>r. client_live sha256 g t host st = Some r \<and> lr_failure_count r = int n \<and> lr_last_failed_at r = t \<and>
         lr_locked_until r = lock_after (gate_limits g) t (int n)))"

lemma failing_tries:
  assumes "login_client_key host \<in> K"
  shows "login_attempts_ok sha256 g K st \<Longrightarrow> failures_counted sha256 g host t n st \<Longrightarrow> sorted (t # map fst tries) \<Longrightarrow>
    (n = 0 \<and> within_window (gate_limits g) (map fst tries)) \<or> within_window (gate_limits g) (t # map fst tries) \<Longrightarrow>
    int (n + length tries) \<le> max_failures (gate_limits g) \<Longrightarrow> list_all (\<lambda>x. \<not> try_valid pbkdf2 g (gt_team st) x) tries \<Longrightarrow>
    login_tries sha256 pbkdf2 g host tries st = (results, st') \<Longrightarrow>
    \<exists>a. st' = st\<lparr>gt_attempts := a\<rparr> \<and> login_attempts_ok sha256 g K st' \<and> list_all (\<lambda>x. x = Inl InvalidCredentials) results \<and>
      failures_counted sha256 g host (last (t # map fst tries)) (n + length tries) st'"
proof (induction tries arbitrary: st t n results)
  case Nil
  then show ?case by (auto intro: exI [of _ "gt_attempts st"])
next
  case (Cons x tries)
  obtain now w username password where x: "x = (now, w, username, password)" by (cases x)
  have le: "t \<le> now" using Cons.prems(3) x by simp
  have small: "int n < max_failures (gate_limits g)" using Cons.prems(5) by simp
  have unlocked: "client_live sha256 g t host st = None \<and> n = 0 \<or> (\<exists>r. client_live sha256 g t host st = Some r \<and>
      lr_failure_count r = int n \<and> lr_last_failed_at r = t \<and> lr_locked_until r = None)"
    using Cons.prems(2) small by (auto simp: failures_counted_def lock_after_def)
  have "\<not> lock_answer (client_live sha256 g now host st)"
    using unlocked client_later [OF le, of sha256 g host st] by (auto simp: lock_answer_def live_record_def split: option.splits if_splits)
  from login_wrong [OF Cons.prems(1) assms this, of pbkdf2 username password w] Cons.prems(6) x obtain a where
    a: "auth_login sha256 pbkdf2 g now w host username password st = (Inl InvalidCredentials, st\<lparr>gt_attempts := a\<rparr>)"
      "login_attempts_ok sha256 g K (st\<lparr>gt_attempts := a\<rparr>)"
      "client_live sha256 g now host (st\<lparr>gt_attempts := a\<rparr>) =
        live_record (gate_limits g) now (next_record (gate_limits g) now (login_client_key host) (client_live sha256 g now host st))"
    by (auto simp: try_valid_def)
  have "n = 0 \<or> now < t + seconds (window_seconds (gate_limits g))" using Cons.prems(4) x by auto
  then have counted: "failures_counted sha256 g host now (Suc n) (st\<lparr>gt_attempts := a\<rparr>)"
    using attempts.next_failure [OF unlocked [unfolded client_live_def gate_limits_def] le, folded gate_limits_def client_live_def]
    unfolding failures_counted_def a(3) by auto
  obtain rest where rest: "login_tries sha256 pbkdf2 g host tries (st\<lparr>gt_attempts := a\<rparr>) = (rest, st')" "results = Inl InvalidCredentials # rest"
    using Cons.prems(7) x a(1) by (auto split: prod.splits)
  have "within_window (gate_limits g) (now # map fst tries)"
    using Cons.prems(4) x by (cases tries) auto
  then show ?case using Cons.IH [OF a(2) counted _ _ _ _ rest(1)] Cons.prems(3,5,6) x rest(2) by auto
qed


text \<open>
  Passwords cannot be guessed from one address at will: after \<open>max_failures\<close> failed logins of a client, each within the window after the
  one before, every login from that address until the lockout has passed is refused with a positive time to wait, also with the right password, and
  no session is created. This holds for both kinds of store, in states with at most \<open>max_keys\<close> clients of different digests.
\<close>

theorem repeated_failures_lock_login:
  assumes "login_attempts_ok sha256 g K st" "login_client_key host \<in> K" "client_live sha256 g (fst (hd tries)) host st = None"
    and "int (length tries) = max_failures (gate_limits g)" "within_window (gate_limits g) (map fst tries)"
    and "list_all (\<lambda>x. \<not> try_valid pbkdf2 g (gt_team st) x) tries" "sorted (map fst tries @ [t])"
    and "t < last (map fst tries) + seconds (lockout_seconds (gate_limits g))"
    and "login_tries sha256 pbkdf2 g host tries st = (results, st')"
  shows "(\<exists>wait a. 1 \<le> wait \<and>
      auth_login sha256 pbkdf2 g t w host username password st' = (Inl (TooManyRequests (Some wait)), st'\<lparr>gt_attempts := a\<rparr>)) \<and>
    gt_sessions st' = gt_sessions st \<and> list_all (\<lambda>x. x = Inl InvalidCredentials) results"
proof -
  have "limits_ok (gate_limits g)" by (simp add: gate_limits_def)
  then have nonempty: "tries \<noteq> []" using assms(4) by (auto simp: limits_ok_def)
  have sorted: "sorted (fst (hd tries) # map fst tries)" "\<forall>x \<in> set (map fst tries). x \<le> t" "sorted (map fst tries)"
    using assms(7) nonempty by (cases tries; auto simp: sorted_append)+
  have last: "last (fst (hd tries) # map fst tries) = last (map fst tries)" "last (map fst tries) \<in> set (map fst tries)"
    using nonempty by (simp_all add: last_in_set del: set_map)
  have "failures_counted sha256 g host (fst (hd tries)) 0 st" using assms(3) by (simp add: failures_counted_def)
  from failing_tries [OF assms(2,1) this sorted(1) _ _ assms(6,9)] assms(4,5) obtain a where
    a: "st' = st\<lparr>gt_attempts := a\<rparr>" "login_attempts_ok sha256 g K st'" "list_all (\<lambda>x. x = Inl InvalidCredentials) results"
      "failures_counted sha256 g host (last (map fst tries)) (length tries) st'"
    unfolding last(1) by auto
  let ?u = "last (map fst tries) + seconds (lockout_seconds (gate_limits g))"
  obtain r where r: "client_live sha256 g (last (map fst tries)) host st' = Some r" "lr_locked_until r = Some ?u"
    using a(4) assms(4) nonempty by (auto simp: failures_counted_def lock_after_def)
  have "last (map fst tries) \<le> t" using sorted(2) last(2) by blast
  then have "client_live sha256 g t host st' = Some r"
    using client_later [of "last (map fst tries)" t sha256 g host st'] r assms(8) by (simp add: live_record_def is_expired_def)
  then have "lock_answer (client_live sha256 g t host st')" using r(2) by (simp add: lock_answer_def)
  from login_locked [OF a(2) assms(2) this] a(1,3) show ?thesis by simp
qed

text \<open>Fewer than \<open>m\<close> wrong logins in a row, \<open>n\<close> of them already made.\<close>

fun interleaved :: "nat \<Rightarrow> nat \<Rightarrow> bool list \<Rightarrow> bool" where
  "interleaved m n [] \<longleftrightarrow> True"
| "interleaved m n (valid # vs) \<longleftrightarrow> (if valid then interleaved m 0 vs else Suc n < m \<and> interleaved m (Suc n) vs)"

text \<open>
  A login of one's own defeats the throttle. When a client puts a right login after every \<open>max_failures - 1\<close> wrong ones, which may be for
  the account of somebody else, none of its logins is ever refused for their number, however many passwords it tries.
\<close>

theorem own_login_resets_throttle:
  assumes "login_attempts_ok sha256 g K st" "login_client_key host \<in> K" "client_live sha256 g t host st = None"
    and "sorted (t # map fst tries)" "interleaved (nat (max_failures (gate_limits g))) 0 (map (try_valid pbkdf2 g (gt_team st)) tries)"
  shows "list_all (\<lambda>x. \<nexists>wait. x = Inl (TooManyRequests wait)) (fst (login_tries sha256 pbkdf2 g host tries st))"
proof -
  have "list_all (\<lambda>x. \<nexists>wait. x = Inl (TooManyRequests wait)) (fst (login_tries sha256 pbkdf2 g host tries st))"
    if "login_attempts_ok sha256 g K st" "below n (client_live sha256 g t host st)" "sorted (t # map fst tries)"
      "interleaved (nat (max_failures (gate_limits g))) n (map (try_valid pbkdf2 g (gt_team st)) tries)" for n st t
    using that
  proof (induction tries arbitrary: n st t)
    case (Cons x tries)
    obtain now w username password where x: "x = (now, w, username, password)" by (cases x)
    have now: "t \<le> now" "sorted (now # map fst tries)" using Cons.prems(3) x by auto
    have low: "below n (client_live sha256 g now host st)"
      using attempts.below_later [OF Cons.prems(2) [unfolded client_live_def gate_limits_def] now(1)]
      unfolding client_live_def gate_limits_def .
    have unlocked: "\<not> lock_answer (client_live sha256 g now host st)" using low by (rule attempts.below_unlocked)
    show ?case
    proof (cases "try_valid pbkdf2 g (gt_team st) x")
      case True
      obtain result st1 where l: "auth_login sha256 pbkdf2 g now w host username password st = (result, st1)" by fastforce
      have "fst (check_credentials pbkdf2 g username password (gt_team st))" using True x by (simp add: try_valid_def)
      note right = login_right [OF Cons.prems(1) assms(2) unlocked this l]
      have "below 0 (client_live sha256 g now host st1)" using right(3) by (simp add: below_def)
      from Cons.IH [OF right(2) this now(2)] Cons.prems(4) True right(1,4) l x show ?thesis by (auto simp: case_prod_beta)
    next
      case False
      then have "\<not> fst (check_credentials pbkdf2 g username password (gt_team st))" using x by (simp add: try_valid_def)
      from login_wrong [OF Cons.prems(1) assms(2) unlocked this, of w] obtain a where
        a: "auth_login sha256 pbkdf2 g now w host username password st = (Inl InvalidCredentials, st\<lparr>gt_attempts := a\<rparr>)"
          "login_attempts_ok sha256 g K (st\<lparr>gt_attempts := a\<rparr>)"
          "client_live sha256 g now host (st\<lparr>gt_attempts := a\<rparr>) =
            live_record (gate_limits g) now (next_record (gate_limits g) now (login_client_key host) (client_live sha256 g now host st))"
        by blast
      have "Suc n < nat (max_failures (gate_limits g))" using Cons.prems(4) False by simp
      then have "int (Suc n) < max_failures (gate_limits g)" by linarith
      then have "below (Suc n) (client_live sha256 g now host (st\<lparr>gt_attempts := a\<rparr>))"
        unfolding a(3) using attempts.below_failure [OF low, folded gate_limits_def] low
        by (metis attempts.below_failure gate_limits_def)
      from Cons.IH [OF a(2) this now(2)] Cons.prems(4) False a(1) x show ?thesis by (auto simp: case_prod_beta)
    qed
  qed simp
  from this [OF assms(1) _ assms(4,5)] assms(3) show ?thesis by (simp add: below_def)
qed

subsection \<open>Sessions and members\<close>

lemma backend_get:
  "fst (admin_get_session sha256 now cookie b) = Some s \<Longrightarrow> \<exists>sid. cookie = Some sid \<and> sid \<noteq> []"
  by (cases b) (auto simp: get_session_def sqlite_get_session_def split: option.splits if_splits)

lemma current_session_member:
  assumes "fst (current_session_for_request sha256 g now cookie st) = Some s" "gs_auth_mode g = PrivateTeam"
  shows "\<exists>db organization p. gt_team st = Some db \<and> organization \<noteq> [] \<and> se_organization_id s = Some organization \<and>
    get_principal (se_operator_id s) organization db = Some p \<and> se_role s = Some (role_name (tp_role p))"
proof -
  obtain s' b where b: "admin_get_session sha256 now cookie (gt_sessions st) = (s', b)" by fastforce
  show ?thesis
    using assms b
    by (auto simp: current_session_for_request_def or_text_def Let_def split: option.splits list.splits if_splits)
qed

text \<open>
  In team mode a request passes the check only for a current member: the session names an organization in which its operator has an active
  membership with the role of the session, and a request of a changing method is one that this role may make.
\<close>

theorem gate_passes_members_only:
  assumes "fst (request_gate sha256 g now method path cookie csrf_header st) = Inr s" "gs_auth_mode g = PrivateTeam"
  shows "\<exists>db organization p. gt_team st = Some db \<and> se_organization_id s = Some organization \<and>
    get_principal (se_operator_id s) organization db = Some p \<and> se_role s = Some (role_name (tp_role p)) \<and>
    (method \<in> set csrf_required_methods \<longrightarrow> tp_role p \<noteq> Reader \<or> reader_may_request method path)"
proof -
  obtain s' st1 where c: "current_session_for_request sha256 g now cookie st = (s', st1)" by fastforce
  have s: "s' = Some s" and role: "method \<in> set csrf_required_methods \<Longrightarrow> \<not> reader_may_request method path \<Longrightarrow>
      team_role_allows (or_text (se_role s) []) ''project_mutate''"
    using assms c by (auto simp: request_gate_def Let_def case_prod_beta split: option.splits sum.splits if_splits)
  obtain db organization p where p: "gt_team st = Some db" "se_organization_id s = Some organization"
      "get_principal (se_operator_id s) organization db = Some p" "se_role s = Some (role_name (tp_role p))"
    using current_session_member [of sha256 g now cookie st s] c s assms(2) by auto
  have "\<not> team_role_allows ''reader'' ''project_mutate''" by code_simp
  then have "tp_role p = Reader \<Longrightarrow> \<not> team_role_allows (or_text (se_role s) []) ''project_mutate''"
    unfolding p(4) by (simp add: or_text_def)
  then show ?thesis using p role by blast
qed

text \<open>
  A revoked member is shut out at once and for good: after a revocation in a reachable store, whatever operations of the team store follow and whatever
  sessions the application still holds, no request passes the check with a session of that member in that organization.
\<close>

theorem revoked_member_shut_out:
  assumes "team_reachable sha256 pbkdf2 db" "revoke_member now p i callback db ext = (Inr v, db1, ext')"
    and "(team_step sha256 pbkdf2)\<^sup>*\<^sup>* db1 db2" "gt_team st = Some db2" "gs_auth_mode g = PrivateTeam"
    and "fst (request_gate sha256 g t method path cookie csrf_header st) = Inr s"
  shows "(se_operator_id s, se_organization_id s) \<noteq> (i, Some (tp_organization_id p))"
proof -
  have "team_ok db1" using revoke_member_keeps [OF reachable_ok [OF assms(1)], of now p i callback ext] assms(2) by simp
  then have "team_ok db2" "membership_revoked (tp_organization_id p) i db2"
    using run_keeps_revoked [OF assms(3)] revoke_member_result [OF assms(2)] by auto
  then have none: "get_principal i (tp_organization_id p) db2 = None" by (rule revoked_no_principal)
  obtain s' st1 where c: "current_session_for_request sha256 g t cookie st = (s', st1)" by fastforce
  have "s' = Some s" using c assms(6) by (auto simp: request_gate_def Let_def case_prod_beta split: option.splits sum.splits if_splits)
  then show "(se_operator_id s, se_organization_id s) \<noteq> (i, Some (tp_organization_id p))"
    using current_session_member [of sha256 g t cookie st s] c assms(4,5) none by auto
qed


lemma backend_created:
  assumes "admin_create_session sha256 ttl now w operator_id mode organization_id role b = (Inr s, b1)" "se_session_id s \<noteq> []"
  shows "se_operator_id s = operator_id" "se_organization_id s = organization_id" "se_role s = role"
    "t < now + seconds (max 1 ttl) \<Longrightarrow> admin_get_session sha256 t (Some (se_session_id s)) b1 = (Some s, b1)"
    "\<not> t < now + seconds (max 1 ttl) \<Longrightarrow> fst (admin_get_session sha256 t (Some (se_session_id s)) b1) = None"
    "dw_csrf w \<noteq> [] \<Longrightarrow> list_all (\<lambda>c. code c < 128) (dw_csrf w) \<Longrightarrow>
      fst (verify_csrf_token_for_request sha256 t (Some (dw_csrf w)) s b1) = Inr True"
proof -
  have "se_operator_id s = operator_id \<and> se_organization_id s = organization_id \<and> se_role s = role \<and>
    (t < now + seconds (max 1 ttl) \<longrightarrow> admin_get_session sha256 t (Some (se_session_id s)) b1 = (Some s, b1)) \<and>
    (\<not> t < now + seconds (max 1 ttl) \<longrightarrow> fst (admin_get_session sha256 t (Some (se_session_id s)) b1) = None) \<and>
    (dw_csrf w \<noteq> [] \<longrightarrow> list_all (\<lambda>c. code c < 128) (dw_csrf w) \<longrightarrow>
      fst (verify_csrf_token_for_request sha256 t (Some (dw_csrf w)) s b1) = Inr True)"
  proof (cases b)
    case (MemorySessions d)
    then show ?thesis
      using assms
      by (auto simp: create_admin_session_def get_session_def is_session_valid_def effective_ttl_def verify_admin_csrf_token_def
          compare_digest_str_def Let_def)
  next
    case (SqliteSessions st)
    then obtain st1 where c: "sqlite_create_session sha256 ttl now (dw_tokens w) (dw_fallback w) (dw_csrf w) operator_id mode organization_id
        role st = (Inr s, st1)" "b1 = SqliteSessions st1"
      using assms(1) by (cases "sqlite_create_session sha256 ttl now (dw_tokens w) (dw_fallback w) (dw_csrf w) operator_id mode
        organization_id role st") simp
    have same: "s\<lparr>se_csrf_token := dw_csrf w\<rparr> = s" using sqlite_created(2) [OF c(1)] by simp
    show ?thesis
      using sqlite_created [OF c(1)] c(2) same
      by (cases "dw_csrf w") (auto simp: sqlite_get_session_def state_get_session_def verify_csrf_token_def compare_digest_str_def)
  qed
  then show "se_operator_id s = operator_id" "se_organization_id s = organization_id" "se_role s = role"
    "t < now + seconds (max 1 ttl) \<Longrightarrow> admin_get_session sha256 t (Some (se_session_id s)) b1 = (Some s, b1)"
    "\<not> t < now + seconds (max 1 ttl) \<Longrightarrow> fst (admin_get_session sha256 t (Some (se_session_id s)) b1) = None"
    "dw_csrf w \<noteq> [] \<Longrightarrow> list_all (\<lambda>c. code c < 128) (dw_csrf w) \<Longrightarrow>
      fst (verify_csrf_token_for_request sha256 t (Some (dw_csrf w)) s b1) = Inr True"
    by blast+
qed

lemma login_success:
  assumes "auth_login sha256 pbkdf2 g now w host username password st = (Inr r, st1)" "gs_auth_mode g = PrivateTeam"
  shows "\<exists>db q s b. gt_team st = Some db \<and> gt_team st1 = Some db \<and>
    authenticate pbkdf2 (py_strip (or_text username [])) (or_text password []) db = Some q \<and>
    admin_create_session sha256 (gs_session_ttl_seconds g) now w (tp_user_id q) (auth_mode_text PrivateTeam) (Some (tp_organization_id q))
      (Some (role_name (tp_role q))) (gt_sessions st) = (Inr s, b) \<and>
    gt_sessions st1 = b \<and> r = session_response_of g s"
proof -
  obtain refused a where a: "throttle_check sha256 (gate_limits g) now (login_client_key host) (gt_attempts st) = (refused, a)" by fastforce
  obtain valid p where p: "check_credentials pbkdf2 g username password (gt_team st) = (valid, p)" by fastforce
  have valid: "refused = None" "valid"
    using assms a p by (auto simp: auth_login_def rate_limited_mode_def Let_def split: option.splits if_splits)
  then obtain db q where q: "gt_team st = Some db" "p = Some q"
      "authenticate pbkdf2 (py_strip (or_text username [])) (or_text password []) db = Some q"
    using p assms(2) by (auto simp: check_credentials_def Let_def split: option.splits)
  obtain c b where c: "admin_create_session sha256 (gs_session_ttl_seconds g) now w (tp_user_id q) (auth_mode_text PrivateTeam)
      (Some (tp_organization_id q)) (Some (role_name (tp_role q))) (gt_sessions st) = (c, b)" by fastforce
  show ?thesis
    using assms a p valid q c by (auto simp: auth_login_def rate_limited_mode_def Let_def split: sum.splits)
qed

text \<open>
  Who logs in is let through. After a successful login in team mode the cookie opens the check as the account whose password was given, in its organization and
  with its role, until the time to live has passed: for reading requests, and unless the account is a reader for changing requests with the CSRF token
  of the session. Afterwards it is refused.
\<close>

theorem login_opens_the_gate:
  assumes "team_reachable sha256 pbkdf2 db" "gt_team st = Some db" "gs_auth_mode g = PrivateTeam"
    and "auth_login sha256 pbkdf2 g now w host username password st = (Inr r, st1)"
    and "sr_cookie_value r \<noteq> []" "sr_organization_id r \<noteq> Some []"
    and "method \<notin> set csrf_required_methods \<or>
      sr_role r \<noteq> Some ''reader'' \<and> csrf_header = Some (dw_csrf w) \<and> dw_csrf w \<noteq> [] \<and> list_all (\<lambda>c. code c < 128) (dw_csrf w)"
  shows "\<exists>q s. authenticate pbkdf2 (py_strip (or_text username [])) (or_text password []) db = Some q \<and>
    se_operator_id s = tp_user_id q \<and> se_organization_id s = Some (tp_organization_id q) \<and> se_role s = Some (role_name (tp_role q)) \<and>
    fst (request_gate sha256 g t method path (Some (sr_cookie_value r)) csrf_header st1) =
      (if t < now + seconds (max 1 (gs_session_ttl_seconds g)) then Inr s else Inl AuthenticationRequired)"
proof -
  obtain q s b where q: "gt_team st1 = Some db" "authenticate pbkdf2 (py_strip (or_text username [])) (or_text password []) db = Some q"
      "admin_create_session sha256 (gs_session_ttl_seconds g) now w (tp_user_id q) (auth_mode_text PrivateTeam) (Some (tp_organization_id q))
        (Some (role_name (tp_role q))) (gt_sessions st) = (Inr s, b)" "gt_sessions st1 = b" "r = session_response_of g s"
    using login_success [OF assms(4,3)] assms(2) by auto
  have sid: "sr_cookie_value r = se_session_id s" "se_session_id s \<noteq> []" "sr_role r = se_role s" "sr_organization_id r = se_organization_id s"
    using q(5) assms(5) by (simp_all add: session_response_of_def)
  note made = backend_created [OF q(3) sid(2)]
  have member: "get_principal (tp_user_id q) (tp_organization_id q) db = Some q"
    by (rule authenticate_principal [OF reachable_ok [OF assms(1)] q(2)])
  have org: "tp_organization_id q \<noteq> []" using assms(6) sid(4) made(2) by simp
  have "fst (request_gate sha256 g t method path (Some (sr_cookie_value r)) csrf_header st1) =
      (if t < now + seconds (max 1 (gs_session_ttl_seconds g)) then Inr s else Inl AuthenticationRequired)"
  proof (cases "t < now + seconds (max 1 (gs_session_ttl_seconds g))")
    case True
    have current: "current_session_for_request sha256 g t (Some (sr_cookie_value r)) st1 = (Some s, st1)"
      using made(1-3) made(4) [OF True] member q(1,4) sid(1) assms(3) org
      by (auto simp: current_session_for_request_def or_text_def split: list.splits)
    have allows: "team_role_allows (role_name role) ''project_mutate''" if "role \<noteq> Reader" for role
      using that by (cases role) (simp_all add: team_role_allows_def team_role_capabilities_def team_capabilities_def)
    show ?thesis
    proof (cases "method \<in> set csrf_required_methods")
      case csrf: True
      then have "fst (verify_csrf_token_for_request sha256 t csrf_header s (gt_sessions st1)) = Inr True" "tp_role q \<noteq> Reader"
        using assms(7) made(3,6) sid(3) q(4) by auto
      then show ?thesis
        using True csrf current allows made(3) by (auto simp: request_gate_def or_text_def Let_def case_prod_beta)
    qed (use True current in \<open>simp add: request_gate_def Let_def\<close>)
  next
    case False
    then show ?thesis
      using made(5) [OF False] q(4) sid(1)
      by (auto simp: request_gate_def current_session_for_request_def Let_def case_prod_beta)
  qed
  then show ?thesis using q(2) made(1-3) by blast
qed


subsection \<open>A sample application\<close>

definition team_settings :: gate_settings where
  "team_settings = \<lparr>gs_auth_mode = PrivateTeam, gs_auth_state_store = ''sqlite'', gs_admin_password_hash = None, gs_session_ttl_seconds = 600,
     gs_session_cookie_secure = True, gs_window_seconds = 60, gs_max_failures = 2, gs_lockout_seconds = 300, gs_max_keys = 10,
     gs_local_operator_id = ''local-admin''\<rparr>"

definition sample_gate :: "team_db \<Rightarrow> gate_state" where
  "sample_gate db = \<lparr>gt_sessions = create_admin_session_store team_settings [], gt_attempts = create_login_attempt_store team_settings [],
     gt_team = Some db, gt_actions = []\<rparr>"

definition sample_draw :: session_draw where
  "sample_draw = \<lparr>dw_tokens = [''s1''], dw_fallback = ''s2'', dw_csrf = ''c1''\<rparr>"

definition sample_try :: "instant \<Rightarrow> string \<Rightarrow> login_try" where
  "sample_try t username = (t, sample_draw, Some username, Some ''correct horse'')"

lemma sample_gate_ok:
  "login_attempts_ok spread_digest team_settings {''192.0.2.1''} (sample_gate db)" "login_client_key (Some ''192.0.2.1'') \<in> {''192.0.2.1''}"
  "client_live spread_digest team_settings t (Some ''192.0.2.1'') (sample_gate db) = None"
proof -
  have "client_key (Some ''192.0.2.1'') = ''192.0.2.1''" "login_client_key (Some ''192.0.2.1'') = ''192.0.2.1''" by code_simp+
  then show "login_attempts_ok spread_digest team_settings {''192.0.2.1''} (sample_gate db)" "login_client_key (Some ''192.0.2.1'') \<in> {''192.0.2.1''}"
    "client_live spread_digest team_settings t (Some ''192.0.2.1'') (sample_gate db) = None"
    by (simp_all add: login_attempts_ok_def rate_limited_mode_def sample_gate_def create_login_attempt_store_def persistent_auth_def
        team_settings_def clients_ok_def table_keys_ok_def gate_limits_def make_limits_def client_live_def table_live_def select_key_def)
qed

lemma sample_authenticates:
  "authenticate sample_pbkdf2 ''alice'' ''correct horse'' sample_joined = Some (sample_principal ''u1'' ''alice'' Maintainer)"
  "authenticate sample_pbkdf2 ''bob'' password sample_joined = None"
proof -
  have bob: "normalize_username ''bob'' = Some ''bob''" by code_simp
  show "authenticate sample_pbkdf2 ''alice'' ''correct horse'' sample_joined = Some (sample_principal ''u1'' ''alice'' Maintainer)"
    by (simp add: authenticate_def sample_alice principal_rows_def member_rows_def first_row_def sample_verifies sample_defs)
  show "authenticate sample_pbkdf2 ''bob'' password sample_joined = None"
    by (simp add: authenticate_def bob principal_rows_def member_rows_def first_row_def sample_defs)
qed

lemma sample_credentials:
  "check_credentials sample_pbkdf2 team_settings (Some ''alice'') (Some ''correct horse'') (Some sample_joined)
     = (True, Some (sample_principal ''u1'' ''alice'' Maintainer))"
  "check_credentials sample_pbkdf2 team_settings (Some ''bob'') (Some ''correct horse'') (Some sample_joined) = (False, None)"
proof -
  have strip: "py_strip ''alice'' = ''alice''" "py_strip ''bob'' = ''bob''" by code_simp+
  show "check_credentials sample_pbkdf2 team_settings (Some ''alice'') (Some ''correct horse'') (Some sample_joined)
     = (True, Some (sample_principal ''u1'' ''alice'' Maintainer))"
    by (simp add: check_credentials_def or_text_def strip team_settings_def sample_authenticates)
  show "check_credentials sample_pbkdf2 team_settings (Some ''bob'') (Some ''correct horse'') (Some sample_joined) = (False, None)"
    by (simp add: check_credentials_def or_text_def strip team_settings_def sample_authenticates)
qed

lemma sample_tries:
  "try_valid sample_pbkdf2 team_settings (gt_team (sample_gate sample_joined)) (sample_try t ''alice'')"
  "\<not> try_valid sample_pbkdf2 team_settings (gt_team (sample_gate sample_joined)) (sample_try t ''bob'')"
  by (simp_all add: try_valid_def sample_try_def sample_gate_def sample_credentials)

lemma repeated_failures_lock_login_witness:
  "\<exists>wait. fst (auth_login spread_digest sample_pbkdf2 team_settings 70000000 sample_draw (Some ''192.0.2.1'') (Some ''alice'') (Some ''correct horse'')
     (snd (login_tries spread_digest sample_pbkdf2 team_settings (Some ''192.0.2.1'') [sample_try 1 ''bob'', sample_try 2 ''bob'']
       (sample_gate sample_joined)))) = Inl (TooManyRequests (Some wait))"
proof -
  let ?tries = "[sample_try 1 ''bob'', sample_try 2 ''bob'']"
  have limits: "max_failures (gate_limits team_settings) = 2" "lockout_seconds (gate_limits team_settings) = 300"
      "window_seconds (gate_limits team_settings) = 60"
    by (simp_all add: gate_limits_def make_limits_def team_settings_def)
  have times: "map fst ?tries = [1, 2]" by (simp add: sample_try_def)
  have len: "int (length ?tries) = max_failures (gate_limits team_settings)" by (simp add: limits)
  have win: "within_window (gate_limits team_settings) (map fst ?tries)" unfolding times by (simp add: limits seconds_def)
  have invalid: "list_all (\<lambda>x. \<not> try_valid sample_pbkdf2 team_settings (gt_team (sample_gate sample_joined)) x) ?tries"
    by (simp add: sample_tries)
  have sorted: "sorted (map fst ?tries @ [70000000])" unfolding times by simp
  have early: "70000000 < last (map fst ?tries) + seconds (lockout_seconds (gate_limits team_settings))"
    unfolding times by (simp add: limits seconds_def)
  show ?thesis
    using repeated_failures_lock_login [OF sample_gate_ok(1,2,3) len win invalid sorted early prod.collapse [symmetric],
        of sample_draw "Some ''alice''" "Some ''correct horse''"] by auto
qed

lemma own_login_resets_throttle_witness:
  "list_all (\<lambda>x. \<nexists>wait. x = Inl (TooManyRequests wait))
     (fst (login_tries spread_digest sample_pbkdf2 team_settings (Some ''192.0.2.1'')
       [sample_try 1 ''bob'', sample_try 2 ''alice'', sample_try 3 ''bob'', sample_try 4 ''alice'', sample_try 5 ''bob''] (sample_gate sample_joined)))"
proof (rule own_login_resets_throttle [OF sample_gate_ok(1,2,3)])
  let ?tries = "[sample_try 1 ''bob'', sample_try 2 ''alice'', sample_try 3 ''bob'', sample_try 4 ''alice'', sample_try 5 ''bob'']"
  show "sorted (0 # map fst ?tries)" by (simp add: sample_try_def)
  have "max_failures (gate_limits team_settings) = 2" by (simp add: gate_limits_def make_limits_def team_settings_def)
  then show "interleaved (nat (max_failures (gate_limits team_settings))) 0
      (map (try_valid sample_pbkdf2 team_settings (gt_team (sample_gate sample_joined))) ?tries)"
    by (simp add: sample_tries)
qed

lemma sample_throttle: "throttle_check sample_sha256 (gate_limits team_settings) 5 ''192.0.2.1'' (SqliteAttempts []) = (None, SqliteAttempts [])"
  by code_simp

lemma returned_value: "map_sum id f (fst x) = Inr v \<Longrightarrow> \<exists>y b. x = (Inr y, b) \<and> f y = v"
  by (cases x; cases "fst x") auto

definition sample_create :: "string \<Rightarrow> string \<Rightarrow> (auth_exc + admin_session) \<times> session_backend" where
  "sample_create operator role = admin_create_session sample_sha256 600 5 sample_draw operator ''private_team_lightweight_users''
     (Some bootstrap_organization_id) (Some role) (SqliteSessions \<lparr>st_table = [], st_csrf_cache = []\<rparr>)"

lemma sample_sessions:
  "map_sum id (\<lambda>s. (se_session_id s, se_organization_id s, se_role s)) (fst (sample_create ''u1'' ''maintainer'')) =
     Inr (''s1'', Some bootstrap_organization_id, Some ''maintainer'')"
  "map_sum id (\<lambda>s. (se_session_id s, se_organization_id s, se_role s)) (fst (sample_create bootstrap_admin_id ''administrator'')) =
     Inr (''s1'', Some bootstrap_organization_id, Some ''administrator'')"
  by code_simp+

lemma sample_login:
  "\<exists>r st. auth_login sample_sha256 sample_pbkdf2 team_settings 5 sample_draw (Some ''192.0.2.1'') (Some ''alice'') (Some ''correct horse'')
     (sample_gate sample_joined) = (Inr r, st) \<and> sr_cookie_value r = ''s1'' \<and> sr_organization_id r = Some bootstrap_organization_id \<and>
     sr_role r = Some ''maintainer''"
proof -
  have key: "login_client_key (Some ''192.0.2.1'') = ''192.0.2.1''" by code_simp
  have state: "gt_attempts (sample_gate sample_joined) = SqliteAttempts []" "gt_team (sample_gate sample_joined) = Some sample_joined"
      "gt_sessions (sample_gate sample_joined) = SqliteSessions \<lparr>st_table = [], st_csrf_cache = []\<rparr>" "rate_limited_mode team_settings"
      "gs_session_ttl_seconds team_settings = 600" "auth_mode_text (gs_auth_mode team_settings) = ''private_team_lightweight_users''"
    by (simp_all add: sample_gate_def create_login_attempt_store_def create_admin_session_store_def persistent_auth_def team_settings_def
        rate_limited_mode_def)
  have member: "tp_user_id (sample_principal ''u1'' ''alice'' Maintainer) = ''u1''"
      "tp_organization_id (sample_principal ''u1'' ''alice'' Maintainer) = bootstrap_organization_id"
      "role_name (tp_role (sample_principal ''u1'' ''alice'' Maintainer)) = ''maintainer''"
    by (simp_all add: sample_principal_def)
  obtain s b where s: "admin_create_session sample_sha256 600 5 sample_draw ''u1'' ''private_team_lightweight_users''
      (Some bootstrap_organization_id) (Some ''maintainer'') (SqliteSessions \<lparr>st_table = [], st_csrf_cache = []\<rparr>) = (Inr s, b)"
      "se_session_id s = ''s1''" "se_organization_id s = Some bootstrap_organization_id" "se_role s = Some ''maintainer''"
    using returned_value [OF sample_sessions(1)] unfolding sample_create_def by auto
  show ?thesis
    using s(2-4) by (simp add: auth_login_def key state member sample_throttle sample_credentials s(1) session_response_of_def Let_def del: admin_create_session.simps)
qed

lemma login_opens_the_gate_witness:
  "\<exists>r st s. auth_login sample_sha256 sample_pbkdf2 team_settings 5 sample_draw (Some ''192.0.2.1'') (Some ''alice'') (Some ''correct horse'')
     (sample_gate sample_joined) = (Inr r, st) \<and> se_operator_id s = ''u1'' \<and>
     fst (request_gate sample_sha256 team_settings 9 ''POST'' ''/projects'' (Some (sr_cookie_value r)) (Some ''c1'') st) = Inr s"
proof -
  obtain r st where r: "auth_login sample_sha256 sample_pbkdf2 team_settings 5 sample_draw (Some ''192.0.2.1'') (Some ''alice'')
      (Some ''correct horse'') (sample_gate sample_joined) = (Inr r, st)" "sr_cookie_value r = ''s1''"
      "sr_organization_id r = Some bootstrap_organization_id" "sr_role r = Some ''maintainer''"
    using sample_login by blast
  have team: "gt_team (sample_gate sample_joined) = Some sample_joined" "gs_auth_mode team_settings = PrivateTeam"
    by (simp_all add: sample_gate_def team_settings_def)
  have draw: "list_all (\<lambda>c. code c < 128) (dw_csrf sample_draw)" "dw_csrf sample_draw = ''c1''" by code_simp+
  have cookie: "sr_cookie_value r \<noteq> []" "sr_organization_id r \<noteq> Some []" using r(2,3) by (simp_all add: bootstrap_organization_id_def)
  have csrf: "''POST'' \<notin> set csrf_required_methods \<or> sr_role r \<noteq> Some ''reader'' \<and> Some ''c1'' = Some (dw_csrf sample_draw) \<and>
      dw_csrf sample_draw \<noteq> [] \<and> list_all (\<lambda>c. code c < 128) (dw_csrf sample_draw)"
    using r(4) draw by simp
  have "py_strip (or_text (Some ''alice'') []) = ''alice''" "or_text (Some ''correct horse'') [] = ''correct horse''"
      "tp_user_id (sample_principal ''u1'' ''alice'' Maintainer) = ''u1''" "(9 :: int) < 5 + seconds (max 1 (gs_session_ttl_seconds team_settings))"
    by code_simp+
  then show ?thesis
    using login_opens_the_gate [OF sample_joined_reachable team r(1) cookie csrf, of 9 "''/projects''"] r(1)
    by (auto simp: sample_authenticates)
qed

text \<open>What a fresh session lets its operator read.\<close>

lemma session_reads:
  assumes "admin_create_session sha256 ttl now w i mode (Some organization) (Some (role_name (tp_role p))) b0 = (Inr s, b)" "se_session_id s \<noteq> []"
    "gt_sessions st = b" "gt_team st = Some db" "gs_auth_mode g = PrivateTeam" "organization \<noteq> []" "get_principal i organization db = Some p"
    "t < now + seconds (max 1 ttl)" "method \<notin> set csrf_required_methods"
  shows "fst (request_gate sha256 g t method path (Some (se_session_id s)) header st) = Inr s"
proof -
  note made = backend_created [OF assms(1,2)]
  have "current_session_for_request sha256 g t (Some (se_session_id s)) st = (Some s, st)"
    using made(1-3) made(4) [OF assms(8)] assms(3-7)
    by (auto simp: current_session_for_request_def or_text_def split: list.splits)
  then show ?thesis using assms(9) by (simp add: request_gate_def Let_def)
qed

text \<open>A session of the administrator after the member left.\<close>

definition sample_left_gate :: gate_state where
  "sample_left_gate = (sample_gate sample_gone)\<lparr>gt_sessions := snd (sample_create bootstrap_admin_id ''administrator'')\<rparr>"

lemma sample_left_reads:
  "\<exists>s. fst (request_gate sample_sha256 team_settings 9 ''GET'' ''/projects'' (Some ''s1'') None sample_left_gate) = Inr s"
proof -
  let ?p = "sample_administrator bootstrap_organization_id ''Example''"
  have role: "role_name (tp_role ?p) = ''administrator''" by (simp add: sample_administrator_def)
  obtain s b where s: "sample_create bootstrap_admin_id ''administrator'' = (Inr s, b)" "se_session_id s = ''s1''"
    using returned_value [OF sample_sessions(2)] by auto
  have member: "get_principal bootstrap_admin_id bootstrap_organization_id sample_gone = Some ?p"
    by (simp add: get_principal_def principal_rows_def member_rows_def first_row_def sample_gone_def sample_defs)
  have "fst (request_gate sample_sha256 team_settings 9 ''GET'' ''/projects'' (Some (se_session_id s)) None sample_left_gate) = Inr s"
  proof (rule session_reads [OF s(1) [unfolded sample_create_def, folded role] _ _ _ _ _ member])
    show "gt_sessions sample_left_gate = b" "gt_team sample_left_gate = Some sample_gone" using s(1) by (simp_all add: sample_left_gate_def sample_gate_def)
    show "bootstrap_organization_id \<noteq> []" "''GET'' \<notin> set csrf_required_methods"
      by (simp_all add: bootstrap_organization_id_def csrf_required_methods_def)
    show "gs_auth_mode team_settings = PrivateTeam" "(9 :: int) < 5 + seconds (max 1 600)" by (simp_all add: team_settings_def seconds_def)
  qed (simp add: s(2))
  then show ?thesis using s(2) by auto
qed

lemma gate_passes_members_only_witness:
  "\<exists>s p. fst (request_gate sample_sha256 team_settings 9 ''GET'' ''/projects'' (Some ''s1'') None sample_left_gate) = Inr s \<and>
    get_principal (se_operator_id s) bootstrap_organization_id sample_gone = Some p"
proof -
  obtain s where s: "fst (request_gate sample_sha256 team_settings 9 ''GET'' ''/projects'' (Some ''s1'') None sample_left_gate) = Inr s"
    using sample_left_reads by blast
  have "gs_auth_mode team_settings = PrivateTeam" "gt_team sample_left_gate = Some sample_gone"
    by (simp_all add: team_settings_def sample_left_gate_def sample_gate_def)
  with gate_passes_members_only [OF s] obtain organization p where
    p: "se_organization_id s = Some organization" "get_principal (se_operator_id s) organization sample_gone = Some p" by auto
  have "organization = bootstrap_organization_id"
    using get_principal_Some [OF p(2)] by (auto simp: sample_gone_def sample_defs live_membership_def)
  then show ?thesis using s p(2) by blast
qed

lemma revoked_member_shut_out_witness:
  "\<exists>s. fst (request_gate sample_sha256 team_settings 9 ''GET'' ''/projects'' (Some ''s1'') None sample_left_gate) = Inr s \<and>
    (se_operator_id s, se_organization_id s) \<noteq> (''u1'', Some bootstrap_organization_id)"
proof -
  obtain s where s: "fst (request_gate sample_sha256 team_settings 9 ''GET'' ''/projects'' (Some ''s1'') None sample_left_gate) = Inr s"
    using sample_left_reads by blast
  have "gs_auth_mode team_settings = PrivateTeam" "gt_team sample_left_gate = Some sample_gone"
    by (simp_all add: team_settings_def sample_left_gate_def sample_gate_def)
  with revoked_member_shut_out [OF sample_joined_reachable sample_revoke rtranclp.rtrancl_refl _ _ s] s show ?thesis
    by (auto simp: sample_administrator_def)
qed

end
