(* ===== verification/Event_Outbox.thy ===== *)
theory Event_Outbox
  imports Json_Unique Automation_Tokens
begin

section \<open>The outbox of integration events\<close>

text \<open>
  Model of \<^verbatim>\<open>backend/app/integration_events.py\<close>: the durable outbox of signed events, their delivery and the replay of those that failed for
  good. The SQLite table is the list of its rows; every operation takes it and returns it, a failed transaction returns it as it was. A row
  keeps its payload where the table keeps the text of it, which determines it. A clock reading is \<open>None\<close> when it has no time zone. Parameters:
  SHA-256 and HMAC (in hexadecimal digits), the text of an instant, \<^verbatim>\<open>urlsplit\<close>, \<^verbatim>\<open>ipaddress\<close>, and what the resolver and the HTTP client do.
  Failures of SQLite are left out.
\<close>

subsection \<open>Data\<close>

datatype outbox_error = InvalidEventIdentifier | InvalidTerminalEvent | RecordValidationError | OrganizationEncodeError | InvalidEventTime
  | OutboxCapacityReached | PayloadTooLarge | DeliveryClaimLost | InvalidEventId | EventNotFound | OutboxRecordInvalid
  | ReplayPreflightExpired | NoDeadEvents | ReplaySnapshotChanged | InvalidEventOrganization | DestinationResolutionDenied

definition event_contract_version :: string where
  "event_contract_version = ''2026-09-11.1''"

definition event_max_body_bytes :: nat where
  "event_max_body_bytes = 8192"

definition event_max_response_bytes :: nat where
  "event_max_response_bytes = 8192"

definition event_max_attempts :: int where
  "event_max_attempts = 5"

definition event_lease :: int where
  "event_lease = seconds 30"

definition event_max_records :: nat where
  "event_max_records = 10000"

definition days_of :: "int \<Rightarrow> int" where
  "days_of n = seconds (n * 86400)"

definition delivered_retention :: int where
  "delivered_retention = days_of 30"

definition dead_retention :: int where
  "dead_retention = days_of 90"

definition replay_max_events :: nat where
  "replay_max_events = 100"

definition replay_ttl :: int where
  "replay_ttl = seconds 300"

datatype terminal_status = AnalysisCompleted | AnalysisFailed | AnalysisCancelled

fun terminal_status_text :: "terminal_status \<Rightarrow> string" where
  "terminal_status_text AnalysisCompleted = ''completed''"
| "terminal_status_text AnalysisFailed = ''failed''"
| "terminal_status_text AnalysisCancelled = ''cancelled''"

definition terminal_status_of :: "string \<Rightarrow> terminal_status option" where
  "terminal_status_of s = find (\<lambda>x. terminal_status_text x = s) [AnalysisCompleted, AnalysisFailed, AnalysisCancelled]"

record event_payload =
  pl_event_id :: string
  pl_occurred_at :: instant
  pl_project_id :: string
  pl_analysis_id :: string
  pl_status :: terminal_status
  pl_finding_count :: "int option"

datatype event_state = EventPending | EventDelivering | EventDelivered | EventDead

datatype event_result = Accepted | RetryableFailure | PermanentFailure

record event_row =
  ev_id :: string
  ev_organization :: string
  ev_payload :: event_payload
  ev_state :: event_state
  ev_attempts :: int
  ev_next_attempt :: instant
  ev_lease :: "instant option"
  ev_result :: "event_result option"
  ev_created :: instant
  ev_delivered :: "instant option"

definition payload_valid :: "event_payload \<Rightarrow> bool" where
  "payload_valid p \<longleftrightarrow> is_hex_id 64 (pl_event_id p) \<and> is_hex_id 32 (pl_project_id p) \<and> is_hex_id 32 (pl_analysis_id p) \<and>
     (case pl_finding_count p of None \<Rightarrow> True | Some n \<Rightarrow> 0 \<le> n \<and> n \<le> 100000)"

definition event_row_valid :: "event_row \<Rightarrow> bool" where
  "event_row_valid r \<longleftrightarrow> payload_valid (ev_payload r) \<and> is_organization_id (ev_organization r) \<and> 0 \<le> ev_attempts r \<and> ev_attempts r \<le> event_max_attempts"

definition payload_document :: "(instant \<Rightarrow> string) \<Rightarrow> event_payload \<Rightarrow> json" where
  "payload_document iso_text p = JObj
     [(''contract_version'', JStr event_contract_version), (''event_id'', JStr (pl_event_id p)), (''event_type'', JStr ''analysis.terminal''),
      (''occurred_at'', JStr (iso_text (pl_occurred_at p))), (''project_id'', JStr (pl_project_id p)), (''analysis_id'', JStr (pl_analysis_id p)),
      (''status'', JStr (terminal_status_text (pl_status p))),
      (''finding_count'', (case pl_finding_count p of None \<Rightarrow> JNull | Some n \<Rightarrow> JInt n))]"

definition payload_text :: "(instant \<Rightarrow> string) \<Rightarrow> event_payload \<Rightarrow> string" where
  "payload_text iso_text p = dumps_compact (payload_document iso_text p)"

text \<open>\<^verbatim>\<open>_payload_json\<close>\<close>

definition payload_json :: "(instant \<Rightarrow> string) \<Rightarrow> event_payload \<Rightarrow> outbox_error + string" where
  "payload_json iso_text p =
     (if length (payload_text iso_text p) > event_max_body_bytes then Inl PayloadTooLarge else Inr (payload_text iso_text p))"

definition aware :: "instant option \<Rightarrow> outbox_error + instant" where
  "aware clock = (case clock of None \<Rightarrow> Inl InvalidEventTime | Some t \<Rightarrow> Inr t)"

definition event_id_text :: "string \<Rightarrow> string \<Rightarrow> string" where
  "event_id_text organization_id analysis_id = event_contract_version @ [CHR 0x00] @ organization_id @ [CHR 0x00] @ analysis_id"

subsection \<open>The store\<close>

text \<open>\<^verbatim>\<open>get\<close>: a time stamp of zero is read as none.\<close>

definition nonzero :: "instant option \<Rightarrow> instant option" where
  "nonzero t = (if t = Some 0 then None else t)"

definition get_event :: "string \<Rightarrow> event_row list \<Rightarrow> outbox_error + event_row" where
  "get_event event_id table =
     (if \<not> is_hex_id 64 event_id then Inl InvalidEventId
      else case find (\<lambda>r. ev_id r = event_id) table of
        None \<Rightarrow> Inl EventNotFound
      | Some r \<Rightarrow> if \<not> event_row_valid r then Inl OutboxRecordInvalid
          else Inr (r\<lparr>ev_lease := nonzero (ev_lease r), ev_delivered := nonzero (ev_delivered r)\<rparr>))"

definition terminal_expired :: "instant \<Rightarrow> event_row \<Rightarrow> bool" where
  "terminal_expired now r \<longleftrightarrow>
     (ev_state r = EventDelivered \<and> (case ev_delivered r of None \<Rightarrow> False | Some t \<Rightarrow> t < now - delivered_retention)) \<or>
     (ev_state r = EventDead \<and> ev_created r < now - dead_retention)"

definition purge_rows :: "instant \<Rightarrow> event_row list \<Rightarrow> event_row list" where
  "purge_rows now table = filter (\<lambda>r. \<not> terminal_expired now r) table"

definition purge_terminal_events :: "instant option \<Rightarrow> event_row list \<Rightarrow> (outbox_error + nat) \<times> event_row list" where
  "purge_terminal_events clock table =
     (case aware clock of Inl e \<Rightarrow> (Inl e, table)
      | Inr now \<Rightarrow> (Inr (length (filter (terminal_expired now) table)), purge_rows now table))"

definition enqueue_terminal_analysis ::
  "(string \<Rightarrow> string) \<Rightarrow> (instant \<Rightarrow> string) \<Rightarrow> instant option \<Rightarrow> string \<Rightarrow> string \<Rightarrow> string \<Rightarrow> string \<Rightarrow> instant \<Rightarrow> int option
     \<Rightarrow> event_row list \<Rightarrow> (outbox_error + event_row) \<times> event_row list" where
  "enqueue_terminal_analysis sha256 iso_text clock organization_id project_id analysis_id status occurred_at finding_count table =
     (if \<not> is_hex_id 32 project_id \<or> \<not> is_hex_id 32 analysis_id then (Inl InvalidEventIdentifier, table)
      else if \<not> list_all (\<lambda>c. code c < 128) organization_id then (Inl OrganizationEncodeError, table)
      else (let event_id = sha256 (event_id_text organization_id analysis_id) in
        case terminal_status_of status of None \<Rightarrow> (Inl InvalidTerminalEvent, table)
        | Some s \<Rightarrow>
            (let payload = \<lparr>pl_event_id = event_id, pl_occurred_at = occurred_at, pl_project_id = project_id, pl_analysis_id = analysis_id,
               pl_status = s, pl_finding_count = finding_count\<rparr> in
             if \<not> payload_valid payload then (Inl InvalidTerminalEvent, table)
             else case aware clock of Inl e \<Rightarrow> (Inl e, table)
             | Inr now \<Rightarrow>
                 (let row = \<lparr>ev_id = event_id, ev_organization = organization_id, ev_payload = payload, ev_state = EventPending, ev_attempts = 0,
                    ev_next_attempt = now, ev_lease = None, ev_result = None, ev_created = now, ev_delivered = None\<rparr>;
                    kept = purge_rows now table in
                  if \<not> event_row_valid row then (Inl RecordValidationError, table)
                  else if find (\<lambda>r. ev_id r = event_id) kept \<noteq> None then (get_event event_id kept, kept)
                  else if length kept \<ge> event_max_records then (Inl OutboxCapacityReached, table)
                  else case payload_json iso_text payload of Inl e \<Rightarrow> (Inl e, table)
                  | Inr _ \<Rightarrow> (get_event event_id (kept @ [row]), kept @ [row])))))"

text \<open>\<^verbatim>\<open>claim_due\<close>: expired leases are released, then the earliest due event is leased.\<close>

definition lease_expired :: "instant \<Rightarrow> event_row \<Rightarrow> bool" where
  "lease_expired now r \<longleftrightarrow> ev_state r = EventDelivering \<and> (case ev_lease r of None \<Rightarrow> False | Some t \<Rightarrow> t \<le> now)"

definition release_expired :: "instant \<Rightarrow> event_row list \<Rightarrow> event_row list" where
  "release_expired now table = map (\<lambda>r. if lease_expired now r then r\<lparr>ev_state := EventPending, ev_lease := None\<rparr> else r) table"

definition due_order :: "event_row \<Rightarrow> instant \<times> string" where
  "due_order r = (ev_next_attempt r, ev_id r)"

definition due_events :: "instant \<Rightarrow> event_row list \<Rightarrow> event_row list" where
  "due_events now table = sort_key due_order (filter (\<lambda>r. ev_state r = EventPending \<and> ev_next_attempt r \<le> now) table)"

definition lease_row :: "instant \<Rightarrow> string \<Rightarrow> event_row \<Rightarrow> event_row" where
  "lease_row now event_id r = (if ev_id r = event_id \<and> ev_state r = EventPending then r\<lparr>ev_state := EventDelivering, ev_lease := Some (now + event_lease)\<rparr> else r)"

definition claim_due :: "instant option \<Rightarrow> event_row list \<Rightarrow> (outbox_error + event_row option) \<times> event_row list" where
  "claim_due clock table =
     (case aware clock of Inl e \<Rightarrow> (Inl e, table)
      | Inr now \<Rightarrow>
          (let released = release_expired now table in
           case due_events now released of [] \<Rightarrow> (Inr None, released)
           | r # _ \<Rightarrow>
               (let leased = map (lease_row now (ev_id r)) released in
                if length (filter (\<lambda>x. ev_id x = ev_id r \<and> ev_state x = EventPending) released) \<noteq> 1 then (Inr None, leased)
                else case get_event (ev_id r) leased of Inl e \<Rightarrow> (Inl e, leased) | Inr x \<Rightarrow> (Inr (Some x), leased))))"

definition backoff :: "int \<Rightarrow> int" where
  "backoff attempts = seconds (min 300 (2 ^ nat attempts))"

definition result_row :: "instant \<Rightarrow> bool \<Rightarrow> bool \<Rightarrow> event_row \<Rightarrow> event_row" where
  "result_row now accepted retryable r =
     (let attempts = ev_attempts r + 1 in
      if accepted then r\<lparr>ev_state := EventDelivered, ev_attempts := attempts, ev_next_attempt := now, ev_lease := None,
          ev_result := Some Accepted, ev_delivered := Some now\<rparr>
      else if retryable \<and> attempts < event_max_attempts
      then r\<lparr>ev_state := EventPending, ev_attempts := attempts, ev_next_attempt := now + backoff attempts, ev_lease := None,
          ev_result := Some RetryableFailure, ev_delivered := None\<rparr>
      else r\<lparr>ev_state := EventDead, ev_attempts := attempts, ev_next_attempt := now, ev_lease := None,
          ev_result := Some PermanentFailure, ev_delivered := None\<rparr>)"

definition record_result ::
  "instant option \<Rightarrow> string \<Rightarrow> bool \<Rightarrow> bool \<Rightarrow> event_row list \<Rightarrow> (outbox_error + event_row) \<times> event_row list" where
  "record_result clock event_id accepted retryable table =
     (case aware clock of Inl e \<Rightarrow> (Inl e, table)
      | Inr now \<Rightarrow>
          (case find (\<lambda>r. ev_id r = event_id) table of None \<Rightarrow> (Inl DeliveryClaimLost, table)
           | Some row \<Rightarrow>
               if ev_state row \<noteq> EventDelivering then (Inl DeliveryClaimLost, table)
               else (let table' = map (\<lambda>r. if ev_id r = event_id \<and> ev_state r = EventDelivering then result_row now accepted retryable r else r) table in
                 (get_event event_id table', table'))))"

definition summary :: "string \<Rightarrow> event_row list \<Rightarrow> event_state \<Rightarrow> nat" where
  "summary organization_id table s = length (filter (\<lambda>r. ev_organization r = organization_id \<and> ev_state r = s) table)"

subsection \<open>Replaying dead events\<close>

definition dead_rows :: "string \<Rightarrow> event_row list \<Rightarrow> event_row list" where
  "dead_rows organization_id table = sort_key (\<lambda>r. (ev_created r, ev_id r)) (filter (\<lambda>r. ev_organization r = organization_id \<and> ev_state r = EventDead) table)"

definition dead_selection :: "string \<Rightarrow> event_row list \<Rightarrow> outbox_error + event_row list \<times> nat" where
  "dead_selection organization_id table =
     (if \<not> is_organization_id organization_id then Inl InvalidEventOrganization
      else Inr (take replay_max_events (dead_rows organization_id table), length (dead_rows organization_id table)))"

definition hex_value :: "char \<Rightarrow> nat" where
  "hex_value c = (if is_digit c then code c - 48 else code c - 87)"

text \<open>The bytes of a text of hexadecimal digits: \<^verbatim>\<open>digest()\<close> from \<^verbatim>\<open>hexdigest()\<close>.\<close>

fun unhex :: "string \<Rightarrow> string" where
  "unhex (a # b # s) = char_of (16 * hex_value a + hex_value b) # unhex s"
| "unhex s = []"

definition replay_part :: "(string \<Rightarrow> string) \<Rightarrow> (instant \<Rightarrow> string) \<Rightarrow> event_row \<Rightarrow> string" where
  "replay_part sha256 iso_text r = [CHR 0x00] @ ev_id r @ [CHR 0x00] @ unhex (sha256 (payload_text iso_text (ev_payload r)))"

definition replay_text :: "(string \<Rightarrow> string) \<Rightarrow> (instant \<Rightarrow> string) \<Rightarrow> string \<Rightarrow> event_row list \<Rightarrow> string" where
  "replay_text sha256 iso_text organization_id rows =
     ''inspectra-integration-replay-v1'' @ [CHR 0x00] @ organization_id @ concat (map (replay_part sha256 iso_text) rows)"

definition replay_digest :: "(string \<Rightarrow> string) \<Rightarrow> (instant \<Rightarrow> string) \<Rightarrow> string \<Rightarrow> event_row list \<Rightarrow> string" where
  "replay_digest sha256 iso_text organization_id rows = sha256 (replay_text sha256 iso_text organization_id rows)"

record replay_preflight =
  rp_observed_at :: instant
  rp_expires_at :: instant
  rp_total_dead :: nat
  rp_selected_events :: nat
  rp_truncated :: bool
  rp_snapshot_digest :: string

definition preflight ::
  "(string \<Rightarrow> string) \<Rightarrow> (instant \<Rightarrow> string) \<Rightarrow> instant option \<Rightarrow> string \<Rightarrow> event_row list \<Rightarrow> outbox_error + replay_preflight" where
  "preflight sha256 iso_text clock organization_id table =
     bind_res (aware clock) (\<lambda>now. bind_res (dead_selection organization_id table) (\<lambda>(rows, total).
       Inr \<lparr>rp_observed_at = now, rp_expires_at = now + replay_ttl, rp_total_dead = total, rp_selected_events = length rows,
         rp_truncated = (total > length rows), rp_snapshot_digest = replay_digest sha256 iso_text organization_id rows\<rparr>))"

record replay_request =
  rr_observed_at :: "instant option"
  rr_snapshot_digest :: string

definition replayed_row :: "instant \<Rightarrow> event_row \<Rightarrow> event_row" where
  "replayed_row now r = r\<lparr>ev_state := EventPending, ev_attempts := 0, ev_next_attempt := now, ev_lease := None, ev_result := None, ev_delivered := None\<rparr>"

definition replay_dead ::
  "(string \<Rightarrow> string) \<Rightarrow> (instant \<Rightarrow> string) \<Rightarrow> instant option \<Rightarrow> string \<Rightarrow> replay_request \<Rightarrow> event_row list
     \<Rightarrow> (outbox_error + nat \<times> nat) \<times> event_row list" where
  "replay_dead sha256 iso_text clock organization_id request table =
     (case bind_res (aware clock) (\<lambda>now. bind_res (aware (rr_observed_at request)) (\<lambda>observed.
        if observed > now \<or> now - observed > replay_ttl then Inl ReplayPreflightExpired
        else bind_res (dead_selection organization_id table) (\<lambda>(rows, total).
          if rows = [] then Inl NoDeadEvents
          else if replay_digest sha256 iso_text organization_id rows \<noteq> rr_snapshot_digest request then Inl ReplaySnapshotChanged
          else (let P = (\<lambda>r. ev_organization r = organization_id \<and> ev_state r = EventDead \<and> ev_id r \<in> set (map ev_id rows)) in
            if length (filter P table) \<noteq> length rows then Inl ReplaySnapshotChanged
            else Inr ((length rows, total - length rows), map (\<lambda>r. if P r then replayed_row now r else r) table))))) of
        Inl e \<Rightarrow> (Inl e, table)
      | Inr (result, table') \<Rightarrow> (Inr result, table'))"

subsection \<open>Configuration\<close>

text \<open>The parts of a URL that \<^verbatim>\<open>urlsplit\<close> returns; a port that is not a number in range makes the access raise a \<^verbatim>\<open>ValueError\<close>.\<close>

datatype url_port = NoPort | Port int | BadPort

record split_url =
  su_scheme :: string
  su_hostname :: "string option"
  su_username :: "string option"
  su_password :: "string option"
  su_query :: string
  su_fragment :: string
  su_port :: url_port
  su_path :: string

record event_config =
  cf_endpoint :: string
  cf_host :: string
  cf_signing_key :: string
  cf_signing_key_id :: string
  cf_timeout :: int
  cf_max_concurrency :: int

text \<open>\<^verbatim>\<open>[a-z0-9](?:[a-z0-9-]{0,61}[a-z0-9])?\<close> and the whole of \<^verbatim>\<open>_HOST\<close>.\<close>

definition is_host_label :: "string \<Rightarrow> bool" where
  "is_host_label s \<longleftrightarrow> s \<noteq> [] \<and> length s \<le> 63 \<and> list_all (\<lambda>c. is_lower c \<or> is_digit c \<or> c = CHR ''-'') s \<and>
     hd s \<noteq> CHR ''-'' \<and> last s \<noteq> CHR ''-''"

definition is_dns_host :: "string \<Rightarrow> bool" where
  "is_dns_host s \<longleftrightarrow> length s \<le> 253 \<and>
     (let labels = py_split CHR ''.'' s in
      2 \<le> length labels \<and> list_all is_host_label (butlast labels) \<and>
      2 \<le> length (last labels) \<and> length (last labels) \<le> 63 \<and> list_all is_lower (last labels))"

definition is_key_id :: "string \<Rightarrow> bool" where
  "is_key_id s \<longleftrightarrow> s \<noteq> [] \<and> length s \<le> 32 \<and> is_ascii_alnum (hd s) \<and> list_all (\<lambda>c. is_ascii_alnum c \<or> c \<in> set ''._-'') (tl s)"

text \<open>\<^verbatim>\<open>IntegrationEventConfig.__post_init__\<close>: whether it accepts the fields. The timeout is in microseconds.\<close>

definition config_ok :: "(string \<Rightarrow> split_url option) \<Rightarrow> event_config \<Rightarrow> bool" where
  "config_ok urlsplit cf =
     (case urlsplit (cf_endpoint cf) of None \<Rightarrow> False
      | Some u \<Rightarrow>
          su_scheme u = ''https'' \<and> map_option py_lower (su_hostname u) = Some (cf_host cf) \<and> su_username u = None \<and> su_password u = None \<and>
          su_query u = [] \<and> su_fragment u = [] \<and> su_port u \<in> {NoPort, Port 443} \<and>
          starts_with ''/'' (su_path u) \<and> \<not> contains ''//'' (su_path u) \<and>
          \<not> list_ex (\<lambda>part. part = ''.'' \<or> part = ''..'') (py_split CHR ''/'' (su_path u)) \<and>
          is_dns_host (cf_host cf) \<and> py_lower (cf_host cf) = cf_host cf \<and> 32 \<le> length (cf_signing_key cf) \<and> is_key_id (cf_signing_key_id cf) \<and>
          500000 \<le> cf_timeout cf \<and> cf_timeout cf \<le> 10000000 \<and> 1 \<le> cf_max_concurrency cf \<and> cf_max_concurrency cf \<le> 4)"

subsection \<open>Delivery\<close>

text \<open>\<^verbatim>\<open>_is_public_address\<close>: \<open>is_global\<close> is \<open>None\<close> when \<^verbatim>\<open>ip_address\<close> raises.\<close>

definition is_public_address :: "(string \<Rightarrow> bool option) \<Rightarrow> string \<Rightarrow> bool" where
  "is_public_address is_global value = (is_global value = Some True)"

text \<open>
  What the resolver does, and an exchange over HTTP: the status, the sizes of the chunks read and how the response ended. A connection
  that fails has no chunks.
\<close>

datatype resolution = Resolved "string list" | ResolutionUnavailable | ResolutionRaised

datatype exchange_end = ResponseComplete | NetworkFailure | HttpFailure | OtherFailure

record exchange =
  ex_status :: int
  ex_chunks :: "nat list"
  ex_end :: exchange_end

record signed_request =
  sq_event_id :: string
  sq_key_id :: string
  sq_timestamp :: string
  sq_signature :: string
  sq_body :: string

text \<open>The HMAC takes the key and the signed bytes; the clock reading is in microseconds.\<close>

definition sign_request ::
  "(string \<Rightarrow> string \<Rightarrow> string) \<Rightarrow> event_config \<Rightarrow> instant \<Rightarrow> event_payload \<Rightarrow> string \<Rightarrow> signed_request" where
  "sign_request hmac_sha256 cf now payload body =
     (let timestamp = show_int (now div seconds 1) in
      \<lparr>sq_event_id = pl_event_id payload, sq_key_id = cf_signing_key_id cf, sq_timestamp = timestamp,
       sq_signature = ''v1='' @ hmac_sha256 (cf_signing_key cf) (timestamp @ ''.'' @ body), sq_body = body\<rparr>)"

fun too_long :: "nat \<Rightarrow> nat list \<Rightarrow> bool" where
  "too_long received [] = False"
| "too_long received (n # ns) = (if received + n > event_max_response_bytes then True else too_long (received + n) ns)"

text \<open>Accepted, and whether a failure may be retried; \<open>None\<close> when another exception leaves the call.\<close>

definition exchange_outcome :: "exchange \<Rightarrow> (bool \<times> bool) option" where
  "exchange_outcome x =
     (if too_long 0 (ex_chunks x) then Some (False, False)
      else case ex_end x of
        ResponseComplete \<Rightarrow>
          if 200 \<le> ex_status x \<and> ex_status x < 300 then Some (True, False)
          else Some (False, ex_status x = 429 \<or> (500 \<le> ex_status x \<and> ex_status x < 600))
      | NetworkFailure \<Rightarrow> Some (False, True)
      | HttpFailure \<Rightarrow> Some (False, False)
      | OtherFailure \<Rightarrow> None)"

text \<open>
  \<^verbatim>\<open>deliver\<close> with the handlers of the dispatcher around it: the request that is sent, if any, and the pair that is recorded. The
  resolver is asked unless a transport was given to the constructor.
\<close>

definition deliver ::
  "(string \<Rightarrow> string \<Rightarrow> string) \<Rightarrow> (instant \<Rightarrow> string) \<Rightarrow> (string \<Rightarrow> bool option) \<Rightarrow> event_config \<Rightarrow> bool \<Rightarrow> (string \<Rightarrow> resolution)
     \<Rightarrow> instant \<Rightarrow> (signed_request \<Rightarrow> exchange) \<Rightarrow> event_row \<Rightarrow> signed_request option \<times> bool \<times> bool" where
  "deliver hmac_sha256 iso_text is_global cf transport_given resolver now send r =
     (let continue = (case payload_json iso_text (ev_payload r) of Inl _ \<Rightarrow> (None, False, False)
        | Inr body \<Rightarrow>
            (let request = sign_request hmac_sha256 cf now (ev_payload r) body in
             case exchange_outcome (send request) of None \<Rightarrow> (Some request, False, True) | Some (a, b) \<Rightarrow> (Some request, a, b))) in
      if transport_given then continue
      else case resolver (cf_host cf) of
        ResolutionUnavailable \<Rightarrow> (None, False, True)
      | ResolutionRaised \<Rightarrow> (None, False, True)
      | Resolved addresses \<Rightarrow>
          if addresses = [] \<or> list_ex (\<lambda>x. \<not> is_public_address is_global x) addresses then (None, False, False) else continue)"

subsection \<open>The dispatcher\<close>

text \<open>The claims of one round, each with a clock reading of its own, until nothing is due or a claim raises.\<close>

fun claim_round :: "instant option list \<Rightarrow> event_row list \<Rightarrow> (outbox_error + event_row list) \<times> event_row list" where
  "claim_round [] table = (Inr [], table)"
| "claim_round (clock # clocks) table =
     (case claim_due clock table of
        (Inl e, table') \<Rightarrow> (Inl e, table')
      | (Inr None, table') \<Rightarrow> (Inr [], table')
      | (Inr (Some r), table') \<Rightarrow>
          (case claim_round clocks table' of (Inl e, t) \<Rightarrow> (Inl e, t) | (Inr rs, t) \<Rightarrow> (Inr (r # rs), t)))"

text \<open>
  The results are recorded in the order in which the deliveries finish. All deliveries run to their end; the first error is raised by
  \<^verbatim>\<open>gather\<close>.
\<close>

fun record_round :: "(instant option \<times> string \<times> bool \<times> bool) list \<Rightarrow> event_row list \<Rightarrow> outbox_error option \<times> event_row list" where
  "record_round [] table = (None, table)"
| "record_round ((clock, event_id, accepted, retryable) # rest) table =
     (case record_result clock event_id accepted retryable table of
        (Inr _, table') \<Rightarrow> record_round rest table'
      | (Inl e, table') \<Rightarrow> (Some e, snd (record_round rest table')))"

definition drain_once ::
  "instant option list \<Rightarrow> (event_row list \<Rightarrow> (instant option \<times> string \<times> bool \<times> bool) list) \<Rightarrow> event_row list \<Rightarrow> (outbox_error + nat) \<times> event_row list" where
  "drain_once clocks deliveries table =
     (case claim_round clocks table of
        (Inl e, table') \<Rightarrow> (Inl e, table')
      | (Inr rs, table') \<Rightarrow>
          if rs = [] then (Inr 0, table')
          else (case record_round (deliveries rs) table' of (Some e, t) \<Rightarrow> (Inl e, t) | (None, t) \<Rightarrow> (Inr (length rs), t)))"


end
