(* ===== verification/Outbox_Delivery.thy ===== *)
theory Outbox_Delivery
  imports Event_Outbox
begin

section \<open>Delivery from the outbox\<close>

text \<open>
  The invariant of the outbox of \<^verbatim>\<open>backend/app/integration_events.py\<close> over every run of its operations, the order of claims, the schedule of
  retries, what a replay touches, and three runs that differ from what the documentation says.
\<close>

subsection \<open>The invariant\<close>

definition state_ok :: "event_row \<Rightarrow> bool" where
  "state_ok r \<longleftrightarrow> (case ev_state r of
     EventPending \<Rightarrow> ev_lease r = None \<and> ev_delivered r = None \<and> ev_attempts r < event_max_attempts \<and> ev_result r \<in> {None, Some RetryableFailure}
   | EventDelivering \<Rightarrow> ev_lease r \<noteq> None \<and> ev_delivered r = None \<and> ev_attempts r < event_max_attempts \<and> ev_result r \<in> {None, Some RetryableFailure}
   | EventDelivered \<Rightarrow> ev_lease r = None \<and> ev_delivered r \<noteq> None \<and> 1 \<le> ev_attempts r \<and> ev_result r = Some Accepted
   | EventDead \<Rightarrow> ev_lease r = None \<and> ev_delivered r = None \<and> 1 \<le> ev_attempts r \<and> ev_result r = Some PermanentFailure)"

definition event_row_ok :: "(string \<Rightarrow> string) \<Rightarrow> (instant \<Rightarrow> string) \<Rightarrow> event_row \<Rightarrow> bool" where
  "event_row_ok sha256 iso_text r \<longleftrightarrow> event_row_valid r \<and> state_ok r \<and> ev_id r = pl_event_id (ev_payload r) \<and>
     ev_id r = sha256 (event_id_text (ev_organization r) (pl_analysis_id (ev_payload r))) \<and>
     length (payload_text iso_text (ev_payload r)) \<le> event_max_body_bytes"

definition outbox_ok :: "(string \<Rightarrow> string) \<Rightarrow> (instant \<Rightarrow> string) \<Rightarrow> event_row list \<Rightarrow> bool" where
  "outbox_ok sha256 iso_text table \<longleftrightarrow>
     distinct (map ev_id table) \<and> length table \<le> event_max_records \<and> list_all (event_row_ok sha256 iso_text) table"

lemma outbox_ok_filter: "outbox_ok sha256 iso_text table \<Longrightarrow> outbox_ok sha256 iso_text (filter P table)"
  unfolding outbox_ok_def by (auto simp: distinct_map_filter list_all_iff intro: order_trans [OF length_filter_le])

lemma outbox_ok_map:
  assumes "outbox_ok sha256 iso_text table"
    "\<And>r. r \<in> set table \<Longrightarrow> event_row_ok sha256 iso_text r \<Longrightarrow> ev_id (f r) = ev_id r \<and> event_row_ok sha256 iso_text (f r)"
  shows "outbox_ok sha256 iso_text (map f table)"
proof -
  have "map ev_id (map f table) = map ev_id table" using assms by (simp add: outbox_ok_def list_all_iff)
  then show ?thesis using assms by (simp add: outbox_ok_def list_all_iff del: map_map)
qed

lemma row_unique: "outbox_ok sha256 iso_text table \<Longrightarrow> r \<in> set table \<Longrightarrow> find (\<lambda>x. ev_id x = ev_id r) table = Some r"
  unfolding outbox_ok_def
proof (induction table)
  case (Cons x xs)
  then show ?case by (auto simp: outbox_ok_def)
qed simp

lemma row_id: "event_row_ok sha256 iso_text r \<Longrightarrow> is_hex_id 64 (ev_id r)"
  by (simp add: event_row_ok_def event_row_valid_def payload_valid_def)

text \<open>Reading a row back never fails.\<close>

definition read_row :: "event_row \<Rightarrow> event_row" where
  "read_row r = r\<lparr>ev_lease := nonzero (ev_lease r), ev_delivered := nonzero (ev_delivered r)\<rparr>"

lemma read_row_simps [simp]: "ev_id (read_row r) = ev_id r" "ev_state (read_row r) = ev_state r" "ev_attempts (read_row r) = ev_attempts r"
  "ev_next_attempt (read_row r) = ev_next_attempt r" "ev_payload (read_row r) = ev_payload r" "ev_organization (read_row r) = ev_organization r"
  by (simp_all add: read_row_def)

lemma get_row:
  assumes "outbox_ok sha256 iso_text table" "r \<in> set table"
  shows "get_event (ev_id r) table = Inr (read_row r)"
proof -
  have "event_row_ok sha256 iso_text r" using assms by (simp add: outbox_ok_def list_all_iff)
  then show ?thesis using row_unique [OF assms] row_id by (simp add: get_event_def read_row_def event_row_ok_def)
qed

lemma get_event_Inr: "get_event i table = Inr r \<Longrightarrow> \<exists>x \<in> set table. ev_id x = i \<and> r = read_row x"
  by (auto simp: get_event_def read_row_def split: option.splits if_splits dest!: find_Some_iff_first)

subsection \<open>Operations keep the invariant\<close>

lemma purge_keeps_outbox: "outbox_ok sha256 iso_text table \<Longrightarrow> outbox_ok sha256 iso_text (purge_rows now table)"
  by (simp add: purge_rows_def outbox_ok_filter)

lemma enqueue_keeps:
  assumes "outbox_ok sha256 iso_text table"
  shows "outbox_ok sha256 iso_text (snd (enqueue_terminal_analysis sha256 iso_text clock org project analysis status occurred n table))"
proof -
  have "outbox_ok sha256 iso_text (kept @ [r])"
    if "outbox_ok sha256 iso_text kept" "event_row_ok sha256 iso_text r" "find (\<lambda>x. ev_id x = ev_id r) kept = None" "length kept < event_max_records" for kept r
    using that by (auto simp: outbox_ok_def find_None_iff)
  note add = this [OF purge_keeps_outbox [OF assms]]
  show ?thesis unfolding enqueue_terminal_analysis_def
    using assms purge_keeps_outbox [OF assms]
    by (auto simp: Let_def payload_json_def aware_def event_row_ok_def state_ok_def event_max_attempts_def split: option.splits sum.splits intro!: add)
qed

lemma release_row_ok: "event_row_ok sha256 iso_text r \<Longrightarrow> lease_expired now r \<Longrightarrow> event_row_ok sha256 iso_text (r\<lparr>ev_state := EventPending, ev_lease := None\<rparr>)"
  by (auto simp: event_row_ok_def state_ok_def event_row_valid_def lease_expired_def)

lemma release_keeps: "outbox_ok sha256 iso_text table \<Longrightarrow> outbox_ok sha256 iso_text (release_expired now table)"
  unfolding release_expired_def by (rule outbox_ok_map) (auto simp: release_row_ok)

lemma lease_row_ok: "event_row_ok sha256 iso_text r \<Longrightarrow> event_row_ok sha256 iso_text (lease_row now i r)"
  by (auto simp: event_row_ok_def state_ok_def event_row_valid_def lease_row_def)

lemma lease_row_id [simp]: "ev_id (lease_row now i r) = ev_id r"
  by (simp add: lease_row_def)

lemma lease_keeps: "outbox_ok sha256 iso_text table \<Longrightarrow> outbox_ok sha256 iso_text (map (lease_row now i) table)"
  by (rule outbox_ok_map) (simp_all add: lease_row_ok)

lemma claim_keeps: "outbox_ok sha256 iso_text table \<Longrightarrow> outbox_ok sha256 iso_text (snd (claim_due clock table))"
  by (auto simp: claim_due_def Let_def release_keeps lease_keeps split: sum.splits list.splits)

lemma result_row_id [simp]: "ev_id (result_row now a b r) = ev_id r"
  by (simp add: result_row_def Let_def)

lemma result_row_ok:
  "event_row_ok sha256 iso_text r \<Longrightarrow> ev_state r = EventDelivering \<Longrightarrow> event_row_ok sha256 iso_text (result_row now a b r)"
  by (auto simp: event_row_ok_def state_ok_def event_row_valid_def result_row_def Let_def)

lemma record_keeps: "outbox_ok sha256 iso_text table \<Longrightarrow> outbox_ok sha256 iso_text (snd (record_result clock i a b table))"
  by (auto simp: record_result_def Let_def result_row_ok split: sum.splits option.splits intro!: outbox_ok_map)

lemma replayed_row_ok: "event_row_ok sha256 iso_text r \<Longrightarrow> event_row_ok sha256 iso_text (replayed_row now r)"
  by (auto simp: event_row_ok_def state_ok_def event_row_valid_def replayed_row_def event_max_attempts_def)

lemma replayed_row_id [simp]: "ev_id (replayed_row now r) = ev_id r"
  by (simp add: replayed_row_def)

lemma replay_result:
  assumes "replay_dead sha256 iso_text clock org q table = (Inr (n, m), table')"
  shows "\<exists>now rows total observed. clock = Some now \<and> rr_observed_at q = Some observed \<and> observed \<le> now \<and> now - observed \<le> replay_ttl \<and>
    dead_selection org table = Inr (rows, total) \<and> rows \<noteq> [] \<and> replay_digest sha256 iso_text org rows = rr_snapshot_digest q \<and>
    n = length rows \<and> m = total - length rows \<and>
    table' = map (\<lambda>r. if ev_organization r = org \<and> ev_state r = EventDead \<and> ev_id r \<in> set (map ev_id rows) then replayed_row now r else r) table"
proof -
  obtain now observed rows total where "clock = Some now" "rr_observed_at q = Some observed" "dead_selection org table = Inr (rows, total)"
    using assms by (cases clock; cases "rr_observed_at q"; cases "dead_selection org table")
      (auto simp: replay_dead_def aware_def split: if_splits)
  then show ?thesis using assms by (auto simp: replay_dead_def aware_def Let_def split: if_splits)
qed

lemma replay_keeps: "outbox_ok sha256 iso_text table \<Longrightarrow> outbox_ok sha256 iso_text (snd (replay_dead sha256 iso_text clock org q table))"
proof (cases "replay_dead sha256 iso_text clock org q table")
  case (Pair r t)
  assume ok: "outbox_ok sha256 iso_text table"
  show ?thesis
  proof (cases r)
    case (Inl e)
    then have "t = table" using Pair by (auto simp: replay_dead_def split: sum.splits prod.splits)
    then show ?thesis using ok Pair by simp
  next
    case (Inr nm)
    then obtain n m where "replay_dead sha256 iso_text clock org q table = (Inr (n, m), t)" using Pair by (cases nm) auto
    from replay_result [OF this] show ?thesis using Pair ok by (auto intro!: outbox_ok_map replayed_row_ok)
  qed
qed

subsection \<open>A sample run\<close>

definition outbox_sha :: "string \<Rightarrow> string" where
  "outbox_sha s = replicate 64 (if starts_with ''inspectra'' s then CHR ''a'' else if last s = CHR ''2'' then CHR ''b'' else CHR ''c'')"

definition outbox_iso :: "instant \<Rightarrow> string" where
  "outbox_iso t = ''2026-01-01T00:00:00Z''"

definition outbox_event :: "char \<Rightarrow> event_row" where
  "outbox_event c = \<lparr>ev_id = outbox_sha [c], ev_organization = ''local-admin'', ev_payload = \<lparr>pl_event_id = outbox_sha [c], pl_occurred_at = 0,
     pl_project_id = replicate 32 CHR ''1'', pl_analysis_id = replicate 32 c, pl_status = AnalysisCompleted, pl_finding_count = Some 3\<rparr>,
     ev_state = EventPending, ev_attempts = 0, ev_next_attempt = 0, ev_lease = None, ev_result = None, ev_created = 0, ev_delivered = None\<rparr>"

lemma outbox_event_ok: "event_row_ok outbox_sha outbox_iso (outbox_event CHR ''2'')" "event_row_ok outbox_sha outbox_iso (outbox_event CHR ''3'')"
  by code_simp+

lemma outbox_first: "enqueue_terminal_analysis outbox_sha outbox_iso (Some 0) ''local-admin'' (replicate 32 CHR ''1'') (replicate 32 CHR ''2'') ''completed'' 0 (Some 3) []
  = (Inr (outbox_event CHR ''2''), [outbox_event CHR ''2''])"
  by code_simp

lemma outbox_second: "enqueue_terminal_analysis outbox_sha outbox_iso (Some 0) ''local-admin'' (replicate 32 CHR ''1'') (replicate 32 CHR ''3'') ''completed'' 0 (Some 3) [outbox_event CHR ''2'']
  = (Inr (outbox_event CHR ''3''), [outbox_event CHR ''2'', outbox_event CHR ''3''])"
  by code_simp

text \<open>Both events enqueued, the first claimed, then dead or delivered.\<close>

definition outbox_two :: "event_row list" where
  "outbox_two = [outbox_event CHR ''2'', outbox_event CHR ''3'']"

definition outbox_claimed :: "event_row list" where
  "outbox_claimed = [(outbox_event CHR ''2'')\<lparr>ev_state := EventDelivering, ev_lease := Some event_lease\<rparr>, outbox_event CHR ''3'']"

definition outbox_dead :: "event_row list" where
  "outbox_dead = [(outbox_event CHR ''2'')\<lparr>ev_state := EventDead, ev_attempts := 1, ev_next_attempt := 5, ev_result := Some PermanentFailure\<rparr>,
     outbox_event CHR ''3'']"

lemma outbox_claim_step: "snd (claim_due (Some 0) outbox_two) = outbox_claimed"
  by code_simp

lemma outbox_dead_step: "snd (record_result (Some 5) (outbox_sha ''2'') False False outbox_claimed) = outbox_dead"
  by code_simp

lemma outbox_sha_hex: "is_hex_id 64 (outbox_sha s)"
proof -
  have "is_hex_id 64 (replicate 64 CHR ''a'')" "is_hex_id 64 (replicate 64 CHR ''b'')" "is_hex_id 64 (replicate 64 CHR ''c'')" by code_simp+
  then show ?thesis by (simp add: outbox_sha_def)
qed

subsection \<open>Runs\<close>

text \<open>A step reads the clock at most at the time \<open>until\<close>; every run has such a bound.\<close>

definition clock_until :: "instant \<Rightarrow> instant option \<Rightarrow> bool" where
  "clock_until until clock \<longleftrightarrow> (case clock of None \<Rightarrow> True | Some now \<Rightarrow> now \<le> until)"

inductive outbox_step :: "(string \<Rightarrow> string) \<Rightarrow> (instant \<Rightarrow> string) \<Rightarrow> instant \<Rightarrow> event_row list \<Rightarrow> event_row list \<Rightarrow> bool" for sha256 iso_text until where
  enqueued: "clock_until until clock \<Longrightarrow>
    outbox_step sha256 iso_text until t (snd (enqueue_terminal_analysis sha256 iso_text clock org project analysis status occurred n t))"
| purged: "clock_until until clock \<Longrightarrow> outbox_step sha256 iso_text until t (snd (purge_terminal_events clock t))"
| claimed: "clock_until until clock \<Longrightarrow> outbox_step sha256 iso_text until t (snd (claim_due clock t))"
| recorded: "clock_until until clock \<Longrightarrow> outbox_step sha256 iso_text until t (snd (record_result clock i accepted retryable t))"
| replayed: "clock_until until clock \<Longrightarrow> outbox_step sha256 iso_text until t (snd (replay_dead sha256 iso_text clock org q t))"

lemma outbox_step_keeps: "outbox_step sha256 iso_text until t t' \<Longrightarrow> outbox_ok sha256 iso_text t \<Longrightarrow> outbox_ok sha256 iso_text t'"
  by (induction rule: outbox_step.induct)
    (auto simp: enqueue_keeps claim_keeps record_keeps replay_keeps purge_terminal_events_def purge_keeps_outbox split: sum.splits)

interpretation outbox_runs: invariant_steps "outbox_step sha256 iso_text until" "outbox_ok sha256 iso_text" for sha256 iso_text until
  by unfold_locales (rule outbox_step_keeps)

lemma empty_outbox_ok: "outbox_ok sha256 iso_text []"
  by (simp add: outbox_ok_def)

lemma clock_until_zero: "clock_until 10 (Some 0)"
  by (simp add: clock_until_def)

lemma outbox_run_step:
  "(outbox_step sha256 iso_text until)\<^sup>*\<^sup>* [] t \<Longrightarrow> outbox_step sha256 iso_text until t u \<Longrightarrow> u = v \<Longrightarrow> (outbox_step sha256 iso_text until)\<^sup>*\<^sup>* [] v"
  by (blast intro: rtranclp.rtrancl_into_rtrancl)

lemma outbox_first_reachable: "(outbox_step outbox_sha outbox_iso 10)\<^sup>*\<^sup>* [] [outbox_event CHR ''2'']"
  by (rule outbox_run_step [OF rtranclp.rtrancl_refl enqueued [OF clock_until_zero] arg_cong [OF outbox_first, of snd, unfolded snd_conv]])

lemma outbox_two_reachable: "(outbox_step outbox_sha outbox_iso 10)\<^sup>*\<^sup>* [] outbox_two"
  unfolding outbox_two_def
  by (rule outbox_run_step [OF outbox_first_reachable enqueued [OF clock_until_zero] arg_cong [OF outbox_second, of snd, unfolded snd_conv]])

lemma outbox_claimed_reachable: "(outbox_step outbox_sha outbox_iso 10)\<^sup>*\<^sup>* [] outbox_claimed"
  by (rule outbox_run_step [OF outbox_two_reachable claimed [OF clock_until_zero] outbox_claim_step])

lemma outbox_dead_reachable: "(outbox_step outbox_sha outbox_iso 10)\<^sup>*\<^sup>* [] outbox_dead"
proof -
  have "clock_until 10 (Some 5)" by (simp add: clock_until_def)
  from outbox_run_step [OF outbox_claimed_reachable recorded [OF this] outbox_dead_step] show ?thesis .
qed

text \<open>
  C19. Whatever operations run in whatever order, the outbox satisfies its type invariant: unique identifiers that are the digest of
  organization and analysis, at most 10000 rows, at most 8192 bytes of payload, and lease, result, delivery time and number
  of attempts as the state of the row requires. So reading any row back succeeds and the checks of the table never fail.
\<close>

theorem outbox_well_formed:
  assumes "(outbox_step sha256 iso_text until)\<^sup>*\<^sup>* [] table"
  shows "outbox_ok sha256 iso_text table \<and> list_all (\<lambda>r. get_event (ev_id r) table = Inr (read_row r)) table"
  using outbox_runs.run_inv [OF assms empty_outbox_ok] get_row by (auto simp: list_all_iff)

lemma outbox_well_formed_witness:
  "outbox_ok outbox_sha outbox_iso outbox_claimed \<and> list_all (\<lambda>r. get_event (ev_id r) outbox_claimed = Inr (read_row r)) outbox_claimed"
  using outbox_well_formed [OF outbox_claimed_reachable] .

subsection \<open>Delivered events\<close>

text \<open>The row of a delivered event.\<close>

definition receipt :: "string \<Rightarrow> instant \<Rightarrow> event_row list \<Rightarrow> bool" where
  "receipt i at table \<longleftrightarrow> list_ex (\<lambda>r. ev_id r = i \<and> ev_state r = EventDelivered \<and> ev_delivered r = Some at) table"

lemma receipt_map: "receipt i at t \<Longrightarrow> (\<And>r. ev_state r = EventDelivered \<Longrightarrow> f r = r) \<Longrightarrow> receipt i at (map f t)"
proof -
  assume "receipt i at t" "\<And>r. ev_state r = EventDelivered \<Longrightarrow> f r = r"
  then obtain r where "r \<in> set t" "ev_id (f r) = i \<and> ev_state (f r) = EventDelivered \<and> ev_delivered (f r) = Some at"
    by (auto simp: receipt_def list_ex_iff)
  then show ?thesis unfolding receipt_def by (rule list_ex_mapI)
qed

lemma receipt_purge: "receipt i at t \<Longrightarrow> now \<le> at + delivered_retention \<Longrightarrow> receipt i at (purge_rows now t)"
  by (auto simp: receipt_def list_ex_iff purge_rows_def terminal_expired_def)

lemma receipt_append: "receipt i at t \<Longrightarrow> receipt i at (t @ u)"
  by (simp add: receipt_def)

lemma receipt_claim: "receipt i at t \<Longrightarrow> receipt i at (snd (claim_due clock t))"
  unfolding claim_due_def release_expired_def
  by (auto simp: Let_def lease_expired_def lease_row_def split: sum.splits list.splits intro!: receipt_map simp del: map_map)

lemma receipt_step:
  assumes "outbox_step sha256 iso_text until t t'" "until \<le> at + delivered_retention" "receipt i at t"
  shows "receipt i at t'"
  using assms(1)
proof cases
  case (enqueued clock org project analysis status occurred n)
  have "receipt i at (purge_rows now t)" if "clock = Some now" for now
    using enqueued that assms(2,3) by (intro receipt_purge) (simp_all add: clock_until_def)
  then show ?thesis using enqueued assms(3) unfolding enqueue_terminal_analysis_def
    by (auto simp: Let_def aware_def split: option.splits sum.splits intro!: receipt_append)
next
  case (purged clock)
  then show ?thesis using assms(2,3)
    by (auto simp: purge_terminal_events_def aware_def clock_until_def split: option.splits intro!: receipt_purge)
next
  case (claimed clock)
  then show ?thesis using assms(3) by (simp add: receipt_claim)
next
  case (recorded clock j accepted retryable)
  then show ?thesis using assms(3) by (auto simp: record_result_def Let_def split: sum.splits option.splits intro!: receipt_map)
next
  case (replayed clock org q)
  obtain r u where e: "replay_dead sha256 iso_text clock org q t = (r, u)" by fastforce
  show ?thesis
  proof (cases r)
    case (Inl x)
    then show ?thesis using e replayed assms(3) by (auto simp: replay_dead_def split: sum.splits prod.splits)
  next
    case (Inr nm)
    then obtain n m where "replay_dead sha256 iso_text clock org q t = (Inr (n, m), u)" using e by (cases nm) auto
    from replay_result [OF this] show ?thesis using e replayed assms(3) by (auto intro!: receipt_map)
  qed
qed

lemma sort_key_hd: "sort_key f xs = x # ys \<Longrightarrow> x \<in> set xs"
  by (metis list.set_intros(1) set_sort)

lemma claim_result:
  assumes "claim_due clock t = (Inr (Some e), t')"
  shows "\<exists>now r. clock = Some now \<and> r \<in> set (release_expired now t) \<and> ev_state r = EventPending \<and> ev_next_attempt r \<le> now \<and>
    (\<exists>rest. due_events now (release_expired now t) = r # rest) \<and>
    t' = map (lease_row now (ev_id r)) (release_expired now t) \<and> get_event (ev_id r) t' = Inr e \<and> ev_id e = ev_id r"
proof -
  obtain now where now: "clock = Some now" using assms by (cases clock) (auto simp: claim_due_def aware_def)
  obtain r rest where r: "due_events now (release_expired now t) = r # rest"
    using assms now by (cases "due_events now (release_expired now t)") (auto simp: claim_due_def aware_def Let_def)
  have mem: "r \<in> set (release_expired now t)" "ev_state r = EventPending" "ev_next_attempt r \<le> now"
    using sort_key_hd [OF r [unfolded due_events_def]] by simp_all
  have t': "t' = map (lease_row now (ev_id r)) (release_expired now t)" "get_event (ev_id r) t' = Inr e"
    using assms now r by (auto simp: claim_due_def aware_def Let_def split: if_splits sum.splits)
  then have "ev_id e = ev_id r" using get_event_Inr by fastforce
  then show ?thesis using now r mem t' by blast
qed

text \<open>
  C8. An event that was delivered is not sent again for 30 days: as long as the clock does not pass that time, no run of the operations
  (enqueueing the same analysis again included) lets a claim return it.
\<close>

theorem delivered_event_not_resent:
  assumes "(outbox_step sha256 iso_text until0)\<^sup>*\<^sup>* [] t0" "record_result (Some now) i True retryable t0 = (Inr r, t1)"
    "(outbox_step sha256 iso_text until)\<^sup>*\<^sup>* t1 t2" "until \<le> now + delivered_retention" "fst (claim_due clock t2) = Inr (Some e)"
  shows "ev_id e \<noteq> i"
proof
  assume i: "ev_id e = i"
  have ok0: "outbox_ok sha256 iso_text t0" by (rule outbox_runs.run_inv [OF assms(1) empty_outbox_ok])
  obtain x where x: "find (\<lambda>r. ev_id r = i) t0 = Some x" "ev_state x = EventDelivering"
      "t1 = map (\<lambda>r. if ev_id r = i \<and> ev_state r = EventDelivering then result_row now True retryable r else r) t0"
    using assms(2) by (auto simp: record_result_def aware_def Let_def split: option.splits if_splits)
  have "x \<in> set t0" "ev_id x = i" using find_Some_iff_first [OF x(1)] by simp_all
  then have "receipt i now t1" unfolding receipt_def x(3) using x(2) by (intro list_ex_mapI [of x]) (simp_all add: result_row_def Let_def)
  moreover have ok1: "outbox_ok sha256 iso_text t1" using record_keeps [OF ok0, of "Some now" i True retryable] assms(2) by simp
  ultimately have "receipt i now t2"
    using outbox_runs.run_stable [where P = "receipt i now", OF _ assms(3) ok1] receipt_step [OF _ assms(4)] by blast
  have ok2: "outbox_ok sha256 iso_text t2" by (rule outbox_runs.run_inv [OF assms(3) ok1])
  obtain c u where c: "claim_due clock t2 = (Inr (Some e), u)" using assms(5) by (cases "claim_due clock t2") auto
  obtain now' y where y: "y \<in> set (release_expired now' t2)" "ev_state y = EventPending" "ev_id y = i" using claim_result [OF c] i by auto
  have "receipt i now (release_expired now' t2)" unfolding release_expired_def
    by (rule receipt_map [OF \<open>receipt i now t2\<close>]) (simp add: lease_expired_def)
  then obtain z where z: "z \<in> set (release_expired now' t2)" "ev_id z = i" "ev_state z = EventDelivered" by (auto simp: receipt_def list_ex_iff)
  have "inj_on ev_id (set (release_expired now' t2))" using release_keeps [OF ok2] by (simp add: outbox_ok_def distinct_map)
  then have "y = z" using y z by (metis inj_onD)
  then show False using y z by simp
qed

lemma delivered_event_not_resent_witness:
  "\<exists>r t e. record_result (Some 5) (outbox_sha ''2'') True False outbox_claimed = (Inr r, t) \<and> fst (claim_due (Some 6) t) = Inr (Some e) \<and> ev_id e \<noteq> outbox_sha ''2''"
proof -
  have "\<not> isl (fst (record_result (Some 5) (outbox_sha ''2'') True False outbox_claimed))" by code_simp
  then obtain r t where r: "record_result (Some 5) (outbox_sha ''2'') True False outbox_claimed = (Inr r, t)"
    by (cases "record_result (Some 5) (outbox_sha ''2'') True False outbox_claimed"; cases "fst (record_result (Some 5) (outbox_sha ''2'') True False outbox_claimed)") auto
  have "map_sum id (map_option (\<lambda>_. ())) (fst (claim_due (Some 6) (snd (record_result (Some 5) (outbox_sha ''2'') True False outbox_claimed)))) = Inr (Some ())"
    by code_simp
  then obtain e where e: "fst (claim_due (Some 6) t) = Inr (Some e)" using r by (cases "fst (claim_due (Some 6) t)") auto
  have "ev_id e \<noteq> outbox_sha ''2''"
    by (rule delivered_event_not_resent [OF outbox_claimed_reachable r rtranclp.rtrancl_refl, where until = 6]) (use e in \<open>simp_all add: delivered_retention_def days_of_def seconds_def\<close>)
  then show ?thesis using r e by blast
qed

subsection \<open>The order of claims\<close>



definition release_row :: "instant \<Rightarrow> event_row \<Rightarrow> event_row" where
  "release_row now r = (if lease_expired now r then r\<lparr>ev_state := EventPending, ev_lease := None\<rparr> else r)"


lemma release_row_simps [simp]:
  "ev_id (release_row now r) = ev_id r" "ev_next_attempt (release_row now r) = ev_next_attempt r"
  "ev_payload (release_row now r) = ev_payload r" "ev_attempts (release_row now r) = ev_attempts r"
  by (simp_all add: release_row_def)

lemma lease_row_next [simp]: "ev_next_attempt (lease_row now i r) = ev_next_attempt r"
  by (simp add: lease_row_def)








lemma singleton_list: "set xs = {x} \<Longrightarrow> distinct xs \<Longrightarrow> xs = [x]"
  by (cases xs) (auto simp: subset_singleton_iff)

lemma claim_head:
  assumes "outbox_ok sha256 iso_text t" "due_events now (release_expired now t) = r # rest"
  shows "\<exists>e. claim_due (Some now) t = (Inr (Some e), map (lease_row now (ev_id r)) (release_expired now t)) \<and> ev_id e = ev_id r \<and>
    ev_attempts e = ev_attempts r \<and> ev_payload e = ev_payload r"
proof -
  let ?t = "release_expired now t"
  have ok: "outbox_ok sha256 iso_text ?t" "outbox_ok sha256 iso_text (map (lease_row now (ev_id r)) ?t)"
    using release_keeps [OF assms(1)] lease_keeps by blast+
  have r: "r \<in> set ?t" "ev_state r = EventPending" using sort_key_hd [OF assms(2) [unfolded due_events_def]] by simp_all
  have "filter (\<lambda>x. ev_id x = ev_id r \<and> ev_state x = EventPending) ?t = [r]"
  proof -
    have "inj_on ev_id (set ?t)" using ok(1) by (simp add: outbox_ok_def distinct_map)
    then have "x = r" if "x \<in> set ?t" "ev_id x = ev_id r" for x using that r(1) by (metis inj_onD)
    then have "set (filter (\<lambda>x. ev_id x = ev_id r \<and> ev_state x = EventPending) ?t) = {r}" using r unfolding set_filter by blast
    moreover have "distinct ?t" using ok(1) by (simp add: outbox_ok_def distinct_map)
    then have "distinct (filter (\<lambda>x. ev_id x = ev_id r \<and> ev_state x = EventPending) ?t)" by simp
    ultimately show ?thesis by (rule singleton_list)
  qed
  moreover have "lease_row now (ev_id r) r \<in> set (map (lease_row now (ev_id r)) ?t)" using r(1) by simp
  from get_row [OF ok(2) this] have "get_event (ev_id r) (map (lease_row now (ev_id r)) ?t) = Inr (read_row (lease_row now (ev_id r) r))" by simp
  ultimately show ?thesis using assms(2)
    by (auto simp: claim_due_def aware_def Let_def lease_row_def intro!: exI [of _ "read_row (lease_row now (ev_id r) r)"])
qed









subsection \<open>Results and retries\<close>

lemma record_row:
  assumes "outbox_ok sha256 iso_text t" "r \<in> set t" "ev_state r = EventDelivering"
  shows "record_result (Some now) (ev_id r) a b t = (Inr (read_row (result_row now a b r)),
    map (\<lambda>x. if ev_id x = ev_id r \<and> ev_state x = EventDelivering then result_row now a b x else x) t)"
proof -
  let ?t = "map (\<lambda>x. if ev_id x = ev_id r \<and> ev_state x = EventDelivering then result_row now a b x else x) t"
  have ok: "outbox_ok sha256 iso_text ?t" by (rule outbox_ok_map [OF assms(1)]) (auto simp: result_row_ok)
  have "result_row now a b r \<in> set ?t" using assms(2,3) by force
  from get_row [OF ok this] have "get_event (ev_id r) ?t = Inr (read_row (result_row now a b r))" by simp
  then show ?thesis using row_unique [OF assms(1,2)] assms(3) by (simp add: record_result_def aware_def Let_def)
qed

lemma backoff_values: "0 \<le> n \<Longrightarrow> n < 4 \<Longrightarrow> backoff (n + 1) = seconds (2 ^ nat (n + 1)) \<and> backoff (n + 1) \<le> seconds 16"
proof -
  assume "0 \<le> n" "n < 4"
  then consider "n = 0" | "n = 1" | "n = 2" | "n = 3" by linarith
  then show ?thesis by cases (simp_all add: backoff_def seconds_def)
qed

text \<open>
  A failure that may be retried moves a claimed event \<open>2\<close>, \<open>4\<close>, \<open>8\<close> and then \<open>16\<close> seconds ahead, and the fifth attempt makes it dead; a failure that may
  not be retried makes it dead at once. So the limit of 300 seconds in the code never applies.
\<close>

theorem retry_schedule:
  assumes "(outbox_step sha256 iso_text until)\<^sup>*\<^sup>* [] t" "r \<in> set t" "ev_state r = EventDelivering"
  shows "\<exists>x t'. record_result (Some now) (ev_id r) False retryable t = (Inr x, t') \<and> ev_attempts x = ev_attempts r + 1 \<and>
    (if retryable \<and> ev_attempts r < 4
     then ev_state x = EventPending \<and> ev_next_attempt x = now + seconds (2 ^ nat (ev_attempts r + 1)) \<and> ev_next_attempt x \<le> now + seconds 16
     else ev_state x = EventDead)"
proof -
  have ok: "outbox_ok sha256 iso_text t" by (rule outbox_runs.run_inv [OF assms(1) empty_outbox_ok])
  then have "0 \<le> ev_attempts r" using assms(2) by (simp add: outbox_ok_def list_all_iff event_row_ok_def event_row_valid_def)
  then show ?thesis unfolding record_row [OF ok assms(2,3)] using backoff_values [of "ev_attempts r"]
    by (cases "ev_attempts r < 4") (simp_all add: result_row_def Let_def event_max_attempts_def)
qed

lemma retry_schedule_witness:
  "\<exists>x t'. record_result (Some 5) (outbox_sha ''2'') False True outbox_claimed = (Inr x, t') \<and> ev_next_attempt x = 5 + seconds 2"
  using retry_schedule [OF outbox_claimed_reachable, of "(outbox_event CHR ''2'')\<lparr>ev_state := EventDelivering, ev_lease := Some event_lease\<rparr>" 5 True]
  by (auto simp: outbox_claimed_def outbox_event_def)

lemma claimed_row:
  assumes "outbox_ok sha256 iso_text t" "claim_due (Some now) t = (Inr (Some e), t')"
  shows "outbox_ok sha256 iso_text t'" "\<exists>r \<in> set t'. ev_id r = ev_id e \<and> ev_state r = EventDelivering"
proof -
  show "outbox_ok sha256 iso_text t'" using claim_keeps [OF assms(1), of "Some now"] assms(2) by simp
  obtain r now' where r: "r \<in> set (release_expired now' t)" "ev_state r = EventPending" "ev_id e = ev_id r" "t' = map (lease_row now' (ev_id r)) (release_expired now' t)"
    using claim_result [OF assms(2)] by blast
  then show "\<exists>r \<in> set t'. ev_id r = ev_id e \<and> ev_state r = EventDelivering" by (intro bexI [of _ "lease_row now' (ev_id r) r"]) (auto simp: lease_row_def)
qed

text \<open>
  C36. A lease has no owner. When a worker's lease ran out and a second worker has claimed the same event, the result of the first is
  still recorded: if it reports a permanent failure the event is dead, and the second worker, whose delivery the receiver accepted, is told that its claim is lost.
\<close>

theorem stale_worker_decides:
  assumes "(outbox_step sha256 iso_text until)\<^sup>*\<^sup>* [] t" "claim_due (Some t0) t = (Inr (Some a), u)" "claim_due (Some t1) u = (Inr (Some b), v)"
    "ev_id b = ev_id a"
  shows "\<exists>x w. record_result (Some t2) (ev_id a) False False v = (Inr x, w) \<and> ev_state x = EventDead \<and>
    record_result (Some t3) (ev_id b) True retryable w = (Inl DeliveryClaimLost, w)"
proof -
  have "outbox_ok sha256 iso_text u" using outbox_runs.run_inv [OF assms(1) empty_outbox_ok] claimed_row(1) assms(2) by blast
  note ok = claimed_row [OF this assms(3)]
  obtain r where r: "r \<in> set v" "ev_id r = ev_id a" "ev_state r = EventDelivering" using ok(2) assms(4) by auto
  let ?w = "map (\<lambda>x. if ev_id x = ev_id r \<and> ev_state x = EventDelivering then result_row t2 False False x else x) v"
  have first: "record_result (Some t2) (ev_id a) False False v = (Inr (read_row (result_row t2 False False r)), ?w)"
    using record_row [OF ok(1) r(1,3)] r(2) by simp
  have "outbox_ok sha256 iso_text ?w" using record_keeps [OF ok(1), of "Some t2" "ev_id a" False False] first by simp
  moreover have "result_row t2 False False r \<in> set ?w" using r by force
  ultimately have "find (\<lambda>x. ev_id x = ev_id (result_row t2 False False r)) ?w = Some (result_row t2 False False r)" by (rule row_unique)
  then have "find (\<lambda>x. ev_id x = ev_id b) ?w = Some (result_row t2 False False r)" by (simp only: result_row_id r(2) assms(4))
  then have "record_result (Some t3) (ev_id b) True retryable ?w = (Inl DeliveryClaimLost, ?w)"
    by (simp add: record_result_def aware_def result_row_def Let_def)
  then show ?thesis using first by (auto simp: result_row_def Let_def)
qed

lemma stale_worker_decides_witness:
  "\<exists>a u b v x w. claim_due (Some 0) [outbox_event CHR ''2''] = (Inr (Some a), u) \<and> claim_due (Some event_lease) u = (Inr (Some b), v) \<and>
     record_result (Some (event_lease + 1)) (ev_id a) False False v = (Inr x, w) \<and> ev_state x = EventDead \<and>
     record_result (Some (event_lease + 2)) (ev_id b) True False w = (Inl DeliveryClaimLost, w)"
proof -
  let ?t = "[outbox_event CHR ''2'']"
  have ok: "outbox_ok outbox_sha outbox_iso ?t" using outbox_event_ok(1) by (simp add: outbox_ok_def event_max_records_def)
  have rel: "release_expired 0 ?t = ?t" by (simp add: release_expired_def lease_expired_def outbox_event_def)
  have "due_events 0 (release_expired 0 ?t) = [outbox_event CHR ''2'']" unfolding rel by (simp add: due_events_def outbox_event_def)
  from claim_head [OF ok this] obtain a u where a: "claim_due (Some 0) ?t = (Inr (Some a), u)" "ev_id a = outbox_sha ''2''"
      "u = [lease_row 0 (outbox_sha ''2'') (outbox_event CHR ''2'')]" unfolding rel by (auto simp: outbox_event_def)
  have "release_expired event_lease u = [outbox_event CHR ''2'']" unfolding a(3)
    by (simp add: release_expired_def lease_expired_def lease_row_def outbox_event_def)
  then have "due_events event_lease (release_expired event_lease u) = [outbox_event CHR ''2'']"
    by (simp add: due_events_def outbox_event_def event_lease_def seconds_def)
  from claim_head [OF claimed_row(1) [OF ok a(1)] this] obtain b v where b: "claim_due (Some event_lease) u = (Inr (Some b), v)" "ev_id b = outbox_sha ''2''"
    by (auto simp: outbox_event_def)
  show ?thesis using stale_worker_decides [OF outbox_first_reachable a(1) b(1)] a b by fastforce
qed

text \<open>The claims of a worker that stops before it records a result, each after the lease of the one before.\<close>

fun interrupted_claims :: "nat \<Rightarrow> instant \<Rightarrow> event_row list \<Rightarrow> event_row option list \<times> event_row list" where
  "interrupted_claims 0 now t = ([], t)"
| "interrupted_claims (Suc n) now t =
     (case claim_due (Some now) t of (r, t') \<Rightarrow>
       (case interrupted_claims n (now + event_lease) t' of (rs, u) \<Rightarrow> ((case r of Inr (Some e) \<Rightarrow> Some e | _ \<Rightarrow> None) # rs, u)))"

text \<open>
  Only recorded results count as attempts. An event whose worker stops after each delivery, before recording the result, is claimed, and so
  sent, any number of times with the same number of attempts; it is never dead.
\<close>

theorem unrecorded_attempts_uncounted:
  assumes "event_row_ok sha256 iso_text r" "ev_next_attempt r \<le> now"
    "ev_state r = EventPending \<or> (ev_state r = EventDelivering \<and> lease_expired now r)"
  shows "list_all (\<lambda>e. \<exists>x. e = Some x \<and> ev_id x = ev_id r \<and> ev_attempts x = ev_attempts r) (fst (interrupted_claims n now [r])) \<and>
    length (fst (interrupted_claims n now [r])) = n"
  using assms
proof (induction n arbitrary: r now)
  case (Suc n)
  let ?r = "r\<lparr>ev_state := EventPending, ev_lease := None\<rparr>" and ?l = "r\<lparr>ev_state := EventDelivering, ev_lease := Some (now + event_lease)\<rparr>"
  have rel: "release_expired now [r] = [?r]"
    using Suc.prems by (auto simp: release_expired_def lease_expired_def event_row_ok_def state_ok_def)
  have ok: "outbox_ok sha256 iso_text [r]" using Suc.prems(1) by (simp add: outbox_ok_def event_max_records_def)
  have "due_events now (release_expired now [r]) = [?r]" unfolding rel due_events_def using Suc.prems(2) by simp
  from claim_head [OF ok this] obtain e where e: "claim_due (Some now) [r] = (Inr (Some e), [?l])" "ev_id e = ev_id r" "ev_attempts e = ev_attempts r"
    unfolding rel by (auto simp: lease_row_def)
  have "event_row_ok sha256 iso_text ?l" using claim_keeps [OF ok, of "Some now"] e(1) by (simp add: outbox_ok_def)
  moreover have "ev_next_attempt ?l \<le> now + event_lease" using Suc.prems(2) by (simp add: event_lease_def seconds_def)
  moreover have "lease_expired (now + event_lease) ?l" by (simp add: lease_expired_def)
  ultimately show ?case using Suc.IH [of ?l "now + event_lease"] e by (simp add: case_prod_beta)
qed simp

lemma unrecorded_attempts_uncounted_witness:
  "list_all (\<lambda>e. \<exists>x. e = Some x \<and> ev_attempts x = 0) (fst (interrupted_claims 7 0 [outbox_event CHR ''2''])) \<and>
   length (fst (interrupted_claims 7 0 [outbox_event CHR ''2''])) = 7"
  using unrecorded_attempts_uncounted [OF outbox_event_ok(1), of 0 7] by (auto simp: outbox_event_def list_all_iff)


subsection \<open>Requests\<close>

lemma chunks_within: "\<not> too_long n ns \<Longrightarrow> n \<le> event_max_response_bytes \<Longrightarrow> n + sum_list ns \<le> event_max_response_bytes"
  by (induction ns arbitrary: n) (fastforce split: if_splits)+

text \<open>
  C20. A request goes out only if the host was resolved and every address found is public. It carries the event's identifier and at most 8192 bytes, signed
  together with the time; and it counts as accepted only if the answer is complete, has a status from 200 to 299 and at most 8192 bytes.
\<close>

theorem request_checked_and_signed:
  assumes "deliver hmac_sha256 iso_text is_global cf False resolver now send r = (Some q, accepted, retryable)"
  shows "(\<exists>addresses. resolver (cf_host cf) = Resolved addresses \<and> addresses \<noteq> [] \<and> list_all (\<lambda>x. is_global x = Some True) addresses) \<and>
    sq_event_id q = pl_event_id (ev_payload r) \<and> sq_body q = payload_text iso_text (ev_payload r) \<and> length (sq_body q) \<le> event_max_body_bytes \<and>
    sq_signature q = ''v1='' @ hmac_sha256 (cf_signing_key cf) (sq_timestamp q @ ''.'' @ sq_body q) \<and>
    (accepted \<longrightarrow> 200 \<le> ex_status (send q) \<and> ex_status (send q) < 300 \<and> ex_end (send q) = ResponseComplete \<and>
      sum_list (ex_chunks (send q)) \<le> event_max_response_bytes)"
proof -
  obtain addresses where a: "resolver (cf_host cf) = Resolved addresses" "addresses \<noteq> []" "\<not> list_ex (\<lambda>x. \<not> is_public_address is_global x) addresses"
    using assms by (cases "resolver (cf_host cf)") (auto simp: deliver_def Let_def split: if_splits)
  then have "list_all (\<lambda>x. is_global x = Some True) addresses" by (simp add: list_ex_iff list_all_iff is_public_address_def)
  moreover obtain body where body: "payload_json iso_text (ev_payload r) = Inr body"
    using assms a by (cases "payload_json iso_text (ev_payload r)") (auto simp: deliver_def Let_def)
  then have "body = payload_text iso_text (ev_payload r)" "length body \<le> event_max_body_bytes" by (auto simp: payload_json_def split: if_splits)
  moreover have q: "q = sign_request hmac_sha256 cf now (ev_payload r) body" "exchange_outcome (send q) = (if accepted then Some (True, False) else exchange_outcome (send q))"
    using assms a body by (auto simp: deliver_def Let_def exchange_outcome_def split: option.splits if_splits exchange_end.splits)
  moreover have "200 \<le> ex_status (send q) \<and> ex_status (send q) < 300 \<and> ex_end (send q) = ResponseComplete \<and> \<not> too_long 0 (ex_chunks (send q))" if accepted
    using q(2) that by (auto simp: exchange_outcome_def split: if_splits exchange_end.splits)
  ultimately show ?thesis using a chunks_within [of 0 "ex_chunks (send q)"] by (auto simp: sign_request_def Let_def)
qed

lemma request_checked_and_signed_witness:
  "\<exists>q. deliver (\<lambda>k m. outbox_sha m) outbox_iso (\<lambda>a. Some True)
       \<lparr>cf_endpoint = ''https://hooks.example.test/'', cf_host = ''hooks.example.test'', cf_signing_key = replicate 32 CHR ''k'', cf_signing_key_id = ''k1'',
        cf_timeout = 5000000, cf_max_concurrency = 2\<rparr> False (\<lambda>h. Resolved [''93.184.216.34'']) 0
       (\<lambda>q. \<lparr>ex_status = 204, ex_chunks = [], ex_end = ResponseComplete\<rparr>) (outbox_event CHR ''2'') = (Some q, True, False) \<and>
     sq_event_id q = outbox_sha ''2'' \<and> length (sq_body q) \<le> event_max_body_bytes"
proof -
  let ?cf = "\<lparr>cf_endpoint = ''https://hooks.example.test/'', cf_host = ''hooks.example.test'', cf_signing_key = replicate 32 CHR ''k'', cf_signing_key_id = ''k1'',
        cf_timeout = 5000000, cf_max_concurrency = 2\<rparr>"
  have short: "payload_json outbox_iso (ev_payload (outbox_event CHR ''2'')) = Inr (payload_text outbox_iso (ev_payload (outbox_event CHR ''2'')))"
    using outbox_event_ok(1) by (simp add: event_row_ok_def payload_json_def)
  obtain q where q: "deliver (\<lambda>k m. outbox_sha m) outbox_iso (\<lambda>a. Some True) ?cf False (\<lambda>h. Resolved [''93.184.216.34'']) 0
      (\<lambda>q. \<lparr>ex_status = 204, ex_chunks = [], ex_end = ResponseComplete\<rparr>) (outbox_event CHR ''2'') = (Some q, True, False)"
    by (simp add: deliver_def short is_public_address_def exchange_outcome_def Let_def)
  show ?thesis using q request_checked_and_signed [OF q] by (auto simp: outbox_event_def)
qed

subsection \<open>Enqueueing\<close>

text \<open>
  Observing the same terminal analysis again adds nothing: as long as its event is not an expired receipt, the call returns the event of the first
  observation, whatever status and number of findings are reported now.
\<close>

theorem enqueue_idempotent:
  assumes "(outbox_step sha256 iso_text until)\<^sup>*\<^sup>* [] t"
    "enqueue_terminal_analysis sha256 iso_text clock org project analysis status occurred n t = (Inr r, t1)"
    "(outbox_step sha256 iso_text until)\<^sup>*\<^sup>* t1 t2" "x \<in> set t2" "ev_id x = ev_id r" "\<not> terminal_expired now x" "is_hex_id 32 project'"
    "terminal_status_of status' \<noteq> None" "pred_option (\<lambda>k. 0 \<le> k \<and> k \<le> 100000) n'"
  shows "enqueue_terminal_analysis sha256 iso_text (Some now) org project' analysis status' occurred' n' t2 = (Inr (read_row x), purge_rows now t2)"
proof -
  let ?id = "sha256 (event_id_text org analysis)"
  have ok: "outbox_ok sha256 iso_text t" by (rule outbox_runs.run_inv [OF assms(1) empty_outbox_ok])
  then have ok1: "outbox_ok sha256 iso_text t1" using enqueue_keeps [of sha256 iso_text t clock org project analysis status occurred n] assms(2) by simp
  then have ok2: "outbox_ok sha256 iso_text (purge_rows now t2)" using outbox_runs.run_inv [OF assms(3)] purge_keeps_outbox by blast
  have first: "is_hex_id 32 analysis" "list_all (\<lambda>c. code c < 128) org" "is_organization_id org" "is_hex_id 64 ?id" "ev_id r = ?id"
    using assms(2) by (auto simp: enqueue_terminal_analysis_def Let_def payload_valid_def event_row_valid_def split: if_splits option.splits sum.splits dest!: get_event_Inr)
  have x: "x \<in> set (purge_rows now t2)" using assms(4,6) by (simp add: purge_rows_def)
  have "find (\<lambda>y. ev_id y = ?id) (purge_rows now t2) = Some x" "get_event ?id (purge_rows now t2) = Inr (read_row x)"
    using row_unique [OF ok2 x] get_row [OF ok2 x] first(5) assms(5) by simp_all
  then show ?thesis using first(1-4) assms(7-9)
    by (auto simp: enqueue_terminal_analysis_def Let_def aware_def payload_valid_def event_row_valid_def event_max_attempts_def split: option.splits)
qed

lemma enqueue_idempotent_witness:
  "enqueue_terminal_analysis outbox_sha outbox_iso (Some 9) ''local-admin'' (replicate 32 CHR ''1'') (replicate 32 CHR ''2'') ''failed'' 8 None [outbox_event CHR ''2'']
     = (Inr (read_row (outbox_event CHR ''2'')), purge_rows 9 [outbox_event CHR ''2''])"
proof (rule enqueue_idempotent [OF rtranclp.rtrancl_refl outbox_first rtranclp.rtrancl_refl])
  show "is_hex_id 32 (replicate 32 CHR ''1'')" "terminal_status_of ''failed'' \<noteq> None" "\<not> terminal_expired 9 (outbox_event CHR ''2'')" by code_simp+
qed simp_all


subsection \<open>Replays\<close>

lemma length_unhex: "length (unhex s) = length s div 2"
  by (induction s rule: unhex.induct) simp_all

lemma hex_value_less: "is_hex c \<Longrightarrow> hex_value c < 16"
  by (auto simp: hex_value_def is_hex_def is_digit_def)

lemma hex_value_inject: "is_hex c \<Longrightarrow> is_hex d \<Longrightarrow> hex_value c = hex_value d \<Longrightarrow> c = d"
proof -
  assume "is_hex c" "is_hex d" "hex_value c = hex_value d"
  then have "code c = code d" by (auto simp: hex_value_def is_hex_def is_digit_def split: if_splits)
  then show ?thesis by (simp add: code_def)
qed

lemma sixteen_digits: "16 * a + b = 16 * c + d \<Longrightarrow> b < 16 \<Longrightarrow> d < 16 \<Longrightarrow> a = c \<and> b = d" for a b c d :: nat
proof -
  assume e: "16 * a + b = 16 * c + d" and less: "b < 16" "d < 16"
  have "a = (16 * a + b) div 16" "c = (16 * c + d) div 16" using less by simp_all
  then have "a = c" using e by simp
  then show ?thesis using e by simp
qed

lemma unhex_inject:
  "list_all is_hex s \<Longrightarrow> list_all is_hex t \<Longrightarrow> length s = length t \<Longrightarrow> even (length s) \<Longrightarrow> unhex s = unhex t \<Longrightarrow> s = t"
proof (induction s arbitrary: t rule: unhex.induct)
  case (1 a b s)
  obtain c d u where t: "t = c # d # u" using "1.prems"(3) by (cases t rule: unhex.cases) auto
  have small: "16 * hex_value x + hex_value y < 256" if "is_hex x" "is_hex y" for x y
    using hex_value_less [OF that(1)] hex_value_less [OF that(2)] by simp
  have "char_of (16 * hex_value a + hex_value b) = (char_of (16 * hex_value c + hex_value d) :: char)" using "1.prems"(5) t by simp
  then have "16 * hex_value a + hex_value b = 16 * hex_value c + hex_value d"
    using small [of a b] small [of c d] "1.prems"(1,2) t by (simp add: char_of_eq_iff take_bit_eq_mod)
  moreover have "hex_value b < 16" "hex_value d < 16" using hex_value_less "1.prems"(1,2) t by simp_all
  ultimately have "hex_value a = hex_value c" "hex_value b = hex_value d" using sixteen_digits by blast+
  then have "a = c" "b = d" using hex_value_inject "1.prems"(1,2) t by simp_all
  then show ?case using "1.IH" "1.prems" t by simp
qed (auto simp: length_Suc_conv)


lemma concat_blocks:
  assumes "concat xs = concat ys" "\<And>x. x \<in> set xs \<union> set ys \<Longrightarrow> length x = k" "0 < k"
  shows "xs = ys"
  using assms(1,2)
proof (induction xs arbitrary: ys)
  case Nil
  then show ?case using assms(3) by (cases ys) auto
next
  case (Cons x xs)
  show ?case
  proof (cases ys)
    case Nil
    then show ?thesis using Cons.prems assms(3) by auto
  next
    case (Cons y zs)
    have "x @ concat xs = y @ concat zs" using Cons.prems(1) Cons by simp
    moreover have "length x = k" "length y = k" using Cons.prems(2) Cons by auto
    ultimately have "x = y" "concat xs = concat zs" by simp_all
    then show ?thesis using Cons.IH [of zs] Cons.prems(2) Cons by simp
  qed
qed

lemma map_eq_other:
  "map f xs = map f ys \<Longrightarrow> (\<And>x y. f x = f y \<Longrightarrow> x \<in> set xs \<Longrightarrow> y \<in> set ys \<Longrightarrow> g x = g y) \<Longrightarrow> map g xs = map g ys"
proof (induction xs arbitrary: ys)
  case (Cons x xs)
  then obtain y zs where ys: "ys = y # zs" "f x = f y" "map f xs = map f zs" by (cases ys) auto
  have "map g xs = map g zs" by (rule Cons.IH [OF ys(3)]) (use Cons.prems(2) ys(1) in simp)
  then show ?case using Cons.prems(2) [of x y] ys by simp
qed simp

definition replay_rows :: "string \<Rightarrow> event_row list \<Rightarrow> event_row list" where
  "replay_rows org t = take replay_max_events (dead_rows org t)"

lemma replay_rows_mem: "r \<in> set (replay_rows org t) \<Longrightarrow> r \<in> set t \<and> ev_organization r = org \<and> ev_state r = EventDead"
  by (auto simp: replay_rows_def dead_rows_def dest: in_set_takeD)

text \<open>The texts whose digests a preflight on \<open>t\<close> takes.\<close>

definition replay_hashed :: "(string \<Rightarrow> string) \<Rightarrow> (instant \<Rightarrow> string) \<Rightarrow> string \<Rightarrow> event_row list \<Rightarrow> string set" where
  "replay_hashed sha256 iso_text org t =
     insert (replay_text sha256 iso_text org (replay_rows org t)) (set (map (\<lambda>r. payload_text iso_text (ev_payload r)) (replay_rows org t)))"

lemma replay_digest_determines:
  assumes "outbox_ok sha256 iso_text t0" "outbox_ok sha256 iso_text t1" "\<forall>x. is_hex_id 64 (sha256 x)"
    "inj_on sha256 (replay_hashed sha256 iso_text org t0 \<union> replay_hashed sha256 iso_text org t1)"
    "replay_digest sha256 iso_text org (replay_rows org t0) = replay_digest sha256 iso_text org (replay_rows org t1)"
  shows "map (\<lambda>r. (ev_id r, payload_text iso_text (ev_payload r))) (replay_rows org t0) =
    map (\<lambda>r. (ev_id r, payload_text iso_text (ev_payload r))) (replay_rows org t1)"
proof -
  let ?part = "replay_part sha256 iso_text" and ?pair = "\<lambda>r. (ev_id r, payload_text iso_text (ev_payload r))"
  have row: "length (ev_id r) = 64" "is_hex_id 64 (sha256 (payload_text iso_text (ev_payload r)))" if "r \<in> set (replay_rows org t0) \<union> set (replay_rows org t1)" for r
  proof -
    have "r \<in> set t0 \<union> set t1" using that replay_rows_mem by blast
    then have "event_row_ok sha256 iso_text r" using assms(1,2) by (auto simp: outbox_ok_def list_all_iff)
    then show "length (ev_id r) = 64" using row_id by (simp add: is_hex_id_def)
    show "is_hex_id 64 (sha256 (payload_text iso_text (ev_payload r)))" using assms(3) by simp
  qed
  have "replay_text sha256 iso_text org (replay_rows org t0) = replay_text sha256 iso_text org (replay_rows org t1)"
    using inj_onD [OF assms(4) assms(5) [unfolded replay_digest_def]] by (simp add: replay_hashed_def)
  then have "concat (map ?part (replay_rows org t0)) = concat (map ?part (replay_rows org t1))" by (simp add: replay_text_def)
  then have "map ?part (replay_rows org t0) = map ?part (replay_rows org t1)"
  proof (rule concat_blocks [where k = 98])
    show "length x = 98" if "x \<in> set (map ?part (replay_rows org t0)) \<union> set (map ?part (replay_rows org t1))" for x
      using that row by (auto simp: replay_part_def length_unhex is_hex_id_def)
  qed simp
  moreover have "?pair r = ?pair r'" if "?part r = ?part r'" "r \<in> set (replay_rows org t0)" "r' \<in> set (replay_rows org t1)" for r r'
  proof -
    let ?h = "\<lambda>r. sha256 (payload_text iso_text (ev_payload r))"
    have h: "length (ev_id r) = 64" "is_hex_id 64 (?h r)" "length (ev_id r') = 64" "is_hex_id 64 (?h r')" using row [of r] row [of r'] that(2,3) by blast+
    then have "length (ev_id r) = length (ev_id r')" by simp
    then have e: "ev_id r = ev_id r'" "unhex (?h r) = unhex (?h r')" using that(1) by (simp_all add: replay_part_def)
    have l: "list_all is_hex (?h r)" "list_all is_hex (?h r')" "length (?h r) = length (?h r')" "even (length (?h r))"
      using h(2,4) by (simp_all only: is_hex_id_def) simp_all
    have "?h r = ?h r'" by (rule unhex_inject [OF l e(2)])
    then have "payload_text iso_text (ev_payload r) = payload_text iso_text (ev_payload r')"
      by (rule inj_onD [OF assms(4)]) (use that(2,3) in \<open>auto simp: replay_hashed_def\<close>)
    then show ?thesis using \<open>ev_id r = ev_id r'\<close> by simp
  qed
  ultimately show ?thesis by (rule map_eq_other)
qed

lemma dead_selection_rows: "dead_selection org t = Inr (rows, k) \<Longrightarrow> rows = replay_rows org t \<and> k = length (dead_rows org t)"
  by (auto simp: dead_selection_def replay_rows_def split: if_splits)

text \<open>
  C9. A replay acts on exactly what its preflight showed, unless two of the texts hashed for it collide: the dead events selected now have the identifiers and payloads of
  those selected then, these events and no others (of this organization or another) become pending again without attempts, and the count returned is theirs.
\<close>

theorem replay_acts_on_preview:
  assumes "(outbox_step sha256 iso_text until0)\<^sup>*\<^sup>* [] t0" "(outbox_step sha256 iso_text until1)\<^sup>*\<^sup>* [] t1"
    "preflight sha256 iso_text clock org t0 = Inr p" "replay_dead sha256 iso_text (Some now) org q t1 = (Inr (n, m), t2)"
    "rr_snapshot_digest q = rp_snapshot_digest p" "\<forall>x. is_hex_id 64 (sha256 x)"
    "inj_on sha256 (replay_hashed sha256 iso_text org t0 \<union> replay_hashed sha256 iso_text org t1)"
  shows "map (\<lambda>r. (ev_id r, payload_text iso_text (ev_payload r))) (replay_rows org t1) =
      map (\<lambda>r. (ev_id r, payload_text iso_text (ev_payload r))) (replay_rows org t0) \<and>
    n = rp_selected_events p \<and> m = length (dead_rows org t1) - n \<and>
    t2 = map (\<lambda>r. if ev_id r \<in> ev_id ` set (replay_rows org t0) then replayed_row now r else r) t1"
proof -
  have ok: "outbox_ok sha256 iso_text t0" "outbox_ok sha256 iso_text t1"
    using outbox_runs.run_inv [OF assms(1) empty_outbox_ok] outbox_runs.run_inv [OF assms(2) empty_outbox_ok] by blast+
  have p: "rp_snapshot_digest p = replay_digest sha256 iso_text org (replay_rows org t0)" "rp_selected_events p = length (replay_rows org t0)"
    using assms(3) by (auto simp: preflight_def res_simps dest!: dead_selection_rows)
  obtain rows total where rows: "dead_selection org t1 = Inr (rows, total)" "replay_digest sha256 iso_text org rows = rr_snapshot_digest q" "n = length rows"
      "m = total - length rows"
      "t2 = map (\<lambda>r. if ev_organization r = org \<and> ev_state r = EventDead \<and> ev_id r \<in> set (map ev_id rows) then replayed_row now r else r) t1"
    using replay_result [OF assms(4)] by auto
  note sel = dead_selection_rows [OF rows(1)]
  have same: "map (\<lambda>r. (ev_id r, payload_text iso_text (ev_payload r))) (replay_rows org t0) =
      map (\<lambda>r. (ev_id r, payload_text iso_text (ev_payload r))) (replay_rows org t1)"
    using replay_digest_determines [OF ok assms(6,7)] rows(2) sel assms(5) p(1) by simp
  have "map fst (map (\<lambda>r. (ev_id r, payload_text iso_text (ev_payload r))) (replay_rows org t0)) =
      map fst (map (\<lambda>r. (ev_id r, payload_text iso_text (ev_payload r))) (replay_rows org t1))" using same by (rule arg_cong)
  then have ids: "map ev_id (replay_rows org t1) = map ev_id (replay_rows org t0)" by (simp add: comp_def)
  have "ev_organization r = org \<and> ev_state r = EventDead" if r: "r \<in> set t1" "ev_id r \<in> set (map ev_id (replay_rows org t1))" for r
  proof -
    obtain x where x: "x \<in> set (replay_rows org t1)" "ev_id x = ev_id r" using r(2) by auto
    have "inj_on ev_id (set t1)" using ok(2) by (simp add: outbox_ok_def distinct_map)
    then have "r = x" using x replay_rows_mem [OF x(1)] r(1) by (metis inj_onD)
    then show ?thesis using replay_rows_mem [OF x(1)] by simp
  qed
  then have "t2 = map (\<lambda>r. if ev_id r \<in> set (map ev_id (replay_rows org t1)) then replayed_row now r else r) t1"
    unfolding rows(5) using sel by (auto intro!: map_cong)
  then have "t2 = map (\<lambda>r. if ev_id r \<in> ev_id ` set (replay_rows org t0) then replayed_row now r else r) t1" unfolding ids by simp
  moreover have "n = rp_selected_events p" using rows(3) sel p(2) arg_cong [OF ids, of length] by simp
  ultimately show ?thesis using same rows(3,4) sel by simp
qed

lemma replay_acts_on_preview_witness:
  "\<exists>p t2. preflight outbox_sha outbox_iso (Some 6) ''local-admin'' outbox_dead = Inr p \<and>
     replay_dead outbox_sha outbox_iso (Some 7) ''local-admin'' \<lparr>rr_observed_at = Some 6, rr_snapshot_digest = rp_snapshot_digest p\<rparr> outbox_dead = (Inr (1, 0), t2) \<and>
     rp_selected_events p = 1"
proof -
  let ?p = "\<lparr>rp_observed_at = 6, rp_expires_at = 6 + replay_ttl, rp_total_dead = 1, rp_selected_events = 1, rp_truncated = False,
    rp_snapshot_digest = replicate 64 CHR ''a''\<rparr>" and ?q = "\<lparr>rr_observed_at = Some 6, rr_snapshot_digest = replicate 64 CHR ''a''\<rparr>"
  have p: "preflight outbox_sha outbox_iso (Some 6) ''local-admin'' outbox_dead = Inr ?p" by code_simp
  have "fst (replay_dead outbox_sha outbox_iso (Some 7) ''local-admin'' ?q outbox_dead) = Inr (1, 0)" by code_simp
  then obtain t2 where r: "replay_dead outbox_sha outbox_iso (Some 7) ''local-admin'' ?q outbox_dead = (Inr (1, 0), t2)"
    by (cases "replay_dead outbox_sha outbox_iso (Some 7) ''local-admin'' ?q outbox_dead") simp
  have rows: "replay_rows ''local-admin'' outbox_dead =
    [(outbox_event CHR ''2'')\<lparr>ev_state := EventDead, ev_attempts := 1, ev_next_attempt := 5, ev_result := Some PermanentFailure\<rparr>]" by code_simp
  have "replay_digest outbox_sha outbox_iso ''local-admin'' (replay_rows ''local-admin'' outbox_dead) = replicate 64 CHR ''a''"
    "outbox_sha (payload_text outbox_iso (ev_payload (outbox_event CHR ''2''))) = replicate 64 CHR ''c''"
    "replicate 64 CHR ''a'' \<noteq> replicate 64 CHR ''c''" by code_simp+
  then have "inj_on outbox_sha (replay_hashed outbox_sha outbox_iso ''local-admin'' outbox_dead \<union> replay_hashed outbox_sha outbox_iso ''local-admin'' outbox_dead)"
    by (auto simp: replay_hashed_def rows replay_digest_def)
  from replay_acts_on_preview [OF outbox_dead_reachable outbox_dead_reachable p r _ _ this] show ?thesis using p r outbox_sha_hex by auto
qed


text \<open>
  The preflight does not expire with the replay it allowed: when the replayed event fails for good again within the five minutes, the same request is
  accepted a second time, since the digest does not cover the attempts or the time of failure.
\<close>

theorem second_replay_accepted:
  assumes "event_row_ok sha256 iso_text r" "ev_state r = EventDead" "t0 \<le> t1" "t1 \<le> t2" "t2 \<le> t3" "t3 \<le> t0 + replay_ttl"
    "preflight sha256 iso_text (Some t0) (ev_organization r) [r] = Inr p"
    "q = \<lparr>rr_observed_at = Some t0, rr_snapshot_digest = rp_snapshot_digest p\<rparr>"
  shows "\<exists>u v w x e d. replay_dead sha256 iso_text (Some t1) (ev_organization r) q [r] = (Inr (1, 0), u) \<and>
    claim_due (Some t1) u = (Inr (Some e), v) \<and> record_result (Some t2) (ev_id e) False False v = (Inr d, w) \<and> ev_state d = EventDead \<and>
    replay_dead sha256 iso_text (Some t3) (ev_organization r) q w = (Inr (1, 0), x)"
proof -
  let ?org = "ev_organization r"
  have org: "is_organization_id ?org" using assms(1) by (simp add: event_row_ok_def event_row_valid_def)
  have digest: "rp_snapshot_digest p = replay_digest sha256 iso_text ?org [x]" if "ev_id x = ev_id r" "ev_payload x = ev_payload r" for x
    using assms(7) assms(2) org that
    by (auto simp: preflight_def aware_def dead_selection_def dead_rows_def replay_max_events_def replay_digest_def replay_text_def replay_part_def)
  have replay: "replay_dead sha256 iso_text (Some t) ?org q [x] = (Inr (1, 0), [replayed_row t x])"
    if "ev_id x = ev_id r" "ev_payload x = ev_payload r" "ev_organization x = ?org" "ev_state x = EventDead" "t0 \<le> t" "t \<le> t0 + replay_ttl" for x t
    using that org digest [OF that(1,2)] unfolding assms(8)
    by (simp add: replay_dead_def aware_def dead_selection_def dead_rows_def replay_max_events_def Let_def)
  let ?u = "replayed_row t1 r"
  have ok: "outbox_ok sha256 iso_text [?u]" using replayed_row_ok [OF assms(1)] by (simp add: outbox_ok_def event_max_records_def)
  have rel: "release_expired t1 [?u] = [?u]" by (simp add: release_expired_def lease_expired_def replayed_row_def)
  have "due_events t1 (release_expired t1 [?u]) = [?u]" unfolding rel by (simp add: due_events_def replayed_row_def)
  from claim_head [OF ok this] obtain e where e: "claim_due (Some t1) [?u] = (Inr (Some e), [lease_row t1 (ev_id r) ?u])" "ev_id e = ev_id r"
    unfolding rel by auto
  let ?l = "lease_row t1 (ev_id r) ?u"
  have l: "outbox_ok sha256 iso_text [?l]" "ev_state ?l = EventDelivering" "ev_id ?l = ev_id r"
    using claim_keeps [OF ok, of "Some t1"] e(1) by (simp_all add: lease_row_def replayed_row_def)
  have d: "record_result (Some t2) (ev_id e) False False [?l] = (Inr (read_row (result_row t2 False False ?l)), [result_row t2 False False ?l])"
    using record_row [OF l(1) _ l(2)] l(2,3) e(2) by simp
  have same: "ev_payload (result_row t2 False False ?l) = ev_payload r" "ev_organization (result_row t2 False False ?l) = ?org"
    "ev_state (result_row t2 False False ?l) = EventDead"
    by (simp_all add: result_row_def Let_def lease_row_def replayed_row_def)
  show ?thesis using replay [of r t1] replay [of "result_row t2 False False ?l" t3] e d same l(3) assms(2-6)
    by (intro exI [of _ "[?u]"] exI [of _ "[?l]"] exI [of _ "[result_row t2 False False ?l]"] exI [of _ "[replayed_row t3 (result_row t2 False False ?l)]"]
        exI [of _ e] exI [of _ "read_row (result_row t2 False False ?l)"]) simp
qed

lemma second_replay_accepted_witness:
  "\<exists>p u v w x e d. preflight outbox_sha outbox_iso (Some 6) ''local-admin'' [hd outbox_dead] = Inr p \<and>
     replay_dead outbox_sha outbox_iso (Some 7) ''local-admin'' \<lparr>rr_observed_at = Some 6, rr_snapshot_digest = rp_snapshot_digest p\<rparr> [hd outbox_dead] = (Inr (1, 0), u) \<and>
     claim_due (Some 7) u = (Inr (Some e), v) \<and> record_result (Some 8) (ev_id e) False False v = (Inr d, w) \<and>
     replay_dead outbox_sha outbox_iso (Some 9) ''local-admin'' \<lparr>rr_observed_at = Some 6, rr_snapshot_digest = rp_snapshot_digest p\<rparr> w = (Inr (1, 0), x)"
proof -
  have org: "ev_organization (hd outbox_dead) = ''local-admin''" "ev_state (hd outbox_dead) = EventDead" by (simp_all add: outbox_dead_def outbox_event_def)
  have "event_row_ok outbox_sha outbox_iso (hd outbox_dead)" by code_simp
  moreover have "\<not> isl (preflight outbox_sha outbox_iso (Some 6) ''local-admin'' [hd outbox_dead])" by code_simp
  then obtain p where "preflight outbox_sha outbox_iso (Some 6) ''local-admin'' [hd outbox_dead] = Inr p"
    by (cases "preflight outbox_sha outbox_iso (Some 6) ''local-admin'' [hd outbox_dead]") auto
  ultimately show ?thesis
    using second_replay_accepted [of outbox_sha outbox_iso "hd outbox_dead" 6 7 8 9 p] org by (fastforce simp: replay_ttl_def seconds_def)
qed


end
