(* ===== verification/Spec2Isabelle.thy ===== *)
theory Spec2Isabelle
  imports
    Vulnerability_Correlation
    Repository_Import_Grants
    Active_Change_Approvals
    Remediation_Batches
    Recurrence_Invariants
    Audit_Operations
    Login_Security
    Outbox_Delivery
begin

text \<open>
  A verification library for the Inspectra backend (\<^verbatim>\<open>src/backend/app\<close>): the stores that decide who may do what and what is
  remembered of it, and the procedures that decide whether a component is affected by an advisory.

  \<^bold>\<open>The program.\<close> The backend keeps, for each organization, members and invitations, bearer tokens and grants for automation,
  approvals and schedules of active scans, triage decisions on findings, and an audit log. A request handler authenticates the caller (a session of
  \<^verbatim>\<open>auth.py\<close> or a token of \<^verbatim>\<open>automation_tokens.py\<close>), looks up the principal in \<^verbatim>\<open>team_identity.py\<close>, runs one operation of one store and records
  an event in \<^verbatim>\<open>product_audit.py\<close>. An active scan is requested and approved in \<^verbatim>\<open>active_change_approvals.py\<close>, or run again by the
  schedules of \<^verbatim>\<open>active_recurrence.py\<close>. Reports correlate the components found with public advisories (\<^verbatim>\<open>vulnerability_correlation.py\<close>,
  which calls \<^verbatim>\<open>version_matching.py\<close>), and users record decisions on the findings, singly or in batches (\<^verbatim>\<open>finding_lifecycle.py\<close>).

  \<^bold>\<open>Conventions.\<close> A raised exception is \<open>Inl\<close>, a returned value \<open>Inr\<close>. A store is a value that every operation takes and returns:
  a list of rows for a SQLite table, a record of tables for a database, an association list for a dict or a directory. A transaction that fails
  returns the value it was given. What the clock, the random source and a caller's callback return is an argument. SHA-256, PBKDF2, the text of
  a time stamp, the zone database, the redaction of secrets and the \<^verbatim>\<open>packaging\<close> library are parameters; a theorem that relies on them says so in its
  hypotheses. Instants are exact numbers of microseconds, texts are lists of code points below 256.

  \<^bold>\<open>Foundations.\<close> \<open>Inspectra_Prelude\<close> has the results, the operations of \<^verbatim>\<open>str\<close>, ordered dictionaries and the locale
  \<open>invariant_steps\<close> of runs that keep an invariant. \<open>Json_Text\<close> is \<^verbatim>\<open>json.dumps\<close>, \<open>Json_Unique\<close> shows that a text determines its document.
  \<open>File_Steps\<close> runs an operation one file-system step at a time, with a loss of power or an \<^verbatim>\<open>OSError\<close> at any chosen step.

  \<^bold>\<open>Versions and advisories.\<close> \<open>Version_Matching\<close> has every matcher of \<^verbatim>\<open>version_matching.py\<close> (npm, PyPI, Maven, NuGet, Cargo, Composer, Go);
  the locale \<open>version_order\<close>, interpreted on the three comparisons of the code, gives their laws. The lemmas show that the comparisons implement the
  precedence of the specifications, and that a verdict of a matcher is justified by the order. \<open>Vulnerability_Correlation\<close> has the
  normalization of OSV ranges and the decision procedure of \<^verbatim>\<open>vulnerability_correlation.py\<close>: a component is reported as not affected only if every
  affected range excludes its version; and bounded PyPI ranges never reach a verdict.

  \<^bold>\<open>Credentials.\<close> \<open>Credential_Store\<close> has the bearer format and the locale \<open>expiring_rows\<close>, which \<open>Automation_Tokens\<close> and
  \<open>Repository_Import_Grants\<close> interpret on their rows. The lemmas show the limits on active rows over all runs, how many requests an hour admits (twice what the documentation
  says), that revocation is permanent and that a grant is spent at most once. \<open>Auth_Stores\<close> has the sessions, login attempts and password hashes of \<^verbatim>\<open>auth.py\<close>,
  \<open>Auth_State_Sqlite\<close> the stores of \<^verbatim>\<open>auth_state_sqlite.py\<close> that replace them when the state is persistent. \<open>Auth_State_Refinement\<close> shows that the
  attempt store over SQLite answers like the in-memory one within the limit on clients, and what it does beyond; both session stores are instances of the
  locale \<open>session_provider\<close>: a session that was ended is never returned again, and a restart keeps the others.

  \<^bold>\<open>Team identity.\<close> \<open>Team_Identity\<close> has every operation of \<^verbatim>\<open>team_identity.py\<close> over a record of its six tables, with primary keys, unique columns and
  foreign keys. \<open>Team_Invariants\<close> has the step relation \<open>team_step\<close>, one rule for each operation, and shows that each keeps the invariant
  \<open>team_ok\<close>. \<open>Team_Security\<close> shows what holds in every run: every organization keeps an administrator, a revoked member never acts
  again, an invitation is accepted once, a federated subject stays with its user, the lookups of attestations agree; and that
  two operations can be blocked for good. \<open>Team_Samples\<close> is the run the witnesses use.

  \<^bold>\<open>Signing in.\<close> \<open>Login_Gate\<close> composes these stores as the handlers of \<^verbatim>\<open>main.py\<close> do: the login with its throttle, the logout, the acceptance of an invitation,
  the choice of an organization, the change of a role, the revocation of a member, and the check of session, CSRF token and role before a request.
  \<open>Login_Security\<close> states what the attempt store owes the login as the locale \<open>attempt_provider\<close>, interpreted on the in-memory and on the SQLite store, and shows that
  repeated failures lock the login (and that an own right login in between prevents it), that who logged in is let through until the session ends, and that a member who was
  revoked is not, whatever sessions are left.

  \<^bold>\<open>Integration events.\<close> \<open>Event_Outbox\<close> has \<^verbatim>\<open>integration_events.py\<close>: the outbox of signed events with its leases, retries, retention and replays, the check of the
  configuration, a delivery (the resolver and the HTTP client are parameters) and the dispatcher. \<open>Outbox_Delivery\<close> has the relation \<open>outbox_step\<close> and
  shows its invariant, that a delivered event is not sent again while its receipt is kept, that each claim takes the event that is due first at its clock
  reading, that a replay acts on what its preflight
  showed and that requests go only to public addresses; and three runs that the documentation excludes.

  \<^bold>\<open>Approvals and schedules.\<close> \<open>Active_Change_Approvals\<close> has the store of \<^verbatim>\<open>active_change_approvals.py\<close> with the validators of its models:
  no change is claimed without the approval of another administrator, terminal records stay as they are, and what is stored is valid,
  although it may be too long to be loaded. \<open>Recurrence_Windows\<close>, \<open>Active_Recurrence\<close> and \<open>Recurrence_Invariants\<close> have \<^verbatim>\<open>active_recurrence.py\<close> and
  its projection \<^verbatim>\<open>active_recurrence_index.py\<close>: the search for the next window, the operations, and the relation \<open>recurrence_step\<close>; the paged query of the
  projection implements a filter over the files, schedules never run after their authorization ends, and a due run is dispatched once.

  \<^bold>\<open>Decisions.\<close> \<open>Finding_Decisions\<close> and \<open>Remediation_Batches\<close> have the two halves of \<^verbatim>\<open>finding_lifecycle.py\<close>. The validation of a chain
  accepts exactly the histories, recording extends one history, and a batch is atomic: whatever step it is stopped at, recovery makes all of its
  decisions visible or none. Three interruptions or limits that recovery does not repair are theorems too.

  \<^bold>\<open>Audit log.\<close> \<open>Product_Audit\<close> has \<^verbatim>\<open>product_audit.py\<close> as file-system steps. \<open>Audit_Integrity\<close> shows that the head of the hash chain determines the events unless two
  of the texts that were hashed collide; \<open>Audit_Operations\<close> that the operations implement a list of events (an instance of the locale
  \<open>retained_log\<close>), and that a power loss while an event is recorded can leave a log that every later operation refuses.

  \<^bold>\<open>Bounds and fuel.\<close> No definition has fuel: loops over pages, windows and chains are functions with a termination proof or recursions over the rows
  there are. A fault of \<open>File_Steps\<close> is a number of steps, and the theorems hold for each. Limits of the code
  (rows, pages, sizes, days) are kept as they are.

  \<^bold>\<open>Abstractions.\<close> Failures of SQLite other than violated constraints are flags or are left out; file modes, symbolic links and locks are left out,
  operations of one store run one after the other. The counter for the metadata of the recurrence directory assumes that the application
  is the only writer. Numbers in the metadata of audit events are integers. The years of \<^verbatim>\<open>datetime\<close> are unbounded.

  \<^bold>\<open>Not modelled.\<close> \<^verbatim>\<open>tools/runner\<close> consists of text heuristics over uploaded archives with no state of their own. The other handlers of \<^verbatim>\<open>main.py\<close>, \<^verbatim>\<open>reporting.py\<close>, \<^verbatim>\<open>storage.py\<close> and
  \<^verbatim>\<open>backup.py\<close> route requests, render documents and lay out files and archives; their behaviour is mostly that of the web framework and of the operating
  system. The dependency graph contracts validate documents of package managers, the risk trend clock stamps reporting
  sources, and the active runner executes containers: of it only the target policy the approvals and schedules call is modelled, in their theories.
\<close>

end
